(* ===== verification/Prelude.thy ===== *)
theory Prelude
  imports Main "HOL-Library.Product_Lexorder" "HOL-Library.List_Lexorder" "HOL-Library.Char_ord"
    "HOL-Library.Multiset"
begin

section \<open>Shared vocabulary of the development\<close>

text \<open>
  What every component theory uses: the result type of fallible TypeScript code (an exception is
  a left value), sequencing of such results, JavaScript's safe integers, sums over lists of rows,
  updates of one row of a table, decimal numerals and colon-separated keys as the server writes
  them into the database, and the collections of facts the component proofs rest on.
\<close>

named_theorems credit_simps "unfolding rules of the credit components"
named_theorems result_simps "inversion rules for results"

subsection \<open>Results: a thrown exception is a left value\<close>

text \<open>
  \<open>RangeError\<close> and \<open>PlainError\<close> are the exceptions the TypeScript code throws itself;
  \<open>SqlError\<close> carries the SQLSTATE Postgres raises from a CHECK, a foreign key, a unique index or
  a trigger; the others are the error classes of \<^verbatim>\<open>db/credit-ledger-repo.ts\<close>, \<^verbatim>\<open>db/credit-windows-repo.ts\<close>
  and \<^verbatim>\<open>services/credit-clawbacks.ts\<close>.
\<close>

datatype fault =
    RangeError
  | PlainError
  | SqlError nat
  | CreditLedgerKeyReusedError
  | CreditLotGrantKeyReusedError
  | CreditLegacyDisputeError
  | CreditReversalAwaitsPaymentError

type_synonym 'a result = "fault + 'a"

definition rbind :: "'a result \<Rightarrow> ('a \<Rightarrow> 'b result) \<Rightarrow> 'b result" where
  "rbind m f = (case m of Inl e \<Rightarrow> Inl e | Inr x \<Rightarrow> f x)"

definition require :: "bool \<Rightarrow> fault \<Rightarrow> unit result" where
  "require b e = (if b then Inr () else Inl e)"

lemma rbind_simps [simp]:
  "rbind (Inl e) f = Inl e"
  "rbind (Inr x) f = f x"
  by (simp_all add: rbind_def)

lemma rbind_eq_Inr [result_simps]: "rbind m f = Inr y \<longleftrightarrow> (\<exists>x. m = Inr x \<and> f x = Inr y)"
  by (cases m) auto

lemma rbind_eq_Inl [result_simps]:
  "rbind m f = Inl e \<longleftrightarrow> m = Inl e \<or> (\<exists>x. m = Inr x \<and> f x = Inl e)"
  by (cases m) auto

lemma rbind_assoc: "rbind (rbind m f) g = rbind m (\<lambda>x. rbind (f x) g)"
  by (cases m) auto

lemma rbind_cong [fundef_cong]:
  "m = m' \<Longrightarrow> (\<And>x. m' = Inr x \<Longrightarrow> f x = g x) \<Longrightarrow> rbind m f = rbind m' g"
  by (cases m') auto

lemma require_eq_Inr [result_simps]: "require b e = Inr u \<longleftrightarrow> b"
  by (simp add: require_def)

lemma require_eq_Inl [result_simps]: "require b e = Inl e' \<longleftrightarrow> \<not> b \<and> e' = e"
  by (auto simp: require_def)

lemma require_simps [simp]: "require True e = Inr ()" "require False e = Inl e"
  by (simp_all add: require_def)

text \<open>Running an operation on each element of a list, threading a state, stopping at an error.\<close>

fun foldr_result :: "('s \<Rightarrow> 'x \<Rightarrow> 's result) \<Rightarrow> 's \<Rightarrow> 'x list \<Rightarrow> 's result" where
  "foldr_result f s [] = Inr s"
| "foldr_result f s (x # xs) = rbind (f s x) (\<lambda>s'. foldr_result f s' xs)"

text \<open>A property every successful step keeps is kept by a successful loop.\<close>

lemma foldr_result_invariant:
  assumes "foldr_result f s xs = Inr t" and "P s"
    and "\<And>s x s'. x \<in> set xs \<Longrightarrow> P s \<Longrightarrow> f s x = Inr s' \<Longrightarrow> P s'"
  shows "P t"
  using assms
proof (induction xs arbitrary: s)
  case Nil
  then show ?case by simp
next
  case (Cons x xs)
  from Cons.prems(1) obtain s' where step: "f s x = Inr s'" and rest: "foldr_result f s' xs = Inr t"
    by (auto simp: rbind_eq_Inr)
  from Cons.prems(2,3) step have "P s'" by (meson list.set_intros(1))
  with rest Cons.prems(3) show ?case by (meson Cons.IH list.set_intros(2))
qed

subsection \<open>JavaScript's safe integers\<close>

text \<open>
  \<^verbatim>\<open>Number.MAX_SAFE_INTEGER\<close>. Amounts in the server are JavaScript numbers that every function
  checks with \<^verbatim>\<open>Number.isSafeInteger\<close>; the model's amounts are mathematical integers with the same
  check written out. A number that is no integer at all (a fraction, \<^verbatim>\<open>NaN\<close>) fails that check too
  and has no value in the model.
\<close>

definition MAX_SAFE :: int where
  "MAX_SAFE = 9007199254740991"

definition safe_int :: "int \<Rightarrow> bool" where
  "safe_int v \<longleftrightarrow> - MAX_SAFE \<le> v \<and> v \<le> MAX_SAFE"

lemma safe_int_bounds: "safe_int v \<longleftrightarrow> \<bar>v\<bar> \<le> MAX_SAFE"
  by (auto simp: safe_int_def)

lemma MAX_SAFE_pos [simp]: "0 < MAX_SAFE" "0 \<le> MAX_SAFE" "1 \<le> MAX_SAFE"
  by (simp_all add: MAX_SAFE_def)

lemma safe_int_0 [simp]: "safe_int 0"
  by (simp add: safe_int_def)

lemma safe_int_between: "0 \<le> v \<Longrightarrow> v \<le> w \<Longrightarrow> safe_int w \<Longrightarrow> safe_int v"
  by (simp add: safe_int_def)

lemma le_div_int_iff:
  fixes k b x :: int
  assumes "0 < b"
  shows "k \<le> x div b \<longleftrightarrow> k * b \<le> x"
proof
  assume "k \<le> x div b"
  then have "k * b \<le> x div b * b" using assms by (intro mult_right_mono) auto
  also have "\<dots> \<le> x" using assms by (metis add_le_same_cancel1 div_mult_mod_eq pos_mod_sign le_add_same_cancel1)
  finally show "k * b \<le> x" .
next
  assume "k * b \<le> x"
  then have "k * b div b \<le> x div b" using assms by (rule zdiv_mono1)
  with assms show "k \<le> x div b" by simp
qed

subsection \<open>Sums over the rows of a table\<close>

definition sum_by :: "('r \<Rightarrow> int) \<Rightarrow> 'r list \<Rightarrow> int" where
  "sum_by f rs = sum_list (map f rs)"

lemma sum_by_simps [simp]:
  "sum_by f [] = 0"
  "sum_by f (r # rs) = f r + sum_by f rs"
  "sum_by f (rs @ ss) = sum_by f rs + sum_by f ss"
  by (simp_all add: sum_by_def)

lemma sum_by_nonneg: "(\<And>r. r \<in> set rs \<Longrightarrow> 0 \<le> f r) \<Longrightarrow> 0 \<le> sum_by f rs"
  by (induction rs) (auto intro: add_nonneg_nonneg)

lemma sum_by_mono: "(\<And>r. r \<in> set rs \<Longrightarrow> f r \<le> g r) \<Longrightarrow> sum_by f rs \<le> sum_by g rs"
  by (induction rs) (auto intro: add_mono)

lemma sum_by_cong: "(\<And>r. r \<in> set rs \<Longrightarrow> f r = g r) \<Longrightarrow> sum_by f rs = sum_by g rs"
  by (induction rs) auto

lemma sum_by_zero: "(\<And>r. r \<in> set rs \<Longrightarrow> f r = 0) \<Longrightarrow> sum_by f rs = 0"
  by (induction rs) auto

lemma sum_by_add: "sum_by (\<lambda>r. f r + g r) rs = sum_by f rs + sum_by g rs"
  by (induction rs) auto

lemma sum_by_diff: "sum_by (\<lambda>r. f r - g r) rs = sum_by f rs - sum_by g rs"
  by (induction rs) auto

lemma sum_by_map: "sum_by f (map g rs) = sum_by (\<lambda>r. f (g r)) rs"
  by (induction rs) auto

lemma sum_by_mset: "mset rs = mset ss \<Longrightarrow> sum_by f rs = sum_by f ss"
  unfolding sum_by_def by (metis mset_map sum_mset_sum_list)

lemma sum_by_filter_le:
  "(\<And>r. r \<in> set rs \<Longrightarrow> \<not> P r \<Longrightarrow> 0 \<le> f r) \<Longrightarrow> sum_by f (filter P rs) \<le> sum_by f rs"
  by (induction rs) (auto intro: add_increasing add_left_mono)

lemma sum_by_filter_split: "sum_by f rs = sum_by f (filter P rs) + sum_by f (filter (\<lambda>r. \<not> P r) rs)"
  by (induction rs) auto

lemma sum_by_member_le:
  "r \<in> set rs \<Longrightarrow> (\<And>s. s \<in> set rs \<Longrightarrow> 0 \<le> f s) \<Longrightarrow> f r \<le> sum_by f rs"
proof (induction rs)
  case (Cons s rs)
  then show ?case
    by (cases "r = s") (auto intro: sum_by_nonneg add_increasing)
qed simp

lemma sum_by_pos_iff:
  "(\<And>r. r \<in> set rs \<Longrightarrow> 0 \<le> f r) \<Longrightarrow> 0 < sum_by f rs \<longleftrightarrow> (\<exists>r\<in>set rs. 0 < f r)"
proof (induction rs)
  case (Cons r rs)
  then have nonneg: "0 \<le> f r" "0 \<le> sum_by f rs" by (auto intro: sum_by_nonneg)
  then have "0 < sum_by f (r # rs) \<longleftrightarrow> 0 < f r \<or> 0 < sum_by f rs" by auto
  with Cons show ?case by auto
qed simp


lemma sum_by_filter_if: "sum_by f (filter P rs) = sum_by (\<lambda>r. if P r then f r else 0) rs"
  by (induction rs) auto

text \<open>
  Drawing an amount from a list of purses in order, each emptied before the next is touched: the
  reference against which holds and repayments are compared.
\<close>

fun draw :: "int \<Rightarrow> ('k \<times> int) list \<Rightarrow> ('k \<times> int) list" where
  "draw need [] = []"
| "draw need ((k, f) # ps) = (if need \<le> 0 then [] else (k, min f need) # draw (need - min f need) ps)"

lemma draw_idle: "need \<le> 0 \<Longrightarrow> draw need ps = []"
  by (cases ps) auto

lemma draw_sum:
  "0 \<le> need \<Longrightarrow> (\<And>p. p \<in> set ps \<Longrightarrow> 0 \<le> snd p) \<Longrightarrow> sum_by snd (draw need ps) = min need (sum_by snd ps)"
proof (induction need ps rule: draw.induct)
  case (2 need k f ps)
  from "2.prems"(2) [of "(k, f)"] have "0 \<le> f" by simp
  moreover have "0 \<le> sum_by snd ps" using "2.prems"(2) by (intro sum_by_nonneg) simp
  ultimately show ?case using 2 by (auto simp: min_def)
qed simp

lemma draw_member:
  "(i, x) \<in> set (draw need ps) \<Longrightarrow> (\<And>p. p \<in> set ps \<Longrightarrow> 0 < snd p) \<Longrightarrow>
     0 < x \<and> (\<exists>f. (i, f) \<in> set ps \<and> x \<le> f)"
proof (induction need ps rule: draw.induct)
  case (2 need k f ps)
  from "2.prems"(2) [of "(k, f)"] have "0 < f" by simp
  with 2 show ?case by (cases "need \<le> 0") auto
qed simp

lemma draw_keys: "\<exists>n. map fst (draw need ps) = take n (map fst ps)"
proof (induction need ps rule: draw.induct)
  case (2 need k f ps)
  show ?case
  proof (cases "need \<le> 0")
    case True
    then show ?thesis by (intro exI [of _ 0]) simp
  next
    case False
    with 2 obtain n where "map fst (draw (need - min f need) ps) = take n (map fst ps)" by blast
    with False show ?thesis by (intro exI [of _ "Suc n"]) simp
  qed
qed simp

text \<open>Every purse before the last one drawn from is drawn in full.\<close>

lemma draw_full:
  "(\<And>p. p \<in> set ps \<Longrightarrow> 0 < snd p) \<Longrightarrow> Suc n < length (draw need ps) \<Longrightarrow> draw need ps ! n = ps ! n"
proof (induction need ps arbitrary: n rule: draw.induct)
  case (2 need k f ps)
  then have pos: "\<not> need \<le> 0" by auto
  show ?case
  proof (cases n)
    case 0
    with "2.prems"(2) pos have "draw (need - min f need) ps \<noteq> []" by auto
    then have "\<not> need - min f need \<le> 0" by (metis draw_idle)
    with 0 pos show ?thesis by (simp add: min_def split: if_splits)
  next
    case (Suc m)
    with 2 pos show ?thesis by simp
  qed
qed simp

subsection \<open>Tables: rows found and updated by their key\<close>

definition lookup_by :: "('r \<Rightarrow> 'k) \<Rightarrow> 'k \<Rightarrow> 'r list \<Rightarrow> 'r option" where
  "lookup_by key k rs = find (\<lambda>r. key r = k) rs"

definition update_where :: "('r \<Rightarrow> bool) \<Rightarrow> ('r \<Rightarrow> 'r) \<Rightarrow> 'r list \<Rightarrow> 'r list" where
  "update_where P f rs = map (\<lambda>r. if P r then f r else r) rs"

lemma lookup_by_simps [simp]:
  "lookup_by key k [] = None"
  "lookup_by key k (r # rs) = (if key r = k then Some r else lookup_by key k rs)"
  by (simp_all add: lookup_by_def)

lemma find_append_if:
  "find P (rs @ ss) = (case find P rs of None \<Rightarrow> find P ss | Some r \<Rightarrow> Some r)"
  by (induction rs) auto

lemma update_where_simps [simp]:
  "update_where P f [] = []"
  "update_where P f (r # rs) = (if P r then f r else r) # update_where P f rs"
  "update_where P f (rs @ ss) = update_where P f rs @ update_where P f ss"
  "length (update_where P f rs) = length rs"
  by (simp_all add: update_where_def)

lemma update_where_idle: "(\<And>r. r \<in> set rs \<Longrightarrow> \<not> P r) \<Longrightarrow> update_where P f rs = rs"
  by (induction rs) auto

lemma lookup_by_Some: "lookup_by key k rs = Some r \<Longrightarrow> r \<in> set rs \<and> key r = k"
  by (induction rs) (auto split: if_splits)

lemma lookup_by_None: "lookup_by key k rs = None \<longleftrightarrow> k \<notin> key ` set rs"
  by (induction rs) auto

lemma lookup_by_member:
  "distinct (map key rs) \<Longrightarrow> r \<in> set rs \<Longrightarrow> lookup_by key (key r) rs = Some r"
  by (induction rs) auto

lemma lookup_by_append:
  "lookup_by key k (rs @ ss) = (case lookup_by key k rs of None \<Rightarrow> lookup_by key k ss | Some r \<Rightarrow> Some r)"
  by (induction rs) auto

lemma update_where_cong: "(\<And>r. r \<in> set rs \<Longrightarrow> P r = Q r) \<Longrightarrow> update_where P f rs = update_where Q f rs"
  by (induction rs) auto

text \<open>The rows an UPDATE guarded by its primary key selects: the one row, or none.\<close>

lemma filter_by_key:
  assumes "distinct (map key rs)" and "lookup_by key k rs = Some r" and "\<And>q. P q \<Longrightarrow> key q = k"
  shows "filter P rs = (if P r then [r] else [])"
  using assms(1,2)
proof (induction rs)
  case (Cons q rs)
  show ?case
  proof (cases "key q = k")
    case True
    with Cons.prems have "q = r" and "k \<notin> key ` set rs" by auto
    moreover from this(2) have "filter P rs = []" using assms(3) by (auto simp: filter_empty_conv)
    ultimately show ?thesis by simp
  next
    case False
    with assms(3) [of q] Cons show ?thesis by auto
  qed
qed simp

lemma set_update_where: "set (update_where P f rs) = f ` {r \<in> set rs. P r} \<union> {r \<in> set rs. \<not> P r}"
  by (auto simp: update_where_def)

text \<open>
  An \<^verbatim>\<open>UPDATE\<close> of one row that keeps its primary key. Every update statement of the credit tables
  satisfies this contract; the locale's lemmas say what such an update does to the keys, to a
  lookup and to a sum over the table, and the component theories interpret it once per statement.
\<close>

locale row_update =
  fixes key :: "'r \<Rightarrow> 'k" and upd :: "'a \<Rightarrow> 'r \<Rightarrow> 'r"
  assumes key_upd: "key (upd a r) = key r"
begin

lemma keys: "map key (update_where P (upd a) rs) = map key rs"
  by (induction rs) (auto simp: key_upd)

lemma key_set: "key ` set (update_where P (upd a) rs) = key ` set rs"
  by (metis keys list.set_map)

lemma lookup:
  "lookup_by key k (update_where (\<lambda>r. key r = k') (upd a) rs) =
     (if k = k' then map_option (upd a) (lookup_by key k rs) else lookup_by key k rs)"
  by (induction rs) (auto simp: key_upd)

lemma sum:
  assumes "distinct (map key rs)" and "lookup_by key k rs = Some r"
  shows "sum_by f (update_where (\<lambda>r. key r = k) (upd a) rs) = sum_by f rs - f r + f (upd a r)"
  using assms
proof (induction rs)
  case Nil
  then show ?case by simp
next
  case (Cons q rs)
  show ?case
  proof (cases "key q = k")
    case True
    with Cons.prems(1) have "k \<notin> key ` set rs" by simp
    then have "update_where (\<lambda>r. key r = k) (upd a) rs = rs"
      by (intro update_where_idle) blast
    with True Cons.prems show ?thesis by simp
  next
    case False
    with Cons show ?thesis by simp
  qed
qed

lemma member:
  assumes "distinct (map key rs)" and "lookup_by key k rs = Some r"
  shows "q \<in> set (update_where (\<lambda>r. key r = k) (upd a) rs) \<longleftrightarrow>
    q = upd a r \<or> (q \<in> set rs \<and> key q \<noteq> k)"
proof -
  from assms(2) have r: "r \<in> set rs" "key r = k" by (auto dest: lookup_by_Some)
  have "s = r" if "s \<in> set rs" "key s = k" for s
    using lookup_by_member [OF assms(1) that(1)] assms(2) that(2) by simp
  with r have "{s \<in> set rs. key s = k} = {r}" by blast
  then show ?thesis by (simp add: set_update_where)
qed

end

subsection \<open>Colon-separated keys\<close>

text \<open>
  The server builds idempotency keys, grant keys and target keys from uuids and counters with
  template literals such as \<^verbatim>\<open>task_charge:${reservationId}:${lotId}\<close>. \<open>colon_join\<close> is that literal;
  its parts can be read back whenever none of them contains a colon, as no uuid does.
\<close>

fun colon_join :: "string list \<Rightarrow> string" where
  "colon_join [] = []"
| "colon_join [x] = x"
| "colon_join (x # y # zs) = x @ CHR '':'' # colon_join (y # zs)"

definition colon_free :: "string \<Rightarrow> bool" where
  "colon_free s \<longleftrightarrow> CHR '':'' \<notin> set s"

lemma append_colon_inject:
  "colon_free x \<Longrightarrow> colon_free y \<Longrightarrow> x @ CHR '':'' # s = y @ CHR '':'' # t \<Longrightarrow> x = y \<and> s = t"
proof (induction x arbitrary: y)
  case Nil
  then show ?case by (cases y) (auto simp: colon_free_def)
next
  case (Cons a x)
  then show ?case by (cases y) (auto simp: colon_free_def)
qed

lemma colon_join_inject:
  assumes "xs \<noteq> []" "ys \<noteq> []" "\<forall>x\<in>set xs. colon_free x" "\<forall>y\<in>set ys. colon_free y"
    and "colon_join xs = colon_join ys"
  shows "xs = ys"
  using assms
proof (induction xs arbitrary: ys rule: colon_join.induct)
  case 1
  then show ?case by simp
next
  case (2 x)
  then show ?case by (cases ys rule: colon_join.cases) (auto simp: colon_free_def)
next
  case (3 x y zs)
  then show ?case
  proof (cases ys rule: colon_join.cases)
    case (3 x' y' zs')
    with "3.prems" have "x = x'" and "colon_join (y # zs) = colon_join (y' # zs')"
      by (auto dest: append_colon_inject)
    with 3 "3.prems" "3.IH" [of "y' # zs'"] show ?thesis by simp
  qed (auto simp: colon_free_def)
qed

declare colon_join.simps [simp del]

text \<open>Decimal numerals, as \<^verbatim>\<open>String(n)\<close> and Postgres's \<^verbatim>\<open>||\<close> print a count.\<close>

definition digit :: "nat \<Rightarrow> char" where
  "digit d = char_of (48 + d)"

fun dec :: "nat \<Rightarrow> string" where
  "dec n = (if n < 10 then [digit n] else dec (n div 10) @ [digit (n mod 10)])"

declare dec.simps [simp del]

lemma digit_inject: "a < 10 \<Longrightarrow> b < 10 \<Longrightarrow> digit a = digit b \<longleftrightarrow> a = b"
  by (auto simp: digit_def char_of_eq_iff take_bit_eq_mod)

lemma digit_not_colon: "d < 10 \<Longrightarrow> digit d \<noteq> CHR '':''"
  by (simp add: digit_def char_of_eq_iff take_bit_eq_mod)

lemma dec_nonempty [simp]: "dec n \<noteq> []" "[] \<noteq> dec n"
  by (subst dec.simps, simp)+

lemma colon_free_dec [simp]: "colon_free (dec n)"
proof (induction n rule: dec.induct)
  case (1 n)
  have "digit (n mod 10) \<noteq> CHR '':''" by (rule digit_not_colon) simp
  with 1 show ?case
    by (cases "n < 10") (auto simp: dec.simps [of n] colon_free_def dest: digit_not_colon)
qed

lemma dec_inject: "dec m = dec n \<Longrightarrow> m = n"
proof (induction m arbitrary: n rule: dec.induct)
  case (1 m)
  show ?case
  proof (cases "m < 10")
    case True
    with "1.prems" show ?thesis
      by (cases "n < 10") (simp_all add: dec.simps [of m] dec.simps [of n] digit_inject)
  next
    case False
    with "1.prems" have n: "\<not> n < 10"
      by (auto simp: dec.simps [of m] dec.simps [of n])
    with False "1.prems" have "dec (m div 10) = dec (n div 10)" "m mod 10 = n mod 10"
      by (auto simp: dec.simps [of m] dec.simps [of n] digit_inject)
    with False "1.IH" have "m div 10 = n div 10" "m mod 10 = n mod 10" by blast+
    then show ?thesis by (metis div_mult_mod_eq)
  qed
qed


lemma length_dec: "n < 10 ^ k \<Longrightarrow> 0 < k \<Longrightarrow> length (dec n) \<le> k"
proof (induction n arbitrary: k rule: dec.induct)
  case (1 n)
  show ?case
  proof (cases "n < 10")
    case True
    with 1 show ?thesis by (simp add: dec.simps [of n])
  next
    case False
    with "1.prems" have "k \<noteq> 1" by auto
    with "1.prems"(2) obtain j where j: "k = Suc j" "0 < j" by (cases k) auto
    with "1.prems" have "n div 10 < 10 ^ j" by (simp add: less_mult_imp_div_less mult.commute)
    with False j "1.IH" show ?thesis by (simp add: dec.simps [of n])
  qed
qed

end
