(* ===== verification/Credit_Arith.thy ===== *)
theory Credit_Arith
  imports Prelude
begin

section \<open>Credit arithmetic: the unit, the rate card, what a call costs at most\<close>

text \<open>
  The pure part of \<^verbatim>\<open>packages/api-types/src/ai-credits.ts\<close> (and the token record of
  \<^verbatim>\<open>agent-models.ts\<close>): whole credits and microcredits, the plan table, rate card version 1, the
  exact charge of one model call, its upper bound, proration, and the UTF-8 length of a string.
  Amounts are integers; every \<^verbatim>\<open>RangeError\<close> of the code is a left value. BigInt intermediate
  products are mathematical integers, and \<open>toSafeNumber\<close> is the point where they come back.
\<close>

subsection \<open>Checks\<close>

definition MICROCREDITS_PER_CREDIT :: int where
  "MICROCREDITS_PER_CREDIT = 1000000"

definition MICRO_PER_DISPLAY_STEP :: int where
  "MICRO_PER_DISPLAY_STEP = 1000"

definition REQUEST_FRAMING_TOKENS :: int where
  "REQUEST_FRAMING_TOKENS = 2048"

definition requireSafeInteger :: "int \<Rightarrow> unit result" where
  "requireSafeInteger v = require (safe_int v) RangeError"

definition requireNonNegativeSafeInteger :: "int \<Rightarrow> unit result" where
  "requireNonNegativeSafeInteger v =
     rbind (requireSafeInteger v) (\<lambda>_. require (\<not> v < 0) RangeError)"

definition toSafeNumber :: "int \<Rightarrow> int result" where
  "toSafeNumber v = (if v > MAX_SAFE \<or> v < - MAX_SAFE then Inl RangeError else Inr v)"

lemma requireSafeInteger_Inr [result_simps]: "requireSafeInteger v = Inr u \<longleftrightarrow> safe_int v"
  by (simp add: requireSafeInteger_def result_simps)

lemma requireNonNegativeSafeInteger_Inr [result_simps]:
  "requireNonNegativeSafeInteger v = Inr u \<longleftrightarrow> 0 \<le> v \<and> v \<le> MAX_SAFE"
  by (auto simp: requireNonNegativeSafeInteger_def result_simps safe_int_def)

lemma toSafeNumber_Inr [result_simps]: "toSafeNumber v = Inr w \<longleftrightarrow> w = v \<and> safe_int v"
  by (auto simp: toSafeNumber_def safe_int_def)

subsection \<open>Whole credits and microcredits\<close>

definition creditsToMicro :: "int \<Rightarrow> int result" where
  "creditsToMicro credits =
     rbind (requireSafeInteger credits) (\<lambda>_. toSafeNumber (credits * MICROCREDITS_PER_CREDIT))"

definition microToCreditsFloor :: "int \<Rightarrow> int result" where
  "microToCreditsFloor micro =
     rbind (requireNonNegativeSafeInteger micro) (\<lambda>_.
       Inr ((micro - micro mod MICROCREDITS_PER_CREDIT) div MICROCREDITS_PER_CREDIT))"

definition microToCreditsCeil :: "int \<Rightarrow> int result" where
  "microToCreditsCeil micro =
     rbind (microToCreditsFloor micro) (\<lambda>down.
       Inr (if micro mod MICROCREDITS_PER_CREDIT = 0 then down else down + 1))"

definition floorMicroToWholeCredits :: "int \<Rightarrow> int result" where
  "floorMicroToWholeCredits micro =
     rbind (microToCreditsFloor micro) (\<lambda>down. Inr (down * MICROCREDITS_PER_CREDIT))"

definition ceilMicroToWholeCredits :: "int \<Rightarrow> int result" where
  "ceilMicroToWholeCredits micro = rbind (microToCreditsCeil micro) creditsToMicro"

text \<open>
  What a customer is shown, in thousandths of a credit: the code's last step divides this integer
  by 1000, which only chooses the double that prints as the three decimals.
\<close>

datatype direction = Up | Down

definition microToDisplay :: "int \<Rightarrow> direction \<Rightarrow> int result" where
  "microToDisplay micro direction =
     rbind (requireNonNegativeSafeInteger micro) (\<lambda>_.
       let remainder = micro mod MICRO_PER_DISPLAY_STEP;
           steps = (micro - remainder) div MICRO_PER_DISPLAY_STEP
       in Inr (if direction = Up \<and> remainder > 0 then steps + 1 else steps))"

definition chargeCreditsForDisplay :: "int \<Rightarrow> int result" where
  "chargeCreditsForDisplay micro = microToDisplay micro Up"

definition balanceCreditsForDisplay :: "int \<Rightarrow> int result" where
  "balanceCreditsForDisplay micro = microToDisplay micro Down"

subsection \<open>What each plan includes\<close>

datatype AccountTier =
    tier_free | solo_manual | team_manual | agency_manual | api_starter | api_builder | api_scale | enterprise

datatype monthlyCredits = Credits int | Contract

record AiPlanEntitlement =
  aiIncluded :: bool
  ownKeyAllowed :: bool
  monthlyCredits :: monthlyCredits

fun AI_PLAN_ENTITLEMENTS :: "AccountTier \<Rightarrow> AiPlanEntitlement" where
  "AI_PLAN_ENTITLEMENTS tier_free = \<lparr>aiIncluded = False, ownKeyAllowed = False, monthlyCredits = Credits 0\<rparr>"
| "AI_PLAN_ENTITLEMENTS solo_manual = \<lparr>aiIncluded = True, ownKeyAllowed = False, monthlyCredits = Credits 1500\<rparr>"
| "AI_PLAN_ENTITLEMENTS team_manual = \<lparr>aiIncluded = True, ownKeyAllowed = True, monthlyCredits = Credits 5000\<rparr>"
| "AI_PLAN_ENTITLEMENTS agency_manual = \<lparr>aiIncluded = True, ownKeyAllowed = True, monthlyCredits = Credits 15000\<rparr>"
| "AI_PLAN_ENTITLEMENTS api_starter = \<lparr>aiIncluded = True, ownKeyAllowed = True, monthlyCredits = Credits 3000\<rparr>"
| "AI_PLAN_ENTITLEMENTS api_builder = \<lparr>aiIncluded = True, ownKeyAllowed = True, monthlyCredits = Credits 10000\<rparr>"
| "AI_PLAN_ENTITLEMENTS api_scale = \<lparr>aiIncluded = True, ownKeyAllowed = True, monthlyCredits = Credits 30000\<rparr>"
| "AI_PLAN_ENTITLEMENTS enterprise = \<lparr>aiIncluded = True, ownKeyAllowed = True, monthlyCredits = Contract\<rparr>"

definition planMonthlyCreditsMicro :: "AccountTier \<Rightarrow> int option result" where
  "planMonthlyCreditsMicro tier =
     (case monthlyCredits (AI_PLAN_ENTITLEMENTS tier) of
        Contract \<Rightarrow> Inr None
      | Credits n \<Rightarrow> rbind (creditsToMicro n) (\<lambda>m. Inr (Some m)))"

subsection \<open>Rates and the launch rate card\<close>

record CreditRates =
  inputMicroPerToken :: int
  outputMicroPerToken :: int
  cacheReadMicroPerToken :: int
  cacheWrite5mMicroPerToken :: int
  cacheWrite1hMicroPerToken :: int

record CreditRateCardModelRow = CreditRates +
  minStartMicro :: int
  maxReserveMicro :: int
  listInputMicrocentsPerToken :: int
  listOutputMicrocentsPerToken :: int

datatype OnCreditsModel = claude_sonnet_5 | claude_sonnet_4_6 | claude_haiku_4_5

fun CREDIT_RATE_CARD_V1 :: "OnCreditsModel \<Rightarrow> CreditRateCardModelRow" where
  "CREDIT_RATE_CARD_V1 claude_sonnet_5 =
     \<lparr>inputMicroPerToken = 400, outputMicroPerToken = 2000, cacheReadMicroPerToken = 40,
      cacheWrite5mMicroPerToken = 500, cacheWrite1hMicroPerToken = 800,
      minStartMicro = 6000000, maxReserveMicro = 60000000,
      listInputMicrocentsPerToken = 200, listOutputMicrocentsPerToken = 1000\<rparr>"
| "CREDIT_RATE_CARD_V1 claude_sonnet_4_6 =
     \<lparr>inputMicroPerToken = 600, outputMicroPerToken = 3000, cacheReadMicroPerToken = 60,
      cacheWrite5mMicroPerToken = 750, cacheWrite1hMicroPerToken = 1200,
      minStartMicro = 9000000, maxReserveMicro = 90000000,
      listInputMicrocentsPerToken = 300, listOutputMicrocentsPerToken = 1500\<rparr>"
| "CREDIT_RATE_CARD_V1 claude_haiku_4_5 =
     \<lparr>inputMicroPerToken = 200, outputMicroPerToken = 1000, cacheReadMicroPerToken = 20,
      cacheWrite5mMicroPerToken = 250, cacheWrite1hMicroPerToken = 400,
      minStartMicro = 3000000, maxReserveMicro = 30000000,
      listInputMicrocentsPerToken = 100, listOutputMicrocentsPerToken = 500\<rparr>"

definition creditsPer1kTokens :: "int \<Rightarrow> int result" where
  "creditsPer1kTokens microPerToken =
     rbind (requireNonNegativeSafeInteger microPerToken) (\<lambda>_.
     rbind (toSafeNumber (microPerToken * 1000)) chargeCreditsForDisplay)"

definition requireRates :: "'a CreditRates_scheme \<Rightarrow> unit result" where
  "requireRates rates =
     rbind (requireNonNegativeSafeInteger (inputMicroPerToken rates)) (\<lambda>_.
     rbind (requireNonNegativeSafeInteger (outputMicroPerToken rates)) (\<lambda>_.
     rbind (requireNonNegativeSafeInteger (cacheReadMicroPerToken rates)) (\<lambda>_.
     rbind (requireNonNegativeSafeInteger (cacheWrite5mMicroPerToken rates)) (\<lambda>_.
     requireNonNegativeSafeInteger (cacheWrite1hMicroPerToken rates)))))"

subsection \<open>What one model call costs\<close>

record ModelCallTokens =
  uncachedInput :: int
  outputTokens :: int
  cacheRead :: int
  cacheWrite5m :: int
  cacheWrite1h :: int

fun chargeParts :: "(int \<times> int) list \<Rightarrow> int \<Rightarrow> int result" where
  "chargeParts [] acc = Inr acc"
| "chargeParts ((n, rate) # parts) acc =
     rbind (requireNonNegativeSafeInteger n) (\<lambda>_. chargeParts parts (acc + n * rate))"

definition callChargeMicro :: "ModelCallTokens \<Rightarrow> 'a CreditRates_scheme \<Rightarrow> int result" where
  "callChargeMicro tokens rates =
     rbind (requireRates rates) (\<lambda>_.
     rbind (chargeParts
              [(uncachedInput tokens, inputMicroPerToken rates),
               (outputTokens tokens, outputMicroPerToken rates),
               (cacheRead tokens, cacheReadMicroPerToken rates),
               (cacheWrite5m tokens, cacheWrite5mMicroPerToken rates),
               (cacheWrite1h tokens, cacheWrite1hMicroPerToken rates)] 0) toSafeNumber)"

record RequestRegionBytes =
  oneHourRegionBytes :: int
  fiveMinuteRegionBytes :: int
  uncachedRegionBytes :: int

record CallUpperBound =
  inputBoundTokens :: int
  inputBoundMicro :: int
  boundMicro :: int

definition rates_ordered :: "'a CreditRates_scheme \<Rightarrow> bool" where
  "rates_ordered rates \<longleftrightarrow>
     cacheReadMicroPerToken rates \<le> inputMicroPerToken rates \<and>
     inputMicroPerToken rates \<le> cacheWrite5mMicroPerToken rates \<and>
     cacheWrite5mMicroPerToken rates \<le> cacheWrite1hMicroPerToken rates"

definition callUpperBound ::
  "RequestRegionBytes \<Rightarrow> int \<Rightarrow> 'a CreditRates_scheme \<Rightarrow> CallUpperBound result" where
  "callUpperBound regions maxOutputTokens rates =
     rbind (requireRates rates) (\<lambda>_.
     rbind (require (rates_ordered rates) RangeError) (\<lambda>_.
     rbind (requireNonNegativeSafeInteger (oneHourRegionBytes regions)) (\<lambda>_.
     rbind (requireNonNegativeSafeInteger (fiveMinuteRegionBytes regions)) (\<lambda>_.
     rbind (requireNonNegativeSafeInteger (uncachedRegionBytes regions)) (\<lambda>_.
     rbind (requireNonNegativeSafeInteger maxOutputTokens) (\<lambda>_.
     rbind (require (maxOutputTokens \<noteq> 0) RangeError) (\<lambda>_.
     let inputMicro =
           oneHourRegionBytes regions * cacheWrite1hMicroPerToken rates +
           fiveMinuteRegionBytes regions * cacheWrite5mMicroPerToken rates +
           uncachedRegionBytes regions * inputMicroPerToken rates +
           REQUEST_FRAMING_TOKENS * cacheWrite1hMicroPerToken rates;
         inputTokens =
           oneHourRegionBytes regions + fiveMinuteRegionBytes regions +
           uncachedRegionBytes regions + REQUEST_FRAMING_TOKENS;
         outputMicro = maxOutputTokens * outputMicroPerToken rates
     in rbind (toSafeNumber inputTokens) (\<lambda>tokens.
        rbind (toSafeNumber inputMicro) (\<lambda>input.
        rbind (toSafeNumber (inputMicro + outputMicro)) (\<lambda>bound.
          Inr \<lparr>inputBoundTokens = tokens, inputBoundMicro = input, boundMicro = bound\<rparr>))))))))))"

definition maxOutputTokensWithin :: "int \<Rightarrow> int \<Rightarrow> 'a CreditRates_scheme \<Rightarrow> int result" where
  "maxOutputTokensWithin roomMicro inputBound rates =
     rbind (requireSafeInteger roomMicro) (\<lambda>_.
     rbind (requireNonNegativeSafeInteger inputBound) (\<lambda>_.
     rbind (requireRates rates) (\<lambda>_.
     rbind (require (outputMicroPerToken rates \<noteq> 0) RangeError) (\<lambda>_.
     let spare = roomMicro - inputBound
     in if spare \<le> 0 then Inr 0
        else Inr ((spare - spare mod outputMicroPerToken rates) div outputMicroPerToken rates)))))"

subsection \<open>The UTF-8 length of a string\<close>

text \<open>A JavaScript string is a sequence of UTF-16 code units; \<^verbatim>\<open>charCodeAt\<close> reads one of them.\<close>

fun utf8ByteLength :: "nat list \<Rightarrow> nat" where
  "utf8ByteLength [] = 0"
| "utf8ByteLength (u # us) =
     (if u < 0x80 then 1 + utf8ByteLength us
      else if u < 0x800 then 2 + utf8ByteLength us
      else if 0xd800 \<le> u \<and> u \<le> 0xdbff then
        (case us of
           [] \<Rightarrow> 3
         | n # vs \<Rightarrow> if 0xdc00 \<le> n \<and> n \<le> 0xdfff then 4 + utf8ByteLength vs
                     else 3 + utf8ByteLength us)
      else 3 + utf8ByteLength us)"

subsection \<open>Proration\<close>

text \<open>BigInt division truncates towards zero.\<close>

definition trunc_div :: "int \<Rightarrow> int \<Rightarrow> int" where
  "trunc_div a b = sgn a * sgn b * (\<bar>a\<bar> div \<bar>b\<bar>)"

definition proratedWholeCreditsMicro :: "int \<Rightarrow> int \<Rightarrow> int \<Rightarrow> int result" where
  "proratedWholeCreditsMicro amountMicro portion whole =
     rbind (requireSafeInteger amountMicro) (\<lambda>_.
     rbind (requireNonNegativeSafeInteger portion) (\<lambda>_.
     rbind (requireNonNegativeSafeInteger whole) (\<lambda>_.
     rbind (require (whole \<noteq> 0) RangeError) (\<lambda>_.
     rbind (require (\<not> portion > whole) RangeError) (\<lambda>_.
     let credits = trunc_div (amountMicro * portion) (whole * MICROCREDITS_PER_CREDIT)
     in toSafeNumber (credits * MICROCREDITS_PER_CREDIT))))))"


section \<open>What the arithmetic guarantees\<close>

subsection \<open>Rounding\<close>

lemma microToCreditsFloor_Inr [result_simps]:
  "microToCreditsFloor m = Inr c \<longleftrightarrow> 0 \<le> m \<and> m \<le> MAX_SAFE \<and> c = m div MICROCREDITS_PER_CREDIT"
  by (auto simp: microToCreditsFloor_def result_simps MICROCREDITS_PER_CREDIT_def
      minus_mod_eq_mult_div)

lemma microToDisplay_Inr [result_simps]:
  "microToDisplay m d = Inr s \<longleftrightarrow> 0 \<le> m \<and> m \<le> MAX_SAFE \<and>
     s = (if d = Up \<and> m mod 1000 > 0 then m div 1000 + 1 else m div 1000)"
  by (auto simp: microToDisplay_def result_simps MICRO_PER_DISPLAY_STEP_def Let_def
      minus_mod_eq_mult_div)

subsection \<open>Checks of a rate row\<close>

lemma requireRates_Inr [result_simps]:
  "requireRates rates = Inr u \<longleftrightarrow>
     (0 \<le> inputMicroPerToken rates \<and> inputMicroPerToken rates \<le> MAX_SAFE) \<and>
     (0 \<le> outputMicroPerToken rates \<and> outputMicroPerToken rates \<le> MAX_SAFE) \<and>
     (0 \<le> cacheReadMicroPerToken rates \<and> cacheReadMicroPerToken rates \<le> MAX_SAFE) \<and>
     (0 \<le> cacheWrite5mMicroPerToken rates \<and> cacheWrite5mMicroPerToken rates \<le> MAX_SAFE) \<and>
     (0 \<le> cacheWrite1hMicroPerToken rates \<and> cacheWrite1hMicroPerToken rates \<le> MAX_SAFE)"
  by (auto simp: requireRates_def result_simps)

lemma chargeParts_Inr [result_simps]:
  "chargeParts parts acc = Inr t \<longleftrightarrow>
     (\<forall>(c, r) \<in> set parts. 0 \<le> c \<and> c \<le> MAX_SAFE) \<and> t = acc + sum_by (\<lambda>(c, r). c * r) parts"
  by (induction parts acc rule: chargeParts.induct) (auto simp: result_simps)

definition raw_charge :: "ModelCallTokens \<Rightarrow> 'a CreditRates_scheme \<Rightarrow> int" where
  "raw_charge t r =
     uncachedInput t * inputMicroPerToken r + outputTokens t * outputMicroPerToken r +
     cacheRead t * cacheReadMicroPerToken r + cacheWrite5m t * cacheWrite5mMicroPerToken r +
     cacheWrite1h t * cacheWrite1hMicroPerToken r"

definition counts_safe :: "ModelCallTokens \<Rightarrow> bool" where
  "counts_safe t \<longleftrightarrow>
     (\<forall>c \<in> {uncachedInput t, outputTokens t, cacheRead t, cacheWrite5m t, cacheWrite1h t}.
        0 \<le> c \<and> c \<le> MAX_SAFE)"

lemma callChargeMicro_Inr [result_simps]:
  "callChargeMicro t r = Inr c \<longleftrightarrow>
     requireRates r = Inr () \<and> counts_safe t \<and> safe_int (raw_charge t r) \<and> c = raw_charge t r"
  by (auto simp: callChargeMicro_def result_simps counts_safe_def raw_charge_def)

lemma raw_charge_nonneg:
  "requireRates r = Inr () \<Longrightarrow> counts_safe t \<Longrightarrow> 0 \<le> raw_charge t r"
  by (auto simp: result_simps counts_safe_def raw_charge_def)

definition input_bound :: "RequestRegionBytes \<Rightarrow> 'a CreditRates_scheme \<Rightarrow> int" where
  "input_bound g r =
     oneHourRegionBytes g * cacheWrite1hMicroPerToken r +
     fiveMinuteRegionBytes g * cacheWrite5mMicroPerToken r +
     uncachedRegionBytes g * inputMicroPerToken r +
     REQUEST_FRAMING_TOKENS * cacheWrite1hMicroPerToken r"

lemma callUpperBound_Inr [result_simps]:
  "callUpperBound g n r = Inr b \<longleftrightarrow>
     requireRates r = Inr () \<and> rates_ordered r \<and>
     (0 \<le> oneHourRegionBytes g \<and> oneHourRegionBytes g \<le> MAX_SAFE) \<and>
     (0 \<le> fiveMinuteRegionBytes g \<and> fiveMinuteRegionBytes g \<le> MAX_SAFE) \<and>
     (0 \<le> uncachedRegionBytes g \<and> uncachedRegionBytes g \<le> MAX_SAFE) \<and>
     (0 < n \<and> n \<le> MAX_SAFE) \<and>
     safe_int (oneHourRegionBytes g + fiveMinuteRegionBytes g + uncachedRegionBytes g
       + REQUEST_FRAMING_TOKENS) \<and>
     safe_int (input_bound g r) \<and> safe_int (input_bound g r + n * outputMicroPerToken r) \<and>
     b = \<lparr>inputBoundTokens = oneHourRegionBytes g + fiveMinuteRegionBytes g + uncachedRegionBytes g
            + REQUEST_FRAMING_TOKENS,
          inputBoundMicro = input_bound g r,
          boundMicro = input_bound g r + n * outputMicroPerToken r\<rparr>"
  unfolding callUpperBound_def input_bound_def Let_def
  by (simp only: rbind_eq_Inr require_eq_Inr requireNonNegativeSafeInteger_Inr toSafeNumber_Inr
      ex_simps simp_thms) (auto simp: result_simps)

text \<open>
  What the bound rests on, as the comment on \<^verbatim>\<open>callUpperBound\<close> states it of the provider: every
  input token stands for at least one byte of the body, apart from the framing tokens, which are
  rendered with the 1-hour block; a token of the 1-hour region may be billed as any kind of input,
  one of the 5-minute region as anything but a 1-hour write, one after the last marker only as a
  read or plain input; and the call produces at most the output it asked for. The record is the
  region each billed token falls in.
\<close>

record TokenSplit =
  hRead :: int
  hInput :: int
  h5m :: int
  h1h :: int
  mRead :: int
  mInput :: int
  m5m :: int
  uRead :: int
  uInput :: int

definition billed_by_regions ::
  "RequestRegionBytes \<Rightarrow> int \<Rightarrow> ModelCallTokens \<Rightarrow> TokenSplit \<Rightarrow> bool" where
  "billed_by_regions g maxOut t s \<longleftrightarrow>
     list_all (\<lambda>c. 0 \<le> c) [hRead s, hInput s, h5m s, h1h s, mRead s, mInput s, m5m s, uRead s, uInput s] \<and>
     uncachedInput t = hInput s + mInput s + uInput s \<and>
     cacheRead t = hRead s + mRead s + uRead s \<and>
     cacheWrite5m t = h5m s + m5m s \<and> cacheWrite1h t = h1h s \<and>
     hRead s + hInput s + h5m s + h1h s \<le> oneHourRegionBytes g + REQUEST_FRAMING_TOKENS \<and>
     mRead s + mInput s + m5m s \<le> fiveMinuteRegionBytes g \<and>
     uRead s + uInput s \<le> uncachedRegionBytes g \<and>
     0 \<le> outputTokens t \<and> outputTokens t \<le> maxOut"

lemma region_price:
  fixes a b c d :: int
  assumes "0 \<le> a" "0 \<le> b" "0 \<le> c" "0 \<le> d" "a + b + c + d \<le> n" "0 \<le> p"
    and "ra \<le> p" "rb \<le> p" "rc \<le> p" "rd \<le> p"
  shows "a * ra + b * rb + c * rc + d * rd \<le> n * p"
proof -
  have "a * ra + b * rb + c * rc + d * rd \<le> a * p + b * p + c * p + d * p"
    using assms by (intro add_mono mult_left_mono) auto
  also have "\<dots> = (a + b + c + d) * p" by (simp add: algebra_simps)
  also have "\<dots> \<le> n * p" using assms by (intro mult_right_mono) auto
  finally show ?thesis .
qed

lemma raw_charge_le_bound:
  assumes "billed_by_regions g n t s" "requireRates r = Inr ()" "rates_ordered r"
  shows "raw_charge t r \<le> input_bound g r + n * outputMicroPerToken r"
proof -
  let ?w = "cacheWrite1hMicroPerToken r" and ?f = "cacheWrite5mMicroPerToken r"
    and ?i = "inputMicroPerToken r" and ?c = "cacheReadMicroPerToken r" and ?o = "outputMicroPerToken r"
  note d = assms(1)[unfolded billed_by_regions_def, simplified]
  from assms(2,3) have ord: "?c \<le> ?i" "?i \<le> ?f" "?f \<le> ?w" and pos: "0 \<le> ?c" "0 \<le> ?i" "0 \<le> ?f" "0 \<le> ?w" "0 \<le> ?o"
    by (auto simp: result_simps rates_ordered_def)
  have h: "hRead s * ?c + hInput s * ?i + h5m s * ?f + h1h s * ?w
      \<le> (oneHourRegionBytes g + REQUEST_FRAMING_TOKENS) * ?w"
    using d ord pos by (intro region_price) auto
  have m: "mRead s * ?c + mInput s * ?i + m5m s * ?f + 0 * ?f \<le> fiveMinuteRegionBytes g * ?f"
    using d ord pos by (intro region_price) auto
  have u: "uRead s * ?c + uInput s * ?i + 0 * ?i + 0 * ?i \<le> uncachedRegionBytes g * ?i"
    using d ord pos by (intro region_price) auto
  have o: "outputTokens t * ?o \<le> n * ?o"
    using d pos by (intro mult_right_mono) auto
  have "raw_charge t r =
      (hRead s * ?c + hInput s * ?i + h5m s * ?f + h1h s * ?w) + (mRead s * ?c + mInput s * ?i + m5m s * ?f)
      + (uRead s * ?c + uInput s * ?i) + outputTokens t * ?o"
    using d by (simp add: raw_charge_def algebra_simps)
  with h m u o show ?thesis by (simp add: input_bound_def algebra_simps)
qed


text \<open>C18: an admitted bound is an upper bound. When \<^verbatim>\<open>callUpperBound\<close> accepts a request's regions and
  output ceiling, every call billed within those regions has an exact charge (\<^verbatim>\<open>callChargeMicro\<close>
  does not throw) that never exceeds the bound.\<close>
theorem callUpperBound_is_upper_bound:
  assumes "callUpperBound g n r = Inr b" and "billed_by_regions g n t s"
  shows "\<exists>c. callChargeMicro t r = Inr c \<and> 0 \<le> c \<and> c \<le> boundMicro b"
proof -
  from assms(1) have rates: "requireRates r = Inr ()" "rates_ordered r"
    and b: "boundMicro b = input_bound g r + n * outputMicroPerToken r"
    and safe: "safe_int (boundMicro b)" by (auto simp: callUpperBound_Inr)
  from assms have counts: "counts_safe t"
    by (auto simp: callUpperBound_Inr billed_by_regions_def counts_safe_def safe_int_def)
  from assms(2) rates have le: "raw_charge t r \<le> boundMicro b"
    unfolding b by (rule raw_charge_le_bound)
  from rates counts have nonneg: "0 \<le> raw_charge t r" by (simp add: raw_charge_nonneg)
  with le safe have "safe_int (raw_charge t r)" by (blast intro: safe_int_between)
  with rates counts nonneg le show ?thesis by (auto simp: callChargeMicro_Inr)
qed

theorem callUpperBound_is_upper_bound_witness:
  "callChargeMicro \<lparr>uncachedInput = 900, outputTokens = 4096, cacheRead = 5000, cacheWrite5m = 700,
       cacheWrite1h = 6000\<rparr> (CREDIT_RATE_CARD_V1 claude_sonnet_5) = Inr 13902000 \<and>
   callUpperBound \<lparr>oneHourRegionBytes = 9000, fiveMinuteRegionBytes = 3000, uncachedRegionBytes = 1000\<rparr>
     4096 (CREDIT_RATE_CARD_V1 claude_sonnet_5) =
     Inr \<lparr>inputBoundTokens = 15048, inputBoundMicro = 10738400, boundMicro = 18930400\<rparr> \<and>
   (13902000::int) \<le> 18930400"
proof -
  let ?g = "\<lparr>oneHourRegionBytes = 9000, fiveMinuteRegionBytes = 3000, uncachedRegionBytes = 1000\<rparr>"
  let ?t = "\<lparr>uncachedInput = 900, outputTokens = 4096, cacheRead = 5000, cacheWrite5m = 700,
       cacheWrite1h = 6000\<rparr>"
  let ?s = "\<lparr>hRead = 3000, hInput = 0, h5m = 0, h1h = 6000, mRead = 2000, mInput = 0, m5m = 700,
       uRead = 0, uInput = 900\<rparr>"
  let ?b = "\<lparr>inputBoundTokens = 15048, inputBoundMicro = 10738400, boundMicro = 18930400\<rparr>"
  have b: "callUpperBound ?g 4096 (CREDIT_RATE_CARD_V1 claude_sonnet_5) = Inr ?b"
    by (simp add: result_simps rates_ordered_def input_bound_def REQUEST_FRAMING_TOKENS_def
        safe_int_def MAX_SAFE_def)
  have "billed_by_regions ?g 4096 ?t ?s"
    by (simp add: billed_by_regions_def REQUEST_FRAMING_TOKENS_def)
  from callUpperBound_is_upper_bound [OF b this] b show ?thesis
    by (simp add: callChargeMicro_Inr raw_charge_def)
qed

text \<open>C20: \<^verbatim>\<open>maxOutputTokensWithin\<close> returns the largest output ceiling that fits: an output count fits
  the room beside the input bound exactly when it is at most the answer.\<close>
theorem maxOutputTokensWithin_is_maximal:
  assumes "maxOutputTokensWithin room inb r = Inr m" and "inb \<le> room" and "0 \<le> k"
  shows "inb + k * outputMicroPerToken r \<le> room \<longleftrightarrow> k \<le> m"
proof -
  let ?o = "outputMicroPerToken r"
  from assms(1) have o: "0 < ?o" and m: "m = (if room - inb \<le> 0 then 0 else (room - inb) div ?o)"
    by (auto simp: maxOutputTokensWithin_def result_simps Let_def minus_mod_eq_mult_div split: if_splits)
  from assms(2) m have m': "m = (room - inb) div ?o" by auto
  have "k * ?o \<le> room - inb \<longleftrightarrow> k \<le> (room - inb) div ?o"
    using o by (simp add: le_div_int_iff)
  with m' show ?thesis by auto
qed

theorem maxOutputTokensWithin_is_maximal_witness:
  "maxOutputTokensWithin 9000000 1000000 (CREDIT_RATE_CARD_V1 claude_haiku_4_5) = Inr 8000 \<and>
   ((1000000::int) + 8000 * 1000 \<le> 9000000 \<longleftrightarrow> (8000::int) \<le> 8000)"
proof -
  have m: "maxOutputTokensWithin 9000000 1000000 (CREDIT_RATE_CARD_V1 claude_haiku_4_5) = Inr 8000"
    by (simp add: maxOutputTokensWithin_def requireSafeInteger_def requireNonNegativeSafeInteger_def
        requireRates_def safe_int_def MAX_SAFE_def)
  from m maxOutputTokensWithin_is_maximal [OF m, of 8000] show ?thesis by simp
qed


subsection \<open>Proration\<close>

lemma trunc_div_nonneg: "0 \<le> a \<Longrightarrow> 0 < b \<Longrightarrow> trunc_div a b = a div b"
  by (cases "a = 0") (simp_all add: trunc_div_def)

lemma abs_trunc_div: "0 < b \<Longrightarrow> \<bar>trunc_div a b\<bar> = \<bar>a\<bar> div b"
  by (cases "a = 0") (simp_all add: trunc_div_def abs_mult abs_sgn_eq pos_imp_zdiv_nonneg_iff)

lemma sgn_trunc_div: "0 < b \<Longrightarrow> trunc_div a b = 0 \<or> sgn (trunc_div a b) = sgn a"
  by (cases "a = 0")
    (auto simp: trunc_div_def sgn_mult sgn_1_pos pos_imp_zdiv_pos_iff pos_imp_zdiv_nonneg_iff less_le)

lemma proratedWholeCreditsMicro_Inr [result_simps]:
  "proratedWholeCreditsMicro a p w = Inr s \<longleftrightarrow>
     safe_int a \<and> 0 \<le> p \<and> p \<le> w \<and> 0 < w \<and> w \<le> MAX_SAFE \<and>
     safe_int s \<and> s = trunc_div (a * p) (w * MICROCREDITS_PER_CREDIT) * MICROCREDITS_PER_CREDIT"
  by (auto simp: proratedWholeCreditsMicro_def result_simps Let_def)

lemma prorated_magnitude:
  assumes "proratedWholeCreditsMicro a p w = Inr s"
  shows "\<bar>s\<bar> * w \<le> \<bar>a\<bar> * p \<and> \<bar>a\<bar> * p < (\<bar>s\<bar> + MICROCREDITS_PER_CREDIT) * w"
proof -
  let ?M = MICROCREDITS_PER_CREDIT
  let ?d = "w * ?M"
  have M: "0 < ?M" by (simp add: MICROCREDITS_PER_CREDIT_def)
  from assms have w: "0 < w" and p: "0 \<le> p" and s: "s = trunc_div (a * p) ?d * ?M"
    by (auto simp: result_simps)
  from w M have d: "0 < ?d" by simp
  have abs: "\<bar>s\<bar> = \<bar>a\<bar> * p div ?d * ?M"
    using M p by (simp add: s abs_mult abs_trunc_div [OF d])
  have "\<bar>a\<bar> * p div ?d * ?d \<le> \<bar>a\<bar> * p" using d by (simp flip: le_div_int_iff)
  then have "\<bar>s\<bar> * w \<le> \<bar>a\<bar> * p" by (simp add: abs mult.commute mult.left_commute)
  moreover have "\<not> (\<bar>a\<bar> * p div ?d + 1) * ?d \<le> \<bar>a\<bar> * p" using d by (simp flip: le_div_int_iff)
  then have "\<bar>a\<bar> * p < (\<bar>s\<bar> + ?M) * w" by (simp add: abs algebra_simps)
  ultimately show ?thesis by blast
qed

text \<open>A prorated share is a whole number of credits, keeps the sign of the amount, and its
  magnitude is the exact share \<open>amount \<times> portion / whole\<close> rounded down by less than one credit.\<close>
theorem proratedWholeCreditsMicro_floors_share:
  assumes "proratedWholeCreditsMicro a p w = Inr s"
  shows "MICROCREDITS_PER_CREDIT dvd s \<and> (s = 0 \<or> sgn s = sgn a) \<and>
    \<bar>s\<bar> * w \<le> \<bar>a\<bar> * p \<and> \<bar>a\<bar> * p < (\<bar>s\<bar> + MICROCREDITS_PER_CREDIT) * w"
proof (intro conjI)
  let ?q = "trunc_div (a * p) (w * MICROCREDITS_PER_CREDIT)"
  have M: "0 < MICROCREDITS_PER_CREDIT" by (simp add: MICROCREDITS_PER_CREDIT_def)
  from assms have w: "0 < w" and p: "0 \<le> p" and s: "s = ?q * MICROCREDITS_PER_CREDIT"
    by (auto simp: result_simps)
  show "MICROCREDITS_PER_CREDIT dvd s" by (simp add: s)
  have "?q = 0 \<or> sgn ?q = sgn (a * p)" using w M by (intro sgn_trunc_div) simp
  then show "s = 0 \<or> sgn s = sgn a"
    using M p by (cases "p = 0") (auto simp: s sgn_mult trunc_div_def)
qed (use prorated_magnitude [OF assms] in auto)

theorem proratedWholeCreditsMicro_floors_share_witness:
  "proratedWholeCreditsMicro 1500000000 7 31 = Inr 338000000 \<and>
   (338000000::int) * 31 \<le> 1500000000 * 7 \<and> (1500000000::int) * 7 < 339000000 * 31"
proof -
  have h: "proratedWholeCreditsMicro 1500000000 7 31 = Inr 338000000"
    by (simp add: result_simps trunc_div_nonneg safe_int_def MAX_SAFE_def MICROCREDITS_PER_CREDIT_def)
  from h proratedWholeCreditsMicro_floors_share [OF h] show ?thesis
    by (simp add: MICROCREDITS_PER_CREDIT_def)
qed

text \<open>C19: shares of one allowance over pieces that together are no longer than the whole period never
  add up to more than the allowance, however many pieces the period is cut into.\<close>
theorem prorated_shares_never_exceed_the_amount:
  assumes "map (\<lambda>p. proratedWholeCreditsMicro a p w) ps = map Inr ss"
    and "0 \<le> a" and "0 < w" and "sum_list ps \<le> w"
  shows "sum_list ss \<le> a"
proof -
  have "sum_list ss * w \<le> a * sum_list ps"
    using assms(1)
  proof (induction ps arbitrary: ss)
    case Nil
    then show ?case by simp
  next
    case (Cons p ps)
    then obtain s ss' where ss: "ss = s # ss'" and p: "proratedWholeCreditsMicro a p w = Inr s"
      and rest: "map (\<lambda>p. proratedWholeCreditsMicro a p w) ps = map Inr ss'"
      by (cases ss) auto
    have "s * w \<le> \<bar>s\<bar> * w" using \<open>0 < w\<close> by (intro mult_right_mono) auto
    also have "\<dots> \<le> a * p" using prorated_magnitude [OF p] \<open>0 \<le> a\<close> by simp
    finally have "s * w \<le> a * p" .
    with Cons.IH [OF rest] ss show ?case by (simp add: algebra_simps)
  qed
  also have "\<dots> \<le> a * w" using assms(2,4) by (intro mult_left_mono) auto
  finally show ?thesis using assms(3) by simp
qed


theorem prorated_shares_never_exceed_the_amount_witness:
  "map (\<lambda>p. proratedWholeCreditsMicro 1500000000 p 31) [7, 20, 4] =
     map Inr [338000000, 967000000, 193000000] \<and>
   sum_list [338000000, 967000000, 193000000] \<le> (1500000000::int)"
proof -
  have h: "map (\<lambda>p. proratedWholeCreditsMicro 1500000000 p 31) [7, 20, 4] =
     map Inr [338000000, 967000000, 193000000]"
    by (simp add: result_simps trunc_div_nonneg safe_int_def MAX_SAFE_def MICROCREDITS_PER_CREDIT_def)
  from prorated_shares_never_exceed_the_amount [OF h] h show ?thesis by simp
qed

subsection \<open>Rounding\<close>

text \<open>What a customer is shown never flatters the server: a charge is rounded up to the next
  thousandth of a credit and a balance down, each by less than one thousandth.\<close>
theorem display_rounds_in_the_customers_favour:
  assumes "chargeCreditsForDisplay m = Inr c" and "balanceCreditsForDisplay m = Inr b"
  shows "m \<le> c * 1000 \<and> c * 1000 < m + 1000 \<and> b * 1000 \<le> m \<and> m < b * 1000 + 1000"
proof -
  from assms have "c = (if m mod 1000 > 0 then m div 1000 + 1 else m div 1000)"
    and "b = m div 1000"
    by (simp_all add: chargeCreditsForDisplay_def balanceCreditsForDisplay_def result_simps)
  then show ?thesis by (simp split: if_splits) presburger+
qed

theorem display_rounds_in_the_customers_favour_witness:
  "chargeCreditsForDisplay 1234567 = Inr 1235 \<and> balanceCreditsForDisplay 1234567 = Inr 1234 \<and>
   (1234567::int) \<le> 1235 * 1000"
proof -
  have h: "chargeCreditsForDisplay 1234567 = Inr 1235" "balanceCreditsForDisplay 1234567 = Inr 1234"
    by (simp_all add: chargeCreditsForDisplay_def balanceCreditsForDisplay_def result_simps MAX_SAFE_def)
  from display_rounds_in_the_customers_favour [OF h] h show ?thesis by simp
qed

subsection \<open>UTF-8\<close>

text \<open>The reference: decode UTF-16 to code points, with the replacement character for a lone
  surrogate, and write each code point as UTF-8 does.\<close>

fun utf16_decode :: "nat list \<Rightarrow> nat list" where
  "utf16_decode [] = []"
| "utf16_decode (u # us) =
     (if 0xd800 \<le> u \<and> u \<le> 0xdbff then
        (case us of
           [] \<Rightarrow> [0xfffd]
         | n # vs \<Rightarrow> if 0xdc00 \<le> n \<and> n \<le> 0xdfff
                     then (0x10000 + (u - 0xd800) * 0x400 + (n - 0xdc00)) # utf16_decode vs
                     else 0xfffd # utf16_decode us)
      else if 0xdc00 \<le> u \<and> u \<le> 0xdfff then 0xfffd # utf16_decode us
      else u # utf16_decode us)"

definition utf8_bytes :: "nat \<Rightarrow> nat list" where
  "utf8_bytes c =
     (if c < 0x80 then [c]
      else if c < 0x800 then [0xc0 + c div 0x40, 0x80 + c mod 0x40]
      else if c < 0x10000 then [0xe0 + c div 0x1000, 0x80 + c div 0x40 mod 0x40, 0x80 + c mod 0x40]
      else [0xf0 + c div 0x40000, 0x80 + c div 0x1000 mod 0x40, 0x80 + c div 0x40 mod 0x40,
            0x80 + c mod 0x40])"

text \<open>\<^verbatim>\<open>utf8ByteLength\<close>, which counts code units without an encoder, is the number of bytes a
  UTF-8 encoder writes for the same string, surrogate pairs and lone surrogates included.\<close>
theorem utf8ByteLength_is_encoded_length:
  assumes "\<forall>u \<in> set us. u < 0x10000"
  shows "utf8ByteLength us = length (concat (map utf8_bytes (utf16_decode us)))"
  using assms
proof (induction us rule: utf8ByteLength.induct)
  case 1
  then show ?case by simp
next
  case (2 u us)
  then show ?case
    by (cases us) (auto simp: utf8_bytes_def)
qed

theorem utf8ByteLength_is_encoded_length_witness:
  "utf8ByteLength [0x48, 0xe9, 0xd83d, 0xde00, 0x4e2d, 0xd800] = 13 \<and>
   length (concat (map utf8_bytes (utf16_decode [0x48, 0xe9, 0xd83d, 0xde00, 0x4e2d, 0xd800]))) = 13"
  using utf8ByteLength_is_encoded_length [of "[0x48, 0xe9, 0xd83d, 0xde00, 0x4e2d, 0xd800]"]
  by simp

end
