(* ===== verification/Credit_Calendar.thy ===== *)
theory Credit_Calendar
  imports Credit_Arith
begin

section \<open>The natural-month calendar\<close>

text \<open>
  The calendar of \<^verbatim>\<open>packages/api-types/src/ai-credits.ts\<close>: months counted from an anchor, the day
  clamped to the length of the target month, and the share of a monthly level a window grants. A
  \<^verbatim>\<open>Date\<close> is its time value in milliseconds; the UTC accessors and setters are the abstract
  operations of the ECMAScript specification (day and year of a time, \<open>MakeDay\<close>, \<open>TimeClip\<close>) in
  the proleptic Gregorian calendar.
\<close>

subsection \<open>Dates as ECMAScript defines them\<close>

type_synonym Date = int

definition msPerDay :: int where
  "msPerDay = 86400000"

definition MAX_TIME :: int where
  "MAX_TIME = 8640000000000000"

definition Day :: "int \<Rightarrow> int" where
  "Day t = t div msPerDay"

definition TimeWithinDay :: "int \<Rightarrow> int" where
  "TimeWithinDay t = t mod msPerDay"

definition DayFromYear :: "int \<Rightarrow> int" where
  "DayFromYear y = 365 * (y - 1970) + (y - 1969) div 4 - (y - 1901) div 100 + (y - 1601) div 400"

text \<open>
  The specification's year of a time is the largest year that does not start after it. The
  executable form estimates it from the length of a 400-year cycle and corrects by one year.
\<close>

definition year_of_day :: "int \<Rightarrow> int" where
  "year_of_day d =
     (let y = 1970 + (400 * d) div 146097
      in if d < DayFromYear y then y - 1
         else if DayFromYear (y + 1) \<le> d then y + 1
         else y)"

definition is_leap :: "int \<Rightarrow> bool" where
  "is_leap year \<longleftrightarrow> (year mod 4 = 0 \<and> year mod 100 \<noteq> 0) \<or> year mod 400 = 0"

definition DAYS_IN_MONTH :: "int list" where
  "DAYS_IN_MONTH = [31, 28, 31, 30, 31, 30, 31, 31, 30, 31, 30, 31]"

definition daysInUtcMonth :: "int \<Rightarrow> int \<Rightarrow> int result" where
  "daysInUtcMonth year monthIndex =
     (if monthIndex = 1 then Inr (if is_leap year then 29 else 28)
      else if 0 \<le> monthIndex \<and> nat monthIndex < length DAYS_IN_MONTH
      then Inr (DAYS_IN_MONTH ! nat monthIndex)
      else Inl RangeError)"

definition month_len :: "int \<Rightarrow> nat \<Rightarrow> int" where
  "month_len year m = (if m = 1 then if is_leap year then 29 else 28 else DAYS_IN_MONTH ! m)"

fun days_before :: "int \<Rightarrow> nat \<Rightarrow> int" where
  "days_before year 0 = 0"
| "days_before year (Suc m) = days_before year m + month_len year m"

definition getUTCFullYear :: "Date \<Rightarrow> int" where
  "getUTCFullYear t = year_of_day (Day t)"

definition getUTCMonth :: "Date \<Rightarrow> int" where
  "getUTCMonth t =
     (let y = getUTCFullYear t
      in int (length (filter (\<lambda>m. days_before y m \<le> Day t - DayFromYear y) [1..<12])))"

definition getUTCDate :: "Date \<Rightarrow> int" where
  "getUTCDate t =
     (let y = getUTCFullYear t in Day t - DayFromYear y - days_before y (nat (getUTCMonth t)) + 1)"

definition getUTCHours :: "Date \<Rightarrow> int" where
  "getUTCHours t = (t div 3600000) mod 24"

definition getUTCMinutes :: "Date \<Rightarrow> int" where
  "getUTCMinutes t = (t div 60000) mod 60"

definition getUTCSeconds :: "Date \<Rightarrow> int" where
  "getUTCSeconds t = (t div 1000) mod 60"

definition getUTCMilliseconds :: "Date \<Rightarrow> int" where
  "getUTCMilliseconds t = t mod 1000"

definition MakeDay :: "int \<Rightarrow> int \<Rightarrow> int \<Rightarrow> int" where
  "MakeDay year month dt =
     (let ym = year + month div 12
      in DayFromYear ym + days_before ym (nat (month mod 12)) + dt - 1)"

definition MakeTime :: "int \<Rightarrow> int \<Rightarrow> int \<Rightarrow> int \<Rightarrow> int" where
  "MakeTime h mi s ms = h * 3600000 + mi * 60000 + s * 1000 + ms"

definition MakeDate :: "int \<Rightarrow> int \<Rightarrow> int" where
  "MakeDate day time = day * msPerDay + time"

text \<open>An \<^verbatim>\<open>Invalid Date\<close> is \<open>None\<close>.\<close>

definition TimeClip :: "int \<Rightarrow> Date option" where
  "TimeClip t = (if \<bar>t\<bar> > MAX_TIME then None else Some t)"

definition setUTCFullYear :: "Date \<Rightarrow> int \<Rightarrow> int \<Rightarrow> int \<Rightarrow> Date option" where
  "setUTCFullYear t year month day = TimeClip (MakeDate (MakeDay year month day) (TimeWithinDay t))"

definition setUTCHours :: "Date option \<Rightarrow> int \<Rightarrow> int \<Rightarrow> int \<Rightarrow> int \<Rightarrow> Date option" where
  "setUTCHours d h mi s ms =
     (case d of None \<Rightarrow> None | Some t \<Rightarrow> TimeClip (MakeDate (Day t) (MakeTime h mi s ms)))"

subsection \<open>Months from an anchor\<close>

definition requireValidDate :: "Date \<Rightarrow> unit result" where
  "requireValidDate t = require (\<bar>t\<bar> \<le> MAX_TIME) RangeError"

definition addUtcMonths :: "Date \<Rightarrow> int \<Rightarrow> Date result" where
  "addUtcMonths anchor months =
     rbind (requireValidDate anchor) (\<lambda>_.
     rbind (requireSafeInteger months) (\<lambda>_.
       let total_months = getUTCFullYear anchor * 12 + getUTCMonth anchor + months;
           year = total_months div 12;
           monthIndex = total_months - year * 12
       in rbind (daysInUtcMonth year monthIndex) (\<lambda>dim.
            let day = min (getUTCDate anchor) dim;
                out = setUTCHours (setUTCFullYear 0 year monthIndex day)
                        (getUTCHours anchor) (getUTCMinutes anchor)
                        (getUTCSeconds anchor) (getUTCMilliseconds anchor)
            in case out of None \<Rightarrow> Inl RangeError | Some t \<Rightarrow> Inr t)))"

subsection \<open>The calendar's arithmetic\<close>

lemma div_below: "0 < m \<Longrightarrow> m * (a div m) \<le> (a::int) \<and> a \<le> m * (a div m) + (m - 1)"
  using mult_div_mod_eq [of m a] pos_mod_bound [of m a] pos_mod_sign [of m a] by linarith

lemma div_succ:
  assumes "0 < (m::int)"
  shows "(a + 1) div m = a div m + (if (a + 1) mod m = 0 then 1 else 0)"
proof (cases "(a + 1) mod m = 0")
  case True
  then have "a = m * ((a + 1) div m - 1) + (m - 1)"
    using mult_div_mod_eq [of m "a + 1"] by (simp add: algebra_simps)
  then have "a div m = (a + 1) div m - 1" by (rule int_div_pos_eq) (use assms in auto)
  with True show ?thesis by simp
next
  case False
  then have "a = m * ((a + 1) div m) + ((a + 1) mod m - 1)"
    using mult_div_mod_eq [of m "a + 1"] by (simp add: algebra_simps)
  then have "a div m = (a + 1) div m"
    by (rule int_div_pos_eq)
      (use assms False pos_mod_bound [of m "a + 1"] pos_mod_sign [of m "a + 1"] in linarith)+
  with False show ?thesis by simp
qed

lemma mod_shift: "c mod m = 0 \<Longrightarrow> (y - c) mod m = y mod (m::int)"
  by (metis diff_zero mod_diff_right_eq)

lemma mod_0_trans: "y mod m = 0 \<Longrightarrow> k dvd m \<Longrightarrow> y mod k = (0::int)"
  by (metis dvd_trans mod_eq_0_iff_dvd)

lemma DayFromYear_Suc: "DayFromYear (y + 1) = DayFromYear y + (if is_leap y then 366 else 365)"
proof -
  define a where "a = (y - 1969) div 4"
  define b where "b = (y - 1901) div 100"
  define c where "c = (y - 1601) div 400"
  have "(y + 1 - 1969) div 4 = a + (if y mod 4 = 0 then 1 else 0)"
    using div_succ [of 4 "y - 1969"] mod_shift [of 1968 4 y] by (simp add: a_def)
  moreover have "(y + 1 - 1901) div 100 = b + (if y mod 100 = 0 then 1 else 0)"
    using div_succ [of 100 "y - 1901"] mod_shift [of 1900 100 y] by (simp add: b_def)
  moreover have "(y + 1 - 1601) div 400 = c + (if y mod 400 = 0 then 1 else 0)"
    using div_succ [of 400 "y - 1601"] mod_shift [of 1600 400 y] by (simp add: c_def)
  ultimately have "DayFromYear (y + 1) = 365 * (y + 1 - 1970) + (a + of_bool (y mod 4 = 0))
      - (b + of_bool (y mod 100 = 0)) + (c + of_bool (y mod 400 = 0))"
    unfolding DayFromYear_def by (simp only: of_bool_def)
  moreover have "DayFromYear y = 365 * (y - 1970) + a - b + c"
    unfolding DayFromYear_def a_def b_def c_def ..
  moreover have "y mod 400 = 0 \<Longrightarrow> y mod 100 = 0" by (rule mod_0_trans [of _ 400]) auto
  moreover have "y mod 100 = 0 \<Longrightarrow> y mod 4 = 0" by (rule mod_0_trans [of _ 100]) auto
  ultimately show ?thesis
    by (cases "y mod 4 = 0"; cases "y mod 100 = 0"; cases "y mod 400 = 0") (simp_all add: is_leap_def)
qed

lemma DayFromYear_linear:
  "146097 * Y - 506 \<le> 400 * DayFromYear (Y + 1970)" (is ?lower)
  "400 * DayFromYear (Y + 1970) \<le> 146097 * Y + 589" (is ?upper)
proof -
  define a where "a = (Y + 1) div 4"
  define b where "b = (Y + 69) div 100"
  define c where "c = (Y + 369) div 400"
  have a: "4 * a \<le> Y + 1" "Y + 1 \<le> 4 * a + 3" using div_below [of 4 "Y + 1"] by (auto simp: a_def)
  have b: "100 * b \<le> Y + 69" "Y + 69 \<le> 100 * b + 99"
    using div_below [of 100 "Y + 69"] by (auto simp: b_def)
  have c: "400 * c \<le> Y + 369" "Y + 369 \<le> 400 * c + 399"
    using div_below [of 400 "Y + 369"] by (auto simp: c_def)
  have D: "DayFromYear (Y + 1970) = 365 * Y + a - b + c"
    by (simp add: DayFromYear_def a_def b_def c_def add.commute)
  show ?lower using a b c D by linarith
  show ?upper using a b c D by linarith
qed

lemma year_of_day_contains:
  "DayFromYear (year_of_day d) \<le> d \<and> d < DayFromYear (year_of_day d + 1)"
proof -
  define Y where "Y = (400 * d) div 146097"
  have Y: "146097 * Y \<le> 400 * d" "400 * d \<le> 146097 * Y + 146096"
    using div_below [of 146097 "400 * d"] by (auto simp: Y_def)
  have "400 * DayFromYear (Y + 1969) \<le> 400 * d"
    using Y DayFromYear_linear(2) [of "Y - 1"] by (simp add: algebra_simps)
  then have lower: "DayFromYear (Y + 1969) \<le> d" by simp
  have "400 * d < 400 * DayFromYear (Y + 1972)"
    using Y DayFromYear_linear(1) [of "Y + 2"] by (simp add: algebra_simps)
  then have upper: "d < DayFromYear (Y + 1972)" by simp
  have "year_of_day d = (if d < DayFromYear (Y + 1970) then Y + 1969
      else if DayFromYear (Y + 1971) \<le> d then Y + 1971 else Y + 1970)"
    by (simp add: year_of_day_def Y_def [symmetric] Let_def add.commute)
  with lower upper show ?thesis by (auto simp: ac_simps)
qed

lemma month_len_bounds: "m < 12 \<Longrightarrow> 28 \<le> month_len y m \<and> month_len y m \<le> 31"
  by (auto simp: month_len_def DAYS_IN_MONTH_def less_Suc_eq numeral_eq_Suc)

lemma days_before_12: "days_before y 12 = (if is_leap y then 366 else 365)"
  by (simp add: eval_nat_numeral month_len_def DAYS_IN_MONTH_def)

text \<open>Months as one integer line: month \<open>12 * year + index\<close>, its first day and its length.\<close>

definition month_day :: "int \<Rightarrow> int" where
  "month_day n = DayFromYear (n div 12) + days_before (n div 12) (nat (n mod 12))"

definition len_of :: "int \<Rightarrow> int" where
  "len_of n = month_len (n div 12) (nat (n mod 12))"

lemma len_of_bounds: "28 \<le> len_of n" "len_of n \<le> 31"
proof -
  have "nat (n mod 12) < 12" by (simp add: nat_less_iff)
  then show "28 \<le> len_of n" "len_of n \<le> 31" using month_len_bounds by (auto simp: len_of_def)
qed

lemma month_day_Suc: "month_day (n + 1) = month_day n + len_of n"
proof (cases "n mod 12 = 11")
  case True
  then have "(n + 1) mod 12 = 0" by (simp add: mod_add_left_eq [symmetric])
  then have "(n + 1) div 12 = n div 12 + 1" "(n + 1) mod 12 = 0" by (simp_all add: div_succ)
  moreover have "days_before (n div 12) 12 = days_before (n div 12) 11 + month_len (n div 12) 11"
    by (simp add: eval_nat_numeral)
  ultimately show ?thesis
    using True by (simp add: month_day_def len_of_def DayFromYear_Suc days_before_12)
next
  case False
  with pos_mod_bound [of 12 n] pos_mod_sign [of 12 n] have "(n mod 12 + 1) mod 12 = n mod 12 + 1"
    by (intro mod_pos_pos_trivial) auto
  then have "(n + 1) mod 12 = n mod 12 + 1" by (simp add: mod_add_left_eq)
  with pos_mod_sign [of 12 n] have "(n + 1) div 12 = n div 12" "(n + 1) mod 12 = n mod 12 + 1"
    by (auto simp: div_succ)
  moreover have "nat (n mod 12 + 1) = Suc (nat (n mod 12))" by (simp add: nat_add_distrib)
  ultimately show ?thesis by (simp add: month_day_def len_of_def)
qed

lemma month_day_less: "m < n \<Longrightarrow> month_day m + len_of m \<le> month_day n"
proof (induction n rule: int_gr_induct)
  case base
  then show ?case by (simp add: month_day_Suc)
next
  case (step i)
  then show ?case using len_of_bounds(1) [of i] by (simp add: month_day_Suc)
qed

text \<open>The month, day of the month and time of day of a date.\<close>

definition month_no :: "Date \<Rightarrow> int" where
  "month_no t = getUTCFullYear t * 12 + getUTCMonth t"

lemma days_before_mono: "m \<le> n \<Longrightarrow> n \<le> 12 \<Longrightarrow> days_before y m \<le> days_before y n"
proof (induction n)
  case (Suc n)
  then show ?case using month_len_bounds [of n y] by (cases "m = Suc n") auto
qed simp

lemma filter_prefix_length:
  assumes "\<And>i j. i \<le> j \<Longrightarrow> j < n \<Longrightarrow> P j \<Longrightarrow> P i" and "P 0" and "0 < (n::nat)"
  shows "P (length (filter P [1..<n])) \<and> (Suc (length (filter P [1..<n])) < n \<longrightarrow> \<not> P (Suc (length (filter P [1..<n]))))
    \<and> length (filter P [1..<n]) < n"
  using assms(3,1)
proof (induction n rule: nat_induct_non_zero)
  case 1
  then show ?case using assms(2) by simp
next
  case (Suc n)
  let ?k = "length (filter P [1..<n])"
  have IH: "P ?k" "Suc ?k < n \<Longrightarrow> \<not> P (Suc ?k)" "?k < n"
    using Suc.IH Suc.prems by (meson less_SucI)+
  show ?case
  proof (cases "P n")
    case True
    with Suc.prems IH have "\<not> Suc ?k < n" by (meson lessI less_or_eq_imp_le)
    with IH(3) have "Suc ?k = n" by simp
    with True Suc.hyps show ?thesis by simp
  next
    case False
    moreover have "Suc ?k < Suc n \<Longrightarrow> \<not> P (Suc ?k)"
      using False IH(2) by (cases "Suc ?k = n") auto
    ultimately show ?thesis using IH Suc.hyps by simp
  qed
qed

lemma getUTCMonth_bounds: "0 \<le> getUTCMonth t" "getUTCMonth t < 12"
proof -
  show "0 \<le> getUTCMonth t" by (simp add: getUTCMonth_def Let_def)
  have "length (filter P [1..<12]) < 12" for P
    using length_filter_le [of P "[1..<12]"] by simp
  then show "getUTCMonth t < 12" by (simp add: getUTCMonth_def Let_def)
qed


lemma month_no_split: "month_no t div 12 = getUTCFullYear t" "month_no t mod 12 = getUTCMonth t"
  using getUTCMonth_bounds [of t]
  by (simp_all add: month_no_def div_mult_self3 mod_pos_pos_trivial div_pos_pos_trivial)

lemma month_of_date:
  "month_day (month_no t) \<le> Day t" "Day t < month_day (month_no t + 1)"
proof -
  define y where "y = getUTCFullYear t"
  define r where "r = Day t - DayFromYear y"
  define P where "P m \<longleftrightarrow> days_before y m \<le> r" for m
  define m where "m = length (filter P [1..<12])"
  from year_of_day_contains [of "Day t"] have r: "0 \<le> r" "r < days_before y 12"
    by (auto simp: r_def y_def getUTCFullYear_def DayFromYear_Suc days_before_12)
  have down: "P i" if "i \<le> j" "j < 12" "P j" for i j
    using that days_before_mono [of i j y] by (auto simp: P_def)
  have "P 0" using r(1) by (simp add: P_def)
  from filter_prefix_length [of 12 P, OF down this]
  have m: "P m" "Suc m < 12 \<Longrightarrow> \<not> P (Suc m)" "m < 12" by (auto simp: m_def)
  then have low: "days_before y m \<le> r" by (simp add: P_def)
  have high: "r < days_before y (Suc m)"
  proof (cases "Suc m < 12")
    case True
    with m(2) show ?thesis by (simp add: P_def)
  next
    case False
    with m(3) have "Suc m = 12" by simp
    with r(2) show ?thesis by (simp del: days_before.simps)
  qed
  have gm: "getUTCMonth t = int m"
    by (simp add: getUTCMonth_def Let_def m_def P_def [abs_def] r_def y_def)
  have "month_day (month_no t) = DayFromYear y + days_before y m"
    by (simp add: month_day_def month_no_split gm y_def)
  moreover have "len_of (month_no t) = month_len y m"
    by (simp add: len_of_def month_no_split gm y_def)
  ultimately show "month_day (month_no t) \<le> Day t" "Day t < month_day (month_no t + 1)"
    using low high by (auto simp: month_day_Suc r_def)
qed

lemma getUTCDate_eq: "getUTCDate t = Day t - month_day (month_no t) + 1"
  by (simp add: getUTCDate_def Let_def month_day_def month_no_split)

lemma getUTCDate_bounds: "1 \<le> getUTCDate t" "getUTCDate t \<le> len_of (month_no t)"
  using month_of_date [of t] by (auto simp: getUTCDate_eq month_day_Suc)

lemma time_of_day_parts:
  "MakeTime (getUTCHours t) (getUTCMinutes t) (getUTCSeconds t) (getUTCMilliseconds t) = TimeWithinDay t"
proof -
  have "t mod 86400000 = 1000 * (t div 1000 mod 86400) + t mod 1000"
    using zmod_zmult2_eq [of 86400 t 1000] by simp
  also have "t div 1000 mod 86400 = 60 * (t div 1000 div 60 mod 1440) + t div 1000 mod 60"
    using zmod_zmult2_eq [of 1440 "t div 1000" 60] by simp
  also have "t div 1000 div 60 mod 1440 = 60 * (t div 1000 div 60 div 60 mod 24) + t div 1000 div 60 mod 60"
    using zmod_zmult2_eq [of 24 "t div 1000 div 60" 60] by simp
  finally have "t mod 86400000 = (t div 1000 div 60 div 60 mod 24) * 3600000 +
      (t div 1000 div 60 mod 60) * 60000 + (t div 1000 mod 60) * 1000 + t mod 1000" by simp
  moreover have m: "t div 60000 = t div 1000 div 60" using zdiv_zmult2_eq [of 60 t 1000] by simp
  moreover have "t div 3600000 = t div 1000 div 60 div 60"
    unfolding m [symmetric] using zdiv_zmult2_eq [of 60 t 60000] by simp
  ultimately show ?thesis
    unfolding MakeTime_def TimeWithinDay_def msPerDay_def getUTCHours_def getUTCMinutes_def
      getUTCSeconds_def getUTCMilliseconds_def by (simp only:)
qed

lemma TimeWithinDay_bounds: "0 \<le> TimeWithinDay t" "TimeWithinDay t < msPerDay"
  by (simp_all add: TimeWithinDay_def msPerDay_def)

lemma msPerDay_pos [simp]: "0 < msPerDay"
  by (simp add: msPerDay_def)

lemma Day_MakeDate: "0 \<le> s \<Longrightarrow> s < msPerDay \<Longrightarrow> Day (MakeDate d s) = d"
  by (simp add: Day_def MakeDate_def msPerDay_def)

lemma date_parts: "MakeDate (Day t) (TimeWithinDay t) = t"
  by (simp add: MakeDate_def Day_def TimeWithinDay_def)

text \<open>The boundary of month \<open>k\<close> as a plain integer, before the range check.\<close>

definition month_time :: "Date \<Rightarrow> int \<Rightarrow> int" where
  "month_time anchor k =
     MakeDate (month_day (month_no anchor + k) +
                 min (getUTCDate anchor) (len_of (month_no anchor + k)) - 1)
              (TimeWithinDay anchor)"

lemma daysInUtcMonth_len: "daysInUtcMonth (n div 12) (n mod 12) = Inr (len_of n)"
proof -
  have "nat (n mod 12) < 12" by (simp add: nat_less_iff)
  moreover have "n mod 12 = 1 \<longleftrightarrow> nat (n mod 12) = 1" by auto
  ultimately show ?thesis
    by (auto simp: daysInUtcMonth_def len_of_def month_len_def DAYS_IN_MONTH_def)
qed

lemma clip_twice:
  assumes "0 \<le> s" "s < msPerDay"
  shows "(case TimeClip (MakeDate d 0) of None \<Rightarrow> None | Some t \<Rightarrow> TimeClip (MakeDate (Day t) s))
    = TimeClip (MakeDate d s)"
proof -
  have "Day (MakeDate d 0) = d" by (simp add: Day_MakeDate msPerDay_def)
  moreover have "\<bar>MakeDate d 0\<bar> > MAX_TIME \<Longrightarrow> \<bar>MakeDate d s\<bar> > MAX_TIME"
  proof (cases "d < 0")
    case True
    moreover assume "\<bar>MakeDate d 0\<bar> > MAX_TIME"
    ultimately have "d < - 100000000" by (simp add: MakeDate_def msPerDay_def MAX_TIME_def)
    then have "d * msPerDay + msPerDay \<le> - MAX_TIME" by (simp add: msPerDay_def MAX_TIME_def)
    with assms show ?thesis by (simp add: MakeDate_def)
  next
    case False
    moreover assume "\<bar>MakeDate d 0\<bar> > MAX_TIME"
    ultimately show ?thesis using assms by (simp add: MakeDate_def msPerDay_def)
  qed
  ultimately show ?thesis by (auto simp: TimeClip_def)
qed

lemma addUtcMonths_Inr [result_simps]:
  "addUtcMonths a k = Inr t \<longleftrightarrow>
     \<bar>a\<bar> \<le> MAX_TIME \<and> safe_int k \<and> \<bar>month_time a k\<bar> \<le> MAX_TIME \<and> t = month_time a k"
proof -
  let ?n = "month_no a + k"
  have idx: "?n - ?n div 12 * 12 = ?n mod 12" by (simp add: minus_div_mult_eq_mod)
  have mk: "MakeDay (?n div 12) (?n mod 12) d = month_day ?n + d - 1" for d
    by (simp add: MakeDay_def month_day_def Let_def)
  have "setUTCHours (setUTCFullYear 0 (?n div 12) (?n mod 12) d) (getUTCHours a) (getUTCMinutes a)
      (getUTCSeconds a) (getUTCMilliseconds a)
      = TimeClip (MakeDate (month_day ?n + d - 1) (TimeWithinDay a))" for d
    using clip_twice [OF TimeWithinDay_bounds [of a], of "month_day ?n + d - 1"]
    unfolding setUTCHours_def setUTCFullYear_def time_of_day_parts mk by (simp add: TimeWithinDay_def [of 0])
  then show ?thesis
    by (auto simp: addUtcMonths_def requireValidDate_def result_simps Let_def idx daysInUtcMonth_len
        month_no_def [symmetric] month_time_def [symmetric] TimeClip_def split: if_splits)
qed

lemma addUtcMonths_Inl: "addUtcMonths a k = Inl e \<Longrightarrow> e = RangeError"
  by (auto simp: addUtcMonths_def requireValidDate_def requireSafeInteger_def daysInUtcMonth_def
      result_simps Let_def split: if_splits option.splits)

lemma month_time_mono:
  assumes "j < k"
  shows "month_time a j < month_time a k"
proof -
  let ?n = "month_no a"
  have "month_day (?n + j) + len_of (?n + j) \<le> month_day (?n + k)"
    using assms by (intro month_day_less) simp
  then have "month_day (?n + j) + min (getUTCDate a) (len_of (?n + j)) - 1 <
      month_day (?n + k) + min (getUTCDate a) (len_of (?n + k)) - 1"
    using getUTCDate_bounds(1) [of a] len_of_bounds(1) [of "?n + k"] by linarith
  then show ?thesis by (simp add: month_time_def MakeDate_def msPerDay_def)
qed

lemma month_time_mono_le: "j \<le> k \<Longrightarrow> month_time a j \<le> month_time a k"
  using month_time_mono [of j k a] by (cases "j = k") auto

lemma month_time_0 [simp]: "month_time a 0 = a"
  using getUTCDate_bounds(2) [of a] by (simp add: month_time_def getUTCDate_eq date_parts)

lemma month_no_month_time: "month_no (month_time a k) = month_no a + k"
proof -
  let ?n = "month_no a + k" and ?t = "month_time a k"
  let ?d = "month_day ?n + min (getUTCDate a) (len_of ?n) - 1"
  have day: "Day ?t = ?d" by (simp add: month_time_def Day_MakeDate TimeWithinDay_bounds)
  have "month_day ?n \<le> ?d" "?d < month_day ?n + len_of ?n"
    using getUTCDate_bounds(1) [of a] len_of_bounds(1) [of ?n] by auto
  with day month_of_date [of ?t] month_day_less [of "month_no ?t" ?n] month_day_less [of ?n "month_no ?t"]
  show ?thesis by (fastforce simp: month_day_Suc)
qed

subsection \<open>The month that contains an instant\<close>

record NaturalMonth =
  index :: int
  month_start :: Date
  month_end :: Date

text \<open>The first \<^verbatim>\<open>while\<close>: step back while the month starts after \<open>at\<close>.\<close>

fun step_back :: "Date \<Rightarrow> Date \<Rightarrow> nat \<Rightarrow> nat result" where
  "step_back anchor at 0 = Inr 0"
| "step_back anchor at (Suc i) =
     rbind (addUtcMonths anchor (int (Suc i))) (\<lambda>t.
       if t > at then step_back anchor at i else Inr (Suc i))"

text \<open>The second: step forward while the next month has already started.\<close>

function step_forward :: "Date \<Rightarrow> Date \<Rightarrow> nat \<Rightarrow> nat result" where
  "step_forward anchor at i =
     rbind (addUtcMonths anchor (int i + 1)) (\<lambda>t.
       if t \<le> at then step_forward anchor at (i + 1) else Inr i)"
  by pat_completeness auto

text \<open>It ends: each step moves the boundary of month \<open>i\<close> strictly closer to \<open>at\<close>.\<close>

termination step_forward
proof (relation "measure (\<lambda>(anchor, at, i). nat (at + 1 - month_time anchor (int i)))")
  fix anchor at :: Date and i :: nat and t :: Date
  assume "addUtcMonths anchor (int i + 1) = Inr t" and "t \<le> at"
  then have "month_time anchor (int i + 1) \<le> at" by (simp add: result_simps)
  with month_time_mono [of "int i" "int i + 1" anchor]
  show "((anchor, at, i + 1), (anchor, at, i)) \<in>
      measure (\<lambda>(anchor, at, i). nat (at + 1 - month_time anchor (int i)))"
    by (simp add: add.commute)
qed simp

declare step_forward.simps [simp del]

definition naturalMonthContaining :: "Date \<Rightarrow> Date \<Rightarrow> NaturalMonth result" where
  "naturalMonthContaining anchor at =
     rbind (requireValidDate anchor) (\<lambda>_.
     rbind (requireValidDate at) (\<lambda>_.
     rbind (require (\<not> at < anchor) RangeError) (\<lambda>_.
     let index0 = (getUTCFullYear at - getUTCFullYear anchor) * 12 + (getUTCMonth at - getUTCMonth anchor);
         index1 = (if index0 < 0 then 0 else index0)
     in rbind (step_back anchor at (nat index1)) (\<lambda>i.
        rbind (step_forward anchor at i) (\<lambda>j.
        rbind (addUtcMonths anchor (int j)) (\<lambda>s.
        rbind (addUtcMonths anchor (int j + 1)) (\<lambda>e.
          Inr \<lparr>index = int j, month_start = s, month_end = e\<rparr>)))))))"

subsection \<open>A paid period, cut into natural months\<close>

definition MAX_NATURAL_MONTHS :: nat where
  "MAX_NATURAL_MONTHS = 1200"

function months_loop :: "Date \<Rightarrow> Date \<Rightarrow> nat \<Rightarrow> NaturalMonth list \<Rightarrow> NaturalMonth list result" where
  "months_loop start periodEnd i months =
     (if i \<ge> MAX_NATURAL_MONTHS then Inl RangeError
      else rbind (addUtcMonths start (int i)) (\<lambda>monthStart.
        if monthStart \<ge> periodEnd then Inr months
        else rbind (addUtcMonths start (int i + 1)) (\<lambda>nextStart.
          months_loop start periodEnd (i + 1)
            (months @ [\<lparr>index = int i, month_start = monthStart,
                        month_end = (if nextStart < periodEnd then nextStart else periodEnd)\<rparr>]))))"
  by pat_completeness auto

termination months_loop
  by (relation "measure (\<lambda>(_, _, i, _). MAX_NATURAL_MONTHS - i)") auto

declare months_loop.simps [simp del]

definition naturalMonthsOfPeriod :: "Date \<Rightarrow> Date \<Rightarrow> NaturalMonth list result" where
  "naturalMonthsOfPeriod start periodEnd =
     rbind (requireValidDate start) (\<lambda>_.
     rbind (requireValidDate periodEnd) (\<lambda>_.
     rbind (require (\<not> periodEnd \<le> start) RangeError) (\<lambda>_.
       months_loop start periodEnd 0 [])))"

record InstantRange =
  range_start :: Date
  range_end :: Date

definition windowShareMicro :: "int \<Rightarrow> InstantRange \<Rightarrow> InstantRange \<Rightarrow> int result" where
  "windowShareMicro levelMicro window natural =
     rbind (requireNonNegativeSafeInteger levelMicro) (\<lambda>_.
     rbind (requireValidDate (range_start window)) (\<lambda>_.
     rbind (requireValidDate (range_end window)) (\<lambda>_.
     rbind (requireValidDate (range_start natural)) (\<lambda>_.
     rbind (requireValidDate (range_end natural)) (\<lambda>_.
       let ws = range_start window; we = range_end window;
           ns = range_start natural; ne = range_end natural
       in rbind (require (ns \<le> ws \<and> ws < we \<and> we \<le> ne) RangeError) (\<lambda>_.
            proratedWholeCreditsMicro levelMicro (we - ws) (ne - ns)))))))"


subsection \<open>What the calendar guarantees\<close>


lemma month_day_gap: "m < n \<Longrightarrow> month_day m + len_of m + (n - m - 1) \<le> month_day n"
proof (induction n rule: int_gr_induct)
  case base
  then show ?case by (simp add: month_day_Suc)
next
  case (step i)
  then show ?case using len_of_bounds(1) [of i] by (simp add: month_day_Suc)
qed

lemma month_time_gap:
  assumes "j \<le> k"
  shows "month_time a j + (k - j) * msPerDay \<le> month_time a k"
proof (cases "j = k")
  case False
  define n where "n = month_no a"
  define d where "d i = month_day (n + i) + min (getUTCDate a) (len_of (n + i)) - 1" for i
  have "d j + (k - j) \<le> d k"
    using False assms month_day_gap [of "n + j" "n + k"] getUTCDate_bounds(1) [of a]
      len_of_bounds(1) [of "n + k"] by (simp add: d_def)
  then have "(d j + (k - j)) * msPerDay \<le> d k * msPerDay"
    by (intro mult_right_mono) (auto simp: msPerDay_def)
  moreover have "month_time a i = d i * msPerDay + TimeWithinDay a" for i
    by (simp add: month_time_def d_def n_def MakeDate_def)
  ultimately show ?thesis by (simp add: algebra_simps)
qed simp

lemma step_back_Inr:
  "step_back a at n = Inr i \<Longrightarrow>
     i \<le> n \<and> (i = 0 \<or> month_time a (int i) \<le> at) \<and> (i < n \<longrightarrow> at < month_time a (int i + 1))"
proof (induction n)
  case (Suc n)
  from Suc.prems have "(if month_time a (int (Suc n)) > at then step_back a at n else Inr (Suc n)) = Inr i"
    by (auto simp: result_simps)
  with Suc.IH show ?case by (cases "i = n") (auto simp: add.commute split: if_splits)
qed simp

lemma step_forward_Inr:
  "step_forward a at i = Inr j \<Longrightarrow>
     i \<le> j \<and> at < month_time a (int j + 1) \<and> (j = i \<or> month_time a (int j) \<le> at)"
proof (induction a at i rule: step_forward.induct)
  case (1 a at i)
  from "1.prems" have t: "addUtcMonths a (int i + 1) = Inr (month_time a (int i + 1))"
    by (subst (asm) step_forward.simps) (auto simp: result_simps)
  with "1.prems" "1.IH" [OF t] show ?case
    by (subst (asm) step_forward.simps)
      (auto simp: add.commute split: if_splits intro: order_trans [OF month_time_mono_le])
qed

lemma month_in_range:
  assumes "\<bar>a\<bar> \<le> MAX_TIME" "0 \<le> k" "month_time a k \<le> MAX_TIME"
  shows "addUtcMonths a k = Inr (month_time a k)"
proof -
  from month_time_gap [of 0 k a] assms have gap: "a + k * msPerDay \<le> month_time a k" by simp
  with assms have "safe_int k" by (auto simp: msPerDay_def MAX_TIME_def safe_int_def MAX_SAFE_def)
  moreover have "a \<le> month_time a k" using month_time_mono_le [of 0 k a] assms(2) by simp
  ultimately show ?thesis using assms by (auto simp: result_simps)
qed

lemma step_back_total:
  assumes "\<bar>a\<bar> \<le> MAX_TIME" and "month_time a (int n) \<le> MAX_TIME"
  shows "\<exists>i. step_back a at n = Inr i"
  using assms(2)
proof (induction n)
  case (Suc n)
  then have "addUtcMonths a (int (Suc n)) = Inr (month_time a (int (Suc n)))"
    using assms(1) by (intro month_in_range) auto
  moreover have "month_time a (int n) \<le> MAX_TIME"
    using month_time_mono_le [of "int n" "int (Suc n)" a] Suc.prems by simp
  ultimately show ?case using Suc.IH by simp
qed simp

lemma step_forward_total:
  assumes "\<bar>a\<bar> \<le> MAX_TIME" and "i \<le> n" and "at < month_time a (int n + 1)"
    and "month_time a (int n + 1) \<le> MAX_TIME"
  shows "\<exists>j. step_forward a at i = Inr j"
  using assms(2)
proof (induction i rule: inc_induct)
  case base
  have "addUtcMonths a (int n + 1) = Inr (month_time a (int n + 1))"
    using assms(1,4) by (intro month_in_range) auto
  then show ?case using assms(3) by (subst step_forward.simps) simp
next
  case (step i)
  then have "month_time a (int i + 1) \<le> month_time a (int n + 1)" by (intro month_time_mono_le) simp
  then have "addUtcMonths a (int i + 1) = Inr (month_time a (int i + 1))"
    using assms(1,4) by (intro month_in_range) auto
  then show ?case using step.IH by (subst step_forward.simps) simp
qed

lemma later_month_later: "month_no s < month_no t \<Longrightarrow> s < t"
proof -
  assume "month_no s < month_no t"
  then have "month_day (month_no s + 1) \<le> month_day (month_no t)"
    using month_day_less [of "month_no s" "month_no t"] by (simp add: month_day_Suc)
  then have "Day s < Day t" using month_of_date(2) [of s] month_of_date(1) [of t] by linarith
  then show "s < t" unfolding Day_def by (meson not_less zdiv_mono1 msPerDay_pos)
qed

lemma month_after_near:
  "month_time anchor (month_no at - month_no anchor + 1) < at + 62 * msPerDay"
proof -
  let ?t = "month_time anchor (month_no at - month_no anchor + 1)"
  have "Day ?t \<le> Day at + 61"
    using month_of_date [of at] month_of_date(2) [of ?t] len_of_bounds(2) [of "month_no at"]
      len_of_bounds(2) [of "month_no at + 1"] month_day_Suc [of "month_no at"]
      month_day_Suc [of "month_no at + 1"]
    by (simp add: month_no_month_time)
  then have "(Day ?t + 1) * msPerDay \<le> (Day at + 62) * msPerDay"
    by (intro mult_right_mono) (auto simp: msPerDay_def)
  moreover have "Day at * msPerDay \<le> at" "?t < Day ?t * msPerDay + msPerDay"
    using div_below [of msPerDay at] div_below [of msPerDay ?t] by (auto simp: Day_def mult.commute)
  ultimately show ?thesis by (simp add: algebra_simps)
qed

lemma natural_month_search:
  assumes "\<bar>anchor\<bar> \<le> MAX_TIME" and limit: "month_time anchor (int k + 1) \<le> MAX_TIME"
    and upper: "at < month_time anchor (int k + 1)"
  shows "\<exists>i j. step_back anchor at k = Inr i \<and> step_forward anchor at i = Inr j \<and>
    addUtcMonths anchor (int j) = Inr (month_time anchor (int j)) \<and>
    addUtcMonths anchor (int j + 1) = Inr (month_time anchor (int j + 1))"
proof -
  have "month_time anchor (int k) \<le> MAX_TIME"
    using limit month_time_mono_le [of "int k" "int k + 1" anchor] by simp
  then obtain i where i: "step_back anchor at k = Inr i"
    using step_back_total [OF assms(1)] by blast
  then obtain j where j: "step_forward anchor at i = Inr j"
    using step_forward_total [OF assms(1) _ upper limit] step_back_Inr [OF i] by blast
  have "j \<le> k"
  proof (rule ccontr)
    assume "\<not> j \<le> k"
    then have "month_time anchor (int k + 1) \<le> month_time anchor (int j)" by (intro month_time_mono_le) simp
    with upper step_forward_Inr [OF j] step_back_Inr [OF i] \<open>\<not> j \<le> k\<close> show False by auto
  qed
  then have "month_time anchor (int j + 1) \<le> month_time anchor (int k + 1)"
    by (intro month_time_mono_le) simp
  with limit month_time_mono_le [of "int j" "int j + 1" anchor]
  have "month_time anchor (int j + 1) \<le> MAX_TIME" "month_time anchor (int j) \<le> MAX_TIME" by auto
  with i j show ?thesis using assms(1) by (auto intro!: month_in_range)
qed

lemma naturalMonthContaining_Inr:
  assumes "naturalMonthContaining anchor at = Inr m"
  shows "0 \<le> index m \<and> addUtcMonths anchor (index m) = Inr (month_start m) \<and>
    addUtcMonths anchor (index m + 1) = Inr (month_end m) \<and> month_start m \<le> at \<and> at < month_end m"
proof -
  from assms obtain n i j where a: "anchor \<le> at" and bk: "step_back anchor at n = Inr i"
    and fw: "step_forward anchor at i = Inr j"
    and s: "addUtcMonths anchor (int j) = Inr (month_start m)"
    and e: "addUtcMonths anchor (int j + 1) = Inr (month_end m)" and m: "index m = int j"
    by (auto simp: naturalMonthContaining_def result_simps Let_def)
  have "month_time anchor (int j) \<le> at"
    using step_back_Inr [OF bk] step_forward_Inr [OF fw] a by auto
  with s e m step_forward_Inr [OF fw] show ?thesis by (auto simp: result_simps)
qed

text \<open>C32: adding months moves the calendar month by exactly that many, keeps the time of day, and keeps
  the day of the month unless the target month is shorter, when it is that month's last day.\<close>
theorem addUtcMonths_moves_the_month:
  assumes "addUtcMonths anchor k = Inr t"
  shows "getUTCFullYear t * 12 + getUTCMonth t = getUTCFullYear anchor * 12 + getUTCMonth anchor + k \<and>
    daysInUtcMonth (getUTCFullYear t) (getUTCMonth t) = Inr (len_of (month_no t)) \<and>
    getUTCDate t = min (getUTCDate anchor) (len_of (month_no t)) \<and>
    TimeWithinDay t = TimeWithinDay anchor"
proof -
  from assms have t: "t = month_time anchor k" by (simp add: result_simps)
  have no: "month_no t = month_no anchor + k" by (simp add: t month_no_month_time)
  have "Day t = month_day (month_no t) + min (getUTCDate anchor) (len_of (month_no t)) - 1"
    using TimeWithinDay_bounds [of anchor] by (simp add: no) (simp add: t month_time_def Day_MakeDate)
  then have "getUTCDate t = min (getUTCDate anchor) (len_of (month_no t))" by (simp add: getUTCDate_eq)
  moreover have "TimeWithinDay t = TimeWithinDay anchor"
    using TimeWithinDay_bounds [of anchor] by (simp add: t month_time_def TimeWithinDay_def MakeDate_def)
  moreover have "daysInUtcMonth (getUTCFullYear t) (getUTCMonth t) = Inr (len_of (month_no t))"
    using daysInUtcMonth_len [of "month_no t"] by (simp add: month_no_split)
  ultimately show ?thesis using no by (simp add: month_no_def)
qed

theorem addUtcMonths_moves_the_month_witness:
  "addUtcMonths 1706659200000 1 = Inr 1709164800000 \<and> getUTCDate 1709164800000 = 29 \<and>
   TimeWithinDay 1709164800000 = TimeWithinDay 1706659200000"
proof -
  have h: "addUtcMonths 1706659200000 1 = Inr 1709164800000" by code_simp
  have d: "getUTCDate 1709164800000 = 29" by code_simp
  from addUtcMonths_moves_the_month [OF h] h d show ?thesis by blast
qed

text \<open>C33: the month found for an instant is the one of the anchor's months that contains it, and it is
  found for every instant from the anchor on whose month ends within the range of a Date: neither
  loop of the search runs off, whatever the calendar-field estimate was.\<close>
theorem naturalMonthContaining_finds_the_month:
  assumes "\<bar>anchor\<bar> \<le> MAX_TIME" and "anchor \<le> at" and "at \<le> MAX_TIME - 62 * msPerDay"
  shows "\<exists>m. naturalMonthContaining anchor at = Inr m \<and>
    addUtcMonths anchor (index m) = Inr (month_start m) \<and>
    addUtcMonths anchor (index m + 1) = Inr (month_end m) \<and>
    month_start m \<le> at \<and> at < month_end m"
proof -
  define k where "k = nat (month_no at - month_no anchor)"
  have k: "int k = month_no at - month_no anchor"
    using later_month_later [of at anchor] assms(2) by (fastforce simp: k_def)
  have limit: "month_time anchor (int k + 1) \<le> MAX_TIME"
    using month_after_near [of anchor at] assms(3) by (simp add: k)
  have upper: "at < month_time anchor (int k + 1)"
    by (rule later_month_later) (simp add: month_no_month_time k)
  from natural_month_search [OF assms(1) limit upper] obtain i j
    where ij: "step_back anchor at k = Inr i" "step_forward anchor at i = Inr j"
      "addUtcMonths anchor (int j) = Inr (month_time anchor (int j))"
      "addUtcMonths anchor (int j + 1) = Inr (month_time anchor (int j + 1))" by blast
  have "\<bar>at\<bar> \<le> MAX_TIME" using assms by (auto simp: msPerDay_def)
  moreover have "(getUTCFullYear at - getUTCFullYear anchor) * 12 + (getUTCMonth at - getUTCMonth anchor) = int k"
    by (simp add: k month_no_def)
  ultimately obtain m where "naturalMonthContaining anchor at = Inr m"
    using assms ij by (simp add: naturalMonthContaining_def requireValidDate_def Let_def not_less)
  with naturalMonthContaining_Inr [OF this] show ?thesis by blast
qed

theorem naturalMonthContaining_finds_the_month_witness:
  "\<exists>m. naturalMonthContaining 1706659200000 1709200000000 = Inr m \<and>
    month_start m \<le> 1709200000000 \<and> 1709200000000 < month_end m"
  using naturalMonthContaining_finds_the_month [of 1706659200000 1709200000000]
  by (auto simp: MAX_TIME_def msPerDay_def)

text \<open>
  Months that tile a period: the first starts where the period does, each starts where the one
  before ends, none is empty, and the last ends with the period.
\<close>

fun months_tile :: "Date \<Rightarrow> Date \<Rightarrow> NaturalMonth list \<Rightarrow> bool" where
  "months_tile s e [] \<longleftrightarrow> s = e"
| "months_tile s e (m # ms) \<longleftrightarrow> month_start m = s \<and> s < month_end m \<and> months_tile (month_end m) e ms"

lemma months_tile_snoc:
  "months_tile s e ms \<Longrightarrow> e < e' \<Longrightarrow>
     months_tile s e' (ms @ [\<lparr>index = i, month_start = e, month_end = e'\<rparr>])"
  by (induction s e ms rule: months_tile.induct) auto

lemma months_loop_tiles:
  assumes "months_loop s e i ms = Inr r"
    and "months_tile s (min e (month_time s (int i))) ms"
    and "map index ms = map int [0..<i]"
  shows "months_tile s e r \<and> map index r = map int [0..<length r] \<and> length r < MAX_NATURAL_MONTHS
    \<and> e \<le> month_time s (int (length r))"
  using assms
proof (induction s e i ms rule: months_loop.induct)
  case (1 s e i ms)
  let ?t = "month_time s (int i)" and ?u = "month_time s (int i + 1)"
  from "1.prems"(1) have i: "\<not> i \<ge> MAX_NATURAL_MONTHS" and t: "addUtcMonths s (int i) = Inr ?t"
    by (subst (asm) months_loop.simps; auto simp: result_simps split: if_splits)+
  have len: "length ms = i" using "1.prems"(3) by (metis length_map length_upt minus_nat.diff_0)
  show ?case
  proof (cases "?t \<ge> e")
    case True
    with "1.prems" i t have "r = ms" by (subst (asm) months_loop.simps) simp
    with True "1.prems" len i show ?thesis by (auto simp: min_def)
  next
    case False
    let ?m = "\<lparr>index = int i, month_start = ?t, month_end = (if ?u < e then ?u else e)\<rparr>"
    from "1.prems"(1) False i t have u: "addUtcMonths s (int i + 1) = Inr ?u"
      and rest: "months_loop s e (i + 1) (ms @ [?m]) = Inr r"
      by (subst (asm) months_loop.simps; auto simp: result_simps)+
    have "months_tile s (min e (month_time s (int (i + 1)))) (ms @ [?m])"
      using "1.prems"(2) False month_time_mono [of "int i" "int i + 1" s]
      by (auto simp: min_def add.commute intro!: months_tile_snoc split: if_splits)
    moreover have "map index (ms @ [?m]) = map int [0..<i + 1]" using "1.prems"(3) by simp
    ultimately show ?thesis using "1.IH" [OF i t False u rest] by blast
  qed
qed

text \<open>Month \<open>k\<close> of a cut starts \<open>k\<close> calendar months after the start of the period and ends a month later, or at its end.\<close>

definition cuts_at_boundary :: "Date \<Rightarrow> Date \<Rightarrow> nat \<Rightarrow> NaturalMonth \<Rightarrow> bool" where
  "cuts_at_boundary start periodEnd k m \<longleftrightarrow>
     addUtcMonths start (int k) = Inr (month_start m) \<and> index m = int k \<and>
     (\<exists>following. addUtcMonths start (int k + 1) = Inr following \<and> month_end m = min following periodEnd)"

lemma months_loop_cuts:
  assumes "months_loop s e i ms = Inr r" and "length ms = i" and "\<forall>k<length ms. cuts_at_boundary s e k (ms ! k)"
  shows "\<forall>k<length r. cuts_at_boundary s e k (r ! k)"
  using assms
proof (induction s e i ms rule: months_loop.induct)
  case (1 s e i ms)
  from "1.prems"(1) obtain t where i: "\<not> i \<ge> MAX_NATURAL_MONTHS" and t: "addUtcMonths s (int i) = Inr t"
    by (subst (asm) months_loop.simps) (auto simp: rbind_eq_Inr split: if_splits)
  show ?case
  proof (cases "t \<ge> e")
    case True
    with "1.prems"(1) i t have "r = ms" by (subst (asm) months_loop.simps) simp
    with "1.prems"(3) show ?thesis by simp
  next
    case False
    from "1.prems"(1) False i t obtain u where u: "addUtcMonths s (int i + 1) = Inr u"
      and rest: "months_loop s e (i + 1) (ms @ [\<lparr>index = int i, month_start = t, month_end = (if u < e then u else e)\<rparr>]) = Inr r"
      by (subst (asm) months_loop.simps) (auto simp: rbind_eq_Inr)
    show ?thesis
      by (rule "1.IH" [OF i t False u rest])
        (use "1.prems"(2,3) t u in \<open>auto simp: nth_append less_Suc_eq cuts_at_boundary_def\<close>)
  qed
qed

text \<open>C34: a paid period is cut at its own month boundaries. Month \<open>k\<close> starts \<open>k\<close> calendar months after the start of the
  period, counted from that start and never from the month before, and ends where the next one starts or where the period
  ends; together the months, numbered from zero and at most 1199 of them, tile the period exactly.\<close>
theorem naturalMonthsOfPeriod_tiles_the_period:
  assumes "naturalMonthsOfPeriod start periodEnd = Inr months"
  shows "months_tile start periodEnd months \<and> months \<noteq> [] \<and> length months < MAX_NATURAL_MONTHS \<and>
    (\<forall>k<length months. \<exists>s e. addUtcMonths start (int k) = Inr s \<and> addUtcMonths start (int k + 1) = Inr e \<and>
       months ! k = \<lparr>index = int k, month_start = s, month_end = min e periodEnd\<rparr>)"
proof -
  from assms have run: "start < periodEnd" "months_loop start periodEnd 0 [] = Inr months"
    by (auto simp: naturalMonthsOfPeriod_def result_simps)
  have "\<forall>k<length months. cuts_at_boundary start periodEnd k (months ! k)" by (rule months_loop_cuts [OF run(2)]) simp_all
  with run months_loop_tiles [of start periodEnd 0 "[]" months] show ?thesis
    by (auto simp: cuts_at_boundary_def intro!: NaturalMonth.equality)
qed

lemma months_loop_count:
  assumes "\<bar>s\<bar> \<le> MAX_TIME" and "month_time s (int n) = e" and "e \<le> MAX_TIME"
    and "n < MAX_NATURAL_MONTHS" and "i \<le> n"
  shows "\<exists>r. months_loop s e i ms = Inr r \<and> length r = length ms + (n - i)"
  using assms(5)
proof (induction i arbitrary: ms rule: inc_induct)
  case base
  have "addUtcMonths s (int n) = Inr e" using assms by (auto intro: month_in_range)
  then show ?case using assms(4) by (subst months_loop.simps) simp
next
  case (step i)
  have "month_time s (int i) < e" "month_time s (int i + 1) \<le> e"
    using step.hyps assms(2) month_time_mono [of "int i" "int n" s]
      month_time_mono_le [of "int i + 1" "int n" s] by auto
  then have "addUtcMonths s (int i) = Inr (month_time s (int i))"
    "addUtcMonths s (int i + 1) = Inr (month_time s (int i + 1))"
    using assms by (auto intro!: month_in_range)
  then show ?case
    using step.hyps step.IH assms(4) \<open>month_time s (int i) < e\<close>
    by (subst months_loop.simps) (fastforce simp: Suc_diff_Suc)
qed

text \<open>A period of exactly \<open>n\<close> calendar months is cut into \<open>n\<close> months, so an annual period gives
  twelve, whatever day of the month it starts on.\<close>
theorem naturalMonthsOfPeriod_counts_calendar_months:
  assumes "addUtcMonths start (int n) = Inr periodEnd" and "0 < n" and "n < MAX_NATURAL_MONTHS"
  shows "\<exists>months. naturalMonthsOfPeriod start periodEnd = Inr months \<and> length months = n"
proof -
  from assms(1) have s: "\<bar>start\<bar> \<le> MAX_TIME" and e: "\<bar>periodEnd\<bar> \<le> MAX_TIME"
    and t: "month_time start (int n) = periodEnd" by (auto simp: result_simps)
  have "start < periodEnd" using month_time_mono [of 0 "int n" start] assms(2) t by simp
  moreover obtain r where "months_loop start periodEnd 0 [] = Inr r" "length r = n"
    using months_loop_count [OF s t _ assms(3), of 0 "[]"] e by (auto simp: abs_le_iff)
  ultimately show ?thesis using s e by (simp add: naturalMonthsOfPeriod_def requireValidDate_def)
qed

theorem naturalMonthsOfPeriod_counts_calendar_months_witness:
  "\<exists>months. naturalMonthsOfPeriod 1706659200000 1738281600000 = Inr months \<and> length months = 12"
proof -
  have "addUtcMonths 1706659200000 (int 12) = Inr 1738281600000" by code_simp
  then show ?thesis
    by (rule naturalMonthsOfPeriod_counts_calendar_months) (simp_all add: MAX_NATURAL_MONTHS_def)
qed

theorem naturalMonthsOfPeriod_tiles_the_period_witness:
  "\<exists>months. naturalMonthsOfPeriod 1706659200000 1709200000000 = Inr months \<and>
     months_tile 1706659200000 1709200000000 months \<and>
     addUtcMonths 1706659200000 1 = Inr (month_start (months ! 1)) \<and> month_start (months ! 1) = 1709164800000"
proof -
  have cut: "naturalMonthsOfPeriod 1706659200000 1709200000000 =
     Inr [\<lparr>index = 0, month_start = 1706659200000, month_end = 1709164800000\<rparr>,
      \<lparr>index = 1, month_start = 1709164800000, month_end = 1709200000000\<rparr>]" by code_simp
  from naturalMonthsOfPeriod_tiles_the_period [OF cut] cut show ?thesis by (fastforce dest: spec [of _ 1])
qed

text \<open>C35: a window's share of a monthly level is its share of the natural month in whole credits, rounded down
  once: a multiple of one credit, never more than the exact share, and less than one credit short of it. It is
  the whole level for a window that is the whole month.\<close>
theorem windowShareMicro_is_a_floored_share:
  assumes "windowShareMicro level w n = Inr s"
  shows "MICROCREDITS_PER_CREDIT dvd s \<and> 0 \<le> s \<and>
    s * (range_end n - range_start n) \<le> level * (range_end w - range_start w) \<and>
    level * (range_end w - range_start w) < (s + MICROCREDITS_PER_CREDIT) * (range_end n - range_start n) \<and> s \<le> level \<and>
    (w = n \<and> MICROCREDITS_PER_CREDIT dvd level \<longrightarrow> s = level)"
proof -
  let ?p = "range_end w - range_start w" and ?d = "range_end n - range_start n"
  from assms have r: "0 \<le> level" "range_start n \<le> range_start w" "range_start w < range_end w"
      "range_end w \<le> range_end n"
    and s: "proratedWholeCreditsMicro level ?p ?d = Inr s"
    by (auto simp: windowShareMicro_def result_simps Let_def)
  have d: "0 < ?d" "?p \<le> ?d" "0 < ?p" using r by auto
  have nonneg: "0 \<le> s" and "MICROCREDITS_PER_CREDIT dvd s"
    using s r(1) d by (auto simp: result_simps trunc_div_nonneg MICROCREDITS_PER_CREDIT_def pos_imp_zdiv_nonneg_iff)
  moreover have share: "s * ?d \<le> level * ?p" using prorated_magnitude [OF s] nonneg r(1) by simp
  moreover have "level * ?p < (s + MICROCREDITS_PER_CREDIT) * ?d"
  proof -
    let ?m = "?d * MICROCREDITS_PER_CREDIT"
    have m: "0 < ?m" using d(1) by (simp add: MICROCREDITS_PER_CREDIT_def)
    have "s = level * ?p div ?m * MICROCREDITS_PER_CREDIT"
      using s r(1) d by (simp add: result_simps trunc_div_nonneg MICROCREDITS_PER_CREDIT_def)
    then have "(s + MICROCREDITS_PER_CREDIT) * ?d = level * ?p div ?m * ?m + ?m" by (simp add: algebra_simps)
    with pos_mod_bound [OF m, of "level * ?p"] div_mult_mod_eq [of "level * ?p" ?m] show ?thesis by linarith
  qed
  moreover have "s \<le> level"
  proof -
    have "level * ?p \<le> level * ?d" using r(1) d by (intro mult_left_mono) auto
    with share d(1) show ?thesis by (meson mult_le_cancel_right_pos order_trans)
  qed
  moreover have "s = level" if "w = n" "MICROCREDITS_PER_CREDIT dvd level"
  proof -
    let ?M = MICROCREDITS_PER_CREDIT
    have M: "0 < ?M" by (simp add: MICROCREDITS_PER_CREDIT_def)
    from that(2) obtain q where q: "level = ?M * q" ..
    have "level * ?d div (?d * ?M) = q"
      using d(1) M nonzero_mult_div_cancel_right [of "?d * ?M" q] by (simp add: q ac_simps)
    with that(1) s d r(1) q M show ?thesis by (simp add: result_simps trunc_div_nonneg)
  qed
  ultimately show ?thesis by blast
qed

theorem windowShareMicro_is_a_floored_share_witness:
  "windowShareMicro 1500000000 \<lparr>range_start = 0, range_end = 604800000\<rparr>
     \<lparr>range_start = 0, range_end = 2678400000\<rparr> = Inr 338000000 \<and>
   1500000000 * 604800000 < (338000000 + MICROCREDITS_PER_CREDIT) * 2678400000"
proof -
  have h: "windowShareMicro 1500000000 \<lparr>range_start = 0, range_end = 604800000\<rparr>
     \<lparr>range_start = 0, range_end = 2678400000\<rparr> = Inr 338000000" by code_simp
  from windowShareMicro_is_a_floored_share [OF h] h show ?thesis by simp
qed

end
