(* ===== verification/Credit_Tables.thy ===== *)
theory Credit_Tables
  imports Credit_Calendar
begin

section \<open>The credit tables and the rules the database holds\<close>

text \<open>
  The state of the AI credits system: the Postgres tables of migrations 0127 to 0140 that the
  ledger, the reservations and their settlement read and write, as lists of rows in insertion
  order, and the database's clock. An instant is a count of milliseconds since the epoch, as a JavaScript
  Date has it; Postgres keeps microseconds, so rows it wrote within one millisecond are ordered by their
  ids here where an \<^verbatim>\<open>ORDER BY\<close> would still see their times differ. An amount is a
  count of microcredits, an id its canonical text (Postgres orders uuids as their text orders). The
  rows of \<^verbatim>\<open>accounts\<close> that every table references are not part of the state: an account id is one
  that exists. Rows are never deleted while their account exists, so a foreign key is checked when the
  row that holds it is written, save two of a ledger row, to its task and to its rate card: every caller
  passes a task it has read in the same transaction and that task's card. The \<^verbatim>\<open>integer\<close> columns of
  windows, level changes and cards are counters that grow by one, and are not bounded. The notes and actors
  of a rate card and the creation and update times of an account are left out: nothing in the model
  reads them.
  The rules the migrations enforce are functions too: the
  CHECK constraints of a ledger row, the trigger that applies a ledger row to its lot and its
  account, the trigger that applies a hold, the guards of a reservation, a call and a clawback, and
  the two deferred checks that run at COMMIT. A statement the database refuses is a left value, and
  with it the whole transaction.
\<close>

type_synonym uuid = string
type_synonym instant = int

subsection \<open>Rows\<close>

datatype CreditLotKind = Monthly | Proration | Adjustment | TopUp

fun CREDIT_LOT_SPEND_RANK :: "CreditLotKind \<Rightarrow> nat" where
  "CREDIT_LOT_SPEND_RANK Monthly = 0"
| "CREDIT_LOT_SPEND_RANK Proration = 0"
| "CREDIT_LOT_SPEND_RANK Adjustment = 1"
| "CREDIT_LOT_SPEND_RANK TopUp = 2"

record credit_lot =
  lot_id :: uuid
  lot_account :: uuid
  lot_kind :: CreditLotKind
  lot_window :: "uuid option"
  grant_key :: string
  granted :: int
  remaining :: int
  held :: int
  starts_at :: instant
  expires_at :: instant
  revoked_at :: "instant option"
  lot_created :: instant
  lot_still_paid :: "int option"

datatype CreditLedgerKind =
    Grant | ProrationGrant | ProrationClawback | TaskCharge | Expiry | RefundClawback
  | DebtIncurred | DebtRepayment | AdjustmentEntry | TopUpEntry

datatype CreditLedgerActor = System | Customer | Admin | Stripe | Crypto

record credit_ledger_values =
  led_account :: uuid
  led_kind :: CreditLedgerKind
  led_lot :: "uuid option"
  lot_delta :: int
  debt_delta :: int
  idempotency_key :: string
  led_session :: "string option"
  led_reservation :: "uuid option"
  led_card :: "int option"
  led_model :: "string option"
  led_reason :: "string option"
  led_actor :: CreditLedgerActor

record credit_ledger_row = credit_ledger_values +
  led_id :: nat
  led_created :: instant

datatype AiBilling = Legacy | OnCredits

datatype AiSource = SourceCredits | SourceOwnKey

datatype AiSourceSetBy = SetByCutover | SetByCustomer | SetByAdmin

record credit_account =
  acc_id :: uuid
  billing_mode :: AiBilling
  ai_source :: "AiSource option"
  ai_source_set_by :: "AiSourceSetBy option"
  ai_source_set_at :: "instant option"
  debt_micro :: int
  auto_top_up_enabled :: bool
  legacy_consent_at_move :: "bool option"
  legacy_cap_cents_at_move :: "int option"
  had_stored_key_at_move :: "bool option"
  moved_to_credits_at :: "instant option"
  moved_back_at :: "instant option"

datatype reservation_mode = Enforce | Shadow

datatype reservation_state = Open | Settled

datatype would_refuse = WouldModel | WouldTasksInFlight | WouldDebt | WouldBalance | WouldCallDidNotFit

datatype settle_reason = Completed | LeaseExpired | MaxAge | AdminSettled

record credit_reservation =
  res_id :: uuid
  res_account :: uuid
  res_session :: string
  request_key :: "string option"
  res_model :: string
  res_card :: int
  res_mode :: reservation_mode
  res_slot :: "nat option"
  res_state :: reservation_state
  reserved :: int
  committed :: int
  res_charged :: "int option"
  would_refuse_reason :: "would_refuse option"
  lease_owner :: string
  lease_expires_at :: instant
  max_until :: instant
  res_created :: instant
  res_settled_at :: "instant option"
  res_settle_reason :: "settle_reason option"

record credit_hold =
  hold_reservation :: uuid
  hold_lot :: uuid
  hold_account :: uuid
  hold_micro :: int
  hold_charged :: "int option"
  released_at :: "instant option"

datatype call_purpose = Plan | Answer

datatype bound_basis = RegionBytes | TokenCount

datatype call_state = Started | CallSettled

datatype settle_basis = ProviderUsage | ProviderRejected | NeverSent | PartialUsage | NoRecord

record credit_model_call =
  call_id :: uuid
  call_reservation :: uuid
  call_account :: uuid
  call_seq :: int
  call_purpose :: call_purpose
  call_model :: string
  input_bound_tokens :: int
  input_bound_basis :: bound_basis
  input_bound_micro :: int
  max_output_tokens :: int
  bound_micro :: int
  shadow_over_reservation :: bool
  call_state :: call_state
  sent :: bool
  settle_basis :: "settle_basis option"
  call_tokens :: "ModelCallTokens option"
  actual_micro :: "int option"
  call_charged :: "int option"
  usage_record_id :: "uuid option"
  call_settled_at :: "instant option"

datatype clawback_state = Applied | Unmatched | Reversed

record credit_clawback =
  cb_id :: uuid
  cb_account :: uuid
  cb_source :: string
  cb_source_ref :: string
  cb_target_key :: string
  cb_fraction :: "int option"
  cb_amount :: "int option"
  cb_state :: clawback_state
  cb_clawed :: "int option"
  cb_pending :: int
  cb_debt :: "int option"
  cb_created :: instant
  cb_disputed :: "int option"
  cb_cap_spent :: "int option"
  cb_ledger_mark :: "nat option"
  cb_forgive_after :: "int option"

datatype window_source = StripeInvoice | CryptoEntitlement | PlanOverride

record credit_window =
  win_id :: uuid
  win_account :: uuid
  win_source :: window_source
  win_source_ref :: string
  natural_start :: instant
  natural_end :: instant
  window_start :: instant
  window_end :: instant
  win_tier :: string
  win_level :: int
  win_undisputed_level :: "int option"
  win_level_seq :: nat
  win_created :: instant

datatype level_change_reason = PlanChange | Refund | Dispute | DisputeReinstated

record level_change =
  lc_window :: uuid
  lc_seq :: nat
  lc_reason :: level_change_reason
  lc_from :: int
  lc_to :: int
  lc_effective :: instant
  lc_delta :: int
  lc_created :: instant
  lc_source_ref :: "string option"
  lc_undisputed_from :: "int option"
  lc_undisputed_to :: "int option"
  lc_still_paid :: "int option"

record rate_card =
  card_version :: int
  markup_bp :: int
  announced_at :: instant
  effective_at :: instant
  withdrawn_at :: "instant option"

record rate_card_model = CreditRateCardModelRow +
  rcm_version :: int
  rcm_model :: string

record db =
  db_now :: instant
  credit_accounts :: "credit_account list"
  credit_lots :: "credit_lot list"
  credit_ledger :: "credit_ledger_row list"
  ledger_seq :: nat
  credit_reservations :: "credit_reservation list"
  credit_reservation_holds :: "credit_hold list"
  credit_model_calls :: "credit_model_call list"
  credit_clawbacks :: "credit_clawback list"
  credit_windows :: "credit_window list"
  credit_window_level_changes :: "level_change list"
  credit_rate_cards :: "rate_card list"
  credit_rate_card_models :: "rate_card_model list"

text \<open>A statement of the model: from a state to a value and the next state, or the error raised.\<close>

type_synonym 'a statement = "db \<Rightarrow> ('a \<times> db) result"

subsection \<open>Predicates the queries share\<close>

definition live_lot :: "instant \<Rightarrow> credit_lot \<Rightarrow> bool" where
  "live_lot t l \<longleftrightarrow> starts_at l \<le> t \<and> expires_at l > t \<and> revoked_at l = None"

definition free_micro :: "credit_lot \<Rightarrow> int" where
  "free_micro l = remaining l - held l"

definition spend_key :: "credit_lot \<Rightarrow> nat \<times> instant \<times> instant \<times> uuid" where
  "spend_key l = (CREDIT_LOT_SPEND_RANK (lot_kind l), expires_at l, lot_created l, lot_id l)"

text \<open>The lots a task may draw on: live, with credit nobody holds, in the spend order.\<close>

definition spendable_lots :: "db \<Rightarrow> uuid \<Rightarrow> credit_lot list" where
  "spendable_lots db a =
     sort_key spend_key
       (filter (\<lambda>l. lot_account l = a \<and> live_lot (db_now db) l \<and> remaining l > held l) (credit_lots db))"

definition find_account :: "db \<Rightarrow> uuid \<Rightarrow> credit_account option" where
  "find_account db a = lookup_by acc_id a (credit_accounts db)"

definition find_lot :: "db \<Rightarrow> uuid \<Rightarrow> credit_lot option" where
  "find_lot db i = lookup_by lot_id i (credit_lots db)"

definition find_reservation :: "db \<Rightarrow> uuid \<Rightarrow> credit_reservation option" where
  "find_reservation db i = lookup_by res_id i (credit_reservations db)"

definition find_call :: "db \<Rightarrow> uuid \<Rightarrow> credit_model_call option" where
  "find_call db i = lookup_by call_id i (credit_model_calls db)"

definition find_clawback :: "db \<Rightarrow> uuid \<Rightarrow> credit_clawback option" where
  "find_clawback db i = lookup_by cb_id i (credit_clawbacks db)"

definition account_debt :: "db \<Rightarrow> uuid \<Rightarrow> int" where
  "account_debt db a = (case find_account db a of None \<Rightarrow> 0 | Some c \<Rightarrow> debt_micro c)"

subsection \<open>A new lot: its CHECKs and the trigger that empties it\<close>

record lot_values =
  nl_account :: uuid
  nl_kind :: CreditLotKind
  nl_window :: "uuid option"
  nl_grant_key :: string
  nl_granted :: int
  nl_starts :: instant
  nl_expires :: instant

definition lot_row_checks :: "lot_values \<Rightarrow> bool" where
  "lot_row_checks v \<longleftrightarrow>
     (CREDIT_LOT_SPEND_RANK (nl_kind v) = 0 \<longleftrightarrow> nl_window v \<noteq> None) \<and>
     nl_granted v > 0 \<and> nl_granted v mod 1000000 = 0 \<and>
     nl_starts v < nl_expires v \<and>
     (nl_kind v \<noteq> TopUp \<or> nl_expires v \<le> month_time (nl_starts v) 12 + msPerDay)"

text \<open>
  \<^verbatim>\<open>INSERT INTO credit_lots ... ON CONFLICT (grant_key) DO NOTHING\<close>: the guard trigger empties the
  lot; \<open>i\<close> is the id \<^verbatim>\<open>gen_random_uuid()\<close> gives, refused when it is taken. A window has one monthly
  lot (23505), and the window an included lot names is one of its own account (23503).
\<close>

definition new_lot_row :: "uuid \<Rightarrow> lot_values \<Rightarrow> db \<Rightarrow> credit_lot" where
  "new_lot_row i v db =
     \<lparr>lot_id = i, lot_account = nl_account v, lot_kind = nl_kind v, lot_window = nl_window v,
      grant_key = nl_grant_key v, granted = nl_granted v, remaining = 0, held = 0,
      starts_at = nl_starts v, expires_at = nl_expires v, revoked_at = None, lot_created = db_now db,
      lot_still_paid = None\<rparr>"

definition insert_lot :: "uuid \<Rightarrow> lot_values \<Rightarrow> credit_lot option statement" where
  "insert_lot i v db =
     (if \<not> lot_row_checks v then Inl (SqlError 23514)
      else if list_ex (\<lambda>l. grant_key l = nl_grant_key v) (credit_lots db) then Inr (None, db)
      else if find_lot db i \<noteq> None \<or>
              nl_kind v = Monthly \<and>
                list_ex (\<lambda>l. lot_kind l = Monthly \<and> lot_window l = nl_window v) (credit_lots db)
      then Inl (SqlError 23505)
      else if \<not> (case nl_window v of None \<Rightarrow> True
                 | Some w \<Rightarrow> list_ex (\<lambda>x. win_id x = w \<and> win_account x = nl_account v) (credit_windows db))
      then Inl (SqlError 23503)
      else let l = new_lot_row i v db in Inr (Some l, db\<lparr>credit_lots := credit_lots db @ [l]\<rparr>))"

subsection \<open>A ledger row: its CHECKs and the trigger that applies it\<close>

definition funding_kind :: "CreditLedgerKind \<Rightarrow> bool" where
  "funding_kind k \<longleftrightarrow> k \<in> {Grant, ProrationGrant, TopUpEntry}"

definition ledger_row_checks :: "'a credit_ledger_values_scheme \<Rightarrow> bool" where
  "ledger_row_checks r \<longleftrightarrow>
     (led_lot r = None \<longleftrightarrow> lot_delta r = 0) \<and>
     (funding_kind (led_kind r) \<and> lot_delta r > 0 \<and> debt_delta r = 0
      \<or> led_kind r \<in> {TaskCharge, Expiry, ProrationClawback, RefundClawback}
          \<and> lot_delta r < 0 \<and> debt_delta r = 0
      \<or> led_kind r = DebtIncurred \<and> lot_delta r = 0 \<and> debt_delta r > 0
      \<or> led_kind r = DebtRepayment \<and> lot_delta r < 0 \<and> debt_delta r = lot_delta r
      \<or> led_kind r = AdjustmentEntry \<and> debt_delta r \<le> 0 \<and> (lot_delta r = 0) \<noteq> (debt_delta r = 0)) \<and>
     (debt_delta r \<le> 0 \<or> led_reason r \<in> {Some ''payment_reversed'', Some ''plan_change''}) \<and>
     (led_kind r \<noteq> TaskCharge \<or> led_reservation r \<noteq> None \<and> led_card r \<noteq> None \<and> led_model r \<noteq> None) \<and>
     1 \<le> length (idempotency_key r) \<and> length (idempotency_key r) \<le> 200"

definition lot_bounds :: "credit_lot \<Rightarrow> bool" where
  "lot_bounds l \<longleftrightarrow> 0 \<le> remaining l \<and> remaining l \<le> granted l \<and> 0 \<le> held l \<and> held l \<le> remaining l"

definition move_remaining :: "int \<Rightarrow> credit_lot \<Rightarrow> credit_lot" where
  "move_remaining d l = l\<lparr>remaining := remaining l + d\<rparr>"

definition move_debt :: "int \<Rightarrow> credit_account \<Rightarrow> credit_account" where
  "move_debt d c = c\<lparr>debt_micro := debt_micro c + d\<rparr>"

text \<open>
  \<^verbatim>\<open>credit_ledger_apply\<close>: the account's credit row must exist (23503); the lot must be the
  account's own (23503) and stay within its bounds (the lot's CHECKs, 23514); a lot is funded once
  (23505); debt never falls below zero (23514). Row locks are implied: the model runs one
  transaction at a time.
\<close>

definition credit_ledger_apply :: "credit_ledger_row \<Rightarrow> db \<Rightarrow> db result" where
  "credit_ledger_apply row db =
     (case find_account db (led_account row) of
        None \<Rightarrow> Inl (SqlError 23503)
      | Some acct \<Rightarrow>
          rbind
            (if lot_delta row = 0 then Inr db
             else case led_lot row of
                None \<Rightarrow> Inl (SqlError 23503)
              | Some lid \<Rightarrow>
                  (case find_lot db lid of
                     None \<Rightarrow> Inl (SqlError 23503)
                   | Some l \<Rightarrow>
                       if lot_account l \<noteq> led_account row then Inl (SqlError 23503)
                       else if \<not> lot_bounds (move_remaining (lot_delta row) l) then Inl (SqlError 23514)
                       else if funding_kind (led_kind row) \<and>
                               list_ex (\<lambda>x. led_lot x = Some lid \<and> funding_kind (led_kind x)
                                          \<and> led_id x \<noteq> led_id row) (credit_ledger db)
                       then Inl (SqlError 23505)
                       else Inr (db\<lparr>credit_lots :=
                              update_where (\<lambda>x. lot_id x = lid) (move_remaining (lot_delta row))
                                (credit_lots db)\<rparr>)))
            (\<lambda>db1.
               if debt_delta row = 0 then Inr db1
               else if debt_micro acct + debt_delta row < 0 then Inl (SqlError 23514)
               else Inr (db1\<lparr>credit_accounts :=
                      update_where (\<lambda>c. acc_id c = led_account row) (move_debt (debt_delta row))
                        (credit_accounts db1)\<rparr>)))"

text \<open>
  \<^verbatim>\<open>INSERT INTO credit_ledger ... ON CONFLICT (account_id, idempotency_key) DO NOTHING\<close>: the CHECKs
  first, then the unique key, then the row and its trigger. \<open>None\<close> when the key was taken.
\<close>

definition key_taken :: "db \<Rightarrow> uuid \<Rightarrow> string \<Rightarrow> bool" where
  "key_taken db a k \<longleftrightarrow> list_ex (\<lambda>r. led_account r = a \<and> idempotency_key r = k) (credit_ledger db)"

definition new_ledger_row :: "credit_ledger_values \<Rightarrow> db \<Rightarrow> credit_ledger_row" where
  "new_ledger_row v db =
     \<lparr>led_account = led_account v, led_kind = led_kind v, led_lot = led_lot v, lot_delta = lot_delta v,
      debt_delta = debt_delta v, idempotency_key = idempotency_key v, led_session = led_session v,
      led_reservation = led_reservation v, led_card = led_card v, led_model = led_model v,
      led_reason = led_reason v, led_actor = led_actor v,
      led_id = Suc (ledger_seq db), led_created = db_now db\<rparr>"

definition insert_ledger :: "credit_ledger_values \<Rightarrow> credit_ledger_row option statement" where
  "insert_ledger v db =
     (if \<not> ledger_row_checks v then Inl (SqlError 23514)
      else if key_taken db (led_account v) (idempotency_key v) then Inr (None, db)
      else let row = new_ledger_row v db;
               db1 = db\<lparr>credit_ledger := credit_ledger db @ [row], ledger_seq := Suc (ledger_seq db)\<rparr>
           in rbind (credit_ledger_apply row db1) (\<lambda>db2. Inr (Some row, db2)))"

subsection \<open>A hold: the trigger that applies it\<close>

definition move_held :: "int \<Rightarrow> credit_lot \<Rightarrow> credit_lot" where
  "move_held d l = l\<lparr>held := held l + d\<rparr>"

text \<open>
  \<^verbatim>\<open>credit_holds_apply\<close> on INSERT: the task must be open and enforced, the lot live and of the same
  account, and the lot's CHECKs must hold after \<^verbatim>\<open>held_micro\<close> rises.
\<close>

definition insert_hold :: "credit_hold \<Rightarrow> db \<Rightarrow> db result" where
  "insert_hold h db =
     (if \<not> (hold_micro h > 0 \<and> released_at h = None \<and> hold_charged h = None) then Inl (SqlError 23514)
      else if list_ex (\<lambda>x. hold_reservation x = hold_reservation h \<and> hold_lot x = hold_lot h)
                (credit_reservation_holds db) then Inl (SqlError 23505)
      else if \<not> list_ex (\<lambda>r. res_id r = hold_reservation h \<and> res_account r = hold_account h)
                (credit_reservations db) then Inl (SqlError 23503)
      else if \<not> list_ex (\<lambda>r. res_id r = hold_reservation h \<and> res_state r = Open \<and> res_mode r = Enforce)
                (credit_reservations db) then Inl (SqlError 23514)
      else case find_lot db (hold_lot h) of
             None \<Rightarrow> Inl (SqlError 23514)
           | Some l \<Rightarrow>
               if \<not> (lot_account l = hold_account h \<and> live_lot (db_now db) l) then Inl (SqlError 23514)
               else if \<not> lot_bounds (move_held (hold_micro h) l) then Inl (SqlError 23514)
               else Inr (db\<lparr>credit_lots :=
                             update_where (\<lambda>x. lot_id x = hold_lot h) (move_held (hold_micro h)) (credit_lots db),
                           credit_reservation_holds := credit_reservation_holds db @ [h]\<rparr>))"

definition release_row :: "int \<times> instant \<Rightarrow> credit_hold \<Rightarrow> credit_hold" where
  "release_row ct h = h\<lparr>hold_charged := Some (fst ct), released_at := Some (snd ct)\<rparr>"

text \<open>The deferred check \<^verbatim>\<open>credit_check_debt_vs_free\<close> of one account.\<close>

definition free_credit :: "db \<Rightarrow> uuid \<Rightarrow> int" where
  "free_credit db a =
     sum_by free_micro (filter (\<lambda>l. lot_account l = a \<and> live_lot (db_now db) l) (credit_lots db))"

definition credit_check_debt_vs_free :: "db \<Rightarrow> uuid \<Rightarrow> bool" where
  "credit_check_debt_vs_free db a \<longleftrightarrow> account_debt db a = 0 \<or> \<not> free_credit db a > 0"

subsection \<open>The deferred check of a reservation\<close>

definition call_commits :: "credit_model_call \<Rightarrow> int" where
  "call_commits c =
     (if call_state c = Started then bound_micro c
      else case call_charged c of None \<Rightarrow> 0 | Some x \<Rightarrow> x)"

definition charged_or_0 :: "credit_model_call \<Rightarrow> int" where
  "charged_or_0 c = (case call_charged c of None \<Rightarrow> 0 | Some x \<Rightarrow> x)"

definition hold_charged_or_0 :: "credit_hold \<Rightarrow> int" where
  "hold_charged_or_0 h = (case hold_charged h of None \<Rightarrow> 0 | Some x \<Rightarrow> x)"

definition calls_of :: "db \<Rightarrow> uuid \<Rightarrow> credit_model_call list" where
  "calls_of db rid = filter (\<lambda>c. call_reservation c = rid) (credit_model_calls db)"

definition holds_of :: "db \<Rightarrow> uuid \<Rightarrow> credit_hold list" where
  "holds_of db rid = filter (\<lambda>h. hold_reservation h = rid) (credit_reservation_holds db)"

definition charges_of :: "db \<Rightarrow> uuid \<Rightarrow> credit_ledger_row list" where
  "charges_of db rid =
     filter (\<lambda>x. led_reservation x = Some rid \<and> led_kind x = TaskCharge) (credit_ledger db)"

text \<open>\<^verbatim>\<open>credit_check_reservation\<close> as migration 0133 leaves it.\<close>

definition credit_check_reservation :: "db \<Rightarrow> uuid \<Rightarrow> bool" where
  "credit_check_reservation db rid =
     (case find_reservation db rid of
        None \<Rightarrow> True
      | Some r \<Rightarrow>
          sum_by call_commits (calls_of db rid) = committed r \<and>
          (res_state r = Settled \<longrightarrow>
             \<not> list_ex (\<lambda>c. call_state c = Started) (calls_of db rid) \<and>
             res_charged r = Some (sum_by charged_or_0 (calls_of db rid))) \<and>
          (if res_mode r = Shadow then charges_of db rid = []
           else sum_by hold_micro (holds_of db rid) = reserved r \<and>
                (res_state r = Settled \<longrightarrow>
                   \<not> list_ex (\<lambda>h. released_at h = None) (holds_of db rid) \<and>
                   res_charged r = Some (sum_by hold_charged_or_0 (holds_of db rid)) \<and>
                   res_charged r = Some (- sum_by lot_delta (charges_of db rid)))))"

subsection \<open>A transaction\<close>

text \<open>
  What runs at COMMIT: the deferred constraint triggers of every row the transaction inserted or
  changed. A ledger row re-checks debt against free credit of its account and, when it names a
  reservation, that reservation; a released hold re-checks its account; a hold, call or reservation
  that was inserted or changed re-checks its reservation.
\<close>

definition new_rows :: "'r list \<Rightarrow> 'r list \<Rightarrow> 'r list" where
  "new_rows olds news = filter (\<lambda>r. r \<notin> set olds) news"

definition touched_accounts :: "db \<Rightarrow> db \<Rightarrow> uuid list" where
  "touched_accounts old new =
     map led_account (new_rows (credit_ledger old) (credit_ledger new)) @
     map hold_account (filter (\<lambda>h. released_at h \<noteq> None)
       (new_rows (credit_reservation_holds old) (credit_reservation_holds new)))"

definition touched_reservations :: "db \<Rightarrow> db \<Rightarrow> uuid list" where
  "touched_reservations old new =
     List.map_filter led_reservation (new_rows (credit_ledger old) (credit_ledger new)) @
     map hold_reservation (new_rows (credit_reservation_holds old) (credit_reservation_holds new)) @
     map call_reservation (new_rows (credit_model_calls old) (credit_model_calls new)) @
     map res_id (new_rows (credit_reservations old) (credit_reservations new))"

definition commit_checks :: "db \<Rightarrow> db \<Rightarrow> bool" where
  "commit_checks old new \<longleftrightarrow>
     list_all (credit_check_debt_vs_free new) (touched_accounts old new) \<and>
     list_all (credit_check_reservation new) (touched_reservations old new)"

definition transaction :: "'a statement \<Rightarrow> 'a statement" where
  "transaction body db =
     rbind (body db) (\<lambda>(x, db').
       if commit_checks db db' then Inr (x, db') else Inl (SqlError 23514))"

end
