(* ===== verification/Credit_Ledger.thy ===== *)
theory Credit_Ledger
  imports Credit_Tables
begin

section \<open>The credit ledger\<close>

text \<open>
  \<^verbatim>\<open>apps/server/src/db/credit-ledger-repo.ts\<close>: the credit row of an account, lots, the ledger rows
  that move a lot or a debt, and the reads over them. Every method of the repository is a function
  of the database state. A read of an amount passes through \<open>exact\<close>, as in the code, and fails when
  the amount is past JavaScript's safe integers.
\<close>

subsection \<open>Reading rows\<close>

definition exact :: "int \<Rightarrow> int result" where
  "exact v = (if safe_int v then Inr v else Inl RangeError)"

definition toAccountRecord :: "credit_account \<Rightarrow> credit_account result" where
  "toAccountRecord r = rbind (exact (debt_micro r)) (\<lambda>_. Inr r)"

definition toLotRecord :: "credit_lot \<Rightarrow> credit_lot result" where
  "toLotRecord r =
     rbind (exact (granted r)) (\<lambda>_. rbind (exact (remaining r)) (\<lambda>_. rbind (exact (held r)) (\<lambda>_. Inr r)))"

definition toLedgerRecord :: "credit_ledger_row \<Rightarrow> credit_ledger_row result" where
  "toLedgerRecord r = rbind (exact (lot_delta r)) (\<lambda>_. rbind (exact (debt_delta r)) (\<lambda>_. Inr r))"

definition member_of :: "string list \<Rightarrow> string \<Rightarrow> string result" where
  "member_of values v = (if v \<in> set values then Inr v else Inl RangeError)"

definition AiDebtReasons :: "string list" where
  "AiDebtReasons = [''payment_reversed'', ''plan_change'']"

subsection \<open>A movement and the row it writes\<close>

datatype movement =
    GrantOf uuid int "string option"
  | ExpiryOf uuid int "string option"
  | ProrationGrantOf uuid int "string option"
  | ProrationClawbackOf uuid int "string option"
  | RefundClawbackOf uuid int "string option"
  | TaskChargeOf uuid int uuid int string "string option"
  | AdjustLot uuid int "string option"
  | ForgiveDebt int "string option"
  | IncurDebt int string
  | RepayDebt uuid int "string option"

record NewCreditLedgerEntry =
  entry_account :: uuid
  entry_key :: string
  entry_actor :: "CreditLedgerActor option"
  entry_session :: "string option"
  entry_movement :: movement

definition CREDIT_LEDGER_IDEMPOTENCY_KEY_MAX_CHARS :: nat where
  "CREDIT_LEDGER_IDEMPOTENCY_KEY_MAX_CHARS = 200"

definition CREDIT_LEDGER_PAGE_MAX :: int where
  "CREDIT_LEDGER_PAGE_MAX = 100"

definition positiveMicro :: "int \<Rightarrow> int result" where
  "positiveMicro v = (if \<not> safe_int v \<or> v \<le> 0 then Inl RangeError else Inr v)"

definition checkedKey :: "string \<Rightarrow> string result" where
  "checkedKey key =
     (if length key < 1 \<or> length key > CREDIT_LEDGER_IDEMPOTENCY_KEY_MAX_CHARS then Inl RangeError
      else Inr key)"

definition common_values :: "NewCreditLedgerEntry \<Rightarrow> string option \<Rightarrow> CreditLedgerKind \<Rightarrow> uuid option
    \<Rightarrow> int \<Rightarrow> int \<Rightarrow> credit_ledger_values" where
  "common_values entry rsn kind lot ld dd =
     \<lparr>led_account = entry_account entry, led_kind = kind, led_lot = lot, lot_delta = ld, debt_delta = dd,
      idempotency_key = entry_key entry, led_session = entry_session entry, led_reservation = None,
      led_card = None, led_model = None, led_reason = rsn,
      led_actor = (case entry_actor entry of None \<Rightarrow> System | Some a \<Rightarrow> a)\<rparr>"

definition creditLedgerRowFor :: "NewCreditLedgerEntry \<Rightarrow> credit_ledger_values result" where
  "creditLedgerRowFor entry =
     rbind (checkedKey (entry_key entry)) (\<lambda>_.
     case entry_movement entry of
       GrantOf lot a rsn \<Rightarrow>
         rbind (positiveMicro a) (\<lambda>v. Inr (common_values entry rsn Grant (Some lot) v 0))
     | ExpiryOf lot a rsn \<Rightarrow>
         rbind (positiveMicro a) (\<lambda>v. Inr (common_values entry rsn Expiry (Some lot) (- v) 0))
     | ProrationGrantOf lot a rsn \<Rightarrow>
         rbind (positiveMicro a) (\<lambda>v. Inr (common_values entry rsn ProrationGrant (Some lot) v 0))
     | ProrationClawbackOf lot a rsn \<Rightarrow>
         rbind (positiveMicro a) (\<lambda>v. Inr (common_values entry rsn ProrationClawback (Some lot) (- v) 0))
     | RefundClawbackOf lot a rsn \<Rightarrow>
         rbind (positiveMicro a) (\<lambda>v. Inr (common_values entry rsn RefundClawback (Some lot) (- v) 0))
     | TaskChargeOf lot a rid crd mdl rsn \<Rightarrow>
         rbind (positiveMicro a) (\<lambda>v. Inr ((common_values entry rsn TaskCharge (Some lot) (- v) 0)
           \<lparr>led_reservation := Some rid, led_card := Some crd, led_model := Some mdl\<rparr>))
     | AdjustLot lot delta rsn \<Rightarrow>
         if \<not> safe_int delta \<or> delta = 0 then Inl RangeError
         else Inr (common_values entry rsn AdjustmentEntry (Some lot) delta 0)
     | ForgiveDebt a rsn \<Rightarrow>
         rbind (positiveMicro a) (\<lambda>v. Inr (common_values entry rsn AdjustmentEntry None 0 (- v)))
     | IncurDebt a rsn \<Rightarrow>
         rbind (positiveMicro a) (\<lambda>v. rbind (member_of AiDebtReasons rsn) (\<lambda>rs.
           Inr (common_values entry (Some rs) DebtIncurred None 0 v)))
     | RepayDebt lot a rsn \<Rightarrow>
         rbind (positiveMicro a) (\<lambda>v. Inr (common_values entry rsn DebtRepayment (Some lot) (- v) (- v))))"

subsection \<open>The account's credit row\<close>

definition peekAccount :: "uuid \<Rightarrow> db \<Rightarrow> credit_account option result" where
  "peekAccount a db =
     (case find_account db a of None \<Rightarrow> Inr None
      | Some row \<Rightarrow> rbind (toAccountRecord row) (\<lambda>r. Inr (Some r)))"

definition fresh_account :: "uuid \<Rightarrow> credit_account" where
  "fresh_account a =
     \<lparr>acc_id = a, billing_mode = Legacy, ai_source = None, ai_source_set_by = None,
      ai_source_set_at = None, debt_micro = 0, auto_top_up_enabled = False,
      legacy_consent_at_move = None, legacy_cap_cents_at_move = None, had_stored_key_at_move = None,
      moved_to_credits_at = None, moved_back_at = None\<rparr>"

definition insert_account :: "uuid \<Rightarrow> db \<Rightarrow> db" where
  "insert_account a db =
     (if find_account db a = None then db\<lparr>credit_accounts := credit_accounts db @ [fresh_account a]\<rparr>
      else db)"

definition ensureAccount :: "uuid \<Rightarrow> credit_account statement" where
  "ensureAccount a db =
     (let db1 = insert_account a db
      in case find_account db1 a of
           None \<Rightarrow> Inl PlainError
         | Some row \<Rightarrow> rbind (toAccountRecord row) (\<lambda>r. Inr (r, db1)))"

text \<open>The same read under \<^verbatim>\<open>FOR UPDATE\<close>; transactions of the model run one after the other.\<close>

definition lockAccount :: "uuid \<Rightarrow> credit_account statement" where
  "lockAccount a db =
     (let db1 = insert_account a db
      in case find_account db1 a of
           None \<Rightarrow> Inl PlainError
         | Some row \<Rightarrow> rbind (toAccountRecord row) (\<lambda>r. Inr (r, db1)))"

text \<open>\<^verbatim>\<open>UPDATE credit_accounts ... WHERE account_id = a RETURNING *\<close>.\<close>

definition update_account :: "(credit_account \<Rightarrow> credit_account) \<Rightarrow> uuid \<Rightarrow> credit_account statement" where
  "update_account f a db =
     (let db1 = db\<lparr>credit_accounts := update_where (\<lambda>c. acc_id c = a) f (credit_accounts db)\<rparr>
      in case find_account db1 a of
           None \<Rightarrow> Inl PlainError
         | Some row \<Rightarrow> rbind (toAccountRecord row) (\<lambda>r. Inr (r, db1)))"

definition source_set :: "AiSource option \<times> AiSourceSetBy \<times> instant \<Rightarrow> credit_account \<Rightarrow> credit_account" where
  "source_set v c =
     (case v of (src, by_whom, t) \<Rightarrow>
        c\<lparr>ai_source := src, ai_source_set_by := Some by_whom, ai_source_set_at := Some t\<rparr>)"

definition setAiSourceIn :: "uuid \<Rightarrow> AiSource option \<Rightarrow> AiSourceSetBy \<Rightarrow> credit_account statement" where
  "setAiSourceIn a src by_whom db = update_account (source_set (src, by_whom, db_now db)) a db"

definition setAiSource :: "uuid \<Rightarrow> AiSource option \<Rightarrow> AiSourceSetBy \<Rightarrow> credit_account statement" where
  "setAiSource a src by_whom =
     transaction (\<lambda>db. rbind (lockAccount a db) (\<lambda>(locked, db1).
       if billing_mode locked \<noteq> OnCredits then Inr (locked, db1)
       else setAiSourceIn a src by_whom db1))"

definition cutover_moved :: "bool \<times> int \<times> bool \<times> instant \<Rightarrow> credit_account \<Rightarrow> credit_account" where
  "cutover_moved v c =
     (case v of (consent, cap, had_key, t) \<Rightarrow>
        c\<lparr>billing_mode := OnCredits, legacy_consent_at_move := Some consent,
          legacy_cap_cents_at_move := Some cap, had_stored_key_at_move := Some had_key,
          moved_to_credits_at := Some t, moved_back_at := None\<rparr>)"

definition setCutoverMoved :: "uuid \<Rightarrow> bool \<Rightarrow> int \<Rightarrow> bool \<Rightarrow> credit_account statement" where
  "setCutoverMoved a consent cap had_key db =
     update_account (cutover_moved (consent, cap, had_key, db_now db)) a db"

definition cutover_rolled_back :: "instant \<Rightarrow> credit_account \<Rightarrow> credit_account" where
  "cutover_rolled_back t c =
     c\<lparr>billing_mode := Legacy, ai_source := None, ai_source_set_by := None, ai_source_set_at := None,
       moved_back_at := Some t\<rparr>"

definition setCutoverRolledBack :: "uuid \<Rightarrow> credit_account statement" where
  "setCutoverRolledBack a db = update_account (cutover_rolled_back (db_now db)) a db"

subsection \<open>Lots and ledger rows\<close>

text \<open>\<open>i\<close> is the id the database draws for a new lot.\<close>

definition insertLot :: "uuid \<Rightarrow> lot_values \<Rightarrow> (bool \<times> credit_lot) statement" where
  "insertLot i v db =
     rbind (positiveMicro (nl_granted v)) (\<lambda>_.
     rbind (insert_lot i v db) (\<lambda>(ins, db1).
       case ins of
         Some l \<Rightarrow> rbind (toLotRecord l) (\<lambda>r. Inr ((True, r), db1))
       | None \<Rightarrow>
           (case lookup_by grant_key (nl_grant_key v) (credit_lots db1) of
              None \<Rightarrow> Inl PlainError
            | Some existing \<Rightarrow>
                rbind (toLotRecord existing) (\<lambda>rec.
                  if lot_account rec = nl_account v \<and> lot_kind rec = nl_kind v \<and>
                     lot_window rec = nl_window v \<and> granted rec = nl_granted v \<and>
                     (nl_kind v = Adjustment \<or> starts_at rec = nl_starts v) \<and>
                     expires_at rec = nl_expires v
                  then Inr ((False, rec), db1)
                  else Inl CreditLotGrantKeyReusedError))))"

definition same_movement :: "credit_ledger_row \<Rightarrow> credit_ledger_values \<Rightarrow> bool" where
  "same_movement rec row \<longleftrightarrow>
     led_kind rec = led_kind row \<and> led_lot rec = led_lot row \<and> lot_delta rec = lot_delta row \<and>
     debt_delta rec = debt_delta row \<and> led_reason rec = led_reason row \<and>
     led_reservation rec = led_reservation row \<and> led_card rec = led_card row \<and>
     led_model rec = led_model row"

definition append_ledger :: "NewCreditLedgerEntry \<Rightarrow> (bool \<times> credit_ledger_row) statement" where
  "append_ledger entry db =
     rbind (creditLedgerRowFor entry) (\<lambda>row.
     rbind (insert_ledger row db) (\<lambda>(ins, db1).
       case ins of
         Some r \<Rightarrow> rbind (toLedgerRecord r) (\<lambda>rec. Inr ((True, rec), db1))
       | None \<Rightarrow>
           (case find (\<lambda>x. led_account x = led_account row \<and> idempotency_key x = idempotency_key row)
                   (credit_ledger db1) of
              None \<Rightarrow> Inl PlainError
            | Some existing \<Rightarrow>
                rbind (toLedgerRecord existing) (\<lambda>rec.
                  if same_movement rec row then Inr ((False, rec), db1)
                  else Inl CreditLedgerKeyReusedError))))"

definition getLot :: "uuid \<Rightarrow> db \<Rightarrow> credit_lot option result" where
  "getLot i db =
     (case find_lot db i of None \<Rightarrow> Inr None | Some row \<Rightarrow> rbind (toLotRecord row) (\<lambda>r. Inr (Some r)))"

definition spendableMicro :: "uuid \<Rightarrow> db \<Rightarrow> int result" where
  "spendableMicro a db =
     exact (sum_by free_micro
       (filter (\<lambda>l. lot_account l = a \<and> live_lot (db_now db) l \<and> remaining l > held l) (credit_lots db)))"

definition heldMicro :: "uuid \<Rightarrow> db \<Rightarrow> int result" where
  "heldMicro a db = exact (sum_by held (filter (\<lambda>l. lot_account l = a) (credit_lots db)))"

definition otherLiveGrantedMicro :: "uuid \<Rightarrow> db \<Rightarrow> int result" where
  "otherLiveGrantedMicro a db =
     exact (sum_by granted
       (filter (\<lambda>l. lot_account l = a \<and> live_lot (db_now db) l \<and> lot_kind l \<noteq> Monthly) (credit_lots db)))"

definition chargedInWindowMicro :: "uuid \<Rightarrow> uuid \<Rightarrow> db \<Rightarrow> int result" where
  "chargedInWindowMicro a w db =
     exact (sum_by (\<lambda>r. - lot_delta r)
       (filter (\<lambda>r. led_account r = a \<and> led_kind r = TaskCharge \<and>
                  list_ex (\<lambda>l. led_lot r = Some (lot_id l) \<and> lot_window l = Some w) (credit_lots db))
          (credit_ledger db)))"


subsection \<open>Expiry and the repayment of debt\<close>

definition rows_of_kind :: "db \<Rightarrow> uuid \<Rightarrow> CreditLedgerKind \<Rightarrow> nat" where
  "rows_of_kind db lid k =
     length (filter (\<lambda>x. led_lot x = Some lid \<and> led_kind x = k) (credit_ledger db))"

definition due_lots :: "db \<Rightarrow> uuid \<Rightarrow> credit_lot list" where
  "due_lots db a =
     sort_key (\<lambda>l. (expires_at l, lot_id l))
       (filter (\<lambda>l. lot_account l = a \<and> expires_at l \<le> db_now db \<and> remaining l > held l) (credit_lots db))"

definition expiry_values :: "db \<Rightarrow> credit_lot \<Rightarrow> credit_ledger_values" where
  "expiry_values db l =
     \<lparr>led_account = lot_account l, led_kind = Expiry, led_lot = Some (lot_id l),
      lot_delta = - free_micro l, debt_delta = 0,
      idempotency_key = colon_join [''expiry'', lot_id l, dec (1 + rows_of_kind db (lot_id l) Expiry)],
      led_session = None, led_reservation = None, led_card = None, led_model = None,
      led_reason = None, led_actor = System\<rparr>"

text \<open>
  One statement: the rows are computed from the state it starts in, then inserted in order; a row
  whose key is taken is skipped and not returned.
\<close>

definition insert_one :: "(credit_ledger_row list \<times> db) \<Rightarrow> credit_ledger_values
    \<Rightarrow> (credit_ledger_row list \<times> db) result" where
  "insert_one acc v =
     (case acc of (out, db) \<Rightarrow> rbind (insert_ledger v db) (\<lambda>(ins, db1).
        Inr (case ins of None \<Rightarrow> out | Some r \<Rightarrow> out @ [r], db1)))"

definition expireDueLots :: "uuid \<Rightarrow> (uuid \<times> int) list statement" where
  "expireDueLots a db =
     rbind (foldr_result insert_one ([], db) (map (expiry_values db) (due_lots db a))) (\<lambda>(rows, db1).
     rbind (foldr_result (\<lambda>out r. rbind (exact (- lot_delta r)) (\<lambda>v. Inr (out @ [(the (led_lot r), v)]))) [] rows)
       (\<lambda>out. Inr (out, db1)))"

fun repay_loop :: "uuid \<Rightarrow> int \<Rightarrow> (uuid \<times> int \<times> nat) list \<Rightarrow> (uuid \<times> int) list statement" where
  "repay_loop a owed [] db = Inr ([], db)"
| "repay_loop a owed ((lid, fr, n) # lots) db =
     (if owed \<le> 0 then Inr ([], db)
      else rbind (exact fr) (\<lambda>v.
        let amount = min v owed in
        rbind (append_ledger
                 \<lparr>entry_account = a, entry_key = colon_join [''debt_repayment'', lid, dec (n + 1)],
                  entry_actor = None, entry_session = None,
                  entry_movement = RepayDebt lid amount None\<rparr> db) (\<lambda>(_, db1).
        rbind (repay_loop a (owed - amount) lots db1) (\<lambda>(repaid, db2).
          Inr ((lid, amount) # repaid, db2)))))"

definition settleDebtFromFree :: "uuid \<Rightarrow> (uuid \<times> int) list statement" where
  "settleDebtFromFree a db =
     rbind (exact (account_debt db a)) (\<lambda>owed.
       if owed \<le> 0 then Inr ([], db)
       else repay_loop a owed
              (map (\<lambda>l. (lot_id l, free_micro l, rows_of_kind db (lot_id l) DebtRepayment))
                 (spendable_lots db a)) db)"

subsection \<open>Reads over the ledger\<close>

definition newest_first :: "credit_ledger_row list \<Rightarrow> credit_ledger_row list" where
  "newest_first rs = rev (sort_key led_id rs)"

definition latestDebtReason :: "uuid \<Rightarrow> db \<Rightarrow> string option result" where
  "latestDebtReason a db =
     (case newest_first (filter (\<lambda>r. led_account r = a \<and> led_kind r = DebtIncurred) (credit_ledger db)) of
        [] \<Rightarrow> Inr None
      | r # _ \<Rightarrow>
          (case led_reason r of
             None \<Rightarrow> Inr None
           | Some rsn \<Rightarrow> rbind (member_of AiDebtReasons rsn) (\<lambda>v. Inr (Some v))))"

text \<open>A cursor is \<^verbatim>\<open>/^[1-9][0-9]{0,17}$/\<close>, read as a Postgres bigint.\<close>

definition decimal_digit :: "char \<Rightarrow> bool" where
  "decimal_digit c \<longleftrightarrow> (48::nat) \<le> of_char c \<and> of_char c \<le> (57::nat)"

definition valid_cursor :: "string \<Rightarrow> bool" where
  "valid_cursor s \<longleftrightarrow>
     (case s of [] \<Rightarrow> False
      | c # cs \<Rightarrow> decimal_digit c \<and> c \<noteq> CHR ''0'' \<and> list_all decimal_digit cs \<and> length cs \<le> 17)"

definition parse_nat :: "string \<Rightarrow> nat" where
  "parse_nat s = foldl (\<lambda>v c. 10 * v + (of_char c - 48)) 0 s"

record CreditLedgerPage =
  entries :: "credit_ledger_row list"
  nextCursor :: "string option"

definition page_checks :: "int \<Rightarrow> string option \<Rightarrow> unit result" where
  "page_checks limit cursor =
     (if limit < 1 \<or> limit > CREDIT_LEDGER_PAGE_MAX then Inl RangeError
      else case cursor of None \<Rightarrow> Inr ()
         | Some c \<Rightarrow> if valid_cursor c then Inr () else Inl RangeError)"

definition before_cursor :: "string option \<Rightarrow> nat \<Rightarrow> bool" where
  "before_cursor cursor i \<longleftrightarrow> (case cursor of None \<Rightarrow> True | Some c \<Rightarrow> i < parse_nat c)"

fun all_results :: "'a result list \<Rightarrow> 'a list result" where
  "all_results [] = Inr []"
| "all_results (r # rs) = rbind r (\<lambda>x. rbind (all_results rs) (\<lambda>xs. Inr (x # xs)))"

definition ledgerPage :: "uuid \<Rightarrow> int \<Rightarrow> string option \<Rightarrow> db \<Rightarrow> CreditLedgerPage result" where
  "ledgerPage a limit cursor db =
     rbind (page_checks limit cursor) (\<lambda>_.
       let rows = take (nat limit + 1)
             (newest_first (filter (\<lambda>r. led_account r = a \<and> before_cursor cursor (led_id r))
                (credit_ledger db)))
       in rbind (all_results (map toLedgerRecord (take (nat limit) rows))) (\<lambda>es.
            Inr \<lparr>entries = es,
                 nextCursor = (if length rows > nat limit \<and> es \<noteq> [] then Some (dec (led_id (last es))) else None)\<rparr>))"

text \<open>
  The customer's page: one entry per task charge or other row. \<open>entry_id_of\<close> is the \<^verbatim>\<open>CASE\<close> of the
  query: the newest row of the reservation's charges, or the row itself.
\<close>

definition entry_id_of :: "db \<Rightarrow> credit_ledger_row \<Rightarrow> nat" where
  "entry_id_of db l =
     (if led_kind l = TaskCharge
      then Max (set (map led_id
             (filter (\<lambda>x. led_account x = led_account l \<and> led_kind x = TaskCharge \<and>
                        led_reservation x = led_reservation l) (credit_ledger db))))
      else led_id l)"

record ledger_group =
  grp_entry :: nat
  grp_lot_delta :: int
  grp_debt_delta :: int
  grp_parts :: nat
  grp_balance :: int

definition keyed_rows :: "db \<Rightarrow> uuid \<Rightarrow> string option \<Rightarrow> credit_ledger_row list" where
  "keyed_rows db a cursor =
     filter (\<lambda>r. led_account r = a \<and> before_cursor cursor (led_id r) \<and>
               before_cursor cursor (entry_id_of db r)) (credit_ledger db)"

definition entry_ids :: "db \<Rightarrow> uuid \<Rightarrow> string option \<Rightarrow> nat list" where
  "entry_ids db a cursor = sort (remdups (map (entry_id_of db) (keyed_rows db a cursor)))"

definition group_rows :: "db \<Rightarrow> uuid \<Rightarrow> string option \<Rightarrow> nat \<Rightarrow> credit_ledger_row list" where
  "group_rows db a cursor e = filter (\<lambda>r. entry_id_of db r = e) (keyed_rows db a cursor)"

fun running :: "int \<Rightarrow> ledger_group list \<Rightarrow> ledger_group list" where
  "running b [] = []"
| "running b (g # gs) =
     (let b' = b + (grp_lot_delta g - grp_debt_delta g) in g\<lparr>grp_balance := b'\<rparr> # running b' gs)"

definition ledger_groups :: "db \<Rightarrow> uuid \<Rightarrow> string option \<Rightarrow> ledger_group list" where
  "ledger_groups db a cursor =
     running 0 (map (\<lambda>e. let rs = group_rows db a cursor e in
         \<lparr>grp_entry = e, grp_lot_delta = sum_by lot_delta rs, grp_debt_delta = sum_by debt_delta rs,
          grp_parts = length rs, grp_balance = 0\<rparr>) (entry_ids db a cursor))"

record ledger_entry = credit_ledger_row +
  balanceAfterMicro :: int
  lotExpiresAt :: "instant option"

record CreditLedgerPageWithBalance =
  bal_entries :: "ledger_entry list"
  bal_nextCursor :: "string option"

definition entry_of_group :: "db \<Rightarrow> uuid \<Rightarrow> ledger_group \<Rightarrow> ledger_entry result" where
  "entry_of_group db a g =
     (case find (\<lambda>r. led_account r = a \<and> led_id r = grp_entry g) (credit_ledger db) of
        None \<Rightarrow> Inl PlainError
      | Some key \<Rightarrow>
          let spansLots = grp_parts g > 1;
              lot = (case led_lot key of None \<Rightarrow> None | Some i \<Rightarrow> find_lot db i)
          in rbind (toLedgerRecord key) (\<lambda>rec.
             rbind (exact (grp_lot_delta g)) (\<lambda>ld.
             rbind (exact (grp_debt_delta g)) (\<lambda>dd.
             rbind (exact (grp_balance g)) (\<lambda>b.
               Inr \<lparr>led_account = led_account rec, led_kind = led_kind rec,
                    led_lot = (if spansLots then None else led_lot key),
                    lot_delta = ld, debt_delta = dd, idempotency_key = idempotency_key rec,
                    led_session = led_session rec, led_reservation = led_reservation rec,
                    led_card = led_card rec, led_model = led_model rec, led_reason = led_reason rec,
                    led_actor = led_actor rec, led_id = led_id rec, led_created = led_created rec,
                    balanceAfterMicro = b,
                    lotExpiresAt = (if spansLots then None else map_option expires_at lot)\<rparr>)))))"

definition ledgerPageWithBalance ::
    "uuid \<Rightarrow> int \<Rightarrow> string option \<Rightarrow> db \<Rightarrow> CreditLedgerPageWithBalance result" where
  "ledgerPageWithBalance a limit cursor db =
     rbind (page_checks limit cursor) (\<lambda>_.
       let pageRows = take (nat limit + 1) (rev (ledger_groups db a cursor))
       in rbind (all_results (map (entry_of_group db a) (take (nat limit) pageRows))) (\<lambda>es.
            Inr \<lparr>bal_entries = es,
                 bal_nextCursor = (if length pageRows > nat limit \<and> es \<noteq> []
                                   then Some (dec (led_id (last es))) else None)\<rparr>))"

definition chargedForSessionMicro :: "string \<Rightarrow> db \<Rightarrow> int result" where
  "chargedForSessionMicro sid db =
     exact (sum_by (\<lambda>r. - lot_delta r)
       (filter (\<lambda>r. led_session r = Some sid \<and> led_kind r = TaskCharge) (credit_ledger db)))"

definition monthlyLotForWindow :: "uuid \<Rightarrow> uuid \<Rightarrow> db \<Rightarrow> credit_lot option result" where
  "monthlyLotForWindow a w db =
     (case find (\<lambda>l. lot_account l = a \<and> lot_window l = Some w \<and> lot_kind l = Monthly) (credit_lots db) of
        None \<Rightarrow> Inr None
      | Some row \<Rightarrow> rbind (toLotRecord row) (\<lambda>r. Inr (Some r)))"

definition liveExtraLots :: "uuid \<Rightarrow> db \<Rightarrow> credit_lot list result" where
  "liveExtraLots a db =
     all_results (map toLotRecord
       (sort_key (\<lambda>l. (lot_created l, lot_id l))
          (filter (\<lambda>l. lot_account l = a \<and> lot_kind l \<noteq> Monthly \<and> live_lot (db_now db) l \<and> remaining l > 0)
             (credit_lots db))))"

definition storedLedgerEntryIn ::
    "uuid \<Rightarrow> string \<Rightarrow> db \<Rightarrow> (CreditLedgerKind \<times> int \<times> string option) option" where
  "storedLedgerEntryIn a key db =
     map_option (\<lambda>r. (led_kind r, debt_delta r, led_reason r))
       (find (\<lambda>r. led_account r = a \<and> idempotency_key r = key) (credit_ledger db))"

end
