(* ===== verification/Credit_Invariant.thy ===== *)
theory Credit_Invariant
  imports Credit_Ledger
begin

section \<open>What is true of the credit tables between transactions\<close>

text \<open>
  The invariant of the credit tables, and that the two triggers which move money keep it: a ledger
  row moves its lot and its account's debt, a hold moves what its lot holds. A lot's balance is the
  sum of the ledger rows that name it, an account's debt the sum of its debt movements, and a lot's
  held credit the sum of the holds on it that no settlement has released.
\<close>

subsection \<open>The invariant\<close>

definition lot_total :: "db \<Rightarrow> uuid \<Rightarrow> int" where
  "lot_total db i = sum_by lot_delta (filter (\<lambda>r. led_lot r = Some i) (credit_ledger db))"

definition debt_total :: "db \<Rightarrow> uuid \<Rightarrow> int" where
  "debt_total db a = sum_by debt_delta (filter (\<lambda>r. led_account r = a) (credit_ledger db))"

definition hold_total :: "db \<Rightarrow> uuid \<Rightarrow> int" where
  "hold_total db i =
     sum_by hold_micro (filter (\<lambda>h. hold_lot h = i \<and> released_at h = None) (credit_reservation_holds db))"

definition keys_ok :: "db \<Rightarrow> bool" where
  "keys_ok db \<longleftrightarrow>
     distinct (map lot_id (credit_lots db)) \<and> distinct (map grant_key (credit_lots db)) \<and>
     distinct (map acc_id (credit_accounts db)) \<and>
     distinct (map (\<lambda>r. (led_account r, idempotency_key r)) (credit_ledger db)) \<and>
     sorted_wrt (<) (map led_id (credit_ledger db)) \<and>
     (\<forall>r\<in>set (credit_ledger db). 0 < led_id r \<and> led_id r \<le> ledger_seq db)"

definition rows_ok :: "db \<Rightarrow> bool" where
  "rows_ok db \<longleftrightarrow>
     (\<forall>r\<in>set (credit_ledger db). ledger_row_checks r \<and> find_account db (led_account r) \<noteq> None \<and>
        (\<forall>i. led_lot r = Some i \<longrightarrow> (\<exists>l. find_lot db i = Some l \<and> lot_account l = led_account r)))"

definition balances_ok :: "db \<Rightarrow> bool" where
  "balances_ok db \<longleftrightarrow>
     (\<forall>l\<in>set (credit_lots db). lot_bounds l \<and> remaining l = lot_total db (lot_id l) \<and>
        held l = hold_total db (lot_id l)) \<and>
     (\<forall>c\<in>set (credit_accounts db). 0 \<le> debt_micro c \<and> debt_micro c = debt_total db (acc_id c))"

definition holds_ok :: "db \<Rightarrow> bool" where
  "holds_ok db \<longleftrightarrow>
     distinct (map (\<lambda>h. (hold_reservation h, hold_lot h)) (credit_reservation_holds db)) \<and>
     (\<forall>h\<in>set (credit_reservation_holds db). 0 < hold_micro h \<and>
        (\<exists>l. find_lot db (hold_lot h) = Some l \<and> lot_account l = hold_account h))"

definition db_inv :: "db \<Rightarrow> bool" where
  "db_inv db \<longleftrightarrow> keys_ok db \<and> rows_ok db \<and> balances_ok db \<and> holds_ok db"

lemmas inv_defs = db_inv_def keys_ok_def rows_ok_def balances_ok_def holds_ok_def

subsection \<open>Updates of one row\<close>

interpretation lot_move: row_update lot_id move_remaining
  by unfold_locales (simp add: move_remaining_def)

interpretation lot_hold: row_update lot_id move_held
  by unfold_locales (simp add: move_held_def)

interpretation debt_move: row_update acc_id move_debt
  by unfold_locales (simp add: move_debt_def)

interpretation source_move: row_update acc_id source_set
  by unfold_locales (simp add: source_set_def split: prod.splits)

interpretation cutover_move: row_update acc_id cutover_moved
  by unfold_locales (simp add: cutover_moved_def split: prod.splits)

interpretation rollback_move: row_update acc_id cutover_rolled_back
  by unfold_locales (simp add: cutover_rolled_back_def)

lemma move_remaining_simps [simp]:
  "lot_id (move_remaining d l) = lot_id l" "lot_account (move_remaining d l) = lot_account l"
  "remaining (move_remaining d l) = remaining l + d" "held (move_remaining d l) = held l"
  "granted (move_remaining d l) = granted l" "grant_key (move_remaining d l) = grant_key l"
  "starts_at (move_remaining d l) = starts_at l" "expires_at (move_remaining d l) = expires_at l"
  "revoked_at (move_remaining d l) = revoked_at l" "lot_kind (move_remaining d l) = lot_kind l"
  "lot_created (move_remaining d l) = lot_created l" "live_lot t (move_remaining d l) = live_lot t l"
  "lot_window (move_remaining d l) = lot_window l"
  by (simp_all add: move_remaining_def live_lot_def)

lemma move_held_simps [simp]:
  "lot_id (move_held d l) = lot_id l" "lot_account (move_held d l) = lot_account l"
  "remaining (move_held d l) = remaining l" "held (move_held d l) = held l + d"
  "granted (move_held d l) = granted l" "grant_key (move_held d l) = grant_key l"
  "starts_at (move_held d l) = starts_at l" "expires_at (move_held d l) = expires_at l"
  "revoked_at (move_held d l) = revoked_at l" "lot_kind (move_held d l) = lot_kind l"
  "lot_created (move_held d l) = lot_created l" "live_lot t (move_held d l) = live_lot t l"
  "lot_window (move_held d l) = lot_window l"
  by (simp_all add: move_held_def live_lot_def)

lemma move_debt_simps [simp]:
  "acc_id (move_debt d c) = acc_id c" "debt_micro (move_debt d c) = debt_micro c + d"
  by (simp_all add: move_debt_def)

lemma move_0 [simp]: "move_debt 0 c = c" "move_remaining 0 l = l" "move_held 0 l = l"
  by (simp_all add: move_debt_def move_remaining_def move_held_def)

lemma update_where_id: "(\<And>r. r \<in> set rs \<Longrightarrow> P r \<Longrightarrow> f r = r) \<Longrightarrow> update_where P f rs = rs"
  by (induction rs) auto

subsection \<open>What a ledger row does\<close>

definition can_apply :: "credit_ledger_values \<Rightarrow> db \<Rightarrow> bool" where
  "can_apply v db \<longleftrightarrow>
     ledger_row_checks v \<and> \<not> key_taken db (led_account v) (idempotency_key v) \<and>
     (\<exists>c. find_account db (led_account v) = Some c \<and> (debt_delta v = 0 \<or> 0 \<le> debt_micro c + debt_delta v)) \<and>
     (case led_lot v of None \<Rightarrow> True
      | Some i \<Rightarrow> (\<exists>l. find_lot db i = Some l \<and> lot_account l = led_account v \<and>
                     lot_bounds (move_remaining (lot_delta v) l)) \<and>
          \<not> (funding_kind (led_kind v) \<and>
             list_ex (\<lambda>x. led_lot x = Some i \<and> funding_kind (led_kind x) \<and> led_id x \<noteq> Suc (ledger_seq db))
               (credit_ledger db)))"

definition apply_row :: "credit_ledger_values \<Rightarrow> db \<Rightarrow> db" where
  "apply_row v db =
     db\<lparr>credit_ledger := credit_ledger db @ [new_ledger_row v db],
        ledger_seq := Suc (ledger_seq db),
        credit_lots := (case led_lot v of None \<Rightarrow> credit_lots db
           | Some i \<Rightarrow> update_where (\<lambda>x. lot_id x = i) (move_remaining (lot_delta v)) (credit_lots db)),
        credit_accounts := update_where (\<lambda>c. acc_id c = led_account v) (move_debt (debt_delta v))
           (credit_accounts db)\<rparr>"

lemma new_ledger_row_simps [simp]:
  "led_account (new_ledger_row v db) = led_account v" "led_kind (new_ledger_row v db) = led_kind v"
  "led_lot (new_ledger_row v db) = led_lot v" "lot_delta (new_ledger_row v db) = lot_delta v"
  "debt_delta (new_ledger_row v db) = debt_delta v"
  "idempotency_key (new_ledger_row v db) = idempotency_key v"
  "led_session (new_ledger_row v db) = led_session v"
  "led_reservation (new_ledger_row v db) = led_reservation v"
  "led_card (new_ledger_row v db) = led_card v" "led_model (new_ledger_row v db) = led_model v"
  "led_reason (new_ledger_row v db) = led_reason v" "led_actor (new_ledger_row v db) = led_actor v"
  "led_id (new_ledger_row v db) = Suc (ledger_seq db)"
  "ledger_row_checks (new_ledger_row v db) = ledger_row_checks v"
  by (simp_all add: new_ledger_row_def ledger_row_checks_def)

lemma update_account_idle: "update_where P (move_debt 0) cs = cs"
  by (rule update_where_id) simp

lemma insert_ledger_Some:
  "insert_ledger v db = Inr (Some r, db') \<longleftrightarrow>
     can_apply v db \<and> r = new_ledger_row v db \<and> db' = apply_row v db"
proof (cases "ledger_row_checks v \<and> \<not> key_taken db (led_account v) (idempotency_key v)")
  case False
  then show ?thesis by (auto simp: insert_ledger_def can_apply_def)
next
  case True
  then have lot: "led_lot v = None \<longleftrightarrow> lot_delta v = 0" by (simp add: ledger_row_checks_def)
  show ?thesis
  proof (cases "led_lot v")
    case None
    with lot have "lot_delta v = 0" by simp
    with True None show ?thesis
      by (auto simp: insert_ledger_def can_apply_def apply_row_def credit_ledger_apply_def Let_def
          find_account_def result_simps update_account_idle split: option.splits if_splits)
  next
    case (Some i)
    with lot have nz: "lot_delta v \<noteq> 0" by auto
    from True Some nz show ?thesis
      by (auto simp: insert_ledger_def can_apply_def apply_row_def credit_ledger_apply_def Let_def
          find_account_def find_lot_def result_simps update_account_idle split: option.splits if_splits)
  qed
qed

lemma insert_ledger_None:
  "insert_ledger v db = Inr (None, db') \<longleftrightarrow>
     ledger_row_checks v \<and> key_taken db (led_account v) (idempotency_key v) \<and> db' = db"
  by (auto simp: insert_ledger_def result_simps Let_def)

lemmas insert_ledger_Inr = insert_ledger_Some insert_ledger_None


lemma apply_row_simps [simp]:
  "credit_ledger (apply_row v db) = credit_ledger db @ [new_ledger_row v db]"
  "ledger_seq (apply_row v db) = Suc (ledger_seq db)"
  "db_now (apply_row v db) = db_now db"
  "credit_reservations (apply_row v db) = credit_reservations db"
  "credit_reservation_holds (apply_row v db) = credit_reservation_holds db"
  "credit_model_calls (apply_row v db) = credit_model_calls db"
  "credit_clawbacks (apply_row v db) = credit_clawbacks db"
  "credit_windows (apply_row v db) = credit_windows db"
  "credit_window_level_changes (apply_row v db) = credit_window_level_changes db"
  "credit_rate_cards (apply_row v db) = credit_rate_cards db"
  "credit_rate_card_models (apply_row v db) = credit_rate_card_models db"
  by (simp_all add: apply_row_def)

lemma find_lot_apply [simp]:
  "find_lot (apply_row v db) i =
     (if led_lot v = Some i then map_option (move_remaining (lot_delta v)) (find_lot db i)
      else find_lot db i)"
  by (auto simp: apply_row_def find_lot_def lot_move.lookup split: option.splits)

lemma find_account_apply [simp]:
  "find_account (apply_row v db) a =
     (if a = led_account v then map_option (move_debt (debt_delta v)) (find_account db a)
      else find_account db a)"
  by (auto simp: apply_row_def find_account_def debt_move.lookup)

lemma totals_apply [simp]:
  "lot_total (apply_row v db) i = lot_total db i + (if led_lot v = Some i then lot_delta v else 0)"
  "debt_total (apply_row v db) a = debt_total db a + (if led_account v = a then debt_delta v else 0)"
  "hold_total (apply_row v db) i = hold_total db i"
  by (simp_all add: lot_total_def debt_total_def hold_total_def)

lemma account_debt_apply [simp]:
  "find_account db (led_account v) \<noteq> None \<Longrightarrow>
   account_debt (apply_row v db) a = account_debt db a + (if a = led_account v then debt_delta v else 0)"
  by (auto simp: account_debt_def)

lemma lots_apply:
  "l \<in> set (credit_lots (apply_row v db)) \<Longrightarrow>
     (\<exists>k\<in>set (credit_lots db). lot_id k = lot_id l \<and>
        l = (if led_lot v = Some (lot_id k) then move_remaining (lot_delta v) k else k))"
  by (auto simp: apply_row_def set_update_where split: option.splits)

lemma lot_keys_apply [simp]:
  "map lot_id (credit_lots (apply_row v db)) = map lot_id (credit_lots db)"
  "map grant_key (credit_lots (apply_row v db)) = map grant_key (credit_lots db)"
  "map acc_id (credit_accounts (apply_row v db)) = map acc_id (credit_accounts db)"
proof -
  show "map lot_id (credit_lots (apply_row v db)) = map lot_id (credit_lots db)"
    by (simp add: apply_row_def lot_move.keys split: option.splits)
  have "map grant_key (update_where P (move_remaining d) ls) = map grant_key ls" for P d ls
    by (induction ls) auto
  then show "map grant_key (credit_lots (apply_row v db)) = map grant_key (credit_lots db)"
    by (simp add: apply_row_def split: option.splits)
  show "map acc_id (credit_accounts (apply_row v db)) = map acc_id (credit_accounts db)"
    by (simp add: apply_row_def debt_move.keys)
qed

lemma find_lot_member: "keys_ok db \<Longrightarrow> l \<in> set (credit_lots db) \<Longrightarrow> find_lot db (lot_id l) = Some l"
  by (simp add: keys_ok_def find_lot_def lookup_by_member)

lemma find_lot_Some: "find_lot db i = Some l \<Longrightarrow> l \<in> set (credit_lots db) \<and> lot_id l = i"
  by (auto simp: find_lot_def dest: lookup_by_Some)

lemma find_account_member:
  "keys_ok db \<Longrightarrow> c \<in> set (credit_accounts db) \<Longrightarrow> find_account db (acc_id c) = Some c"
  by (simp add: keys_ok_def find_account_def lookup_by_member)

lemma find_account_Some: "find_account db a = Some c \<Longrightarrow> c \<in> set (credit_accounts db) \<and> acc_id c = a"
  by (auto simp: find_account_def dest: lookup_by_Some)

lemma apply_keys_ok: "keys_ok db \<Longrightarrow> can_apply v db \<Longrightarrow> keys_ok (apply_row v db)"
  unfolding keys_ok_def
  by (auto simp: can_apply_def key_taken_def list_ex_iff sorted_wrt_append less_Suc_eq_le
      simp del: map_map)

lemma apply_rows_ok:
  assumes "rows_ok db" and "can_apply v db"
  shows "rows_ok (apply_row v db)"
proof -
  have new: "ledger_row_checks v" "find_account db (led_account v) \<noteq> None"
    "\<And>i. led_lot v = Some i \<Longrightarrow> \<exists>l. find_lot db i = Some l \<and> lot_account l = led_account v"
    using assms(2) by (auto simp: can_apply_def)
  show ?thesis
    using assms(1) new by (fastforce simp: rows_ok_def)
qed

lemma apply_balances_ok:
  assumes "keys_ok db" and "balances_ok db" and "can_apply v db"
  shows "balances_ok (apply_row v db)"
  unfolding balances_ok_def
proof (intro conjI ballI)
  fix l assume "l \<in> set (credit_lots (apply_row v db))"
  then obtain k where k: "k \<in> set (credit_lots db)" "lot_id k = lot_id l"
    and l: "l = (if led_lot v = Some (lot_id k) then move_remaining (lot_delta v) k else k)"
    using lots_apply by blast
  from k(1) assms(2) have ok: "lot_bounds k" "remaining k = lot_total db (lot_id k)"
    "held k = hold_total db (lot_id k)" by (auto simp: balances_ok_def)
  have "lot_bounds (move_remaining (lot_delta v) k)" if "led_lot v = Some (lot_id k)"
    using assms(3) that find_lot_member [OF assms(1) k(1)] by (auto simp: can_apply_def)
  with ok l show "lot_bounds l" "remaining l = lot_total (apply_row v db) (lot_id l)"
    "held l = hold_total (apply_row v db) (lot_id l)" by auto
next
  fix c assume "c \<in> set (credit_accounts (apply_row v db))"
  then obtain b where b: "b \<in> set (credit_accounts db)"
    and c: "c = (if acc_id b = led_account v then move_debt (debt_delta v) b else b)"
    by (auto simp: apply_row_def set_update_where)
  from b assms(2) have ok: "0 \<le> debt_micro b" "debt_micro b = debt_total db (acc_id b)"
    by (auto simp: balances_ok_def)
  have "0 \<le> debt_micro b + debt_delta v" if "acc_id b = led_account v"
    using assms(3) that ok find_account_member [OF assms(1) b] by (auto simp: can_apply_def)
  with ok c show "0 \<le> debt_micro c" "debt_micro c = debt_total (apply_row v db) (acc_id c)" by auto
qed

lemma apply_holds_ok: "holds_ok db \<Longrightarrow> holds_ok (apply_row v db)"
  by (fastforce simp: holds_ok_def)

lemma apply_db_inv: "db_inv db \<Longrightarrow> can_apply v db \<Longrightarrow> db_inv (apply_row v db)"
  by (simp add: db_inv_def apply_keys_ok apply_rows_ok apply_balances_ok apply_holds_ok)

lemma insert_ledger_inv: "db_inv db \<Longrightarrow> insert_ledger v db = Inr (out, db') \<Longrightarrow> db_inv db'"
  by (cases out) (auto simp: insert_ledger_Inr apply_db_inv)

end
