(* ===== verification/Ledger_Laws.thy ===== *)
theory Ledger_Laws
  imports Credit_Invariant
begin

section \<open>The ledger's laws\<close>

text \<open>
  What the primitives of the ledger guarantee: a movement's row passes the database's CHECKs, a key
  applies once, the balances stay the sums of the ledger, expiry takes exactly what nobody holds,
  and debt is repaid from free credit until one of the two is gone, in the spend order.
\<close>

subsection \<open>Rows that pass the CHECKs\<close>

lemma exact_Inr [result_simps]: "exact v = Inr w \<longleftrightarrow> safe_int v \<and> w = v"
  by (auto simp: exact_def)

lemma exact_safe [simp]: "safe_int v \<Longrightarrow> exact v = Inr v"
  by (simp add: exact_def)

lemma toLedgerRecord_Inr [result_simps]:
  "toLedgerRecord r = Inr q \<longleftrightarrow> q = r \<and> safe_int (lot_delta r) \<and> safe_int (debt_delta r)"
  by (auto simp: toLedgerRecord_def result_simps)

lemma toLotRecord_Inr [result_simps]:
  "toLotRecord r = Inr q \<longleftrightarrow> q = r \<and> safe_int (granted r) \<and> safe_int (remaining r) \<and> safe_int (held r)"
  by (auto simp: toLotRecord_def result_simps)

lemma toAccountRecord_Inr [result_simps]:
  "toAccountRecord r = Inr q \<longleftrightarrow> q = r \<and> safe_int (debt_micro r)"
  by (auto simp: toAccountRecord_def result_simps)

lemma positiveMicro_Inr [result_simps]: "positiveMicro v = Inr w \<longleftrightarrow> 0 < v \<and> safe_int v \<and> w = v"
  by (auto simp: positiveMicro_def)

lemma checkedKey_Inr [result_simps]: "checkedKey k = Inr w \<longleftrightarrow> 1 \<le> length k \<and> length k \<le> 200 \<and> w = k"
  by (cases k) (auto simp: checkedKey_def CREDIT_LEDGER_IDEMPOTENCY_KEY_MAX_CHARS_def)

lemma member_of_Inr [result_simps]: "member_of vs v = Inr w \<longleftrightarrow> v \<in> set vs \<and> w = v"
  by (auto simp: member_of_def)

lemma all_results_same: "(\<And>x. x \<in> set xs \<Longrightarrow> f x = Inr (g x)) \<Longrightarrow> all_results (map f xs) = Inr (map g xs)"
  by (induction xs) auto

lemma common_values_simps [simp]:
  "led_account (common_values e rsn k i ld dd) = entry_account e"
  "led_kind (common_values e rsn k i ld dd) = k" "led_lot (common_values e rsn k i ld dd) = i"
  "lot_delta (common_values e rsn k i ld dd) = ld" "debt_delta (common_values e rsn k i ld dd) = dd"
  "idempotency_key (common_values e rsn k i ld dd) = entry_key e"
  "led_reason (common_values e rsn k i ld dd) = rsn"
  "led_reservation (common_values e rsn k i ld dd) = None"
  "led_card (common_values e rsn k i ld dd) = None" "led_model (common_values e rsn k i ld dd) = None"
  "led_session (common_values e rsn k i ld dd) = entry_session e"
  by (simp_all add: common_values_def)

lemma row_for_facts:
  assumes "creditLedgerRowFor e = Inr v"
  shows "ledger_row_checks v" "safe_int (lot_delta v)" "safe_int (debt_delta v)"
    "led_account v = entry_account e" "idempotency_key v = entry_key e"
proof -
  from assms have key: "1 \<le> length (entry_key e)" "length (entry_key e) \<le> 200"
    by (auto simp: creditLedgerRowFor_def result_simps)
  then show "ledger_row_checks v"
    using assms
    by (cases "entry_movement e";
        clarsimp simp: creditLedgerRowFor_def result_simps split: if_splits;
        simp add: ledger_row_checks_def funding_kind_def AiDebtReasons_def)
  show "safe_int (lot_delta v)" "safe_int (debt_delta v)"
    "led_account v = entry_account e" "idempotency_key v = entry_key e"
    using assms
    by (cases "entry_movement e"; auto simp: creditLedgerRowFor_def result_simps safe_int_def split: if_splits)+
qed

text \<open>C21: every row the repository builds from a movement passes the CHECK constraints of the ledger
  table: the sign and the columns of each kind, the debt reason, the task charge's context and the
  key's length. The TypeScript checks are never weaker than the database's.\<close>
theorem creditLedgerRowFor_passes_the_checks:
  assumes "creditLedgerRowFor e = Inr v"
  shows "ledger_row_checks v \<and> led_account v = entry_account e \<and> idempotency_key v = entry_key e \<and>
    safe_int (lot_delta v) \<and> safe_int (debt_delta v)"
  using row_for_facts [OF assms] by simp

definition example_charge :: NewCreditLedgerEntry where
  "example_charge =
     \<lparr>entry_account = ''acct'', entry_key = ''task_charge:r:l'', entry_actor = None, entry_session = None,
      entry_movement = TaskChargeOf ''l'' 250 ''r'' 1 ''claude'' None\<rparr>"

theorem creditLedgerRowFor_passes_the_checks_witness:
  "\<exists>v. creditLedgerRowFor example_charge = Inr v \<and> ledger_row_checks v \<and> lot_delta v = - 250"
proof -
  have "creditLedgerRowFor example_charge =
      Inr ((common_values example_charge None TaskCharge (Some ''l'') (- 250) 0)
        \<lparr>led_reservation := Some ''r'', led_card := Some 1, led_model := Some ''claude''\<rparr>)"
    by (simp add: creditLedgerRowFor_def example_charge_def checkedKey_def positiveMicro_def safe_int_def
        MAX_SAFE_def CREDIT_LEDGER_IDEMPOTENCY_KEY_MAX_CHARS_def)
  with creditLedgerRowFor_passes_the_checks [OF this] show ?thesis by simp
qed

subsection \<open>Appending applies once\<close>

lemma find_key_taken:
  "key_taken db a k \<longleftrightarrow>
     find (\<lambda>x. led_account x = a \<and> idempotency_key x = k) (credit_ledger db) \<noteq> None"
  by (auto simp: key_taken_def list_ex_iff find_None_iff)

lemma append_applies:
  assumes "creditLedgerRowFor e = Inr v" and "can_apply v db"
  shows "append_ledger e db = Inr ((True, new_ledger_row v db), apply_row v db)"
proof -
  have "insert_ledger v db = Inr (Some (new_ledger_row v db), apply_row v db)"
    using assms(2) by (simp add: insert_ledger_Some)
  moreover have "toLedgerRecord (new_ledger_row v db) = Inr (new_ledger_row v db)"
    using row_for_facts [OF assms(1)] by (simp add: result_simps)
  ultimately show ?thesis using assms(1) by (simp add: append_ledger_def)
qed

lemma append_Inr:
  assumes "append_ledger e db = Inr ((b, r), db')"
  obtains v where "creditLedgerRowFor e = Inr v"
    and "b \<Longrightarrow> can_apply v db \<and> r = new_ledger_row v db \<and> db' = apply_row v db"
    and "\<not> b \<Longrightarrow> db' = db \<and> key_taken db (entry_account e) (entry_key e) \<and> same_movement r v \<and>
      r \<in> set (credit_ledger db)"
proof -
  from assms obtain v out db1 where v: "creditLedgerRowFor e = Inr v"
    and ins: "insert_ledger v db = Inr (out, db1)"
    by (auto simp: append_ledger_def result_simps)
  show thesis
  proof (cases out)
    case (Some q)
    with ins have "can_apply v db" "q = new_ledger_row v db" "db1 = apply_row v db"
      by (auto simp: insert_ledger_Some)
    with assms v ins Some show thesis
      by (intro that [OF v]) (auto simp: append_ledger_def result_simps)
  next
    case None
    with ins have none: "key_taken db (led_account v) (idempotency_key v)" "db1 = db"
      by (auto simp: insert_ledger_None)
    with assms v ins None have "\<not> b" "db' = db" "same_movement r v" "r \<in> set (credit_ledger db)"
      by (auto simp: append_ledger_def result_simps find_Some_iff split: option.splits if_splits)
    with none row_for_facts [OF v] show thesis by (intro that [OF v]) auto
  qed
qed

lemma append_again:
  assumes "creditLedgerRowFor e = Inr v" and "can_apply v db"
    and "credit_ledger later = credit_ledger db @ new_ledger_row v db # rest"
  shows "append_ledger e later = Inr ((False, new_ledger_row v db), later)"
proof -
  note facts = row_for_facts [OF assms(1)]
  have "find (\<lambda>x. led_account x = led_account v \<and> idempotency_key x = idempotency_key v)
      (credit_ledger db) = None"
    using assms(2) by (auto simp: can_apply_def find_key_taken)
  then have found: "find (\<lambda>x. led_account x = led_account v \<and> idempotency_key x = idempotency_key v)
      (credit_ledger later) = Some (new_ledger_row v db)"
    unfolding assms(3) find_append_if by simp
  then have "insert_ledger v later = Inr (None, later)"
    using facts(1) by (simp add: insert_ledger_None find_key_taken)
  then show ?thesis
    using assms(1) facts found by (simp add: append_ledger_def toLedgerRecord_def same_movement_def)
qed

text \<open>C22: an append that applied is the only one its key will ever apply: however many rows are written
  after it, the same call reports \<open>applied = false\<close> with the row that was written first, and
  changes nothing.\<close>
theorem append_applies_once:
  assumes "append_ledger e db = Inr ((True, r), db')"
    and "credit_ledger later = credit_ledger db' @ rest"
  shows "append_ledger e later = Inr ((False, r), later)"
proof -
  from assms(1) obtain v where v: "creditLedgerRowFor e = Inr v" and ap: "can_apply v db"
    and r: "r = new_ledger_row v db" and db': "db' = apply_row v db"
    by (rule append_Inr) auto
  from assms(2) db' have "credit_ledger later = credit_ledger db @ new_ledger_row v db # rest" by simp
  from append_again [OF v ap this] r show ?thesis by simp
qed

text \<open>C23: a key already used for a different movement is refused with the error class of the
  repository, and a replay of the same movement is not.\<close>
theorem append_refuses_a_reused_key:
  assumes "db_inv db" and "q \<in> set (credit_ledger db)"
    and "led_account q = entry_account e" and "idempotency_key q = entry_key e"
    and "creditLedgerRowFor e = Inr v" and "safe_int (lot_delta q)" and "safe_int (debt_delta q)"
  shows "append_ledger e db =
    (if same_movement q v then Inr ((False, q), db) else Inl CreditLedgerKeyReusedError)"
proof -
  note facts = row_for_facts [OF assms(5)]
  let ?P = "\<lambda>x. led_account x = led_account v \<and> idempotency_key x = idempotency_key v"
  have "find ?P (credit_ledger db) = Some q"
  proof -
    have "distinct (map (\<lambda>r. (led_account r, idempotency_key r)) (credit_ledger db))"
      using assms(1) by (simp add: db_inv_def keys_ok_def)
    from lookup_by_member [OF this assms(2)] show ?thesis
      using assms(3,4) facts by (simp add: lookup_by_def)
  qed
  moreover from this have "insert_ledger v db = Inr (None, db)"
    using facts(1) by (simp add: insert_ledger_None find_key_taken)
  ultimately show ?thesis
    using assms(5,6,7) by (simp add: append_ledger_def toLedgerRecord_def)
qed


subsection \<open>Statements that keep the invariant\<close>

text \<open>
  The contract every statement of the repositories offers its callers: started in a state that
  satisfies the invariant, it leaves one that does. A caller that strings such statements together,
  in a loop or inside a transaction, keeps the invariant too.
\<close>

locale keeps_invariant =
  fixes step :: "'x \<Rightarrow> db \<Rightarrow> ('y \<times> db) result"
  assumes keeps: "db_inv db \<Longrightarrow> step x db = Inr (y, db') \<Longrightarrow> db_inv db'"
begin

lemma then_keeps:
  assumes "db_inv db" and "rbind (step x db) (\<lambda>(y, db1). k y db1) = Inr (z, db')"
    and "\<And>y db1. db_inv db1 \<Longrightarrow> k y db1 = Inr (z, db') \<Longrightarrow> db_inv db'"
  shows "db_inv db'"
proof -
  from assms(2) obtain y db1 where "step x db = Inr (y, db1)" "k y db1 = Inr (z, db')"
    by (auto simp: result_simps)
  with assms(1,3) show ?thesis by (meson keeps)
qed

lemma in_transaction:
  assumes "db_inv db" and "transaction (step x) db = Inr (y, db')"
  shows "db_inv db' \<and> commit_checks db db'"
  using assms keeps by (auto simp: transaction_def result_simps split: if_splits)

end

interpretation ledger_insert: keeps_invariant insert_ledger
  by unfold_locales (rule insert_ledger_inv)

lemma append_inv: "db_inv db \<Longrightarrow> append_ledger e db = Inr (y, db') \<Longrightarrow> db_inv db'"
  by (cases y) (auto elim!: append_Inr simp: apply_db_inv dest: sym)

interpretation ledger_append: keeps_invariant append_ledger
  by unfold_locales (rule append_inv)

text \<open>Changes to an account row that leave its id and its debt alone.\<close>

lemma update_account_inv:
  assumes "db_inv db" and "\<And>c. acc_id (f c) = acc_id c" and "\<And>c. debt_micro (f c) = debt_micro c"
  shows "db_inv (db\<lparr>credit_accounts := update_where P f (credit_accounts db)\<rparr>)"
proof -
  let ?db = "db\<lparr>credit_accounts := update_where P f (credit_accounts db)\<rparr>"
  have keys: "map acc_id (update_where P f cs) = map acc_id cs" for cs
    by (induction cs) (auto simp: assms(2))
  then have "find_account ?db a = None \<longleftrightarrow> find_account db a = None" for a
    by (simp add: find_account_def lookup_by_None) (metis list.set_map)
  moreover have "find_lot ?db = find_lot db" "lot_total ?db = lot_total db" "hold_total ?db = hold_total db"
    "debt_total ?db = debt_total db"
    by (auto simp: fun_eq_iff find_lot_def lot_total_def hold_total_def debt_total_def)
  moreover have "c \<in> set (credit_accounts ?db) \<Longrightarrow>
      \<exists>b\<in>set (credit_accounts db). acc_id c = acc_id b \<and> debt_micro c = debt_micro b" for c
    by (auto simp: set_update_where assms(2,3))
  ultimately show ?thesis
    using assms(1) by (fastforce simp: inv_defs keys)
qed

lemma insert_account_inv: "db_inv db \<Longrightarrow> db_inv (insert_account a db)"
proof (cases "find_account db a")
  case None
  assume inv: "db_inv db"
  let ?db = "insert_account a db"
  have db: "?db = db\<lparr>credit_accounts := credit_accounts db @ [fresh_account a]\<rparr>"
    using None by (simp add: insert_account_def)
  have "debt_total db a = 0"
    using inv None unfolding debt_total_def by (intro sum_by_zero) (auto simp: db_inv_def rows_ok_def)
  moreover have "find_lot ?db = find_lot db" "lot_total ?db = lot_total db" "hold_total ?db = hold_total db"
    "debt_total ?db = debt_total db"
    by (auto simp: db fun_eq_iff find_lot_def lot_total_def hold_total_def debt_total_def)
  moreover have "find_account db b \<noteq> None \<Longrightarrow> find_account ?db b \<noteq> None" for b
    by (auto simp: db find_account_def lookup_by_append)
  moreover have "a \<notin> acc_id ` set (credit_accounts db)"
    using None by (simp add: find_account_def lookup_by_None)
  ultimately show ?thesis
    using inv by (auto simp: inv_defs fresh_account_def) (auto simp: db fresh_account_def)
qed (simp add: insert_account_def)

lemma find_insert_account: "find_account (insert_account a db) a \<noteq> None"
  by (auto simp: insert_account_def find_account_def lookup_by_append fresh_account_def)

lemma lockAccount_Inr [result_simps]:
  "lockAccount a db = Inr (r, db') \<longleftrightarrow>
     db' = insert_account a db \<and> find_account db' a = Some r \<and> safe_int (debt_micro r)"
  by (auto simp: lockAccount_def Let_def result_simps split: option.splits)

interpretation account_lock: keeps_invariant lockAccount
  by unfold_locales (simp add: result_simps insert_account_inv)

interpretation account_ensure: keeps_invariant ensureAccount
  by unfold_locales (auto simp: ensureAccount_def Let_def result_simps insert_account_inv split: option.splits)

interpretation source_write: keeps_invariant "\<lambda>(a, src, by_whom). setAiSourceIn a src by_whom"
  by unfold_locales
    (auto simp: setAiSourceIn_def update_account_def Let_def result_simps source_set_def
      intro!: update_account_inv split: option.splits)

interpretation cutover_write: keeps_invariant "\<lambda>(a, consent, cap, had_key). setCutoverMoved a consent cap had_key"
  by unfold_locales
    (auto simp: setCutoverMoved_def update_account_def Let_def result_simps cutover_moved_def
      intro!: update_account_inv split: option.splits)

interpretation rollback_write: keeps_invariant setCutoverRolledBack
  by unfold_locales
    (auto simp: setCutoverRolledBack_def update_account_def Let_def result_simps cutover_rolled_back_def
      intro!: update_account_inv split: option.splits)

lemma insert_lot_inv:
  assumes "db_inv db" and "insert_lot i v db = Inr (out, db')"
  shows "db_inv db'"
proof (cases out)
  case None
  with assms show ?thesis by (auto simp: insert_lot_def Let_def split: if_splits option.splits)
next
  case (Some l)
  with assms(2) have v: "lot_row_checks v" and new: "find_lot db i = None"
    and fresh: "nl_grant_key v \<notin> grant_key ` set (credit_lots db)"
    and l: "l = new_lot_row i v db" and db': "db' = db\<lparr>credit_lots := credit_lots db @ [l]\<rparr>"
    by (auto simp: insert_lot_def Let_def list_ex_iff split: if_splits option.splits)
  have row: "lot_id l = i" "remaining l = 0" "held l = 0" "granted l = nl_granted v" "grant_key l = nl_grant_key v"
    by (simp_all add: l new_lot_row_def)
  have inv: "keys_ok db" "rows_ok db" "balances_ok db" "holds_ok db"
    using assms(1) by (simp_all add: db_inv_def)
  have "lot_total db i = 0"
    unfolding lot_total_def using inv(2) new by (intro sum_by_zero) (auto simp: rows_ok_def)
  moreover have "hold_total db i = 0"
    unfolding hold_total_def using inv(4) new by (intro sum_by_zero) (auto simp: holds_ok_def)
  moreover have same: "find_account db' = find_account db" "lot_total db' = lot_total db"
    "hold_total db' = hold_total db" "debt_total db' = debt_total db"
    by (auto simp: db' fun_eq_iff find_account_def lot_total_def hold_total_def debt_total_def)
  ultimately have "balances_ok db'"
    using inv(3) v row by (simp add: balances_ok_def same) (auto simp: db' lot_bounds_def lot_row_checks_def)
  moreover have grows: "find_lot db j = Some k \<Longrightarrow> find_lot db' j = Some k" for j k
    by (simp add: db' find_lot_def lookup_by_append)
  have "i \<notin> lot_id ` set (credit_lots db)" using new by (simp add: find_lot_def lookup_by_None)
  with inv(1) fresh have "keys_ok db'" by (auto simp: keys_ok_def db' row)
  moreover have "rows_ok db'" using inv(2) grows by (simp add: rows_ok_def same) (simp add: db', blast)
  moreover have "holds_ok db'" using inv(4) grows by (simp add: holds_ok_def) (simp add: db', blast)
  ultimately show ?thesis by (simp add: db_inv_def)
qed

interpretation lot_insert: keeps_invariant "\<lambda>(i, v). insertLot i v"
proof
  fix db :: db and x :: "uuid \<times> lot_values" and y db'
  assume "db_inv db" and "(case x of (i, v) \<Rightarrow> insertLot i v) db = Inr (y, db')"
  then show "db_inv db'"
    by (cases x) (auto simp: insertLot_def rbind_eq_Inr split: option.splits if_splits
        intro: insert_lot_inv)
qed

end
