(* ===== verification/Ledger_Debt.thy ===== *)
theory Ledger_Debt
  imports Ledger_Laws
begin

section \<open>Expiry, and debt repaid from free credit\<close>

text \<open>
  \<open>expireDueLots\<close> and \<open>settleDebtFromFree\<close> of the ledger repository. Both write rows whose keys carry
  a counter (\<^verbatim>\<open>expiry:<lot>:<n>\<close>, \<^verbatim>\<open>debt_repayment:<lot>:<n>\<close>), so that what they do depends on no key
  of that family being ahead of its counter; that, the shape of the ids and the size of the amounts
  is the hygiene of a state, which every operation of the development keeps.
\<close>

subsection \<open>Hygiene of a state\<close>

definition uuid_ok :: "uuid \<Rightarrow> bool" where
  "uuid_ok i \<longleftrightarrow> length i = 36 \<and> colon_free i"

definition counter_keys :: "db \<Rightarrow> string \<Rightarrow> CreditLedgerKind \<Rightarrow> bool" where
  "counter_keys db w k \<longleftrightarrow>
     (\<forall>r\<in>set (credit_ledger db). \<forall>i n. uuid_ok i \<and> idempotency_key r = colon_join [w, i, dec n] \<longrightarrow>
        n \<le> rows_of_kind db i k)"

definition amounts_ok :: "db \<Rightarrow> bool" where
  "amounts_ok db \<longleftrightarrow> (\<forall>l\<in>set (credit_lots db). uuid_ok (lot_id l) \<and> granted l \<le> MAX_SAFE)"

definition hygiene :: "db \<Rightarrow> bool" where
  "hygiene db \<longleftrightarrow> amounts_ok db \<and> counter_keys db ''expiry'' Expiry \<and>
     counter_keys db ''debt_repayment'' DebtRepayment"

lemma ledger_length: "keys_ok db \<Longrightarrow> length (credit_ledger db) \<le> ledger_seq db"
proof -
  assume ok: "keys_ok db"
  let ?ids = "map led_id (credit_ledger db)"
  from ok have "distinct ?ids" by (auto simp: keys_ok_def strict_sorted_iff)
  then have "length ?ids = card (set ?ids)" by (rule distinct_card [symmetric])
  also have "\<dots> \<le> card {1..ledger_seq db}"
    using ok by (intro card_mono) (auto simp: keys_ok_def Suc_le_eq)
  finally show ?thesis by simp
qed

lemma rows_of_kind_le: "keys_ok db \<Longrightarrow> rows_of_kind db i k \<le> ledger_seq db"
  unfolding rows_of_kind_def by (meson length_filter_le ledger_length order_trans)

lemma rows_of_kind_apply [simp]:
  "rows_of_kind (apply_row v db) i k =
     rows_of_kind db i k + (if led_lot v = Some i \<and> led_kind v = k then 1 else 0)"
  by (simp add: rows_of_kind_def)

lemma next_key_free:
  assumes "counter_keys db w k" and "uuid_ok i"
  shows "\<not> key_taken db a (colon_join [w, i, dec (rows_of_kind db i k + 1)])"
proof
  assume "key_taken db a (colon_join [w, i, dec (rows_of_kind db i k + 1)])"
  then obtain r where "r \<in> set (credit_ledger db)"
    and "idempotency_key r = colon_join [w, i, dec (rows_of_kind db i k + 1)]"
    by (auto simp: key_taken_def list_ex_iff)
  with assms have "rows_of_kind db i k + 1 \<le> rows_of_kind db i k" unfolding counter_keys_def by blast
  then show False by simp
qed

lemma counter_keys_apply:
  assumes "counter_keys db w k"
    and "\<And>i n. uuid_ok i \<Longrightarrow> idempotency_key v = colon_join [w, i, dec n] \<Longrightarrow>
      n \<le> rows_of_kind (apply_row v db) i k"
  shows "counter_keys (apply_row v db) w k"
  using assms by (fastforce simp: counter_keys_def)

text \<open>A key of another family, or of another shape, never looks like a counter key.\<close>

lemma other_family:
  assumes "\<forall>p\<in>set ps. colon_free p" and "colon_free w" and "ps \<noteq> []" and "length ps \<noteq> 3 \<or> hd ps \<noteq> w"
    and "uuid_ok i"
  shows "colon_join ps \<noteq> colon_join [w, i, dec n]"
proof
  assume "colon_join ps = colon_join [w, i, dec n]"
  then have "ps = [w, i, dec n]"
    using assms by (intro colon_join_inject) (auto simp: uuid_ok_def)
  with assms(4) show False by simp
qed

lemma counter_key_inject:
  assumes "uuid_ok i" "uuid_ok j" "colon_free w" and "colon_join [w, i, dec m] = colon_join [w, j, dec n]"
  shows "i = j \<and> m = n"
proof -
  have "[w, i, dec m] = [w, j, dec n]"
    using assms by (intro colon_join_inject) (auto simp: uuid_ok_def)
  then show ?thesis by (auto dest: dec_inject)
qed

lemma counter_key_length:
  assumes "uuid_ok i" and "n < 10 ^ 18" and "length w \<le> 20"
  shows "1 \<le> length (colon_join [w, i, dec n])" "length (colon_join [w, i, dec n]) \<le> 200"
  using assms length_dec [of n 18] by (simp_all add: uuid_ok_def colon_join.simps)

lemma colon_free_families [simp]:
  "colon_free ''expiry''" "colon_free ''debt_repayment''"
  by (simp_all add: colon_free_def)

lemma amounts_apply [simp]: "amounts_ok db \<Longrightarrow> amounts_ok (apply_row v db)"
  by (fastforce simp: amounts_ok_def dest: lots_apply split: if_splits)

subsection \<open>A small state\<close>

text \<open>
  One account that owes 300 microcredits, with a monthly lot of one credit that started at 0 and
  expires at 1000 and a goodwill lot of two credits that expires at 5000; the clock reads \<open>t\<close>. The
  theorems below are instantiated on it.
\<close>

definition example_account :: uuid where
  "example_account = ''aaaaaaaa-0000-4000-8000-000000000001''"

definition example_lot :: uuid where
  "example_lot = ''bbbbbbbb-0000-4000-8000-000000000001''"

definition example_extra :: uuid where
  "example_extra = ''bbbbbbbb-0000-4000-8000-000000000002''"

definition example_row :: "nat \<Rightarrow> CreditLedgerKind \<Rightarrow> uuid option \<Rightarrow> int \<Rightarrow> int \<Rightarrow> string \<Rightarrow> string option
    \<Rightarrow> credit_ledger_row" where
  "example_row n k lot d e key rsn =
     \<lparr>led_account = example_account, led_kind = k, led_lot = lot, lot_delta = d, debt_delta = e,
      idempotency_key = key, led_session = None, led_reservation = None, led_card = None,
      led_model = None, led_reason = rsn, led_actor = System, led_id = n, led_created = 0\<rparr>"

definition example_lot_row :: "uuid \<Rightarrow> CreditLotKind \<Rightarrow> uuid option \<Rightarrow> string \<Rightarrow> int \<Rightarrow> int \<Rightarrow> instant \<Rightarrow> credit_lot" where
  "example_lot_row i k w g amount h e =
     \<lparr>lot_id = i, lot_account = example_account, lot_kind = k, lot_window = w, grant_key = g,
      granted = amount, remaining = amount, held = h, starts_at = 0, expires_at = e,
      revoked_at = None, lot_created = 0, lot_still_paid = None\<rparr>"

definition example_db :: "int \<Rightarrow> instant \<Rightarrow> db" where
  "example_db owed t =
     \<lparr>db_now = t,
      credit_accounts = [(fresh_account example_account)\<lparr>debt_micro := owed\<rparr>],
      credit_lots = [example_lot_row example_lot Monthly (Some ''w1'') ''grant:1'' 1000000 0 1000,
                     example_lot_row example_extra Adjustment None ''grant:2'' 2000000 0 5000],
      credit_ledger = [example_row 1 Grant (Some example_lot) 1000000 0 ''grant:1'' None,
                       example_row 2 AdjustmentEntry (Some example_extra) 2000000 0 ''grant:2'' None] @
        (if owed = 0 then [] else [example_row 3 DebtIncurred None 0 owed ''debt:1'' (Some ''plan_change'')]),
      ledger_seq = 3, credit_reservations = [], credit_reservation_holds = [],
      credit_model_calls = [], credit_clawbacks = [], credit_windows = [],
      credit_window_level_changes = [], credit_rate_cards = [], credit_rate_card_models = []\<rparr>"

lemmas example_simps = example_db_def example_row_def example_lot_row_def example_account_def
  example_lot_def example_extra_def fresh_account_def

lemma example_seq: "ledger_seq (example_db owed t) < 10 ^ 17"
  by (simp add: example_db_def)

lemma example_inv: "0 \<le> owed \<Longrightarrow> db_inv (example_db owed t)"
  by (simp add: inv_defs example_simps find_account_def find_lot_def ledger_row_checks_def funding_kind_def
      lot_bounds_def lot_total_def debt_total_def hold_total_def)

lemma example_hygiene: "hygiene (example_db owed t)"
  by (auto simp: hygiene_def amounts_ok_def counter_keys_def uuid_ok_def colon_free_def colon_join.simps
      example_simps MAX_SAFE_def)

definition example_forgiveness :: "int \<Rightarrow> NewCreditLedgerEntry" where
  "example_forgiveness x =
     \<lparr>entry_account = example_account, entry_key = ''forgive:1'', entry_actor = Some Admin,
      entry_session = None, entry_movement = ForgiveDebt x None\<rparr>"

theorem append_applies_once_witness:
  "\<exists>r db'. append_ledger (example_forgiveness 100) (example_db 300 0) = Inr ((True, r), db') \<and>
    append_ledger (example_forgiveness 100) db' = Inr ((False, r), db')"
proof -
  have "\<exists>r db'. append_ledger (example_forgiveness 100) (example_db 300 0) = Inr ((True, r), db')"
  proof -
    have "map_sum id fst (append_ledger (example_forgiveness 100) (example_db 300 0)) =
        Inr (True, (example_row 4 AdjustmentEntry None 0 (- 100) ''forgive:1'' None)\<lparr>led_actor := Admin\<rparr>)"
      by code_simp
    then show ?thesis by (cases "append_ledger (example_forgiveness 100) (example_db 300 0)") auto
  qed
  then obtain r db' where h: "append_ledger (example_forgiveness 100) (example_db 300 0) = Inr ((True, r), db')"
    by blast
  from append_applies_once [OF h, of db' "[]"] h show ?thesis by auto
qed

theorem append_refuses_a_reused_key_witness:
  "append_ledger ((example_forgiveness 100)\<lparr>entry_key := ''debt:1''\<rparr>) (example_db 300 0) =
     Inl CreditLedgerKeyReusedError"
proof -
  let ?e = "(example_forgiveness 100)\<lparr>entry_key := ''debt:1''\<rparr>"
  let ?q = "example_row 3 DebtIncurred None 0 300 ''debt:1'' (Some ''plan_change'')"
  let ?v = "(common_values ?e None AdjustmentEntry None 0 (- 100))"
  have row: "creditLedgerRowFor ?e = Inr ?v"
    by (simp add: creditLedgerRowFor_def example_forgiveness_def checkedKey_def positiveMicro_def
        CREDIT_LEDGER_IDEMPOTENCY_KEY_MAX_CHARS_def safe_int_def MAX_SAFE_def)
  have q: "?q \<in> set (credit_ledger (example_db 300 0))" by (simp add: example_db_def)
  have "led_account ?q = entry_account ?e" "idempotency_key ?q = entry_key ?e"
    "safe_int (lot_delta ?q)" "safe_int (debt_delta ?q)" "\<not> same_movement ?q ?v"
    by (simp_all add: example_row_def example_forgiveness_def safe_int_def MAX_SAFE_def same_movement_def)
  with append_refuses_a_reused_key [OF example_inv [of 300 0] q _ _ row] show ?thesis by simp
qed

subsection \<open>Applying rows of distinct lots\<close>

lemma can_apply_after:
  assumes "can_apply v db" and "can_apply u db" and "led_lot u \<noteq> led_lot v" and "debt_delta u = 0"
    and "(led_account u, idempotency_key u) \<noteq> (led_account v, idempotency_key v)"
    and "\<not> funding_kind (led_kind v)"
  shows "can_apply v (apply_row u db)"
proof -
  have "\<not> key_taken (apply_row u db) (led_account v) (idempotency_key v)"
    using assms by (auto simp: can_apply_def key_taken_def)
  moreover have "\<exists>c. find_account (apply_row u db) (led_account v) = Some c \<and>
      (debt_delta v = 0 \<or> 0 \<le> debt_micro c + debt_delta v)"
    using assms by (auto simp: can_apply_def)
  ultimately show ?thesis using assms by (auto simp: can_apply_def split: option.splits)
qed

lemma insert_rows:
  assumes "\<And>v. v \<in> set vs \<Longrightarrow> can_apply v db \<and> debt_delta v = 0 \<and> \<not> funding_kind (led_kind v)"
    and "distinct (map led_lot vs)" and "distinct (map idempotency_key vs)"
  shows "\<exists>rows. foldr_result insert_one (out, db) vs = Inr (out @ rows, fold apply_row vs db) \<and>
    map (\<lambda>r. (led_lot r, lot_delta r)) rows = map (\<lambda>v. (led_lot v, lot_delta v)) vs"
  using assms
proof (induction vs arbitrary: out db)
  case Nil
  then show ?case by simp
next
  case (Cons u vs)
  have u: "can_apply u db" "debt_delta u = 0" using Cons.prems(1) [of u] by auto
  have "can_apply v (apply_row u db) \<and> debt_delta v = 0 \<and> \<not> funding_kind (led_kind v)" if "v \<in> set vs" for v
  proof -
    have "led_lot u \<noteq> led_lot v" "idempotency_key u \<noteq> idempotency_key v"
      using Cons.prems(2,3) that by (auto simp: image_iff)
    with Cons.prems(1) [of v] that u show ?thesis by (auto intro: can_apply_after)
  qed
  then obtain rows where
    "foldr_result insert_one (out @ [new_ledger_row u db], apply_row u db) vs =
       Inr ((out @ [new_ledger_row u db]) @ rows, fold apply_row vs (apply_row u db))"
    "map (\<lambda>r. (led_lot r, lot_delta r)) rows = map (\<lambda>v. (led_lot v, lot_delta v)) vs"
    using Cons.IH [of "apply_row u db" "out @ [new_ledger_row u db]"] Cons.prems(2,3) by auto
  moreover have "insert_one (out, db) u = Inr (out @ [new_ledger_row u db], apply_row u db)"
  proof -
    have "insert_ledger u db = Inr (Some (new_ledger_row u db), apply_row u db)"
      using u(1) by (simp add: insert_ledger_Some)
    then show ?thesis by (simp add: insert_one_def)
  qed
  ultimately show ?case by (intro exI [of _ "new_ledger_row u db # rows"]) simp
qed

lemma find_lot_fold:
  assumes "distinct (map led_lot vs)"
  shows "find_lot (fold apply_row vs db) i =
    (case find (\<lambda>v. led_lot v = Some i) vs of None \<Rightarrow> find_lot db i
     | Some v \<Rightarrow> map_option (move_remaining (lot_delta v)) (find_lot db i))"
  using assms
proof (induction vs arbitrary: db)
  case (Cons v vs)
  have "find (\<lambda>u. led_lot u = Some i) vs = None" if "led_lot v = Some i"
    using Cons.prems that by (force simp: find_None_iff)
  with Cons show ?case by (auto split: option.splits)
qed simp

lemma fold_apply_inv:
  assumes "db_inv db" and "foldr_result insert_one (out, db) vs = Inr (out', db')"
  shows "db_inv db'"
proof -
  have "db_inv (snd (out', db'))"
    using assms by (elim foldr_result_invariant [where P = "\<lambda>s. db_inv (snd s)"])
      (auto simp: insert_one_def result_simps dest: insert_ledger_inv)
  then show ?thesis by simp
qed


subsection \<open>Expiry\<close>

lemma live_parts: "lot_bounds l \<Longrightarrow> 0 \<le> free_micro l \<and> free_micro l \<le> granted l"
  by (simp add: lot_bounds_def free_micro_def)

lemma lot_has_account:
  assumes "db_inv db" and "l \<in> set (credit_lots db)" and "remaining l \<noteq> 0"
  shows "find_account db (lot_account l) \<noteq> None"
proof -
  from assms have "lot_total db (lot_id l) \<noteq> 0" by (simp add: db_inv_def balances_ok_def)
  then have "filter (\<lambda>r. led_lot r = Some (lot_id l)) (credit_ledger db) \<noteq> []"
    by (auto simp: lot_total_def simp del: filter_empty_conv)
  then obtain r where "r \<in> set (credit_ledger db)" "led_lot r = Some (lot_id l)"
    by (auto simp: filter_empty_conv)
  moreover have "find_lot db (lot_id l) = Some l"
    using assms(1,2) by (simp add: db_inv_def find_lot_member)
  ultimately show ?thesis using assms(1) by (fastforce simp: db_inv_def rows_ok_def)
qed

lemma due_lots_member:
  "l \<in> set (due_lots db a) \<longleftrightarrow>
     l \<in> set (credit_lots db) \<and> lot_account l = a \<and> expires_at l \<le> db_now db \<and> held l < remaining l"
  by (auto simp: due_lots_def)

lemma due_lots_distinct: "keys_ok db \<Longrightarrow> distinct (map lot_id (due_lots db a))"
  by (auto simp: due_lots_def keys_ok_def distinct_map intro: inj_on_subset)

lemma expiry_values_simps [simp]:
  "led_account (expiry_values db l) = lot_account l" "led_lot (expiry_values db l) = Some (lot_id l)"
  "led_kind (expiry_values db l) = Expiry" "lot_delta (expiry_values db l) = - free_micro l"
  "debt_delta (expiry_values db l) = 0"
  "idempotency_key (expiry_values db l) =
     colon_join [''expiry'', lot_id l, dec (rows_of_kind db (lot_id l) Expiry + 1)]"
  by (simp_all add: expiry_values_def)

lemma expiry_can_apply:
  assumes "db_inv db" and "hygiene db" and "ledger_seq db < 10 ^ 17" and "l \<in> set (due_lots db a)"
  shows "can_apply (expiry_values db l) db"
proof -
  from assms(4) have l: "l \<in> set (credit_lots db)" "held l < remaining l" by (auto simp: due_lots_member)
  from assms(1) l have find: "find_lot db (lot_id l) = Some l" and bounds: "lot_bounds l"
    by (auto simp: db_inv_def find_lot_member balances_ok_def)
  have id: "uuid_ok (lot_id l)" using assms(2) l by (auto simp: hygiene_def amounts_ok_def)
  have "rows_of_kind db (lot_id l) Expiry + 1 < 10 ^ 18"
    using assms(1,3) rows_of_kind_le [of db "lot_id l" Expiry] by (simp add: db_inv_def)
  from counter_key_length [OF id this, of "''expiry''"]
  have "ledger_row_checks (expiry_values db l)"
    using l(2) by (simp add: ledger_row_checks_def free_micro_def)
  moreover have "\<not> key_taken db (lot_account l) (idempotency_key (expiry_values db l))"
    using next_key_free [OF _ id, of db "''expiry''" Expiry] assms(2) by (simp add: hygiene_def)
  moreover have "find_account db (lot_account l) \<noteq> None"
    using lot_has_account [OF assms(1) l(1)] l(2) bounds by (auto simp: lot_bounds_def)
  ultimately show ?thesis
    using find bounds l(2) by (auto simp: can_apply_def funding_kind_def lot_bounds_def free_micro_def)
qed

text \<open>What expiry leaves of a lot: nothing but what tasks hold, once its term has ended.\<close>

definition expired_lot :: "db \<Rightarrow> uuid \<Rightarrow> credit_lot \<Rightarrow> credit_lot" where
  "expired_lot db a l =
     (if lot_account l = a \<and> expires_at l \<le> db_now db then l\<lparr>remaining := held l\<rparr> else l)"

definition expiry_rows :: "db \<Rightarrow> uuid \<Rightarrow> credit_ledger_values list" where
  "expiry_rows db a = map (expiry_values db) (due_lots db a)"

lemma expiry_rows_distinct:
  assumes "keys_ok db" and "hygiene db"
  shows "distinct (map led_lot (expiry_rows db a))" "distinct (map idempotency_key (expiry_rows db a))"
proof -
  have ids: "distinct (map lot_id (due_lots db a))" using due_lots_distinct [OF assms(1)] .
  then show "distinct (map led_lot (expiry_rows db a))"
    by (auto simp: expiry_rows_def distinct_map inj_on_def)
  have "uuid_ok (lot_id l)" if "l \<in> set (due_lots db a)" for l
    using assms(2) that by (auto simp: hygiene_def amounts_ok_def due_lots_member)
  then have "inj_on (\<lambda>l. idempotency_key (expiry_values db l)) (set (due_lots db a))"
    using ids counter_key_inject [of _ _ "''expiry''"]
    by (auto simp: distinct_map inj_on_def)
  with ids show "distinct (map idempotency_key (expiry_rows db a))"
    by (auto simp: expiry_rows_def distinct_map inj_on_def simp del: expiry_values_simps)
qed

lemma due_lot_safe:
  assumes "db_inv db" and "hygiene db" and "l \<in> set (due_lots db a)"
  shows "safe_int (free_micro l)"
proof -
  have "lot_bounds l" "granted l \<le> MAX_SAFE"
    using assms by (auto simp: due_lots_member db_inv_def balances_ok_def hygiene_def amounts_ok_def)
  then show ?thesis using live_parts [of l] by (auto simp: safe_int_def)
qed

lemma read_back:
  assumes "\<And>r. r \<in> set rs \<Longrightarrow> safe_int (- lot_delta r)"
  shows "foldr_result (\<lambda>out r. rbind (exact (- lot_delta r)) (\<lambda>v. Inr (out @ [(the (led_lot r), v)]))) out rs
    = Inr (out @ map (\<lambda>(i, d). (the i, - d)) (map (\<lambda>r. (led_lot r, lot_delta r)) rs))"
  using assms by (induction rs arbitrary: out) auto

lemma expire_effect:
  assumes "db_inv db" and "hygiene db" and "ledger_seq db < 10 ^ 17"
  shows "expireDueLots a db =
      Inr (map (\<lambda>l. (lot_id l, free_micro l)) (due_lots db a), fold apply_row (expiry_rows db a) db)"
    and "db_inv (fold apply_row (expiry_rows db a) db)"
proof -
  let ?vs = "expiry_rows db a"
  have keys: "keys_ok db" using assms(1) by (simp add: db_inv_def)
  have "can_apply v db \<and> debt_delta v = 0 \<and> \<not> funding_kind (led_kind v)" if "v \<in> set ?vs" for v
    using that expiry_can_apply [OF assms, of _ a] by (auto simp: expiry_rows_def funding_kind_def)
  from insert_rows [where out = "[]", OF this expiry_rows_distinct [OF keys assms(2)]]
  obtain rows where rows: "foldr_result insert_one ([], db) ?vs = Inr (rows, fold apply_row ?vs db)"
    "map (\<lambda>r. (led_lot r, lot_delta r)) rows = map (\<lambda>v. (led_lot v, lot_delta v)) ?vs" by auto
  then show "db_inv (fold apply_row ?vs db)" using fold_apply_inv [OF assms(1)] by blast
  have "safe_int (- lot_delta r)" if "r \<in> set rows" for r
  proof -
    have "(led_lot r, lot_delta r) \<in> set (map (\<lambda>v. (led_lot v, lot_delta v)) ?vs)"
      unfolding rows(2) [symmetric] using that by auto
    then show ?thesis using due_lot_safe [OF assms(1,2)] by (auto simp: expiry_rows_def)
  qed
  note read_back [OF this, of rows "[]", unfolded rows(2)]
  then show "expireDueLots a db =
      Inr (map (\<lambda>l. (lot_id l, free_micro l)) (due_lots db a), fold apply_row ?vs db)"
    using rows(1) by (simp add: expireDueLots_def expiry_rows_def comp_def)
qed

lemma expired_lots:
  assumes "db_inv db" and "hygiene db"
  shows "find_lot (fold apply_row (expiry_rows db a) db) i = map_option (expired_lot db a) (find_lot db i)"
proof -
  have keys: "keys_ok db" using assms(1) by (simp add: db_inv_def)
  note fold = find_lot_fold [OF expiry_rows_distinct(1) [OF keys assms(2)], of a db i]
  show ?thesis
  proof (cases "find (\<lambda>v. led_lot v = Some i) (expiry_rows db a)")
    case None
    have "expired_lot db a l = l" if "find_lot db i = Some l" for l
    proof -
      from find_lot_Some [OF that] have l: "l \<in> set (credit_lots db)" "lot_id l = i" by auto
      with None have "l \<notin> set (due_lots db a)" by (auto simp: find_None_iff expiry_rows_def)
      moreover have "lot_bounds l" using assms(1) l by (simp add: db_inv_def balances_ok_def)
      ultimately show ?thesis using l by (auto simp: expired_lot_def due_lots_member lot_bounds_def)
    qed
    with fold None show ?thesis by (cases "find_lot db i") auto
  next
    case (Some v)
    then obtain l where l: "l \<in> set (due_lots db a)" "lot_id l = i" "v = expiry_values db l"
      by (auto simp: find_Some_iff expiry_rows_def) (metis nth_mem)
    then have "find_lot db i = Some l" "expired_lot db a l = move_remaining (- free_micro l) l"
      using find_lot_member [OF keys]
      by (auto simp: due_lots_member expired_lot_def move_remaining_def free_micro_def)
    with fold Some l show ?thesis by simp
  qed
qed


lemma fold_apply_now [simp]: "db_now (fold apply_row vs db) = db_now db"
  by (induction vs arbitrary: db) auto

lemma due_after_expiry:
  assumes "db_inv db" and "hygiene db" and "ledger_seq db < 10 ^ 17"
  shows "due_lots (fold apply_row (expiry_rows db a) db) a = []"
proof (rule ccontr)
  let ?db = "fold apply_row (expiry_rows db a) db"
  assume "due_lots ?db a \<noteq> []"
  then obtain l where l: "l \<in> set (due_lots ?db a)" by (meson list.set_sel(1))
  then have in_db: "l \<in> set (credit_lots ?db)" by (simp add: due_lots_member)
  have "find_lot ?db (lot_id l) = Some l"
    using expire_effect(2) [OF assms] in_db by (simp add: db_inv_def find_lot_member)
  then obtain k where "l = expired_lot db a k" using expired_lots [OF assms(1,2)] by auto
  with l show False by (auto simp: due_lots_member expired_lot_def split: if_splits)
qed

lemma expire_nothing: "due_lots db a = [] \<Longrightarrow> expireDueLots a db = Inr ([], db)"
  by (simp add: expireDueLots_def)

text \<open>C24: expiry never fails on a sound state. It takes from every lot of the account whose term has
  ended exactly what no task holds, reports those amounts in order of expiry, touches no other lot,
  keeps the invariant, and run again finds nothing left to expire.\<close>
theorem expireDueLots_takes_what_nobody_holds:
  assumes "db_inv db" and "hygiene db" and "ledger_seq db < 10 ^ 17"
  shows "\<exists>db'. expireDueLots a db = Inr (map (\<lambda>l. (lot_id l, free_micro l)) (due_lots db a), db') \<and>
    (\<forall>i. find_lot db' i = map_option (expired_lot db a) (find_lot db i)) \<and>
    db_inv db' \<and> expireDueLots a db' = Inr ([], db')"
  using expire_effect [OF assms] expired_lots [OF assms(1,2)] due_after_expiry [OF assms] expire_nothing
  by blast

theorem expireDueLots_takes_what_nobody_holds_witness:
  "\<exists>db'. expireDueLots example_account (example_db 0 2000) = Inr ([(example_lot, 1000000)], db') \<and>
    map_option remaining (find_lot db' example_lot) = Some 0 \<and>
    map_option remaining (find_lot db' example_extra) = Some 2000000"
proof -
  let ?db = "example_db 0 2000"
  have due: "due_lots ?db example_account = [example_lot_row example_lot Monthly (Some ''w1'') ''grant:1'' 1000000 0 1000]"
    by (simp add: due_lots_def example_simps)
  have lots: "find_lot ?db example_lot = Some (example_lot_row example_lot Monthly (Some ''w1'') ''grant:1'' 1000000 0 1000)"
    "find_lot ?db example_extra = Some (example_lot_row example_extra Adjustment None ''grant:2'' 2000000 0 5000)"
    by (simp_all add: find_lot_def example_simps)
  obtain db' where "expireDueLots example_account ?db =
      Inr (map (\<lambda>l. (lot_id l, free_micro l)) (due_lots ?db example_account), db')"
    "\<forall>i. find_lot db' i = map_option (expired_lot ?db example_account) (find_lot ?db i)"
    using expireDueLots_takes_what_nobody_holds [OF example_inv example_hygiene example_seq] by blast
  with due lots show ?thesis
    by (simp add: expired_lot_def) (simp add: example_lot_row_def free_micro_def example_db_def)
qed

subsection \<open>Debt repaid from free credit\<close>

definition lot_free_of :: "instant \<Rightarrow> uuid \<Rightarrow> credit_lot \<Rightarrow> int" where
  "lot_free_of t a l = (if lot_account l = a \<and> live_lot t l then free_micro l else 0)"

lemma free_credit_alt: "free_credit db a = sum_by (lot_free_of (db_now db) a) (credit_lots db)"
  unfolding free_credit_def lot_free_of_def by (rule sum_by_filter_if)

lemma free_credit_apply:
  assumes "keys_ok db" and "led_lot v = Some i" and "find_lot db i = Some l"
  shows "free_credit (apply_row v db) b =
    free_credit db b + (if lot_account l = b \<and> live_lot (db_now db) l then lot_delta v else 0)"
proof -
  have "sum_by f (credit_lots (apply_row v db)) =
      sum_by f (credit_lots db) - f l + f (move_remaining (lot_delta v) l)" for f
    using lot_move.sum [of "credit_lots db" i l f "lot_delta v"] assms
    by (simp add: apply_row_def keys_ok_def find_lot_def)
  then show ?thesis by (simp add: free_credit_alt) (simp add: lot_free_of_def free_micro_def)
qed

lemma repay_row:
  "creditLedgerRowFor \<lparr>entry_account = a, entry_key = k, entry_actor = None, entry_session = None,
      entry_movement = RepayDebt i x None\<rparr> = Inr v \<longleftrightarrow>
   1 \<le> length k \<and> length k \<le> 200 \<and> 0 < x \<and> safe_int x \<and>
   v = \<lparr>led_account = a, led_kind = DebtRepayment, led_lot = Some i, lot_delta = - x, debt_delta = - x,
        idempotency_key = k, led_session = None, led_reservation = None, led_card = None,
        led_model = None, led_reason = None, led_actor = System\<rparr>"
  by (auto simp: creditLedgerRowFor_def result_simps common_values_def)

definition repay_values :: "uuid \<Rightarrow> string \<Rightarrow> uuid \<Rightarrow> int \<Rightarrow> credit_ledger_values" where
  "repay_values a k i x =
     \<lparr>led_account = a, led_kind = DebtRepayment, led_lot = Some i, lot_delta = - x, debt_delta = - x,
      idempotency_key = k, led_session = None, led_reservation = None, led_card = None,
      led_model = None, led_reason = None, led_actor = System\<rparr>"

lemma repay_values_simps [simp]:
  "led_account (repay_values a k i x) = a" "led_kind (repay_values a k i x) = DebtRepayment"
  "led_lot (repay_values a k i x) = Some i" "lot_delta (repay_values a k i x) = - x"
  "debt_delta (repay_values a k i x) = - x" "idempotency_key (repay_values a k i x) = k"
  by (simp_all add: repay_values_def)

text \<open>What the loop needs of each lot it has still to visit.\<close>

definition repayable :: "db \<Rightarrow> uuid \<Rightarrow> uuid \<times> int \<times> nat \<Rightarrow> bool" where
  "repayable db a p \<longleftrightarrow>
     (case p of (i, f, n) \<Rightarrow> uuid_ok i \<and> 0 < f \<and> safe_int f \<and> n < 10 ^ 17 \<and>
        rows_of_kind db i DebtRepayment = n \<and>
        (\<exists>l. find_lot db i = Some l \<and> lot_account l = a \<and> live_lot (db_now db) l \<and> free_micro l = f))"

lemma repay_step:
  assumes inv: "db_inv db" and hyg: "hygiene db" and lot: "repayable db a (i, f, n)"
    and owed: "account_debt db a = owed" "0 < owed" and x: "x = min f owed"
  defines "v \<equiv> repay_values a (colon_join [''debt_repayment'', i, dec (n + 1)]) i x"
  shows "append_ledger \<lparr>entry_account = a, entry_key = colon_join [''debt_repayment'', i, dec (n + 1)],
      entry_actor = None, entry_session = None, entry_movement = RepayDebt i x None\<rparr> db
      = Inr ((True, new_ledger_row v db), apply_row v db)" (is ?app)
    and "db_inv (apply_row v db)" "hygiene (apply_row v db)"
    and "account_debt (apply_row v db) a = owed - x"
    and "free_credit (apply_row v db) a = free_credit db a - x"
proof -
  from lot obtain l where l: "find_lot db i = Some l" "lot_account l = a" "live_lot (db_now db) l"
    "free_micro l = f" and i: "uuid_ok i" "0 < f" "safe_int f" "n < 10 ^ 17"
    and n: "rows_of_kind db i DebtRepayment = n"
    by (auto simp: repayable_def)
  have xb: "0 < x" "x \<le> f" "x \<le> owed" "safe_int x" using i owed x by (auto simp: safe_int_def)
  have key: "1 \<le> length (colon_join [''debt_repayment'', i, dec (n + 1)])"
    "length (colon_join [''debt_repayment'', i, dec (n + 1)]) \<le> 200"
    using counter_key_length [OF i(1), of "n + 1" "''debt_repayment''"] i(4) by auto
  have free_key: "\<not> key_taken db a (colon_join [''debt_repayment'', i, dec (n + 1)])"
    using next_key_free [OF _ i(1), of db "''debt_repayment''" DebtRepayment] hyg n by (simp add: hygiene_def)
  obtain c where c: "find_account db a = Some c" "debt_micro c = owed"
    using owed by (auto simp: account_debt_def split: option.splits)
  have bounds: "lot_bounds l"
    using inv find_lot_Some [OF l(1)] by (auto simp: db_inv_def balances_ok_def)
  have row: "creditLedgerRowFor \<lparr>entry_account = a, entry_key = colon_join [''debt_repayment'', i, dec (n + 1)],
      entry_actor = None, entry_session = None, entry_movement = RepayDebt i x None\<rparr> = Inr v"
    unfolding repay_row v_def repay_values_def using key xb by simp
  have ap: "can_apply v db"
    using row_for_facts(1) [OF row] free_key c l bounds xb
    by (auto simp: can_apply_def v_def lot_bounds_def free_micro_def funding_kind_def)
  show ?app using append_applies [OF row ap] .
  show "db_inv (apply_row v db)" using apply_db_inv [OF inv ap] .
  have "counter_keys (apply_row v db) ''expiry'' Expiry"
    using hyg other_family [of "[''debt_repayment'', i, dec (n + 1)]" "''expiry''"] i(1)
    by (intro counter_keys_apply) (auto simp: hygiene_def v_def uuid_ok_def)
  moreover have "counter_keys (apply_row v db) ''debt_repayment'' DebtRepayment"
  proof (rule counter_keys_apply)
    show "counter_keys db ''debt_repayment'' DebtRepayment" using hyg by (simp add: hygiene_def)
    fix j m assume "uuid_ok j" "idempotency_key v = colon_join [''debt_repayment'', j, dec m]"
    then have "i = j \<and> n + 1 = m"
      using counter_key_inject [OF i(1), of j "''debt_repayment''" "n + 1" m] by (simp add: v_def)
    then show "m \<le> rows_of_kind (apply_row v db) j DebtRepayment" using n by (auto simp: v_def)
  qed
  ultimately show "hygiene (apply_row v db)" using hyg by (simp add: hygiene_def)
  show "account_debt (apply_row v db) a = owed - x" using c by (simp add: account_debt_def v_def)
  have "keys_ok db" using inv by (simp add: db_inv_def)
  from free_credit_apply [OF this _ l(1), of v a] l
  show "free_credit (apply_row v db) a = free_credit db a - x" by (simp add: v_def)
qed


text \<open>
  A stretch of ledger movements: the state after applying rows that all satisfy \<open>P\<close>. Nothing but
  the ledger, the lots' balances and the accounts' debts can differ.
\<close>

definition ledger_moves :: "(credit_ledger_values \<Rightarrow> bool) \<Rightarrow> db \<Rightarrow> db \<Rightarrow> bool" where
  "ledger_moves P db db' \<longleftrightarrow> (\<exists>vs. db' = fold apply_row vs db \<and> (\<forall>v\<in>set vs. P v))"

lemma ledger_moves_refl [simp]: "ledger_moves P db db"
  unfolding ledger_moves_def by (intro exI [of _ "[]"]) simp

lemma ledger_moves_step: "P v \<Longrightarrow> ledger_moves P (apply_row v db) db' \<Longrightarrow> ledger_moves P db db'"
  unfolding ledger_moves_def by (metis fold_simps(2) set_ConsD)

lemma ledger_moves_one: "P v \<Longrightarrow> ledger_moves P db (apply_row v db)"
  by (rule ledger_moves_step) auto

lemma ledger_moves_trans: "ledger_moves P db db' \<Longrightarrow> ledger_moves P db' db'' \<Longrightarrow> ledger_moves P db db''"
  unfolding ledger_moves_def by (metis Un_iff comp_apply fold_append set_append)

lemma ledger_moves_mono: "ledger_moves P db db' \<Longrightarrow> (\<And>v. P v \<Longrightarrow> Q v) \<Longrightarrow> ledger_moves Q db db'"
  unfolding ledger_moves_def by blast

lemma ledger_moves_frame:
  assumes "ledger_moves P db db'"
  shows "db_now db' = db_now db" "credit_reservations db' = credit_reservations db"
    "credit_reservation_holds db' = credit_reservation_holds db"
    "credit_model_calls db' = credit_model_calls db" "credit_clawbacks db' = credit_clawbacks db"
    "credit_windows db' = credit_windows db"
    "credit_window_level_changes db' = credit_window_level_changes db"
    "credit_rate_cards db' = credit_rate_cards db"
    "credit_rate_card_models db' = credit_rate_card_models db"
proof -
  from assms obtain vs where "db' = fold apply_row vs db" by (auto simp: ledger_moves_def)
  moreover have "db_now (fold apply_row vs db) = db_now db \<and>
    credit_reservations (fold apply_row vs db) = credit_reservations db \<and>
    credit_reservation_holds (fold apply_row vs db) = credit_reservation_holds db \<and>
    credit_model_calls (fold apply_row vs db) = credit_model_calls db \<and>
    credit_clawbacks (fold apply_row vs db) = credit_clawbacks db \<and>
    credit_windows (fold apply_row vs db) = credit_windows db \<and>
    credit_window_level_changes (fold apply_row vs db) = credit_window_level_changes db \<and>
    credit_rate_cards (fold apply_row vs db) = credit_rate_cards db \<and>
    credit_rate_card_models (fold apply_row vs db) = credit_rate_card_models db"
    by (induction vs arbitrary: db) auto
  ultimately show "db_now db' = db_now db" "credit_reservations db' = credit_reservations db"
    "credit_reservation_holds db' = credit_reservation_holds db"
    "credit_model_calls db' = credit_model_calls db" "credit_clawbacks db' = credit_clawbacks db"
    "credit_windows db' = credit_windows db"
    "credit_window_level_changes db' = credit_window_level_changes db"
    "credit_rate_cards db' = credit_rate_cards db"
    "credit_rate_card_models db' = credit_rate_card_models db" by auto
qed

lemma ledger_moves_rows:
  assumes "ledger_moves P db db'"
  obtains rows where "credit_ledger db' = credit_ledger db @ rows"
    and "\<And>r. r \<in> set rows \<Longrightarrow> \<exists>v d. P v \<and> r = new_ledger_row v d"
proof -
  from assms obtain vs where "db' = fold apply_row vs db" "\<forall>v\<in>set vs. P v" by (auto simp: ledger_moves_def)
  moreover have "\<exists>rows. credit_ledger (fold apply_row vs db) = credit_ledger db @ rows \<and>
      (\<forall>r\<in>set rows. \<exists>v\<in>set vs. \<exists>d. r = new_ledger_row v d)"
  proof (induction vs arbitrary: db)
    case (Cons v vs)
    then obtain rows where "credit_ledger (fold apply_row vs (apply_row v db)) = credit_ledger (apply_row v db) @ rows"
      "\<forall>r\<in>set rows. \<exists>v\<in>set vs. \<exists>d. r = new_ledger_row v d" by blast
    then show ?case by (intro exI [of _ "new_ledger_row v db # rows"]) auto
  qed simp
  ultimately show thesis using that by blast
qed

text \<open>A movement changes neither what a lot holds nor any of its terms.\<close>

lemma ledger_moves_lot:
  assumes "ledger_moves P db db'"
  shows "find_lot db' i = None \<longleftrightarrow> find_lot db i = None"
    and "find_lot db' i = Some l' \<Longrightarrow> \<exists>l d. find_lot db i = Some l \<and> l' = move_remaining d l"
proof -
  from assms obtain vs where vs: "db' = fold apply_row vs db" by (auto simp: ledger_moves_def)
  have "\<exists>d. find_lot (fold apply_row vs db) i = map_option (move_remaining d) (find_lot db i)"
  proof (induction vs arbitrary: db)
    case Nil
    show ?case by (intro exI [of _ 0]) (cases "find_lot db i"; simp)
  next
    case (Cons v vs)
    then obtain d where d: "find_lot (fold apply_row vs (apply_row v db)) i =
        map_option (move_remaining d) (find_lot (apply_row v db) i)" by blast
    have "move_remaining d (move_remaining e l) = move_remaining (d + e) l" for e l
      by (simp add: move_remaining_def)
    with d show ?case
      by (cases "led_lot v = Some i") (auto simp: option.map_comp comp_def)
  qed
  with vs show "find_lot db' i = None \<longleftrightarrow> find_lot db i = None"
    and "find_lot db' i = Some l' \<Longrightarrow> \<exists>l d. find_lot db i = Some l \<and> l' = move_remaining d l"
    by (cases "find_lot db i"; auto)+
qed

definition repayment_of :: "uuid \<Rightarrow> credit_ledger_values \<Rightarrow> bool" where
  "repayment_of a v \<longleftrightarrow> led_account v = a \<and> led_kind v = DebtRepayment \<and> led_reservation v = None \<and>
     (\<exists>i n. uuid_ok i \<and> idempotency_key v = colon_join [''debt_repayment'', i, dec n])"

lemma repayable_apply:
  assumes "repayable db a (j, f, n)" and "led_lot v \<noteq> Some j"
  shows "repayable (apply_row v db) a (j, f, n)"
  using assms by (auto simp: repayable_def)

lemma repay_loop_effect:
  assumes "db_inv db" and "hygiene db" and "account_debt db a = owed" and "0 \<le> owed"
    and "\<And>p. p \<in> set ps \<Longrightarrow> repayable db a p" and "distinct (map fst ps)"
  shows "\<exists>db'. repay_loop a owed ps db = Inr (draw owed (map (\<lambda>(i, f, n). (i, f)) ps), db') \<and>
    db_inv db' \<and> hygiene db' \<and> ledger_moves (repayment_of a) db db' \<and>
    account_debt db' a = owed - sum_by snd (draw owed (map (\<lambda>(i, f, n). (i, f)) ps)) \<and>
    free_credit db' a = free_credit db a - sum_by snd (draw owed (map (\<lambda>(i, f, n). (i, f)) ps))"
  using assms
proof (induction ps arbitrary: db owed)
  case Nil
  then show ?case by simp
next
  case (Cons p ps)
  obtain i f n where p: "p = (i, f, n)" by (cases p)
  show ?case
  proof (cases "owed \<le> 0")
    case True
    with Cons.prems p show ?thesis by simp
  next
    case False
    let ?x = "min f owed"
    let ?v = "repay_values a (colon_join [''debt_repayment'', i, dec (n + 1)]) i ?x"
    have lot: "repayable db a (i, f, n)" using Cons.prems(5) p by simp
    note step = repay_step [OF Cons.prems(1,2) lot Cons.prems(3) _ refl]
    have pos: "0 < owed" using False by simp
    have "repayable (apply_row ?v db) a q" if q: "q \<in> set ps" for q
    proof -
      obtain j g m where q': "q = (j, g, m)" using prod_cases3 by blast
      have "repayable db a q" using Cons.prems(5) q by simp
      moreover have "j \<noteq> i" using Cons.prems(6) p q q' by force
      ultimately show ?thesis using q' by (auto intro!: repayable_apply)
    qed
    then obtain db' where db': "repay_loop a (owed - ?x) ps (apply_row ?v db) =
          Inr (draw (owed - ?x) (map (\<lambda>(i, f, n). (i, f)) ps), db')"
        "db_inv db'" "hygiene db'" "ledger_moves (repayment_of a) (apply_row ?v db) db'"
        "account_debt db' a = owed - ?x - sum_by snd (draw (owed - ?x) (map (\<lambda>(i, f, n). (i, f)) ps))"
        "free_credit db' a = free_credit (apply_row ?v db) a -
           sum_by snd (draw (owed - ?x) (map (\<lambda>(i, f, n). (i, f)) ps))"
      using Cons.IH [OF step(2-4) [OF pos]] Cons.prems(6) by auto
    have "ledger_moves (repayment_of a) db db'"
    proof (rule ledger_moves_step [OF _ db'(4)])
      have "uuid_ok i" using lot by (simp add: repayable_def)
      then show "repayment_of a ?v" by (auto simp: repayment_of_def repay_values_def)
    qed
    moreover have "safe_int f" using lot by (simp add: repayable_def)
    ultimately show ?thesis
      using False db' step(1,5) [OF pos] p by (simp add: Let_def)
  qed
qed


lemma spendable_member:
  "l \<in> set (spendable_lots db a) \<longleftrightarrow>
     l \<in> set (credit_lots db) \<and> lot_account l = a \<and> live_lot (db_now db) l \<and> held l < remaining l"
  by (auto simp: spendable_lots_def)

lemma spendable_distinct: "keys_ok db \<Longrightarrow> distinct (map lot_id (spendable_lots db a))"
  by (auto simp: spendable_lots_def keys_ok_def distinct_map intro: inj_on_subset)

lemma spendable_sum:
  assumes "balances_ok db"
  shows "sum_by free_micro (spendable_lots db a) = free_credit db a"
proof -
  let ?live = "\<lambda>l. lot_account l = a \<and> live_lot (db_now db) l"
  have "sum_by free_micro (spendable_lots db a) =
      sum_by free_micro (filter (\<lambda>l. ?live l \<and> held l < remaining l) (credit_lots db))"
    unfolding spendable_lots_def by (rule sum_by_mset) (simp add: conj_assoc)
  also have "\<dots> = sum_by (lot_free_of (db_now db) a) (credit_lots db)"
    unfolding sum_by_filter_if
    by (rule sum_by_cong) (use assms in \<open>auto simp: balances_ok_def lot_bounds_def lot_free_of_def free_micro_def\<close>)
  finally show ?thesis by (simp add: free_credit_alt)
qed

lemma spendableMicro_sum:
  assumes "balances_ok db"
  shows "spendableMicro a db = exact (free_credit db a)"
proof -
  have "sum_by free_micro (filter (\<lambda>l. lot_account l = a \<and> live_lot (db_now db) l \<and> remaining l > held l) (credit_lots db))
      = sum_by free_micro (spendable_lots db a)"
    unfolding spendable_lots_def by (rule sum_by_mset) simp
  with spendable_sum [OF assms] show ?thesis by (simp add: spendableMicro_def)
qed

lemma settle_debt_effect:
  assumes "db_inv db" and "hygiene db" and "ledger_seq db < 10 ^ 17" and "account_debt db a \<le> MAX_SAFE"
  defines "paid \<equiv> draw (account_debt db a) (map (\<lambda>l. (lot_id l, free_micro l)) (spendable_lots db a))"
  shows "\<exists>db'. settleDebtFromFree a db = Inr (paid, db') \<and> db_inv db' \<and> hygiene db' \<and>
    ledger_moves (repayment_of a) db db' \<and> account_debt db' a = account_debt db a - sum_by snd paid \<and>
    free_credit db' a = free_credit db a - sum_by snd paid \<and>
    sum_by snd paid = min (account_debt db a) (free_credit db a)"
proof -
  let ?ps = "map (\<lambda>l. (lot_id l, free_micro l, rows_of_kind db (lot_id l) DebtRepayment)) (spendable_lots db a)"
  have inv: "keys_ok db" "balances_ok db" using assms(1) by (simp_all add: db_inv_def)
  have debt: "0 \<le> account_debt db a"
    using inv(2) by (auto simp: account_debt_def balances_ok_def split: option.splits dest: find_account_Some)
  have purses: "map (\<lambda>(i, f, n). (i, f)) ?ps = map (\<lambda>l. (lot_id l, free_micro l)) (spendable_lots db a)"
    by simp
  have "repayable db a p" if "p \<in> set ?ps" for p
  proof -
    from that obtain l where l: "l \<in> set (spendable_lots db a)"
      and p: "p = (lot_id l, free_micro l, rows_of_kind db (lot_id l) DebtRepayment)" by auto
    have "lot_bounds l" "uuid_ok (lot_id l)" "granted l \<le> MAX_SAFE"
      using l inv(2) assms(2) by (auto simp: spendable_member balances_ok_def hygiene_def amounts_ok_def)
    moreover have "rows_of_kind db (lot_id l) DebtRepayment < 10 ^ 17"
      using rows_of_kind_le [OF inv(1)] assms(3) by (rule le_less_trans)
    ultimately show ?thesis
      using l find_lot_member [OF inv(1), of l]
      by (auto simp: p repayable_def spendable_member free_micro_def safe_int_def lot_bounds_def)
  qed
  moreover have "distinct (map fst ?ps)" using spendable_distinct [OF inv(1), of a] by (simp add: comp_def)
  ultimately obtain db' where db': "repay_loop a (account_debt db a) ?ps db = Inr (paid, db')"
      "db_inv db'" "hygiene db'" "ledger_moves (repayment_of a) db db'"
      "account_debt db' a = account_debt db a - sum_by snd paid"
      "free_credit db' a = free_credit db a - sum_by snd paid"
    using repay_loop_effect [OF assms(1,2) refl debt, of ?ps] unfolding paid_def purses by blast
  have "sum_by snd paid = min (account_debt db a) (sum_by snd (map (\<lambda>l. (lot_id l, free_micro l)) (spendable_lots db a)))"
    unfolding paid_def using debt by (intro draw_sum) (auto simp: spendable_member free_micro_def)
  then have "sum_by snd paid = min (account_debt db a) (free_credit db a)"
    by (simp add: sum_by_map spendable_sum [OF inv(2)])
  moreover have "paid = []" if "account_debt db a \<le> 0" using that by (simp add: paid_def draw_idle)
  ultimately show ?thesis
    using db' debt assms(1,2,4) by (cases "account_debt db a \<le> 0") (auto simp: settleDebtFromFree_def safe_int_def)
qed

lemma free_credit_nonneg: "balances_ok db \<Longrightarrow> 0 \<le> free_credit db a"
  unfolding free_credit_def
  by (rule sum_by_nonneg) (auto simp: balances_ok_def lot_bounds_def free_micro_def)

text \<open>C10: repaying debt from free credit never fails on a sound state. It pays exactly the smaller of
  the debt and the free credit, drawing the spendable lots in spend order, each emptied before the
  next is touched; afterwards the account has no debt or no spendable credit, so the check that
  refuses to commit both at once passes, and the invariant holds.\<close>
theorem settleDebtFromFree_leaves_debt_or_credit_not_both:
  assumes "db_inv db" and "hygiene db" and "ledger_seq db < 10 ^ 17" and "account_debt db a \<le> MAX_SAFE"
  shows "\<exists>paid db'. settleDebtFromFree a db = Inr (paid, db') \<and>
    paid = draw (account_debt db a) (map (\<lambda>l. (lot_id l, free_micro l)) (spendable_lots db a)) \<and>
    sum_by snd paid = min (account_debt db a) (free_credit db a) \<and>
    account_debt db' a = account_debt db a - sum_by snd paid \<and>
    free_credit db' a = free_credit db a - sum_by snd paid \<and>
    credit_check_debt_vs_free db' a \<and> db_inv db'"
proof -
  obtain paid db' where db': "settleDebtFromFree a db = Inr (paid, db')" "db_inv db'"
      "paid = draw (account_debt db a) (map (\<lambda>l. (lot_id l, free_micro l)) (spendable_lots db a))"
      "account_debt db' a = account_debt db a - sum_by snd paid"
      "free_credit db' a = free_credit db a - sum_by snd paid"
      "sum_by snd paid = min (account_debt db a) (free_credit db a)"
    using settle_debt_effect [OF assms] by blast
  then have "credit_check_debt_vs_free db' a" by (auto simp: credit_check_debt_vs_free_def min_def)
  with db' show ?thesis by blast
qed


theorem settleDebtFromFree_leaves_debt_or_credit_not_both_witness:
  "\<exists>db'. settleDebtFromFree example_account (example_db 1000300 0) =
      Inr ([(example_lot, 1000000), (example_extra, 300)], db') \<and> account_debt db' example_account = 0"
proof -
  let ?db = "example_db 1000300 0"
  have debt: "account_debt ?db example_account = 1000300"
    by (simp add: account_debt_def find_account_def example_simps)
  have "spendable_lots ?db example_account =
      [example_lot_row example_lot Monthly (Some ''w1'') ''grant:1'' 1000000 0 1000,
       example_lot_row example_extra Adjustment None ''grant:2'' 2000000 0 5000]"
    by (simp add: spendable_lots_def example_simps live_lot_def spend_key_def)
  then have purses: "map (\<lambda>l. (lot_id l, free_micro l)) (spendable_lots ?db example_account) =
      [(example_lot, 1000000), (example_extra, 2000000)]"
    by (simp add: example_lot_row_def free_micro_def)
  have "account_debt ?db example_account \<le> MAX_SAFE" by (simp add: debt MAX_SAFE_def)
  from settleDebtFromFree_leaves_debt_or_credit_not_both [OF example_inv example_hygiene example_seq this]
  show ?thesis by (auto simp: debt purses)
qed

end
