(* ===== verification/Ledger_Pages.thy ===== *)
theory Ledger_Pages
  imports Ledger_Debt
begin

section \<open>Reading the ledger page by page\<close>

text \<open>
  Keyset pagination, as both ledger reads do it: newest first, at most \<open>limit\<close> entries, and the id of
  the last entry as the cursor of the next page. The locale states what a paged read promises and
  proves that following the cursors visits every entry once, in order; both reads of the repository
  are interpretations of it. The customer's read groups the charges of a task into one entry, and
  its running balance is shown to be the same whichever page an entry is read on.
\<close>

subsection \<open>Cursors\<close>

lemma digit_of: "d < 10 \<Longrightarrow> of_char (digit d) = 48 + d"
  by (simp add: digit_def of_char_of take_bit_eq_mod)

lemma decimal_digit_digit: "d < 10 \<Longrightarrow> decimal_digit (digit d)"
  by (simp add: decimal_digit_def digit_of)

lemma parse_dec: "parse_nat (dec n) = n"
proof (induction n rule: dec.induct)
  case (1 n)
  show ?case
  proof (cases "n < 10")
    case True
    then show ?thesis by (simp add: dec.simps [of n] parse_nat_def digit_of)
  next
    case False
    with 1 have "parse_nat (dec (n div 10)) = n div 10" by simp
    with False show ?thesis by (simp add: dec.simps [of n] parse_nat_def digit_of)
  qed
qed

lemma dec_digits: "list_all decimal_digit (dec n)"
proof (induction n rule: dec.induct)
  case (1 n)
  then show ?case by (cases "n < 10") (auto simp: dec.simps [of n] decimal_digit_digit)
qed

lemma dec_head: "0 < n \<Longrightarrow> hd (dec n) \<noteq> CHR ''0''"
proof (induction n rule: dec.induct)
  case (1 n)
  show ?case
  proof (cases "n < 10")
    case True
    then have "digit n \<noteq> digit 0" using "1.prems" digit_inject [of n 0] by auto
    moreover have "digit 0 = CHR ''0''" by (simp add: digit_def char_of_eq_iff take_bit_eq_mod)
    ultimately show ?thesis using True by (simp add: dec.simps [of n])
  next
    case False
    with 1 show ?thesis by (simp add: dec.simps [of n])
  qed
qed

lemma valid_cursor_dec:
  assumes "0 < n" and "n < 10 ^ 18"
  shows "valid_cursor (dec n)"
proof -
  obtain c cs where d: "dec n = c # cs" by (cases "dec n") auto
  then show ?thesis
    using dec_digits [of n] dec_head [OF assms(1)] length_dec [OF assms(2)] by (simp add: valid_cursor_def)
qed

subsection \<open>The contract of a paged read\<close>

definition page_slice :: "('e \<Rightarrow> nat) \<Rightarrow> nat \<Rightarrow> 'e list \<Rightarrow> 'e list \<times> string option" where
  "page_slice ident n xs =
     (take n xs, if length xs > n then Some (dec (ident (last (take n xs)))) else None)"

text \<open>A reader that follows the cursors, at most \<open>n\<close> pages.\<close>

fun follow :: "(string option \<Rightarrow> ('e list \<times> string option) result) \<Rightarrow> nat \<Rightarrow> string option
    \<Rightarrow> 'e list result" where
  "follow page 0 c = Inr []"
| "follow page (Suc n) c =
     rbind (page c) (\<lambda>(es, nx). case nx of None \<Rightarrow> Inr es
       | Some c' \<Rightarrow> rbind (follow page n (Some c')) (\<lambda>rest. Inr (es @ rest)))"

locale keyset_pages =
  fixes ok :: "'q \<Rightarrow> bool" and size :: "'q \<Rightarrow> nat" and ident :: "'e \<Rightarrow> nat" and items :: "'q \<Rightarrow> 'e list"
    and page :: "'q \<Rightarrow> string option \<Rightarrow> ('e list \<times> string option) result"
  assumes newest: "ok q \<Longrightarrow> sorted_wrt (>) (map ident (items q))"
    and ids: "ok q \<Longrightarrow> e \<in> set (items q) \<Longrightarrow> 0 < ident e \<and> ident e < 10 ^ 18"
    and size: "ok q \<Longrightarrow> 0 < size q"
    and first: "ok q \<Longrightarrow> page q None = Inr (page_slice ident (size q) (items q))"
    and later: "ok q \<Longrightarrow> 0 < i \<Longrightarrow> i < 10 ^ 18 \<Longrightarrow>
      page q (Some (dec i)) = Inr (page_slice ident (size q) (filter (\<lambda>e. ident e < i) (items q)))"
begin

lemma below_last:
  assumes "sorted_wrt (>) (map ident (xs @ ys))" and "xs \<noteq> []"
  shows "filter (\<lambda>e. ident e < ident (last xs)) (xs @ ys) = ys"
proof -
  have "\<not> ident e < ident (last xs)" if "e \<in> set xs" for e
  proof -
    from assms(1) have "sorted_wrt (>) (map ident xs)" by (simp add: sorted_wrt_append)
    moreover from that obtain k where k: "k < length xs" "e = xs ! k" by (auto simp: in_set_conv_nth)
    moreover from k(1) have "k < length xs - 1 \<or> k = length xs - 1" by linarith
    ultimately have "ident (last xs) \<le> ident e"
      using assms(2) sorted_wrt_nth_less [of "(>)" "map ident xs" k "length xs - 1"]
      by (auto simp: last_conv_nth)
    then show ?thesis by simp
  qed
  moreover have "ident e < ident (last xs)" if "e \<in> set ys" for e
    using assms that by (auto simp: sorted_wrt_append)
  ultimately show ?thesis by (simp add: filter_False filter_True)
qed

lemma follow_from:
  assumes "ok q" and "items q = done @ todo" and "length todo < n"
    and "page q c = Inr (page_slice ident (size q) todo)"
  shows "follow (page q) n c = Inr todo"
  using assms(2-4)
proof (induction n arbitrary: c "done" todo)
  case (Suc n)
  show ?case
  proof (cases "length todo > size q")
    case False
    then show ?thesis using Suc.prems(3) by (simp add: page_slice_def)
  next
    case True
    let ?es = "take (size q) todo" and ?rest = "drop (size q) todo"
    have es: "?es \<noteq> []" using True size [OF assms(1)] by auto
    have split: "items q = (done @ ?es) @ ?rest" using Suc.prems(1) by simp
    have "last ?es \<in> set (items q)"
      using es by (metis Suc.prems(1) UnCI in_set_takeD last_in_set set_append)
    moreover have "last (done @ ?es) = last ?es" using es by simp
    ultimately have "page q (Some (dec (ident (last ?es)))) = Inr (page_slice ident (size q) ?rest)"
      using below_last [of "done @ ?es" ?rest] newest [OF assms(1)] later [OF assms(1)] ids [OF assms(1)] es
      by (metis split append_is_Nil_conv)
    moreover have "length ?rest < n" using Suc.prems(2) size [OF assms(1)] True by simp
    ultimately have "follow (page q) n (Some (dec (ident (last ?es)))) = Inr ?rest"
      using Suc.IH [OF split] by blast
    with Suc.prems(3) True show ?thesis by (simp add: page_slice_def)
  qed
qed simp

lemma follow_all: "ok q \<Longrightarrow> length (items q) < n \<Longrightarrow> follow (page q) n None = Inr (items q)"
  by (rule follow_from [of q "[]"]) (auto simp: first)

end


subsection \<open>The plain page\<close>

definition deltas_safe :: "db \<Rightarrow> uuid \<Rightarrow> bool" where
  "deltas_safe db a \<longleftrightarrow>
     (\<forall>r\<in>set (credit_ledger db). led_account r = a \<longrightarrow> safe_int (lot_delta r) \<and> safe_int (debt_delta r))"

definition page_query_ok :: "db \<times> uuid \<times> int \<Rightarrow> bool" where
  "page_query_ok q \<longleftrightarrow>
     (case q of (db, a, limit) \<Rightarrow> db_inv db \<and> ledger_seq db < 10 ^ 17 \<and> deltas_safe db a \<and>
        1 \<le> limit \<and> limit \<le> CREDIT_LEDGER_PAGE_MAX)"

definition account_rows :: "db \<Rightarrow> uuid \<Rightarrow> credit_ledger_row list" where
  "account_rows db a = rev (filter (\<lambda>r. led_account r = a) (credit_ledger db))"

lemma newest_first_sorted: "sorted_wrt (<) (map led_id rs) \<Longrightarrow> newest_first rs = rev rs"
proof -
  assume "sorted_wrt (<) (map led_id rs)"
  then have "sorted (map led_id rs)" by (rule strict_sorted_imp_sorted)
  then show ?thesis by (simp add: newest_first_def sort_key_id_if_sorted)
qed

lemma sorted_wrt_filter_map: "sorted_wrt R (map f xs) \<Longrightarrow> sorted_wrt R (map f (filter P xs))"
  by (induction xs) auto

lemma ledgerPage_rows:
  assumes "page_query_ok (db, a, limit)" and "c = None \<or> (\<exists>i. c = Some (dec i) \<and> 0 < i \<and> i < 10 ^ 18)"
  defines "rows \<equiv> filter (\<lambda>r. before_cursor c (led_id r)) (account_rows db a)"
  shows "map_sum id (\<lambda>p. (entries p, nextCursor p)) (ledgerPage a limit c db) =
    Inr (page_slice led_id (nat limit) rows)"
proof -
  let ?sel = "filter (\<lambda>r. led_account r = a \<and> before_cursor c (led_id r)) (credit_ledger db)"
  have ok: "db_inv db" "deltas_safe db a" "1 \<le> limit" "limit \<le> CREDIT_LEDGER_PAGE_MAX"
    using assms(1) by (auto simp: page_query_ok_def)
  have checks: "page_checks limit c = Inr ()"
    using ok assms(2) by (auto simp: page_checks_def valid_cursor_dec)
  have "sorted_wrt (<) (map led_id ?sel)"
    using ok(1) by (intro sorted_wrt_filter_map) (simp add: db_inv_def keys_ok_def)
  then have sel: "newest_first ?sel = rows"
    by (simp add: newest_first_sorted rows_def account_rows_def rev_filter conj_commute)
  have "all_results (map toLedgerRecord (take (nat limit) rows)) = Inr (map id (take (nat limit) rows))"
    using ok(2)
    by (intro all_results_same)
      (auto simp: toLedgerRecord_def rows_def account_rows_def deltas_safe_def dest!: in_set_takeD)
  then show ?thesis
    using checks sel ok(3)
    by (auto simp: ledgerPage_def Let_def page_slice_def min_absorb1)
qed

definition ledger_page :: "db \<times> uuid \<times> int \<Rightarrow> string option \<Rightarrow> (credit_ledger_row list \<times> string option) result" where
  "ledger_page q c =
     (case q of (db, a, limit) \<Rightarrow> map_sum id (\<lambda>p. (entries p, nextCursor p)) (ledgerPage a limit c db))"

lemma account_rows_newest: "db_inv db \<Longrightarrow> sorted_wrt (>) (map led_id (account_rows db a))"
  unfolding account_rows_def rev_map [symmetric] sorted_wrt_rev
  by (auto simp: db_inv_def keys_ok_def intro: sorted_wrt_filter_map)

interpretation ledger_pages: keyset_pages page_query_ok "\<lambda>(db, a, limit). nat limit" led_id
    "\<lambda>(db, a, limit). account_rows db a" ledger_page
proof
  fix q :: "db \<times> uuid \<times> int" and e and i :: nat
  assume ok: "page_query_ok q"
  obtain db a limit where q: "q = (db, a, limit)" by (metis prod_cases3)
  show "sorted_wrt (>) (map led_id (case q of (db, a, limit) \<Rightarrow> account_rows db a))"
    using ok q account_rows_newest by (auto simp: page_query_ok_def)
  show "0 < (case q of (db, a, limit) \<Rightarrow> nat limit)" using ok q by (simp add: page_query_ok_def)
  show "0 < led_id e \<and> led_id e < 10 ^ 18" if "e \<in> set (case q of (db, a, limit) \<Rightarrow> account_rows db a)"
    using that ok q by (fastforce simp: page_query_ok_def account_rows_def db_inv_def keys_ok_def)
  show "ledger_page q None = Inr (page_slice led_id (case q of (db, a, limit) \<Rightarrow> nat limit)
      (case q of (db, a, limit) \<Rightarrow> account_rows db a))"
    using ledgerPage_rows [of db a limit None] ok q by (simp add: ledger_page_def before_cursor_def)
  show "ledger_page q (Some (dec i)) = Inr (page_slice led_id (case q of (db, a, limit) \<Rightarrow> nat limit)
      (filter (\<lambda>e. led_id e < i) (case q of (db, a, limit) \<Rightarrow> account_rows db a)))" if "0 < i" "i < 10 ^ 18"
    using ledgerPage_rows [of db a limit "Some (dec i)"] ok q that
    by (auto simp: ledger_page_def before_cursor_def parse_dec)
qed

text \<open>C25: a reader who follows the cursors of the ledger sees every row of the account exactly once,
  newest first, whatever the page size; no page is refused and no cursor it is given is invalid.\<close>
theorem ledgerPage_visits_every_row_once:
  assumes "page_query_ok (db, a, limit)"
  shows "follow (ledger_page (db, a, limit)) (Suc (length (credit_ledger db))) None =
    Inr (rev (filter (\<lambda>r. led_account r = a) (credit_ledger db)))"
proof -
  have "length (account_rows db a) < Suc (length (credit_ledger db))"
    by (simp add: account_rows_def le_imp_less_Suc)
  from ledger_pages.follow_all [OF assms, of "Suc (length (credit_ledger db))"] this
  show ?thesis by (simp add: account_rows_def)
qed

theorem ledgerPage_visits_every_row_once_witness:
  "follow (ledger_page (example_db 300 0, example_account, 2)) 4 None =
    Inr [example_row 3 DebtIncurred None 0 300 ''debt:1'' (Some ''plan_change''),
         example_row 2 AdjustmentEntry (Some example_extra) 2000000 0 ''grant:2'' None,
         example_row 1 Grant (Some example_lot) 1000000 0 ''grant:1'' None]"
proof -
  have "page_query_ok (example_db 300 0, example_account, 2)"
    using example_inv [of 300 0] example_seq
    by (simp add: page_query_ok_def CREDIT_LEDGER_PAGE_MAX_def deltas_safe_def)
      (simp add: example_db_def example_row_def safe_int_def MAX_SAFE_def)
  note walk = ledgerPage_visits_every_row_once [OF this]
  have ledger: "credit_ledger (example_db 300 0) =
      [example_row 1 Grant (Some example_lot) 1000000 0 ''grant:1'' None,
       example_row 2 AdjustmentEntry (Some example_extra) 2000000 0 ''grant:2'' None,
       example_row 3 DebtIncurred None 0 300 ''debt:1'' (Some ''plan_change'')]"
    by (simp add: example_db_def)
  have acct: "led_account (example_row n k lot d e key rsn) = example_account" for n k lot d e key rsn
    by (simp add: example_row_def)
  from walk show ?thesis unfolding ledger by (simp add: acct numeral_eq_Suc)
qed


subsection \<open>The customer's page: one entry per task, with a running balance\<close>

lemma entry_id_max:
  assumes "r \<in> set (credit_ledger db)"
  shows "led_id r \<le> entry_id_of db r"
    and "\<exists>x\<in>set (credit_ledger db). led_account x = led_account r \<and> led_id x = entry_id_of db r"
proof -
  let ?S = "{x \<in> set (credit_ledger db). led_account x = led_account r \<and> led_kind x = TaskCharge \<and>
      led_reservation x = led_reservation r}"
  have e: "entry_id_of db r = (if led_kind r = TaskCharge then Max (led_id ` ?S) else led_id r)"
    by (simp add: entry_id_of_def image_set [symmetric] del: image_set)
  have "led_kind r = TaskCharge \<Longrightarrow> r \<in> ?S" using assms by simp
  then have "led_kind r = TaskCharge \<Longrightarrow> led_id r \<le> Max (led_id ` ?S) \<and> Max (led_id ` ?S) \<in> led_id ` ?S"
    by (intro conjI Max_ge Max_in) auto
  with e assms show "led_id r \<le> entry_id_of db r"
    "\<exists>x\<in>set (credit_ledger db). led_account x = led_account r \<and> led_id x = entry_id_of db r"
    by (auto split: if_splits)
qed

lemma keyed_rows_cursor:
  "keyed_rows db a (Some (dec i)) = filter (\<lambda>r. entry_id_of db r < i) (keyed_rows db a None)"
  unfolding keyed_rows_def filter_filter
  by (rule filter_cong) (auto simp: before_cursor_def parse_dec dest: entry_id_max(1))

lemma entry_ids_cursor: "entry_ids db a (Some (dec i)) = filter (\<lambda>e. e < i) (entry_ids db a None)"
proof -
  have "remdups (map f (filter (\<lambda>r. f r < i) rs)) = filter (\<lambda>e. e < i) (remdups (map f rs))"
    for f :: "credit_ledger_row \<Rightarrow> nat" and rs
    by (induction rs) auto
  then show ?thesis by (simp add: entry_ids_def keyed_rows_cursor filter_sort)
qed

lemma group_rows_cursor:
  "e < i \<Longrightarrow> group_rows db a (Some (dec i)) e = group_rows db a None e"
  by (auto simp: group_rows_def keyed_rows_cursor intro!: filter_cong)

definition raw_group :: "db \<Rightarrow> uuid \<Rightarrow> nat \<Rightarrow> ledger_group" where
  "raw_group db a e =
     (let rs = group_rows db a None e
      in \<lparr>grp_entry = e, grp_lot_delta = sum_by lot_delta rs, grp_debt_delta = sum_by debt_delta rs,
          grp_parts = length rs, grp_balance = 0\<rparr>)"

lemma running_filter:
  "sorted (map grp_entry gs) \<Longrightarrow>
     filter (\<lambda>g. grp_entry g < i) (running b gs) = running b (filter (\<lambda>g. grp_entry g < i) gs)"
proof (induction b gs rule: running.induct)
  case (2 b g gs)
  show ?case
  proof (cases "grp_entry g < i")
    case True
    with 2 show ?thesis by (simp add: Let_def)
  next
    case False
    have big: "grp_entry h \<in> grp_entry ` set gs" if "h \<in> set (running c gs)" for h c
      using that by (induction c gs rule: running.induct) (auto simp: Let_def)
    have ge: "\<not> x < i" if "x \<in> grp_entry ` set gs" for x using "2.prems" that False by fastforce
    have "filter (\<lambda>g. grp_entry g < i) (running c gs) = []" for c
      using big ge by (metis (mono_tags, lifting) filter_False)
    moreover have "filter (\<lambda>g. grp_entry g < i) gs = []" using ge by (metis (mono_tags, lifting) filter_False imageI)
    ultimately show ?thesis using False by (simp add: Let_def)
  qed
qed simp

text \<open>The running balance of an entry does not depend on the page it is read on.\<close>

lemma ledger_groups_cursor:
  "ledger_groups db a (Some (dec i)) = filter (\<lambda>g. grp_entry g < i) (ledger_groups db a None)"
proof -
  let ?E = "entry_ids db a None"
  have all: "ledger_groups db a None = running 0 (map (raw_group db a) ?E)"
    by (simp add: ledger_groups_def raw_group_def [abs_def] Let_def)
  have entry: "grp_entry (raw_group db a e) = e" for e by (simp add: raw_group_def Let_def)
  have "ledger_groups db a (Some (dec i)) = running 0 (map (raw_group db a) (filter (\<lambda>e. e < i) ?E))"
    unfolding ledger_groups_def entry_ids_cursor
    by (intro arg_cong [of _ _ "running 0"] map_cong) (auto simp: group_rows_cursor raw_group_def)
  also have "\<dots> = running 0 (filter (\<lambda>g. grp_entry g < i) (map (raw_group db a) ?E))"
    by (simp add: filter_map comp_def entry)
  also have "\<dots> = filter (\<lambda>g. grp_entry g < i) (running 0 (map (raw_group db a) ?E))"
    by (rule running_filter [symmetric]) (simp add: comp_def entry entry_ids_def)
  finally show ?thesis by (simp add: all)
qed


definition balance_query_ok :: "db \<times> uuid \<times> int \<Rightarrow> bool" where
  "balance_query_ok q \<longleftrightarrow> page_query_ok q \<and>
     (case q of (db, a, limit) \<Rightarrow> \<forall>g\<in>set (ledger_groups db a None).
        safe_int (grp_lot_delta g) \<and> safe_int (grp_debt_delta g) \<and> safe_int (grp_balance g))"

definition balance_entries :: "db \<Rightarrow> uuid \<Rightarrow> ledger_entry list" where
  "balance_entries db a = map (\<lambda>g. projr (entry_of_group db a g)) (rev (ledger_groups db a None))"

definition balance_page :: "db \<times> uuid \<times> int \<Rightarrow> string option \<Rightarrow> (ledger_entry list \<times> string option) result" where
  "balance_page q c =
     (case q of (db, a, limit) \<Rightarrow>
        map_sum id (\<lambda>p. (bal_entries p, bal_nextCursor p)) (ledgerPageWithBalance a limit c db))"

lemma running_entries: "map grp_entry (running b gs) = map grp_entry gs"
  by (induction b gs rule: running.induct) (auto simp: Let_def)

lemma group_entries: "map grp_entry (ledger_groups db a None) = entry_ids db a None"
  by (simp add: ledger_groups_def running_entries comp_def Let_def)

lemma entry_ids_desc: "sorted_wrt (<) (entry_ids db a None)"
  by (simp add: entry_ids_def strict_sorted_iff)

lemma entry_of_group_ok:
  assumes "balance_query_ok (db, a, limit)" and "g \<in> set (ledger_groups db a None)"
  shows "\<exists>e. entry_of_group db a g = Inr e \<and> led_id e = grp_entry g \<and> 0 < led_id e \<and> led_id e < 10 ^ 18 \<and>
    lot_delta e = grp_lot_delta g \<and> debt_delta e = grp_debt_delta g \<and> balanceAfterMicro e = grp_balance g"
proof -
  have ok: "db_inv db" "deltas_safe db a" "ledger_seq db < 10 ^ 17" and safe: "safe_int (grp_lot_delta g)"
    "safe_int (grp_debt_delta g)" "safe_int (grp_balance g)"
    using assms by (auto simp: balance_query_ok_def page_query_ok_def)
  have "grp_entry g \<in> set (entry_ids db a None)" using assms(2) group_entries [of db a] by (metis image_eqI image_set)
  then obtain r where r: "r \<in> set (credit_ledger db)" "led_account r = a" "grp_entry g = entry_id_of db r"
    by (auto simp: entry_ids_def keyed_rows_def)
  then obtain x where x: "x \<in> set (credit_ledger db)" "led_account x = a" "led_id x = grp_entry g"
    using entry_id_max(2) [OF r(1)] by auto
  then have "find (\<lambda>r. led_account r = a \<and> led_id r = grp_entry g) (credit_ledger db) \<noteq> None"
    by (auto simp: find_None_iff)
  then obtain key where key: "find (\<lambda>r. led_account r = a \<and> led_id r = grp_entry g) (credit_ledger db) = Some key"
    by blast
  then have k: "key \<in> set (credit_ledger db)" "led_account key = a" "led_id key = grp_entry g"
    by (auto simp: find_Some_iff)
  then have "safe_int (lot_delta key)" "safe_int (debt_delta key)" "0 < led_id key" "led_id key < 10 ^ 18"
    using ok by (auto simp: deltas_safe_def db_inv_def keys_ok_def)
  with key k safe show ?thesis by (simp add: entry_of_group_def toLedgerRecord_def Let_def)
qed

lemma balance_page_rows:
  assumes "balance_query_ok (db, a, limit)" and "c = None \<or> (\<exists>i. c = Some (dec i) \<and> 0 < i \<and> i < 10 ^ 18)"
    and "gs = rev (ledger_groups db a c)" and "set gs \<subseteq> set (ledger_groups db a None)"
  shows "balance_page (db, a, limit) c =
    Inr (page_slice led_id (nat limit) (map (\<lambda>g. projr (entry_of_group db a g)) gs))"
proof -
  have checks: "page_checks limit c = Inr ()" "1 \<le> limit"
    using assms(1,2) by (auto simp: page_checks_def valid_cursor_dec balance_query_ok_def page_query_ok_def)
  have "entry_of_group db a g = Inr (projr (entry_of_group db a g))" if "g \<in> set gs" for g
    using entry_of_group_ok [OF assms(1)] that assms(4) by (metis in_mono sum.sel(2))
  then have "all_results (map (entry_of_group db a) (take (nat limit) gs)) =
      Inr (map (\<lambda>g. projr (entry_of_group db a g)) (take (nat limit) gs))"
    by (intro all_results_same) (auto dest: in_set_takeD)
  moreover have "length (ledger_groups db a c) = length gs" by (simp add: assms(3))
  ultimately show ?thesis
    using checks
    by (auto simp: balance_page_def ledgerPageWithBalance_def Let_def page_slice_def min_absorb1 take_map
        assms(3) [symmetric])
qed

interpretation balance_pages: keyset_pages balance_query_ok "\<lambda>(db, a, limit). nat limit" led_id
    "\<lambda>(db, a, limit). balance_entries db a" balance_page
proof
  fix q :: "db \<times> uuid \<times> int" and e and i :: nat
  assume ok: "balance_query_ok q"
  obtain db a limit where q: "q = (db, a, limit)" by (metis prod_cases3)
  let ?gs = "ledger_groups db a None" and ?F = "\<lambda>g. projr (entry_of_group db a g)"
  have F: "led_id (?F g) = grp_entry g \<and> 0 < led_id (?F g) \<and> led_id (?F g) < 10 ^ 18" if "g \<in> set ?gs" for g
    using entry_of_group_ok ok q that by fastforce
  have items: "(case q of (db, a, limit) \<Rightarrow> balance_entries db a) = map ?F (rev ?gs)"
    by (simp add: q balance_entries_def)
  have "map led_id (map ?F (rev ?gs)) = rev (map grp_entry ?gs)" using F by (simp add: rev_map)
  then show "sorted_wrt (>) (map led_id (case q of (db, a, limit) \<Rightarrow> balance_entries db a))"
    using entry_ids_desc [of db a] by (simp only: items group_entries sorted_wrt_rev)
  show "0 < led_id e \<and> led_id e < 10 ^ 18" if "e \<in> set (case q of (db, a, limit) \<Rightarrow> balance_entries db a)"
    using that F unfolding items by auto
  show "0 < (case q of (db, a, limit) \<Rightarrow> nat limit)"
    using ok q by (simp add: balance_query_ok_def page_query_ok_def)
  show "balance_page q None = Inr (page_slice led_id (case q of (db, a, limit) \<Rightarrow> nat limit)
      (case q of (db, a, limit) \<Rightarrow> balance_entries db a))"
    unfolding items using balance_page_rows [of db a limit None "rev ?gs"] ok q by simp
  have "filter (\<lambda>e. led_id e < i) (map ?F (rev ?gs)) = map ?F (filter (\<lambda>g. grp_entry g < i) (rev ?gs))"
    unfolding filter_map by (rule arg_cong [of _ _ "map ?F"], rule filter_cong) (use F in auto)
  also have "\<dots> = map ?F (rev (ledger_groups db a (Some (dec i))))"
    by (simp add: ledger_groups_cursor rev_filter)
  finally have later: "filter (\<lambda>e. led_id e < i) (map ?F (rev ?gs)) = map ?F (rev (ledger_groups db a (Some (dec i))))" .
  show "balance_page q (Some (dec i)) = Inr (page_slice led_id (case q of (db, a, limit) \<Rightarrow> nat limit)
      (filter (\<lambda>e. led_id e < i) (case q of (db, a, limit) \<Rightarrow> balance_entries db a)))" if "0 < i" "i < 10 ^ 18"
    unfolding items later using balance_page_rows [of db a limit "Some (dec i)" "rev (ledger_groups db a (Some (dec i)))"]
      ok q that by (auto simp: ledger_groups_cursor)
qed

lemma running_step:
  "Suc k < length gs \<Longrightarrow> grp_balance (running b gs ! Suc k) =
     grp_balance (running b gs ! k) + grp_lot_delta (running b gs ! Suc k) - grp_debt_delta (running b gs ! Suc k)"
proof (induction b gs arbitrary: k rule: running.induct)
  case (2 b g gs)
  then show ?case by (cases k; cases gs) (auto simp: Let_def)
qed simp

lemma running_length [simp]: "length (running b gs) = length gs"
  by (induction b gs rule: running.induct) (auto simp: Let_def)

lemma running_last:
  "gs \<noteq> [] \<Longrightarrow> grp_balance (last (running b gs)) = b + sum_by (\<lambda>g. grp_lot_delta g - grp_debt_delta g) gs"
proof (induction b gs rule: running.induct)
  case (2 b g gs)
  then show ?case by (cases gs) (auto simp: Let_def)
qed simp

lemma sum_groups:
  assumes "distinct es" and "\<And>r. r \<in> set rs \<Longrightarrow> f r \<in> set es"
  shows "sum_by (\<lambda>e. sum_by h (filter (\<lambda>r. f r = e) rs)) es = sum_by h rs"
  using assms(2)
proof (induction rs)
  case Nil
  show ?case by (simp add: sum_by_zero)
next
  case (Cons r rs)
  have "sum_by (\<lambda>e. sum_by h (filter (\<lambda>r. f r = e) (r # rs))) es =
      sum_by (\<lambda>e. if f r = e then h r else 0) es + sum_by (\<lambda>e. sum_by h (filter (\<lambda>r. f r = e) rs)) es"
    unfolding sum_by_add [symmetric] by (rule sum_by_cong) simp
  moreover have "sum_by (\<lambda>e. if f r = e then h r else 0) es = h r"
    using assms(1) Cons.prems [of r] by (induction es) (auto intro!: sum_by_zero)
  ultimately show ?case using Cons by simp
qed


lemma groups_total:
  "sum_by (\<lambda>g. grp_lot_delta g - grp_debt_delta g) (map (raw_group db a) (entry_ids db a None)) =
     sum_by (\<lambda>r. lot_delta r - debt_delta r) (filter (\<lambda>r. led_account r = a) (credit_ledger db))"
proof -
  let ?rs = "keyed_rows db a None"
  have rows: "?rs = filter (\<lambda>r. led_account r = a) (credit_ledger db)"
    by (simp add: keyed_rows_def before_cursor_def)
  have "sum_by (\<lambda>g. grp_lot_delta g - grp_debt_delta g) (map (raw_group db a) (entry_ids db a None)) =
      sum_by (\<lambda>e. sum_by (\<lambda>r. lot_delta r - debt_delta r) (filter (\<lambda>r. entry_id_of db r = e) ?rs)) (entry_ids db a None)"
    by (simp add: sum_by_map raw_group_def group_rows_def sum_by_diff Let_def)
  also have "\<dots> = sum_by (\<lambda>r. lot_delta r - debt_delta r) ?rs"
    by (rule sum_groups) (auto simp: entry_ids_def)
  finally show ?thesis by (simp add: rows)
qed

lemma ledger_groups_running: "ledger_groups db a None = running 0 (map (raw_group db a) (entry_ids db a None))"
  by (simp add: ledger_groups_def raw_group_def [abs_def] Let_def)

lemma running_groups: "g \<in> set (running b gs) \<Longrightarrow> \<exists>h\<in>set gs. \<exists>x. g = h\<lparr>grp_balance := x\<rparr>"
  by (induction b gs rule: running.induct) (auto simp: Let_def)

definition rows_of_entry :: "db \<Rightarrow> uuid \<Rightarrow> nat \<Rightarrow> credit_ledger_row list" where
  "rows_of_entry db a e = filter (\<lambda>r. led_account r = a \<and> entry_id_of db r = e) (credit_ledger db)"

lemma group_deltas:
  assumes "g \<in> set (ledger_groups db a None)"
  shows "grp_lot_delta g = sum_by lot_delta (rows_of_entry db a (grp_entry g))"
    and "grp_debt_delta g = sum_by debt_delta (rows_of_entry db a (grp_entry g))"
proof -
  from assms obtain e x where g: "g = (raw_group db a e)\<lparr>grp_balance := x\<rparr>"
    using running_groups [of g 0 "map (raw_group db a) (entry_ids db a None)"] by (auto simp: ledger_groups_running)
  have "group_rows db a None e = rows_of_entry db a e"
    by (auto simp: group_rows_def keyed_rows_def rows_of_entry_def before_cursor_def intro!: filter_cong)
  then show "grp_lot_delta g = sum_by lot_delta (rows_of_entry db a (grp_entry g))"
    "grp_debt_delta g = sum_by debt_delta (rows_of_entry db a (grp_entry g))" by (simp_all add: g raw_group_def Let_def)
qed

lemma balance_entries_listed:
  assumes "balance_query_ok (db, a, limit)"
  shows "set (map led_id (balance_entries db a)) = entry_id_of db ` {r \<in> set (credit_ledger db). led_account r = a}"
    and "e \<in> set (balance_entries db a) \<Longrightarrow>
      lot_delta e = sum_by lot_delta (rows_of_entry db a (led_id e)) \<and>
      debt_delta e = sum_by debt_delta (rows_of_entry db a (led_id e))"
proof -
  let ?gs = "ledger_groups db a None" and ?F = "\<lambda>g. projr (entry_of_group db a g)"
  have F: "led_id (?F g) = grp_entry g \<and> lot_delta (?F g) = grp_lot_delta g \<and> debt_delta (?F g) = grp_debt_delta g"
    if "g \<in> set ?gs" for g using entry_of_group_ok [OF assms that] by auto
  have "set (map led_id (balance_entries db a)) = set (map grp_entry ?gs)" using F by (force simp: balance_entries_def)
  then show "set (map led_id (balance_entries db a)) = entry_id_of db ` {r \<in> set (credit_ledger db). led_account r = a}"
    unfolding group_entries by (auto simp: entry_ids_def keyed_rows_def before_cursor_def)
  show "e \<in> set (balance_entries db a) \<Longrightarrow>
      lot_delta e = sum_by lot_delta (rows_of_entry db a (led_id e)) \<and>
      debt_delta e = sum_by debt_delta (rows_of_entry db a (led_id e))"
    using F group_deltas by (auto simp: balance_entries_def)
qed

text \<open>C26: a reader who follows the cursors of the customer's ledger sees every entry once, newest first: the rows of a
  task that drew on several lots are one entry, under the id of the last of them, any other row is one of its own, and each
  entry moves what its rows move together. Each entry's running balance is the next older entry's plus its own movement, on
  the same page or across pages, and the newest entry's is the sum of every row of the account.\<close>
theorem ledgerPageWithBalance_balances_add_up:
  assumes "balance_query_ok (db, a, limit)"
  shows "\<exists>es. follow (balance_page (db, a, limit)) (Suc (length (credit_ledger db))) None = Inr es \<and>
    sorted_wrt (>) (map led_id es) \<and>
    set (map led_id es) = entry_id_of db ` {r \<in> set (credit_ledger db). led_account r = a} \<and>
    (\<forall>e\<in>set es. lot_delta e = sum_by lot_delta (rows_of_entry db a (led_id e)) \<and>
       debt_delta e = sum_by debt_delta (rows_of_entry db a (led_id e))) \<and>
    (\<forall>k. Suc k < length es \<longrightarrow>
       balanceAfterMicro (es ! k) = balanceAfterMicro (es ! Suc k) + lot_delta (es ! k) - debt_delta (es ! k)) \<and>
    (es \<noteq> [] \<longrightarrow> balanceAfterMicro (hd es) =
       sum_by (\<lambda>r. lot_delta r - debt_delta r) (filter (\<lambda>r. led_account r = a) (credit_ledger db)))"
proof (intro exI conjI allI impI)
  let ?gs = "ledger_groups db a None" and ?es = "balance_entries db a"
  let ?raw = "map (raw_group db a) (entry_ids db a None)"
  have "length (entry_ids db a None) \<le> length (keyed_rows db a None)"
    by (simp add: entry_ids_def) (metis length_map length_remdups_leq)
  also have "\<dots> \<le> length (credit_ledger db)" by (simp add: keyed_rows_def)
  finally have "length ?es < Suc (length (credit_ledger db))"
    by (simp add: balance_entries_def ledger_groups_running)
  then show "follow (balance_page (db, a, limit)) (Suc (length (credit_ledger db))) None = Inr ?es"
    using balance_pages.follow_all [OF assms] by (simp del: follow.simps)
  show "sorted_wrt (>) (map led_id ?es)" using balance_pages.newest [OF assms] by simp
  show "set (map led_id ?es) = entry_id_of db ` {r \<in> set (credit_ledger db). led_account r = a}"
    by (rule balance_entries_listed(1) [OF assms])
  show "\<forall>e\<in>set ?es. lot_delta e = sum_by lot_delta (rows_of_entry db a (led_id e)) \<and>
      debt_delta e = sum_by debt_delta (rows_of_entry db a (led_id e))"
    using balance_entries_listed(2) [OF assms] by blast
  have entry: "lot_delta (?es ! k) = grp_lot_delta (rev ?gs ! k) \<and> debt_delta (?es ! k) = grp_debt_delta (rev ?gs ! k)
      \<and> balanceAfterMicro (?es ! k) = grp_balance (rev ?gs ! k)" if "k < length ?gs" for k
  proof -
    have "rev ?gs ! k \<in> set ?gs" using that by (metis length_rev nth_mem set_rev)
    from entry_of_group_ok [OF assms this] that show ?thesis by (auto simp: balance_entries_def)
  qed
  have len: "length ?es = length ?gs" by (simp add: balance_entries_def)
  show "balanceAfterMicro (?es ! k) = balanceAfterMicro (?es ! Suc k) + lot_delta (?es ! k) - debt_delta (?es ! k)"
    if k: "Suc k < length ?es" for k
  proof -
    let ?j = "length ?gs - Suc (Suc k)"
    have "rev ?gs ! k = ?gs ! Suc ?j" "rev ?gs ! Suc k = ?gs ! ?j" using k len by (auto simp: rev_nth Suc_diff_Suc)
    moreover have "Suc ?j < length ?raw" using k len by (simp add: ledger_groups_running)
    ultimately show ?thesis
      using running_step [of ?j ?raw 0] entry [of k] entry [of "Suc k"] k len by (simp add: ledger_groups_running)
  qed
  show "balanceAfterMicro (hd ?es) =
      sum_by (\<lambda>r. lot_delta r - debt_delta r) (filter (\<lambda>r. led_account r = a) (credit_ledger db))" if "?es \<noteq> []"
  proof -
    have ne: "?gs \<noteq> []" "?raw \<noteq> []" using that by (auto simp: balance_entries_def ledger_groups_running)
    then have "hd ?es = ?es ! 0" "rev ?gs ! 0 = last ?gs" using that by (auto simp: hd_conv_nth rev_nth last_conv_nth)
    then show ?thesis
      using entry [of 0] ne running_last [OF ne(2), of 0] groups_total [of db a] by (simp add: ledger_groups_running)
  qed
qed

lemma example_balance_ok: "balance_query_ok (example_db 300 0, example_account, 2)"
proof -
  have "page_query_ok (example_db 300 0, example_account, 2)"
    using example_inv [of 300 0] example_seq
    by (simp add: page_query_ok_def CREDIT_LEDGER_PAGE_MAX_def deltas_safe_def)
      (simp add: example_db_def example_row_def safe_int_def MAX_SAFE_def)
  moreover have "list_all (\<lambda>g. safe_int (grp_lot_delta g) \<and> safe_int (grp_debt_delta g) \<and> safe_int (grp_balance g))
      (ledger_groups (example_db 300 0) example_account None)" by code_simp
  ultimately show ?thesis by (simp add: balance_query_ok_def list_all_iff)
qed

theorem ledgerPageWithBalance_balances_add_up_witness:
  "\<exists>es. follow (balance_page (example_db 300 0, example_account, 2)) 4 None = Inr es \<and>
    map balanceAfterMicro es = [2999700, 3000000, 1000000] \<and> sorted_wrt (>) (map led_id es)"
proof -
  have len: "Suc (length (credit_ledger (example_db 300 0))) = 4" by (simp add: example_db_def)
  have eval: "map_sum id (map balanceAfterMicro) (follow (balance_page (example_db 300 0, example_account, 2)) 4 None) =
      Inr [2999700, 3000000, 1000000]" by code_simp
  from ledgerPageWithBalance_balances_add_up [OF example_balance_ok] eval
  show ?thesis unfolding len by auto
qed

subsection \<open>The balance a new task may draw on\<close>

text \<open>C27: the spendable balance the server shows and reserves from is exactly the free credit the
  database compares with the debt when it commits, although one query skips the lots with nothing
  free and the other sums every live lot.\<close>
theorem spendableMicro_is_the_free_credit:
  assumes "db_inv db" and "free_credit db a \<le> MAX_SAFE"
  shows "spendableMicro a db = Inr (free_credit db a)"
proof -
  have ok: "balances_ok db" using assms(1) by (simp add: db_inv_def)
  have "spendableMicro a db = exact (free_credit db a)" by (rule spendableMicro_sum [OF ok])
  with assms(2) free_credit_nonneg [OF ok, of a] show ?thesis by (simp add: safe_int_def)
qed

theorem spendableMicro_is_the_free_credit_witness:
  "spendableMicro example_account (example_db 300 0) = Inr 3000000"
proof -
  have "free_credit (example_db 300 0) example_account = 3000000" by code_simp
  with spendableMicro_is_the_free_credit [OF example_inv [of 300 0], of example_account] show ?thesis
    by (simp add: MAX_SAFE_def)
qed

end
