(* ===== verification/Rate_Cards.thy ===== *)
theory Rate_Cards
  imports Credit_Ledger
begin

section \<open>Models, and the rate card that prices them\<close>

text \<open>
  Which models the deployment's own key may run (\<^verbatim>\<open>packages/api-types/src/agent-models.ts\<close>), and the reads
  of \<^verbatim>\<open>db/credit-rate-card-repo.ts\<close>: the card in force at an instant, the next announced one, and a
  model's row on a card. A list price is given in tenths of a cent per thousand tokens and a cache
  multiplier in hundredths, which makes every figure of the registry a whole number.
\<close>

subsection \<open>The model registry\<close>

record AgentModelInfo =
  label :: string
  inputTenthCentsPer1k :: int
  outputTenthCentsPer1k :: int
  cacheWrite5mPercent :: int
  cacheWrite1hPercent :: int
  cacheReadPercent :: int
  minCacheablePromptTokens :: int

definition AgentModels :: "string list" where
  "AgentModels = [''claude-opus-5'', ''claude-sonnet-5'', ''claude-opus-4-8'', ''claude-opus-4-7'',
     ''claude-sonnet-4-6'', ''claude-haiku-4-5'']"

definition model_info :: "string \<Rightarrow> int \<Rightarrow> int \<Rightarrow> int \<Rightarrow> AgentModelInfo" where
  "model_info l i out n =
     \<lparr>label = l, inputTenthCentsPer1k = i, outputTenthCentsPer1k = out, cacheWrite5mPercent = 125,
      cacheWrite1hPercent = 200, cacheReadPercent = 10, minCacheablePromptTokens = n\<rparr>"

definition CLAUDE_MODELS :: "(string \<times> AgentModelInfo) list" where
  "CLAUDE_MODELS =
     [(''claude-opus-5'', model_info ''Claude Opus 5'' 5 25 512),
      (''claude-sonnet-5'', model_info ''Claude Sonnet 5'' 2 10 1024),
      (''claude-opus-4-8'', model_info ''Claude Opus 4.8'' 5 25 1024),
      (''claude-opus-4-7'', model_info ''Claude Opus 4.7'' 5 25 2048),
      (''claude-sonnet-4-6'', model_info ''Claude Sonnet 4.6'' 3 15 1024),
      (''claude-haiku-4-5'', model_info ''Claude Haiku 4.5'' 1 5 4096)]"

datatype AgentModelKeyPolicy = AnyKey | OwnKeyOnly

definition CLAUDE_MODEL_KEY_POLICY :: "(string \<times> AgentModelKeyPolicy) list" where
  "CLAUDE_MODEL_KEY_POLICY =
     [(''claude-opus-5'', OwnKeyOnly), (''claude-sonnet-5'', AnyKey), (''claude-opus-4-8'', OwnKeyOnly),
      (''claude-opus-4-7'', OwnKeyOnly), (''claude-sonnet-4-6'', AnyKey), (''claude-haiku-4-5'', AnyKey)]"

definition agentModelListPrice :: "string \<Rightarrow> AgentModelInfo option" where
  "agentModelListPrice model =
     (if model \<notin> set AgentModels then None else map_of CLAUDE_MODELS model)"

datatype DeploymentKeyModelRefusal = Unpriced | RefusedOwnKeyOnly

definition deploymentKeyModelRefusal :: "string \<Rightarrow> DeploymentKeyModelRefusal option" where
  "deploymentKeyModelRefusal model =
     (if agentModelListPrice model = None then Some Unpriced
      else if map_of CLAUDE_MODEL_KEY_POLICY model = Some OwnKeyOnly then Some RefusedOwnKeyOnly
      else None)"

subsection \<open>Reading a card\<close>

definition first_row :: "'r list \<Rightarrow> 'r option" where
  "first_row rs = (case rs of [] \<Rightarrow> None | r # _ \<Rightarrow> Some r)"

definition cardInForce :: "instant option \<Rightarrow> db \<Rightarrow> rate_card option" where
  "cardInForce at db =
     (let t = (case at of None \<Rightarrow> db_now db | Some x \<Rightarrow> x)
      in first_row (sort_key (\<lambda>c. - effective_at c)
           (filter (\<lambda>c. effective_at c \<le> t \<and> withdrawn_at c = None) (credit_rate_cards db))))"

definition nextAnnouncedCard :: "instant option \<Rightarrow> db \<Rightarrow> rate_card option" where
  "nextAnnouncedCard at db =
     (let t = (case at of None \<Rightarrow> db_now db | Some x \<Rightarrow> x)
      in first_row (sort_key effective_at
           (filter (\<lambda>c. effective_at c > t \<and> withdrawn_at c = None) (credit_rate_cards db))))"

definition toModelRecord :: "rate_card_model \<Rightarrow> rate_card_model result" where
  "toModelRecord r =
     rbind (all_results (map exact
       [inputMicroPerToken r, outputMicroPerToken r, cacheReadMicroPerToken r,
        cacheWrite5mMicroPerToken r, cacheWrite1hMicroPerToken r, minStartMicro r, maxReserveMicro r,
        listInputMicrocentsPerToken r, listOutputMicrocentsPerToken r])) (\<lambda>_. Inr r)"

definition modelRow :: "int \<Rightarrow> string \<Rightarrow> db \<Rightarrow> rate_card_model option result" where
  "modelRow version model db =
     (case find (\<lambda>r. rcm_version r = version \<and> rcm_model r = model) (credit_rate_card_models db) of
        None \<Rightarrow> Inr None
      | Some row \<Rightarrow> rbind (toModelRecord row) (\<lambda>r. Inr (Some r)))"

subsection \<open>Publishing and withdrawing a card\<close>

text \<open>
  The CHECKs of a card and of its model rows, and the unique index on the instant a live card takes
  effect. The announcement is forced to the database's clock; a card needs 720 hours of notice
  before it takes effect unless it is the first; a card that has taken effect cannot be withdrawn
  (the guard of migration 0127, 55000). One clock is read by the statement and by its COMMIT.
\<close>

definition rate_card_checks :: "rate_card \<Rightarrow> bool" where
  "rate_card_checks c \<longleftrightarrow>
     card_version c \<ge> 1 \<and> 10000 \<le> markup_bp c \<and> markup_bp c \<le> 100000 \<and>
     (card_version c = 1 \<or> effective_at c \<ge> announced_at c + 720 * 3600000) \<and>
     (case withdrawn_at c of None \<Rightarrow> True | Some t \<Rightarrow> t < effective_at c)"

fun lower :: "char \<Rightarrow> char" where
  "lower c = (if (65::nat) \<le> of_char c \<and> of_char c \<le> (90::nat) then char_of (of_char c + (32::nat)) else c)"

fun contains_opus :: "string \<Rightarrow> bool" where
  "contains_opus [] = False"
| "contains_opus (c # cs) = (map lower (take 4 (c # cs)) = ''opus'' \<or> contains_opus cs)"

definition rate_card_model_checks :: "'a CreditRateCardModelRow_scheme \<Rightarrow> bool" where
  "rate_card_model_checks r \<longleftrightarrow>
     inputMicroPerToken r > 0 \<and> outputMicroPerToken r > 0 \<and> cacheReadMicroPerToken r \<ge> 0 \<and>
     cacheReadMicroPerToken r \<le> inputMicroPerToken r \<and>
     inputMicroPerToken r \<le> cacheWrite5mMicroPerToken r \<and>
     cacheWrite5mMicroPerToken r \<le> cacheWrite1hMicroPerToken r \<and>
     minStartMicro r > 0 \<and> maxReserveMicro r \<ge> minStartMicro r"

text \<open>
  \<open>publish\<close> in one transaction: the next version, the card, its model rows. \<open>rows\<close> pairs a model with
  its derived prices; the hook that writes the audit row is left out. A refusal of the database comes
  back as \<^verbatim>\<open>RateCardRefusedError\<close>, here the SQLSTATE it carries.
\<close>

definition next_card_version :: "db \<Rightarrow> int" where
  "next_card_version db = fold (\<lambda>c v. max v (card_version c)) (credit_rate_cards db) 0 + 1"

definition model_row_of :: "int \<Rightarrow> string \<times> CreditRateCardModelRow \<Rightarrow> rate_card_model" where
  "model_row_of v p =
     (case p of (mdl, r) \<Rightarrow>
        CreditRateCardModelRow.extend (CreditRateCardModelRow.truncate r) \<lparr>rcm_version = v, rcm_model = mdl\<rparr>)"

definition insert_model_row :: "db \<Rightarrow> rate_card_model \<Rightarrow> db result" where
  "insert_model_row db r =
     (if \<not> rate_card_model_checks r \<or> contains_opus (rcm_model r) then Inl (SqlError 23514)
      else if list_ex (\<lambda>x. rcm_version x = rcm_version r \<and> rcm_model x = rcm_model r)
                (credit_rate_card_models db) then Inl (SqlError 23505)
      else Inr (db\<lparr>credit_rate_card_models := credit_rate_card_models db @ [r]\<rparr>))"

definition publish :: "int \<Rightarrow> instant \<Rightarrow> (string \<times> CreditRateCardModelRow) list \<Rightarrow> rate_card statement" where
  "publish markup effective rows db =
     (let v = next_card_version db;
          crd = \<lparr>card_version = v, markup_bp = markup, announced_at = db_now db, effective_at = effective,
                 withdrawn_at = None\<rparr>
      in if \<not> rate_card_checks crd then Inl (SqlError 23514)
         else if list_ex (\<lambda>c. withdrawn_at c = None \<and> effective_at c = effective) (credit_rate_cards db)
         then Inl (SqlError 23505)
         else rbind (foldr_result insert_model_row
                       (db\<lparr>credit_rate_cards := credit_rate_cards db @ [crd]\<rparr>) (map (model_row_of v) rows))
                (\<lambda>db1. Inr (crd, db1)))"

datatype RateCardWithdrawResult = Withdrawn rate_card | AlreadyWithdrawn rate_card | NotFound

definition withdraw :: "int \<Rightarrow> RateCardWithdrawResult statement" where
  "withdraw version db =
     (case find (\<lambda>c. card_version c = version) (credit_rate_cards db) of
        None \<Rightarrow> Inr (NotFound, db)
      | Some c \<Rightarrow>
          if withdrawn_at c \<noteq> None then Inr (AlreadyWithdrawn c, db)
          else if db_now db \<ge> effective_at c then Inl (SqlError 55000)
          else let c' = c\<lparr>withdrawn_at := Some (db_now db)\<rparr>
               in Inr (Withdrawn c', db\<lparr>credit_rate_cards :=
                    update_where (\<lambda>x. card_version x = version)
                      (\<lambda>x. x\<lparr>withdrawn_at := Some (db_now db)\<rparr>) (credit_rate_cards db)\<rparr>))"

definition listAll :: "db \<Rightarrow> rate_card list" where
  "listAll db = sort_key (\<lambda>c. - card_version c) (credit_rate_cards db)"

definition modelCounts :: "db \<Rightarrow> int \<Rightarrow> nat option" where
  "modelCounts db v =
     (let n = length (filter (\<lambda>r. rcm_version r = v) (credit_rate_card_models db))
      in if n = 0 then None else Some n)"

subsection \<open>Notice\<close>

lemma insert_model_row_cards: "insert_model_row db r = Inr db' \<Longrightarrow> credit_rate_cards db' = credit_rate_cards db \<and> db_now db' = db_now db"
  by (auto simp: insert_model_row_def split: if_splits)

lemma publish_cards:
  assumes "publish markup effective rows db = Inr (c, db')"
  shows "credit_rate_cards db' = credit_rate_cards db @ [c]" "rate_card_checks c" "announced_at c = db_now db"
    "card_version c = next_card_version db" "withdrawn_at c = None" "effective_at c = effective"
    "db_now db' = db_now db"
proof -
  let ?c = "\<lparr>card_version = next_card_version db, markup_bp = markup, announced_at = db_now db,
      effective_at = effective, withdrawn_at = None\<rparr>"
  let ?db = "db\<lparr>credit_rate_cards := credit_rate_cards db @ [?c]\<rparr>"
  from assms have c: "c = ?c" and ok: "rate_card_checks ?c"
    and loop: "foldr_result insert_model_row ?db (map (model_row_of (next_card_version db)) rows) = Inr db'"
    by (auto simp: publish_def Let_def result_simps split: if_splits)
  have "credit_rate_cards db' = credit_rate_cards ?db \<and> db_now db' = db_now ?db"
    by (rule foldr_result_invariant [OF loop]) (auto dest: insert_model_row_cards)
  with c show "credit_rate_cards db' = credit_rate_cards db @ [c]" "db_now db' = db_now db" by simp_all
  from c ok show "rate_card_checks c" "announced_at c = db_now db"
    "card_version c = next_card_version db" "withdrawn_at c = None" "effective_at c = effective" by simp_all
qed

lemma version_fold_le: "\<forall>c\<in>set cs. card_version c \<le> fold (\<lambda>c v. max v (card_version c)) cs n"
  "n \<le> fold (\<lambda>c v. max v (card_version c)) cs (n::int)"
proof (induction cs arbitrary: n)
  case (Cons a cs)
  { case 1
    have "card_version a \<le> fold (\<lambda>c v. max v (card_version c)) cs (max n (card_version a))"
      using Cons.IH(2) [of "max n (card_version a)"] by linarith
    with Cons.IH(1) show ?case by simp
  next
    case 2
    show ?case using Cons.IH(2) [of "max n (card_version a)"] by simp
  }
qed simp_all

lemma next_version_fresh: "c \<in> set (credit_rate_cards db) \<Longrightarrow> card_version c < next_card_version db"
  using version_fold_le(1) [of "credit_rate_cards db" 0] by (fastforce simp: next_card_version_def)

text \<open>C36: a price change reaches no customer without notice. Once a card exists, publishing another one
  leaves the card in force what it was at every instant of the next 720 hours, and withdrawing a card
  leaves the card in force what it was at every instant up to now: what is in force is never taken
  back.\<close>
theorem cardInForce_changes_only_with_notice:
  assumes "\<exists>c\<in>set (credit_rate_cards db). 1 \<le> card_version c"
    and "distinct (map card_version (credit_rate_cards db))"
  shows "(publish markup effective rows db = Inr (c, db') \<and> t < db_now db + 720 * 3600000 \<longrightarrow>
      cardInForce (Some t) db' = cardInForce (Some t) db) \<and>
    (withdraw v db = Inr (Withdrawn w, db'') \<and> t \<le> db_now db \<longrightarrow>
      cardInForce (Some t) db'' = cardInForce (Some t) db)"
proof (intro conjI impI; elim conjE)
  assume pub: "publish markup effective rows db = Inr (c, db')" and t: "t < db_now db + 720 * 3600000"
  from assms(1) have "card_version c \<noteq> 1"
    using publish_cards(4) [OF pub] next_version_fresh by fastforce
  with publish_cards(2,3,5,6) [OF pub] t have "t < effective_at c"
    by (auto simp: rate_card_checks_def)
  then show "cardInForce (Some t) db' = cardInForce (Some t) db"
    by (simp add: cardInForce_def publish_cards(1) [OF pub])
next
  assume w: "withdraw v db = Inr (Withdrawn w, db'')" and t: "t \<le> db_now db"
  from w obtain c where c: "find (\<lambda>c. card_version c = v) (credit_rate_cards db) = Some c"
    and late: "db_now db < effective_at c"
    and db'': "db'' = db\<lparr>credit_rate_cards := update_where (\<lambda>x. card_version x = v)
                      (\<lambda>x. x\<lparr>withdrawn_at := Some (db_now db)\<rparr>) (credit_rate_cards db)\<rparr>"
    by (auto simp: withdraw_def Let_def split: option.splits if_splits)
  from c have c_in: "c \<in> set (credit_rate_cards db)" "card_version c = v" by (auto simp: find_Some_iff)
  let ?P = "\<lambda>c. effective_at c \<le> t \<and> withdrawn_at c = None"
  let ?f = "\<lambda>x. x\<lparr>withdrawn_at := Some (db_now db)\<rparr>"
  have later: "x = c" if "x \<in> set (credit_rate_cards db)" "card_version x = v" for x
    using assms(2) that c_in by (simp add: distinct_map inj_on_def)
  have keep: "filter ?P (update_where (\<lambda>x. card_version x = v) ?f cs) = filter ?P cs"
    if "set cs \<subseteq> set (credit_rate_cards db)" for cs
    using that
  proof (induction cs)
    case (Cons a cs)
    have "t < effective_at a" if "card_version a = v"
      using later [of a] Cons.prems that late t by auto
    with Cons show ?case by auto
  qed simp
  show "cardInForce (Some t) db'' = cardInForce (Some t) db"
    by (simp add: cardInForce_def db'' keep)
qed

text \<open>A launch card and an announced one, on the prices of version 1.\<close>

definition example_cards :: "instant \<Rightarrow> db" where
  "example_cards t =
     \<lparr>db_now = t, credit_accounts = [], credit_lots = [], credit_ledger = [], ledger_seq = 0,
      credit_reservations = [], credit_reservation_holds = [], credit_model_calls = [],
      credit_clawbacks = [], credit_windows = [], credit_window_level_changes = [],
      credit_rate_cards =
        [\<lparr>card_version = 1, markup_bp = 20000, announced_at = 0, effective_at = 0, withdrawn_at = None\<rparr>,
         \<lparr>card_version = 2, markup_bp = 25000, announced_at = 1000, effective_at = 2592001000, withdrawn_at = None\<rparr>],
      credit_rate_card_models =
        [model_row_of 1 (''claude-sonnet-5'', CREDIT_RATE_CARD_V1 claude_sonnet_5),
         model_row_of 1 (''claude-haiku-4-5'', CREDIT_RATE_CARD_V1 claude_haiku_4_5)]\<rparr>"

theorem cardInForce_changes_only_with_notice_witness:
  "\<exists>c db' w db''. publish 30000 2592005000 [(''claude-sonnet-5'', CREDIT_RATE_CARD_V1 claude_sonnet_5)]
      (example_cards 5000) = Inr (c, db') \<and>
    cardInForce (Some 2592004999) db' = cardInForce (Some 2592004999) (example_cards 5000) \<and>
    withdraw 2 (example_cards 5000) = Inr (Withdrawn w, db'') \<and>
    cardInForce (Some 5000) db'' = cardInForce (Some 5000) (example_cards 5000)"
proof -
  let ?db = "example_cards 5000"
  let ?rows = "[(''claude-sonnet-5'', CREDIT_RATE_CARD_V1 claude_sonnet_5)]"
  have "map_sum id fst (publish 30000 2592005000 ?rows ?db) = Inr \<lparr>card_version = 3, markup_bp = 30000,
      announced_at = 5000, effective_at = 2592005000, withdrawn_at = None\<rparr>" by code_simp
  then obtain c db' where pub: "publish 30000 2592005000 ?rows ?db = Inr (c, db')"
    by (cases "publish 30000 2592005000 ?rows ?db") auto
  have "map_sum id fst (withdraw 2 ?db) = Inr (Withdrawn \<lparr>card_version = 2, markup_bp = 25000,
      announced_at = 1000, effective_at = 2592001000, withdrawn_at = Some 5000\<rparr>)" by code_simp
  then obtain w db'' where wd: "withdraw 2 ?db = Inr (Withdrawn w, db'')"
    by (cases "withdraw 2 ?db") auto
  have ok: "\<exists>c\<in>set (credit_rate_cards ?db). 1 \<le> card_version c"
    "distinct (map card_version (credit_rate_cards ?db))"
    by (simp_all add: example_cards_def)
  have now: "db_now ?db = 5000" by (simp add: example_cards_def)
  from cardInForce_changes_only_with_notice [OF ok, of 30000 2592005000 ?rows c db' 2592004999 2 w db'']
    cardInForce_changes_only_with_notice [OF ok, of 30000 2592005000 ?rows c db' 5000 2 w db''] pub wd now
  show ?thesis by auto
qed

end
