(* ===== verification/Credit_Calls.thy ===== *)
theory Credit_Calls
  imports Credit_Tables
begin

section \<open>One model call: whether it fits, and what it is charged\<close>

text \<open>
  The two pure modules a task's calls go through: the fit ladder of
  \<^verbatim>\<open>services/credit-call-fit.ts\<close> and the charge table of \<^verbatim>\<open>services/credit-call-charge.ts\<close>, with the
  correction of a settlement's basis by the row (\<^verbatim>\<open>basisTheRowAgreesWith\<close> of
  \<^verbatim>\<open>services/credit-reservations.ts\<close>). Differences and products of checked amounts are taken exactly.
\<close>

subsection \<open>The fit ladder\<close>

fun CALL_OUTPUT_CEILING :: "call_purpose \<Rightarrow> int" where
  "CALL_OUTPUT_CEILING Plan = 8192"
| "CALL_OUTPUT_CEILING Answer = 4096"

fun CALL_OUTPUT_FLOOR :: "call_purpose \<Rightarrow> int" where
  "CALL_OUTPUT_FLOOR Plan = 1024"
| "CALL_OUTPUT_FLOOR Answer = 512"

datatype CallFitDecision =
    Ceiling int CallUpperBound
  | LowerOutput int CallUpperBound
  | TrimHistory int int
  | Refuse int int

record CreditCallBound =
  cb_inputBoundTokens :: int
  cb_inputBoundMicro :: int
  cb_maxOutputTokens :: int
  cb_boundMicro :: int
  cb_basis :: bound_basis

definition ceilDiv :: "int \<Rightarrow> int \<Rightarrow> int" where
  "ceilDiv a b = (let raised = a + b - 1 in (raised - raised mod b) div b)"

definition fitCall :: "call_purpose \<Rightarrow> int \<Rightarrow> RequestRegionBytes \<Rightarrow> 'a CreditRates_scheme \<Rightarrow> int
    \<Rightarrow> CallFitDecision result" where
  "fitCall purpose roomMicro regions rates historyBytes =
     rbind (requireSafeInteger roomMicro) (\<lambda>_.
     rbind (requireNonNegativeSafeInteger historyBytes) (\<lambda>_.
     if outputMicroPerToken rates \<le> 0 then Inl RangeError
     else
       let ceilingTokens = CALL_OUTPUT_CEILING purpose; floorTokens = CALL_OUTPUT_FLOOR purpose in
       rbind (callUpperBound regions ceilingTokens rates) (\<lambda>atCeiling.
       if boundMicro atCeiling \<le> roomMicro then Inr (Ceiling ceilingTokens atCeiling)
       else
         rbind (maxOutputTokensWithin roomMicro (inputBoundMicro atCeiling) rates) (\<lambda>within.
         let allowed = min within ceilingTokens in
         if allowed \<ge> floorTokens
         then rbind (callUpperBound regions allowed rates) (\<lambda>bound. Inr (LowerOutput allowed bound))
         else
           let floorOutputMicro = floorTokens * outputMicroPerToken rates;
               neededMicro = inputBoundMicro atCeiling + floorOutputMicro;
               refuse = Refuse neededMicro (neededMicro - roomMicro);
               allowedInputMicro = roomMicro - floorOutputMicro
           in if purpose \<noteq> Plan \<or> historyBytes = 0 then Inr refuse
              else if allowedInputMicro \<le> 0 then Inr refuse
              else if inputMicroPerToken rates \<le> 0 then Inl RangeError
              else
                let excessMicro = inputBoundMicro atCeiling - allowedInputMicro;
                    dropBytes = ceilDiv excessMicro (inputMicroPerToken rates)
                in if dropBytes > historyBytes then Inr refuse
                   else Inr (TrimHistory (historyBytes - dropBytes) dropBytes)))))"

fun admittedBound :: "CallFitDecision \<Rightarrow> CreditCallBound option" where
  "admittedBound (Ceiling maxOut b) =
     Some \<lparr>cb_inputBoundTokens = inputBoundTokens b, cb_inputBoundMicro = inputBoundMicro b,
           cb_maxOutputTokens = maxOut, cb_boundMicro = boundMicro b, cb_basis = RegionBytes\<rparr>"
| "admittedBound (LowerOutput maxOut b) =
     Some \<lparr>cb_inputBoundTokens = inputBoundTokens b, cb_inputBoundMicro = inputBoundMicro b,
           cb_maxOutputTokens = maxOut, cb_boundMicro = boundMicro b, cb_basis = RegionBytes\<rparr>"
| "admittedBound (TrimHistory _ _) = None"
| "admittedBound (Refuse _ _) = None"

subsection \<open>What a call is charged\<close>

record CallSettlement =
  st_chargedMicro :: int
  st_actualMicro :: "int option"
  st_overBound :: bool
  st_tokens :: "ModelCallTokens option"

definition cap :: "int \<Rightarrow> int \<Rightarrow> ModelCallTokens \<Rightarrow> CallSettlement" where
  "cap actual bound tokens =
     \<lparr>st_chargedMicro = min actual bound, st_actualMicro = Some actual, st_overBound = actual > bound,
      st_tokens = Some tokens\<rparr>"

definition requireUsage :: "ModelCallTokens option \<Rightarrow> ModelCallTokens result" where
  "requireUsage usage = (case usage of None \<Rightarrow> Inl RangeError | Some t \<Rightarrow> Inr t)"

definition callSettlement :: "settle_basis \<Rightarrow> int \<Rightarrow> int \<Rightarrow> 'a CreditRates_scheme \<Rightarrow> ModelCallTokens option
    \<Rightarrow> CallSettlement result" where
  "callSettlement basis bound maxOut rates usage =
     rbind (requireNonNegativeSafeInteger bound) (\<lambda>_.
     rbind (requireNonNegativeSafeInteger maxOut) (\<lambda>_.
     case basis of
       ProviderRejected \<Rightarrow>
         Inr \<lparr>st_chargedMicro = 0, st_actualMicro = Some 0, st_overBound = False, st_tokens = None\<rparr>
     | NeverSent \<Rightarrow>
         Inr \<lparr>st_chargedMicro = 0, st_actualMicro = Some 0, st_overBound = False, st_tokens = None\<rparr>
     | NoRecord \<Rightarrow>
         Inr \<lparr>st_chargedMicro = bound, st_actualMicro = None, st_overBound = False, st_tokens = None\<rparr>
     | ProviderUsage \<Rightarrow>
         rbind (requireUsage usage) (\<lambda>tokens.
         rbind (callChargeMicro tokens rates) (\<lambda>actual. Inr (cap actual bound tokens)))
     | PartialUsage \<Rightarrow>
         rbind (requireUsage usage) (\<lambda>observed.
           let tokens = observed\<lparr>outputTokens := maxOut\<rparr> in
           rbind (callChargeMicro tokens rates) (\<lambda>actual. Inr (cap actual bound tokens)))))"

definition FREE_SETTLE_BASES :: "settle_basis list" where
  "FREE_SETTLE_BASES = [ProviderRejected, NeverSent]"

definition basisTheRowAgreesWith :: "settle_basis \<Rightarrow> bool \<Rightarrow> settle_basis" where
  "basisTheRowAgreesWith asked was_sent =
     (if was_sent then (if asked \<noteq> NeverSent then asked else NoRecord)
      else if asked \<in> set FREE_SETTLE_BASES then asked
      else NeverSent)"

subsection \<open>The ladder admits only what fits\<close>

lemma ceilDiv_spec:
  assumes "0 < b"
  shows "a \<le> ceilDiv a b * b" "ceilDiv a b * b < a + b"
proof -
  let ?r = "a + b - 1"
  have d: "ceilDiv a b * b = ?r - ?r mod b"
    using assms by (simp add: ceilDiv_def Let_def minus_mod_eq_div_mult)
  then show "a \<le> ceilDiv a b * b" using pos_mod_bound [OF assms, of ?r] by linarith
  show "ceilDiv a b * b < a + b" using d pos_mod_sign [OF assms, of ?r] by linarith
qed

lemma within_Inr:
  "maxOutputTokensWithin room inb r = Inr m \<Longrightarrow>
     0 < outputMicroPerToken r \<and> m = (if room - inb \<le> 0 then 0 else (room - inb) div outputMicroPerToken r)"
  by (auto simp: maxOutputTokensWithin_def result_simps Let_def minus_mod_eq_mult_div split: if_splits)

lemma floor_pos: "0 < CALL_OUTPUT_FLOOR p" "CALL_OUTPUT_FLOOR p \<le> CALL_OUTPUT_CEILING p"
  by (cases p; simp)+

lemma lower_output_fits:
  assumes "maxOutputTokensWithin room (inputBoundMicro c) r = Inr m" and "CALL_OUTPUT_FLOOR p \<le> min m k"
    and "callUpperBound g k r = Inr c" and "callUpperBound g (min m k) r = Inr b"
  shows "boundMicro b \<le> room"
proof -
  let ?o = "outputMicroPerToken r"
  from within_Inr [OF assms(1)] have o: "0 < ?o"
    and m: "m = (if room - inputBoundMicro c \<le> 0 then 0 else (room - inputBoundMicro c) div ?o)" by auto
  have pos: "0 < m" using assms(2) floor_pos(1) [of p] by simp
  with m have "m = (room - inputBoundMicro c) div ?o" by (auto split: if_splits)
  then have "min m k * ?o \<le> room - inputBoundMicro c"
    using le_div_int_iff [OF o, of "min m k" "room - inputBoundMicro c"] by simp
  moreover have "boundMicro b = inputBoundMicro c + min m k * ?o"
    using assms(3,4) by (auto simp: callUpperBound_Inr)
  ultimately show ?thesis by simp
qed

text \<open>C28: a call the ladder admits carries a bound that fits the task's room, asks for an output ceiling
  between the floor and the ceiling of its purpose, and is the bound of exactly the body that will
  be sent.\<close>
theorem fitCall_admits_only_what_fits:
  assumes "fitCall purpose room g rates history = Inr d" and "admittedBound d = Some b"
  shows "cb_boundMicro b \<le> room \<and>
    CALL_OUTPUT_FLOOR purpose \<le> cb_maxOutputTokens b \<and> cb_maxOutputTokens b \<le> CALL_OUTPUT_CEILING purpose \<and>
    (\<exists>u. callUpperBound g (cb_maxOutputTokens b) rates = Inr u \<and> boundMicro u = cb_boundMicro b \<and>
       inputBoundMicro u = cb_inputBoundMicro b \<and> inputBoundTokens u = cb_inputBoundTokens b) \<and>
    cb_inputBoundMicro b < cb_boundMicro b"
proof -
  from assms(1) have o: "0 < outputMicroPerToken rates"
    by (auto simp: fitCall_def rbind_eq_Inr split: if_splits)
  from assms(1) obtain c where c: "callUpperBound g (CALL_OUTPUT_CEILING purpose) rates = Inr c"
    by (auto simp: fitCall_def rbind_eq_Inr Let_def split: if_splits)
  have more: "inputBoundMicro u < boundMicro u" if "callUpperBound g k rates = Inr u" for k u
    using that o by (auto simp: callUpperBound_Inr)
  show ?thesis
  proof (cases d)
    case (Ceiling k u)
    with assms(1) c have "k = CALL_OUTPUT_CEILING purpose" "u = c" "boundMicro c \<le> room"
      by (auto simp: fitCall_def rbind_eq_Inr Let_def split: if_splits)
    with assms(2) Ceiling c more [OF c] floor_pos [of purpose] show ?thesis by auto
  next
    case (LowerOutput k u)
    with assms(1) c obtain m where m: "maxOutputTokensWithin room (inputBoundMicro c) rates = Inr m"
      and k: "k = min m (CALL_OUTPUT_CEILING purpose)" "CALL_OUTPUT_FLOOR purpose \<le> k"
      and u: "callUpperBound g k rates = Inr u"
      by (auto simp: fitCall_def rbind_eq_Inr Let_def split: if_splits)
    have "boundMicro u \<le> room" using lower_output_fits [OF m _ c] k u by auto
    with assms(2) LowerOutput u k more [OF u] show ?thesis by auto
  qed (use assms(2) in auto)
qed

theorem fitCall_admits_only_what_fits_witness:
  "fitCall Plan 12000000 \<lparr>oneHourRegionBytes = 4000, fiveMinuteRegionBytes = 1000, uncachedRegionBytes = 500\<rparr>
     (CREDIT_RATE_CARD_V1 claude_sonnet_5) 0 =
     Inr (LowerOutput 3230 \<lparr>inputBoundTokens = 7548, inputBoundMicro = 5538400, boundMicro = 11998400\<rparr>) \<and>
   (11998400::int) \<le> 12000000"
proof -
  have f: "fitCall Plan 12000000 \<lparr>oneHourRegionBytes = 4000, fiveMinuteRegionBytes = 1000, uncachedRegionBytes = 500\<rparr>
     (CREDIT_RATE_CARD_V1 claude_sonnet_5) 0 =
     Inr (LowerOutput 3230 \<lparr>inputBoundTokens = 7548, inputBoundMicro = 5538400, boundMicro = 11998400\<rparr>)"
    by code_simp
  from fitCall_admits_only_what_fits [OF f, simplified] f show ?thesis by simp
qed

subsection \<open>Trimming history ends\<close>

text \<open>
  A rebuilt body: each region no longer than before, and at least \<open>n\<close> bytes gone in all, from
  whichever regions the history was in.
\<close>

definition trimmed :: "RequestRegionBytes \<Rightarrow> RequestRegionBytes \<Rightarrow> int \<Rightarrow> bool" where
  "trimmed g g' n \<longleftrightarrow>
     0 \<le> oneHourRegionBytes g' \<and> oneHourRegionBytes g' \<le> oneHourRegionBytes g \<and>
     0 \<le> fiveMinuteRegionBytes g' \<and> fiveMinuteRegionBytes g' \<le> fiveMinuteRegionBytes g \<and>
     0 \<le> uncachedRegionBytes g' \<and> uncachedRegionBytes g' \<le> uncachedRegionBytes g \<and>
     n \<le> (oneHourRegionBytes g - oneHourRegionBytes g') + (fiveMinuteRegionBytes g - fiveMinuteRegionBytes g')
         + (uncachedRegionBytes g - uncachedRegionBytes g')"

lemma trim_saves:
  assumes "trimmed g g' n" and "requireRates r = Inr ()" and "rates_ordered r"
  shows "input_bound g' r + n * inputMicroPerToken r \<le> input_bound g r"
proof -
  let ?i = "inputMicroPerToken r" and ?f = "cacheWrite5mMicroPerToken r" and ?w = "cacheWrite1hMicroPerToken r"
  define a where "a = oneHourRegionBytes g - oneHourRegionBytes g'"
  define b where "b = fiveMinuteRegionBytes g - fiveMinuteRegionBytes g'"
  define c where "c = uncachedRegionBytes g - uncachedRegionBytes g'"
  have pos: "0 \<le> a" "0 \<le> b" "0 \<le> c" "n \<le> a + b + c"
    using assms(1) by (simp_all add: trimmed_def a_def b_def c_def)
  have ord: "0 \<le> ?i" "?i \<le> ?f" "?i \<le> ?w" using assms(2,3) by (auto simp: result_simps rates_ordered_def)
  have "n * ?i \<le> (a + b + c) * ?i" using pos ord by (intro mult_right_mono) auto
  also have "\<dots> = a * ?i + b * ?i + c * ?i" by (simp add: algebra_simps)
  also have "\<dots> \<le> a * ?w + b * ?f + c * ?i" using pos ord by (intro add_mono mult_left_mono) auto
  also have "\<dots> = input_bound g r - input_bound g' r"
    by (simp add: input_bound_def a_def b_def c_def algebra_simps)
  finally show ?thesis by simp
qed

lemma trimmed_bound:
  assumes "trimmed g g' n" and "0 \<le> n" and "callUpperBound g k r = Inr b" and "0 < k'" and "k' \<le> k"
  shows "\<exists>b'. callUpperBound g' k' r = Inr b' \<and> inputBoundMicro b' = input_bound g' r"
proof -
  from assms(3) have rates: "requireRates r = Inr ()" "rates_ordered r"
    and safe: "safe_int (input_bound g r + k * outputMicroPerToken r)" "safe_int (input_bound g r)"
    and tokens: "safe_int (oneHourRegionBytes g + fiveMinuteRegionBytes g + uncachedRegionBytes g + REQUEST_FRAMING_TOKENS)"
    and big: "k \<le> MAX_SAFE" "oneHourRegionBytes g \<le> MAX_SAFE" "fiveMinuteRegionBytes g \<le> MAX_SAFE"
      "uncachedRegionBytes g \<le> MAX_SAFE"
    by (auto simp: callUpperBound_Inr)
  from rates(1) have nonneg: "0 \<le> cacheWrite1hMicroPerToken r" "0 \<le> cacheWrite5mMicroPerToken r"
    "0 \<le> inputMicroPerToken r" "0 \<le> outputMicroPerToken r" by (auto simp: result_simps)
  have g': "0 \<le> oneHourRegionBytes g'" "0 \<le> fiveMinuteRegionBytes g'" "0 \<le> uncachedRegionBytes g'"
    using assms(1) by (auto simp: trimmed_def)
  have "0 \<le> n * inputMicroPerToken r" using assms(2) nonneg by simp
  with trim_saves [OF assms(1) rates] have less: "input_bound g' r \<le> input_bound g r" by linarith
  have "0 \<le> input_bound g' r"
    using g' nonneg by (simp add: input_bound_def REQUEST_FRAMING_TOKENS_def)
  moreover have "k' * outputMicroPerToken r \<le> k * outputMicroPerToken r" "0 \<le> k' * outputMicroPerToken r"
    using assms(4,5) nonneg by (auto intro: mult_right_mono)
  ultimately have "safe_int (input_bound g' r)" "safe_int (input_bound g' r + k' * outputMicroPerToken r)"
    using less safe by (auto simp: safe_int_def)
  moreover have "safe_int (oneHourRegionBytes g' + fiveMinuteRegionBytes g' + uncachedRegionBytes g' + REQUEST_FRAMING_TOKENS)"
    using assms(1) tokens g' by (auto simp: trimmed_def safe_int_def REQUEST_FRAMING_TOKENS_def)
  ultimately show ?thesis
    using rates g' assms(1,4,5) big by (auto simp: callUpperBound_Inr trimmed_def)
qed

lemma trim_decision:
  assumes "fitCall purpose room g r history = Inr (TrimHistory keep d)"
  shows "purpose = Plan \<and> safe_int room \<and> 0 < outputMicroPerToken r \<and> 0 < inputMicroPerToken r \<and>
    keep = history - d \<and> d \<le> history \<and>
    (\<exists>c. callUpperBound g (CALL_OUTPUT_CEILING Plan) r = Inr c \<and>
       d = ceilDiv (inputBoundMicro c - (room - CALL_OUTPUT_FLOOR Plan * outputMicroPerToken r)) (inputMicroPerToken r) \<and>
       (\<exists>m. maxOutputTokensWithin room (inputBoundMicro c) r = Inr m \<and>
          \<not> CALL_OUTPUT_FLOOR Plan \<le> min m (CALL_OUTPUT_CEILING Plan)))"
  using assms by (auto simp: fitCall_def rbind_eq_Inr Let_def requireSafeInteger_Inr split: if_splits)

text \<open>C29: asking the caller to drop history always makes progress and always works. The budget is strictly
  smaller than the history it was given, and once that many bytes are gone, from whichever regions
  they were in, the same call is admitted, so a caller that rebuilds and asks again is never asked
  to trim a second time.\<close>
theorem fitCall_trim_once_is_enough:
  assumes "fitCall purpose room g r history = Inr (TrimHistory keep d)" and "trimmed g g' d"
    and "0 \<le> h'" and "h' \<le> MAX_SAFE"
  shows "0 < d \<and> 0 \<le> keep \<and> keep < history \<and>
    (\<exists>dec b. fitCall purpose room g' r h' = Inr dec \<and> admittedBound dec = Some b)"
proof -
  let ?o = "outputMicroPerToken r" and ?i = "inputMicroPerToken r"
  from trim_decision [OF assms(1)] obtain c m where
    p: "purpose = Plan" "safe_int room" "0 < ?o" "0 < ?i" "keep = history - d" "d \<le> history"
    and c: "callUpperBound g 8192 r = Inr c" and d: "d = ceilDiv (inputBoundMicro c - (room - 1024 * ?o)) ?i"
    and m: "maxOutputTokensWithin room (inputBoundMicro c) r = Inr m" "\<not> 1024 \<le> min m 8192"
    by auto
  have cin: "inputBoundMicro c = input_bound g r" and rates: "requireRates r = Inr ()" "rates_ordered r"
    using c by (auto simp: callUpperBound_Inr)
  have "m < 1024" using m(2) by auto
  with within_Inr [OF m(1)] p(3) have "room - input_bound g r < 1024 * ?o"
    using le_div_int_iff [OF p(3), of 1024 "room - input_bound g r"] cin by (auto split: if_splits)
  then have excess: "0 < input_bound g r - (room - 1024 * ?o)" by simp
  with ceilDiv_spec(1) [OF p(4), of "input_bound g r - (room - 1024 * ?o)"] d cin
  have drop: "input_bound g r - (room - 1024 * ?o) \<le> d * ?i" by simp
  with excess have "0 < d * ?i" by linarith
  with p(4) have dpos: "0 < d" by (simp add: zero_less_mult_iff)
  have fits: "input_bound g' r + 1024 * ?o \<le> room"
    using trim_saves [OF assms(2) rates] drop by linarith
  obtain c' where c': "callUpperBound g' 8192 r = Inr c'" "inputBoundMicro c' = input_bound g' r"
    using trimmed_bound [OF assms(2) _ c, of 8192] dpos by auto
  have "\<exists>dec b. fitCall Plan room g' r h' = Inr dec \<and> admittedBound dec = Some b"
  proof (cases "boundMicro c' \<le> room")
    case True
    with c' p assms(3,4) show ?thesis by (auto simp: fitCall_def result_simps Let_def)
  next
    case False
    have ib: "0 \<le> input_bound g' r" "input_bound g' r \<le> MAX_SAFE"
      using c' by (auto simp: callUpperBound_Inr input_bound_def REQUEST_FRAMING_TOKENS_def safe_int_def result_simps)
    let ?m = "(room - input_bound g' r) div ?o"
    have "0 < 1024 * ?o" using p(3) by simp
    then have spare: "0 < room - input_bound g' r" using fits by linarith
    then have m': "maxOutputTokensWithin room (inputBoundMicro c') r = Inr ?m"
      using ib p rates c'(2)
      by (auto simp: maxOutputTokensWithin_def requireSafeInteger_def requireNonNegativeSafeInteger_def safe_int_def
          Let_def minus_mod_eq_mult_div)
    have "1024 \<le> ?m" using le_div_int_iff [OF p(3), of 1024 "room - input_bound g' r"] fits by simp
    moreover from this obtain u where "callUpperBound g' (min ?m 8192) r = Inr u"
      using trimmed_bound [OF assms(2) _ c, of "min ?m 8192"] dpos by auto
    ultimately show ?thesis
      using c' m' p False assms(3,4) by (auto simp: fitCall_def requireSafeInteger_def requireNonNegativeSafeInteger_def
          safe_int_def Let_def)
  qed
  with p dpos show ?thesis by auto
qed


theorem fitCall_trim_once_is_enough_witness:
  "fitCall Plan 9000000 \<lparr>oneHourRegionBytes = 2000, fiveMinuteRegionBytes = 0, uncachedRegionBytes = 10000\<rparr>
      (CREDIT_RATE_CARD_V1 claude_sonnet_5) 9000 = Inr (TrimHistory 8284 716) \<and>
   (\<exists>dec b. fitCall Plan 9000000 \<lparr>oneHourRegionBytes = 2000, fiveMinuteRegionBytes = 0, uncachedRegionBytes = 9284\<rparr>
      (CREDIT_RATE_CARD_V1 claude_sonnet_5) 8284 = Inr dec \<and> admittedBound dec = Some b)"
proof -
  have f: "fitCall Plan 9000000 \<lparr>oneHourRegionBytes = 2000, fiveMinuteRegionBytes = 0, uncachedRegionBytes = 10000\<rparr>
      (CREDIT_RATE_CARD_V1 claude_sonnet_5) 9000 = Inr (TrimHistory 8284 716)" by code_simp
  have "trimmed \<lparr>oneHourRegionBytes = 2000, fiveMinuteRegionBytes = 0, uncachedRegionBytes = 10000\<rparr>
      \<lparr>oneHourRegionBytes = 2000, fiveMinuteRegionBytes = 0, uncachedRegionBytes = 9284\<rparr> 716"
    by (simp add: trimmed_def)
  from fitCall_trim_once_is_enough [OF f this, of 8284] f show ?thesis by (auto simp: MAX_SAFE_def)
qed

subsection \<open>What a call is charged\<close>

text \<open>The CHECK constraints on the charge of a settled call (migrations 0131 and 0132).\<close>

definition charge_checks :: "settle_basis \<Rightarrow> bool \<Rightarrow> int \<Rightarrow> int \<Rightarrow> bool" where
  "charge_checks basis was_sent bound charged \<longleftrightarrow>
     0 \<le> charged \<and> charged \<le> bound \<and>
     (basis \<in> {ProviderRejected, NeverSent} \<longrightarrow> charged = 0) \<and>
     (basis = NeverSent \<longrightarrow> \<not> was_sent) \<and>
     (basis = NoRecord \<longrightarrow> charged = bound \<and> was_sent)"

text \<open>What a settlement after a crash charges, from the one fact the row records.\<close>

definition crash_basis :: "bool \<Rightarrow> settle_basis" where
  "crash_basis was_sent = (if was_sent then NoRecord else NeverSent)"

definition crash_charge :: "bool \<Rightarrow> int \<Rightarrow> int" where
  "crash_charge was_sent bound = (if was_sent then bound else 0)"

lemma callCharge_nonneg: "callChargeMicro t r = Inr c \<Longrightarrow> 0 \<le> c"
  by (auto simp: callChargeMicro_Inr raw_charge_nonneg)

lemma settlement_charge:
  assumes "callSettlement basis bound maxOut rates usage = Inr s"
  shows "0 \<le> st_chargedMicro s" "st_chargedMicro s \<le> bound"
    and "basis \<in> {ProviderRejected, NeverSent} \<Longrightarrow> st_chargedMicro s = 0"
    and "basis = NoRecord \<Longrightarrow> st_chargedMicro s = bound"
  using assms
  by (auto simp: callSettlement_def rbind_eq_Inr requireNonNegativeSafeInteger_Inr cap_def Let_def
      dest: callCharge_nonneg split: settle_basis.splits)

text \<open>C30: whatever basis a settlement names, the basis the row agrees with gives a charge the database
  accepts: never above the bound, nothing for a request that never went out, the whole bound for one
  that went out and left no record. Where the row overrules the caller, the charge is the one a
  settlement after a crash would have written for the same row, so it does not matter which of the
  two reaches the call first.\<close>
theorem callSettlement_agrees_with_the_row:
  assumes "callSettlement (basisTheRowAgreesWith asked was_sent) bound maxOut rates usage = Inr s"
  shows "charge_checks (basisTheRowAgreesWith asked was_sent) was_sent bound (st_chargedMicro s) \<and>
    (\<not> was_sent \<longrightarrow> st_chargedMicro s = crash_charge was_sent bound) \<and>
    (basisTheRowAgreesWith asked was_sent \<noteq> asked \<longrightarrow>
       basisTheRowAgreesWith asked was_sent = crash_basis was_sent \<and>
       st_chargedMicro s = crash_charge was_sent bound)"
  using settlement_charge [OF assms]
  by (cases asked; cases was_sent)
    (simp_all add: basisTheRowAgreesWith_def FREE_SETTLE_BASES_def charge_checks_def crash_charge_def crash_basis_def)

theorem callSettlement_agrees_with_the_row_witness:
  "callSettlement (basisTheRowAgreesWith ProviderUsage False) 5000000 512 (CREDIT_RATE_CARD_V1 claude_sonnet_5)
      (Some \<lparr>uncachedInput = 100, outputTokens = 50, cacheRead = 0, cacheWrite5m = 0, cacheWrite1h = 0\<rparr>) =
      Inr \<lparr>st_chargedMicro = 0, st_actualMicro = Some 0, st_overBound = False, st_tokens = None\<rparr> \<and>
   charge_checks NeverSent False 5000000 0"
proof -
  have f: "callSettlement (basisTheRowAgreesWith ProviderUsage False) 5000000 512 (CREDIT_RATE_CARD_V1 claude_sonnet_5)
      (Some \<lparr>uncachedInput = 100, outputTokens = 50, cacheRead = 0, cacheWrite5m = 0, cacheWrite1h = 0\<rparr>) =
      Inr \<lparr>st_chargedMicro = 0, st_actualMicro = Some 0, st_overBound = False, st_tokens = None\<rparr>" by code_simp
  from callSettlement_agrees_with_the_row [OF f] f show ?thesis
    by (simp add: basisTheRowAgreesWith_def FREE_SETTLE_BASES_def)
qed

text \<open>C31: a torn stream pays for the whole answer it was admitted with. A \<^verbatim>\<open>partial_usage\<close> settlement measures exactly what the
  observed call would have cost plus the output it did not get to, every token up to the ceiling of the admission at the card's
  output price; that is recorded, with the ceiling as the output count, charged up to the bound, and
  flagged when it passes it. So tearing a stream is never cheaper than letting it finish.\<close>
theorem partial_usage_pays_for_the_whole_ceiling:
  assumes "callSettlement PartialUsage bound maxOut rates (Some t) = Inr s"
    and "callSettlement ProviderUsage bound maxOut rates (Some t) = Inr u" and "outputTokens t \<le> maxOut"
  shows "\<exists>a. st_actualMicro u = Some a \<and>
    st_actualMicro s = Some (a + (maxOut - outputTokens t) * outputMicroPerToken rates) \<and>
    st_tokens s = Some (t\<lparr>outputTokens := maxOut\<rparr>) \<and>
    st_chargedMicro s = min (a + (maxOut - outputTokens t) * outputMicroPerToken rates) bound \<and>
    (st_overBound s \<longleftrightarrow> bound < a + (maxOut - outputTokens t) * outputMicroPerToken rates) \<and>
    st_chargedMicro u \<le> st_chargedMicro s"
proof -
  from assms(1) obtain c where c: "callChargeMicro (t\<lparr>outputTokens := maxOut\<rparr>) rates = Inr c"
    and s: "s = cap c bound (t\<lparr>outputTokens := maxOut\<rparr>)"
    by (auto simp: callSettlement_def rbind_eq_Inr requireUsage_def Let_def)
  from assms(2) obtain d where d: "callChargeMicro t rates = Inr d" and u: "u = cap d bound t"
    by (auto simp: callSettlement_def rbind_eq_Inr requireUsage_def)
  have "c = d + (maxOut - outputTokens t) * outputMicroPerToken rates"
    using c d by (auto simp: callChargeMicro_Inr raw_charge_def algebra_simps)
  moreover have "0 \<le> outputMicroPerToken rates" using d by (auto simp: callChargeMicro_Inr result_simps)
  then have "0 \<le> (maxOut - outputTokens t) * outputMicroPerToken rates" using assms(3) by simp
  ultimately show ?thesis by (simp add: s u cap_def)
qed

theorem partial_usage_pays_for_the_whole_ceiling_witness:
  "\<exists>s u. callSettlement PartialUsage 5000000 512 (CREDIT_RATE_CARD_V1 claude_sonnet_5)
      (Some \<lparr>uncachedInput = 100, outputTokens = 50, cacheRead = 0, cacheWrite5m = 0, cacheWrite1h = 0\<rparr>) = Inr s \<and>
    callSettlement ProviderUsage 5000000 512 (CREDIT_RATE_CARD_V1 claude_sonnet_5)
      (Some \<lparr>uncachedInput = 100, outputTokens = 50, cacheRead = 0, cacheWrite5m = 0, cacheWrite1h = 0\<rparr>) = Inr u \<and>
    st_chargedMicro u = 140000 \<and> st_chargedMicro s = 140000 + 462 * 2000"
proof -
  let ?t = "\<lparr>uncachedInput = 100, outputTokens = 50, cacheRead = 0, cacheWrite5m = 0, cacheWrite1h = 0\<rparr>"
  let ?r = "CREDIT_RATE_CARD_V1 claude_sonnet_5"
  have p: "callSettlement PartialUsage 5000000 512 ?r (Some ?t) = Inr (cap 1064000 5000000 (?t\<lparr>outputTokens := 512\<rparr>))" by code_simp
  have q: "callSettlement ProviderUsage 5000000 512 ?r (Some ?t) = Inr (cap 140000 5000000 ?t)" by code_simp
  have "outputMicroPerToken ?r = 2000" "outputTokens ?t \<le> 512" by code_simp+
  with partial_usage_pays_for_the_whole_ceiling [OF p q] p q show ?thesis by (auto simp: cap_def)
qed

end
