(* ===== verification/Reservation_Repo.thy ===== *)
theory Reservation_Repo
  imports Rate_Cards Credit_Calls
begin

section \<open>The reservations repository\<close>

text \<open>
  \<^verbatim>\<open>apps/server/src/db/credit-reservations-repo.ts\<close>: a task's reservation, its holds, its model calls
  and the claims a settlement pays, one function per method, each a statement (or a short sequence of
  statements) on the tables. A read passes every amount through \<open>exact\<close>. An UPDATE that would leave a
  row its CHECKs refuse fails with 23514, and so does the transaction it runs in. The guards that
  freeze a row's terms and make a settled row final never fire on these statements, whose WHERE
  clauses name the open rows and whose SET lists leave the terms alone. The ids are the caller's;
  leases and ceilings are counted in milliseconds.
\<close>

subsection \<open>Constants and CHECKs\<close>

definition CREDIT_RESERVATION_SLOTS :: "nat list" where
  "CREDIT_RESERVATION_SLOTS = [1, 2, 3]"

definition CREDIT_LEASE_SECONDS :: int where
  "CREDIT_LEASE_SECONDS = 90"

definition CREDIT_MAX_UNTIL_MINUTES :: int where
  "CREDIT_MAX_UNTIL_MINUTES = 30"

definition lease_from :: "instant \<Rightarrow> instant" where
  "lease_from t = t + CREDIT_LEASE_SECONDS * 1000"

definition reservation_checks :: "credit_reservation \<Rightarrow> bool" where
  "reservation_checks r \<longleftrightarrow>
     (res_mode r = Enforce \<longleftrightarrow> res_slot r \<noteq> None) \<and>
     (case res_slot r of None \<Rightarrow> True | Some s \<Rightarrow> s \<in> set CREDIT_RESERVATION_SLOTS) \<and>
     (reserved r > 0 \<or> reserved r = 0 \<and> res_mode r = Shadow \<and> would_refuse_reason r = Some WouldModel) \<and>
     committed r \<ge> 0 \<and> (res_mode r = Shadow \<or> committed r \<le> reserved r) \<and>
     max_until r > res_created r \<and> max_until r \<le> res_created r + 30 * 60000 \<and>
     (res_mode r = Shadow \<or> would_refuse_reason r = None) \<and>
     (res_state r = Open \<and> res_charged r = None \<and> res_settled_at r = None \<and> res_settle_reason r = None
      \<or> res_state r = Settled \<and> res_settled_at r \<noteq> None \<and> res_settle_reason r \<noteq> None \<and>
        (case res_charged r of None \<Rightarrow> False
         | Some c \<Rightarrow> c \<ge> 0 \<and> (res_mode r = Shadow \<or> c \<le> reserved r))) \<and>
     (case request_key r of None \<Rightarrow> True | Some k \<Rightarrow> 1 \<le> length k \<and> length k \<le> 300)"

definition call_checks :: "credit_model_call \<Rightarrow> bool" where
  "call_checks c \<longleftrightarrow>
     call_seq c \<ge> 1 \<and> input_bound_tokens c > 0 \<and> max_output_tokens c > 0 \<and> input_bound_micro c > 0 \<and>
     bound_micro c > input_bound_micro c \<and>
     (call_state c = Started \<and> call_charged c = None \<and> call_settled_at c = None \<and> settle_basis c = None
      \<or> call_state c = CallSettled \<and> call_settled_at c \<noteq> None \<and>
        (case (settle_basis c, call_charged c) of
           (Some b, Some x) \<Rightarrow> charge_checks b (sent c) (bound_micro c) x
         | _ \<Rightarrow> False))"

definition open_enforce :: "uuid \<Rightarrow> credit_reservation \<Rightarrow> bool" where
  "open_enforce a r \<longleftrightarrow> res_account r = a \<and> res_state r = Open \<and> res_mode r = Enforce"

text \<open>\<^verbatim>\<open>UPDATE credit_reservations SET ... WHERE ... RETURNING\<close> and the same of a model call.\<close>

definition update_reservations :: "(credit_reservation \<Rightarrow> bool) \<Rightarrow> (credit_reservation \<Rightarrow> credit_reservation)
    \<Rightarrow> credit_reservation list statement" where
  "update_reservations P f db =
     (let rows = map f (filter P (credit_reservations db))
      in if list_all reservation_checks rows
         then Inr (rows, db\<lparr>credit_reservations := update_where P f (credit_reservations db)\<rparr>)
         else Inl (SqlError 23514))"

definition update_calls :: "(credit_model_call \<Rightarrow> bool) \<Rightarrow> (credit_model_call \<Rightarrow> credit_model_call)
    \<Rightarrow> credit_model_call list statement" where
  "update_calls P f db =
     (let rows = map f (filter P (credit_model_calls db))
      in if list_all call_checks rows
         then Inr (rows, db\<lparr>credit_model_calls := update_where P f (credit_model_calls db)\<rparr>)
         else Inl (SqlError 23514))"

subsection \<open>Reserving\<close>

definition openEnforceCount :: "uuid \<Rightarrow> db \<Rightarrow> int result" where
  "openEnforceCount a db = exact (int (length (filter (open_enforce a) (credit_reservations db))))"

definition openEnforceCountNoLock :: "uuid \<Rightarrow> db \<Rightarrow> int result" where
  "openEnforceCountNoLock a db = exact (int (length (filter (open_enforce a) (credit_reservations db))))"

record NewCreditReservation =
  nr_id :: uuid
  nr_account :: uuid
  nr_session :: string
  nr_request_key :: "string option"
  nr_model :: string
  nr_card :: int
  nr_maxReserveMicro :: int
  nr_availableMicro :: int
  nr_owner :: string

text \<open>
  The INSERT: the CHECKs (23514), the primary key, the two partial unique indexes (23505), the card's
  foreign key (23503).
\<close>

definition insert_reservation :: "credit_reservation \<Rightarrow> db \<Rightarrow> db result" where
  "insert_reservation r db =
     (if \<not> reservation_checks r then Inl (SqlError 23514)
      else if find_reservation db (res_id r) \<noteq> None \<or>
              res_state r = Open \<and> res_mode r = Enforce \<and>
                list_ex (\<lambda>o'. open_enforce (res_account r) o' \<and> res_slot o' = res_slot r) (credit_reservations db) \<or>
              request_key r \<noteq> None \<and>
                list_ex (\<lambda>o'. res_account o' = res_account r \<and> request_key o' = request_key r) (credit_reservations db)
      then Inl (SqlError 23505)
      else if \<not> list_ex (\<lambda>c. card_version c = res_card r) (credit_rate_cards db) then Inl (SqlError 23503)
      else Inr (db\<lparr>credit_reservations := credit_reservations db @ [r]\<rparr>))"

definition reservation_row :: "NewCreditReservation \<Rightarrow> reservation_mode \<Rightarrow> nat option \<Rightarrow> int
    \<Rightarrow> would_refuse option \<Rightarrow> instant \<Rightarrow> credit_reservation" where
  "reservation_row r mode slot amount why t =
     \<lparr>res_id = nr_id r, res_account = nr_account r, res_session = nr_session r,
      request_key = nr_request_key r, res_model = nr_model r, res_card = nr_card r, res_mode = mode,
      res_slot = slot, res_state = Open, reserved = amount, committed = 0, res_charged = None,
      would_refuse_reason = why, lease_owner = nr_owner r, lease_expires_at = lease_from t,
      max_until = t + CREDIT_MAX_UNTIL_MINUTES * 60000, res_created = t, res_settled_at = None,
      res_settle_reason = None\<rparr>"

definition lowest_free_slot :: "uuid \<Rightarrow> db \<Rightarrow> nat option" where
  "lowest_free_slot a db =
     find (\<lambda>s. \<not> list_ex (\<lambda>o'. open_enforce a o' \<and> res_slot o' = Some s) (credit_reservations db))
       CREDIT_RESERVATION_SLOTS"

definition slotOf :: "nat option \<Rightarrow> nat result" where
  "slotOf v = (case v of Some n \<Rightarrow> if n \<in> {1, 2, 3} then Inr n else Inl RangeError | None \<Rightarrow> Inl RangeError)"

definition insertEnforceReservation :: "NewCreditReservation \<Rightarrow> (nat \<times> int) statement" where
  "insertEnforceReservation r db =
     (let row = reservation_row r Enforce (lowest_free_slot (nr_account r) db)
                  (min (nr_maxReserveMicro r) (nr_availableMicro r)) None (db_now db)
      in rbind (insert_reservation row db) (\<lambda>db1.
         rbind (slotOf (res_slot row)) (\<lambda>slot.
         rbind (exact (reserved row)) (\<lambda>amount. Inr ((slot, amount), db1)))))"

definition insertShadowReservation :: "NewCreditReservation \<Rightarrow> int \<Rightarrow> would_refuse option \<Rightarrow> int statement" where
  "insertShadowReservation r amount why db =
     (let row = reservation_row r Shadow None amount why (db_now db)
      in rbind (insert_reservation row db) (\<lambda>db1. rbind (exact (reserved row)) (\<lambda>x. Inr (x, db1))))"

text \<open>
  \<open>placeHolds\<close>: the running total of free credit before each spendable lot, in the spend order, and a
  hold on every lot that total has not yet covered; each insert runs the trigger of \<open>insert_hold\<close>.
\<close>

fun with_before :: "int \<Rightarrow> credit_lot list \<Rightarrow> (uuid \<times> int \<times> int) list" where
  "with_before acc [] = []"
| "with_before acc (l # ls) = (lot_id l, free_micro l, acc) # with_before (acc + free_micro l) ls"

definition hold_amounts :: "int \<Rightarrow> credit_lot list \<Rightarrow> (uuid \<times> int) list" where
  "hold_amounts needed ls =
     map (\<lambda>(i, avail, before). (i, min avail (needed - before)))
       (filter (\<lambda>(i, avail, before). before < needed) (with_before 0 ls))"

definition new_hold :: "uuid \<Rightarrow> uuid \<Rightarrow> uuid \<times> int \<Rightarrow> credit_hold" where
  "new_hold rid a p =
     \<lparr>hold_reservation = rid, hold_lot = fst p, hold_account = a, hold_micro = snd p,
      hold_charged = None, released_at = None\<rparr>"

definition placeHolds :: "uuid \<Rightarrow> uuid \<Rightarrow> int \<Rightarrow> (uuid \<times> int) list statement" where
  "placeHolds rid a needed db =
     (let ps = hold_amounts needed (spendable_lots db a)
      in rbind (foldr_result (\<lambda>d p. insert_hold (new_hold rid a p) d) db ps) (\<lambda>db1.
         rbind (all_results (map (\<lambda>(i, x). rbind (exact x) (\<lambda>y. Inr (i, y))) ps)) (\<lambda>out. Inr (out, db1))))"

subsection \<open>Reading a reservation\<close>

definition lockReservation :: "uuid \<Rightarrow> db \<Rightarrow> credit_reservation option result" where
  "lockReservation rid db =
     (case find_reservation db rid of
        None \<Rightarrow> Inr None
      | Some r \<Rightarrow>
          rbind (exact (res_card r)) (\<lambda>_.
          rbind (case res_slot r of None \<Rightarrow> Inr 0 | Some s \<Rightarrow> slotOf (Some s)) (\<lambda>_.
          rbind (exact (reserved r)) (\<lambda>_.
          rbind (exact (committed r)) (\<lambda>_.
          rbind (case res_charged r of None \<Rightarrow> Inr 0 | Some c \<Rightarrow> exact c) (\<lambda>_. Inr (Some r)))))))"

definition accountOf :: "uuid \<Rightarrow> db \<Rightarrow> uuid option" where
  "accountOf rid db = map_option res_account (find_reservation db rid)"

subsection \<open>Admitting a call\<close>

record CommittedCallBound =
  ccb_account :: uuid
  ccb_mode :: reservation_mode
  ccb_card :: int
  ccb_leftMicro :: int
  ccb_overReservation :: bool

definition may_commit :: "uuid \<Rightarrow> string \<Rightarrow> int \<Rightarrow> instant \<Rightarrow> credit_reservation \<Rightarrow> bool" where
  "may_commit rid model bound t r \<longleftrightarrow>
     res_id r = rid \<and> res_state r = Open \<and> t < max_until r \<and> res_model r = model \<and>
     (res_mode r = Shadow \<or> committed r + bound \<le> reserved r)"

definition commit_row :: "int \<Rightarrow> instant \<Rightarrow> credit_reservation \<Rightarrow> credit_reservation" where
  "commit_row bound t r =
     r\<lparr>committed := committed r + bound,
       lease_expires_at := max (lease_expires_at r) (lease_from t),
       would_refuse_reason :=
         (if res_mode r = Shadow \<and> would_refuse_reason r = None \<and> committed r + bound > reserved r
          then Some WouldCallDidNotFit else would_refuse_reason r)\<rparr>"

definition commitCallBound :: "uuid \<Rightarrow> string \<Rightarrow> int \<Rightarrow> CommittedCallBound option statement" where
  "commitCallBound rid model bound db =
     rbind (update_reservations (may_commit rid model bound (db_now db)) (commit_row bound (db_now db)) db)
       (\<lambda>(rows, db1).
         case rows of
           [] \<Rightarrow> Inr (None, db1)
         | r # _ \<Rightarrow>
             rbind (exact (res_card r)) (\<lambda>version.
             rbind (exact (reserved r - committed r)) (\<lambda>left.
               Inr (Some \<lparr>ccb_account = res_account r, ccb_mode = res_mode r, ccb_card = version,
                          ccb_leftMicro = left,
                          ccb_overReservation = (res_mode r = Shadow \<and> committed r > reserved r)\<rparr>, db1))))"

datatype CreditAdmissionRefusal = Gone | TaskSettled | PastMaxAge | OtherModel | DidNotFit

definition admissionRefusal :: "uuid \<Rightarrow> string \<Rightarrow> db \<Rightarrow> (CreditAdmissionRefusal \<times> int) result" where
  "admissionRefusal rid model db =
     (case find_reservation db rid of
        None \<Rightarrow> Inr (Gone, 0)
      | Some r \<Rightarrow>
          rbind (exact (reserved r - committed r)) (\<lambda>left.
            Inr (if res_state r = Settled then TaskSettled
                 else if db_now db \<ge> max_until r then PastMaxAge
                 else if res_model r \<noteq> model then OtherModel
                 else DidNotFit, left)))"

definition next_seq :: "db \<Rightarrow> uuid \<Rightarrow> int" where
  "next_seq db rid = fold (\<lambda>c n. max n (call_seq c)) (calls_of db rid) 0 + 1"

definition new_call :: "uuid \<Rightarrow> uuid \<Rightarrow> uuid \<Rightarrow> call_purpose \<Rightarrow> string \<Rightarrow> CreditCallBound \<Rightarrow> bool \<Rightarrow> int
    \<Rightarrow> credit_model_call" where
  "new_call cid rid a purpose model b over seq =
     \<lparr>call_id = cid, call_reservation = rid, call_account = a, call_seq = seq, call_purpose = purpose,
      call_model = model, input_bound_tokens = cb_inputBoundTokens b, input_bound_basis = cb_basis b,
      input_bound_micro = cb_inputBoundMicro b, max_output_tokens = cb_maxOutputTokens b,
      bound_micro = cb_boundMicro b, shadow_over_reservation = over, call_state = Started, sent = False,
      settle_basis = None, call_tokens = None, actual_micro = None, call_charged = None,
      usage_record_id = None, call_settled_at = None\<rparr>"

text \<open>
  The columns of \<^verbatim>\<open>credit_model_calls\<close> that are \<^verbatim>\<open>integer\<close>: Postgres refuses a value that does not fit
  four bytes (22003) before it looks at any CHECK, and before it looks for the row an \<^verbatim>\<open>UPDATE\<close> names.
\<close>

definition int4 :: "int \<Rightarrow> bool" where
  "int4 n \<longleftrightarrow> - (2 ^ 31) \<le> n \<and> n < 2 ^ 31"

definition call_row_fits :: "int \<Rightarrow> CreditCallBound \<Rightarrow> bool" where
  "call_row_fits seq b \<longleftrightarrow> int4 seq \<and> int4 (cb_inputBoundTokens b) \<and> int4 (cb_maxOutputTokens b)"

definition tokens_fit :: "ModelCallTokens option \<Rightarrow> bool" where
  "tokens_fit reported = (case reported of
       None \<Rightarrow> True
     | Some t \<Rightarrow> int4 (uncachedInput t) \<and> int4 (outputTokens t) \<and> int4 (cacheRead t) \<and> int4 (cacheWrite5m t) \<and>
         int4 (cacheWrite1h t))"

definition insertModelCall :: "uuid \<Rightarrow> uuid \<Rightarrow> uuid \<Rightarrow> call_purpose \<Rightarrow> string \<Rightarrow> CreditCallBound \<Rightarrow> bool
    \<Rightarrow> (uuid \<times> int) statement" where
  "insertModelCall cid rid a purpose model b over db =
     (let seq = next_seq db rid; row = new_call cid rid a purpose model b over seq
      in if \<not> call_row_fits seq b then Inl (SqlError 22003)
         else if \<not> call_checks row then Inl (SqlError 23514)
         else if find_call db cid \<noteq> None then Inl (SqlError 23505)
         else if \<not> list_ex (\<lambda>r. res_id r = rid \<and> res_account r = a) (credit_reservations db)
         then Inl (SqlError 23503)
         else rbind (exact seq) (\<lambda>n.
                Inr ((cid, n), db\<lparr>credit_model_calls := credit_model_calls db @ [row]\<rparr>)))"

definition mark_sent_row :: "credit_model_call \<Rightarrow> credit_model_call" where
  "mark_sent_row c = c\<lparr>sent := True\<rparr>"

definition started_call :: "uuid \<Rightarrow> credit_model_call \<Rightarrow> bool" where
  "started_call cid c \<longleftrightarrow> call_id c = cid \<and> call_state c = Started"

definition markCallSent :: "uuid \<Rightarrow> bool statement" where
  "markCallSent cid db =
     rbind (update_calls (started_call cid) mark_sent_row db) (\<lambda>(rows, db1). Inr (length rows = 1, db1))"

subsection \<open>Settling a call\<close>

definition lockCallForSettlement :: "uuid \<Rightarrow> db \<Rightarrow> (credit_model_call \<times> credit_reservation) option result" where
  "lockCallForSettlement cid db =
     (case find_call db cid of
        None \<Rightarrow> Inr None
      | Some c \<Rightarrow>
          (case find_reservation db (call_reservation c) of
             None \<Rightarrow> Inr None
           | Some r \<Rightarrow>
               rbind (exact (res_card r)) (\<lambda>_.
               rbind (exact (bound_micro c)) (\<lambda>_.
               rbind (exact (max_output_tokens c)) (\<lambda>_.
               rbind (case call_charged c of None \<Rightarrow> Inr 0 | Some x \<Rightarrow> exact x) (\<lambda>_. Inr (Some (c, r))))))))"

definition reservationTerms :: "uuid \<Rightarrow> db \<Rightarrow> (credit_reservation \<times> bool) option result" where
  "reservationTerms rid db =
     (case find_reservation db rid of
        None \<Rightarrow> Inr None
      | Some r \<Rightarrow>
          rbind (exact (res_card r)) (\<lambda>_.
          rbind (exact (reserved r)) (\<lambda>_.
          rbind (exact (committed r)) (\<lambda>_. Inr (Some (r, db_now db \<ge> max_until r))))))"

definition settle_call_row :: "settle_basis \<Rightarrow> CallSettlement \<Rightarrow> uuid option \<Rightarrow> instant
    \<Rightarrow> credit_model_call \<Rightarrow> credit_model_call" where
  "settle_call_row b s usage t c =
     c\<lparr>call_state := CallSettled, settle_basis := Some b, call_tokens := st_tokens s,
       actual_micro := st_actualMicro s, call_charged := Some (st_chargedMicro s),
       usage_record_id := usage, call_settled_at := Some t\<rparr>"

definition settleOneCall :: "uuid \<Rightarrow> settle_basis \<Rightarrow> CallSettlement \<Rightarrow> uuid option
    \<Rightarrow> (int \<times> int) option statement" where
  "settleOneCall cid b s usage db =
     (if \<not> tokens_fit (st_tokens s) then Inl (SqlError 22003)
      else
        rbind (update_calls (started_call cid) (settle_call_row b s usage (db_now db)) db) (\<lambda>(rows, db1).
        case rows of
          [] \<Rightarrow> Inr (None, db1)
        | c # _ \<Rightarrow>
            rbind (exact (bound_micro c)) (\<lambda>bnd.
            rbind (exact (charged_or_0 c)) (\<lambda>chg. Inr (Some (bnd, chg), db1)))))"

definition open_task :: "uuid \<Rightarrow> credit_reservation \<Rightarrow> bool" where
  "open_task rid r \<longleftrightarrow> res_id r = rid \<and> res_state r = Open"

definition move_committed :: "int \<Rightarrow> credit_reservation \<Rightarrow> credit_reservation" where
  "move_committed d r = r\<lparr>committed := committed r + d\<rparr>"

definition releaseCommittedBound :: "uuid \<Rightarrow> int \<Rightarrow> int \<Rightarrow> unit statement" where
  "releaseCommittedBound rid bnd chg db =
     rbind (update_reservations (open_task rid) (move_committed (chg - bnd)) db) (\<lambda>(_, db1). Inr ((), db1))"

definition crash_settle_row :: "instant \<Rightarrow> credit_model_call \<Rightarrow> credit_model_call" where
  "crash_settle_row t c =
     c\<lparr>call_state := CallSettled, settle_basis := Some (crash_basis (sent c)),
       call_charged := Some (crash_charge (sent c) (bound_micro c)), call_settled_at := Some t\<rparr>"

definition set_committed :: "int \<Rightarrow> credit_reservation \<Rightarrow> credit_reservation" where
  "set_committed x r = r\<lparr>committed := x\<rparr>"

definition settleStartedCallsAfterACrash :: "uuid \<Rightarrow> int statement" where
  "settleStartedCallsAfterACrash rid db =
     rbind (update_calls (\<lambda>c. call_reservation c = rid \<and> call_state c = Started)
              (crash_settle_row (db_now db)) db) (\<lambda>(rows, db1).
       if rows = [] then Inr (0, db1)
       else rbind (update_reservations (open_task rid)
                     (set_committed (sum_by call_commits (calls_of db1 rid))) db1)
              (\<lambda>(_, db2). Inr (int (length rows), db2)))"

definition chargedByCalls :: "uuid \<Rightarrow> db \<Rightarrow> int result" where
  "chargedByCalls rid db = exact (sum_by charged_or_0 (calls_of db rid))"

subsection \<open>Holds and the end of a task\<close>

record OpenCreditHold =
  oh_lot :: uuid
  oh_heldMicro :: int
  oh_lotDone :: bool
  oh_lotRevoked :: bool

definition open_holds :: "db \<Rightarrow> uuid \<Rightarrow> (credit_hold \<times> credit_lot) list" where
  "open_holds db rid =
     sort_key (\<lambda>(h, l). spend_key l)
       (List.map_filter (\<lambda>h. if hold_reservation h = rid \<and> released_at h = None
                             then map_option (Pair h) (find_lot db (hold_lot h)) else None)
          (credit_reservation_holds db))"

definition openHoldsInSpendOrder :: "uuid \<Rightarrow> db \<Rightarrow> OpenCreditHold list result" where
  "openHoldsInSpendOrder rid db =
     all_results (map (\<lambda>(h, l). rbind (exact (hold_micro h)) (\<lambda>x.
        Inr \<lparr>oh_lot = hold_lot h, oh_heldMicro = x,
             oh_lotDone = (expires_at l \<le> db_now db \<or> revoked_at l \<noteq> None),
             oh_lotRevoked = (revoked_at l \<noteq> None)\<rparr>)) (open_holds db rid))"

definition the_hold :: "uuid \<Rightarrow> uuid \<Rightarrow> credit_hold \<Rightarrow> bool" where
  "the_hold rid lot h \<longleftrightarrow> hold_reservation h = rid \<and> hold_lot h = lot \<and> released_at h = None"

text \<open>
  The release fires the UPDATE branch of the holds' trigger: the whole hold comes off the lot.
\<close>

definition releaseHold :: "uuid \<Rightarrow> uuid \<Rightarrow> int \<Rightarrow> unit statement" where
  "releaseHold rid lot chg db =
     (case filter (the_hold rid lot) (credit_reservation_holds db) of
        [h] \<Rightarrow>
          if \<not> (0 \<le> chg \<and> chg \<le> hold_micro h) then Inl (SqlError 23514)
          else if \<not> (case find_lot db lot of None \<Rightarrow> True
                     | Some l \<Rightarrow> lot_bounds (move_held (- hold_micro h) l)) then Inl (SqlError 23514)
          else Inr ((), db\<lparr>credit_reservation_holds :=
                              update_where (the_hold rid lot) (release_row (chg, db_now db)) (credit_reservation_holds db),
                           credit_lots :=
                              update_where (\<lambda>x. lot_id x = lot) (move_held (- hold_micro h)) (credit_lots db)\<rparr>)
      | _ \<Rightarrow> Inl PlainError)"

definition settled_row :: "int \<Rightarrow> settle_reason \<Rightarrow> instant \<Rightarrow> credit_reservation \<Rightarrow> credit_reservation" where
  "settled_row chg why t r =
     r\<lparr>res_state := Settled, res_charged := Some chg, res_settled_at := Some t, res_settle_reason := Some why\<rparr>"

definition markSettled :: "uuid \<Rightarrow> int \<Rightarrow> settle_reason \<Rightarrow> unit statement" where
  "markSettled rid chg why db =
     rbind (update_reservations (open_task rid) (settled_row chg why (db_now db)) db) (\<lambda>(rows, db1).
       if length rows = 1 then Inr ((), db1) else Inl PlainError)"

subsection \<open>Leases\<close>

definition set_lease :: "instant \<Rightarrow> credit_reservation \<Rightarrow> credit_reservation" where
  "set_lease t r = r\<lparr>lease_expires_at := t\<rparr>"

definition renewable :: "uuid list \<Rightarrow> string \<Rightarrow> instant \<Rightarrow> credit_reservation \<Rightarrow> bool" where
  "renewable ids owner t r \<longleftrightarrow>
     res_id r \<in> set ids \<and> res_state r = Open \<and> lease_owner r = owner \<and> t < max_until r"

definition renewLeases :: "uuid list \<Rightarrow> string \<Rightarrow> uuid list statement" where
  "renewLeases ids owner db =
     (if ids = [] then Inr ([], db)
      else rbind (update_reservations (renewable ids owner (db_now db)) (set_lease (lease_from (db_now db))) db)
             (\<lambda>(rows, db1). Inr (map res_id rows, db1)))"

definition lapsed :: "instant \<Rightarrow> credit_reservation \<Rightarrow> bool" where
  "lapsed t r \<longleftrightarrow> res_state r = Open \<and> (lease_expires_at r < t \<or> max_until r < t)"

definition lapse_reason :: "instant \<Rightarrow> credit_reservation \<Rightarrow> settle_reason" where
  "lapse_reason t r = (if max_until r < t then MaxAge else LeaseExpired)"

definition lapsedReservations :: "nat \<Rightarrow> db \<Rightarrow> (uuid \<times> uuid \<times> settle_reason) list" where
  "lapsedReservations lim db =
     map (\<lambda>r. (res_id r, res_account r, lapse_reason (db_now db) r))
       (take lim (sort_key (\<lambda>r. (lease_expires_at r, res_id r)) (filter (lapsed (db_now db)) (credit_reservations db))))"

definition claimLapsedReservation :: "uuid \<Rightarrow> db \<Rightarrow> settle_reason option" where
  "claimLapsedReservation rid db =
     (case find_reservation db rid of
        None \<Rightarrow> None
      | Some r \<Rightarrow> if lapsed (db_now db) r then Some (lapse_reason (db_now db) r) else None)"

definition expireLeasesOfOwner :: "string \<Rightarrow> uuid list statement" where
  "expireLeasesOfOwner owner db =
     rbind (update_reservations (\<lambda>r. lease_owner r = owner \<and> res_state r = Open) (set_lease (db_now db)) db)
       (\<lambda>(rows, db1). Inr (map res_id rows, db1))"

subsection \<open>Claims\<close>

record PendingCreditClaim =
  pc_clawback :: uuid
  pc_source :: string
  pc_pendingMicro :: int
  pc_targetKey :: string
  pc_annual :: bool

definition CREDIT_CLAWBACK_SOURCES :: "string list" where
  "CREDIT_CLAWBACK_SOURCES =
     [''plan_change'', ''stripe_refund'', ''stripe_dispute'', ''crypto_refund'', ''admin'']"

definition clawback_checks :: "credit_clawback \<Rightarrow> bool" where
  "clawback_checks c \<longleftrightarrow>
     cb_source c \<in> set CREDIT_CLAWBACK_SOURCES \<and>
     (cb_fraction c = None) \<noteq> (cb_amount c = None) \<and>
     (case cb_fraction c of None \<Rightarrow> True | Some p \<Rightarrow> 1 \<le> p \<and> p \<le> 1000000) \<and>
     (case cb_amount c of None \<Rightarrow> True | Some x \<Rightarrow> x > 0) \<and>
     cb_pending c \<ge> 0 \<and>
     (cb_state c \<in> {Applied, Reversed} \<longleftrightarrow>
        cb_clawed c \<noteq> None \<and> cb_debt c \<noteq> None \<and> cb_target_key c \<noteq> ''unmatched'') \<and>
     (cb_state c \<noteq> Unmatched \<or> cb_clawed c = None \<and> cb_debt c = None \<and> cb_pending c = 0)"

text \<open>The clawbacks' guard (migration 0140) on the columns these statements write.\<close>

definition clawback_guard :: "credit_clawback \<Rightarrow> credit_clawback \<Rightarrow> bool" where
  "clawback_guard old new \<longleftrightarrow>
     cb_pending new \<le> cb_pending old \<and>
     (cb_debt new = cb_debt old \<or>
      cb_pending new < cb_pending old \<and>
      (case (cb_debt new, cb_debt old) of
         (Some x, Some y) \<Rightarrow> x = y + (cb_pending old - cb_pending new)
       | _ \<Rightarrow> False))"

definition update_clawbacks :: "(credit_clawback \<Rightarrow> bool) \<Rightarrow> (credit_clawback \<Rightarrow> credit_clawback)
    \<Rightarrow> credit_clawback list statement" where
  "update_clawbacks P f db =
     (let olds = filter P (credit_clawbacks db)
      in if \<not> list_all (\<lambda>c. clawback_guard c (f c)) olds then Inl (SqlError 55000)
         else if \<not> list_all (\<lambda>c. clawback_checks (f c)) olds then Inl (SqlError 23514)
         else Inr (map f olds, db\<lparr>credit_clawbacks := update_where P f (credit_clawbacks db)\<rparr>))"

definition standing_claim :: "uuid \<Rightarrow> credit_clawback \<Rightarrow> bool" where
  "standing_claim a c \<longleftrightarrow> cb_account c = a \<and> cb_pending c > 0 \<and> cb_state c = Applied"

definition claim_of :: "credit_clawback \<Rightarrow> PendingCreditClaim" where
  "claim_of c =
     \<lparr>pc_clawback = cb_id c, pc_source = cb_source c, pc_pendingMicro = cb_pending c,
      pc_targetKey = cb_target_key c, pc_annual = (cb_cap_spent c \<noteq> None)\<rparr>"

definition pendingClaims :: "uuid \<Rightarrow> db \<Rightarrow> PendingCreditClaim list result" where
  "pendingClaims a db =
     all_results (map (\<lambda>c. rbind (exact (cb_pending c)) (\<lambda>_. Inr (claim_of c)))
       (sort_key (\<lambda>c. (cb_created c, cb_id c)) (filter (standing_claim a) (credit_clawbacks db))))"

definition move_pending :: "int \<Rightarrow> credit_clawback \<Rightarrow> credit_clawback" where
  "move_pending x c = c\<lparr>cb_pending := cb_pending c - x\<rparr>"

definition owes :: "uuid \<Rightarrow> int \<Rightarrow> credit_clawback \<Rightarrow> bool" where
  "owes cid x c \<longleftrightarrow> cb_id c = cid \<and> cb_pending c \<ge> x"

definition payPendingClaim :: "uuid \<Rightarrow> int \<Rightarrow> unit statement" where
  "payPendingClaim cid x db =
     rbind (update_clawbacks (owes cid x) (move_pending x) db) (\<lambda>(rows, db1).
       if length rows = 1 then Inr ((), db1) else Inl PlainError)"

definition pending_to_debt :: "int \<Rightarrow> credit_clawback \<Rightarrow> credit_clawback" where
  "pending_to_debt x c =
     c\<lparr>cb_pending := cb_pending c - x, cb_debt := map_option (\<lambda>d. d + x) (cb_debt c)\<rparr>"

definition pendingClaimBecomesDebt :: "uuid \<Rightarrow> int \<Rightarrow> unit statement" where
  "pendingClaimBecomesDebt cid x db =
     rbind (update_clawbacks (\<lambda>c. owes cid x c \<and> cb_debt c \<noteq> None) (pending_to_debt x) db) (\<lambda>(rows, db1).
       if length rows = 1 then Inr ((), db1) else Inl PlainError)"

text \<open>
  \<open>dropClaim\<close>: the claim falls and a reversed record of the drop is written beside it, unless one with
  its key exists. \<open>new_id\<close> is the id \<^verbatim>\<open>gen_random_uuid()\<close> gives; any unique conflict writes nothing.
\<close>

definition drop_record :: "uuid \<Rightarrow> uuid \<Rightarrow> int \<Rightarrow> instant \<Rightarrow> credit_clawback \<Rightarrow> credit_clawback" where
  "drop_record i rid x t c =
     \<lparr>cb_id = i, cb_account = cb_account c, cb_source = cb_source c,
      cb_source_ref = colon_join [''drop'', cb_id c, rid], cb_target_key = cb_target_key c,
      cb_fraction = None, cb_amount = Some x, cb_state = Reversed, cb_clawed = Some 0, cb_pending = 0,
      cb_debt = Some 0, cb_created = t, cb_disputed = None, cb_cap_spent = None, cb_ledger_mark = None,
      cb_forgive_after = None\<rparr>"

definition same_clawback_key :: "credit_clawback \<Rightarrow> credit_clawback \<Rightarrow> bool" where
  "same_clawback_key c d \<longleftrightarrow>
     cb_id c = cb_id d \<or>
     cb_source c = cb_source d \<and> cb_source_ref c = cb_source_ref d \<and> cb_target_key c = cb_target_key d"

definition dropClaim :: "(db \<Rightarrow> uuid) \<Rightarrow> uuid \<Rightarrow> uuid \<Rightarrow> int \<Rightarrow> unit statement" where
  "dropClaim new_id cid rid x db =
     rbind (update_clawbacks (owes cid x) (move_pending x) db) (\<lambda>(rows, db1).
       if length rows \<noteq> 1 then Inl PlainError
       else case find_clawback db1 cid of
              None \<Rightarrow> Inr ((), db1)
            | Some c \<Rightarrow>
                let row = drop_record (new_id db1) rid x (db_now db1) c
                in if \<not> clawback_checks row then Inl (SqlError 23514)
                   else if list_ex (same_clawback_key row) (credit_clawbacks db1) then Inr ((), db1)
                   else Inr ((), db1\<lparr>credit_clawbacks := credit_clawbacks db1 @ [row]\<rparr>))"

definition hasOtherOpenEnforce :: "uuid \<Rightarrow> uuid \<Rightarrow> db \<Rightarrow> bool" where
  "hasOtherOpenEnforce a rid db \<longleftrightarrow>
     list_ex (\<lambda>r. open_enforce a r \<and> res_id r \<noteq> rid) (credit_reservations db)"

end
