(* ===== verification/Reservation_Service.thy ===== *)
theory Reservation_Service
  imports Reservation_Repo
begin

section \<open>The reservations service: starting a task and running its calls\<close>

text \<open>
  \<^verbatim>\<open>apps/server/src/services/credit-reservations.ts\<close> up to the settlement of one call: reserving credits
  for a task (enforced or in shadow), planning, admitting, sending and settling a model call. The
  refresh of an account's credits is a dependency the service is built with: a function argument,
  \<open>None\<close> when AI credits are off. Log lines and counters are left out, except the report of a call that
  cost more than its bound, which is returned beside the result.
\<close>

subsection \<open>Types\<close>

datatype CreditReserveRefusal = RefusedModel | RefusedTasksInFlight | RefusedDebt | RefusedBalance

definition CREDIT_RESERVE_REFUSAL_ORDER :: "CreditReserveRefusal list" where
  "CREDIT_RESERVE_REFUSAL_ORDER = [RefusedModel, RefusedTasksInFlight, RefusedDebt, RefusedBalance]"

definition MAX_ENFORCED_TASKS :: int where
  "MAX_ENFORCED_TASKS = 3"

record CreditReserveInput =
  ri_account :: uuid
  ri_reservation :: uuid
  ri_session :: string
  ri_idempotencyKey :: "string option"
  ri_model :: string
  ri_mode :: reservation_mode
  ri_bootId :: string

record CreditReserveRefused =
  rr_reason :: CreditReserveRefusal
  rr_modelRefusal :: "DeploymentKeyModelRefusal option"
  rr_debtReason :: "string option"
  rr_debtMicro :: int
  rr_availableMicro :: int
  rr_minStartMicro :: "int option"
  rr_openTasks :: int

datatype CreditReserveResult =
    Reserved uuid nat int int "(uuid \<times> int) list"
  | ReserveRefused CreditReserveRefused
  | Shadowed uuid int "would_refuse option"
  | ShadowLost

subsection \<open>Reserving\<close>

text \<open>JavaScript's \<^verbatim>\<open>trim\<close> on the characters of the model (Latin-1).\<close>

definition js_space :: "char \<Rightarrow> bool" where
  "js_space c \<longleftrightarrow> of_char c \<in> {9, 10, 11, 12, 13, 32, 160 :: nat}"

definition js_trim :: "string \<Rightarrow> string" where
  "js_trim s = rev (dropWhile js_space (rev (dropWhile js_space s)))"

definition requestKeyFor :: "string option \<Rightarrow> string option" where
  "requestKeyFor k =
     (case k of None \<Rightarrow> None
      | Some s \<Rightarrow> let trimmed = js_trim s in if trimmed = [] then None else Some (''idem:'' @ trimmed))"

text \<open>A savepoint: what the refresh did is kept, or rolled back whole when it fails.\<close>

type_synonym refresher = "(uuid \<Rightarrow> unit statement) option"

definition refreshUnderSavepoint :: "refresher \<Rightarrow> uuid \<Rightarrow> db \<Rightarrow> db" where
  "refreshUnderSavepoint refresh a db =
     (case refresh of None \<Rightarrow> db
      | Some f \<Rightarrow> (case f a db of Inl _ \<Rightarrow> db | Inr (_, db1) \<Rightarrow> db1))"

record priced_model =
  pm_version :: int
  pm_minStart :: int
  pm_maxReserve :: int

definition priceModel :: "string \<Rightarrow> db \<Rightarrow> priced_model option result" where
  "priceModel model db =
     (if deploymentKeyModelRefusal model \<noteq> None then Inr None
      else case cardInForce None db of
             None \<Rightarrow> Inr None
           | Some c \<Rightarrow>
               rbind (modelRow (card_version c) model db) (\<lambda>row.
                 case row of None \<Rightarrow> Inr None
                 | Some r \<Rightarrow> Inr (Some \<lparr>pm_version = card_version c, pm_minStart = minStartMicro r,
                                        pm_maxReserve = maxReserveMicro r\<rparr>)))"

definition refused :: "uuid \<Rightarrow> CreditReserveRefusal \<Rightarrow> DeploymentKeyModelRefusal option \<Rightarrow> int option
    \<Rightarrow> int option \<Rightarrow> int option \<Rightarrow> CreditReserveResult statement" where
  "refused a why modelRefusal minStart openTasks available db =
     rbind (ensureAccount a db) (\<lambda>(acct, db1).
     rbind (if debt_micro acct > 0 then latestDebtReason a db1 else Inr None) (\<lambda>debtReason.
     rbind (case available of Some x \<Rightarrow> Inr x | None \<Rightarrow> spendableMicro a db1) (\<lambda>avail.
       Inr (ReserveRefused
              \<lparr>rr_reason = why, rr_modelRefusal = modelRefusal, rr_debtReason = debtReason,
               rr_debtMicro = debt_micro acct, rr_availableMicro = avail, rr_minStartMicro = minStart,
               rr_openTasks = (case openTasks of None \<Rightarrow> 0 | Some n \<Rightarrow> n)\<rparr>, db1))))"

definition new_reservation :: "CreditReserveInput \<Rightarrow> int \<Rightarrow> int \<Rightarrow> int \<Rightarrow> NewCreditReservation" where
  "new_reservation input version maxReserve available =
     \<lparr>nr_id = ri_reservation input, nr_account = ri_account input, nr_session = ri_session input,
      nr_request_key = requestKeyFor (ri_idempotencyKey input), nr_model = ri_model input,
      nr_card = version, nr_maxReserveMicro = maxReserve, nr_availableMicro = available,
      nr_owner = ri_bootId input\<rparr>"

definition reserveEnforce :: "refresher \<Rightarrow> CreditReserveInput \<Rightarrow> CreditReserveResult statement" where
  "reserveEnforce refresh input db0 =
     rbind (lockAccount (ri_account input) db0) (\<lambda>(_, db1).
     let a = ri_account input; db2 = refreshUnderSavepoint refresh a db1 in
     rbind (priceModel (ri_model input) db2) (\<lambda>priced.
     case priced of
       None \<Rightarrow> refused a RefusedModel (deploymentKeyModelRefusal (ri_model input)) None None None db2
     | Some p \<Rightarrow>
         rbind (openEnforceCount a db2) (\<lambda>openTasks.
         if openTasks \<ge> MAX_ENFORCED_TASKS
         then refused a RefusedTasksInFlight None (Some (pm_minStart p)) (Some openTasks) None db2
         else
           rbind (ensureAccount a db2) (\<lambda>(acct, db3).
           if debt_micro acct > 0
           then refused a RefusedDebt None (Some (pm_minStart p)) (Some openTasks) None db3
           else
             rbind (spendableMicro a db3) (\<lambda>available.
             if available < pm_minStart p
             then refused a RefusedBalance None (Some (pm_minStart p)) (Some openTasks) (Some available) db3
             else
               rbind (insertEnforceReservation
                        (new_reservation input (pm_version p) (pm_maxReserve p) available) db3)
                 (\<lambda>((slot, amount), db4).
               rbind (placeHolds (ri_reservation input) a amount db4) (\<lambda>(holds, db5).
                 Inr (Reserved (ri_reservation input) slot amount (pm_version p) holds, db5))))))))"

definition measureModelRefusal :: "CreditReserveInput \<Rightarrow> CreditReserveResult statement" where
  "measureModelRefusal input db =
     (case cardInForce None db of
        None \<Rightarrow> Inr (ShadowLost, db)
      | Some c \<Rightarrow>
          rbind (insertShadowReservation (new_reservation input (card_version c) 0 0) 0 (Some WouldModel) db)
            (\<lambda>(amount, db1). Inr (Shadowed (ri_reservation input) amount (Some WouldModel), db1)))"

definition measureShadow :: "refresher \<Rightarrow> CreditReserveInput \<Rightarrow> CreditReserveResult statement" where
  "measureShadow refresh input db0 =
     rbind (lockAccount (ri_account input) db0) (\<lambda>(_, db1).
     let a = ri_account input; db2 = refreshUnderSavepoint refresh a db1 in
     rbind (priceModel (ri_model input) db2) (\<lambda>priced.
     case priced of
       None \<Rightarrow> measureModelRefusal input db2
     | Some p \<Rightarrow>
         rbind (openEnforceCount a db2) (\<lambda>openTasks.
         rbind (ensureAccount a db2) (\<lambda>(acct, db3).
         rbind (spendableMicro a db3) (\<lambda>available.
           let why = (if openTasks \<ge> MAX_ENFORCED_TASKS then Some WouldTasksInFlight
                      else if debt_micro acct > 0 then Some WouldDebt
                      else if available < pm_minStart p then Some WouldBalance
                      else None)
           in rbind (insertShadowReservation (new_reservation input (pm_version p) 0 0) (pm_maxReserve p) why db3)
                (\<lambda>(amount, db4). Inr (Shadowed (ri_reservation input) amount why, db4)))))))"

text \<open>A fault on the shadow path is swallowed, and its transaction rolled back.\<close>

definition reserveShadow :: "refresher \<Rightarrow> CreditReserveInput \<Rightarrow> CreditReserveResult statement" where
  "reserveShadow refresh input db =
     (case transaction (measureShadow refresh input) db of
        Inl _ \<Rightarrow> Inr (ShadowLost, db)
      | Inr out \<Rightarrow> Inr out)"

definition reserve :: "refresher \<Rightarrow> CreditReserveInput \<Rightarrow> CreditReserveResult statement" where
  "reserve refresh input =
     (if ri_mode input = Shadow then reserveShadow refresh input
      else transaction (reserveEnforce refresh input))"

subsection \<open>One model call\<close>

datatype CreditCallPlan =
    Planned CallFitDecision string int int rate_card_model
  | Unavailable CreditAdmissionRefusal

definition planCall :: "uuid \<Rightarrow> call_purpose \<Rightarrow> RequestRegionBytes \<Rightarrow> int \<Rightarrow> CreditCallPlan statement" where
  "planCall rid purpose regions historyBytes =
     transaction (\<lambda>db.
       rbind (reservationTerms rid db) (\<lambda>terms.
       case terms of
         None \<Rightarrow> Inr (Unavailable Gone, db)
       | Some (r, pastCeiling) \<Rightarrow>
           if res_state r = Settled then Inr (Unavailable TaskSettled, db)
           else if pastCeiling then Inr (Unavailable PastMaxAge, db)
           else
             rbind (modelRow (res_card r) (res_model r) db) (\<lambda>row.
             case row of
               None \<Rightarrow>
                 if res_mode r = Shadow \<and> reserved r = 0 then Inr (Unavailable OtherModel, db)
                 else Inl PlainError
             | Some rates \<Rightarrow>
                 let room = reserved r - committed r in
                 rbind (if res_mode r = Shadow
                        then rbind (callUpperBound regions (CALL_OUTPUT_CEILING purpose) rates)
                               (\<lambda>b. Inr (Ceiling (CALL_OUTPUT_CEILING purpose) b))
                        else fitCall purpose room regions rates historyBytes)
                   (\<lambda>decision. Inr (Planned decision (res_model r) room (reserved r) rates, db)))))"

datatype CreditAdmitCallResult =
    Admitted uuid int reservation_mode int bool
  | AdmitRefused CreditAdmissionRefusal int

definition admitCallIn :: "uuid \<Rightarrow> call_purpose \<Rightarrow> string \<Rightarrow> CreditCallBound \<Rightarrow> uuid
    \<Rightarrow> CreditAdmitCallResult statement" where
  "admitCallIn rid purpose model bound cid db =
     rbind (commitCallBound rid model (cb_boundMicro bound) db) (\<lambda>(ccb, db1).
     case ccb of
       None \<Rightarrow> rbind (admissionRefusal rid model db1) (\<lambda>(why, left). Inr (AdmitRefused why left, db1))
     | Some m \<Rightarrow>
         rbind (insertModelCall cid rid (ccb_account m) purpose model bound (ccb_overReservation m) db1)
           (\<lambda>((i, seq), db2). Inr (Admitted i seq (ccb_mode m) (ccb_leftMicro m) (ccb_overReservation m), db2)))"

definition admitCall :: "uuid \<Rightarrow> call_purpose \<Rightarrow> string \<Rightarrow> CreditCallBound \<Rightarrow> uuid
    \<Rightarrow> CreditAdmitCallResult statement" where
  "admitCall rid purpose model bound cid = transaction (admitCallIn rid purpose model bound cid)"

definition markSent :: "uuid \<Rightarrow> bool statement" where
  "markSent cid = transaction (markCallSent cid)"

datatype settle_outcome = OutcomeSettled | OutcomeAlreadySettled | OutcomeUnknown

record CreditCallSettlementResult =
  cs_outcome :: settle_outcome
  cs_chargedMicro :: int
  cs_boundMicro :: int
  cs_overBound :: bool

record CreditBoundExceeded =
  be_call :: uuid
  be_reservation :: uuid
  be_account :: uuid
  be_model :: string
  be_basis :: settle_basis
  be_boundMicro :: int
  be_actualMicro :: int

definition UNSETTLED_CALL :: CreditCallSettlementResult where
  "UNSETTLED_CALL = \<lparr>cs_outcome = OutcomeUnknown, cs_chargedMicro = 0, cs_boundMicro = 0, cs_overBound = False\<rparr>"

definition bound_exceeded :: "credit_model_call \<Rightarrow> settle_basis \<Rightarrow> CallSettlement \<Rightarrow> int
    \<Rightarrow> CreditBoundExceeded option" where
  "bound_exceeded c b s bnd =
     (case st_actualMicro s of
        Some actual \<Rightarrow>
          if st_overBound s
          then Some \<lparr>be_call = call_id c, be_reservation = call_reservation c, be_account = call_account c,
                     be_model = call_model c, be_basis = b, be_boundMicro = bnd, be_actualMicro = actual\<rparr>
          else None
      | None \<Rightarrow> None)"

definition settleCallIn :: "uuid \<Rightarrow> settle_basis \<Rightarrow> ModelCallTokens option \<Rightarrow> uuid option
    \<Rightarrow> (CreditCallSettlementResult \<times> CreditBoundExceeded option) statement" where
  "settleCallIn cid asked usage usageRecord db =
     rbind (lockCallForSettlement cid db) (\<lambda>found.
     case found of
       None \<Rightarrow> Inr ((UNSETTLED_CALL, None), db)
     | Some (c, r) \<Rightarrow>
         if call_state c = CallSettled
         then Inr ((\<lparr>cs_outcome = OutcomeAlreadySettled, cs_chargedMicro = charged_or_0 c,
                     cs_boundMicro = bound_micro c, cs_overBound = False\<rparr>, None), db)
         else
           rbind (modelRow (res_card r) (call_model c) db) (\<lambda>row.
           case row of
             None \<Rightarrow> Inl PlainError
           | Some rates \<Rightarrow>
               let basis = basisTheRowAgreesWith asked (sent c) in
               rbind (callSettlement basis (bound_micro c) (max_output_tokens c) rates usage) (\<lambda>s.
               rbind (settleOneCall cid basis s usageRecord db) (\<lambda>(written, db1).
               case written of
                 None \<Rightarrow> Inr ((UNSETTLED_CALL, None), db1)
               | Some (bnd, chg) \<Rightarrow>
                   rbind (releaseCommittedBound (call_reservation c) bnd chg db1) (\<lambda>(_, db2).
                     Inr ((\<lparr>cs_outcome = OutcomeSettled, cs_chargedMicro = chg, cs_boundMicro = bnd,
                            cs_overBound = st_overBound s\<rparr>, bound_exceeded c basis s bnd), db2))))))"

definition settleCall :: "uuid \<Rightarrow> settle_basis \<Rightarrow> ModelCallTokens option \<Rightarrow> uuid option
    \<Rightarrow> (CreditCallSettlementResult \<times> CreditBoundExceeded option) statement" where
  "settleCall cid asked usage usageRecord = transaction (settleCallIn cid asked usage usageRecord)"

end
