(* ===== verification/Task_Settlement.thy ===== *)
theory Task_Settlement
  imports Reservation_Service
begin

section \<open>Settling a task\<close>

text \<open>
  \<open>settleIn\<close> of \<^verbatim>\<open>services/credit-reservations.ts\<close>, with the two private steps it calls (\<open>payClaims\<close>,
  \<open>claimsLeftBecomeDebt\<close>) and the reads of \<^verbatim>\<open>db/credit-windows-repo.ts\<close> that say which lots belong to a
  credit unit. The objects the TypeScript loop mutates (what is left to charge, the debt still owed,
  each claim's \<^verbatim>\<open>owed\<close>, the totals) are the fields of the record \<open>settle_walk\<close>. \<open>new_id\<close> is
  \<^verbatim>\<open>gen_random_uuid()\<close>.
\<close>

subsection \<open>The lots of a credit unit\<close>

definition hex_char :: "char \<Rightarrow> bool" where
  "hex_char c \<longleftrightarrow> (48::nat) \<le> of_char c \<and> of_char c \<le> (57::nat) \<or> (97::nat) \<le> of_char c \<and> of_char c \<le> (102::nat)"

definition uuid_shape :: "string \<Rightarrow> bool" where
  "uuid_shape s \<longleftrightarrow>
     length s = 36 \<and> list_all (\<lambda>i. if i \<in> {8, 13, 18, 23} then s ! i = CHR ''-'' else hex_char (s ! i)) [0..<36]"

definition parseUnitTargetKey :: "string \<Rightarrow> (string \<times> string) option" where
  "parseUnitTargetKey k =
     (let rest = drop 7 k; w = take 36 rest; tail = drop 36 rest
      in if take 7 k = ''window:'' \<and> uuid_shape w \<and> take 1 tail = '':'' \<and> drop 1 tail \<noteq> [] \<and> colon_free (drop 1 tail)
         then Some (w, drop 1 tail) else None)"

definition unitGivebackPrefix :: "string \<Rightarrow> string" where
  "unitGivebackPrefix target = ''reinstate:'' @ target @ '':''"

record SettleLot =
  sl_lot :: uuid
  sl_live :: bool
  sl_roomMicro :: int
  sl_freeMicro :: int

definition unit_lot :: "db \<Rightarrow> uuid \<Rightarrow> string \<Rightarrow> uuid \<Rightarrow> string \<Rightarrow> credit_lot \<Rightarrow> bool" where
  "unit_lot db a target w cov l \<longleftrightarrow>
     lot_account l = a \<and>
     list_ex (\<lambda>x. win_id x = w \<and> win_account x = a \<and>
        (lot_window l = Some w \<and> lot_kind l = Monthly \<and> win_source_ref x = cov \<or>
         lot_window l = Some w \<and> lot_kind l = Proration \<and>
           list_ex (\<lambda>s. lc_window s = w \<and> grant_key l = colon_join [''proration'', w, dec (lc_seq s)] \<and>
                        (case lc_source_ref s of None \<Rightarrow> win_source_ref x | Some y \<Rightarrow> y) = cov)
             (credit_window_level_changes db) \<or>
         lot_window l = None \<and> lot_kind l = Adjustment \<and>
           take (length (unitGivebackPrefix target)) (grant_key l) = unitGivebackPrefix target))
       (credit_windows db)"

text \<open>The windows repository refuses a negative amount too.\<close>

definition exactMicro :: "int \<Rightarrow> int result" where
  "exactMicro v = (if \<not> safe_int v \<or> v < 0 then Inl RangeError else Inr v)"

lemma exactMicro_Inr [result_simps]: "exactMicro v = Inr x \<longleftrightarrow> safe_int v \<and> 0 \<le> v \<and> x = v"
  by (auto simp: exactMicro_def)

lemma exactMicro_ok [simp]: "safe_int v \<Longrightarrow> 0 \<le> v \<Longrightarrow> exactMicro v = Inr v"
  by (simp add: exactMicro_def)

definition unitLotsForSettle :: "uuid \<Rightarrow> string \<Rightarrow> db \<Rightarrow> SettleLot list result" where
  "unitLotsForSettle a target db =
     (case parseUnitTargetKey target of
        None \<Rightarrow> Inr []
      | Some (w, cov) \<Rightarrow>
          all_results (map (\<lambda>l.
            rbind (exactMicro (granted l - remaining l)) (\<lambda>room.
            rbind (exactMicro (remaining l - held l)) (\<lambda>avail.
              Inr \<lparr>sl_lot = lot_id l, sl_live = live_lot (db_now db) l, sl_roomMicro = room,
                   sl_freeMicro = avail\<rparr>)))
            (sort_key spend_key (filter (unit_lot db a target w cov) (credit_lots db)))))"

subsection \<open>Claims\<close>

definition clawbackLedgerKind :: "string \<Rightarrow> CreditLedgerKind" where
  "clawbackLedgerKind source = (if source = ''plan_change'' then ProrationClawback else RefundClawback)"

definition clawbackDebtReason :: "string \<Rightarrow> string" where
  "clawbackDebtReason source = (if source = ''plan_change'' then ''plan_change'' else ''payment_reversed'')"

record owed_claim = PendingCreditClaim +
  owed :: int

definition as_owed :: "PendingCreditClaim \<Rightarrow> owed_claim" where
  "as_owed c = PendingCreditClaim.extend c \<lparr>owed = pc_pendingMicro c\<rparr>"

text \<open>Rule 4: the lots each reversal's claim may be paid from, read once per target.\<close>

fun ownLots :: "uuid \<Rightarrow> db \<Rightarrow> owed_claim list \<Rightarrow> (string \<times> uuid list) list \<Rightarrow> (string \<times> uuid list) list result" where
  "ownLots a db [] acc = Inr acc"
| "ownLots a db (c # cs) acc =
     (if parseUnitTargetKey (pc_targetKey c) = None \<or> map_of acc (pc_targetKey c) \<noteq> None
      then ownLots a db cs acc
      else rbind (unitLotsForSettle a (pc_targetKey c) db) (\<lambda>ls.
             ownLots a db cs (acc @ [(pc_targetKey c, map sl_lot ls)])))"

definition may_pay :: "(string \<times> uuid list) list \<Rightarrow> uuid \<Rightarrow> owed_claim \<Rightarrow> bool" where
  "may_pay own lot c \<longleftrightarrow>
     (case map_of own (pc_targetKey c) of None \<Rightarrow> True | Some ls \<Rightarrow> lot \<in> set ls)"

definition task_entry :: "uuid \<Rightarrow> string list \<Rightarrow> string option \<Rightarrow> movement \<Rightarrow> NewCreditLedgerEntry" where
  "task_entry a key session mv =
     \<lparr>entry_account = a, entry_key = colon_join key, entry_actor = None, entry_session = session,
      entry_movement = mv\<rparr>"

definition claim_entry :: "uuid \<Rightarrow> uuid \<Rightarrow> uuid \<Rightarrow> owed_claim \<Rightarrow> int \<Rightarrow> NewCreditLedgerEntry" where
  "claim_entry a rid lot c x =
     task_entry a [''claim'', pc_clawback c, rid, lot] None
       (if clawbackLedgerKind (pc_source c) = ProrationClawback then ProrationClawbackOf lot x (Some (pc_source c))
        else RefundClawbackOf lot x (Some (pc_source c)))"

text \<open>
  \<open>payClaims\<close> walks the claims this lot may pay (\<open>may\<close>); the others pass through untouched. It returns
  what is left of the released credit, the claims, and what was paid.
\<close>

fun payClaims :: "uuid \<Rightarrow> uuid \<Rightarrow> uuid \<Rightarrow> (owed_claim \<Rightarrow> bool) \<Rightarrow> int \<Rightarrow> owed_claim list
    \<Rightarrow> (int \<times> owed_claim list \<times> int) statement" where
  "payClaims a rid lot may released [] db = Inr ((released, [], 0), db)"
| "payClaims a rid lot may released (c # cs) db =
     (if \<not> may c
      then rbind (payClaims a rid lot may released cs db) (\<lambda>((left, cs', paid), db1). Inr ((left, c # cs', paid), db1))
      else if released \<le> 0 then Inr ((released, c # cs, 0), db)
      else if owed c \<le> 0
      then rbind (payClaims a rid lot may released cs db) (\<lambda>((left, cs', paid), db1). Inr ((left, c # cs', paid), db1))
      else
        let x = min released (owed c) in
        rbind (append_ledger (claim_entry a rid lot c x) db) (\<lambda>(_, db1).
        rbind (payPendingClaim (pc_clawback c) x db1) (\<lambda>(_, db2).
        rbind (payClaims a rid lot may (released - x) cs db2) (\<lambda>((left, cs', paid), db3).
          Inr ((left, c\<lparr>owed := owed c - x\<rparr> # cs', x + paid), db3)))))"

fun debt_loop :: "(db \<Rightarrow> uuid) \<Rightarrow> uuid \<Rightarrow> uuid \<Rightarrow> owed_claim list \<Rightarrow> int statement" where
  "debt_loop new_id a rid [] db = Inr (0, db)"
| "debt_loop new_id a rid (c # cs) db =
     (if pc_annual c
      then rbind (dropClaim new_id (pc_clawback c) rid (owed c) db) (\<lambda>(_, db1). debt_loop new_id a rid cs db1)
      else
        rbind (append_ledger (task_entry a [''claim_debt'', pc_clawback c, rid] None
                 (IncurDebt (owed c) (clawbackDebtReason (pc_source c)))) db) (\<lambda>(_, db1).
        rbind (pendingClaimBecomesDebt (pc_clawback c) (owed c) db1) (\<lambda>(_, db2).
        rbind (debt_loop new_id a rid cs db2) (\<lambda>(t, db3). Inr (owed c + t, db3)))))"

definition claimsLeftBecomeDebt :: "(db \<Rightarrow> uuid) \<Rightarrow> uuid \<Rightarrow> uuid \<Rightarrow> owed_claim list \<Rightarrow> int statement" where
  "claimsLeftBecomeDebt new_id a rid claims db =
     (let unpaid = filter (\<lambda>c. owed c > 0) claims
      in if unpaid = [] then Inr (0, db)
         else if hasOtherOpenEnforce a rid db then Inr (0, db)
         else debt_loop new_id a rid unpaid db)"

subsection \<open>The walk over the holds\<close>

record settle_walk =
  sw_left :: int
  sw_owedDebt :: int
  sw_claims :: "owed_claim list"
  sw_claimsPaidMicro :: int
  sw_charges :: "(uuid \<times> int) list"

definition charge_entry :: "uuid \<Rightarrow> credit_reservation \<Rightarrow> uuid \<Rightarrow> int \<Rightarrow> NewCreditLedgerEntry" where
  "charge_entry a r lot x =
     task_entry a [''task_charge'', res_id r, lot] (Some (res_session r))
       (TaskChargeOf lot x (res_id r) (res_card r) (res_model r) None)"

definition append_if :: "bool \<Rightarrow> NewCreditLedgerEntry \<Rightarrow> db \<Rightarrow> db result" where
  "append_if b e db = (if b then rbind (append_ledger e db) (\<lambda>(_, db1). Inr db1) else Inr db)"

definition settle_hold :: "uuid \<Rightarrow> credit_reservation \<Rightarrow> (string \<times> uuid list) list
    \<Rightarrow> settle_walk \<times> db \<Rightarrow> OpenCreditHold \<Rightarrow> (settle_walk \<times> db) result" where
  "settle_hold a r own st h =
     (case st of (w, db) \<Rightarrow>
       let lot = oh_lot h; x = min (sw_left w) (oh_heldMicro h) in
       rbind (releaseHold (res_id r) lot x db) (\<lambda>(_, db1).
       rbind (append_if (x > 0) (charge_entry a r lot x) db1) (\<lambda>db2.
       rbind (payClaims a (res_id r) lot (may_pay own lot) (oh_heldMicro h - x) (sw_claims w) db2)
         (\<lambda>((released, claims, paid), db3).
       let repays = released > 0 \<and> oh_lotRevoked h \<and> sw_owedDebt w > 0;
           repay = (if repays then min released (sw_owedDebt w) else 0) in
       rbind (append_if repays (task_entry a [''task_release_debt'', res_id r, lot] None (RepayDebt lot repay None)) db3)
         (\<lambda>db4.
       rbind (append_if (released - repay > 0 \<and> oh_lotDone h)
                (task_entry a [''task_release_expiry'', res_id r, lot] None (ExpiryOf lot (released - repay) None)) db4)
         (\<lambda>db5.
         Inr (\<lparr>sw_left = sw_left w - x, sw_owedDebt = sw_owedDebt w - repay, sw_claims = claims,
               sw_claimsPaidMicro = sw_claimsPaidMicro w + paid,
               sw_charges = sw_charges w @ (if x > 0 then [(lot, x)] else [])\<rparr>, db5)))))))"

subsection \<open>The settlement\<close>

record CreditSettleResult =
  sr_outcome :: settle_outcome
  sr_chargedMicro :: int
  sr_charges :: "(uuid \<times> int) list"
  sr_claimsPaidMicro :: int
  sr_claimsToDebtMicro :: int

definition EMPTY_SETTLEMENT :: CreditSettleResult where
  "EMPTY_SETTLEMENT =
     \<lparr>sr_outcome = OutcomeUnknown, sr_chargedMicro = 0, sr_charges = [], sr_claimsPaidMicro = 0,
      sr_claimsToDebtMicro = 0\<rparr>"

definition settleIn :: "(db \<Rightarrow> uuid) \<Rightarrow> uuid \<Rightarrow> settle_reason \<Rightarrow> CreditSettleResult statement" where
  "settleIn new_id rid why db0 =
     (case accountOf rid db0 of
        None \<Rightarrow> Inr (EMPTY_SETTLEMENT, db0)
      | Some a \<Rightarrow>
          rbind (lockAccount a db0) (\<lambda>(acct, db1).
          rbind (lockReservation rid db1) (\<lambda>found.
          case found of
            None \<Rightarrow> Inr (EMPTY_SETTLEMENT, db1)
          | Some r \<Rightarrow>
              if res_state r = Settled
              then Inr (EMPTY_SETTLEMENT\<lparr>sr_outcome := OutcomeAlreadySettled,
                          sr_chargedMicro := (case res_charged r of None \<Rightarrow> 0 | Some c \<Rightarrow> c)\<rparr>, db1)
              else
                rbind (settleStartedCallsAfterACrash rid db1) (\<lambda>(_, db2).
                rbind (chargedByCalls rid db2) (\<lambda>charged.
                if res_mode r = Shadow
                then rbind (markSettled rid charged why db2) (\<lambda>(_, db3).
                       Inr (EMPTY_SETTLEMENT\<lparr>sr_outcome := OutcomeSettled, sr_chargedMicro := charged\<rparr>, db3))
                else
                  rbind (pendingClaims a db2) (\<lambda>pending.
                  let claims = map as_owed pending in
                  rbind (ownLots a db2 claims []) (\<lambda>own.
                  rbind (openHoldsInSpendOrder rid db2) (\<lambda>holds.
                  rbind (foldr_result (settle_hold a r own)
                           (\<lparr>sw_left = charged, sw_owedDebt = debt_micro acct, sw_claims = claims,
                             sw_claimsPaidMicro = 0, sw_charges = []\<rparr>, db2) holds) (\<lambda>(w, db3).
                  rbind (markSettled rid charged why db3) (\<lambda>(_, db4).
                  rbind (claimsLeftBecomeDebt new_id a rid (sw_claims w) db4) (\<lambda>(toDebt, db5).
                  rbind (settleDebtFromFree a db5) (\<lambda>(_, db6).
                    Inr (\<lparr>sr_outcome = OutcomeSettled, sr_chargedMicro = charged, sr_charges = sw_charges w,
                          sr_claimsPaidMicro = sw_claimsPaidMicro w, sr_claimsToDebtMicro = toDebt\<rparr>,
                         db6)))))))))))))"

definition settle :: "(db \<Rightarrow> uuid) \<Rightarrow> uuid \<Rightarrow> settle_reason \<Rightarrow> CreditSettleResult statement" where
  "settle new_id rid why = transaction (settleIn new_id rid why)"

end
