(* ===== verification/Task_Invariant.thy ===== *)
theory Task_Invariant
  imports Task_Settlement Ledger_Debt
begin

section \<open>What is true of tasks between transactions\<close>

text \<open>
  The invariant of reservations, holds and model calls, beside the one of balances: every row passes
  its CHECKs, every call and hold belongs to a task of its own account, an account's open enforced
  tasks sit in different slots, the COMMIT-time balance of every task holds, an open task's holds are
  unreleased and nothing has been charged for it, and no ledger row carries a key its settlement will
  use. The first half of the theory says what each table an operation touches means for it.
\<close>

subsection \<open>The tables a fact depends on\<close>

lemma db_inv_cong:
  assumes "credit_accounts db' = credit_accounts db" "credit_lots db' = credit_lots db"
    "credit_ledger db' = credit_ledger db" "ledger_seq db' = ledger_seq db"
    "credit_reservation_holds db' = credit_reservation_holds db"
  shows "db_inv db' = db_inv db"
proof -
  have "find_account db' = find_account db" "find_lot db' = find_lot db" "lot_total db' = lot_total db"
    "debt_total db' = debt_total db" "hold_total db' = hold_total db"
    using assms by (auto simp: fun_eq_iff find_account_def find_lot_def lot_total_def debt_total_def hold_total_def)
  with assms show ?thesis by (simp add: inv_defs)
qed

lemma hygiene_cong:
  assumes "map (\<lambda>l. (lot_id l, granted l)) (credit_lots db') = map (\<lambda>l. (lot_id l, granted l)) (credit_lots db)"
    "credit_ledger db' = credit_ledger db"
  shows "hygiene db' = hygiene db"
proof -
  have "amounts_ok d \<longleftrightarrow> (\<forall>p\<in>set (map (\<lambda>l. (lot_id l, granted l)) (credit_lots d)). uuid_ok (fst p) \<and> snd p \<le> MAX_SAFE)"
    for d by (auto simp: amounts_ok_def)
  from this [of db'] this [of db] have "amounts_ok db' = amounts_ok db" by (simp only: assms(1))
  moreover have "counter_keys db' w k = counter_keys db w k" for w k
    using assms(2) by (simp add: counter_keys_def rows_of_kind_def)
  ultimately show ?thesis by (simp add: hygiene_def)
qed

lemma table_updates [simp]:
  "find_account (db\<lparr>credit_reservations := rs\<rparr>) = find_account db"
  "find_account (db\<lparr>credit_model_calls := cs\<rparr>) = find_account db"
  "find_account (db\<lparr>credit_clawbacks := bs\<rparr>) = find_account db"
  "find_account (db\<lparr>credit_reservation_holds := hs, credit_lots := ls\<rparr>) = find_account db"
  "find_lot (db\<lparr>credit_reservations := rs\<rparr>) = find_lot db"
  "find_lot (db\<lparr>credit_model_calls := cs\<rparr>) = find_lot db"
  "find_lot (db\<lparr>credit_clawbacks := bs\<rparr>) = find_lot db"
  "find_reservation (db\<lparr>credit_model_calls := cs\<rparr>) = find_reservation db"
  "find_reservation (db\<lparr>credit_clawbacks := bs\<rparr>) = find_reservation db"
  "find_reservation (db\<lparr>credit_reservation_holds := hs, credit_lots := ls\<rparr>) = find_reservation db"
  "find_call (db\<lparr>credit_reservations := rs\<rparr>) = find_call db"
  "find_call (db\<lparr>credit_clawbacks := bs\<rparr>) = find_call db"
  "find_clawback (db\<lparr>credit_reservations := rs\<rparr>) = find_clawback db"
  "find_clawback (db\<lparr>credit_model_calls := cs\<rparr>) = find_clawback db"
  "find_clawback (db\<lparr>credit_reservation_holds := hs, credit_lots := ls\<rparr>) = find_clawback db"
  by (auto simp: fun_eq_iff find_account_def find_lot_def find_reservation_def find_call_def find_clawback_def)

lemma apply_finds [simp]:
  "find_reservation (apply_row v db) = find_reservation db" "find_call (apply_row v db) = find_call db"
  "find_clawback (apply_row v db) = find_clawback db" "calls_of (apply_row v db) = calls_of db"
  "holds_of (apply_row v db) = holds_of db"
  by (auto simp: fun_eq_iff find_reservation_def find_call_def find_clawback_def calls_of_def holds_of_def)

lemma of_updates [simp]:
  "calls_of (db\<lparr>credit_reservations := rs\<rparr>) = calls_of db" "calls_of (db\<lparr>credit_clawbacks := bs\<rparr>) = calls_of db"
  "calls_of (db\<lparr>credit_reservation_holds := hs, credit_lots := ls\<rparr>) = calls_of db"
  "holds_of (db\<lparr>credit_reservations := rs\<rparr>) = holds_of db" "holds_of (db\<lparr>credit_model_calls := cs\<rparr>) = holds_of db"
  "holds_of (db\<lparr>credit_clawbacks := bs\<rparr>) = holds_of db"
  "charges_of (db\<lparr>credit_reservations := rs\<rparr>) = charges_of db" "charges_of (db\<lparr>credit_model_calls := cs\<rparr>) = charges_of db"
  "charges_of (db\<lparr>credit_clawbacks := bs\<rparr>) = charges_of db"
  "charges_of (db\<lparr>credit_reservation_holds := hs, credit_lots := ls\<rparr>) = charges_of db"
  by (auto simp: fun_eq_iff calls_of_def holds_of_def charges_of_def)

lemma charges_of_apply [simp]:
  "charges_of (apply_row v db) q =
     charges_of db q @ (if led_reservation v = Some q \<and> led_kind v = TaskCharge then [new_ledger_row v db] else [])"
  by (simp add: charges_of_def)

subsection \<open>The invariant\<close>

definition task_rows_ok :: "db \<Rightarrow> bool" where
  "task_rows_ok db \<longleftrightarrow>
     distinct (map res_id (credit_reservations db)) \<and> distinct (map call_id (credit_model_calls db)) \<and>
     (\<forall>r\<in>set (credit_reservations db). reservation_checks r \<and> uuid_ok (res_id r) \<and> reserved r \<le> MAX_SAFE \<and>
        safe_int (res_card r) \<and> find_account db (res_account r) \<noteq> None) \<and>
     (\<forall>c\<in>set (credit_model_calls db). call_checks c \<and>
        (\<exists>r. find_reservation db (call_reservation c) = Some r \<and> res_account r = call_account c)) \<and>
     (\<forall>h\<in>set (credit_reservation_holds db).
        (\<exists>r. find_reservation db (hold_reservation h) = Some r \<and> res_account r = hold_account h \<and> res_mode r = Enforce) \<and>
        (released_at h = None \<longleftrightarrow> hold_charged h = None))"

definition slots_ok :: "db \<Rightarrow> bool" where
  "slots_ok db \<longleftrightarrow>
     (\<forall>a. distinct (map res_slot (filter (open_enforce a) (credit_reservations db))))"

text \<open>The keys a settlement of task \<open>rid\<close> writes.\<close>

inductive task_key :: "uuid \<Rightarrow> string \<Rightarrow> bool" for rid where
  "uuid_ok lot \<Longrightarrow> w \<in> {''task_charge'', ''task_release_debt'', ''task_release_expiry''} \<Longrightarrow>
     task_key rid (colon_join [w, rid, lot])"
| "uuid_ok lot \<Longrightarrow> uuid_ok cb \<Longrightarrow> task_key rid (colon_join [''claim'', cb, rid, lot])"
| "uuid_ok cb \<Longrightarrow> task_key rid (colon_join [''claim_debt'', cb, rid])"

definition tasks_balanced :: "db \<Rightarrow> bool" where
  "tasks_balanced db \<longleftrightarrow>
     (\<forall>r\<in>set (credit_reservations db). credit_check_reservation db (res_id r) \<and>
        (res_state r = Open \<longrightarrow>
           (\<forall>h\<in>set (holds_of db (res_id r)). released_at h = None) \<and> charges_of db (res_id r) = [] \<and>
           (\<forall>x\<in>set (credit_ledger db). \<not> task_key (res_id r) (idempotency_key x))))"

definition claims_ok :: "db \<Rightarrow> bool" where
  "claims_ok db \<longleftrightarrow>
     distinct (map cb_id (credit_clawbacks db)) \<and>
     (\<forall>c\<in>set (credit_clawbacks db). clawback_checks c \<and> uuid_ok (cb_id c))"

definition task_inv :: "db \<Rightarrow> bool" where
  "task_inv db \<longleftrightarrow> task_rows_ok db \<and> slots_ok db \<and> tasks_balanced db \<and> claims_ok db"

definition sys_inv :: "db \<Rightarrow> bool" where
  "sys_inv db \<longleftrightarrow> db_inv db \<and> hygiene db \<and> task_inv db"

lemmas task_inv_defs = task_inv_def task_rows_ok_def slots_ok_def tasks_balanced_def claims_ok_def

end
