(* ===== verification/Settlement_Steps.thy ===== *)
theory Settlement_Steps
  imports Task_Invariant
begin

section \<open>The steps of a settlement\<close>

text \<open>
  What one settlement may do to the tables, as an inductive relation: write a ledger row of the
  task's account under one of the task's keys, change the clawbacks, release a hold of the task. Rule
  induction over it gives everything a settlement leaves alone (the terms of lots, other tasks' holds
  and charges, other accounts' debt) and that it keeps the invariants; the effect lemmas of the single
  steps say what each one does.
\<close>

subsection \<open>Keys\<close>

inductive_cases task_keyE: "task_key rid k"

lemma task_key_parts:
  assumes "task_key rid k" and "uuid_ok rid"
  obtains ps where "k = colon_join ps" and "\<forall>p\<in>set ps. colon_free p" and "ps \<noteq> []"
    and "hd ps \<in> {''task_charge'', ''task_release_debt'', ''task_release_expiry'', ''claim'', ''claim_debt''}"
    and "ps ! (if hd ps \<in> {''claim'', ''claim_debt''} then 2 else 1) = rid"
    and "1 \<le> length k" and "length k \<le> 200"
  using assms
proof (cases rule: task_key.cases)
  case (1 lot w)
  with assms(2) show thesis
    by (intro that [of "[w, rid, lot]"]) (auto simp: uuid_ok_def colon_free_def colon_join.simps)
next
  case (2 lot cb)
  with assms(2) show thesis
    by (intro that [of "[''claim'', cb, rid, lot]"]) (auto simp: uuid_ok_def colon_free_def colon_join.simps)
next
  case (3 cb)
  with assms(2) show thesis
    by (intro that [of "[''claim_debt'', cb, rid]"]) (auto simp: uuid_ok_def colon_free_def colon_join.simps)
qed

lemma task_key_unique:
  assumes "task_key rid k" "task_key q k" "uuid_ok rid" "uuid_ok q"
  shows "q = rid"
proof -
  obtain ps where ps: "k = colon_join ps" "\<forall>p\<in>set ps. colon_free p" "ps \<noteq> []"
    "ps ! (if hd ps \<in> {''claim'', ''claim_debt''} then 2 else 1) = rid"
    using task_key_parts [OF assms(1,3)] by metis
  obtain qs where qs: "k = colon_join qs" "\<forall>p\<in>set qs. colon_free p" "qs \<noteq> []"
    "qs ! (if hd qs \<in> {''claim'', ''claim_debt''} then 2 else 1) = q"
    using task_key_parts [OF assms(2,4)] by metis
  have "ps = qs" using ps qs by (intro colon_join_inject) auto
  with ps qs show ?thesis by simp
qed

lemma task_key_not_counter:
  assumes "task_key rid k" "uuid_ok rid" "uuid_ok i" "w \<in> {''expiry'', ''debt_repayment''}"
  shows "k \<noteq> colon_join [w, i, dec n]"
proof -
  obtain ps where ps: "k = colon_join ps" "\<forall>p\<in>set ps. colon_free p" "ps \<noteq> []"
    "hd ps \<in> {''task_charge'', ''task_release_debt'', ''task_release_expiry'', ''claim'', ''claim_debt''}"
    using task_key_parts [OF assms(1,2)] by metis
  have "colon_join ps \<noteq> colon_join [w, i, dec n]"
    using ps assms(3,4) by (intro other_family) auto
  with ps show ?thesis by simp
qed

text \<open>The keys a settlement writes while it walks one lot, and those of the claims among them.\<close>

definition claim_key :: "uuid \<Rightarrow> uuid \<Rightarrow> string \<Rightarrow> bool" where
  "claim_key rid lot k \<longleftrightarrow> (\<exists>cb. uuid_ok cb \<and> k = colon_join [''claim'', cb, rid, lot])"

definition lot_key :: "uuid \<Rightarrow> uuid \<Rightarrow> string \<Rightarrow> bool" where
  "lot_key rid lot k \<longleftrightarrow> claim_key rid lot k \<or>
     k \<in> {colon_join [''task_charge'', rid, lot], colon_join [''task_release_debt'', rid, lot],
          colon_join [''task_release_expiry'', rid, lot]}"

lemma lot_key_task: "lot_key rid lot k \<Longrightarrow> uuid_ok lot \<Longrightarrow> task_key rid k"
  by (auto simp: lot_key_def claim_key_def intro: task_key.intros)

lemma lot_key_parts:
  assumes "lot_key rid lot k" and "uuid_ok rid" and "uuid_ok lot"
  obtains ps where "k = colon_join ps" and "\<forall>p\<in>set ps. colon_free p" and "ps \<noteq> []" and "last ps = lot"
    and "hd ps \<noteq> ''claim_debt''"
proof -
  from assms(1) consider w where "k = colon_join [w, rid, lot]"
      "w \<in> {''task_charge'', ''task_release_debt'', ''task_release_expiry''}"
    | cb where "uuid_ok cb" "k = colon_join [''claim'', cb, rid, lot]"
    by (auto simp: lot_key_def claim_key_def)
  then show thesis
  proof cases
    case 1
    with assms show thesis by (intro that [of "[w, rid, lot]"]) (auto simp: uuid_ok_def colon_free_def)
  next
    case 2
    with assms show thesis
      by (intro that [of "[''claim'', cb, rid, lot]"]) (auto simp: uuid_ok_def colon_free_def)
  qed
qed

lemma lot_key_unique:
  assumes "lot_key rid lot k" "lot_key rid lot' k" "uuid_ok rid" "uuid_ok lot" "uuid_ok lot'"
  shows "lot = lot'"
proof -
  obtain ps where ps: "k = colon_join ps" "\<forall>p\<in>set ps. colon_free p" "ps \<noteq> []" "last ps = lot"
    using lot_key_parts [OF assms(1,3,4)] by metis
  obtain qs where qs: "k = colon_join qs" "\<forall>p\<in>set qs. colon_free p" "qs \<noteq> []" "last qs = lot'"
    using lot_key_parts [OF assms(2,3,5)] by metis
  have "ps = qs" using ps qs by (intro colon_join_inject) auto
  with ps qs show ?thesis by simp
qed

lemma lot_key_not_claim_debt:
  assumes "lot_key rid lot k" "uuid_ok rid" "uuid_ok lot" "uuid_ok cb"
  shows "k \<noteq> colon_join [''claim_debt'', cb, rid]"
proof
  assume k: "k = colon_join [''claim_debt'', cb, rid]"
  obtain ps where ps: "k = colon_join ps" "\<forall>p\<in>set ps. colon_free p" "ps \<noteq> []" "hd ps \<noteq> ''claim_debt''"
    using lot_key_parts [OF assms(1-3)] by metis
  have "ps = [''claim_debt'', cb, rid]"
    using ps k assms by (intro colon_join_inject) (auto simp: uuid_ok_def colon_free_def)
  with ps show False by simp
qed

lemma key_inject3:
  assumes "uuid_ok i" "uuid_ok j" "colon_join [w, i, j] = colon_join [w', i, j]" "colon_free w" "colon_free w'"
  shows "w = w'"
proof -
  have "[w, i, j] = [w', i, j]" using assms by (intro colon_join_inject) (auto simp: uuid_ok_def)
  then show ?thesis by simp
qed

lemma claim_key_inject:
  assumes "uuid_ok cb" "uuid_ok cb'" "uuid_ok rid" "uuid_ok lot"
    "colon_join [''claim'', cb, rid, lot] = colon_join [''claim'', cb', rid, lot]"
  shows "cb = cb'"
proof -
  have "[''claim'', cb, rid, lot] = [''claim'', cb', rid, lot]"
    using assms by (intro colon_join_inject) (auto simp: uuid_ok_def colon_free_def)
  then show ?thesis by simp
qed

lemma claim_key_length:
  assumes "claim_key rid lot k" "uuid_ok rid" "uuid_ok lot"
  shows "length k = 116"
  using assms by (auto simp: claim_key_def uuid_ok_def colon_join.simps)

lemma family_key_length:
  assumes "uuid_ok rid" "uuid_ok lot"
  shows "length (colon_join [w, rid, lot]) = length w + 74"
  using assms by (auto simp: uuid_ok_def colon_join.simps)

subsection \<open>Releasing a hold\<close>

definition release_db :: "uuid \<Rightarrow> uuid \<Rightarrow> int \<Rightarrow> int \<Rightarrow> db \<Rightarrow> db" where
  "release_db rid lot x n db =
     db\<lparr>credit_reservation_holds :=
          update_where (the_hold rid lot) (release_row (x, db_now db)) (credit_reservation_holds db),
        credit_lots := update_where (\<lambda>l. lot_id l = lot) (move_held (- n)) (credit_lots db)\<rparr>"

lemma release_row_simps [simp]:
  "hold_reservation (release_row p h) = hold_reservation h" "hold_lot (release_row p h) = hold_lot h"
  "hold_account (release_row p h) = hold_account h" "hold_micro (release_row p h) = hold_micro h"
  "hold_charged (release_row p h) = Some (fst p)" "released_at (release_row p h) = Some (snd p)"
  by (simp_all add: release_row_def)

lemma release_db_simps [simp]:
  "db_now (release_db rid lot x n db) = db_now db" "credit_ledger (release_db rid lot x n db) = credit_ledger db"
  "ledger_seq (release_db rid lot x n db) = ledger_seq db"
  "credit_accounts (release_db rid lot x n db) = credit_accounts db"
  "credit_reservations (release_db rid lot x n db) = credit_reservations db"
  "credit_model_calls (release_db rid lot x n db) = credit_model_calls db"
  "credit_clawbacks (release_db rid lot x n db) = credit_clawbacks db"
  "credit_windows (release_db rid lot x n db) = credit_windows db"
  "credit_window_level_changes (release_db rid lot x n db) = credit_window_level_changes db"
  "credit_rate_cards (release_db rid lot x n db) = credit_rate_cards db"
  "credit_rate_card_models (release_db rid lot x n db) = credit_rate_card_models db"
  "find_account (release_db rid lot x n db) = find_account db"
  "find_reservation (release_db rid lot x n db) = find_reservation db"
  "find_clawback (release_db rid lot x n db) = find_clawback db"
  "calls_of (release_db rid lot x n db) = calls_of db" "charges_of (release_db rid lot x n db) = charges_of db"
  "key_taken (release_db rid lot x n db) = key_taken db"
  "account_debt (release_db rid lot x n db) = account_debt db"
  by (auto simp: release_db_def fun_eq_iff find_account_def find_reservation_def find_clawback_def calls_of_def
      charges_of_def key_taken_def account_debt_def)

lemma find_lot_release [simp]:
  "find_lot (release_db rid lot x n db) i =
     (if i = lot then map_option (move_held (- n)) (find_lot db i) else find_lot db i)"
  by (simp add: release_db_def find_lot_def lot_hold.lookup)

lemma hold_keys_update:
  "map (\<lambda>h. (hold_reservation h, hold_lot h, hold_account h, hold_micro h)) (update_where P (release_row p) hs) =
   map (\<lambda>h. (hold_reservation h, hold_lot h, hold_account h, hold_micro h)) hs"
  by (induction hs) auto

lemma open_sum_release:
  "filter (the_hold rid lot) hs = [h] \<Longrightarrow>
   sum_by hold_micro (filter (\<lambda>k. hold_lot k = i \<and> released_at k = None) (update_where (the_hold rid lot) (release_row p) hs)) =
   sum_by hold_micro (filter (\<lambda>k. hold_lot k = i \<and> released_at k = None) hs) - (if i = lot then hold_micro h else 0)"
proof (induction hs)
  case (Cons k hs)
  show ?case
  proof (cases "the_hold rid lot k")
    case True
    with Cons.prems have k: "k = h" and none: "filter (the_hold rid lot) hs = []" by auto
    have "update_where (the_hold rid lot) (release_row p) hs = hs"
      using none by (intro update_where_idle) (simp add: filter_empty_conv)
    moreover have "hold_lot k = lot" "released_at k = None" using True by (simp_all add: the_hold_def)
    ultimately show ?thesis using True k by auto
  next
    case False
    with Cons show ?thesis by auto
  qed
qed simp

lemma hold_total_release:
  assumes "filter (the_hold rid lot) (credit_reservation_holds db) = [h]"
  shows "hold_total (release_db rid lot x n db) i = hold_total db i - (if i = lot then hold_micro h else 0)"
  using open_sum_release [OF assms] by (simp add: hold_total_def release_db_def)

lemma the_hold_member:
  assumes "filter (the_hold rid lot) hs = [h]"
  shows "h \<in> set hs" "hold_reservation h = rid" "hold_lot h = lot" "released_at h = None"
proof -
  have "h \<in> set (filter (the_hold rid lot) hs)" using assms by simp
  then show "h \<in> set hs" "hold_reservation h = rid" "hold_lot h = lot" "released_at h = None"
    by (auto simp: the_hold_def)
qed

lemma release_bounds:
  assumes "db_inv db" "filter (the_hold rid lot) (credit_reservation_holds db) = [h]" "find_lot db lot = Some l"
  shows "lot_bounds (move_held (- hold_micro h) l)"
proof -
  from assms(1) find_lot_Some [OF assms(3)] have l: "lot_bounds l" "held l = hold_total db lot"
    by (auto simp: inv_defs)
  note h = the_hold_member [OF assms(2)]
  from assms(1) have pos: "\<And>k. k \<in> set (credit_reservation_holds db) \<Longrightarrow> 0 < hold_micro k"
    by (auto simp: inv_defs)
  have "hold_micro h \<le> hold_total db lot"
    unfolding hold_total_def using h pos by (intro sum_by_member_le) (auto intro: less_imp_le)
  with l pos [OF h(1)] show ?thesis by (simp add: lot_bounds_def)
qed

lemma release_inv:
  assumes "db_inv db" "filter (the_hold rid lot) (credit_reservation_holds db) = [h]" "find_lot db lot = Some l"
    "lot_bounds (move_held (- hold_micro h) l)"
  shows "db_inv (release_db rid lot x (hold_micro h) db)" (is "db_inv ?db")
proof -
  have lots: "map lot_id (credit_lots ?db) = map lot_id (credit_lots db)"
    by (simp add: release_db_def lot_hold.keys)
  have grants: "map grant_key (update_where P (move_held n) ls) = map grant_key ls" for P n ls
    by (induction ls) auto
  have holds: "map (\<lambda>h. (hold_reservation h, hold_lot h)) (credit_reservation_holds ?db) =
      map (\<lambda>h. (hold_reservation h, hold_lot h)) (credit_reservation_holds db)"
  proof -
    have "map (\<lambda>h. (hold_reservation h, hold_lot h)) (update_where P (release_row p) hs) =
      map (\<lambda>h. (hold_reservation h, hold_lot h)) hs" for P p hs by (induction hs) auto
    then show ?thesis by (simp add: release_db_def)
  qed
  have "keys_ok ?db" using assms(1) lots by (simp add: inv_defs release_db_def grants)
  moreover have "rows_ok ?db"
    using assms(1) by (fastforce simp: inv_defs)
  moreover have "balances_ok ?db"
  proof -
    have "lot_bounds k \<and> remaining k = lot_total db (lot_id k) \<and> held k = hold_total ?db (lot_id k)"
      if "k \<in> set (credit_lots ?db)" for k
    proof -
      have "lookup_by lot_id lot (credit_lots db) = Some l" using assms(3) by (simp add: find_lot_def)
      from lot_hold.member [OF _ this, of k "- hold_micro h"] that assms(1)
      have "k = move_held (- hold_micro h) l \<or> k \<in> set (credit_lots db) \<and> lot_id k \<noteq> lot"
        by (simp add: release_db_def inv_defs)
      then show ?thesis
        using assms(1,4) find_lot_Some [OF assms(3)] by (auto simp: inv_defs hold_total_release [OF assms(2)])
    qed
    with assms(1) show ?thesis by (auto simp: inv_defs lot_total_def debt_total_def)
  qed
  moreover have "holds_ok ?db"
  proof -
    have "0 < hold_micro h' \<and> (\<exists>k. find_lot ?db (hold_lot h') = Some k \<and> lot_account k = hold_account h')"
      if "h' \<in> set (credit_reservation_holds ?db)" for h'
    proof -
      from that obtain k where "k \<in> set (credit_reservation_holds db)" "hold_micro k = hold_micro h'"
        "hold_lot k = hold_lot h'" "hold_account k = hold_account h'"
        by (auto simp: release_db_def set_update_where)
      moreover from this obtain m where "find_lot db (hold_lot k) = Some m" "lot_account m = hold_account k"
        "0 < hold_micro k"
        using assms(1) by (auto simp: db_inv_def holds_ok_def)
      ultimately show ?thesis by auto
    qed
    moreover have "distinct (map (\<lambda>h. (hold_reservation h, hold_lot h)) (credit_reservation_holds db))"
      using assms(1) by (simp add: db_inv_def holds_ok_def)
    ultimately show ?thesis unfolding holds_ok_def holds by blast
  qed
  ultimately show ?thesis by (simp add: db_inv_def)
qed

subsection \<open>What a settlement may do\<close>

inductive task_moves :: "(string \<Rightarrow> bool) \<Rightarrow> uuid \<Rightarrow> uuid \<Rightarrow> db \<Rightarrow> db \<Rightarrow> bool" for K a rid db where
  moves_refl [simp, intro]: "task_moves K a rid db db"
| moves_row: "task_moves K a rid db d \<Longrightarrow> can_apply v d \<Longrightarrow> led_account v = a \<Longrightarrow> K (idempotency_key v) \<Longrightarrow>
    (\<And>q. led_reservation v = Some q \<Longrightarrow> q = rid) \<Longrightarrow> task_moves K a rid db (apply_row v d)"
| moves_claims: "task_moves K a rid db d \<Longrightarrow> claims_ok (d\<lparr>credit_clawbacks := bs\<rparr>) \<Longrightarrow>
    task_moves K a rid db (d\<lparr>credit_clawbacks := bs\<rparr>)"
| moves_release: "task_moves K a rid db d \<Longrightarrow> filter (the_hold rid lot) (credit_reservation_holds d) = [h] \<Longrightarrow>
    find_lot d lot = Some l \<Longrightarrow> 0 \<le> x \<Longrightarrow> x \<le> hold_micro h \<Longrightarrow> lot_bounds (move_held (- hold_micro h) l) \<Longrightarrow>
    task_moves K a rid db (release_db rid lot x (hold_micro h) d)"

lemma moves_trans: "task_moves K a rid d e \<Longrightarrow> task_moves K a rid db d \<Longrightarrow> task_moves K a rid db e"
  by (induction rule: task_moves.induct) (auto intro: task_moves.intros)

lemma moves_mono: "task_moves K a rid db d \<Longrightarrow> (\<And>k. K k \<Longrightarrow> K' k) \<Longrightarrow> task_moves K' a rid db d"
  by (induction rule: task_moves.induct) (auto intro: task_moves.intros)

lemma moves_frame:
  assumes "task_moves K a rid db d"
  shows "db_now d = db_now db \<and> credit_reservations d = credit_reservations db \<and>
    credit_model_calls d = credit_model_calls db \<and> credit_windows d = credit_windows db \<and>
    credit_window_level_changes d = credit_window_level_changes db \<and>
    credit_rate_cards d = credit_rate_cards db \<and> credit_rate_card_models d = credit_rate_card_models db"
  using assms by (induction rule: task_moves.induct) auto

lemma moves_frame_finds:
  assumes "task_moves K a rid db d"
  shows "find_reservation d = find_reservation db" "calls_of d = calls_of db"
  using moves_frame [OF assms] by (auto simp: fun_eq_iff find_reservation_def calls_of_def)

lemma moves_inv: "task_moves K a rid db d \<Longrightarrow> db_inv db \<Longrightarrow> db_inv d"
proof (induction rule: task_moves.induct)
  case (moves_claims d bs)
  then show ?case using db_inv_cong [of "d\<lparr>credit_clawbacks := bs\<rparr>" d] by simp
qed (auto intro: apply_db_inv release_inv)

lemma moves_claims_ok: "task_moves K a rid db d \<Longrightarrow> claims_ok db \<Longrightarrow> claims_ok d"
proof (induction rule: task_moves.induct)
  case (moves_row d v)
  then show ?case by (simp add: claims_ok_def)
next
  case (moves_release d lot h l x)
  have "claims_ok (release_db rid lot x (hold_micro h) d) = claims_ok d" by (simp add: claims_ok_def)
  with moves_release.IH moves_release.prems show ?case by blast
qed simp_all

lemma task_row_hygiene:
  assumes "hygiene db" "task_key rid (idempotency_key v)" "uuid_ok rid"
  shows "hygiene (apply_row v db)"
proof -
  have "counter_keys (apply_row v db) w k" if "counter_keys db w k" "w \<in> {''expiry'', ''debt_repayment''}" for w k
    using that task_key_not_counter [OF assms(2,3)] by (intro counter_keys_apply) auto
  with assms(1) show ?thesis by (simp add: hygiene_def)
qed

lemma moves_hygiene:
  assumes "task_moves K a rid db d" "hygiene db" "uuid_ok rid" "\<And>k. K k \<Longrightarrow> task_key rid k"
  shows "hygiene d"
  using assms
proof (induction rule: task_moves.induct)
  case (moves_claims d bs)
  then show ?case using hygiene_cong [of "d\<lparr>credit_clawbacks := bs\<rparr>" d] by simp
next
  case (moves_release d lot h l x)
  have "map (\<lambda>l. (lot_id l, granted l)) (update_where P (move_held n) ls) = map (\<lambda>l. (lot_id l, granted l)) ls"
    for P n ls by (induction ls) auto
  then have "hygiene (release_db rid lot x (hold_micro h) d) = hygiene d"
    by (intro hygiene_cong) (simp_all add: release_db_def)
  with moves_release show ?case by simp
qed (auto intro: task_row_hygiene)

lemma moves_ledger:
  assumes "task_moves K a rid db d"
  shows "\<exists>rows. credit_ledger d = credit_ledger db @ rows \<and>
    (\<forall>x\<in>set rows. led_account x = a \<and> K (idempotency_key x) \<and> (\<forall>q. led_reservation x = Some q \<longrightarrow> q = rid))"
  using assms by (induction rule: task_moves.induct) auto

lemma moves_key_free:
  assumes "task_moves K a rid db d" "\<not> key_taken db b k" "\<not> K k"
  shows "\<not> key_taken d b k"
  using moves_ledger [OF assms(1)] assms(2,3) by (auto simp: key_taken_def list_ex_iff)

lemma moves_charges: "task_moves K a rid db d \<Longrightarrow> q \<noteq> rid \<Longrightarrow> charges_of d q = charges_of db q"
  by (induction rule: task_moves.induct) auto

lemma moves_holds: "task_moves K a rid db d \<Longrightarrow> q \<noteq> rid \<Longrightarrow> holds_of d q = holds_of db q"
proof (induction rule: task_moves.induct)
  case (moves_release d lot h l x)
  have "filter (\<lambda>k. hold_reservation k = q) (update_where (the_hold rid lot) f hs) =
      filter (\<lambda>k. hold_reservation k = q) hs" if "\<And>k. hold_reservation (f k) = hold_reservation k" for f hs
    using \<open>q \<noteq> rid\<close> that by (induction hs) (auto simp: the_hold_def)
  with moves_release show ?case by (simp add: holds_of_def release_db_def)
qed auto

lemma moves_hold_terms:
  "task_moves K a rid db d \<Longrightarrow>
   map (\<lambda>h. (hold_reservation h, hold_lot h, hold_account h, hold_micro h)) (credit_reservation_holds d) =
   map (\<lambda>h. (hold_reservation h, hold_lot h, hold_account h, hold_micro h)) (credit_reservation_holds db)"
  by (induction rule: task_moves.induct) (auto simp: release_db_def hold_keys_update)

lemma moves_account:
  "task_moves K a rid db d \<Longrightarrow> (find_account d b = None \<longleftrightarrow> find_account db b = None) \<and>
     (b \<noteq> a \<longrightarrow> find_account d b = find_account db b)"
  by (induction rule: task_moves.induct) auto

lemma moves_lot:
  "task_moves K a rid db d \<Longrightarrow> \<exists>m n. find_lot d i = map_option (\<lambda>l. move_held n (move_remaining m l)) (find_lot db i)"
proof (induction rule: task_moves.induct)
  case moves_refl
  show ?case by (intro exI [of _ 0]) (cases "find_lot db i"; simp)
next
  case (moves_row d v)
  then obtain m n where e: "find_lot d i = map_option (\<lambda>l. move_held n (move_remaining m l)) (find_lot db i)" by blast
  have "move_remaining k (move_held n (move_remaining m l)) = move_held n (move_remaining (m + k) l)" for k l
    by (simp add: move_held_def move_remaining_def)
  with e show ?case
    by (cases "led_lot v = Some i") (auto simp: option.map_comp comp_def)
next
  case (moves_release d lot h l x)
  then obtain m n where e: "find_lot d i = map_option (\<lambda>l. move_held n (move_remaining m l)) (find_lot db i)" by blast
  have "move_held k (move_held n (move_remaining m l)) = move_held (n + k) (move_remaining m l)" for k l
    by (simp add: move_held_def move_remaining_def)
  with e show ?case by (cases "i = lot") (auto simp: option.map_comp comp_def)
qed auto

subsection \<open>A row taken from a lot\<close>

lemma take_effect:
  assumes inv: "db_inv db" and row: "creditLedgerRowFor e = Inr v"
    and v: "led_lot v = Some lot" "lot_delta v = - x" "\<not> funding_kind (led_kind v)" "debt_delta v = - y"
    and amount: "0 < x" "x \<le> free_micro l"
    and lot: "find_lot db lot = Some l" "lot_account l = entry_account e"
    and free_key: "\<not> key_taken db (entry_account e) (entry_key e)"
    and acct: "find_account db (entry_account e) \<noteq> None" "y \<le> account_debt db (entry_account e)"
  shows "can_apply v db" "append_ledger e db = Inr ((True, new_ledger_row v db), apply_row v db)"
proof -
  note facts = row_for_facts [OF row]
  from inv find_lot_Some [OF lot(1)] have "lot_bounds l" by (auto simp: inv_defs)
  moreover obtain c where "find_account db (entry_account e) = Some c" "y \<le> debt_micro c"
    using acct by (auto simp: account_debt_def split: option.splits)
  ultimately show ok: "can_apply v db"
    using facts v amount lot free_key by (auto simp: can_apply_def lot_bounds_def free_micro_def)
  show "append_ledger e db = Inr ((True, new_ledger_row v db), apply_row v db)"
    by (rule append_applies [OF row ok])
qed

subsection \<open>Claims\<close>

interpretation pending_move: row_update cb_id move_pending
  by unfold_locales (simp add: move_pending_def)

interpretation pending_debt: row_update cb_id pending_to_debt
  by unfold_locales (simp add: pending_to_debt_def)

lemma find_clawback_Some: "find_clawback db i = Some c \<Longrightarrow> c \<in> set (credit_clawbacks db) \<and> cb_id c = i"
  by (auto simp: find_clawback_def dest: lookup_by_Some)

text \<open>A guarded UPDATE of one clawback: it selects the row, and the guard and the CHECKs let it through.\<close>

lemma update_clawback_effect:
  assumes ok: "claims_ok db" and c: "find_clawback db i = Some c" and P: "P c" "\<And>q. P q \<Longrightarrow> cb_id q = i"
    and f: "\<And>q. cb_id (f q) = cb_id q" and upd: "clawback_guard c (f c)" "clawback_checks (f c)"
  shows "update_clawbacks P f db =
      Inr ([f c], db\<lparr>credit_clawbacks := update_where (\<lambda>q. cb_id q = i) f (credit_clawbacks db)\<rparr>)" (is ?eq)
    and "claims_ok (db\<lparr>credit_clawbacks := update_where (\<lambda>q. cb_id q = i) f (credit_clawbacks db)\<rparr>)" (is ?ok)
proof -
  have d: "distinct (map cb_id (credit_clawbacks db))" and l: "lookup_by cb_id i (credit_clawbacks db) = Some c"
    using ok c by (simp_all add: claims_ok_def find_clawback_def)
  have one: "filter P (credit_clawbacks db) = [c]"
    using filter_by_key [OF d l, of P] P by simp
  have only: "q = c" if "q \<in> set (credit_clawbacks db)" "cb_id q = i" for q
    using lookup_by_member [OF d that(1)] that(2) l by simp
  have same: "update_where P f (credit_clawbacks db) = update_where (\<lambda>q. cb_id q = i) f (credit_clawbacks db)"
    using only P by (intro update_where_cong) metis
  show ?eq using upd by (simp add: update_clawbacks_def one same)
  have "map cb_id (update_where Q f cs) = map cb_id cs" for Q cs by (induction cs) (auto simp: f)
  moreover have "clawback_checks q \<and> uuid_ok (cb_id q)"
    if "q \<in> set (update_where (\<lambda>q. cb_id q = i) f (credit_clawbacks db))" for q
    using that ok only upd(2) by (auto simp: set_update_where claims_ok_def f)
  ultimately show ?ok using d by (simp add: claims_ok_def)
qed

lemma pay_effect:
  assumes "claims_ok db" "find_clawback db i = Some c" "0 < x" "x \<le> cb_pending c"
  defines "bs \<equiv> update_where (\<lambda>q. cb_id q = i) (move_pending x) (credit_clawbacks db)"
  shows "payPendingClaim i x db = Inr ((), db\<lparr>credit_clawbacks := bs\<rparr>)" "claims_ok (db\<lparr>credit_clawbacks := bs\<rparr>)"
proof -
  note c = find_clawback_Some [OF assms(2)]
  have checks: "clawback_checks c" using c assms(1) by (simp add: claims_ok_def)
  have eff: "update_clawbacks (owes i x) (move_pending x) db = Inr ([move_pending x c], db\<lparr>credit_clawbacks := bs\<rparr>)"
    "claims_ok (db\<lparr>credit_clawbacks := bs\<rparr>)"
    using update_clawback_effect [OF assms(1,2), of "owes i x" "move_pending x"] c assms(3,4) checks
    by (auto simp: bs_def owes_def move_pending_def clawback_guard_def clawback_checks_def)
  show "payPendingClaim i x db = Inr ((), db\<lparr>credit_clawbacks := bs\<rparr>)" by (simp add: payPendingClaim_def eff)
  show "claims_ok (db\<lparr>credit_clawbacks := bs\<rparr>)" by (rule eff)
qed

text \<open>The settlement's list of claims agrees with the clawbacks it was read from.\<close>

definition claim_matches :: "db \<Rightarrow> owed_claim \<Rightarrow> bool" where
  "claim_matches db c \<longleftrightarrow> 0 \<le> owed c \<and> owed c \<le> MAX_SAFE \<and>
     (\<exists>k. find_clawback db (pc_clawback c) = Some k \<and> cb_pending k = owed c \<and> cb_state k = Applied)"

definition claims_match :: "db \<Rightarrow> owed_claim list \<Rightarrow> bool" where
  "claims_match db cs \<longleftrightarrow> distinct (map pc_clawback cs) \<and> (\<forall>c\<in>set cs. claim_matches db c)"

lemma claims_match_Cons [simp]:
  "claims_match db (c # cs) \<longleftrightarrow> claim_matches db c \<and> pc_clawback c \<notin> pc_clawback ` set cs \<and> claims_match db cs"
  by (auto simp: claims_match_def)

lemma claim_matches_cong:
  "find_clawback db' (pc_clawback c) = find_clawback db (pc_clawback c) \<Longrightarrow> claim_matches db' c = claim_matches db c"
  by (simp add: claim_matches_def)

lemma claims_match_cong:
  assumes "\<And>c. c \<in> set cs \<Longrightarrow> find_clawback db' (pc_clawback c) = find_clawback db (pc_clawback c)"
  shows "claims_match db' cs = claims_match db cs"
proof -
  have "claim_matches db' c = claim_matches db c" if "c \<in> set cs" for c
    by (rule claim_matches_cong [OF assms [OF that]])
  then show ?thesis by (simp add: claims_match_def)
qed

lemma claims_match_uuid:
  assumes "claims_ok db" "claims_match db cs" "c \<in> set cs"
  shows "uuid_ok (pc_clawback c)"
proof -
  from assms obtain k where "find_clawback db (pc_clawback c) = Some k"
    by (auto simp: claims_match_def claim_matches_def)
  from find_clawback_Some [OF this] assms(1) show ?thesis by (auto simp: claims_ok_def)
qed

definition forget_owed :: "owed_claim \<Rightarrow> owed_claim" where
  "forget_owed c = c\<lparr>owed := 0\<rparr>"

lemma forget_owed_id: "pc_clawback (forget_owed c) = pc_clawback c"
  by (simp add: forget_owed_def)

lemma forget_ids: "map forget_owed cs' = map forget_owed cs \<Longrightarrow> map pc_clawback cs' = map pc_clawback cs"
proof -
  assume eq: "map forget_owed cs' = map forget_owed cs"
  have ids: "map pc_clawback bs = map pc_clawback (map forget_owed bs)" for bs
    by (simp add: forget_owed_id)
  show ?thesis unfolding ids [of cs'] ids [of cs] eq ..
qed

lemma claim_row:
  assumes "0 < x" "x \<le> MAX_SAFE" "uuid_ok (pc_clawback c)" "uuid_ok rid" "uuid_ok lot"
  obtains v where "creditLedgerRowFor (claim_entry a rid lot c x) = Inr v" "led_lot v = Some lot"
    "lot_delta v = - x" "\<not> funding_kind (led_kind v)" "debt_delta v = 0" "led_reservation v = None"
    "led_account v = a" "idempotency_key v = colon_join [''claim'', pc_clawback c, rid, lot]"
proof -
  let ?e = "claim_entry a rid lot c x"
  let ?v = "common_values ?e (Some (pc_source c)) (clawbackLedgerKind (pc_source c)) (Some lot) (- x) 0"
  have "length (colon_join [''claim'', pc_clawback c, rid, lot]) = 116"
    using claim_key_length [of rid lot] assms by (auto simp: claim_key_def)
  then have "creditLedgerRowFor ?e = Inr ?v"
    using assms(1,2)
    by (simp add: creditLedgerRowFor_def claim_entry_def task_entry_def checkedKey_def positiveMicro_def
        CREDIT_LEDGER_IDEMPOTENCY_KEY_MAX_CHARS_def safe_int_def clawbackLedgerKind_def)
  then show thesis
    by (rule that)
      (simp_all add: funding_kind_def clawbackLedgerKind_def, simp_all add: claim_entry_def task_entry_def)
qed

text \<open>What paying claims from one lot leaves behind.\<close>

definition claims_paid :: "uuid \<Rightarrow> uuid \<Rightarrow> credit_lot \<Rightarrow> db \<Rightarrow> owed_claim list \<Rightarrow> int \<Rightarrow> owed_claim list \<Rightarrow> db \<Rightarrow> bool" where
  "claims_paid a rid l db cs paid cs' db' \<longleftrightarrow>
     task_moves (claim_key rid (lot_id l)) a rid db db' \<and> 0 \<le> paid \<and>
     find_lot db' (lot_id l) = Some (move_remaining (- paid) l) \<and>
     (\<forall>i. i \<noteq> lot_id l \<longrightarrow> find_lot db' i = find_lot db i) \<and>
     account_debt db' a = account_debt db a \<and> charges_of db' rid = charges_of db rid \<and>
     credit_reservation_holds db' = credit_reservation_holds db \<and>
     claims_match db' cs' \<and> map forget_owed cs' = map forget_owed cs \<and> sum_by owed cs' = sum_by owed cs - paid \<and>
     (\<forall>i. i \<notin> pc_clawback ` set cs \<longrightarrow> find_clawback db' i = find_clawback db i) \<and>
     ledger_seq db' \<le> ledger_seq db + length cs"

lemma claims_paid_none:
  assumes "find_lot db (lot_id l) = Some l" "claims_match db cs"
  shows "claims_paid a rid l db cs 0 cs db"
  using assms by (simp add: claims_paid_def)

lemma claims_paid_skip:
  assumes "claims_paid a rid l db cs paid cs' db'" "claims_match db (c # cs)"
  shows "claims_paid a rid l db (c # cs) paid (c # cs') db'"
proof -
  have ids: "pc_clawback ` set cs' = pc_clawback ` set cs"
    using assms(1) forget_ids [of cs' cs] by (metis claims_paid_def list.set_map)
  have "find_clawback db' (pc_clawback c) = find_clawback db (pc_clawback c)"
    using assms by (simp add: claims_paid_def)
  then have "claim_matches db' c" using assms(2) claim_matches_cong [of db' c db] by simp
  with assms ids show ?thesis by (simp add: claims_paid_def)
qed

lemma pay_one_claim:
  assumes inv: "db_inv db" "claims_ok db" "claims_match db (c # cs)" "uuid_ok rid" "uuid_ok (lot_id l)"
    and lot: "find_lot db (lot_id l) = Some l" "lot_account l = a" and acct: "find_account db a \<noteq> None"
    and x: "0 < x" "x \<le> owed c" "x \<le> free_micro l"
    and key: "\<not> key_taken db a (colon_join [''claim'', pc_clawback c, rid, lot_id l])"
  obtains db1 db2 r where "append_ledger (claim_entry a rid (lot_id l) c x) db = Inr (r, db1)"
    "payPendingClaim (pc_clawback c) x db1 = Inr ((), db2)"
    "claims_paid a rid l db [c] x [c\<lparr>owed := owed c - x\<rparr>] db2" "ledger_seq db2 = Suc (ledger_seq db)"
    "\<And>k. key_taken db2 a k \<Longrightarrow> key_taken db a k \<or> k = colon_join [''claim'', pc_clawback c, rid, lot_id l]"
proof -
  from inv(3) obtain k where k: "find_clawback db (pc_clawback c) = Some k" "cb_pending k = owed c"
    "cb_state k = Applied" and size: "owed c \<le> MAX_SAFE" by (auto simp: claim_matches_def)
  have cb: "uuid_ok (pc_clawback c)"
    using find_clawback_Some [OF k(1)] inv(2) by (auto simp: claims_ok_def)
  have "x \<le> MAX_SAFE" using x size by simp
  then obtain v where v: "creditLedgerRowFor (claim_entry a rid (lot_id l) c x) = Inr v" "led_lot v = Some (lot_id l)"
    "lot_delta v = - x" "\<not> funding_kind (led_kind v)" "debt_delta v = 0" "led_reservation v = None"
    "led_account v = a" "idempotency_key v = colon_join [''claim'', pc_clawback c, rid, lot_id l]"
    using claim_row [OF x(1) _ cb inv(4,5), of a] by blast
  have entry: "entry_account (claim_entry a rid (lot_id l) c x) = a"
    "entry_key (claim_entry a rid (lot_id l) c x) = colon_join [''claim'', pc_clawback c, rid, lot_id l]"
    by (simp_all add: claim_entry_def task_entry_def)
  have debt: "0 \<le> account_debt db a"
    using inv(1) by (auto simp: account_debt_def inv_defs split: option.splits dest: find_account_Some)
  note take = take_effect [OF inv(1) v(1-4) _ x(1,3) lot(1), of 0]
  have app: "can_apply v db" "append_ledger (claim_entry a rid (lot_id l) c x) db =
      Inr ((True, new_ledger_row v db), apply_row v db)"
    using take v(5) lot(2) acct key debt by (simp_all add: entry)
  let ?db1 = "apply_row v db"
  have ok1: "claims_ok ?db1" using inv(2) by (simp add: claims_ok_def)
  let ?bs = "update_where (\<lambda>q. cb_id q = pc_clawback c) (move_pending x) (credit_clawbacks ?db1)"
  let ?db2 = "?db1\<lparr>credit_clawbacks := ?bs\<rparr>"
  have k1: "find_clawback ?db1 (pc_clawback c) = Some k" using k(1) by simp
  note pay = pay_effect [OF ok1 k1 x(1)]
  have pay2: "payPendingClaim (pc_clawback c) x ?db1 = Inr ((), ?db2)" "claims_ok ?db2"
    using pay x(2) k(2) by simp_all
  have find2: "find_clawback ?db2 i = (if i = pc_clawback c then map_option (move_pending x) (find_clawback db i)
      else find_clawback db i)" for i
    by (simp add: find_clawback_def pending_move.lookup)
  have K: "claim_key rid (lot_id l) (idempotency_key v)" using cb v(8) by (auto simp: claim_key_def)
  have "task_moves (claim_key rid (lot_id l)) a rid db ?db1"
    using moves_row [OF moves_refl app(1), of a "claim_key rid (lot_id l)" rid] v K by simp
  then have moves: "task_moves (claim_key rid (lot_id l)) a rid db ?db2"
    using pay2(2) by (rule moves_claims)
  have "find_clawback ?db2 (pc_clawback c) = Some (move_pending x k)" unfolding find2 using k(1) by simp
  then have "claim_matches ?db2 (c\<lparr>owed := owed c - x\<rparr>)"
    using k(2,3) x size unfolding claim_matches_def by (auto simp: move_pending_def)
  moreover have others: "\<forall>i. i \<noteq> pc_clawback c \<longrightarrow> find_clawback ?db2 i = find_clawback db i"
    unfolding find2 by simp
  moreover have "charges_of ?db2 rid = charges_of db rid" using v(6) by simp
  moreover have "account_debt ?db2 a = account_debt db a" "find_lot ?db2 (lot_id l) = Some (move_remaining (- x) l)"
    "\<forall>i. i \<noteq> lot_id l \<longrightarrow> find_lot ?db2 i = find_lot db i" "ledger_seq ?db2 = Suc (ledger_seq db)"
    "credit_reservation_holds ?db2 = credit_reservation_holds db"
    using v lot acct by (simp_all add: account_debt_def split: option.splits)
  ultimately have paid: "claims_paid a rid l db [c] x [c\<lparr>owed := owed c - x\<rparr>] ?db2"
    using moves x(1) others by (simp add: claims_paid_def claims_match_def forget_owed_def)
  show thesis
  proof (rule that [OF app(2) pay2(1) paid])
    show "ledger_seq ?db2 = Suc (ledger_seq db)" by simp
    show "key_taken ?db2 a q \<Longrightarrow> key_taken db a q \<or> q = colon_join [''claim'', pc_clawback c, rid, lot_id l]" for q
      using v(8) by (auto simp: key_taken_def)
  qed
qed

lemma claims_paid_then:
  assumes one: "claims_paid a rid l db [c] x [c'] d" and rest: "claims_paid a rid (move_remaining (- x) l) d cs paid cs' db'"
    and fresh: "pc_clawback c \<notin> pc_clawback ` set cs" and seq: "ledger_seq d \<le> Suc (ledger_seq db)"
  shows "claims_paid a rid l db (c # cs) (x + paid) (c' # cs') db'"
proof -
  have c': "pc_clawback c' = pc_clawback c" "forget_owed c' = forget_owed c" "owed c' = owed c - x"
    using one forget_owed_id [of c] forget_owed_id [of c'] by (auto simp: claims_paid_def)
  have ids: "pc_clawback ` set cs' = pc_clawback ` set cs"
    using rest forget_ids [of cs' cs] by (metis claims_paid_def list.set_map)
  have "find_clawback db' (pc_clawback c') = find_clawback d (pc_clawback c')"
    using rest fresh c'(1) by (simp add: claims_paid_def)
  then have "claim_matches db' c'"
    using one claim_matches_cong [of db' c' d] by (simp add: claims_paid_def claims_match_def)
  moreover have "move_remaining (- paid) (move_remaining (- x) l) = move_remaining (- (x + paid)) l"
    by (simp add: move_remaining_def)
  moreover have "task_moves (claim_key rid (lot_id l)) a rid db db'"
    using one rest by (intro moves_trans [of _ _ _ d db' db]) (simp_all add: claims_paid_def)
  ultimately show ?thesis
    using one rest c' ids fresh seq by (simp add: claims_paid_def)
qed

lemma payClaims_effect:
  assumes "db_inv db" "claims_ok db" "claims_match db cs" "uuid_ok rid" "uuid_ok (lot_id l)"
    "find_lot db (lot_id l) = Some l" "lot_account l = a" "find_account db a \<noteq> None"
    "0 \<le> released" "released \<le> free_micro l"
    "\<And>c. c \<in> set cs \<Longrightarrow> \<not> key_taken db a (colon_join [''claim'', pc_clawback c, rid, lot_id l])"
  shows "\<exists>cs' paid db'. payClaims a rid (lot_id l) may released cs db = Inr ((released - paid, cs', paid), db') \<and>
    paid \<le> released \<and> claims_paid a rid l db cs paid cs' db'"
  using assms
proof (induction cs arbitrary: db l released)
  case Nil
  then show ?case using claims_paid_none [of db l "[]" a rid] by (auto simp: claims_match_def)
next
  case (Cons c cs)
  have rest: "claims_match db cs" using Cons.prems(3) by simp
  show ?case
  proof (cases "\<not> may c \<or> 0 < released \<and> owed c \<le> 0")
    case True
    obtain cs' paid db' where "payClaims a rid (lot_id l) may released cs db = Inr ((released - paid, cs', paid), db')"
      "paid \<le> released" and paid: "claims_paid a rid l db cs paid cs' db'"
      using Cons.IH [OF Cons.prems(1,2) rest Cons.prems(4-10)] Cons.prems(11) by auto
    with True show ?thesis using claims_paid_skip [OF paid Cons.prems(3)] by auto
  next
    case False
    show ?thesis
    proof (cases "released \<le> 0")
      case True
      with False Cons.prems show ?thesis
        using claims_paid_none [OF Cons.prems(6,3), of a rid] by (intro exI [of _ "c # cs"]) auto
    next
      case False
      let ?x = "min released (owed c)"
      have x: "0 < ?x" "?x \<le> owed c" "?x \<le> free_micro l" "?x \<le> released"
        using False \<open>\<not> (\<not> may c \<or> 0 < released \<and> owed c \<le> 0)\<close> Cons.prems(10) by auto
      obtain r db1 db2 where app: "append_ledger (claim_entry a rid (lot_id l) c ?x) db = Inr (r, db1)"
        and pay: "payPendingClaim (pc_clawback c) ?x db1 = Inr ((), db2)"
        and one: "claims_paid a rid l db [c] ?x [c\<lparr>owed := owed c - ?x\<rparr>] db2"
        and seq: "ledger_seq db2 = Suc (ledger_seq db)"
        and keys: "\<And>k. key_taken db2 a k \<Longrightarrow>
          key_taken db a k \<or> k = colon_join [''claim'', pc_clawback c, rid, lot_id l]"
        using pay_one_claim [OF Cons.prems(1-8) x(1-3)] Cons.prems(11) by (metis list.set_intros(1))
      have moves: "task_moves (claim_key rid (lot_id l)) a rid db db2" using one by (simp add: claims_paid_def)
      have uuids: "uuid_ok (pc_clawback d)" if "d \<in> set (c # cs)" for d
        by (rule claims_match_uuid [OF Cons.prems(2,3) that])
      have fresh: "\<not> key_taken db2 a (colon_join [''claim'', pc_clawback d, rid, lot_id l])" if "d \<in> set cs" for d
      proof
        assume "key_taken db2 a (colon_join [''claim'', pc_clawback d, rid, lot_id l])"
        with keys Cons.prems(11) that
        have "colon_join [''claim'', pc_clawback d, rid, lot_id l] = colon_join [''claim'', pc_clawback c, rid, lot_id l]"
          by fastforce
        then have "pc_clawback d = pc_clawback c"
          using claim_key_inject uuids Cons.prems(4,5) that by (meson list.set_intros)
        with Cons.prems(3) that show False by (auto simp: image_iff)
      qed
      have match2: "claims_match db2 cs"
      proof -
        have "find_clawback db2 (pc_clawback d) = find_clawback db (pc_clawback d)" if "d \<in> set cs" for d
        proof -
          have "pc_clawback d \<noteq> pc_clawback c" using Cons.prems(3) that by (metis claims_match_Cons imageI)
          then show ?thesis using one by (simp add: claims_paid_def)
        qed
        from claims_match_cong [OF this] show ?thesis using rest by simp
      qed
      let ?l = "move_remaining (- ?x) l"
      have "\<exists>cs' paid db'. payClaims a rid (lot_id ?l) may (released - ?x) cs db2 =
          Inr ((released - ?x - paid, cs', paid), db') \<and> paid \<le> released - ?x \<and> claims_paid a rid ?l db2 cs paid cs' db'"
      proof (rule Cons.IH)
        show "db_inv db2" "claims_ok db2" "find_account db2 a \<noteq> None"
          using moves_inv [OF moves] moves_claims_ok [OF moves] moves_account [OF moves, of a] Cons.prems by blast+
        show "find_lot db2 (lot_id ?l) = Some ?l" using one by (simp add: claims_paid_def)
      qed (use Cons.prems match2 x fresh in \<open>auto simp: free_micro_def\<close>)
      then obtain cs' paid db' where loop: "payClaims a rid (lot_id l) may (released - ?x) cs db2 =
          Inr ((released - ?x - paid, cs', paid), db')" "paid \<le> released - ?x" "claims_paid a rid ?l db2 cs paid cs' db'"
        by auto
      have "claims_paid a rid l db (c # cs) (?x + paid) (c\<lparr>owed := owed c - ?x\<rparr> # cs') db'"
        using claims_paid_then [OF one loop(3)] Cons.prems(3) seq by simp
      moreover have "payClaims a rid (lot_id l) may released (c # cs) db =
          Inr ((released - (?x + paid), c\<lparr>owed := owed c - ?x\<rparr> # cs', ?x + paid), db')"
        using \<open>\<not> (\<not> may c \<or> 0 < released \<and> owed c \<le> 0)\<close> False app pay loop(1) by (simp add: Let_def algebra_simps)
      ultimately show ?thesis using loop(2) by fastforce
    qed
  qed
qed

end
