(* ===== verification/Settlement_Walk.thy ===== *)
theory Settlement_Walk
  imports Settlement_Steps
begin

section \<open>The walk over the holds of a task\<close>

text \<open>
  What \<open>settle_hold\<close> and the loop over it leave behind. A hold is \<open>ready\<close> when it is open, its lot is
  the account's own and no ledger row has a key the step will write; then the step succeeds, and
  releasing one hold leaves the others ready. The charge is drawn from the holds in the order they
  are walked.
\<close>

subsection \<open>One row taken from the lot\<close>

lemma debt_nonneg: "db_inv db \<Longrightarrow> 0 \<le> account_debt db a"
  by (auto simp: account_debt_def inv_defs split: option.splits dest: find_account_Some)

text \<open>An entry of task \<open>rid\<close> whose row takes \<open>x\<close> from the lot, repays \<open>y\<close> of debt and charges \<open>c\<close>.\<close>

definition take_row :: "uuid \<Rightarrow> uuid \<Rightarrow> int \<Rightarrow> int \<Rightarrow> int \<Rightarrow> NewCreditLedgerEntry \<Rightarrow> credit_ledger_values \<Rightarrow> bool" where
  "take_row rid lot x y c e v \<longleftrightarrow>
     creditLedgerRowFor e = Inr v \<and> led_lot v = Some lot \<and> lot_delta v = - x \<and> debt_delta v = - y \<and>
     \<not> funding_kind (led_kind v) \<and> (\<forall>q. led_reservation v = Some q \<longrightarrow> q = rid) \<and>
     c = (if led_reservation v = Some rid \<and> led_kind v = TaskCharge then x else 0)"

lemma task_row_key:
  assumes "uuid_ok rid" "uuid_ok lot" "w \<in> {''task_charge'', ''task_release_debt'', ''task_release_expiry''}"
  shows "checkedKey (colon_join [w, rid, lot]) = Inr (colon_join [w, rid, lot])"
  using family_key_length [OF assms(1,2), of w] assms(3) unfolding checkedKey_Inr by auto

lemma positive_safe: "0 < x \<Longrightarrow> x \<le> MAX_SAFE \<Longrightarrow> positiveMicro x = Inr x"
  by (simp add: positiveMicro_def safe_int_def)

lemma charge_row:
  assumes "0 < x" "x \<le> MAX_SAFE" "uuid_ok (res_id r)" "uuid_ok lot"
  shows "\<exists>v. take_row (res_id r) lot x 0 x (charge_entry a r lot x) v"
  using positive_safe [OF assms(1,2)] task_row_key [OF assms(3,4), of "''task_charge''"]
  by (simp add: take_row_def creditLedgerRowFor_def funding_kind_def charge_entry_def task_entry_def)

lemma release_debt_row:
  assumes "0 < x" "x \<le> MAX_SAFE" "uuid_ok rid" "uuid_ok lot"
  shows "\<exists>v. take_row rid lot x x 0 (task_entry a [''task_release_debt'', rid, lot] None (RepayDebt lot x None)) v"
  using positive_safe [OF assms(1,2)] task_row_key [OF assms(3,4), of "''task_release_debt''"]
  by (simp add: take_row_def creditLedgerRowFor_def funding_kind_def task_entry_def)

lemma release_expiry_row:
  assumes "0 < x" "x \<le> MAX_SAFE" "uuid_ok rid" "uuid_ok lot"
  shows "\<exists>v. take_row rid lot x 0 0 (task_entry a [''task_release_expiry'', rid, lot] None (ExpiryOf lot x None)) v"
  using positive_safe [OF assms(1,2)] task_row_key [OF assms(3,4), of "''task_release_expiry''"]
  by (simp add: take_row_def creditLedgerRowFor_def funding_kind_def task_entry_def)

text \<open>What such a row leaves behind; with all amounts zero, that nothing happened.\<close>

definition took :: "uuid \<Rightarrow> uuid \<Rightarrow> credit_lot \<Rightarrow> string \<Rightarrow> int \<Rightarrow> int \<Rightarrow> int \<Rightarrow> db \<Rightarrow> db \<Rightarrow> bool" where
  "took a rid l k x y c db db' \<longleftrightarrow>
     task_moves (lot_key rid (lot_id l)) a rid db db' \<and>
     find_lot db' (lot_id l) = Some (move_remaining (- x) l) \<and>
     (\<forall>i. i \<noteq> lot_id l \<longrightarrow> find_lot db' i = find_lot db i) \<and>
     account_debt db' a = account_debt db a - y \<and>
     sum_by lot_delta (charges_of db' rid) = sum_by lot_delta (charges_of db rid) - c \<and>
     credit_reservation_holds db' = credit_reservation_holds db \<and>
     find_clawback db' = find_clawback db \<and>
     ledger_seq db' \<le> Suc (ledger_seq db) \<and>
     (\<forall>q. key_taken db' a q \<longrightarrow> key_taken db a q \<or> q = k)"

lemma tookD:
  assumes "took a rid l k x y c db db'"
  shows "task_moves (lot_key rid (lot_id l)) a rid db db'" "find_lot db' (lot_id l) = Some (move_remaining (- x) l)"
    "i \<noteq> lot_id l \<Longrightarrow> find_lot db' i = find_lot db i" "account_debt db' a = account_debt db a - y"
    "sum_by lot_delta (charges_of db' rid) = sum_by lot_delta (charges_of db rid) - c"
    "credit_reservation_holds db' = credit_reservation_holds db" "find_clawback db' = find_clawback db"
    "ledger_seq db' \<le> Suc (ledger_seq db)" "key_taken db' a q \<Longrightarrow> key_taken db a q \<or> q = k"
  using assms by (simp_all add: took_def)

lemma append_if_took:
  assumes inv: "db_inv db" and lot: "find_lot db (lot_id l) = Some l" "lot_account l = a"
    and acct: "find_account db a \<noteq> None"
    and e: "entry_account e = a" "lot_key rid (lot_id l) (entry_key e)"
    and row: "b \<Longrightarrow> \<exists>v. take_row rid (lot_id l) x y c e v"
    and amount: "b \<Longrightarrow> 0 < x \<and> x \<le> free_micro l \<and> y \<le> account_debt db a \<and> \<not> key_taken db a (entry_key e)"
  shows "\<exists>db'. append_if b e db = Inr db' \<and>
    took a rid l (entry_key e) (if b then x else 0) (if b then y else 0) (if b then c else 0) db db'"
proof (cases b)
  case False
  then show ?thesis using lot by (simp add: append_if_def took_def)
next
  case True
  with row obtain v where v: "take_row rid (lot_id l) x y c e v" by blast
  from v have r: "creditLedgerRowFor e = Inr v" "led_lot v = Some (lot_id l)" "lot_delta v = - x"
    "\<not> funding_kind (led_kind v)" "debt_delta v = - y" and res: "\<And>q. led_reservation v = Some q \<Longrightarrow> q = rid"
    and c: "c = (if led_reservation v = Some rid \<and> led_kind v = TaskCharge then x else 0)"
    by (auto simp: take_row_def)
  note facts = row_for_facts [OF r(1)]
  note amount = amount [OF True]
  have app: "can_apply v db" "append_ledger e db = Inr ((True, new_ledger_row v db), apply_row v db)"
    using take_effect [OF inv r _ _ lot(1)] amount lot(2) acct e(1) by simp_all
  have "task_moves (lot_key rid (lot_id l)) a rid db (apply_row v db)"
    using moves_row [OF moves_refl app(1), of a "lot_key rid (lot_id l)" rid] facts e res by simp
  moreover have "account_debt (apply_row v db) a = account_debt db a - y"
    using facts(4) e(1) r(5) acct by (auto simp: account_debt_def split: option.splits)
  moreover have "key_taken (apply_row v db) a q \<Longrightarrow> key_taken db a q \<or> q = entry_key e" for q
    using facts(5) by (auto simp: key_taken_def)
  ultimately have "took a rid l (entry_key e) x y c db (apply_row v db)"
    using r lot c by (auto simp: took_def fun_eq_iff)
  with True app(2) show ?thesis by (simp add: append_if_def)
qed

subsection \<open>One hold\<close>

definition ready_hold :: "db \<Rightarrow> uuid \<Rightarrow> uuid \<Rightarrow> OpenCreditHold \<Rightarrow> bool" where
  "ready_hold db a rid h \<longleftrightarrow>
     uuid_ok (oh_lot h) \<and> oh_heldMicro h \<le> MAX_SAFE \<and>
     (\<exists>k. filter (the_hold rid (oh_lot h)) (credit_reservation_holds db) = [k] \<and>
          hold_micro k = oh_heldMicro h \<and> hold_charged k = None) \<and>
     (\<exists>l. find_lot db (oh_lot h) = Some l \<and> lot_account l = a) \<and>
     (\<forall>k. lot_key rid (oh_lot h) k \<longrightarrow> \<not> key_taken db a k)"

definition walk_ok :: "uuid \<Rightarrow> uuid \<Rightarrow> settle_walk \<Rightarrow> db \<Rightarrow> bool" where
  "walk_ok a rid w db \<longleftrightarrow>
     db_inv db \<and> claims_ok db \<and> uuid_ok rid \<and> find_account db a \<noteq> None \<and> 0 \<le> sw_left w \<and>
     sw_owedDebt w = account_debt db a \<and> claims_match db (sw_claims w)"

text \<open>The state after one hold, of which \<open>x\<close> was charged.\<close>

definition hold_walked :: "uuid \<Rightarrow> uuid \<Rightarrow> uuid \<Rightarrow> int \<Rightarrow> settle_walk \<Rightarrow> db \<Rightarrow> settle_walk \<Rightarrow> db \<Rightarrow> bool" where
  "hold_walked a rid lot x w db w' db' \<longleftrightarrow>
     task_moves (lot_key rid lot) a rid db db' \<and>
     (\<forall>i. i \<noteq> lot \<longrightarrow> find_lot db' i = find_lot db i) \<and>
     credit_reservation_holds db' =
       update_where (the_hold rid lot) (release_row (x, db_now db)) (credit_reservation_holds db) \<and>
     sum_by lot_delta (charges_of db' rid) = sum_by lot_delta (charges_of db rid) - x \<and>
     sw_left w' = sw_left w - x \<and> sw_owedDebt w' = account_debt db' a \<and>
     account_debt db' a \<le> account_debt db a \<and>
     claims_match db' (sw_claims w') \<and> map forget_owed (sw_claims w') = map forget_owed (sw_claims w) \<and>
     sw_claimsPaidMicro w \<le> sw_claimsPaidMicro w' \<and>
     sum_by owed (sw_claims w') + sw_claimsPaidMicro w' = sum_by owed (sw_claims w) + sw_claimsPaidMicro w \<and>
     sw_charges w' = sw_charges w @ (if x > 0 then [(lot, x)] else []) \<and>
     ledger_seq db' \<le> ledger_seq db + 3 + length (sw_claims w)"

lemma releaseHold_effect:
  assumes "db_inv db" "filter (the_hold rid lot) (credit_reservation_holds db) = [k]" "find_lot db lot = Some l"
    "0 \<le> x" "x \<le> hold_micro k"
  shows "releaseHold rid lot x db = Inr ((), release_db rid lot x (hold_micro k) db)"
    and "db_inv (release_db rid lot x (hold_micro k) db)"
    and "task_moves K a rid db (release_db rid lot x (hold_micro k) db)"
proof -
  note b = release_bounds [OF assms(1-3)]
  show "releaseHold rid lot x db = Inr ((), release_db rid lot x (hold_micro k) db)"
    using assms b by (simp add: releaseHold_def release_db_def)
  show "db_inv (release_db rid lot x (hold_micro k) db)" by (rule release_inv [OF assms(1-3) b])
  show "task_moves K a rid db (release_db rid lot x (hold_micro k) db)"
    by (rule moves_release [OF moves_refl assms(2-5) b])
qed

lemma lot_key_families:
  assumes "uuid_ok rid" "uuid_ok lot"
  defines "ch \<equiv> colon_join [''task_charge'', rid, lot]" and "dt \<equiv> colon_join [''task_release_debt'', rid, lot]"
    and "ex \<equiv> colon_join [''task_release_expiry'', rid, lot]"
  shows "lot_key rid lot ch" "lot_key rid lot dt" "lot_key rid lot ex" "ch \<noteq> dt" "ch \<noteq> ex" "dt \<noteq> ex"
    "\<not> claim_key rid lot ch" "\<not> claim_key rid lot dt" "\<not> claim_key rid lot ex"
proof -
  have len: "length ch = 85" "length dt = 91" "length ex = 93"
    unfolding ch_def dt_def ex_def family_key_length [OF assms(1,2)] by simp_all
  show "lot_key rid lot ch" "lot_key rid lot dt" "lot_key rid lot ex"
    by (simp_all add: lot_key_def ch_def dt_def ex_def)
  show "ch \<noteq> dt" "ch \<noteq> ex" "dt \<noteq> ex" using len by auto
  show "\<not> claim_key rid lot ch" "\<not> claim_key rid lot dt" "\<not> claim_key rid lot ex"
    using claim_key_length [OF _ assms(1,2)] len by auto
qed

text \<open>What is left of a hold repays debt from a revoked lot, and expires from one that is done.\<close>

lemma let_go_effect:
  assumes inv: "db_inv d" and lot: "find_lot d (lot_id l) = Some l" "lot_account l = a"
    and acct: "find_account d a \<noteq> None" and ids: "uuid_ok rid" "uuid_ok (lot_id l)"
    and n: "0 \<le> n" "n \<le> free_micro l" "n \<le> MAX_SAFE"
    and fresh: "\<not> key_taken d a (colon_join [''task_release_debt'', rid, lot_id l])"
      "\<not> key_taken d a (colon_join [''task_release_expiry'', rid, lot_id l])"
    and repays: "repays \<longleftrightarrow> n > 0 \<and> rv \<and> account_debt d a > 0"
    and repay: "repay = (if repays then min n (account_debt d a) else 0)"
  shows "\<exists>d1 d2.
    append_if repays (task_entry a [''task_release_debt'', rid, lot_id l] None (RepayDebt (lot_id l) repay None)) d = Inr d1 \<and>
    append_if (n - repay > 0 \<and> dn) (task_entry a [''task_release_expiry'', rid, lot_id l] None (ExpiryOf (lot_id l) (n - repay) None)) d1
      = Inr d2 \<and>
    task_moves (lot_key rid (lot_id l)) a rid d d2 \<and> (\<forall>i. i \<noteq> lot_id l \<longrightarrow> find_lot d2 i = find_lot d i) \<and>
    account_debt d2 a = account_debt d a - repay \<and>
    sum_by lot_delta (charges_of d2 rid) = sum_by lot_delta (charges_of d rid) \<and>
    credit_reservation_holds d2 = credit_reservation_holds d \<and> find_clawback d2 = find_clawback d \<and>
    ledger_seq d2 \<le> ledger_seq d + 2"
proof -
  note fam = lot_key_families [OF ids]
  let ?e1 = "task_entry a [''task_release_debt'', rid, lot_id l] None (RepayDebt (lot_id l) repay None)"
  let ?e2 = "task_entry a [''task_release_expiry'', rid, lot_id l] None (ExpiryOf (lot_id l) (n - repay) None)"
  have r: "0 \<le> repay" "repay \<le> n" "repay \<le> account_debt d a \<or> repay = 0" "repays \<Longrightarrow> 0 < repay \<and> repay \<le> account_debt d a"
    using n repays repay by auto
  have entry: "entry_account ?e1 = a" "entry_key ?e1 = colon_join [''task_release_debt'', rid, lot_id l]"
    "entry_account ?e2 = a" "entry_key ?e2 = colon_join [''task_release_expiry'', rid, lot_id l]"
    by (simp_all only: task_entry_def NewCreditLedgerEntry.simps)
  obtain d1 where d1: "append_if repays ?e1 d = Inr d1"
    "took a rid l (entry_key ?e1) (if repays then repay else 0) (if repays then repay else 0) (if repays then 0 else 0) d d1"
  proof -
    have "\<exists>d1. append_if repays ?e1 d = Inr d1 \<and>
      took a rid l (entry_key ?e1) (if repays then repay else 0) (if repays then repay else 0) (if repays then 0 else 0) d d1"
    proof (rule append_if_took [OF inv lot acct entry(1)])
      show "lot_key rid (lot_id l) (entry_key ?e1)" unfolding entry by (rule fam(2))
      show "repays \<Longrightarrow> \<exists>v. take_row rid (lot_id l) repay repay 0 ?e1 v"
        using release_debt_row [OF _ _ ids, of repay a] r n by auto
      show "repays \<Longrightarrow> 0 < repay \<and> repay \<le> free_micro l \<and> repay \<le> account_debt d a \<and> \<not> key_taken d a (entry_key ?e1)"
        unfolding entry using r n fresh(1) by auto
    qed
    then show thesis using that by blast
  qed
  have zero: "(if repays then repay else 0) = repay" using repay by simp
  note t1 = tookD [OF d1(2) [unfolded zero entry]]
  let ?l = "move_remaining (- repay) l"
  have l1: "find_lot d1 (lot_id ?l) = Some ?l" "lot_account ?l = a" using t1(2) lot(2) by simp_all
  have acct1: "find_account d1 a \<noteq> None" using moves_account [OF t1(1), of a] acct by blast
  have ids1: "lot_key rid (lot_id ?l) (entry_key ?e2)" unfolding entry using fam(3) by simp
  have fresh1: "\<not> key_taken d1 a (entry_key ?e2)" unfolding entry using t1(9) fresh(2) fam(6) by metis
  have "\<exists>d2. append_if (n - repay > 0 \<and> dn) ?e2 d1 = Inr d2 \<and> took a rid ?l (entry_key ?e2)
      (if n - repay > 0 \<and> dn then n - repay else 0) (if n - repay > 0 \<and> dn then 0 else 0)
      (if n - repay > 0 \<and> dn then 0 else 0) d1 d2"
  proof (rule append_if_took [OF moves_inv [OF _ inv] l1 acct1 entry(3) ids1])
    show "task_moves (lot_key rid (lot_id l)) a rid d d1" by (rule t1(1))
    show "n - repay > 0 \<and> dn \<Longrightarrow> \<exists>v. take_row rid (lot_id ?l) (n - repay) 0 0 ?e2 v"
      using release_expiry_row [OF _ _ ids, of "n - repay" a] r n by simp
    have "free_micro ?l = free_micro l - repay" by (simp add: free_micro_def)
    moreover have "0 \<le> account_debt d1 a" using debt_nonneg [OF moves_inv [OF t1(1) inv]] .
    ultimately show "n - repay > 0 \<and> dn \<Longrightarrow> 0 < n - repay \<and> n - repay \<le> free_micro ?l \<and> 0 \<le> account_debt d1 a \<and>
        \<not> key_taken d1 a (entry_key ?e2)"
      using n fresh1 by auto
  qed
  then obtain d2 where d2: "append_if (n - repay > 0 \<and> dn) ?e2 d1 = Inr d2"
    "took a rid ?l (entry_key ?e2) (if n - repay > 0 \<and> dn then n - repay else 0) 0 0 d1 d2" by auto
  note t2 = tookD [OF d2(2)]
  have "task_moves (lot_key rid (lot_id l)) a rid d d2"
    using t1(1) t2(1) moves_trans [of "lot_key rid (lot_id l)" a rid d1 d2 d] by simp
  moreover have "\<forall>i. i \<noteq> lot_id l \<longrightarrow> find_lot d2 i = find_lot d i" using t1(3) t2(3) by simp
  ultimately show ?thesis
    using d1(1) d2(1) t1(4-8) t2(4-8) by (intro exI [of _ d1] exI [of _ d2]) simp
qed

lemma claims_paidD:
  assumes "claims_paid a rid l db cs paid cs' db'"
  shows "task_moves (lot_key rid (lot_id l)) a rid db db'" "0 \<le> paid"
    "find_lot db' (lot_id l) = Some (move_remaining (- paid) l)"
    "i \<noteq> lot_id l \<Longrightarrow> find_lot db' i = find_lot db i" "account_debt db' a = account_debt db a"
    "charges_of db' rid = charges_of db rid" "credit_reservation_holds db' = credit_reservation_holds db"
    "claims_match db' cs'" "map forget_owed cs' = map forget_owed cs" "sum_by owed cs' = sum_by owed cs - paid"
    "ledger_seq db' \<le> ledger_seq db + length cs"
    "\<not> key_taken db a q \<Longrightarrow> \<not> claim_key rid (lot_id l) q \<Longrightarrow> \<not> key_taken db' a q"
proof -
  have m: "task_moves (claim_key rid (lot_id l)) a rid db db'" using assms by (simp add: claims_paid_def)
  show "task_moves (lot_key rid (lot_id l)) a rid db db'" by (rule moves_mono [OF m]) (simp add: lot_key_def)
  show "\<not> key_taken db a q \<Longrightarrow> \<not> claim_key rid (lot_id l) q \<Longrightarrow> \<not> key_taken db' a q"
    by (rule moves_key_free [OF m])
qed (use assms in \<open>simp_all add: claims_paid_def\<close>)

text \<open>The release and the charge: the lot keeps at least what the hold did not pay free.\<close>

lemma release_and_charge:
  assumes ok: "walk_ok a rid w db" and ready: "ready_hold db a rid h" and rid: "rid = res_id r"
    and x: "x = min (sw_left w) (oh_heldMicro h)"
  shows "\<exists>d1 d2 l. releaseHold rid (oh_lot h) x db = Inr ((), d1) \<and>
    append_if (x > 0) (charge_entry a r (oh_lot h) x) d1 = Inr d2 \<and>
    task_moves (lot_key rid (oh_lot h)) a rid db d2 \<and> lot_id l = oh_lot h \<and> lot_account l = a \<and>
    find_lot d2 (oh_lot h) = Some l \<and> 0 \<le> x \<and> 0 \<le> oh_heldMicro h - x \<and> oh_heldMicro h - x \<le> free_micro l \<and>
    (\<forall>i. i \<noteq> oh_lot h \<longrightarrow> find_lot d2 i = find_lot db i) \<and> account_debt d2 a = account_debt db a \<and>
    sum_by lot_delta (charges_of d2 rid) = sum_by lot_delta (charges_of db rid) - x \<and>
    credit_reservation_holds d2 =
      update_where (the_hold rid (oh_lot h)) (release_row (x, db_now db)) (credit_reservation_holds db) \<and>
    find_clawback d2 = find_clawback db \<and> ledger_seq d2 \<le> ledger_seq db + 1 \<and>
    (\<forall>q. lot_key rid (oh_lot h) q \<longrightarrow> q \<noteq> colon_join [''task_charge'', rid, oh_lot h] \<longrightarrow> \<not> key_taken d2 a q)"
proof -
  from ready obtain k l where k: "filter (the_hold rid (oh_lot h)) (credit_reservation_holds db) = [k]"
    "hold_micro k = oh_heldMicro h" and l: "find_lot db (oh_lot h) = Some l" "lot_account l = a"
    and lot: "uuid_ok (oh_lot h)" and size: "oh_heldMicro h \<le> MAX_SAFE"
    and fresh: "\<And>q. lot_key rid (oh_lot h) q \<Longrightarrow> \<not> key_taken db a q" by (auto simp: ready_hold_def)
  from ok have inv: "db_inv db" "uuid_ok rid" "find_account db a \<noteq> None" "0 \<le> sw_left w" by (simp_all add: walk_ok_def)
  have "0 < hold_micro k" using inv(1) the_hold_member(1) [OF k(1)] by (auto simp: inv_defs)
  then have x': "0 \<le> x" "x \<le> hold_micro k" "x \<le> MAX_SAFE" using x k(2) inv(4) size by auto
  let ?d = "release_db rid (oh_lot h) x (hold_micro k) db" and ?l = "move_held (- hold_micro k) l"
  note rel = releaseHold_effect [OF inv(1) k(1) l(1) x'(1,2)]
  have "lot_bounds l" using inv(1) find_lot_Some [OF l(1)] by (auto simp: inv_defs)
  then have free: "hold_micro k \<le> free_micro ?l" by (simp add: lot_bounds_def free_micro_def)
  have lid: "lot_id ?l = oh_lot h" using find_lot_Some [OF l(1)] by simp
  let ?e = "charge_entry a r (oh_lot h) x"
  have entry: "entry_account ?e = a" "entry_key ?e = colon_join [''task_charge'', rid, oh_lot h]"
    unfolding charge_entry_def task_entry_def rid by simp_all
  have "\<exists>d2. append_if (x > 0) ?e ?d = Inr d2 \<and>
      took a rid ?l (entry_key ?e) (if x > 0 then x else 0) (if x > 0 then 0 else 0) (if x > 0 then x else 0) ?d d2"
  proof (rule append_if_took [OF rel(2) _ _ _ entry(1)])
    show "find_lot ?d (lot_id ?l) = Some ?l" using l(1) lid by simp
    show "lot_account ?l = a" "find_account ?d a \<noteq> None" using l(2) inv(3) by simp_all
    show "lot_key rid (lot_id ?l) (entry_key ?e)" unfolding lid entry by (simp add: lot_key_def)
    show "0 < x \<Longrightarrow> \<exists>v. take_row rid (lot_id ?l) x 0 x ?e v"
      unfolding lid rid using charge_row [of x r "oh_lot h" a] x' lot inv(2) rid by simp
    show "0 < x \<Longrightarrow> 0 < x \<and> x \<le> free_micro ?l \<and> 0 \<le> account_debt ?d a \<and> \<not> key_taken ?d a (entry_key ?e)"
      unfolding entry using debt_nonneg [OF inv(1), of a] x' free fresh [of "colon_join [''task_charge'', rid, oh_lot h]"]
      by (auto simp: lot_key_def)
  qed
  moreover have "(if x > 0 then x else 0) = x" using x' by simp
  ultimately obtain d2 where d2: "append_if (x > 0) ?e ?d = Inr d2" "took a rid ?l (entry_key ?e) x 0 x ?d d2" by auto
  note t = tookD [OF d2(2), unfolded lid entry]
  have "task_moves (lot_key rid (oh_lot h)) a rid db d2" by (rule moves_trans [OF t(1) rel(3)])
  moreover have "find_lot d2 i = find_lot db i" if "i \<noteq> oh_lot h" for i using t(3) [OF that] that by simp
  moreover have "credit_reservation_holds ?d =
      update_where (the_hold rid (oh_lot h)) (release_row (x, db_now db)) (credit_reservation_holds db)"
    by (simp add: release_db_def)
  moreover have "\<not> key_taken d2 a q" if "lot_key rid (oh_lot h) q" "q \<noteq> colon_join [''task_charge'', rid, oh_lot h]" for q
    using t(9) [of q] fresh [OF that(1)] that(2) by auto
  moreover have "oh_heldMicro h - x \<le> free_micro (move_remaining (- x) ?l)" using free k(2) by (simp add: free_micro_def)
  ultimately show ?thesis
    using rel(1) d2(1) t(2,4-8) x' k(2) l(2) lid
    by (intro exI [of _ ?d] exI [of _ d2] exI [of _ "move_remaining (- x) ?l"]) simp
qed

lemma settle_hold_effect:
  assumes ok: "walk_ok a rid w db" and ready: "ready_hold db a rid h" and rid: "rid = res_id r"
  defines "x \<equiv> min (sw_left w) (oh_heldMicro h)"
  shows "\<exists>w' db'. settle_hold a r own (w, db) h = Inr (w', db') \<and> hold_walked a rid (oh_lot h) x w db w' db'"
proof -
  let ?cs = "sw_claims w" and ?n = "oh_heldMicro h - x"
  have x: "x = min (sw_left w) (oh_heldMicro h)" by (simp add: x_def)
  obtain d1 d2 l where rel: "releaseHold rid (oh_lot h) x db = Inr ((), d1)"
    and chg: "append_if (x > 0) (charge_entry a r (oh_lot h) x) d1 = Inr d2"
    and m2: "task_moves (lot_key rid (oh_lot h)) a rid db d2"
    and l: "lot_id l = oh_lot h" "lot_account l = a" "find_lot d2 (oh_lot h) = Some l"
    and n: "0 \<le> x" "0 \<le> ?n" "?n \<le> free_micro l" and lots2: "\<And>i. i \<noteq> oh_lot h \<Longrightarrow> find_lot d2 i = find_lot db i"
    and debt2: "account_debt d2 a = account_debt db a"
    and charges2: "sum_by lot_delta (charges_of d2 rid) = sum_by lot_delta (charges_of db rid) - x"
    and holds2: "credit_reservation_holds d2 =
      update_where (the_hold rid (oh_lot h)) (release_row (x, db_now db)) (credit_reservation_holds db)"
    and claims2: "find_clawback d2 = find_clawback db" and seq2: "ledger_seq d2 \<le> ledger_seq db + 1"
    and fresh2: "\<And>q. lot_key rid (oh_lot h) q \<Longrightarrow> q \<noteq> colon_join [''task_charge'', rid, oh_lot h] \<Longrightarrow> \<not> key_taken d2 a q"
    using release_and_charge [OF ok ready rid x] by auto
  from ready have lot: "uuid_ok (oh_lot h)" and size: "oh_heldMicro h \<le> MAX_SAFE" by (simp_all add: ready_hold_def)
  from ok have inv: "db_inv db" "claims_ok db" "uuid_ok rid" "find_account db a \<noteq> None" "claims_match db ?cs"
    "sw_owedDebt w = account_debt db a" by (simp_all add: walk_ok_def)
  note fam = lot_key_families [OF inv(3) lot]
  have match2: "claims_match d2 ?cs" using claims_match_cong [of ?cs d2 db] claims2 inv(5) by simp
  obtain cs paid d3 where pay: "payClaims a rid (lot_id l) (may_pay own (oh_lot h)) ?n ?cs d2 = Inr ((?n - paid, cs, paid), d3)"
    and paid: "paid \<le> ?n" "claims_paid a rid l d2 ?cs paid cs d3"
  proof -
    have "claim_key rid (oh_lot h) (colon_join [''claim'', pc_clawback c, rid, oh_lot h])" if "c \<in> set ?cs" for c
      using claims_match_uuid [OF inv(2,5) that] by (auto simp: claim_key_def)
    then have "\<not> key_taken d2 a (colon_join [''claim'', pc_clawback c, rid, lot_id l])" if "c \<in> set ?cs" for c
      unfolding l(1) using fresh2 fam(7) that lot_key_def by metis
    from payClaims_effect [OF moves_inv [OF m2 inv(1)] moves_claims_ok [OF m2 inv(2)] match2 inv(3) _ _ l(2) _ n(2,3) this,
        where may = "may_pay own (oh_lot h)"]
    show thesis using that l lot moves_account [OF m2, of a] inv(4) by auto
  qed
  note c = claims_paidD [OF paid(2), unfolded l(1)]
  have inv3: "db_inv d3" "find_account d3 a \<noteq> None"
    using moves_inv [OF c(1)] moves_inv [OF m2 inv(1)] moves_account [OF c(1), of a] moves_account [OF m2, of a] inv(4) by auto
  let ?l = "move_remaining (- paid) l" and ?k = "?n - paid"
  have l3: "find_lot d3 (lot_id ?l) = Some ?l" "lot_account ?l = a" "uuid_ok (lot_id ?l)" "lot_id ?l = oh_lot h"
    using c(3) l lot by simp_all
  define repays where "repays \<longleftrightarrow> ?k > 0 \<and> oh_lotRevoked h \<and> account_debt d3 a > 0"
  define repay where "repay = (if repays then min ?k (account_debt d3 a) else 0)"
  have "0 \<le> ?k" "?k \<le> free_micro ?l" "?k \<le> MAX_SAFE" using paid(1) n c(2) size by (simp_all add: free_micro_def)
  moreover have "\<not> key_taken d3 a (colon_join [''task_release_debt'', rid, lot_id ?l])"
    "\<not> key_taken d3 a (colon_join [''task_release_expiry'', rid, lot_id ?l])"
    unfolding l3(4) using c(12) [OF fresh2] fam by metis+
  ultimately obtain d4 d5 where
    go: "append_if repays (task_entry a [''task_release_debt'', rid, oh_lot h] None (RepayDebt (oh_lot h) repay None)) d3 = Inr d4"
      "append_if (?k - repay > 0 \<and> oh_lotDone h)
         (task_entry a [''task_release_expiry'', rid, oh_lot h] None (ExpiryOf (oh_lot h) (?k - repay) None)) d4 = Inr d5"
    and m5: "task_moves (lot_key rid (oh_lot h)) a rid d3 d5" and lots5: "\<And>i. i \<noteq> oh_lot h \<Longrightarrow> find_lot d5 i = find_lot d3 i"
    and debt5: "account_debt d5 a = account_debt d3 a - repay"
    and charges5: "sum_by lot_delta (charges_of d5 rid) = sum_by lot_delta (charges_of d3 rid)"
    and holds5: "credit_reservation_holds d5 = credit_reservation_holds d3" and claims5: "find_clawback d5 = find_clawback d3"
    and seq5: "ledger_seq d5 \<le> ledger_seq d3 + 2"
    using let_go_effect [OF inv3(1) l3(1,2) inv3(2) inv(3) l3(3) _ _ _ _ _ repays_def repay_def, of "oh_lotDone h"]
    unfolding l3(4) by blast
  let ?w = "\<lparr>sw_left = sw_left w - x, sw_owedDebt = sw_owedDebt w - repay, sw_claims = cs,
      sw_claimsPaidMicro = sw_claimsPaidMicro w + paid,
      sw_charges = sw_charges w @ (if x > 0 then [(oh_lot h, x)] else [])\<rparr>"
  have debt: "account_debt d3 a = sw_owedDebt w" using c(5) debt2 inv(6) by simp
  have "settle_hold a r own (w, db) h = Inr (?w, d5)"
    using rel chg pay go l(1) unfolding settle_hold_def repay_def repays_def debt x_def rid
    by (simp add: Let_def cong: if_cong)
  moreover have "hold_walked a rid (oh_lot h) x w db ?w d5"
  proof -
    have "task_moves (lot_key rid (oh_lot h)) a rid db d5"
      by (rule moves_trans [OF m5 moves_trans [OF c(1) m2]])
    moreover have "\<forall>i. i \<noteq> oh_lot h \<longrightarrow> find_lot d5 i = find_lot db i" using lots5 c(4) lots2 by simp
    moreover have "claims_match d5 cs" using c(8) claims_match_cong [of cs d5 d3] claims5 by simp
    moreover have "0 \<le> repay" using debt_nonneg [OF inv3(1), of a] paid(1) by (simp add: repay_def repays_def)
    ultimately show ?thesis
      using holds5 c(7) holds2 charges5 c(6) charges2 debt5 c(5) debt2 inv(6) c(2,9,10,11) seq5 seq2
      by (simp add: hold_walked_def)
  qed
  ultimately show ?thesis by blast
qed

subsection \<open>The loop\<close>

lemma release_others:
  "i \<noteq> lot \<Longrightarrow> filter (the_hold rid i) (update_where (the_hold rid lot) (release_row p) hs) = filter (the_hold rid i) hs"
  by (induction hs) (auto simp: the_hold_def)

lemma release_open:
  assumes "q \<in> set (update_where (the_hold rid lot) (release_row p) hs)" "hold_reservation q = rid" "released_at q = None"
  shows "q \<in> set hs \<and> hold_lot q \<noteq> lot"
proof -
  have "q \<notin> release_row p ` {r \<in> set hs. the_hold rid lot r}" using assms(3) by fastforce
  with assms(1) have "q \<in> set hs" "\<not> the_hold rid lot q" by (simp_all add: set_update_where)
  then show ?thesis using assms(2,3) by (simp add: the_hold_def)
qed

lemma charged_sum_release:
  "filter (the_hold rid lot) hs = [k] \<Longrightarrow> hold_charged k = None \<Longrightarrow>
   sum_by hold_charged_or_0 (filter (\<lambda>h. hold_reservation h = rid) (update_where (the_hold rid lot) (release_row p) hs)) =
   sum_by hold_charged_or_0 (filter (\<lambda>h. hold_reservation h = rid) hs) + fst p"
proof (induction hs)
  case (Cons h hs)
  show ?case
  proof (cases "the_hold rid lot h")
    case True
    with Cons.prems have h: "h = k" and none: "filter (the_hold rid lot) hs = []" by auto
    have "update_where (the_hold rid lot) (release_row p) hs = hs"
      using none by (intro update_where_idle) (simp add: filter_empty_conv)
    moreover have "hold_reservation h = rid" using True by (simp add: the_hold_def)
    ultimately show ?thesis using True h Cons.prems(2) by (simp add: hold_charged_or_0_def)
  next
    case False
    with Cons show ?thesis by auto
  qed
qed simp

lemma ready_after:
  assumes "ready_hold db a rid h" "hold_walked a rid lot x w db w' db'" "oh_lot h \<noteq> lot" "uuid_ok lot" "uuid_ok rid"
  shows "ready_hold db' a rid h"
proof -
  have "\<not> key_taken db' a k" if "lot_key rid (oh_lot h) k" for k
  proof -
    have "\<not> lot_key rid lot k"
      using lot_key_unique [OF that _ assms(5) _ assms(4)] assms(1,3) by (auto simp: ready_hold_def)
    moreover have "task_moves (lot_key rid lot) a rid db db'" using assms(2) by (simp add: hold_walked_def)
    moreover have "\<not> key_taken db a k" using assms(1) that by (simp add: ready_hold_def)
    ultimately show ?thesis by (metis moves_key_free)
  qed
  moreover have "filter (the_hold rid (oh_lot h)) (credit_reservation_holds db') =
      filter (the_hold rid (oh_lot h)) (credit_reservation_holds db)" "find_lot db' (oh_lot h) = find_lot db (oh_lot h)"
    using assms(2,3) release_others [of "oh_lot h" lot rid] by (simp_all add: hold_walked_def)
  ultimately show ?thesis using assms(1) by (simp add: ready_hold_def)
qed

lemma walk_ok_after:
  assumes "walk_ok a rid w db" "hold_walked a rid lot x w db w' db'" "x \<le> sw_left w"
  shows "walk_ok a rid w' db'"
proof -
  have m: "task_moves (lot_key rid lot) a rid db db'" using assms(2) by (simp add: hold_walked_def)
  show ?thesis
    using assms moves_inv [OF m] moves_claims_ok [OF m] moves_account [OF m, of a]
    by (simp add: walk_ok_def hold_walked_def)
qed

text \<open>The keys of the walk, whatever the lot.\<close>

definition walk_key :: "uuid \<Rightarrow> string \<Rightarrow> bool" where
  "walk_key rid k \<longleftrightarrow> (\<exists>lot. uuid_ok lot \<and> lot_key rid lot k)"

definition purses :: "OpenCreditHold list \<Rightarrow> (uuid \<times> int) list" where
  "purses hs = map (\<lambda>h. (oh_lot h, oh_heldMicro h)) hs"

definition walked :: "uuid \<Rightarrow> uuid \<Rightarrow> OpenCreditHold list \<Rightarrow> settle_walk \<Rightarrow> db \<Rightarrow> settle_walk \<Rightarrow> db \<Rightarrow> bool" where
  "walked a rid hs w db w' db' \<longleftrightarrow>
     task_moves (walk_key rid) a rid db db' \<and> walk_ok a rid w' db' \<and>
     sw_left w' = max 0 (sw_left w - sum_by oh_heldMicro hs) \<and>
     sum_by lot_delta (charges_of db' rid) = sum_by lot_delta (charges_of db rid) - (sw_left w - sw_left w') \<and>
     sum_by hold_charged_or_0 (holds_of db' rid) = sum_by hold_charged_or_0 (holds_of db rid) + (sw_left w - sw_left w') \<and>
     (\<forall>h\<in>set (holds_of db' rid). released_at h = None \<longrightarrow> h \<in> set (holds_of db rid) \<and> hold_lot h \<notin> oh_lot ` set hs) \<and>
     account_debt db' a \<le> account_debt db a \<and> map forget_owed (sw_claims w') = map forget_owed (sw_claims w) \<and>
     sw_claimsPaidMicro w \<le> sw_claimsPaidMicro w' \<and>
     sum_by owed (sw_claims w') + sw_claimsPaidMicro w' = sum_by owed (sw_claims w) + sw_claimsPaidMicro w \<and>
     sw_charges w' = sw_charges w @ draw (sw_left w) (purses hs) \<and>
     ledger_seq db' \<le> ledger_seq db + length hs * (3 + length (sw_claims w))"

lemma walked_Cons:
  assumes ready: "ready_hold db a rid h" and ok: "walk_ok a rid w db" and x: "x = min (sw_left w) (oh_heldMicro h)"
    and one: "hold_walked a rid (oh_lot h) x w db v d" and rest: "walked a rid hs v d w' db'"
    and pos: "\<And>h. h \<in> set hs \<Longrightarrow> 0 < oh_heldMicro h"
  shows "walked a rid (h # hs) w db w' db'"
proof -
  from ready obtain k where k: "filter (the_hold rid (oh_lot h)) (credit_reservation_holds db) = [k]"
    "hold_micro k = oh_heldMicro h" "hold_charged k = None" and lot: "uuid_ok (oh_lot h)"
    by (auto simp: ready_hold_def)
  have inv: "db_inv db" "0 \<le> sw_left w" using ok by (simp_all add: walk_ok_def)
  have held: "0 < oh_heldMicro h"
    using inv(1) the_hold_member(1) [OF k(1)] k(2) by (auto simp: inv_defs)
  have total: "0 \<le> sum_by oh_heldMicro hs" using pos by (intro sum_by_nonneg) (simp add: less_imp_le)
  have m1: "task_moves (walk_key rid) a rid db d"
  proof (rule moves_mono)
    show "task_moves (lot_key rid (oh_lot h)) a rid db d" using one by (simp add: hold_walked_def)
  qed (use lot in \<open>auto simp: walk_key_def\<close>)
  have "task_moves (walk_key rid) a rid db db'"
    by (rule moves_trans [OF _ m1]) (use rest in \<open>simp add: walked_def\<close>)
  moreover have holds: "credit_reservation_holds d =
      update_where (the_hold rid (oh_lot h)) (release_row (x, db_now db)) (credit_reservation_holds db)"
    using one by (simp add: hold_walked_def)
  have "sum_by hold_charged_or_0 (holds_of d rid) = sum_by hold_charged_or_0 (holds_of db rid) + x"
    unfolding holds_of_def holds charged_sum_release [OF k(1,3)] by simp
  moreover have "q \<in> set (holds_of db rid) \<and> hold_lot q \<noteq> oh_lot h" if "q \<in> set (holds_of d rid)" "released_at q = None" for q
    using that release_open [of q rid "oh_lot h" "(x, db_now db)" "credit_reservation_holds db"]
    unfolding holds_of_def holds by simp
  moreover have "length (sw_claims v) = length (sw_claims w)"
    using one by (metis hold_walked_def length_map)
  moreover have "sw_charges v @ draw (sw_left v) (purses hs) = sw_charges w @ draw (sw_left w) (purses (h # hs))"
    using one held x inv(2) by (auto simp: hold_walked_def purses_def min.commute draw_idle)
  moreover have "sw_left v = sw_left w - x" using one by (simp add: hold_walked_def)
  moreover have "max 0 (sw_left v - sum_by oh_heldMicro hs) = max 0 (sw_left w - sum_by oh_heldMicro (h # hs))"
    using x inv(2) held total one by (auto simp: hold_walked_def)
  ultimately have parts: "task_moves (walk_key rid) a rid db db'"
    "sum_by hold_charged_or_0 (holds_of d rid) = sum_by hold_charged_or_0 (holds_of db rid) + x"
    "\<And>q. q \<in> set (holds_of d rid) \<Longrightarrow> released_at q = None \<Longrightarrow> q \<in> set (holds_of db rid) \<and> hold_lot q \<noteq> oh_lot h"
    "length (sw_claims v) = length (sw_claims w)" "sw_left v = sw_left w - x"
    "max 0 (sw_left v - sum_by oh_heldMicro hs) = max 0 (sw_left w - sum_by oh_heldMicro (h # hs))"
    "sw_charges v @ draw (sw_left v) (purses hs) = sw_charges w @ draw (sw_left w) (purses (h # hs))"
    by blast+
  have "\<forall>q\<in>set (holds_of db' rid). released_at q = None \<longrightarrow>
      q \<in> set (holds_of db rid) \<and> hold_lot q \<notin> oh_lot ` set (h # hs)"
    using rest parts(3) by (simp add: walked_def)
  then show ?thesis
    using one rest parts(1,2,4-7) unfolding walked_def hold_walked_def by simp
qed

lemma walk_effect:
  assumes "walk_ok a rid w db" "\<And>h. h \<in> set hs \<Longrightarrow> ready_hold db a rid h" "distinct (map oh_lot hs)" "rid = res_id r"
  shows "\<exists>w' db'. foldr_result (settle_hold a r own) (w, db) hs = Inr (w', db') \<and> walked a rid hs w db w' db'"
  using assms(1-3)
proof (induction hs arbitrary: w db)
  case Nil
  then show ?case by (simp add: walked_def purses_def walk_ok_def)
next
  case (Cons h hs)
  note ready = Cons.prems(2)
  let ?x = "min (sw_left w) (oh_heldMicro h)"
  obtain v d where step: "settle_hold a r own (w, db) h = Inr (v, d)" and one: "hold_walked a rid (oh_lot h) ?x w db v d"
    using settle_hold_effect [OF Cons.prems(1) ready [OF list.set_intros(1)] assms(4)] by blast
  have pos: "0 < oh_heldMicro q" if "q \<in> set hs" for q
  proof -
    have "ready_hold db a rid q" using ready [of q] that by simp
    then obtain k where k: "filter (the_hold rid (oh_lot q)) (credit_reservation_holds db) = [k]" "hold_micro k = oh_heldMicro q"
      by (auto simp: ready_hold_def)
    then show ?thesis
      using Cons.prems(1) the_hold_member(1) [OF k(1)] by (auto simp: walk_ok_def inv_defs)
  qed
  have ids: "uuid_ok (oh_lot h)" "uuid_ok rid"
    using ready [of h] Cons.prems(1) by (auto simp: ready_hold_def walk_ok_def)
  have ok: "walk_ok a rid v d" by (rule walk_ok_after [OF Cons.prems(1) one]) simp
  have "ready_hold d a rid q" if "q \<in> set hs" for q
  proof (rule ready_after [OF ready [OF list.set_intros(2) [OF that]] one _ ids])
    show "oh_lot q \<noteq> oh_lot h" using Cons.prems(3) that by (auto simp: image_iff)
  qed
  from Cons.IH [OF ok this] Cons.prems(3) obtain w' db' where
    "foldr_result (settle_hold a r own) (v, d) hs = Inr (w', db')" and rest: "walked a rid hs v d w' db'" by auto
  moreover have "walked a rid (h # hs) w db w' db'"
    using walked_Cons [OF ready [OF list.set_intros(1)] Cons.prems(1) refl one rest pos] .
  ultimately show ?case using step by simp
qed

end
