(* ===== verification/Settlement_Rows.thy ===== *)
theory Settlement_Rows
  imports Settlement_Walk
begin

section \<open>The rows of a task around its settlement\<close>

text \<open>
  What happens to a task's own rows: calls that never reported an end are settled from the one fact
  they record, \<^verbatim>\<open>committed_micro\<close> becomes what the calls charged, and the reservation is marked
  settled. Both updates keep the invariant of tasks.
\<close>

subsection \<open>Updates of one reservation\<close>

interpretation committed_set: row_update res_id set_committed
  by unfold_locales (simp add: set_committed_def)

interpretation committed_move: row_update res_id move_committed
  by unfold_locales (simp add: move_committed_def)

interpretation settled_set: row_update res_id "\<lambda>(chg, why, t). settled_row chg why t"
  by unfold_locales (auto simp: settled_row_def)

interpretation crash_set: row_update call_id crash_settle_row
  by unfold_locales (simp add: crash_settle_row_def)

lemma find_reservation_Some: "find_reservation db i = Some r \<Longrightarrow> r \<in> set (credit_reservations db) \<and> res_id r = i"
  by (auto simp: find_reservation_def dest: lookup_by_Some)

lemma find_reservation_member:
  "task_rows_ok db \<Longrightarrow> r \<in> set (credit_reservations db) \<Longrightarrow> find_reservation db (res_id r) = Some r"
  by (simp add: find_reservation_def task_rows_ok_def lookup_by_member)

definition put_task :: "uuid \<Rightarrow> (credit_reservation \<Rightarrow> credit_reservation) \<Rightarrow> db \<Rightarrow> db" where
  "put_task rid f db = db\<lparr>credit_reservations := update_where (\<lambda>r. res_id r = rid) f (credit_reservations db)\<rparr>"

lemma put_task_simps [simp]:
  "db_now (put_task rid f db) = db_now db" "credit_ledger (put_task rid f db) = credit_ledger db"
  "ledger_seq (put_task rid f db) = ledger_seq db" "credit_accounts (put_task rid f db) = credit_accounts db"
  "credit_lots (put_task rid f db) = credit_lots db"
  "credit_reservation_holds (put_task rid f db) = credit_reservation_holds db"
  "credit_model_calls (put_task rid f db) = credit_model_calls db"
  "credit_clawbacks (put_task rid f db) = credit_clawbacks db"
  "credit_windows (put_task rid f db) = credit_windows db"
  "credit_window_level_changes (put_task rid f db) = credit_window_level_changes db"
  "credit_rate_cards (put_task rid f db) = credit_rate_cards db"
  "credit_rate_card_models (put_task rid f db) = credit_rate_card_models db"
  "find_account (put_task rid f db) = find_account db" "find_lot (put_task rid f db) = find_lot db"
  "find_call (put_task rid f db) = find_call db" "find_clawback (put_task rid f db) = find_clawback db"
  "calls_of (put_task rid f db) = calls_of db" "holds_of (put_task rid f db) = holds_of db"
  "charges_of (put_task rid f db) = charges_of db" "account_debt (put_task rid f db) = account_debt db"
  "key_taken (put_task rid f db) = key_taken db" "claims_ok (put_task rid f db) = claims_ok db"
  by (auto simp: put_task_def account_debt_def key_taken_def claims_ok_def fun_eq_iff)

lemma put_task_inv [simp]: "hygiene (put_task rid f db) = hygiene db" "db_inv (put_task rid f db) = db_inv db"
proof -
  show "hygiene (put_task rid f db) = hygiene db" by (rule hygiene_cong) simp_all
  show "db_inv (put_task rid f db) = db_inv db" by (rule db_inv_cong) simp_all
qed

lemma find_put_task:
  assumes "\<And>r. res_id (f r) = res_id r"
  shows "find_reservation (put_task rid f db) i =
    (if i = rid then map_option f (find_reservation db i) else find_reservation db i)"
proof -
  have "lookup_by res_id i (update_where (\<lambda>r. res_id r = rid) f rs) =
      (if i = rid then map_option f (lookup_by res_id i rs) else lookup_by res_id i rs)" for rs
    using assms by (induction rs) auto
  then show ?thesis by (simp add: put_task_def find_reservation_def)
qed

text \<open>An UPDATE of the open task \<open>rid\<close> goes through when the new row passes its CHECKs.\<close>

lemma update_open_task:
  assumes "task_rows_ok db" "find_reservation db rid = Some r" "res_state r = Open" "reservation_checks (f r)"
  shows "update_reservations (open_task rid) f db = Inr ([f r], put_task rid f db)"
proof -
  have d: "distinct (map res_id (credit_reservations db))" using assms(1) by (simp add: task_rows_ok_def)
  have l: "lookup_by res_id rid (credit_reservations db) = Some r" using assms(2) by (simp add: find_reservation_def)
  have "filter (open_task rid) (credit_reservations db) = [r]"
    using filter_by_key [OF d l, of "open_task rid"] assms(3) lookup_by_Some [OF l] by (simp add: open_task_def)
  moreover have "update_where (open_task rid) f (credit_reservations db) =
      update_where (\<lambda>r. res_id r = rid) f (credit_reservations db)"
  proof (rule update_where_cong)
    fix q assume "q \<in> set (credit_reservations db)"
    from lookup_by_member [OF d this] l assms(3) show "open_task rid q = (res_id q = rid)"
      by (auto simp: open_task_def)
  qed
  ultimately show ?thesis using assms(4) by (simp add: update_reservations_def put_task_def)
qed

text \<open>
  An update of one task that leaves its id, account, terms and slot alone keeps the rows sound, and
  the balance of every other task.
\<close>

definition keeps_terms :: "(credit_reservation \<Rightarrow> credit_reservation) \<Rightarrow> bool" where
  "keeps_terms f \<longleftrightarrow> (\<forall>r. res_id (f r) = res_id r \<and> res_account (f r) = res_account r \<and> res_card (f r) = res_card r \<and>
     res_mode (f r) = res_mode r \<and> res_slot (f r) = res_slot r \<and> reserved (f r) = reserved r \<and>
     (res_state (f r) = Open \<longrightarrow> res_state r = Open))"

lemma keeps_terms_id: "keeps_terms f \<Longrightarrow> res_id (f r) = res_id r" by (simp add: keeps_terms_def)

lemma put_task_rows:
  assumes ok: "task_rows_ok db" and r: "find_reservation db rid = Some r" and f: "keeps_terms f" and c: "reservation_checks (f r)"
  shows "task_rows_ok (put_task rid f db)"
proof -
  have ids: "map res_id (update_where P f rs) = map res_id rs" for P rs
    using f by (induction rs) (auto simp: keeps_terms_def)
  have row: "reservation_checks q \<and> uuid_ok (res_id q) \<and> reserved q \<le> MAX_SAFE \<and> safe_int (res_card q) \<and>
      find_account db (res_account q) \<noteq> None" if "q \<in> set (credit_reservations (put_task rid f db))" for q
  proof -
    from that consider "q \<in> set (credit_reservations db)" | p where "p \<in> set (credit_reservations db)" "res_id p = rid" "q = f p"
      by (auto simp: put_task_def set_update_where)
    then show ?thesis
    proof cases
      case 2
      then have "p = r" using find_reservation_member [OF ok] r by fastforce
      with 2 ok f c show ?thesis by (auto simp: task_rows_ok_def keeps_terms_def)
    qed (use ok in \<open>simp add: task_rows_ok_def\<close>)
  qed
  have find: "\<exists>q. find_reservation (put_task rid f db) i = Some q \<and> res_account q = a \<and> (res_mode q = Enforce \<longleftrightarrow> res_mode p = Enforce)"
    if "find_reservation db i = Some p" "res_account p = a" for i p a
    using that f by (auto simp: find_put_task [OF keeps_terms_id [OF f]] keeps_terms_def)
  show ?thesis
    unfolding task_rows_ok_def put_task_simps
  proof (intro conjI ballI)
    show "distinct (map res_id (credit_reservations (put_task rid f db)))"
      using ok ids by (simp add: put_task_def task_rows_ok_def)
  next
    fix c assume "c \<in> set (credit_model_calls db)"
    with ok obtain p where "find_reservation db (call_reservation c) = Some p" "res_account p = call_account c"
      by (auto simp: task_rows_ok_def)
    with find show "\<exists>q. find_reservation (put_task rid f db) (call_reservation c) = Some q \<and> res_account q = call_account c"
      by blast
  next
    fix h assume "h \<in> set (credit_reservation_holds db)"
    with ok obtain p where "find_reservation db (hold_reservation h) = Some p" "res_account p = hold_account h" "res_mode p = Enforce"
      by (auto simp: task_rows_ok_def)
    with find show "\<exists>q. find_reservation (put_task rid f db) (hold_reservation h) = Some q \<and> res_account q = hold_account h \<and>
        res_mode q = Enforce" by blast
  qed (use row ok in \<open>auto simp: task_rows_ok_def\<close>)
qed

lemma put_task_slots:
  assumes "slots_ok db" and "keeps_terms f"
  shows "slots_ok (put_task rid f db)"
proof -
  have "distinct (map res_slot (filter (open_enforce a) (update_where P f rs)))"
    if "distinct (map res_slot (filter (open_enforce a) rs))" for a P rs
    using that
  proof (induction rs)
    case (Cons r rs)
    have sub: "res_slot ` set (filter (open_enforce a) (update_where P f rs)) \<subseteq> res_slot ` set (filter (open_enforce a) rs)"
      using assms(2) by (force simp: set_update_where open_enforce_def keeps_terms_def)
    have "open_enforce a (f r) \<Longrightarrow> open_enforce a r" "res_slot (f r) = res_slot r"
      using assms(2) by (auto simp: open_enforce_def keeps_terms_def)
    with Cons sub show ?case by (auto split: if_splits)
  qed simp
  with assms(1) show ?thesis by (simp add: slots_ok_def put_task_def)
qed

lemma check_cong:
  assumes "find_reservation db' q = find_reservation db q" "calls_of db' q = calls_of db q"
    "holds_of db' q = holds_of db q" "charges_of db' q = charges_of db q"
  shows "credit_check_reservation db' q = credit_check_reservation db q"
  unfolding credit_check_reservation_def assms ..

subsection \<open>Calls that never reported an end\<close>

text \<open>What a call costs when its task is settled: nothing if it never left, its bound if it was sent.\<close>

definition owed_by_call :: "credit_model_call \<Rightarrow> int" where
  "owed_by_call c = (if call_state c = Started then crash_charge (sent c) (bound_micro c) else charged_or_0 c)"

definition task_charge :: "db \<Rightarrow> uuid \<Rightarrow> int" where
  "task_charge db rid = sum_by owed_by_call (calls_of db rid)"

definition unfinished :: "uuid \<Rightarrow> credit_model_call \<Rightarrow> bool" where
  "unfinished rid c \<longleftrightarrow> call_reservation c = rid \<and> call_state c = Started"

definition crashed_db :: "uuid \<Rightarrow> db \<Rightarrow> db" where
  "crashed_db rid db = put_task rid (set_committed (task_charge db rid))
     (db\<lparr>credit_model_calls := update_where (unfinished rid) (crash_settle_row (db_now db)) (credit_model_calls db)\<rparr>)"

lemma crash_row_simps [simp]:
  "call_id (crash_settle_row t c) = call_id c" "call_reservation (crash_settle_row t c) = call_reservation c"
  "call_account (crash_settle_row t c) = call_account c" "call_state (crash_settle_row t c) = CallSettled"
  "call_charged (crash_settle_row t c) = Some (crash_charge (sent c) (bound_micro c))"
  by (simp_all add: crash_settle_row_def)

lemma crash_row_checks: "call_checks c \<Longrightarrow> call_state c = Started \<Longrightarrow> call_checks (crash_settle_row t c)"
  by (auto simp: call_checks_def crash_settle_row_def charge_checks_def crash_basis_def crash_charge_def)

lemma call_amounts:
  assumes "call_checks c"
  shows "0 \<le> owed_by_call c" "owed_by_call c \<le> call_commits c"
  using assms
  by (auto simp: call_checks_def owed_by_call_def call_commits_def charged_or_0_def crash_charge_def charge_checks_def
      split: option.splits)

lemma crash_calls_sum:
  "sum_by charged_or_0 (filter (\<lambda>c. call_reservation c = rid) (update_where (unfinished rid) (crash_settle_row t) cs)) =
   sum_by owed_by_call (filter (\<lambda>c. call_reservation c = rid) cs)"
  by (induction cs) (auto simp: unfinished_def owed_by_call_def charged_or_0_def)

lemma crash_calls_settled:
  assumes "c \<in> set (update_where (unfinished rid) (crash_settle_row t) cs)" "call_reservation c = rid"
  shows "call_state c = CallSettled"
proof -
  from assms(1) consider d where "c = crash_settle_row t d" | "\<not> unfinished rid c" by (auto simp: set_update_where)
  then show ?thesis using assms(2) by cases (simp, cases "call_state c", auto simp: unfinished_def)
qed

lemma crash_calls_others:
  "q \<noteq> rid \<Longrightarrow> filter (\<lambda>c. call_reservation c = q) (update_where (unfinished rid) (crash_settle_row t) cs) =
     filter (\<lambda>c. call_reservation c = q) cs"
  by (induction cs) (auto simp: unfinished_def)

lemma settled_commits: "call_state c = CallSettled \<Longrightarrow> call_commits c = charged_or_0 c"
  by (simp add: call_commits_def charged_or_0_def)

lemma keeps_terms_committed [simp]: "keeps_terms (set_committed x)" "keeps_terms (move_committed x)"
  by (simp_all add: keeps_terms_def set_committed_def move_committed_def)

lemma task_charge_bounds:
  assumes "task_rows_ok db" "credit_check_reservation db rid" "find_reservation db rid = Some r"
  shows "0 \<le> task_charge db rid" "task_charge db rid \<le> committed r"
proof -
  have checks: "call_checks c" if "c \<in> set (calls_of db rid)" for c
    using assms(1) that by (auto simp: task_rows_ok_def calls_of_def)
  show "0 \<le> task_charge db rid" unfolding task_charge_def using checks call_amounts(1) by (intro sum_by_nonneg) blast
  have "task_charge db rid \<le> sum_by call_commits (calls_of db rid)"
    unfolding task_charge_def using checks call_amounts(2) by (intro sum_by_mono) blast
  then show "task_charge db rid \<le> committed r" using assms(2,3) by (simp add: credit_check_reservation_def)
qed

lemma crashed_simps [simp]:
  "db_now (crashed_db rid db) = db_now db" "credit_ledger (crashed_db rid db) = credit_ledger db"
  "ledger_seq (crashed_db rid db) = ledger_seq db" "credit_accounts (crashed_db rid db) = credit_accounts db"
  "credit_lots (crashed_db rid db) = credit_lots db"
  "credit_reservation_holds (crashed_db rid db) = credit_reservation_holds db"
  "credit_clawbacks (crashed_db rid db) = credit_clawbacks db" "credit_windows (crashed_db rid db) = credit_windows db"
  "credit_window_level_changes (crashed_db rid db) = credit_window_level_changes db"
  "credit_rate_cards (crashed_db rid db) = credit_rate_cards db"
  "credit_rate_card_models (crashed_db rid db) = credit_rate_card_models db"
  "find_account (crashed_db rid db) = find_account db" "find_lot (crashed_db rid db) = find_lot db"
  "find_clawback (crashed_db rid db) = find_clawback db" "holds_of (crashed_db rid db) = holds_of db"
  "charges_of (crashed_db rid db) = charges_of db" "account_debt (crashed_db rid db) = account_debt db"
  "key_taken (crashed_db rid db) = key_taken db" "claims_ok (crashed_db rid db) = claims_ok db"
  by (auto simp: crashed_db_def account_debt_def key_taken_def claims_ok_def fun_eq_iff)

lemma crashed_inv [simp]: "hygiene (crashed_db rid db) = hygiene db" "db_inv (crashed_db rid db) = db_inv db"
proof -
  show "hygiene (crashed_db rid db) = hygiene db" by (rule hygiene_cong) simp_all
  show "db_inv (crashed_db rid db) = db_inv db" by (rule db_inv_cong) simp_all
qed

lemma crashed_finds:
  "find_reservation (crashed_db rid db) i =
     (if i = rid then map_option (set_committed (task_charge db rid)) (find_reservation db i) else find_reservation db i)"
  "calls_of (crashed_db rid db) rid =
     filter (\<lambda>c. call_reservation c = rid) (update_where (unfinished rid) (crash_settle_row (db_now db)) (credit_model_calls db))"
  "q \<noteq> rid \<Longrightarrow> calls_of (crashed_db rid db) q = calls_of db q"
  by (simp_all add: crashed_db_def find_put_task set_committed_def calls_of_def crash_calls_others)

lemma crashed_totals:
  shows "sum_by charged_or_0 (calls_of (crashed_db rid db) rid) = task_charge db rid"
    and "sum_by call_commits (calls_of (crashed_db rid db) rid) = task_charge db rid"
    and "\<not> list_ex (\<lambda>c. call_state c = Started) (calls_of (crashed_db rid db) rid)"
proof -
  have settled: "call_state c = CallSettled" if "c \<in> set (calls_of (crashed_db rid db) rid)" for c
    using that crash_calls_settled [of c rid] by (auto simp: crashed_finds)
  show eq: "sum_by charged_or_0 (calls_of (crashed_db rid db) rid) = task_charge db rid"
    by (simp only: crashed_finds(2) crash_calls_sum) (simp only: task_charge_def calls_of_def)
  have "sum_by call_commits (calls_of (crashed_db rid db) rid) = sum_by charged_or_0 (calls_of (crashed_db rid db) rid)"
    by (rule sum_by_cong) (simp add: settled settled_commits)
  with eq show "sum_by call_commits (calls_of (crashed_db rid db) rid) = task_charge db rid" by simp
  show "\<not> list_ex (\<lambda>c. call_state c = Started) (calls_of (crashed_db rid db) rid)"
    using settled by (auto simp: list_ex_iff)
qed

lemma crash_calls_rows:
  assumes "task_rows_ok db"
  shows "task_rows_ok (db\<lparr>credit_model_calls := update_where (unfinished rid) (crash_settle_row t) (credit_model_calls db)\<rparr>)"
    (is "task_rows_ok ?d")
proof -
  have "call_checks c \<and> (\<exists>p. find_reservation db (call_reservation c) = Some p \<and> res_account p = call_account c)"
    if "c \<in> set (credit_model_calls ?d)" for c
  proof -
    from that consider "c \<in> set (credit_model_calls db)"
      | e where "e \<in> set (credit_model_calls db)" "unfinished rid e" "c = crash_settle_row t e"
      by (auto simp: set_update_where)
    then show ?thesis
    proof cases
      case 2
      then have "call_checks e" "call_state e = Started"
        "\<exists>p. find_reservation db (call_reservation e) = Some p \<and> res_account p = call_account e"
        using assms(1) by (auto simp: task_rows_ok_def unfinished_def)
      with 2(3) show ?thesis using crash_row_checks by simp
    qed (use assms(1) in \<open>simp add: task_rows_ok_def\<close>)
  qed
  moreover have "distinct (map call_id (credit_model_calls ?d))" using assms(1) by (simp add: task_rows_ok_def crash_set.keys)
  ultimately show ?thesis using assms(1) unfolding task_rows_ok_def table_updates by simp
qed

lemma checks_committed:
  assumes "reservation_checks r" "0 \<le> x" "x \<le> committed r"
  shows "reservation_checks (set_committed x r)"
proof -
  have "res_mode r = Shadow \<or> committed r \<le> reserved r" using assms(1) unfolding reservation_checks_def by blast
  then have "res_mode r = Shadow \<or> x \<le> reserved r" using assms(3) by linarith
  then show ?thesis
    using assms(1,2) unfolding reservation_checks_def set_committed_def by (simp cong: option.case_cong)
qed

lemma crash_rows_ok:
  assumes "task_rows_ok db" "find_reservation db rid = Some r" "res_state r = Open" "credit_check_reservation db rid"
  shows "task_rows_ok (crashed_db rid db)"
    and "reservation_checks (set_committed (task_charge db rid) r)"
proof -
  have "reservation_checks r" using assms(1) find_reservation_Some [OF assms(2)] by (simp add: task_rows_ok_def)
  with task_charge_bounds [OF assms(1,4,2)]
  show checks: "reservation_checks (set_committed (task_charge db rid) r)"
    using checks_committed by blast
  show "task_rows_ok (crashed_db rid db)"
    unfolding crashed_db_def
    by (rule put_task_rows [where f = "set_committed (task_charge db rid)", OF crash_calls_rows [OF assms(1)] _ _ checks])
      (simp_all add: assms(2))
qed

text \<open>The step \<open>settleStartedCallsAfterACrash\<close> always goes through, and leaves the same state whether or not a call was open.\<close>

lemma crash_effect:
  assumes "task_rows_ok db" "find_reservation db rid = Some r" "res_state r = Open" "credit_check_reservation db rid"
  shows "\<exists>n. settleStartedCallsAfterACrash rid db = Inr (n, crashed_db rid db)"
proof -
  let ?t = "db_now db"
  let ?cs = "update_where (unfinished rid) (crash_settle_row ?t) (credit_model_calls db)"
  let ?d = "db\<lparr>credit_model_calls := ?cs\<rparr>"
  let ?rows = "map (crash_settle_row ?t) (filter (unfinished rid) (credit_model_calls db))"
  have P: "(\<lambda>c. call_reservation c = rid \<and> call_state c = Started) = unfinished rid"
    by (simp add: fun_eq_iff unfinished_def)
  have "list_all call_checks ?rows"
    using assms(1) crash_row_checks by (auto simp: list_all_iff task_rows_ok_def unfinished_def)
  then have upd: "update_calls (unfinished rid) (crash_settle_row ?t) db = Inr (?rows, ?d)" by (simp add: update_calls_def)
  have commits: "sum_by call_commits (calls_of ?d rid) = task_charge db rid"
    using crashed_totals(2) [of rid db] by (simp add: crashed_db_def)
  note checks = crash_rows_ok [OF assms]
  have put: "update_reservations (open_task rid) (set_committed (task_charge db rid)) ?d =
      Inr ([set_committed (task_charge db rid) r], crashed_db rid db)"
    unfolding crashed_db_def
  proof (rule update_open_task [where f = "set_committed (task_charge db rid)", OF _ _ assms(3) checks(2)])
    show "find_reservation ?d rid = Some r" using assms(2) by simp
    show "task_rows_ok ?d" by (rule crash_calls_rows [OF assms(1)])
  qed
  show ?thesis
  proof (cases "?rows = []")
    case True
    then have "?cs = credit_model_calls db" by (intro update_where_idle) (simp add: filter_empty_conv)
    then have same: "?d = db" by simp
    have "committed r = task_charge db rid" using assms(2,4) commits same by (simp add: credit_check_reservation_def)
    then have idle: "set_committed (task_charge db rid) q = q" if "q \<in> set (credit_reservations db)" "res_id q = rid" for q
      using find_reservation_member [OF assms(1) that(1)] that(2) assms(2) by (simp add: set_committed_def)
    have "update_where (\<lambda>q. res_id q = rid) (set_committed (task_charge db rid)) (credit_reservations db) = credit_reservations db"
      by (rule update_where_id) (rule idle)
    then have "crashed_db rid db = db" unfolding crashed_db_def same put_task_def by simp
    with True upd same show ?thesis by (simp add: settleStartedCallsAfterACrash_def P)
  next
    case False
    with upd put commits show ?thesis by (simp add: settleStartedCallsAfterACrash_def P)
  qed
qed

lemma crashed_balanced:
  assumes "tasks_balanced db" "task_rows_ok db" "find_reservation db rid = Some r" "res_state r = Open"
  shows "tasks_balanced (crashed_db rid db)"
  unfolding tasks_balanced_def
proof (rule ballI)
  let ?d = "crashed_db rid db"
  fix q assume "q \<in> set (credit_reservations ?d)"
  then consider "res_id q \<noteq> rid" "q \<in> set (credit_reservations db)"
    | p where "p \<in> set (credit_reservations db)" "res_id p = rid" "q = set_committed (task_charge db rid) p"
    by (auto simp: crashed_db_def put_task_def set_update_where)
  then show "credit_check_reservation ?d (res_id q) \<and> (res_state q = Open \<longrightarrow>
      (\<forall>h\<in>set (holds_of ?d (res_id q)). released_at h = None) \<and> charges_of ?d (res_id q) = [] \<and>
      (\<forall>x\<in>set (credit_ledger ?d). \<not> task_key (res_id q) (idempotency_key x)))"
  proof cases
    case 1
    have "credit_check_reservation ?d (res_id q) = credit_check_reservation db (res_id q)"
      by (rule check_cong) (use 1 in \<open>simp_all add: crashed_finds\<close>)
    with 1 assms(1) show ?thesis by (simp add: tasks_balanced_def)
  next
    case 2
    then have p: "p = r" using find_reservation_member [OF assms(2) 2(1)] assms(3) by simp
    have id: "res_id q = rid" using 2 by (simp add: set_committed_def)
    have check: "credit_check_reservation db rid" using assms(1) 2 by (auto simp: tasks_balanced_def)
    have "credit_check_reservation ?d rid"
      using check assms(3,4) crashed_totals(2) [of rid db] unfolding credit_check_reservation_def crashed_finds(1)
      by (simp add: set_committed_def)
    moreover have "(\<forall>h\<in>set (holds_of db rid). released_at h = None) \<and> charges_of db rid = [] \<and>
        (\<forall>x\<in>set (credit_ledger db). \<not> task_key rid (idempotency_key x))"
      using assms(1,4) 2(1,2) p by (auto simp: tasks_balanced_def)
    ultimately show ?thesis by (simp add: id)
  qed
qed

lemma crashed_sys_inv:
  assumes "sys_inv db" "find_reservation db rid = Some r" "res_state r = Open"
  shows "sys_inv (crashed_db rid db)" "\<exists>n. settleStartedCallsAfterACrash rid db = Inr (n, crashed_db rid db)"
proof -
  from assms(1) have ok: "task_rows_ok db" "tasks_balanced db" "slots_ok db" "claims_ok db"
    by (simp_all add: sys_inv_def task_inv_def)
  have check: "credit_check_reservation db rid"
    using ok(2) find_reservation_Some [OF assms(2)] by (auto simp: tasks_balanced_def)
  show "\<exists>n. settleStartedCallsAfterACrash rid db = Inr (n, crashed_db rid db)"
    by (rule crash_effect [OF ok(1) assms(2,3) check])
  have "slots_ok (crashed_db rid db)"
    unfolding crashed_db_def by (rule put_task_slots) (use ok(3) in \<open>simp_all add: slots_ok_def\<close>)
  then show "sys_inv (crashed_db rid db)"
    using assms(1) crash_rows_ok(1) [OF ok(1) assms(2,3) check] crashed_balanced [OF ok(2,1) assms(2,3)]
    by (simp add: sys_inv_def task_inv_def)
qed

end
