(* ===== verification/Settlement_Reads.thy ===== *)
theory Settlement_Reads
  imports Settlement_Rows
begin

section \<open>What a settlement reads before it writes\<close>

text \<open>
  The three reads of \<open>settleIn\<close>: the claims standing against the account, the lots each claim's unit
  paid for, and the task's open holds in the spend order. On a sound state none of them fails, and
  the lists they give meet the preconditions of the walk.
\<close>

subsection \<open>Claims\<close>

definition pending_total :: "db \<Rightarrow> uuid \<Rightarrow> int" where
  "pending_total db a = sum_by cb_pending (filter (standing_claim a) (credit_clawbacks db))"

lemma find_clawback_member:
  "claims_ok db \<Longrightarrow> c \<in> set (credit_clawbacks db) \<Longrightarrow> find_clawback db (cb_id c) = Some c"
  by (simp add: find_clawback_def claims_ok_def lookup_by_member)

lemma owed_of_claim [simp]: "owed (as_owed (claim_of c)) = cb_pending c" "pc_clawback (as_owed c') = pc_clawback c'"
  "pc_annual (as_owed c') = pc_annual c'" "pc_source (as_owed c') = pc_source c'"
  by (simp_all add: as_owed_def claim_of_def PendingCreditClaim.defs)

lemma pendingClaims_effect:
  assumes "claims_ok db" "pending_total db a \<le> MAX_SAFE"
  obtains cs where "pendingClaims a db = Inr cs" "claims_match db (map as_owed cs)"
    "sum_by owed (map as_owed cs) = pending_total db a" "length cs \<le> length (credit_clawbacks db)"
proof -
  let ?ks = "sort_key (\<lambda>c. (cb_created c, cb_id c)) (filter (standing_claim a) (credit_clawbacks db))"
  have small: "cb_pending c \<le> MAX_SAFE" if "c \<in> set ?ks" for c
  proof -
    have "cb_pending c \<le> pending_total db a"
      unfolding pending_total_def using that by (intro sum_by_member_le) (auto simp: standing_claim_def)
    with assms(2) show ?thesis by simp
  qed
  have read: "pendingClaims a db = Inr (map claim_of ?ks)"
    unfolding pendingClaims_def
  proof (rule all_results_same)
    fix c assume c: "c \<in> set ?ks"
    then have "safe_int (cb_pending c)" using small [OF c] by (simp add: standing_claim_def safe_int_def)
    then show "rbind (exact (cb_pending c)) (\<lambda>_. Inr (claim_of c)) = Inr (claim_of c)" by simp
  qed
  have ids: "map pc_clawback (map as_owed (map claim_of ?ks)) = map cb_id ?ks" by (simp add: claim_of_def)
  have "distinct (map cb_id ?ks)"
    using assms(1) by (auto simp: claims_ok_def distinct_map intro: inj_on_subset)
  moreover have "claim_matches db (as_owed (claim_of k))" if "k \<in> set ?ks" for k
    using that small [OF that] find_clawback_member [OF assms(1), of k]
    by (auto simp: claim_matches_def claim_of_def standing_claim_def as_owed_def PendingCreditClaim.defs)
  ultimately have "claims_match db (map as_owed (map claim_of ?ks))"
    unfolding claims_match_def ids by auto
  moreover have "sum_by owed (map as_owed (map claim_of ?ks)) = sum_by cb_pending ?ks" by (simp add: sum_by_map)
  then have "sum_by owed (map as_owed (map claim_of ?ks)) = pending_total db a"
    unfolding pending_total_def using sum_by_mset [of ?ks "filter (standing_claim a) (credit_clawbacks db)" cb_pending] by simp
  moreover have "length (map claim_of ?ks) \<le> length (credit_clawbacks db)" by simp
  ultimately show thesis using that read by blast
qed

subsection \<open>The lots of a unit\<close>

lemma unitLots_total:
  assumes "db_inv db" "hygiene db"
  shows "\<exists>ls. unitLotsForSettle a target db = Inr ls"
proof (cases "parseUnitTargetKey target")
  case None
  then show ?thesis by (simp add: unitLotsForSettle_def)
next
  case (Some p)
  obtain w cov where p: "p = (w, cov)" by (cases p)
  let ?ls = "sort_key spend_key (filter (unit_lot db a target w cov) (credit_lots db))"
  have "safe_int (granted l - remaining l) \<and> 0 \<le> granted l - remaining l \<and> safe_int (remaining l - held l) \<and> 0 \<le> remaining l - held l" if "l \<in> set ?ls" for l
  proof -
    have "lot_bounds l" "granted l \<le> MAX_SAFE"
      using that assms by (auto simp: inv_defs hygiene_def amounts_ok_def)
    then show ?thesis by (auto simp: lot_bounds_def safe_int_def)
  qed
  then have "all_results (map (\<lambda>l. rbind (exactMicro (granted l - remaining l)) (\<lambda>room.
      rbind (exactMicro (remaining l - held l)) (\<lambda>avail.
        Inr \<lparr>sl_lot = lot_id l, sl_live = live_lot (db_now db) l, sl_roomMicro = room, sl_freeMicro = avail\<rparr>))) ?ls) =
      Inr (map (\<lambda>l. \<lparr>sl_lot = lot_id l, sl_live = live_lot (db_now db) l, sl_roomMicro = granted l - remaining l,
        sl_freeMicro = remaining l - held l\<rparr>) ?ls)"
    by (intro all_results_same) simp
  with Some p show ?thesis by (simp add: unitLotsForSettle_def)
qed

lemma ownLots_total: "db_inv db \<Longrightarrow> hygiene db \<Longrightarrow> \<exists>own. ownLots a db cs acc = Inr own"
proof (induction cs arbitrary: acc)
  case (Cons c cs)
  from unitLots_total [OF Cons.prems, of a "pc_targetKey c"]
  obtain ls where "unitLotsForSettle a (pc_targetKey c) db = Inr ls" by blast
  with Cons.IH [OF Cons.prems] show ?case by simp
qed simp

subsection \<open>Open holds\<close>

definition open_hold_of :: "db \<Rightarrow> credit_hold \<times> credit_lot \<Rightarrow> OpenCreditHold" where
  "open_hold_of db p =
     \<lparr>oh_lot = hold_lot (fst p), oh_heldMicro = hold_micro (fst p),
      oh_lotDone = (expires_at (snd p) \<le> db_now db \<or> revoked_at (snd p) \<noteq> None),
      oh_lotRevoked = (revoked_at (snd p) \<noteq> None)\<rparr>"

lemma open_holds_fst:
  assumes "holds_ok db"
  shows "mset (map fst (open_holds db rid)) =
    mset (filter (\<lambda>h. hold_reservation h = rid \<and> released_at h = None) (credit_reservation_holds db))"
proof -
  have "map fst (List.map_filter (\<lambda>h. if hold_reservation h = rid \<and> released_at h = None
      then map_option (Pair h) (find_lot db (hold_lot h)) else None) hs) =
    filter (\<lambda>h. hold_reservation h = rid \<and> released_at h = None) hs"
    if "\<And>h. h \<in> set hs \<Longrightarrow> find_lot db (hold_lot h) \<noteq> None" for hs
    using that
  proof (induction hs)
    case (Cons h hs)
    from Cons.prems [of h] obtain l where "find_lot db (hold_lot h) = Some l" by auto
    with Cons show ?case by (simp add: map_filter_simps)
  qed (simp add: map_filter_simps)
  from this [of "credit_reservation_holds db"] assms show ?thesis
    unfolding open_holds_def mset_map mset_sort by (metis (no_types, lifting) holds_ok_def mset_map option.distinct(1))
qed

lemma open_holds_member:
  assumes "p \<in> set (open_holds db rid)"
  shows "fst p \<in> set (credit_reservation_holds db)" "hold_reservation (fst p) = rid" "released_at (fst p) = None"
    "find_lot db (hold_lot (fst p)) = Some (snd p)"
  using assms by (auto simp: open_holds_def map_filter_def split: if_splits)

lemma open_hold_small:
  assumes "db_inv db" "hygiene db" "h \<in> set (credit_reservation_holds db)" "released_at h = None"
  shows "hold_micro h \<le> MAX_SAFE"
proof -
  from assms(1,3) obtain l where l: "find_lot db (hold_lot h) = Some l" by (auto simp: inv_defs)
  have "hold_micro h \<le> hold_total db (hold_lot h)"
    unfolding hold_total_def using assms(1,3,4) by (intro sum_by_member_le) (auto simp: inv_defs intro: less_imp_le)
  moreover have "lot_bounds l" "held l = hold_total db (hold_lot h)" "granted l \<le> MAX_SAFE"
    using assms(1,2) find_lot_Some [OF l] by (auto simp: inv_defs hygiene_def amounts_ok_def)
  ultimately show ?thesis by (simp add: lot_bounds_def)
qed

lemma open_hold_ready:
  assumes inv: "db_inv db" "hygiene db" and rows: "task_rows_ok db"
    and r: "find_reservation db rid = Some r" "res_account r = a" and p: "p \<in> set (open_holds db rid)"
    and fresh: "\<And>k. task_key rid k \<Longrightarrow> \<not> key_taken db a k"
  shows "ready_hold db a rid (open_hold_of db p)"
proof -
  note m = open_holds_member [OF p]
  let ?key = "\<lambda>h. (hold_reservation h, hold_lot h)" and ?hs = "credit_reservation_holds db"
  have acct: "hold_account (fst p) = a" using rows m(1,2) r by (auto simp: task_rows_ok_def)
  have lot: "lot_account (snd p) = a" using inv(1) m(1,4) acct by (auto simp: inv_defs)
  have id: "uuid_ok (hold_lot (fst p))"
    using find_lot_Some [OF m(4)] inv(2) by (auto simp: hygiene_def amounts_ok_def)
  have d: "distinct (map ?key ?hs)" using inv(1) by (simp add: inv_defs)
  have "lookup_by ?key (rid, hold_lot (fst p)) ?hs = Some (fst p)"
    using lookup_by_member [OF d m(1)] m(2) by simp
  from filter_by_key [OF d this, of "the_hold rid (hold_lot (fst p))"]
  have one: "filter (the_hold rid (hold_lot (fst p))) ?hs = [fst p]" using m by (auto simp: the_hold_def)
  moreover have "hold_charged (fst p) = None" using rows m(1,3) by (simp add: task_rows_ok_def)
  moreover have "hold_micro (fst p) \<le> MAX_SAFE" by (rule open_hold_small [OF inv m(1,3)])
  moreover have "\<not> key_taken db a k" if "lot_key rid (hold_lot (fst p)) k" for k
    using fresh [OF lot_key_task [OF that id]] .
  ultimately show ?thesis using id lot m(4) by (simp add: ready_hold_def open_hold_of_def)
qed

lemma openHolds_effect:
  assumes inv: "db_inv db" "hygiene db" and rows: "task_rows_ok db" "credit_check_reservation db rid"
    and r: "find_reservation db rid = Some r" "res_mode r = Enforce" "res_account r = a"
    and open_task: "\<And>h. h \<in> set (holds_of db rid) \<Longrightarrow> released_at h = None"
    and fresh: "\<And>k. task_key rid k \<Longrightarrow> \<not> key_taken db a k"
  obtains hs where "openHoldsInSpendOrder rid db = Inr hs" "hs = map (open_hold_of db) (open_holds db rid)"
    "distinct (map oh_lot hs)" "\<And>h. h \<in> set hs \<Longrightarrow> ready_hold db a rid h"
    "sum_by oh_heldMicro hs = reserved r" "oh_lot ` set hs = hold_lot ` set (holds_of db rid)"
    "length hs \<le> length (credit_reservation_holds db)"
proof -
  let ?ps = "open_holds db rid" and ?open = "\<lambda>h. hold_reservation h = rid \<and> released_at h = None"
  have holds: "holds_ok db" using inv(1) by (simp add: db_inv_def)
  have small: "safe_int (hold_micro (fst p))" if "p \<in> set ?ps" for p
  proof -
    note m = open_holds_member [OF that]
    have "0 < hold_micro (fst p)" using holds m(1) by (simp add: holds_ok_def)
    then show ?thesis using open_hold_small [OF inv m(1,3)] by (simp add: safe_int_def)
  qed
  have read: "openHoldsInSpendOrder rid db = Inr (map (open_hold_of db) ?ps)"
    unfolding openHoldsInSpendOrder_def
    by (rule all_results_same) (use small in \<open>auto simp: open_hold_of_def\<close>)
  have same: "filter ?open (credit_reservation_holds db) = holds_of db rid"
    unfolding holds_of_def using open_task by (intro filter_cong) (auto simp: holds_of_def)
  note perm = open_holds_fst [OF holds, of rid, unfolded same]
  have lots: "map oh_lot (map (open_hold_of db) ?ps) = map hold_lot (map fst ?ps)" by (simp add: open_hold_of_def)
  have "distinct (map (\<lambda>h. (hold_reservation h, hold_lot h)) (credit_reservation_holds db))"
    using holds by (simp add: holds_ok_def)
  then have "distinct (map hold_lot (holds_of db rid))"
    by (auto simp: holds_of_def distinct_map distinct_filter inj_on_def)
  then have "distinct (map oh_lot (map (open_hold_of db) ?ps))"
    unfolding lots by (metis mset_map perm mset_eq_imp_distinct_iff)
  moreover have "ready_hold db a rid h" if h: "h \<in> set (map (open_hold_of db) ?ps)" for h
  proof -
    from h obtain p where p: "p \<in> set ?ps" "h = open_hold_of db p" by auto
    show ?thesis unfolding p(2) by (rule open_hold_ready [OF inv rows(1) r(1,3) p(1) fresh])
  qed
  moreover have "sum_by oh_heldMicro (map (open_hold_of db) ?ps) = reserved r"
  proof -
    have "sum_by oh_heldMicro (map (open_hold_of db) ?ps) = sum_by hold_micro (map fst ?ps)"
      by (simp add: sum_by_map open_hold_of_def)
    also have "\<dots> = sum_by hold_micro (holds_of db rid)" by (rule sum_by_mset [OF perm])
    finally show ?thesis using rows(2) r(1,2) by (simp add: credit_check_reservation_def)
  qed
  moreover have "oh_lot ` set (map (open_hold_of db) ?ps) = hold_lot ` set (holds_of db rid)"
    using lots perm by (metis list.set_map mset_eq_setD)
  moreover have "length (map (open_hold_of db) ?ps) \<le> length (credit_reservation_holds db)"
    using perm by (metis holds_of_def length_filter_le length_map size_mset)
  ultimately show thesis using that read by blast
qed

end
