(* ===== verification/Settlement_Debt.thy ===== *)
theory Settlement_Debt
  imports Settlement_Reads
begin

section \<open>Claims left over when the last task ends\<close>

text \<open>
  \<open>claimsLeftBecomeDebt\<close>: with no other enforced task open, a claim no hold could pay becomes debt, and
  one against an annual plan is dropped with a record of the drop. What is owed on the claims bounds the
  debt that is incurred.
\<close>

definition claim_debt_key :: "uuid \<Rightarrow> string \<Rightarrow> bool" where
  "claim_debt_key rid k \<longleftrightarrow> (\<exists>cb. uuid_ok cb \<and> k = colon_join [''claim_debt'', cb, rid])"

definition claim_debt_entry :: "uuid \<Rightarrow> uuid \<Rightarrow> owed_claim \<Rightarrow> NewCreditLedgerEntry" where
  "claim_debt_entry a rid c = task_entry a [''claim_debt'', pc_clawback c, rid] None
     (IncurDebt (owed c) (clawbackDebtReason (pc_source c)))"

lemma claim_debt_key_inject:
  assumes "uuid_ok cb" "uuid_ok cb'" "uuid_ok rid" "colon_join [''claim_debt'', cb, rid] = colon_join [''claim_debt'', cb', rid]"
  shows "cb = cb'"
proof -
  have "[''claim_debt'', cb, rid] = [''claim_debt'', cb', rid]"
    using assms by (intro colon_join_inject) (auto simp: uuid_ok_def colon_free_def)
  then show ?thesis by simp
qed

lemma claim_debt_row:
  assumes "0 < owed c" "owed c \<le> MAX_SAFE" "uuid_ok (pc_clawback c)" "uuid_ok rid"
  obtains v where "creditLedgerRowFor (claim_debt_entry a rid c) = Inr v" "led_lot v = None" "lot_delta v = 0"
    "debt_delta v = owed c" "led_kind v = DebtIncurred" "led_reservation v = None" "led_account v = a"
    "idempotency_key v = colon_join [''claim_debt'', pc_clawback c, rid]"
proof -
  let ?e = "claim_debt_entry a rid c"
  have key: "checkedKey (entry_key ?e) = Inr (entry_key ?e)" "entry_account ?e = a"
    "entry_key ?e = colon_join [''claim_debt'', pc_clawback c, rid]"
    "entry_movement ?e = IncurDebt (owed c) (clawbackDebtReason (pc_source c))"
    using family_key_length [OF assms(3,4), of "''claim_debt''"]
    unfolding claim_debt_entry_def task_entry_def checkedKey_Inr by simp_all
  have "member_of AiDebtReasons (clawbackDebtReason (pc_source c)) = Inr (clawbackDebtReason (pc_source c))"
    by (simp add: result_simps AiDebtReasons_def clawbackDebtReason_def)
  then have "creditLedgerRowFor ?e =
      Inr (common_values ?e (Some (clawbackDebtReason (pc_source c))) DebtIncurred None 0 (owed c))"
    using positive_safe [OF assms(1,2)] key by (simp add: creditLedgerRowFor_def)
  then show thesis by (rule that) (simp_all add: key)
qed

text \<open>A step of the loop: the state it leaves, and what it added to the debt.\<close>

definition left_over :: "uuid \<Rightarrow> uuid \<Rightarrow> owed_claim list \<Rightarrow> int \<Rightarrow> db \<Rightarrow> db \<Rightarrow> bool" where
  "left_over a rid cs t db db' \<longleftrightarrow>
     task_moves (claim_debt_key rid) a rid db db' \<and> 0 \<le> t \<and> t \<le> sum_by owed cs \<and>
     account_debt db' a = account_debt db a + t \<and> charges_of db' rid = charges_of db rid \<and>
     credit_reservation_holds db' = credit_reservation_holds db \<and> credit_lots db' = credit_lots db \<and>
     (\<forall>i. i \<notin> pc_clawback ` set cs \<longrightarrow> find_clawback db i \<noteq> None \<longrightarrow> find_clawback db' i = find_clawback db i) \<and>
     (\<forall>k. key_taken db' a k \<longrightarrow> key_taken db a k \<or> k \<in> (\<lambda>c. colon_join [''claim_debt'', pc_clawback c, rid]) ` set cs) \<and>
     ledger_seq db' \<le> ledger_seq db + length cs"

lemma left_over_trans:
  assumes "left_over a rid [c] s db d" "left_over a rid cs t d db'"
    and "\<And>i. find_clawback db i \<noteq> None \<Longrightarrow> find_clawback d i \<noteq> None"
  shows "left_over a rid (c # cs) (s + t) db db'"
proof -
  have "task_moves (claim_debt_key rid) a rid db db'"
    using assms(1,2) by (intro moves_trans [of _ _ _ d db' db]) (simp_all add: left_over_def)
  moreover have "find_clawback db' i = find_clawback db i"
    if "i \<notin> pc_clawback ` set (c # cs)" "find_clawback db i \<noteq> None" for i
    using assms that by (simp add: left_over_def)
  moreover have "key_taken db a k \<or> k \<in> (\<lambda>c. colon_join [''claim_debt'', pc_clawback c, rid]) ` set (c # cs)"
    if "key_taken db' a k" for k
    using assms(1,2) that by (auto simp: left_over_def)
  ultimately show ?thesis
    using assms(1,2) unfolding left_over_def by simp
qed

lemma incur_effect:
  assumes inv: "db_inv db" "claims_ok db" "claim_matches db c" "uuid_ok rid" "find_account db a \<noteq> None" "0 < owed c"
    and key: "\<not> key_taken db a (colon_join [''claim_debt'', pc_clawback c, rid])"
  obtains y d1 d2 where "append_ledger (claim_debt_entry a rid c) db = Inr (y, d1)"
    "pendingClaimBecomesDebt (pc_clawback c) (owed c) d1 = Inr ((), d2)" "left_over a rid [c] (owed c) db d2"
    "\<And>i. find_clawback db i \<noteq> None \<Longrightarrow> find_clawback d2 i \<noteq> None"
proof -
  from inv(3) obtain k where k: "find_clawback db (pc_clawback c) = Some k" "cb_pending k = owed c"
    "cb_state k = Applied" and size: "owed c \<le> MAX_SAFE" by (auto simp: claim_matches_def)
  note m = find_clawback_Some [OF k(1)]
  have cb: "uuid_ok (pc_clawback c)" "clawback_checks k" using m inv(2) by (auto simp: claims_ok_def)
  obtain v where v: "creditLedgerRowFor (claim_debt_entry a rid c) = Inr v" "led_lot v = None" "lot_delta v = 0"
    "debt_delta v = owed c" "led_kind v = DebtIncurred" "led_reservation v = None" "led_account v = a"
    "idempotency_key v = colon_join [''claim_debt'', pc_clawback c, rid]"
    by (rule claim_debt_row [OF inv(6) size cb(1) inv(4), of a])
  have can: "can_apply v db"
    using row_for_facts [OF v(1)] v(2-8) key inv(5,6) debt_nonneg [OF inv(1), of a]
    by (auto simp: can_apply_def account_debt_def split: option.splits)
  let ?d = "apply_row v db"
  let ?bs = "update_where (\<lambda>q. cb_id q = pc_clawback c) (pending_to_debt (owed c)) (credit_clawbacks ?d)"
  let ?e = "?d\<lparr>credit_clawbacks := ?bs\<rparr>"
  have ok: "claims_ok ?d" using inv(2) by (simp add: claims_ok_def)
  have kd: "find_clawback ?d (pc_clawback c) = Some k" using k(1) by simp
  obtain y where y: "cb_debt k = Some y" using cb(2) k(3) by (auto simp: clawback_checks_def)
  have upd: "update_clawbacks (\<lambda>q. owes (pc_clawback c) (owed c) q \<and> cb_debt q \<noteq> None) (pending_to_debt (owed c)) ?d =
      Inr ([pending_to_debt (owed c) k], ?e)" "claims_ok ?e"
    using update_clawback_effect [OF ok kd, of "\<lambda>q. owes (pc_clawback c) (owed c) q \<and> cb_debt q \<noteq> None"
        "pending_to_debt (owed c)"] m k y cb(2) inv(6)
    by (auto simp: owes_def pending_to_debt_def clawback_guard_def clawback_checks_def)
  have find: "find_clawback ?e i = (if i = pc_clawback c then map_option (pending_to_debt (owed c)) (find_clawback db i)
      else find_clawback db i)" for i
    by (simp add: find_clawback_def pending_debt.lookup)
  have "task_moves (claim_debt_key rid) a rid db ?d"
    using moves_row [OF moves_refl can, of a "claim_debt_key rid" rid] v cb(1) by (auto simp: claim_debt_key_def)
  then have "task_moves (claim_debt_key rid) a rid db ?e" using upd(2) by (rule moves_claims)
  moreover have "account_debt ?e a = account_debt db a + owed c"
    using v inv(5) by (auto simp: account_debt_def split: option.splits)
  moreover have "charges_of ?e rid = charges_of db rid" using v(5) by simp
  moreover have "credit_lots ?e = credit_lots db" using v(2) by (simp add: apply_row_def)
  moreover have "\<forall>q. key_taken ?e a q \<longrightarrow> key_taken db a q \<or> q = colon_join [''claim_debt'', pc_clawback c, rid]"
    using v(8) by (auto simp: key_taken_def)
  ultimately have left: "left_over a rid [c] (owed c) db ?e"
    unfolding left_over_def using inv(6) find by simp
  show thesis
  proof (rule that [OF append_applies [OF v(1) can] _ left])
    show "pendingClaimBecomesDebt (pc_clawback c) (owed c) ?d = Inr ((), ?e)"
      unfolding pendingClaimBecomesDebt_def upd(1) by simp
    show "find_clawback db i \<noteq> None \<Longrightarrow> find_clawback ?e i \<noteq> None" for i unfolding find by auto
  qed
qed

lemma drop_effect:
  assumes inv: "claims_ok db" "claim_matches db c" "0 < owed c" and new_id: "\<And>d. uuid_ok (new_id d)"
  obtains d where "dropClaim new_id (pc_clawback c) rid (owed c) db = Inr ((), d)" "left_over a rid [c] 0 db d"
    "\<And>i. find_clawback db i \<noteq> None \<Longrightarrow> find_clawback d i \<noteq> None"
proof -
  from inv(2) obtain k where k: "find_clawback db (pc_clawback c) = Some k" "cb_pending k = owed c"
    "cb_state k = Applied" by (auto simp: claim_matches_def)
  note m = find_clawback_Some [OF k(1)]
  have checks: "clawback_checks k" using m inv(1) by (auto simp: claims_ok_def)
  let ?bs = "update_where (\<lambda>q. cb_id q = pc_clawback c) (move_pending (owed c)) (credit_clawbacks db)"
  let ?d = "db\<lparr>credit_clawbacks := ?bs\<rparr>"
  have upd: "update_clawbacks (owes (pc_clawback c) (owed c)) (move_pending (owed c)) db = Inr ([move_pending (owed c) k], ?d)"
    "claims_ok ?d"
    using update_clawback_effect [OF inv(1) k(1), of "owes (pc_clawback c) (owed c)" "move_pending (owed c)"] m k checks inv(3)
    by (auto simp: owes_def move_pending_def clawback_guard_def clawback_checks_def)
  have find: "find_clawback ?d i = (if i = pc_clawback c then map_option (move_pending (owed c)) (find_clawback db i)
      else find_clawback db i)" for i
    by (simp add: find_clawback_def pending_move.lookup)
  have found: "find_clawback ?d (pc_clawback c) = Some (move_pending (owed c) k)" unfolding find using k(1) by simp
  let ?row = "drop_record (new_id ?d) rid (owed c) (db_now ?d) (move_pending (owed c) k)"
  have row: "clawback_checks ?row" "uuid_ok (cb_id ?row)"
    using checks k(3) inv(3) new_id by (simp_all add: clawback_checks_def drop_record_def move_pending_def)
  let ?e = "if list_ex (same_clawback_key ?row) ?bs then ?d else db\<lparr>credit_clawbacks := ?bs @ [?row]\<rparr>"
  have ok: "claims_ok ?e"
    using upd(2) row by (auto simp: claims_ok_def list_ex_iff same_clawback_key_def)
  have drop: "dropClaim new_id (pc_clawback c) rid (owed c) db = Inr ((), ?e)"
    unfolding dropClaim_def upd(1) using found row(1) by (simp add: Let_def)
  have moves: "task_moves (claim_debt_key rid) a rid db ?e"
    using ok moves_claims [OF moves_refl, where bs = "?bs @ [?row]"] moves_claims [OF moves_refl, where bs = ?bs]
    by (simp split: if_splits)
  have some: "find_clawback ?d i \<noteq> None" if "find_clawback db i \<noteq> None" for i
    unfolding find using that by auto
  have find_e: "find_clawback ?e i = find_clawback ?d i" if "find_clawback db i \<noteq> None" for i
  proof -
    from some [OF that] show ?thesis by (auto simp: find_clawback_def lookup_by_append)
  qed
  have tables: "account_debt ?e a = account_debt db a" "charges_of ?e rid = charges_of db rid"
    "credit_reservation_holds ?e = credit_reservation_holds db" "credit_lots ?e = credit_lots db"
    "key_taken ?e a q = key_taken db a q" "ledger_seq ?e = ledger_seq db" for q
    by (simp_all add: account_debt_def key_taken_def)
  have others: "\<forall>i. i \<notin> pc_clawback ` set [c] \<longrightarrow> find_clawback db i \<noteq> None \<longrightarrow> find_clawback ?e i = find_clawback db i"
    using find_e find by simp
  have "left_over a rid [c] 0 db ?e"
    unfolding left_over_def using moves tables others inv(3) by simp
  then show thesis
  proof (rule that [OF drop])
    show "find_clawback db i \<noteq> None \<Longrightarrow> find_clawback ?e i \<noteq> None" for i
      using find_e [of i] some [of i] by metis
  qed
qed

lemma debt_loop_effect:
  assumes "db_inv db" "claims_ok db" "claims_match db cs" "uuid_ok rid" "find_account db a \<noteq> None"
    "\<And>c. c \<in> set cs \<Longrightarrow> 0 < owed c"
    "\<And>c. c \<in> set cs \<Longrightarrow> \<not> key_taken db a (colon_join [''claim_debt'', pc_clawback c, rid])"
    and new_id: "\<And>d. uuid_ok (new_id d)"
  shows "\<exists>t db'. debt_loop new_id a rid cs db = Inr (t, db') \<and> left_over a rid cs t db db'"
  using assms(1-7)
proof (induction cs arbitrary: db)
  case Nil
  then show ?case by (simp add: left_over_def)
next
  case (Cons c cs)
  have c: "claim_matches db c" "0 < owed c" "\<not> key_taken db a (colon_join [''claim_debt'', pc_clawback c, rid])"
    using Cons.prems by simp_all
  have rest: "\<exists>t db'. debt_loop new_id a rid cs d = Inr (t, db') \<and> left_over a rid (c # cs) (s + t) db db'"
    if one: "left_over a rid [c] s db d" and some: "\<And>i. find_clawback db i \<noteq> None \<Longrightarrow> find_clawback d i \<noteq> None" for s d
  proof -
    have m: "task_moves (claim_debt_key rid) a rid db d" using one by (simp add: left_over_def)
    have "find_clawback d (pc_clawback q) = find_clawback db (pc_clawback q)" if "q \<in> set cs" for q
    proof -
      have "claim_matches db q" using Cons.prems(3) that by (simp add: claims_match_def)
      then have "find_clawback db (pc_clawback q) \<noteq> None" by (auto simp: claim_matches_def)
      moreover have "pc_clawback q \<noteq> pc_clawback c" using Cons.prems(3) that by (metis claims_match_Cons imageI)
      ultimately show ?thesis using one by (simp add: left_over_def)
    qed
    from claims_match_cong [OF this] have match: "claims_match d cs" using Cons.prems(3) by simp
    have fresh: "\<not> key_taken d a (colon_join [''claim_debt'', pc_clawback q, rid])" if q: "q \<in> set cs" for q
    proof
      assume "key_taken d a (colon_join [''claim_debt'', pc_clawback q, rid])"
      then have "colon_join [''claim_debt'', pc_clawback q, rid] = colon_join [''claim_debt'', pc_clawback c, rid]"
        using one Cons.prems(7) [of q] q by (auto simp: left_over_def)
      then have "pc_clawback q = pc_clawback c"
        using claim_debt_key_inject claims_match_uuid [OF Cons.prems(2,3)] q Cons.prems(4)
        by (metis list.set_intros)
      then show False using Cons.prems(3) q by (metis claims_match_Cons imageI)
    qed
    obtain t db' where t: "debt_loop new_id a rid cs d = Inr (t, db')" "left_over a rid cs t d db'"
      using Cons.IH [OF moves_inv [OF m Cons.prems(1)] moves_claims_ok [OF m Cons.prems(2)] match Cons.prems(4)]
        moves_account [OF m, of a] Cons.prems(5,6) fresh by auto
    show ?thesis using t left_over_trans [OF one t(2) some] by blast
  qed
  show ?case
  proof (cases "pc_annual c")
    case True
    obtain d where d: "dropClaim new_id (pc_clawback c) rid (owed c) db = Inr ((), d)" "left_over a rid [c] 0 db d"
      "\<And>i. find_clawback db i \<noteq> None \<Longrightarrow> find_clawback d i \<noteq> None"
      using drop_effect [where new_id = new_id and rid = rid and a = a, OF Cons.prems(2) c(1,2) new_id] by blast
    from rest [OF d(2,3)] obtain t db' where "debt_loop new_id a rid cs d = Inr (t, db')"
      "left_over a rid (c # cs) (0 + t) db db'" by blast
    with True d(1) show ?thesis by simp
  next
    case False
    obtain y d1 d2 where d: "append_ledger (claim_debt_entry a rid c) db = Inr (y, d1)"
      "pendingClaimBecomesDebt (pc_clawback c) (owed c) d1 = Inr ((), d2)" "left_over a rid [c] (owed c) db d2"
      "\<And>i. find_clawback db i \<noteq> None \<Longrightarrow> find_clawback d2 i \<noteq> None"
      using incur_effect [OF Cons.prems(1,2) c(1) Cons.prems(4,5) c(2,3)] by blast
    from rest [OF d(3,4)] obtain t db' where "debt_loop new_id a rid cs d2 = Inr (t, db')"
      "left_over a rid (c # cs) (owed c + t) db db'" by blast
    with False d(1,2) show ?thesis by (simp add: claim_debt_entry_def)
  qed
qed

end
