(* ===== verification/Settlement.thy ===== *)
theory Settlement
  imports Settlement_Debt
begin

section \<open>A settlement, from start to COMMIT\<close>

text \<open>
  The steps put together: settling an open enforced task on a sound state always succeeds, charges
  exactly what its calls cost, and leaves a sound state that passes every deferred check.
\<close>

subsection \<open>The invariant of tasks under the steps\<close>

lemma moves_task_rows: "task_moves K a rid db d \<Longrightarrow> task_rows_ok db \<Longrightarrow> task_rows_ok d"
proof (induction rule: task_moves.induct)
  case (moves_row d v)
  have "find_account (apply_row v d) b = None \<longleftrightarrow> find_account d b = None" for b by simp
  with moves_row show ?case unfolding task_rows_ok_def apply_finds apply_row_simps by blast
next
  case (moves_claims d bs)
  then show ?case unfolding task_rows_ok_def by simp
next
  case (moves_release d lot h l x)
  let ?d = "release_db rid lot x (hold_micro h) d"
  have ok: "task_rows_ok d" using moves_release by blast
  have "\<exists>k\<in>set (credit_reservation_holds d). hold_reservation k = hold_reservation h' \<and> hold_account k = hold_account h' \<and>
      (released_at h' = None \<longleftrightarrow> hold_charged h' = None)" if "h' \<in> set (credit_reservation_holds ?d)" for h'
    using that ok by (fastforce simp: release_db_def set_update_where task_rows_ok_def)
  then have "\<forall>h'\<in>set (credit_reservation_holds ?d).
      (\<exists>r. find_reservation d (hold_reservation h') = Some r \<and> res_account r = hold_account h' \<and> res_mode r = Enforce) \<and>
      (released_at h' = None \<longleftrightarrow> hold_charged h' = None)"
    using ok unfolding task_rows_ok_def by metis
  then show ?case using ok unfolding task_rows_ok_def release_db_simps by blast
qed simp

lemma ledger_moves_account:
  assumes "ledger_moves P db d"
  shows "find_account d b = None \<longleftrightarrow> find_account db b = None"
proof -
  from assms obtain vs where "d = fold apply_row vs db" by (auto simp: ledger_moves_def)
  moreover have "find_account (fold apply_row vs db) b = None \<longleftrightarrow> find_account db b = None"
    by (induction vs arbitrary: db) auto
  ultimately show ?thesis by simp
qed

lemma ledger_moves_finds:
  assumes "ledger_moves P db d"
  shows "find_reservation d = find_reservation db" "calls_of d = calls_of db" "holds_of d = holds_of db"
    "find_clawback d = find_clawback db"
  using ledger_moves_frame [OF assms]
  by (auto simp: fun_eq_iff find_reservation_def calls_of_def holds_of_def find_clawback_def)

lemma ledger_moves_task_rows:
  assumes "ledger_moves P db d" "task_rows_ok db"
  shows "task_rows_ok d"
proof -
  have "find_account d b \<noteq> None" if "find_account db b \<noteq> None" for b
    using ledger_moves_account [OF assms(1), of b] that by simp
  then show ?thesis
    using assms(2) ledger_moves_frame [OF assms(1)] ledger_moves_finds(1) [OF assms(1)]
    unfolding task_rows_ok_def by metis
qed

lemma repayments_no_charge: "ledger_moves (repayment_of a) db d \<Longrightarrow> charges_of d q = charges_of db q"
proof -
  assume m: "ledger_moves (repayment_of a) db d"
  obtain rows where rows: "credit_ledger d = credit_ledger db @ rows"
    "\<And>r. r \<in> set rows \<Longrightarrow> \<exists>v d. repayment_of a v \<and> r = new_ledger_row v d"
    by (rule ledger_moves_rows [OF m]) blast
  have "filter (\<lambda>x. led_reservation x = Some q \<and> led_kind x = TaskCharge) rows = []"
    unfolding filter_empty_conv using rows(2) by (fastforce simp: repayment_of_def)
  with rows(1) show ?thesis by (simp add: charges_of_def)
qed

text \<open>Everything a settlement of \<open>rid\<close> leaves alone, and the rows it adds.\<close>

definition settles_only :: "uuid \<Rightarrow> uuid \<Rightarrow> db \<Rightarrow> db \<Rightarrow> bool" where
  "settles_only a rid db d \<longleftrightarrow>
     (\<forall>q. q \<noteq> rid \<longrightarrow> find_reservation d q = find_reservation db q \<and> calls_of d q = calls_of db q \<and>
        holds_of d q = holds_of db q \<and> charges_of d q = charges_of db q) \<and>
     credit_rate_cards d = credit_rate_cards db \<and> credit_rate_card_models d = credit_rate_card_models db \<and>
     (\<exists>rows. credit_ledger d = credit_ledger db @ rows \<and>
        (\<forall>x\<in>set rows. led_account x = a \<and> (\<forall>q. led_reservation x = Some q \<longrightarrow> q = rid) \<and>
           (task_key rid (idempotency_key x) \<or>
            (\<exists>i n. uuid_ok i \<and> idempotency_key x = colon_join [''debt_repayment'', i, dec n]))))"

lemma settles_only_trans: "settles_only a rid db d \<Longrightarrow> settles_only a rid d e \<Longrightarrow> settles_only a rid db e"
  unfolding settles_only_def by (auto simp: ball_Un)

lemma moves_settles_only:
  assumes m: "task_moves K a rid db d" and K: "\<And>k. K k \<Longrightarrow> task_key rid k"
  shows "settles_only a rid db d"
  using moves_frame_finds [OF m] moves_holds [OF m] moves_charges [OF m] moves_ledger [OF m] K moves_frame [OF m]
  unfolding settles_only_def by metis

lemma repayments_settles_only:
  assumes m: "ledger_moves (repayment_of a) db d"
  shows "settles_only a rid db d"
proof -
  obtain rows where rows: "credit_ledger d = credit_ledger db @ rows"
    "\<And>r. r \<in> set rows \<Longrightarrow> \<exists>v d. repayment_of a v \<and> r = new_ledger_row v d"
    by (rule ledger_moves_rows [OF m]) blast
  have "led_account x = a \<and> led_reservation x = None \<and>
      (\<exists>i n. uuid_ok i \<and> idempotency_key x = colon_join [''debt_repayment'', i, dec n])" if "x \<in> set rows" for x
  proof -
    from rows(2) [OF that] obtain v e where v: "repayment_of a v" "x = new_ledger_row v e" by blast
    show ?thesis using v(1) unfolding v(2) repayment_of_def new_ledger_row_simps by blast
  qed
  with rows(1) show ?thesis
    using ledger_moves_finds [OF m] repayments_no_charge [OF m] ledger_moves_frame(8,9) [OF m]
    unfolding settles_only_def by auto
qed

lemma put_settles_only: "(\<And>r. res_id (f r) = res_id r) \<Longrightarrow> settles_only a rid db (put_task rid f db)"
  by (simp add: settles_only_def find_put_task)

lemma crashed_settles_only: "settles_only a rid db (crashed_db rid db)"
  by (simp add: settles_only_def crashed_finds)

text \<open>The other tasks of the database stay balanced.\<close>

lemma settles_only_balanced:
  assumes only: "settles_only a rid db d" and bal: "tasks_balanced db" and rows: "task_rows_ok db" and rid: "uuid_ok rid"
    and q: "find_reservation d (res_id q) = Some q" "res_id q \<noteq> rid"
  shows "credit_check_reservation d (res_id q) \<and> (res_state q = Open \<longrightarrow>
    (\<forall>h\<in>set (holds_of d (res_id q)). released_at h = None) \<and> charges_of d (res_id q) = [] \<and>
    (\<forall>x\<in>set (credit_ledger d). \<not> task_key (res_id q) (idempotency_key x)))"
proof -
  have same: "find_reservation d (res_id q) = find_reservation db (res_id q)" "calls_of d (res_id q) = calls_of db (res_id q)"
    "holds_of d (res_id q) = holds_of db (res_id q)" "charges_of d (res_id q) = charges_of db (res_id q)"
    using only q(2) by (simp_all add: settles_only_def)
  have member: "q \<in> set (credit_reservations db)"
    using find_reservation_Some [of db "res_id q" q] same(1) q(1) by simp
  have id: "uuid_ok (res_id q)" using rows member by (simp add: task_rows_ok_def)
  obtain new where new: "credit_ledger d = credit_ledger db @ new"
    "\<And>x. x \<in> set new \<Longrightarrow> task_key rid (idempotency_key x) \<or>
       (\<exists>i n. uuid_ok i \<and> idempotency_key x = colon_join [''debt_repayment'', i, dec n])"
    using only unfolding settles_only_def by blast
  have "\<not> task_key (res_id q) (idempotency_key x)" if "x \<in> set new" for x
    using new(2) [OF that] task_key_unique [OF _ _ rid id, of "idempotency_key x"] q(2)
      task_key_not_counter [OF _ id, of "idempotency_key x" _ "''debt_repayment''"] by blast
  moreover have "credit_check_reservation d (res_id q)" unfolding check_cong [OF same]
    using bal member by (simp add: tasks_balanced_def)
  ultimately show ?thesis
    using bal member same new(1) by (auto simp: tasks_balanced_def)
qed

lemma settles_only_commit:
  assumes only: "settles_only a rid db d" and rows: "task_rows_ok d" "find_reservation d rid = Some r" "res_account r = a"
    and free: "credit_check_debt_vs_free d a" and check: "credit_check_reservation d rid"
    and ids: "distinct (map res_id (credit_reservations d))"
  shows "commit_checks db d"
proof -
  obtain new where new: "credit_ledger d = credit_ledger db @ new"
    "\<And>x. x \<in> set new \<Longrightarrow> led_account x = a \<and> (\<forall>q. led_reservation x = Some q \<longrightarrow> q = rid)"
    using only unfolding settles_only_def by blast
  have led: "led_account x = a" "led_reservation x = Some q \<Longrightarrow> q = rid"
    if "x \<in> set (new_rows (credit_ledger db) (credit_ledger d))" for x q
    using that new by (auto simp: new_rows_def)
  have hold: "hold_reservation h = rid \<and> hold_account h = a"
    if "h \<in> set (new_rows (credit_reservation_holds db) (credit_reservation_holds d))" for h
  proof -
    have h: "h \<in> set (credit_reservation_holds d)" "h \<notin> set (credit_reservation_holds db)" using that by (auto simp: new_rows_def)
    have "h \<in> set (holds_of d (hold_reservation h))" "h \<notin> set (holds_of db (hold_reservation h))"
      using h by (simp_all add: holds_of_def)
    then have "hold_reservation h = rid" using only unfolding settles_only_def by metis
    with h(1) rows show ?thesis by (auto simp: task_rows_ok_def)
  qed
  have call: "call_reservation c = rid" if "c \<in> set (new_rows (credit_model_calls db) (credit_model_calls d))" for c
  proof -
    have "c \<in> set (calls_of d (call_reservation c))" "c \<notin> set (calls_of db (call_reservation c))"
      using that by (auto simp: new_rows_def calls_of_def)
    then show ?thesis using only unfolding settles_only_def by metis
  qed
  have task: "res_id q = rid" if "q \<in> set (new_rows (credit_reservations db) (credit_reservations d))" for q
  proof (rule ccontr)
    assume "res_id q \<noteq> rid"
    moreover have "find_reservation d (res_id q) = Some q"
      using that ids by (auto simp: new_rows_def find_reservation_def lookup_by_member)
    ultimately have "find_reservation db (res_id q) = Some q" using only by (simp add: settles_only_def)
    from find_reservation_Some [OF this] that show False by (auto simp: new_rows_def)
  qed
  have "x = a" if "x \<in> set (touched_accounts db d)" for x
    using that led(1) hold by (auto simp: touched_accounts_def)
  moreover have "x = rid" if "x \<in> set (touched_reservations db d)" for x
    using that led(2) hold call task by (auto simp: touched_reservations_def map_filter_def)
  ultimately show ?thesis using free check unfolding commit_checks_def list_all_iff by metis
qed

subsection \<open>The walk, from a sound state\<close>

text \<open>
  Room for the amounts of the settlement: what the account owes and what claims stand against it is a
  safe integer together, and the ledger's sequence is far from the largest id a counter key can carry.
\<close>

definition settle_headroom :: "db \<Rightarrow> uuid \<Rightarrow> bool" where
  "settle_headroom db a \<longleftrightarrow>
     account_debt db a + pending_total db a \<le> MAX_SAFE \<and>
     ledger_seq db + (length (credit_reservation_holds db) + 1) * (length (credit_clawbacks db) + 3) < 10 ^ 17"

definition first_walk :: "int \<Rightarrow> int \<Rightarrow> PendingCreditClaim list \<Rightarrow> settle_walk" where
  "first_walk charged debt pending =
     \<lparr>sw_left = charged, sw_owedDebt = debt, sw_claims = map as_owed pending, sw_claimsPaidMicro = 0, sw_charges = []\<rparr>"

definition task_purses :: "db \<Rightarrow> uuid \<Rightarrow> (uuid \<times> int) list" where
  "task_purses db rid = map (\<lambda>(h, l). (hold_lot h, hold_micro h)) (open_holds db rid)"

lemma sys_invD:
  assumes "sys_inv db"
  shows "db_inv db" "hygiene db" "task_rows_ok db" "slots_ok db" "tasks_balanced db" "claims_ok db"
  using assms by (simp_all add: sys_inv_def task_inv_def)

lemma open_task_fresh:
  assumes "sys_inv db" "find_reservation db rid = Some r" "res_state r = Open"
  shows "uuid_ok rid" "find_account db (res_account r) \<noteq> None" "credit_check_reservation db rid"
    "\<And>h. h \<in> set (holds_of db rid) \<Longrightarrow> released_at h = None" "charges_of db rid = []"
    "task_key rid k \<Longrightarrow> \<not> key_taken db b k" "reserved r \<le> MAX_SAFE" "reservation_checks r"
proof -
  note inv = sys_invD [OF assms(1)]
  have r: "r \<in> set (credit_reservations db)" "res_id r = rid" using find_reservation_Some [OF assms(2)] by auto
  show "uuid_ok rid" "find_account db (res_account r) \<noteq> None" "reserved r \<le> MAX_SAFE" "reservation_checks r"
    using inv(3) r by (auto simp: task_rows_ok_def)
  have bal: "credit_check_reservation db rid \<and> (\<forall>h\<in>set (holds_of db rid). released_at h = None) \<and>
      charges_of db rid = [] \<and> (\<forall>x\<in>set (credit_ledger db). \<not> task_key rid (idempotency_key x))"
    using inv(5) r assms(3) by (auto simp: tasks_balanced_def)
  then show "credit_check_reservation db rid" "charges_of db rid = []" by auto
  show "\<And>h. h \<in> set (holds_of db rid) \<Longrightarrow> released_at h = None" using bal by blast
  show "task_key rid k \<Longrightarrow> \<not> key_taken db b k" using bal by (auto simp: key_taken_def list_ex_iff)
qed

lemma walk_phase:
  assumes inv: "sys_inv db" and r: "find_reservation db rid = Some r" "res_state r = Open" "res_mode r = Enforce" "res_account r = a"
    and r': "res_id r' = rid" and room: "settle_headroom db a" and charged: "0 \<le> C" "C \<le> reserved r"
  obtains cs own hs w d where "pendingClaims a db = Inr cs" "ownLots a db (map as_owed cs) [] = Inr own"
    "openHoldsInSpendOrder rid db = Inr hs"
    "foldr_result (settle_hold a r' own) (first_walk C (account_debt db a) cs, db) hs = Inr (w, d)"
    "task_moves (walk_key rid) a rid db d" "walk_ok a rid w d" "sw_charges w = draw C (task_purses db rid)"
    "- sum_by lot_delta (charges_of d rid) = C" "sum_by hold_charged_or_0 (holds_of d rid) = C"
    "\<forall>h\<in>set (holds_of d rid). released_at h \<noteq> None" "account_debt d a + sum_by owed (sw_claims w) \<le> MAX_SAFE"
    "ledger_seq d + length (sw_claims w) < 10 ^ 17"
    "sum_by owed (sw_claims w) + sw_claimsPaidMicro w = pending_total db a" "0 \<le> sw_claimsPaidMicro w"
proof -
  note ok = sys_invD [OF inv] and t = open_task_fresh [OF inv r(1,2)]
  have pend: "pending_total db a \<le> MAX_SAFE" using room debt_nonneg [OF ok(1), of a] by (simp add: settle_headroom_def)
  obtain cs where cs: "pendingClaims a db = Inr cs" "claims_match db (map as_owed cs)"
    "sum_by owed (map as_owed cs) = pending_total db a" "length cs \<le> length (credit_clawbacks db)"
    using pendingClaims_effect [OF ok(6) pend] by blast
  obtain own where own: "ownLots a db (map as_owed cs) [] = Inr own" using ownLots_total [OF ok(1,2)] by blast
  obtain hs where hs: "openHoldsInSpendOrder rid db = Inr hs" "hs = map (open_hold_of db) (open_holds db rid)"
    "distinct (map oh_lot hs)" "\<And>h. h \<in> set hs \<Longrightarrow> ready_hold db a rid h" "sum_by oh_heldMicro hs = reserved r"
    "oh_lot ` set hs = hold_lot ` set (holds_of db rid)" "length hs \<le> length (credit_reservation_holds db)"
    using openHolds_effect [OF ok(1-3) t(3) r(1,3,4) t(4,6)] by blast
  let ?w = "first_walk C (account_debt db a) cs"
  have start: "walk_ok a rid ?w db"
    using ok t(1,2) r(4) charged(1) cs(2) by (simp add: walk_ok_def first_walk_def)
  obtain w d where w: "foldr_result (settle_hold a r' own) (?w, db) hs = Inr (w, d)" "walked a rid hs ?w db w d"
    using walk_effect [OF start hs(4,3) r' [symmetric], of own] by blast
  note wd = w(2) [unfolded walked_def]
  have left: "sw_left w = 0" "sw_left ?w = C" using wd charged hs(5) by (simp_all add: first_walk_def)
  have purses: "purses hs = task_purses db rid"
    unfolding purses_def hs(2) task_purses_def by (simp add: open_hold_of_def case_prod_beta comp_def)
  have "sum_by hold_charged_or_0 (holds_of db rid) = 0"
  proof (rule sum_by_zero)
    fix h assume h: "h \<in> set (holds_of db rid)"
    then have "hold_charged h = None" using t(4) [OF h] ok(3) by (auto simp: task_rows_ok_def holds_of_def)
    then show "hold_charged_or_0 h = 0" by (simp add: hold_charged_or_0_def)
  qed
  then have "sum_by hold_charged_or_0 (holds_of d rid) = C" using wd left by simp
  moreover have "- sum_by lot_delta (charges_of d rid) = C" using wd left t(5) by simp
  moreover have "\<forall>h\<in>set (holds_of d rid). released_at h \<noteq> None"
  proof
    fix h assume "h \<in> set (holds_of d rid)"
    then show "released_at h \<noteq> None" using wd hs(6) by blast
  qed
  moreover have claims: "sum_by owed (sw_claims w) + sw_claimsPaidMicro w = pending_total db a" "0 \<le> sw_claimsPaidMicro w"
    "length (sw_claims w) = length cs"
    using wd cs(3) by (auto simp: first_walk_def dest: map_eq_imp_length_eq)
  moreover have "account_debt d a + sum_by owed (sw_claims w) \<le> MAX_SAFE"
    using wd claims room by (auto simp: settle_headroom_def)
  moreover have "ledger_seq d + length (sw_claims w) < 10 ^ 17"
  proof -
    have "length hs * (3 + length cs) \<le> length (credit_reservation_holds db) * (length (credit_clawbacks db) + 3)"
      using hs(7) cs(4) by (intro mult_le_mono) simp_all
    moreover have "ledger_seq d \<le> ledger_seq db + length hs * (3 + length cs)" using wd by (simp add: first_walk_def)
    ultimately show ?thesis using room claims(3) cs(4) by (simp add: settle_headroom_def)
  qed
  moreover have "sw_charges w = draw C (task_purses db rid)" using wd left(2) purses by (simp add: first_walk_def)
  ultimately show thesis using that [OF cs(1) own hs(1) w(1)] wd by blast
qed

subsection \<open>The end of the task\<close>

lemma keeps_terms_settled: "keeps_terms (settled_row C why t)"
  by (simp add: keeps_terms_def settled_row_def)

lemma checks_settled:
  assumes "reservation_checks r" "0 \<le> C" "C \<le> reserved r"
  shows "reservation_checks (settled_row C why t r)"
  using assms unfolding reservation_checks_def settled_row_def by (simp cong: option.case_cong)

lemma markSettled_effect:
  assumes "task_rows_ok d" "find_reservation d rid = Some r" "res_state r = Open" "0 \<le> C" "C \<le> reserved r"
  shows "markSettled rid C why d = Inr ((), put_task rid (settled_row C why (db_now d)) d)"
    and "task_rows_ok (put_task rid (settled_row C why (db_now d)) d)"
proof -
  let ?f = "settled_row C why (db_now d)"
  have "reservation_checks r" using assms(1) find_reservation_Some [OF assms(2)] by (simp add: task_rows_ok_def)
  then have checks: "reservation_checks (?f r)" using assms(4,5) by (rule checks_settled)
  show "markSettled rid C why d = Inr ((), put_task rid ?f d)"
    unfolding markSettled_def update_open_task [where f = ?f, OF assms(1-3) checks] by simp
  show "task_rows_ok (put_task rid ?f d)"
    by (rule put_task_rows [where f = ?f, OF assms(1,2) keeps_terms_settled checks])
qed

lemma left_over_nothing: "0 \<le> sum_by owed cs \<Longrightarrow> left_over a rid cs 0 db db"
  by (simp add: left_over_def)

lemma claimsLeft_effect:
  assumes "walk_ok a rid w d" and new_id: "\<And>d. uuid_ok (new_id d)"
    and fresh: "\<And>k. claim_debt_key rid k \<Longrightarrow> \<not> key_taken d a k"
  shows "\<exists>t d'. claimsLeftBecomeDebt new_id a rid (sw_claims w) d = Inr (t, d') \<and>
    left_over a rid (filter (\<lambda>c. owed c > 0) (sw_claims w)) t d d'"
proof -
  let ?cs = "filter (\<lambda>c. owed c > 0) (sw_claims w)"
  from assms(1) have ok: "db_inv d" "claims_ok d" "uuid_ok rid" "find_account d a \<noteq> None" "claims_match d (sw_claims w)"
    by (simp_all add: walk_ok_def)
  have match: "claims_match d ?cs" using ok(5) by (auto simp: claims_match_def distinct_map inj_on_def)
  have fresh': "\<not> key_taken d a (colon_join [''claim_debt'', pc_clawback c, rid])" if "c \<in> set ?cs" for c
    using fresh claims_match_uuid [OF ok(2) match that] by (auto simp: claim_debt_key_def)
  have "\<exists>t d'. debt_loop new_id a rid ?cs d = Inr (t, d') \<and> left_over a rid ?cs t d d'"
    by (rule debt_loop_effect [OF ok(1,2) match ok(3,4) _ fresh' new_id]) simp_all
  moreover have "left_over a rid ?cs 0 d d" by (rule left_over_nothing) (auto intro: sum_by_nonneg)
  ultimately show ?thesis by (auto simp: claimsLeftBecomeDebt_def Let_def)
qed

lemma walk_key_debt:
  assumes "walk_key rid k" "uuid_ok rid"
  shows "task_key rid k" "\<not> claim_debt_key rid k"
proof -
  from assms(1) obtain lot where lot: "uuid_ok lot" "lot_key rid lot k" by (auto simp: walk_key_def)
  show "task_key rid k" by (rule lot_key_task [OF lot(2,1)])
  show "\<not> claim_debt_key rid k"
    using lot_key_not_claim_debt [OF lot(2) assms(2) lot(1)] by (auto simp: claim_debt_key_def)
qed

lemma claim_debt_task_key: "claim_debt_key rid k \<Longrightarrow> task_key rid k"
  by (auto simp: claim_debt_key_def intro: task_key.intros)

text \<open>
  From the end of the walk to the end of the transaction body: the state \<open>e\<close> it leaves differs from
  \<open>d\<close> in the task's own row and in rows the settlement may write, and no account owes debt beside
  free credit.
\<close>

lemma finish_phase:
  assumes ok: "walk_ok a rid w d" "hygiene d" "task_rows_ok d"
    and r: "find_reservation d rid = Some r" "res_state r = Open" "0 \<le> C" "C \<le> reserved r"
    and new_id: "\<And>d. uuid_ok (new_id d)" and fresh: "\<And>k. claim_debt_key rid k \<Longrightarrow> \<not> key_taken d a k"
    and room: "account_debt d a + sum_by owed (sw_claims w) \<le> MAX_SAFE" "ledger_seq d + length (sw_claims w) < 10 ^ 17"
    and f_def: "f = settled_row C why (db_now d)"
  obtains t d4 paid e where "markSettled rid C why d = Inr ((), put_task rid f d)"
    "claimsLeftBecomeDebt new_id a rid (sw_claims w) (put_task rid f d) = Inr (t, d4)"
    "settleDebtFromFree a d4 = Inr (paid, e)" "0 \<le> t" "t \<le> sum_by owed (sw_claims w)"
    "settles_only a rid d e" "find_reservation e rid = Some (f r)" "calls_of e rid = calls_of d rid"
    "holds_of e rid = holds_of d rid" "charges_of e rid = charges_of d rid"
    "credit_reservations e = credit_reservations (put_task rid f d)"
    "db_inv e" "hygiene e" "task_rows_ok e" "claims_ok e" "credit_check_debt_vs_free e a" "account_debt e a \<le> MAX_SAFE"
proof -
  let ?d3 = "put_task rid f d"
  from ok(1) have parts: "db_inv d" "claims_ok d" "uuid_ok rid" "find_account d a \<noteq> None" "claims_match d (sw_claims w)"
    by (simp_all add: walk_ok_def)
  have mark: "markSettled rid C why d = Inr ((), ?d3)" "task_rows_ok ?d3"
    using markSettled_effect [OF ok(3) r] by (simp_all add: f_def)
  have match3: "claims_match ?d3 (sw_claims w)" using parts(5) claims_match_cong [of "sw_claims w" ?d3 d] by simp
  then have ok3: "walk_ok a rid w ?d3" using ok(1) by (simp add: walk_ok_def)
  obtain t d4 where t: "claimsLeftBecomeDebt new_id a rid (sw_claims w) ?d3 = Inr (t, d4)"
    "left_over a rid (filter (\<lambda>c. owed c > 0) (sw_claims w)) t ?d3 d4"
    using claimsLeft_effect [OF ok3 new_id] fresh by fastforce
  note left = t(2) [unfolded left_over_def]
  have m4: "task_moves (claim_debt_key rid) a rid ?d3 d4" using left by blast
  have sum: "sum_by owed (filter (\<lambda>c. owed c > 0) (sw_claims w)) \<le> sum_by owed (sw_claims w)"
    using parts(5) by (intro sum_by_filter_le) (auto simp: claims_match_def claim_matches_def)
  have len: "length (filter (\<lambda>c. owed c > 0) (sw_claims w)) \<le> length (sw_claims w)" by simp
  have inv4: "db_inv d4" "hygiene d4" "claims_ok d4" "task_rows_ok d4"
    using moves_inv [OF m4] moves_hygiene [OF m4 _ parts(3) claim_debt_task_key] moves_claims_ok [OF m4]
      moves_task_rows [OF m4 mark(2)] parts(1,2) ok(2) by simp_all
  have debt4: "account_debt d4 a \<le> MAX_SAFE" using left sum room(1) by auto
  have seq4: "ledger_seq d4 < 10 ^ 17"
  proof -
    have "ledger_seq d4 \<le> ledger_seq d + length (filter (\<lambda>c. owed c > 0) (sw_claims w))" using left by simp
    with len room(2) show ?thesis by linarith
  qed
  obtain paid e where e: "settleDebtFromFree a d4 = Inr (paid, e)" "db_inv e" "hygiene e"
    "ledger_moves (repayment_of a) d4 e" "account_debt e a = account_debt d4 a - sum_by snd paid"
    "free_credit e a = free_credit d4 a - sum_by snd paid" "sum_by snd paid = min (account_debt d4 a) (free_credit d4 a)"
    using settle_debt_effect [OF inv4(1,2) seq4 debt4] by blast
  have free: "credit_check_debt_vs_free e a" using e(5-7) by (auto simp: credit_check_debt_vs_free_def min_def)
  have only: "settles_only a rid d e"
    by (rule settles_only_trans [OF put_settles_only settles_only_trans [OF moves_settles_only [OF m4 claim_debt_task_key]
      repayments_settles_only [OF e(4)]]]) (simp_all add: f_def settled_row_def)
  have reservations: "credit_reservations e = credit_reservations ?d3" "calls_of e rid = calls_of d rid"
    "find_reservation e rid = find_reservation ?d3 rid"
    using moves_frame [OF m4] moves_frame_finds [OF m4] ledger_moves_frame [OF e(4)] ledger_moves_finds [OF e(4)] by simp_all
  have "res_id (f q) = res_id q" for q by (simp add: f_def settled_row_def)
  then have found: "find_reservation e rid = Some (f r)" using reservations(3) r(1) by (simp add: find_put_task)
  have holds: "holds_of e rid = holds_of d rid"
    using left ledger_moves_finds(3) [OF e(4)] by (simp add: holds_of_def)
  have charges: "charges_of e rid = charges_of d rid" using left repayments_no_charge [OF e(4)] by simp
  have rows: "task_rows_ok e" by (rule ledger_moves_task_rows [OF e(4) inv4(4)])
  have claims: "claims_ok e" using inv4(3) ledger_moves_frame(5) [OF e(4)] by (simp add: claims_ok_def)
  have bounds: "0 \<le> t" "t \<le> sum_by owed (sw_claims w)" using left sum by linarith+
  have "0 \<le> sum_by snd paid"
    unfolding e(7) using debt_nonneg [OF inv4(1)] free_credit_nonneg [of d4] inv4(1) by (simp add: db_inv_def)
  then have debt: "account_debt e a \<le> MAX_SAFE" using e(5) debt4 by simp
  show thesis
    by (rule that [OF mark(1) t(1) e(1) bounds only found reservations(2) holds charges reservations(1) e(2,3) rows claims free debt])
qed

subsection \<open>The whole settlement\<close>

definition final_row :: "db \<Rightarrow> uuid \<Rightarrow> settle_reason \<Rightarrow> credit_reservation \<Rightarrow> credit_reservation" where
  "final_row db rid why r = settled_row (task_charge db rid) why (db_now db) (set_committed (task_charge db rid) r)"

lemma settled_check:
  assumes "find_reservation e rid = Some q" "res_state q = Settled" "res_mode q = Enforce" "committed q = C" "res_charged q = Some C"
    "sum_by call_commits (calls_of e rid) = C" "sum_by charged_or_0 (calls_of e rid) = C"
    "\<not> list_ex (\<lambda>c. call_state c = Started) (calls_of e rid)" "sum_by hold_micro (holds_of e rid) = reserved q"
    "\<forall>h\<in>set (holds_of e rid). released_at h \<noteq> None" "sum_by hold_charged_or_0 (holds_of e rid) = C"
    "- sum_by lot_delta (charges_of e rid) = C"
  shows "credit_check_reservation e rid"
  using assms by (auto simp: credit_check_reservation_def list_ex_iff)

lemma hold_sum_moves:
  assumes "task_moves K a rid db d"
  shows "sum_by hold_micro (holds_of d q) = sum_by hold_micro (holds_of db q)"
proof -
  have terms: "sum_by hold_micro (filter (\<lambda>h. hold_reservation h = q) hs) =
      sum_by (\<lambda>p. case p of (i, l, b, m) \<Rightarrow> if i = q then m else 0)
        (map (\<lambda>h. (hold_reservation h, hold_lot h, hold_account h, hold_micro h)) hs)" for hs
    unfolding sum_by_filter_if sum_by_map by (rule sum_by_cong) simp
  show ?thesis unfolding holds_of_def terms moves_hold_terms [OF assms] ..
qed

lemma lock_reads:
  assumes "sys_inv db" "find_reservation db rid = Some r" "account_debt db (res_account r) \<le> MAX_SAFE"
    and "reserved r \<le> MAX_SAFE" "reservation_checks r" "safe_int (res_card r)" "res_mode r = Enforce"
  shows "\<exists>acct. lockAccount (res_account r) db = Inr (acct, db) \<and> debt_micro acct = account_debt db (res_account r)"
    and "lockReservation rid db = Inr (Some r)"
proof -
  have "find_account db (res_account r) \<noteq> None"
    using sys_invD(3) [OF assms(1)] find_reservation_Some [OF assms(2)] by (auto simp: task_rows_ok_def)
  then obtain c where c: "find_account db (res_account r) = Some c" by auto
  have "0 \<le> debt_micro c" "debt_micro c \<le> MAX_SAFE"
    using debt_nonneg [OF sys_invD(1) [OF assms(1)], of "res_account r"] assms(3) c by (simp_all add: account_debt_def)
  then have "safe_int (debt_micro c)" by (simp add: safe_int_def)
  with c show "\<exists>acct. lockAccount (res_account r) db = Inr (acct, db) \<and> debt_micro acct = account_debt db (res_account r)"
    by (simp add: lockAccount_def Let_def insert_account_def toAccountRecord_def account_debt_def)
  have "0 < reserved r" "0 \<le> committed r" "committed r \<le> reserved r"
    using assms(5,7) by (auto simp: reservation_checks_def)
  then have "safe_int (reserved r)" "safe_int (committed r)" using assms(4) by (simp_all add: safe_int_def)
  moreover obtain s where "res_slot r = Some s" "slotOf (Some s) = Inr s"
    using assms(5,7) by (auto simp: reservation_checks_def slotOf_def CREDIT_RESERVATION_SLOTS_def)
  moreover have "case res_charged r of None \<Rightarrow> True | Some c \<Rightarrow> safe_int c"
    using assms(4,5,7) by (auto simp: reservation_checks_def safe_int_def split: option.splits)
  ultimately show "lockReservation rid db = Inr (Some r)"
    using assms(2,6) by (cases "res_charged r") (simp_all add: lockReservation_def)
qed

text \<open>What a settlement that changed only its own task has to show, and the COMMIT goes through.\<close>

lemma settled_sys_inv:
  assumes only: "settles_only a rid db e" and inv: "sys_inv db" and rid: "uuid_ok rid"
    and e: "db_inv e" "hygiene e" "task_rows_ok e" "claims_ok e" "slots_ok e"
    and q: "find_reservation e rid = Some q" "res_state q = Settled" "res_account q = a"
    and checks: "credit_check_reservation e rid" "credit_check_debt_vs_free e a"
  shows "sys_inv e" "commit_checks db e"
proof -
  have "tasks_balanced e"
    unfolding tasks_balanced_def
  proof (rule ballI)
    fix p assume p: "p \<in> set (credit_reservations e)"
    have found: "find_reservation e (res_id p) = Some p" by (rule find_reservation_member [OF e(3) p])
    show "credit_check_reservation e (res_id p) \<and> (res_state p = Open \<longrightarrow>
      (\<forall>h\<in>set (holds_of e (res_id p)). released_at h = None) \<and> charges_of e (res_id p) = [] \<and>
      (\<forall>x\<in>set (credit_ledger e). \<not> task_key (res_id p) (idempotency_key x)))"
    proof (cases "res_id p = rid")
      case True
      then have "p = q" using found q(1) by simp
      with True checks(1) q(2) show ?thesis by simp
    qed (rule settles_only_balanced [OF only sys_invD(5,3) [OF inv] rid found])
  qed
  with e show "sys_inv e" by (simp add: sys_inv_def task_inv_def)
  have "distinct (map res_id (credit_reservations e))" using e(3) by (simp add: task_rows_ok_def)
  then show "commit_checks db e" by (rule settles_only_commit [OF only e(3) q(1,3) checks(2,1)])
qed

text \<open>The body of the settlement after the crash step: the result of the walk and of the end of the task.\<close>

lemma settle_body:
  assumes inv: "sys_inv db" and r: "find_reservation db rid = Some r" "res_state r = Open" "res_mode r = Enforce" "res_account r = a"
    and r': "res_id r' = rid" and room: "settle_headroom db a" and charged: "0 \<le> C" "C \<le> reserved r"
    and new_id: "\<And>d. uuid_ok (new_id d)" and f_def: "f = settled_row C why (db_now db)"
  obtains cs own hs w d3 s d4 paid e where "pendingClaims a db = Inr cs" "ownLots a db (map as_owed cs) [] = Inr own"
    "openHoldsInSpendOrder rid db = Inr hs"
    "foldr_result (settle_hold a r' own) (first_walk C (account_debt db a) cs, db) hs = Inr (w, d3)"
    "markSettled rid C why d3 = Inr ((), put_task rid f d3)"
    "claimsLeftBecomeDebt new_id a rid (sw_claims w) (put_task rid f d3) = Inr (s, d4)"
    "settleDebtFromFree a d4 = Inr (paid, e)"
    "sw_charges w = draw C (task_purses db rid)" "0 \<le> s" "0 \<le> sw_claimsPaidMicro w"
    "sw_claimsPaidMicro w + s \<le> pending_total db a" "settles_only a rid db e" "find_reservation e rid = Some (f r)"
    "calls_of e rid = calls_of db rid" "sum_by hold_micro (holds_of e rid) = sum_by hold_micro (holds_of db rid)"
    "sum_by hold_charged_or_0 (holds_of e rid) = C" "\<forall>h\<in>set (holds_of e rid). released_at h \<noteq> None"
    "- sum_by lot_delta (charges_of e rid) = C" "slots_ok e" "db_inv e" "hygiene e" "task_rows_ok e" "claims_ok e"
    "credit_check_debt_vs_free e a" "account_debt e a \<le> MAX_SAFE"
proof -
  note ok = sys_invD [OF inv] and t = open_task_fresh [OF inv r(1,2)]
  obtain cs own hs w d where walk: "pendingClaims a db = Inr cs" "ownLots a db (map as_owed cs) [] = Inr own"
    "openHoldsInSpendOrder rid db = Inr hs"
    "foldr_result (settle_hold a r' own) (first_walk C (account_debt db a) cs, db) hs = Inr (w, d)"
    and m: "task_moves (walk_key rid) a rid db d" and wok: "walk_ok a rid w d"
    and charges: "sw_charges w = draw C (task_purses db rid)" "- sum_by lot_delta (charges_of d rid) = C"
    and holds: "sum_by hold_charged_or_0 (holds_of d rid) = C" "\<forall>h\<in>set (holds_of d rid). released_at h \<noteq> None"
    and room2: "account_debt d a + sum_by owed (sw_claims w) \<le> MAX_SAFE" "ledger_seq d + length (sw_claims w) < 10 ^ 17"
    and claims: "sum_by owed (sw_claims w) + sw_claimsPaidMicro w = pending_total db a" "0 \<le> sw_claimsPaidMicro w"
    by (rule walk_phase [OF inv r r' room charged])
  have hyg: "hygiene d" by (rule moves_hygiene [OF m ok(2) t(1)]) (rule walk_key_debt(1) [OF _ t(1)])
  have rows: "task_rows_ok d" by (rule moves_task_rows [OF m ok(3)])
  have r2: "find_reservation d rid = Some r" using r(1) moves_frame_finds(1) [OF m] by simp
  have fresh: "\<not> key_taken d a k" if "claim_debt_key rid k" for k
    using moves_key_free [OF m t(6) [OF claim_debt_task_key [OF that]]] walk_key_debt(2) [OF _ t(1)] that by blast
  have f': "f = settled_row C why (db_now d)" using f_def moves_frame [OF m] by simp
  obtain s d4 paid e where fin: "markSettled rid C why d = Inr ((), put_task rid f d)"
    "claimsLeftBecomeDebt new_id a rid (sw_claims w) (put_task rid f d) = Inr (s, d4)"
    "settleDebtFromFree a d4 = Inr (paid, e)" and s: "0 \<le> s" "s \<le> sum_by owed (sw_claims w)"
    and only: "settles_only a rid d e" and re: "find_reservation e rid = Some (f r)" "calls_of e rid = calls_of d rid"
    "holds_of e rid = holds_of d rid" "charges_of e rid = charges_of d rid"
    and rs: "credit_reservations e = credit_reservations (put_task rid f d)"
    and inve: "db_inv e" "hygiene e" "task_rows_ok e" "claims_ok e" "credit_check_debt_vs_free e a" "account_debt e a \<le> MAX_SAFE"
    by (rule finish_phase [where new_id = new_id, OF wok hyg rows r2 r(2) charged new_id fresh room2 f'])
  have "slots_ok d" using ok(4) moves_frame [OF m] by (simp add: slots_ok_def)
  then have "slots_ok (put_task rid f d)" unfolding f' by (rule put_task_slots [OF _ keeps_terms_settled])
  then have slots: "slots_ok e" by (simp add: slots_ok_def rs)
  have only': "settles_only a rid db e"
    by (rule settles_only_trans [OF moves_settles_only [OF m] only]) (rule walk_key_debt(1) [OF _ t(1)])
  have calls: "calls_of e rid = calls_of db rid" using re(2) moves_frame_finds(2) [OF m] by simp
  have sum: "sum_by hold_micro (holds_of e rid) = sum_by hold_micro (holds_of db rid)"
    using re(3) hold_sum_moves [OF m, of rid] by simp
  have paid: "sw_claimsPaidMicro w + s \<le> pending_total db a" using claims s by simp
  have ends: "sum_by hold_charged_or_0 (holds_of e rid) = C" "\<forall>h\<in>set (holds_of e rid). released_at h \<noteq> None"
    "- sum_by lot_delta (charges_of e rid) = C"
    using holds charges(2) re(3,4) by simp_all
  show thesis
    by (rule that [OF walk fin charges(1) s(1) claims(2) paid only' re(1) calls sum ends slots inve])
qed

lemma settle_effect:
  assumes inv: "sys_inv db" and r: "find_reservation db rid = Some r" "res_state r = Open" "res_mode r = Enforce"
    and room: "settle_headroom db (res_account r)" and new_id: "\<And>d. uuid_ok (new_id d)"
  defines "C \<equiv> task_charge db rid"
  obtains res e where "settleIn new_id rid why db = Inr (res, e)" "commit_checks db e" "sys_inv e" "sr_outcome res = OutcomeSettled"
    "sr_chargedMicro res = C" "sr_charges res = draw C (task_purses db rid)"
    "find_reservation e rid = Some (final_row db rid why r)" "- sum_by lot_delta (charges_of e rid) = C"
    "0 \<le> sr_claimsPaidMicro res" "0 \<le> sr_claimsToDebtMicro res"
    "sr_claimsPaidMicro res + sr_claimsToDebtMicro res \<le> pending_total db (res_account r)"
    "settles_only (res_account r) rid db e" "credit_check_debt_vs_free e (res_account r)"
    "account_debt e (res_account r) \<le> MAX_SAFE" "0 \<le> C" "C \<le> reserved r"
    "calls_of e rid = calls_of (crashed_db rid db) rid"
proof -
  let ?a = "res_account r" and ?d1 = "crashed_db rid db" and ?r = "set_committed C r"
  note ok = sys_invD [OF inv] and t = open_task_fresh [OF inv r(1,2)]
  have C: "0 \<le> C" "C \<le> reserved r"
    using task_charge_bounds [OF ok(3) t(3) r(1)] t(8) r(3) by (auto simp: C_def reservation_checks_def)
  note inv1 = crashed_sys_inv [OF inv r(1,2)]
  then obtain n where crash: "settleStartedCallsAfterACrash rid db = Inr (n, ?d1)" by blast
  have r1: "find_reservation ?d1 rid = Some ?r" "res_state ?r = Open" "res_mode ?r = Enforce" "res_account ?r = ?a" "C \<le> reserved ?r"
    using r C(2) by (simp_all add: crashed_finds C_def set_committed_def)
  have room1: "settle_headroom ?d1 ?a" using room by (simp add: settle_headroom_def pending_total_def)
  have rid: "res_id r = rid" using find_reservation_Some [OF r(1)] by simp
  let ?f = "settled_row C why (db_now ?d1)"
  obtain cs own hs w d3 s d4 paid e where steps: "pendingClaims ?a ?d1 = Inr cs" "ownLots ?a ?d1 (map as_owed cs) [] = Inr own"
    "openHoldsInSpendOrder rid ?d1 = Inr hs"
    "foldr_result (settle_hold ?a r own) (first_walk C (account_debt ?d1 ?a) cs, ?d1) hs = Inr (w, d3)"
    "markSettled rid C why d3 = Inr ((), put_task rid ?f d3)"
    "claimsLeftBecomeDebt new_id ?a rid (sw_claims w) (put_task rid ?f d3) = Inr (s, d4)"
    "settleDebtFromFree ?a d4 = Inr (paid, e)"
    and paid: "sw_charges w = draw C (task_purses ?d1 rid)" "0 \<le> s" "0 \<le> sw_claimsPaidMicro w"
    "sw_claimsPaidMicro w + s \<le> pending_total ?d1 ?a"
    and only: "settles_only ?a rid ?d1 e" and re: "find_reservation e rid = Some (?f ?r)" "calls_of e rid = calls_of ?d1 rid"
    "sum_by hold_micro (holds_of e rid) = sum_by hold_micro (holds_of ?d1 rid)"
    "sum_by hold_charged_or_0 (holds_of e rid) = C" "\<forall>h\<in>set (holds_of e rid). released_at h \<noteq> None"
    "- sum_by lot_delta (charges_of e rid) = C"
    and inve: "slots_ok e" "db_inv e" "hygiene e" "task_rows_ok e" "claims_ok e" "credit_check_debt_vs_free e ?a" "account_debt e ?a \<le> MAX_SAFE"
    by (rule settle_body [where new_id = new_id, OF inv1(1) r1(1-4) rid room1 C(1) r1(5) new_id refl])
  have f: "res_state (?f ?r) = Settled" "res_mode (?f ?r) = Enforce" "committed (?f ?r) = C" "res_charged (?f ?r) = Some C"
    "reserved (?f ?r) = reserved r" "res_account (?f ?r) = ?a"
    using r(3) by (simp_all add: settled_row_def set_committed_def)
  have "sum_by hold_micro (holds_of e rid) = reserved (?f ?r)"
    using re(3) t(3) r f(5) by (simp add: credit_check_reservation_def)
  then have check: "credit_check_reservation e rid"
    using settled_check [OF re(1) f(1-4)] re(2,4-6) crashed_totals [of rid db] by (simp add: C_def)
  have only': "settles_only ?a rid db e" by (rule settles_only_trans [OF crashed_settles_only only])
  note sys = settled_sys_inv [OF only' inv t(1) inve(2-5,1) re(1) f(1,6) check inve(6)]
  have card: "safe_int (res_card r)" "account_debt db ?a \<le> MAX_SAFE"
    using ok(3) find_reservation_Some [OF r(1)] room sum_by_nonneg [of "filter (standing_claim ?a) (credit_clawbacks db)" cb_pending]
    by (auto simp: task_rows_ok_def settle_headroom_def pending_total_def standing_claim_def)
  obtain acct where lock: "lockAccount ?a db = Inr (acct, db)" "debt_micro acct = account_debt db ?a" "lockReservation rid db = Inr (Some r)"
    using lock_reads [OF inv r(1) card(2) t(7,8) card(1) r(3)] by blast
  have charged: "chargedByCalls rid ?d1 = Inr C"
    using crashed_totals(1) [of rid db] C t(7) by (simp add: chargedByCalls_def C_def safe_int_def)
  let ?res = "\<lparr>sr_outcome = OutcomeSettled, sr_chargedMicro = C, sr_charges = sw_charges w,
      sr_claimsPaidMicro = sw_claimsPaidMicro w, sr_claimsToDebtMicro = s\<rparr>"
  have ran: "settleIn new_id rid why db = Inr (?res, e)"
    using r lock crash charged steps by (simp add: settleIn_def accountOf_def first_walk_def Let_def)
  have "task_purses ?d1 rid = task_purses db rid" unfolding task_purses_def open_holds_def crashed_simps ..
  moreover have "pending_total ?d1 ?a = pending_total db ?a" by (simp add: pending_total_def)
  moreover have "?f ?r = final_row db rid why r" by (simp add: final_row_def C_def)
  ultimately show thesis
    using that [OF ran sys(2,1)] re(1,2,6) paid only' inve(6,7) C by simp
qed

end
