(* ===== verification/Lease_Keeper.thy ===== *)
theory Lease_Keeper
  imports Task_Settlement
begin

section \<open>The lease keeper\<close>

text \<open>
  \<^verbatim>\<open>apps/server/src/services/ai-credit-lease-keeper.ts\<close>: the live set of one process, the heartbeat that
  renews its leases, the sweep that settles the tasks nobody is coming back for, the boot pass and
  the release at shutdown. The settlement is the service's \<open>settleIn\<close>. A failed settlement leaves the
  state it started from: its transaction rolled back.
\<close>

definition CREDIT_LEASE_KEEPER_INTERVAL_MS :: int where
  "CREDIT_LEASE_KEEPER_INTERVAL_MS = 15000"

definition CREDIT_LEASE_KEEPER_BATCH :: nat where
  "CREDIT_LEASE_KEEPER_BATCH = 50"

record AiCreditLeaseKeeper =
  live :: "uuid list"
  keeper_owner :: string
  batchSize :: "nat option"

definition add :: "uuid \<Rightarrow> AiCreditLeaseKeeper \<Rightarrow> AiCreditLeaseKeeper" where
  "add rid k = k\<lparr>live := (if rid \<in> set (live k) then live k else live k @ [rid])\<rparr>"

definition remove :: "uuid \<Rightarrow> AiCreditLeaseKeeper \<Rightarrow> AiCreditLeaseKeeper" where
  "remove rid k = k\<lparr>live := filter (\<lambda>x. x \<noteq> rid) (live k)\<rparr>"

definition liveCount :: "AiCreditLeaseKeeper \<Rightarrow> nat" where
  "liveCount k = length (live k)"

definition heartbeat :: "AiCreditLeaseKeeper \<Rightarrow> nat statement" where
  "heartbeat k db =
     (if live k = [] then Inr (0, db)
      else rbind (renewLeases (live k) (keeper_owner k) db) (\<lambda>(ids, db1). Inr (length ids, db1)))"

definition settleLapsedIn :: "(db \<Rightarrow> uuid) \<Rightarrow> uuid \<Rightarrow> uuid \<Rightarrow> bool statement" where
  "settleLapsedIn new_id rid a db =
     rbind (lockAccount a db) (\<lambda>(_, db1).
       case claimLapsedReservation rid db1 of
         None \<Rightarrow> Inr (False, db1)
       | Some why \<Rightarrow>
           rbind (settleIn new_id rid why db1) (\<lambda>(res, db2). Inr (sr_outcome res = OutcomeSettled, db2)))"

definition settleOneLapsed :: "(db \<Rightarrow> uuid) \<Rightarrow> uuid \<Rightarrow> uuid \<Rightarrow> bool statement" where
  "settleOneLapsed new_id rid a = transaction (settleLapsedIn new_id rid a)"

record sweep =
  sweep_settled :: nat
  sweep_skipped :: nat
  sweep_failed :: nat

definition sweep_one :: "(db \<Rightarrow> uuid) \<Rightarrow> uuid \<times> uuid \<times> settle_reason \<Rightarrow> sweep \<times> db \<Rightarrow> sweep \<times> db" where
  "sweep_one new_id cand st =
     (case cand of (rid, a, _) \<Rightarrow> case st of (n, db) \<Rightarrow>
        (case settleOneLapsed new_id rid a db of
           Inl _ \<Rightarrow> (n\<lparr>sweep_failed := Suc (sweep_failed n)\<rparr>, db)
         | Inr (settled, db1) \<Rightarrow>
             (if settled then n\<lparr>sweep_settled := Suc (sweep_settled n)\<rparr>
              else n\<lparr>sweep_skipped := Suc (sweep_skipped n)\<rparr>, db1)))"

definition settleLapsed :: "(db \<Rightarrow> uuid) \<Rightarrow> AiCreditLeaseKeeper \<Rightarrow> db \<Rightarrow> sweep \<times> db" where
  "settleLapsed new_id k db =
     fold (sweep_one new_id)
       (lapsedReservations (case batchSize k of None \<Rightarrow> CREDIT_LEASE_KEEPER_BATCH | Some n \<Rightarrow> n) db)
       (\<lparr>sweep_settled = 0, sweep_skipped = 0, sweep_failed = 0\<rparr>, db)"

record CreditLeaseKeeperTick = sweep +
  tick_live :: nat
  tick_renewed :: nat

definition tickOnce :: "(db \<Rightarrow> uuid) \<Rightarrow> AiCreditLeaseKeeper \<Rightarrow> CreditLeaseKeeperTick statement" where
  "tickOnce new_id k db =
     rbind (heartbeat k db) (\<lambda>(renewed, db1).
       let (n, db2) = settleLapsed new_id k db1
       in Inr (sweep.extend n \<lparr>tick_live = liveCount k, tick_renewed = renewed\<rparr>, db2))"

definition bootPass :: "(db \<Rightarrow> uuid) \<Rightarrow> AiCreditLeaseKeeper \<Rightarrow> db \<Rightarrow> sweep \<times> db" where
  "bootPass = settleLapsed"

definition releaseOwnLeases :: "AiCreditLeaseKeeper \<Rightarrow> nat statement" where
  "releaseOwnLeases k db = rbind (expireLeasesOfOwner (keeper_owner k) db) (\<lambda>(ids, db1). Inr (length ids, db1))"

end
