(* ===== verification/Settlement_Laws.thy ===== *)
theory Settlement_Laws
  imports Settlement Lease_Keeper
begin

section \<open>What a settlement guarantees\<close>

text \<open>
  The laws of the end of a task, each shown on a small state: it always ends, charges its calls and
  no more, ends once, and is ended by the lease keeper exactly when nobody is coming back for it.
\<close>

subsection \<open>A task of a small state\<close>

text \<open>
  One account with a monthly lot of two credits, of which a task holds 1.5: one of its calls has
  settled at 300000 microcredits (250 tokens in at 400 and 100 out at 2000), another was sent with a bound of 200000 and never reported back.
\<close>

definition example_task :: uuid where
  "example_task = ''cccccccc-0000-4000-8000-000000000001''"

definition example_call :: "uuid \<Rightarrow> int \<Rightarrow> int \<Rightarrow> int option \<Rightarrow> credit_model_call" where
  "example_call i n bnd chg =
     \<lparr>call_id = i, call_reservation = example_task, call_account = example_account, call_seq = n,
      call_purpose = Plan, call_model = ''claude-sonnet-5'', input_bound_tokens = 1000,
      input_bound_basis = RegionBytes, input_bound_micro = 1000, max_output_tokens = 1000, bound_micro = bnd,
      shadow_over_reservation = False, call_state = (if chg = None then Started else CallSettled), sent = True,
      settle_basis = (if chg = None then None else Some ProviderUsage),
      call_tokens = (if chg = None then None
        else Some \<lparr>uncachedInput = 250, outputTokens = 100, cacheRead = 0, cacheWrite5m = 0, cacheWrite1h = 0\<rparr>),
      actual_micro = chg,
      call_charged = chg, usage_record_id = None, call_settled_at = (if chg = None then None else Some 50)\<rparr>"

definition example_reservation :: "reservation_mode \<Rightarrow> credit_reservation" where
  "example_reservation m =
     \<lparr>res_id = example_task, res_account = example_account, res_session = ''s1'', request_key = None,
      res_model = ''claude-sonnet-5'', res_card = 1, res_mode = m,
      res_slot = (if m = Enforce then Some 1 else None), res_state = Open, reserved = 1500000, committed = 500000,
      res_charged = None, would_refuse_reason = None, lease_owner = ''boot-1'', lease_expires_at = 90000,
      max_until = 1800000, res_created = 0, res_settled_at = None, res_settle_reason = None\<rparr>"

definition example_task_db :: "reservation_mode \<Rightarrow> instant \<Rightarrow> db" where
  "example_task_db m t =
     \<lparr>db_now = t, credit_accounts = [fresh_account example_account],
      credit_lots = [example_lot_row example_lot Monthly (Some ''w1'') ''grant:1'' 2000000 (if m = Enforce then 1500000 else 0) 5000000],
      credit_ledger = [example_row 1 Grant (Some example_lot) 2000000 0 ''grant:1'' None], ledger_seq = 1,
      credit_reservations = [example_reservation m],
      credit_reservation_holds = (if m = Enforce then [new_hold example_task example_account (example_lot, 1500000)] else []),
      credit_model_calls = [example_call ''dddddddd-0000-4000-8000-000000000001'' 1 400000 (Some 300000),
                            example_call ''dddddddd-0000-4000-8000-000000000002'' 2 200000 None],
      credit_clawbacks = [], credit_windows = [], credit_window_level_changes = [],
      credit_rate_cards = [], credit_rate_card_models = []\<rparr>"

lemmas task_example_simps = example_task_db_def example_reservation_def example_call_def new_hold_def
  example_row_def example_lot_row_def example_account_def example_lot_def example_task_def fresh_account_def

lemma task_key_long: "task_key rid k \<Longrightarrow> uuid_ok rid \<Longrightarrow> 40 < length k"
  by (cases rule: task_key.cases) (auto simp: uuid_ok_def colon_join.simps)

lemma example_task_inv: "db_inv (example_task_db m t)"
  by (cases m) (simp_all add: inv_defs task_example_simps find_account_def find_lot_def ledger_row_checks_def funding_kind_def
      lot_bounds_def lot_total_def debt_total_def hold_total_def)

lemma example_task_hygiene: "hygiene (example_task_db m t)"
  by (auto simp: hygiene_def amounts_ok_def counter_keys_def uuid_ok_def colon_free_def colon_join.simps
      task_example_simps MAX_SAFE_def)

lemma example_task_rows: "task_rows_ok (example_task_db m t)"
  by (cases m) (simp_all add: task_rows_ok_def task_example_simps find_account_def find_reservation_def reservation_checks_def
      CREDIT_RESERVATION_SLOTS_def call_checks_def charge_checks_def uuid_ok_def colon_free_def MAX_SAFE_def safe_int_def)

lemma example_task_balanced: "tasks_balanced (example_task_db m t)"
proof -
  have "credit_check_reservation (example_task_db m t) example_task"
    by (cases m) (simp_all add: credit_check_reservation_def task_example_simps find_reservation_def calls_of_def holds_of_def
        charges_of_def call_commits_def)
  moreover have "\<not> task_key example_task ''grant:1''"
    using task_key_long [of example_task "''grant:1''"] by (auto simp: uuid_ok_def colon_free_def example_task_def)
  ultimately show ?thesis
    by (cases m) (simp_all add: tasks_balanced_def example_task_db_def example_reservation_def holds_of_def charges_of_def
        new_hold_def example_row_def)
qed

lemma example_task_sys: "sys_inv (example_task_db m t)"
proof -
  have "slots_ok (example_task_db m t)" "claims_ok (example_task_db m t)"
    by (simp_all add: slots_ok_def claims_ok_def example_task_db_def)
  then show ?thesis
    using example_task_inv example_task_hygiene example_task_rows example_task_balanced
    by (simp add: sys_inv_def task_inv_def)
qed

lemma example_task_room: "settle_headroom (example_task_db m t) example_account"
  by (simp add: settle_headroom_def pending_total_def task_example_simps account_debt_def find_account_def MAX_SAFE_def)

lemma example_task_found: "find_reservation (example_task_db m t) example_task = Some (example_reservation m)"
  by (simp add: find_reservation_def task_example_simps)

definition example_new_id :: "db \<Rightarrow> uuid" where
  "example_new_id db = ''eeeeeeee-0000-4000-8000-000000000001''"

lemma example_new_id_ok: "uuid_ok (example_new_id d)"
  by (simp add: example_new_id_def uuid_ok_def colon_free_def)

subsection \<open>A task ends, and pays for its calls\<close>

text \<open>C1: settling an open enforced task of a sound state always succeeds and commits. What it charges is
  the sum over the task's calls of what each settled at, or of its bound if it was sent and never
  reported back, or of nothing if it never left; that sum is never more than the task reserved, it is
  drawn from the task's holds in the spend order, each emptied before the next is touched, the
  \<^verbatim>\<open>task_charge\<close> rows of the ledger add up to it, the task's row records it, and the state is sound
  again: balances are the sums of the ledger, no task holds credit it does not own.\<close>
theorem settle_charges_what_the_calls_cost:
  assumes "sys_inv db" and "find_reservation db rid = Some r" and "res_state r = Open" and "res_mode r = Enforce"
    and "settle_headroom db (res_account r)" and "\<And>d. uuid_ok (new_id d)"
  shows "\<exists>res db'. settle new_id rid why db = Inr (res, db') \<and> sr_outcome res = OutcomeSettled \<and>
    sr_chargedMicro res = task_charge db rid \<and> 0 \<le> task_charge db rid \<and> task_charge db rid \<le> reserved r \<and>
    sr_charges res = draw (task_charge db rid) (task_purses db rid) \<and>
    - sum_by lot_delta (charges_of db' rid) = task_charge db rid \<and>
    find_reservation db' rid = Some (final_row db rid why r) \<and> sys_inv db'"
proof -
  obtain res e where "settleIn new_id rid why db = Inr (res, e)" "commit_checks db e" "sys_inv e"
    "sr_outcome res = OutcomeSettled" "sr_chargedMicro res = task_charge db rid"
    "sr_charges res = draw (task_charge db rid) (task_purses db rid)"
    "find_reservation e rid = Some (final_row db rid why r)" "- sum_by lot_delta (charges_of e rid) = task_charge db rid"
    "0 \<le> task_charge db rid" "task_charge db rid \<le> reserved r"
    by (rule settle_effect [where new_id = new_id, OF assms])
  then show ?thesis by (simp add: settle_def transaction_def)
qed

theorem settle_charges_what_the_calls_cost_witness:
  "\<exists>res db'. settle example_new_id example_task Completed (example_task_db Enforce 100) = Inr (res, db') \<and>
     sr_chargedMicro res = 500000 \<and> sr_charges res = [(example_lot, 500000)] \<and> sys_inv db'"
proof -
  let ?db = "example_task_db Enforce 100"
  have r: "res_state (example_reservation Enforce) = Open" "res_mode (example_reservation Enforce) = Enforce"
    "settle_headroom ?db (res_account (example_reservation Enforce))"
    using example_task_room by (simp_all add: example_reservation_def)
  have charge: "task_charge ?db example_task = 500000"
    by (simp add: task_charge_def calls_of_def owed_by_call_def crash_charge_def charged_or_0_def task_example_simps)
  have purses: "task_purses ?db example_task = [(example_lot, 1500000)]"
    by (simp add: task_purses_def open_holds_def map_filter_simps find_lot_def task_example_simps)
  show ?thesis
    using settle_charges_what_the_calls_cost [where new_id = example_new_id and why = Completed,
        OF example_task_sys example_task_found r example_new_id_ok]
    unfolding charge purses by auto
qed

text \<open>C2: a settlement touches nothing but its own task: the row, calls, holds and charges of every other task
  stay as they were, and every ledger row it writes is of the task's own account and names no other
  task. Claims it settles never exceed what stood against the account, and afterwards the account has
  no debt or no free credit.\<close>
theorem settle_touches_only_its_task:
  assumes "sys_inv db" and "find_reservation db rid = Some r" and "res_state r = Open" and "res_mode r = Enforce"
    and "settle_headroom db (res_account r)" and "\<And>d. uuid_ok (new_id d)" and "q \<noteq> rid"
  shows "\<exists>res db' rows. settle new_id rid why db = Inr (res, db') \<and>
    find_reservation db' q = find_reservation db q \<and> calls_of db' q = calls_of db q \<and>
    holds_of db' q = holds_of db q \<and> charges_of db' q = charges_of db q \<and>
    credit_ledger db' = credit_ledger db @ rows \<and>
    list_all (\<lambda>x. led_account x = res_account r \<and> led_reservation x \<in> {None, Some rid}) rows \<and>
    0 \<le> sr_claimsPaidMicro res \<and> 0 \<le> sr_claimsToDebtMicro res \<and>
    sr_claimsPaidMicro res + sr_claimsToDebtMicro res \<le> pending_total db (res_account r) \<and>
    credit_check_debt_vs_free db' (res_account r)"
proof -
  obtain res e where e: "settleIn new_id rid why db = Inr (res, e)" "commit_checks db e"
    and only: "settles_only (res_account r) rid db e" and free: "credit_check_debt_vs_free e (res_account r)"
    and claims: "0 \<le> sr_claimsPaidMicro res" "0 \<le> sr_claimsToDebtMicro res"
    "sr_claimsPaidMicro res + sr_claimsToDebtMicro res \<le> pending_total db (res_account r)"
    by (rule settle_effect [where new_id = new_id, OF assms(1-6)])
  from e have ran: "settle new_id rid why db = Inr (res, e)" by (simp add: settle_def transaction_def)
  from only obtain rows where rows: "credit_ledger e = credit_ledger db @ rows"
    "\<forall>x\<in>set rows. led_account x = res_account r \<and> (\<forall>p. led_reservation x = Some p \<longrightarrow> p = rid)"
    unfolding settles_only_def by blast
  have "list_all (\<lambda>x. led_account x = res_account r \<and> led_reservation x \<in> {None, Some rid}) rows"
    unfolding list_all_iff using rows(2) by (metis insertCI not_None_eq)
  moreover have "find_reservation e q = find_reservation db q" "calls_of e q = calls_of db q"
    "holds_of e q = holds_of db q" "charges_of e q = charges_of db q"
    using only assms(7) by (simp_all add: settles_only_def)
  ultimately show ?thesis using ran rows(1) claims free by (intro exI [of _ res] exI [of _ e] exI [of _ rows]) simp
qed

theorem settle_touches_only_its_task_witness:
  "\<exists>res db'. settle example_new_id example_task Completed (example_task_db Enforce 100) = Inr (res, db') \<and>
     find_reservation db' example_lot = None \<and> sr_claimsPaidMicro res = 0 \<and> sr_claimsToDebtMicro res = 0"
proof -
  let ?db = "example_task_db Enforce 100"
  have r: "res_state (example_reservation Enforce) = Open" "res_mode (example_reservation Enforce) = Enforce"
    "settle_headroom ?db (res_account (example_reservation Enforce))"
    using example_task_room by (simp_all add: example_reservation_def)
  have other: "example_lot \<noteq> example_task" "find_reservation ?db example_lot = None" "pending_total ?db example_account = 0"
    "res_account (example_reservation Enforce) = example_account"
    by (simp_all add: task_example_simps find_reservation_def pending_total_def)
  from settle_touches_only_its_task [where new_id = example_new_id and why = Completed,
        OF example_task_sys example_task_found r example_new_id_ok other(1)]
  show ?thesis using other by fastforce
qed

subsection \<open>A task ends once\<close>

lemma commit_same: "commit_checks db db"
  by (simp add: commit_checks_def touched_accounts_def touched_reservations_def new_rows_def map_filter_simps)

lemma settled_lock:
  assumes "sys_inv e" "find_reservation e rid = Some q" "res_mode q = Enforce" "account_debt e (res_account q) \<le> MAX_SAFE"
  obtains acct where "lockAccount (res_account q) e = Inr (acct, e)" "lockReservation rid e = Inr (Some q)"
proof -
  have "reserved q \<le> MAX_SAFE" "reservation_checks q" "safe_int (res_card q)"
    using sys_invD(3) [OF assms(1)] find_reservation_Some [OF assms(2)] by (auto simp: task_rows_ok_def)
  from lock_reads [OF assms(1,2,4) this assms(3)] show thesis using that by blast
qed

lemma final_row_simps [simp]:
  "res_id (final_row db rid why r) = res_id r" "res_account (final_row db rid why r) = res_account r"
  "res_mode (final_row db rid why r) = res_mode r" "res_state (final_row db rid why r) = Settled"
  "res_charged (final_row db rid why r) = Some (task_charge db rid)"
  by (simp_all add: final_row_def settled_row_def set_committed_def)

text \<open>C3: a task is settled once. After a settlement, any further settlement of the same task, with any
  reason, reports that it was settled already and what it was charged, and changes nothing.\<close>
theorem settle_ends_a_task_once:
  assumes "sys_inv db" and "find_reservation db rid = Some r" and "res_state r = Open" and "res_mode r = Enforce"
    and "settle_headroom db (res_account r)" and "\<And>d. uuid_ok (new_id d)"
  shows "\<exists>res db'. settle new_id rid why db = Inr (res, db') \<and>
    settle other_id rid again db' =
      Inr (EMPTY_SETTLEMENT\<lparr>sr_outcome := OutcomeAlreadySettled, sr_chargedMicro := sr_chargedMicro res\<rparr>, db')"
proof -
  obtain res e where e: "settleIn new_id rid why db = Inr (res, e)" "commit_checks db e" "sys_inv e"
    "sr_chargedMicro res = task_charge db rid" "find_reservation e rid = Some (final_row db rid why r)"
    "account_debt e (res_account r) \<le> MAX_SAFE"
    by (rule settle_effect [where new_id = new_id, OF assms])
  let ?q = "final_row db rid why r"
  have "account_debt e (res_account ?q) \<le> MAX_SAFE" "res_mode ?q = Enforce" using e(6) assms(4) by simp_all
  then obtain acct where lock: "lockAccount (res_account ?q) e = Inr (acct, e)" "lockReservation rid e = Inr (Some ?q)"
    using settled_lock [OF e(3,5)] by blast
  have "settleIn other_id rid again e =
      Inr (EMPTY_SETTLEMENT\<lparr>sr_outcome := OutcomeAlreadySettled, sr_chargedMicro := task_charge db rid\<rparr>, e)"
    using lock e(5) by (simp add: settleIn_def accountOf_def)
  with e show ?thesis by (simp add: settle_def transaction_def commit_same)
qed

theorem settle_ends_a_task_once_witness:
  "\<exists>res db'. settle example_new_id example_task Completed (example_task_db Enforce 100) = Inr (res, db') \<and>
    settle example_new_id example_task LeaseExpired db' =
      Inr (EMPTY_SETTLEMENT\<lparr>sr_outcome := OutcomeAlreadySettled, sr_chargedMicro := sr_chargedMicro res\<rparr>, db')"
  using settle_ends_a_task_once [where new_id = example_new_id, OF example_task_sys example_task_found _ _ _ example_new_id_ok,
      of Enforce 100 Completed example_new_id LeaseExpired] example_task_room
  by (simp add: example_reservation_def)

subsection \<open>The lease keeper\<close>

text \<open>C4: the keeper settles a task exactly when nobody is coming back for it. Given an open enforced task of a
  sound state, its sweep settles the task when its lease ran out or it is past its maximum age, with
  that reason and leaving a sound state; otherwise it reports that it skipped the task and changes
  nothing, whatever the list of candidates said.\<close>
theorem keeper_settles_exactly_the_lapsed:
  assumes "sys_inv db" and "find_reservation db rid = Some r" and "res_state r = Open" and "res_mode r = Enforce"
    and "settle_headroom db (res_account r)" and "\<And>d. uuid_ok (new_id d)"
  shows "\<exists>db'. settleOneLapsed new_id rid (res_account r) db = Inr (lapsed (db_now db) r, db') \<and> sys_inv db' \<and>
    (if lapsed (db_now db) r
     then find_reservation db' rid = Some (final_row db rid (lapse_reason (db_now db) r) r) \<and>
          - sum_by lot_delta (charges_of db' rid) = task_charge db rid
     else db' = db)"
proof -
  have "0 \<le> pending_total db (res_account r)"
    unfolding pending_total_def by (rule sum_by_nonneg) (simp add: standing_claim_def)
  then have "account_debt db (res_account r) \<le> MAX_SAFE" using assms(5) by (simp add: settle_headroom_def)
  then obtain acct where lock: "lockAccount (res_account r) db = Inr (acct, db)"
    using settled_lock [OF assms(1,2,4)] by blast
  show ?thesis
  proof (cases "lapsed (db_now db) r")
    case False
    then show ?thesis
      using lock assms(1,2) by (simp add: settleOneLapsed_def settleLapsedIn_def transaction_def claimLapsedReservation_def commit_same)
  next
    case True
    obtain res e where "settleIn new_id rid (lapse_reason (db_now db) r) db = Inr (res, e)" "commit_checks db e" "sys_inv e"
      "sr_outcome res = OutcomeSettled" "- sum_by lot_delta (charges_of e rid) = task_charge db rid"
      "find_reservation e rid = Some (final_row db rid (lapse_reason (db_now db) r) r)"
      by (rule settle_effect [where new_id = new_id, OF assms])
    with True lock assms(2) show ?thesis
      by (simp add: settleOneLapsed_def settleLapsedIn_def transaction_def claimLapsedReservation_def)
  qed
qed

theorem keeper_settles_exactly_the_lapsed_witness:
  "(\<exists>db'. settleOneLapsed example_new_id example_task example_account (example_task_db Enforce 90001) = Inr (True, db') \<and>
      sys_inv db') \<and>
   settleOneLapsed example_new_id example_task example_account (example_task_db Enforce 90000) =
     Inr (False, example_task_db Enforce 90000)"
proof -
  have r: "res_state (example_reservation Enforce) = Open" "res_mode (example_reservation Enforce) = Enforce"
    "res_account (example_reservation Enforce) = example_account"
    by (simp_all add: example_reservation_def)
  have l: "lapsed (db_now (example_task_db Enforce t)) (example_reservation Enforce) \<longleftrightarrow> 90000 < t" for t
    by (auto simp: lapsed_def example_reservation_def example_task_db_def)
  have room: "settle_headroom (example_task_db Enforce t) (res_account (example_reservation Enforce))" for t
    using example_task_room r(3) by simp
  note law = keeper_settles_exactly_the_lapsed [where new_id = example_new_id,
      OF example_task_sys example_task_found r(1,2) room example_new_id_ok, unfolded l r(3)]
  from law [of 90001] law [of 90000] show ?thesis by auto
qed

lemma set_lease_checks: "reservation_checks (set_lease t r) = reservation_checks r"
  unfolding reservation_checks_def set_lease_def by (simp cong: option.case_cong)

text \<open>C17: a heartbeat buys a live task six intervals of the keeper. On sound rows it never fails and renews every
  open task of the live set that this process owns and that is not past its maximum age. From then on, as long as
  nobody writes the row, the sweep may settle the task exactly when more than six intervals have passed without another
  heartbeat or its maximum age has passed: up to there it is neither claimed nor listed, a millisecond later it is claimed.\<close>
theorem heartbeat_keeps_live_tasks_from_the_sweep:
  assumes "task_rows_ok db" and "r \<in> set (credit_reservations db)" and "res_id r \<in> set (live k)" and "res_state r = Open"
    and "lease_owner r = keeper_owner k" and "db_now db < max_until r"
  shows "\<exists>n db'. heartbeat k db = Inr (n, db') \<and> 0 < n \<and>
    (claimLapsedReservation (res_id r) (db'\<lparr>db_now := t\<rparr>) = None \<longleftrightarrow>
       t \<le> db_now db + 6 * CREDIT_LEASE_KEEPER_INTERVAL_MS \<and> t \<le> max_until r) \<and>
    (t \<le> db_now db + 6 * CREDIT_LEASE_KEEPER_INTERVAL_MS \<and> t \<le> max_until r \<longrightarrow>
       res_id r \<notin> fst ` set (lapsedReservations lim (db'\<lparr>db_now := t\<rparr>)))"
proof -
  let ?P = "renewable (live k) (keeper_owner k) (db_now db)" and ?f = "set_lease (lease_from (db_now db))"
  let ?rows = "map ?f (filter ?P (credit_reservations db))"
  let ?db = "db\<lparr>credit_reservations := update_where ?P ?f (credit_reservations db)\<rparr>"
  have P: "?P r" using assms(3-6) by (simp add: renewable_def)
  have ne: "live k \<noteq> []" using assms(3) by auto
  have "list_all reservation_checks ?rows"
    using assms(1) by (auto simp: list_all_iff set_lease_checks task_rows_ok_def)
  then have "update_reservations ?P ?f db = Inr (?rows, ?db)" by (simp add: update_reservations_def)
  then have beat: "heartbeat k db = Inr (length ?rows, ?db)" using ne by (simp add: heartbeat_def renewLeases_def)
  have "r \<in> set (filter ?P (credit_reservations db))" using P assms(2) by simp
  then have n: "0 < length ?rows" by (metis length_map length_pos_if_in_set)
  have own: "p = r" if "p \<in> set (credit_reservations db)" "res_id p = res_id r" for p
    using find_reservation_member [OF assms(1) that(1)] find_reservation_member [OF assms(1,2)] that(2) by (metis option.inject)
  have rows: "q = ?f r" if "q \<in> set (update_where ?P ?f (credit_reservations db))" "res_id q = res_id r" for q
  proof -
    from that(1) obtain p where p: "p \<in> set (credit_reservations db)" "q = (if ?P p then ?f p else p)"
      by (auto simp: set_update_where)
    then have "res_id p = res_id r" using that(2) by (auto simp: set_lease_def split: if_splits)
    with own [OF p(1)] p(2) P show ?thesis by simp
  qed
  have late: "lapsed t (?f r) \<longleftrightarrow> \<not> (t \<le> db_now db + 6 * CREDIT_LEASE_KEEPER_INTERVAL_MS \<and> t \<le> max_until r)"
    using assms(4) by (auto simp: lapsed_def set_lease_def lease_from_def CREDIT_LEASE_SECONDS_def CREDIT_LEASE_KEEPER_INTERVAL_MS_def)
  have "?f r \<in> set (update_where ?P ?f (credit_reservations db))" using assms(2) P by (auto simp: set_update_where)
  from imageI [OF this, of res_id] obtain q where q: "find_reservation (?db\<lparr>db_now := t\<rparr>) (res_id r) = Some q"
    by (cases "find_reservation (?db\<lparr>db_now := t\<rparr>) (res_id r)")
      (simp_all add: find_reservation_def lookup_by_None set_lease_def)
  with find_reservation_Some [OF q] rows have "q = ?f r" by simp
  with q late have "claimLapsedReservation (res_id r) (?db\<lparr>db_now := t\<rparr>) = None \<longleftrightarrow>
      t \<le> db_now db + 6 * CREDIT_LEASE_KEEPER_INTERVAL_MS \<and> t \<le> max_until r" by (simp add: claimLapsedReservation_def)
  moreover have "res_id r \<notin> fst ` set (lapsedReservations lim (?db\<lparr>db_now := t\<rparr>))" if "\<not> lapsed t (?f r)"
    using that rows by (auto simp: lapsedReservations_def dest!: in_set_takeD)
  ultimately show ?thesis
    by (intro exI [of _ "length ?rows"] exI [of _ ?db] conjI impI) (use beat n late in simp_all)
qed

theorem heartbeat_keeps_live_tasks_from_the_sweep_witness:
  "\<exists>n db'. heartbeat \<lparr>live = [example_task], keeper_owner = ''boot-1'', batchSize = None\<rparr> (example_task_db Enforce 90001) =
      Inr (n, db') \<and>
    claimLapsedReservation example_task (db'\<lparr>db_now := 180001\<rparr>) = None \<and>
    claimLapsedReservation example_task (db'\<lparr>db_now := 180002\<rparr>) \<noteq> None \<and>
    example_task \<notin> fst ` set (lapsedReservations 50 (db'\<lparr>db_now := 180001\<rparr>))"
proof -
  let ?k = "\<lparr>live = [example_task], keeper_owner = ''boot-1'', batchSize = None\<rparr>" and ?r = "example_reservation Enforce"
  have r: "?r \<in> set (credit_reservations (example_task_db Enforce 90001))" "res_id ?r \<in> set (live ?k)" "res_state ?r = Open"
    "lease_owner ?r = keeper_owner ?k" "db_now (example_task_db Enforce 90001) < max_until ?r"
    by (simp_all add: example_reservation_def example_task_db_def)
  have at: "res_id ?r = example_task" "max_until ?r = 1800000" "db_now (example_task_db Enforce 90001) = 90001"
    by (simp_all add: example_reservation_def example_task_db_def)
  note law = heartbeat_keeps_live_tasks_from_the_sweep [OF example_task_rows r, where lim = 50]
  from law [of 180001] law [of 180002] show ?thesis
    unfolding at CREDIT_LEASE_KEEPER_INTERVAL_MS_def by auto
qed

end
