(* ===== verification/Hold_Laws.thy ===== *)
theory Hold_Laws
  imports Settlement_Rows
begin

section \<open>Placing holds\<close>

text \<open>
  \<open>placeHolds\<close> against the reference \<open>draw\<close>: the running totals of the query hold exactly what drawing
  the amount from the spendable lots in order takes, and each insert keeps the balances.
\<close>

subsection \<open>The amounts\<close>

lemma with_before_draw:
  assumes "\<And>l. l \<in> set ls \<Longrightarrow> 0 < free_micro l"
  shows "map (\<lambda>(i, avail, before). (i, min avail (needed - before)))
      (filter (\<lambda>(i, avail, before). before < needed) (with_before acc ls)) =
    draw (needed - acc) (map (\<lambda>l. (lot_id l, free_micro l)) ls)"
  using assms
proof (induction ls arbitrary: acc)
  case (Cons l ls)
  have pos: "0 < free_micro l" using Cons.prems by simp
  have IH: "map (\<lambda>(i, avail, before). (i, min avail (needed - before)))
      (filter (\<lambda>(i, avail, before). before < needed) (with_before (acc + free_micro l) ls)) =
    draw (needed - (acc + free_micro l)) (map (\<lambda>l. (lot_id l, free_micro l)) ls)"
    using Cons.IH Cons.prems by simp
  show ?case
  proof (cases "free_micro l < needed - acc")
    case True
    with IH show ?thesis using pos by (simp add: min_def algebra_simps)
  next
    case False
    with IH pos show ?thesis by (simp add: draw_idle min_def)
  qed
qed simp

lemma hold_amounts_draw:
  "(\<And>l. l \<in> set ls \<Longrightarrow> 0 < free_micro l) \<Longrightarrow>
   hold_amounts needed ls = draw needed (map (\<lambda>l. (lot_id l, free_micro l)) ls)"
  unfolding hold_amounts_def using with_before_draw [of ls needed 0] by simp

subsection \<open>One hold\<close>

definition place_db :: "credit_hold \<Rightarrow> db \<Rightarrow> db" where
  "place_db h db =
     db\<lparr>credit_lots := update_where (\<lambda>x. lot_id x = hold_lot h) (move_held (hold_micro h)) (credit_lots db),
        credit_reservation_holds := credit_reservation_holds db @ [h]\<rparr>"

lemma place_db_simps [simp]:
  "db_now (place_db h db) = db_now db" "credit_ledger (place_db h db) = credit_ledger db"
  "ledger_seq (place_db h db) = ledger_seq db" "credit_accounts (place_db h db) = credit_accounts db"
  "credit_reservations (place_db h db) = credit_reservations db"
  "credit_model_calls (place_db h db) = credit_model_calls db"
  "credit_clawbacks (place_db h db) = credit_clawbacks db" "credit_windows (place_db h db) = credit_windows db"
  "credit_window_level_changes (place_db h db) = credit_window_level_changes db"
  "credit_rate_cards (place_db h db) = credit_rate_cards db"
  "credit_rate_card_models (place_db h db) = credit_rate_card_models db"
  "credit_reservation_holds (place_db h db) = credit_reservation_holds db @ [h]"
  "find_account (place_db h db) = find_account db" "find_reservation (place_db h db) = find_reservation db"
  "calls_of (place_db h db) = calls_of db" "charges_of (place_db h db) = charges_of db"
  by (auto simp: place_db_def fun_eq_iff find_account_def find_reservation_def calls_of_def charges_of_def)

lemma find_lot_place [simp]:
  "find_lot (place_db h db) i =
     (if i = hold_lot h then map_option (move_held (hold_micro h)) (find_lot db i) else find_lot db i)"
  by (simp add: place_db_def find_lot_def lot_hold.lookup)

lemma holds_of_place: "holds_of (place_db h db) q = holds_of db q @ (if hold_reservation h = q then [h] else [])"
  by (simp add: holds_of_def)

lemma hold_total_place:
  "hold_total (place_db h db) i = hold_total db i + (if hold_lot h = i \<and> released_at h = None then hold_micro h else 0)"
  by (simp add: hold_total_def)

lemma place_hygiene: "hygiene (place_db h db) = hygiene db"
proof -
  have "map (\<lambda>l. (lot_id l, granted l)) (update_where P (move_held n) ls) = map (\<lambda>l. (lot_id l, granted l)) ls"
    for P n ls by (induction ls) auto
  then show ?thesis by (intro hygiene_cong) (simp_all add: place_db_def)
qed

lemma place_inv:
  assumes inv: "db_inv db" and lot: "find_lot db (hold_lot h) = Some l" "lot_account l = hold_account h"
    and amount: "0 < hold_micro h" "hold_micro h \<le> free_micro l" and h: "released_at h = None"
    and new: "\<And>k. k \<in> set (credit_reservation_holds db) \<Longrightarrow> (hold_reservation k, hold_lot k) \<noteq> (hold_reservation h, hold_lot h)"
  shows "db_inv (place_db h db)" (is "db_inv ?db")
proof -
  have lots: "map lot_id (credit_lots ?db) = map lot_id (credit_lots db)" by (simp add: place_db_def lot_hold.keys)
  have grants: "map grant_key (update_where P (move_held n) ls) = map grant_key ls" for P n ls
    by (induction ls) auto
  have "keys_ok ?db" using inv lots grants by (simp add: inv_defs place_db_def)
  moreover have "rows_ok ?db" using inv by (fastforce simp: inv_defs)
  moreover have "balances_ok ?db"
  proof -
    have sound: "lot_bounds k \<and> remaining k = lot_total db (lot_id k) \<and> held k = hold_total db (lot_id k)"
      if "k \<in> set (credit_lots db)" for k using inv that by (simp add: inv_defs)
    have "lot_bounds k \<and> remaining k = lot_total db (lot_id k) \<and> held k = hold_total ?db (lot_id k)"
      if "k \<in> set (credit_lots ?db)" for k
    proof -
      have "lookup_by lot_id (hold_lot h) (credit_lots db) = Some l" using lot(1) by (simp add: find_lot_def)
      from lot_hold.member [OF _ this, of k "hold_micro h"] that inv
      have "k = move_held (hold_micro h) l \<or> k \<in> set (credit_lots db) \<and> lot_id k \<noteq> hold_lot h"
        by (simp add: place_db_def inv_defs)
      then show ?thesis
      proof
        assume k: "k = move_held (hold_micro h) l"
        have "lot_id l = hold_lot h" using find_lot_Some [OF lot(1)] by simp
        then show ?thesis
          using sound [of l] find_lot_Some [OF lot(1)] amount h unfolding k
          by (simp add: hold_total_place lot_bounds_def free_micro_def)
      qed (use sound [of k] in \<open>auto simp: hold_total_place\<close>)
    qed
    with inv show ?thesis by (auto simp: inv_defs lot_total_def debt_total_def)
  qed
  moreover have "holds_ok ?db"
  proof -
    have old: "distinct (map (\<lambda>h. (hold_reservation h, hold_lot h)) (credit_reservation_holds db))"
      "\<And>k. k \<in> set (credit_reservation_holds db) \<Longrightarrow> 0 < hold_micro k \<and> (\<exists>l. find_lot db (hold_lot k) = Some l \<and> lot_account l = hold_account k)"
      using inv by (auto simp: inv_defs)
    have "(hold_reservation h, hold_lot h) \<notin> (\<lambda>h. (hold_reservation h, hold_lot h)) ` set (credit_reservation_holds db)"
      using new by (metis (no_types, lifting) imageE)
    moreover have "0 < hold_micro k \<and> (\<exists>l. find_lot ?db (hold_lot k) = Some l \<and> lot_account l = hold_account k)"
      if k: "k \<in> set (credit_reservation_holds ?db)" for k
    proof (cases "k = h")
      case True
      then show ?thesis using lot amount by simp
    next
      case False
      then show ?thesis using k old(2) [of k] by auto
    qed
    ultimately show ?thesis unfolding holds_ok_def using old(1) by simp
  qed
  ultimately show ?thesis by (simp add: db_inv_def)
qed

lemma insert_hold_effect:
  assumes inv: "db_inv db" and r: "find_reservation db (hold_reservation h) = Some r" "res_account r = hold_account h"
      "res_state r = Open" "res_mode r = Enforce"
    and lot: "find_lot db (hold_lot h) = Some l" "lot_account l = hold_account h" "live_lot (db_now db) l"
    and h: "0 < hold_micro h" "hold_micro h \<le> free_micro l" "released_at h = None" "hold_charged h = None"
    and new: "\<And>k. k \<in> set (credit_reservation_holds db) \<Longrightarrow> (hold_reservation k, hold_lot k) \<noteq> (hold_reservation h, hold_lot h)"
  shows "insert_hold h db = Inr (place_db h db)"
proof -
  have row: "r \<in> set (credit_reservations db)" "res_id r = hold_reservation h" using find_reservation_Some [OF r(1)] by auto
  have bounds: "lot_bounds (move_held (hold_micro h) l)"
    using inv find_lot_Some [OF lot(1)] h by (auto simp: inv_defs lot_bounds_def free_micro_def)
  have "\<not> list_ex (\<lambda>x. hold_reservation x = hold_reservation h \<and> hold_lot x = hold_lot h) (credit_reservation_holds db)"
    using new by (auto simp: list_ex_iff)
  moreover have "list_ex (\<lambda>r. res_id r = hold_reservation h \<and> res_account r = hold_account h) (credit_reservations db)"
    "list_ex (\<lambda>r. res_id r = hold_reservation h \<and> res_state r = Open \<and> res_mode r = Enforce) (credit_reservations db)"
    using row r by (auto simp: list_ex_iff)
  ultimately show ?thesis using lot h bounds by (simp add: insert_hold_def place_db_def)
qed

subsection \<open>All holds of a task\<close>

definition placed :: "uuid \<Rightarrow> uuid \<Rightarrow> (uuid \<times> int) list \<Rightarrow> db \<Rightarrow> db" where
  "placed rid a ps db = fold (\<lambda>p. place_db (new_hold rid a p)) ps db"

lemma new_hold_simps [simp]:
  "hold_reservation (new_hold rid a p) = rid" "hold_lot (new_hold rid a p) = fst p" "hold_account (new_hold rid a p) = a"
  "hold_micro (new_hold rid a p) = snd p" "released_at (new_hold rid a p) = None" "hold_charged (new_hold rid a p) = None"
  by (simp_all add: new_hold_def)

lemma placed_frame:
  "db_now (placed rid a ps db) = db_now db \<and> credit_ledger (placed rid a ps db) = credit_ledger db \<and>
   ledger_seq (placed rid a ps db) = ledger_seq db \<and> credit_accounts (placed rid a ps db) = credit_accounts db \<and>
   credit_reservations (placed rid a ps db) = credit_reservations db \<and>
   credit_model_calls (placed rid a ps db) = credit_model_calls db \<and>
   credit_clawbacks (placed rid a ps db) = credit_clawbacks db \<and> hygiene (placed rid a ps db) = hygiene db \<and>
   credit_rate_cards (placed rid a ps db) = credit_rate_cards db \<and>
   credit_rate_card_models (placed rid a ps db) = credit_rate_card_models db \<and>
   find_account (placed rid a ps db) = find_account db \<and> find_reservation (placed rid a ps db) = find_reservation db \<and>
   calls_of (placed rid a ps db) = calls_of db \<and> charges_of (placed rid a ps db) = charges_of db"
  by (induction ps arbitrary: db) (simp_all add: placed_def place_hygiene)

lemma placed_holds:
  "credit_reservation_holds (placed rid a ps db) = credit_reservation_holds db @ map (new_hold rid a) ps"
  by (induction ps arbitrary: db) (simp_all add: placed_def)

definition holdable :: "db \<Rightarrow> uuid \<Rightarrow> uuid \<Rightarrow> uuid \<times> int \<Rightarrow> bool" where
  "holdable db rid a p \<longleftrightarrow>
     (\<exists>l. find_lot db (fst p) = Some l \<and> lot_account l = a \<and> live_lot (db_now db) l \<and> 0 < snd p \<and> snd p \<le> free_micro l) \<and>
     (\<forall>k\<in>set (credit_reservation_holds db). (hold_reservation k, hold_lot k) \<noteq> (rid, fst p))"

lemma placeHolds_loop:
  assumes "db_inv db" "find_reservation db rid = Some r" "res_account r = a" "res_state r = Open" "res_mode r = Enforce"
    "\<And>p. p \<in> set ps \<Longrightarrow> holdable db rid a p" "distinct (map fst ps)"
  shows "foldr_result (\<lambda>d p. insert_hold (new_hold rid a p) d) db ps = Inr (placed rid a ps db) \<and> db_inv (placed rid a ps db)"
  using assms
proof (induction ps arbitrary: db)
  case Nil
  then show ?case by (simp add: placed_def)
next
  case (Cons p ps)
  let ?h = "new_hold rid a p" and ?db = "place_db (new_hold rid a p) db"
  have p: "holdable db rid a p" using Cons.prems(6) by simp
  then obtain l where l: "find_lot db (fst p) = Some l" "lot_account l = a" "live_lot (db_now db) l" "0 < snd p" "snd p \<le> free_micro l"
    and new: "\<And>k. k \<in> set (credit_reservation_holds db) \<Longrightarrow> (hold_reservation k, hold_lot k) \<noteq> (rid, fst p)"
    unfolding holdable_def by blast
  have one: "insert_hold ?h db = Inr ?db"
    by (rule insert_hold_effect [OF Cons.prems(1), where r = r and l = l]) (use Cons.prems l new in simp_all)
  have inv: "db_inv ?db"
    by (rule place_inv [OF Cons.prems(1), where l = l]) (use l new in simp_all)
  have "holdable ?db rid a q" if q: "q \<in> set ps" for q
  proof -
    have "fst q \<noteq> fst p" using Cons.prems(7) q by (auto simp: image_iff)
    then show ?thesis using Cons.prems(6) [of q] q by (auto simp: holdable_def)
  qed
  then have "foldr_result (\<lambda>d p. insert_hold (new_hold rid a p) d) ?db ps = Inr (placed rid a ps ?db) \<and> db_inv (placed rid a ps ?db)"
    using Cons.IH [OF inv] Cons.prems by simp
  then show ?case using one by (simp add: placed_def)
qed

text \<open>What the account could spend falls by exactly what is held.\<close>

lemma free_credit_place:
  assumes "keys_ok db" "find_lot db (hold_lot h) = Some l" "lot_account l = a" "live_lot (db_now db) l"
  shows "free_credit (place_db h db) a = free_credit db a - hold_micro h"
proof -
  have d: "distinct (map lot_id (credit_lots db))" using assms(1) by (simp add: keys_ok_def)
  have look: "lookup_by lot_id (hold_lot h) (credit_lots db) = Some l" using assms(2) by (simp add: find_lot_def)
  have live: "lot_free_of t a (move_held n l) = lot_free_of t a l - (if lot_account l = a \<and> live_lot t l then n else 0)" for t n l
    by (simp add: lot_free_of_def free_micro_def live_lot_def)
  show ?thesis
    unfolding free_credit_alt
    using lot_hold.sum [OF d look, of "lot_free_of (db_now db) a" "hold_micro h"] live assms(3,4)
    by (simp add: place_db_def)
qed

end
