(* ===== verification/Task_Start.thy ===== *)
theory Task_Start
  imports Settlement_Laws Hold_Laws
begin

section \<open>Starting a task\<close>

text \<open>
  What \<open>reserve\<close> guarantees: the refusals come in the published order, an account never has more than three
  enforced tasks open, and a task that starts holds exactly what it reserved, from the spendable lots
  in the spend order, on a state that stays sound.
\<close>

subsection \<open>Slots\<close>

lemma open_slots:
  assumes "task_rows_ok db" "r \<in> set (filter (open_enforce a) (credit_reservations db))"
  shows "res_slot r \<in> {Some 1, Some 2, Some 3}"
proof -
  have "reservation_checks r" "res_mode r = Enforce"
    using assms by (auto simp: task_rows_ok_def open_enforce_def)
  then show ?thesis by (auto simp: reservation_checks_def CREDIT_RESERVATION_SLOTS_def)
qed

lemma three_slots:
  assumes "task_rows_ok db" "slots_ok db"
  shows "length (filter (open_enforce a) (credit_reservations db)) \<le> 3"
proof -
  let ?ss = "map res_slot (filter (open_enforce a) (credit_reservations db))"
  have "set ?ss \<subseteq> {Some 1, Some 2, Some 3}" using open_slots [OF assms(1)] by auto
  then have "card (set ?ss) \<le> card {Some (1::nat), Some 2, Some 3}" by (intro card_mono) auto
  also have "\<dots> = 3" by (simp add: card_insert_if)
  finally have "card (set ?ss) \<le> 3" .
  moreover have "distinct ?ss" using assms(2) by (simp add: slots_ok_def)
  ultimately have "length ?ss \<le> 3" by (metis distinct_card)
  then show ?thesis by simp
qed

lemma lowest_free_slot_found:
  assumes "task_rows_ok db" "slots_ok db" "length (filter (open_enforce a) (credit_reservations db)) < 3"
  obtains s where "lowest_free_slot a db = Some s" "s \<in> {1, 2, 3}"
    "\<And>r. r \<in> set (credit_reservations db) \<Longrightarrow> open_enforce a r \<Longrightarrow> res_slot r \<noteq> Some s"
proof (cases "lowest_free_slot a db")
  case None
  let ?xs = "filter (open_enforce a) (credit_reservations db)"
  have "\<exists>r\<in>set ?xs. res_slot r = Some s" if "s \<in> {1, 2, 3}" for s
    using None that unfolding lowest_free_slot_def find_None_iff by (auto simp: CREDIT_RESERVATION_SLOTS_def list_ex_iff)
  then have "{Some 1, Some 2, Some 3} \<subseteq> set (map res_slot ?xs)" by (auto simp: image_iff) metis+
  then have "card {Some (1::nat), Some 2, Some 3} \<le> card (set (map res_slot ?xs))" by (intro card_mono) auto
  also have "\<dots> \<le> length ?xs" using card_length [of "map res_slot ?xs"] by simp
  finally have "3 \<le> length ?xs" by (simp add: card_insert_if)
  with assms(3) show thesis by simp
next
  case (Some s)
  then obtain i where "i < length CREDIT_RESERVATION_SLOTS" "s = CREDIT_RESERVATION_SLOTS ! i"
    "\<not> list_ex (\<lambda>o'. open_enforce a o' \<and> res_slot o' = Some s) (credit_reservations db)"
    unfolding lowest_free_slot_def find_Some_iff by blast
  then show thesis
    using Some by (intro that [of s]) (auto simp: CREDIT_RESERVATION_SLOTS_def list_ex_iff less_Suc_eq)
qed

text \<open>An account never has more than three enforced tasks open at once, and never two in one slot.\<close>
theorem at_most_three_open_tasks:
  assumes "sys_inv db"
  shows "length (filter (open_enforce a) (credit_reservations db)) \<le> 3 \<and>
    openEnforceCount a db = Inr (int (length (filter (open_enforce a) (credit_reservations db)))) \<and>
    distinct (map res_slot (filter (open_enforce a) (credit_reservations db)))"
proof -
  note ok = sys_invD [OF assms]
  have le: "length (filter (open_enforce a) (credit_reservations db)) \<le> 3" by (rule three_slots [OF ok(3,4)])
  then have "safe_int (int (length (filter (open_enforce a) (credit_reservations db))))"
    by (simp add: safe_int_def MAX_SAFE_def)
  with le ok(4) show ?thesis by (simp add: openEnforceCount_def slots_ok_def)
qed

subsection \<open>The rows of a new task\<close>

text \<open>An id the caller drew: no row of any table mentions it.\<close>

definition fresh_task :: "db \<Rightarrow> uuid \<Rightarrow> bool" where
  "fresh_task db rid \<longleftrightarrow>
     uuid_ok rid \<and> find_reservation db rid = None \<and>
     (\<forall>x\<in>set (credit_ledger db). led_reservation x \<noteq> Some rid \<and> \<not> task_key rid (idempotency_key x))"

definition start_db :: "credit_reservation \<Rightarrow> db \<Rightarrow> db" where
  "start_db r db = db\<lparr>credit_reservations := credit_reservations db @ [r]\<rparr>"

lemma find_start:
  "find_reservation db (res_id r) = None \<Longrightarrow>
   find_reservation (start_db r db) i = (if i = res_id r then Some r else find_reservation db i)"
  by (auto simp: start_db_def find_reservation_def lookup_by_append split: option.splits)

lemma fresh_task_rows:
  assumes "task_rows_ok db" "fresh_task db rid"
  shows "calls_of db rid = []" "holds_of db rid = []" "charges_of db rid = []"
    "\<And>h. h \<in> set (credit_reservation_holds db) \<Longrightarrow> hold_reservation h \<noteq> rid"
proof -
  show "calls_of db rid = []"
    using assms by (fastforce simp: calls_of_def filter_empty_conv task_rows_ok_def fresh_task_def)
  show h: "\<And>h. h \<in> set (credit_reservation_holds db) \<Longrightarrow> hold_reservation h \<noteq> rid"
    using assms by (fastforce simp: task_rows_ok_def fresh_task_def)
  then show "holds_of db rid = []" by (auto simp: holds_of_def filter_empty_conv)
  show "charges_of db rid = []" using assms(2) by (auto simp: charges_of_def filter_empty_conv fresh_task_def)
qed

lemma start_rows:
  assumes ok: "task_rows_ok db" and fresh: "fresh_task db (res_id r)" and enf: "res_mode r = Enforce"
    and r: "reservation_checks r" "reserved r \<le> MAX_SAFE" "safe_int (res_card r)" "find_account db (res_account r) \<noteq> None"
  shows "task_rows_ok (placed (res_id r) (res_account r) ps (start_db r db))"
proof -
  let ?d = "start_db r db" and ?e = "placed (res_id r) (res_account r) ps (start_db r db)"
  note frame = placed_frame [of "res_id r" "res_account r" ps ?d]
  have none: "find_reservation db (res_id r) = None" using fresh by (simp add: fresh_task_def)
  note find = find_start [OF none]
  have acc: "find_account ?d = find_account db" by (simp add: start_db_def)
  have tables: "credit_reservations ?e = credit_reservations db @ [r]" "credit_model_calls ?e = credit_model_calls db"
    "find_account ?e = find_account db" "find_reservation ?e = find_reservation ?d"
    "credit_reservation_holds ?e = credit_reservation_holds db @ map (new_hold (res_id r) (res_account r)) ps"
    using frame acc placed_holds [of "res_id r" "res_account r" ps ?d] by (simp_all add: start_db_def)
  have keep: "find_reservation ?d i = Some q" if "find_reservation db i = Some q" for i q
    using that none find by auto
  show ?thesis
    unfolding task_rows_ok_def tables
  proof (intro conjI ballI)
    show "distinct (map res_id (credit_reservations db @ [r]))"
      using ok none by (auto simp: task_rows_ok_def find_reservation_def lookup_by_None)
  next
    fix c assume "c \<in> set (credit_model_calls db)"
    with ok keep show "\<exists>q. find_reservation ?d (call_reservation c) = Some q \<and> res_account q = call_account c"
      by (meson task_rows_ok_def)
  next
    fix h assume h: "h \<in> set (credit_reservation_holds db @ map (new_hold (res_id r) (res_account r)) ps)"
    show "\<exists>q. find_reservation ?d (hold_reservation h) = Some q \<and> res_account q = hold_account h \<and> res_mode q = Enforce"
    proof (cases "h \<in> set (credit_reservation_holds db)")
      case True
      with ok keep show ?thesis by (meson task_rows_ok_def)
    next
      case False
      with h show ?thesis using find enf by auto
    qed
  qed (use ok r fresh in \<open>auto simp: task_rows_ok_def fresh_task_def\<close>)
qed

lemma start_balanced:
  assumes bal: "tasks_balanced db" and ok: "task_rows_ok db" and fresh: "fresh_task db (res_id r)"
    and r: "res_mode r = Enforce" "res_state r = Open" "committed r = 0" "sum_by snd ps = reserved r"
  shows "tasks_balanced (placed (res_id r) (res_account r) ps (start_db r db))"
  unfolding tasks_balanced_def
proof (rule ballI)
  let ?d = "start_db r db" and ?e = "placed (res_id r) (res_account r) ps (start_db r db)"
  note frame = placed_frame [of "res_id r" "res_account r" ps ?d]
  have none: "find_reservation db (res_id r) = None" using fresh by (simp add: fresh_task_def)
  note find = find_start [OF none] and empty = fresh_task_rows [OF ok fresh]
  have same: "calls_of ?e = calls_of db" "charges_of ?e = charges_of db" "credit_ledger ?e = credit_ledger db"
    using frame by (simp_all add: start_db_def calls_of_def charges_of_def fun_eq_iff)
  have holds: "holds_of ?e q = holds_of db q @ (if q = res_id r then map (new_hold (res_id r) (res_account r)) ps else [])" for q
    unfolding holds_of_def placed_holds by (simp add: start_db_def)
  fix q assume "q \<in> set (credit_reservations ?e)"
  then consider "q \<in> set (credit_reservations db)" | "q = r" using frame by (auto simp: start_db_def)
  then show "credit_check_reservation ?e (res_id q) \<and> (res_state q = Open \<longrightarrow>
      (\<forall>h\<in>set (holds_of ?e (res_id q)). released_at h = None) \<and> charges_of ?e (res_id q) = [] \<and>
      (\<forall>x\<in>set (credit_ledger ?e). \<not> task_key (res_id q) (idempotency_key x)))"
  proof cases
    case 1
    then have "res_id q \<noteq> res_id r" using none by (metis find_reservation_def imageI lookup_by_None)
    then have eq: "find_reservation ?e (res_id q) = find_reservation db (res_id q)" "calls_of ?e (res_id q) = calls_of db (res_id q)"
      "holds_of ?e (res_id q) = holds_of db (res_id q)" "charges_of ?e (res_id q) = charges_of db (res_id q)"
      using same holds frame find by simp_all
    show ?thesis unfolding check_cong [OF eq] eq same(3) using 1 bal by (simp add: tasks_balanced_def)
  next
    case 2
    have "sum_by hold_micro (map (new_hold (res_id r) (res_account r)) ps) = reserved r"
      using r(4) by (simp add: sum_by_map)
    then have "credit_check_reservation ?e (res_id r)"
      using frame find same holds empty r by (simp add: credit_check_reservation_def)
    with 2 same holds empty fresh show ?thesis by (auto simp: fresh_task_def)
  qed
qed

lemma start_sys_inv:
  assumes inv: "sys_inv db" and fresh: "fresh_task db (res_id r)"
    and r: "res_mode r = Enforce" "res_state r = Open" "committed r = 0" "sum_by snd ps = reserved r"
    and row: "reservation_checks r" "reserved r \<le> MAX_SAFE" "safe_int (res_card r)" "find_account db (res_account r) \<noteq> None"
    and slot: "\<And>q. q \<in> set (credit_reservations db) \<Longrightarrow> open_enforce (res_account r) q \<Longrightarrow> res_slot q \<noteq> res_slot r"
    and ps: "\<And>p. p \<in> set ps \<Longrightarrow> holdable db (res_id r) (res_account r) p" "distinct (map fst ps)"
  shows "foldr_result (\<lambda>d p. insert_hold (new_hold (res_id r) (res_account r) p) d) (start_db r db) ps =
      Inr (placed (res_id r) (res_account r) ps (start_db r db))"
    and "sys_inv (placed (res_id r) (res_account r) ps (start_db r db))"
proof -
  let ?d = "start_db r db" and ?e = "placed (res_id r) (res_account r) ps (start_db r db)"
  note ok = sys_invD [OF inv] and frame = placed_frame [of "res_id r" "res_account r" ps ?d]
  have none: "find_reservation db (res_id r) = None" using fresh by (simp add: fresh_task_def)
  have found: "find_reservation ?d (res_id r) = Some r" using find_start [OF none] by simp
  have inv0: "db_inv ?d" "hygiene ?d"
    using ok(1,2) db_inv_cong [of ?d db] hygiene_cong [of ?d db] by (simp_all add: start_db_def)
  have "holdable ?d (res_id r) (res_account r) p" if "p \<in> set ps" for p
    using ps(1) [OF that] by (simp add: holdable_def start_db_def)
  note loop = placeHolds_loop [OF inv0(1) found refl r(2,1) this ps(2)]
  then show "foldr_result (\<lambda>d p. insert_hold (new_hold (res_id r) (res_account r) p) d) ?d ps = Inr ?e" by blast
  have rs: "credit_reservations ?e = credit_reservations db @ [r]" using frame by (simp add: start_db_def)
  have "distinct (map res_slot (filter (open_enforce b) (credit_reservations db @ [r])))" for b
  proof (cases "open_enforce b r")
    case True
    then have b: "b = res_account r" by (simp add: open_enforce_def)
    have "res_slot r \<notin> res_slot ` set (filter (open_enforce b) (credit_reservations db))"
    proof
      assume "res_slot r \<in> res_slot ` set (filter (open_enforce b) (credit_reservations db))"
      then obtain q where "q \<in> set (credit_reservations db)" "open_enforce b q" "res_slot q = res_slot r" by auto
      with slot b show False by blast
    qed
    with ok(4) True show ?thesis by (simp add: slots_ok_def)
  qed (use ok(4) in \<open>simp add: slots_ok_def\<close>)
  then have "slots_ok ?e" by (simp add: slots_ok_def rs)
  moreover have "claims_ok ?e" using ok(6) frame by (simp add: claims_ok_def start_db_def)
  ultimately show "sys_inv ?e"
    using loop start_rows [OF ok(3) fresh r(1) row] start_balanced [OF ok(5,3) fresh r] frame inv0(2)
    by (simp add: sys_inv_def task_inv_def)
qed

subsection \<open>The holds of a new task\<close>

definition spend_purses :: "db \<Rightarrow> uuid \<Rightarrow> (uuid \<times> int) list" where
  "spend_purses db a = map (\<lambda>l. (lot_id l, free_micro l)) (spendable_lots db a)"

lemma spend_purses_sum: "balances_ok db \<Longrightarrow> sum_by snd (spend_purses db a) = free_credit db a"
  by (simp add: spend_purses_def sum_by_map spendable_sum)

lemma draw_spendable:
  assumes inv: "db_inv db" "hygiene db" and amount: "0 \<le> amount" "amount \<le> free_credit db a"
    and none: "\<And>h. h \<in> set (credit_reservation_holds db) \<Longrightarrow> hold_reservation h \<noteq> rid"
  defines "ps \<equiv> draw amount (spend_purses db a)"
  shows "hold_amounts amount (spendable_lots db a) = ps" "sum_by snd ps = amount" "distinct (map fst ps)"
    "\<And>p. p \<in> set ps \<Longrightarrow> holdable db rid a p" "\<And>p. p \<in> set ps \<Longrightarrow> safe_int (snd p)"
proof -
  have ok: "keys_ok db" "balances_ok db" using inv(1) by (simp_all add: db_inv_def)
  have pos: "0 < free_micro l" if "l \<in> set (spendable_lots db a)" for l
    using that by (simp add: spendable_member free_micro_def)
  show "hold_amounts amount (spendable_lots db a) = ps"
    unfolding ps_def spend_purses_def by (rule hold_amounts_draw [OF pos])
  have "sum_by snd ps = min amount (sum_by snd (spend_purses db a))"
    unfolding ps_def using amount(1) pos by (intro draw_sum) (auto simp: spend_purses_def intro: less_imp_le)
  then show "sum_by snd ps = amount" using amount(2) spend_purses_sum [OF ok(2)] by simp
  obtain n where n: "map fst ps = take n (map fst (spend_purses db a))"
    using draw_keys [of amount "spend_purses db a"] unfolding ps_def by blast
  have "map fst (spend_purses db a) = map lot_id (spendable_lots db a)" by (simp add: spend_purses_def)
  with n show "distinct (map fst ps)" using spendable_distinct [OF ok(1), of a] by (simp add: distinct_take)
  fix p assume p: "p \<in> set ps"
  obtain i x where ix: "p = (i, x)" by (cases p)
  have "0 < x \<and> (\<exists>f. (i, f) \<in> set (spend_purses db a) \<and> x \<le> f)"
    using p unfolding ps_def ix by (rule draw_member) (auto simp: spend_purses_def pos)
  then obtain l where l: "0 < x" "l \<in> set (spendable_lots db a)" "lot_id l = i" "x \<le> free_micro l"
    by (auto simp: spend_purses_def)
  have m: "l \<in> set (credit_lots db)" "lot_account l = a" "live_lot (db_now db) l" using l(2) by (auto simp: spendable_member)
  have found: "find_lot db i = Some l" using find_lot_member [OF ok(1) m(1)] l(3) by simp
  have "lot_bounds l" "granted l \<le> MAX_SAFE" using ok(2) inv(2) m(1) by (auto simp: balances_ok_def hygiene_def amounts_ok_def)
  then show "safe_int (snd p)" using l ix by (auto simp: lot_bounds_def free_micro_def safe_int_def)
  show "holdable db rid a p"
    unfolding holdable_def using found m l none ix by auto
qed

lemma placed_free_credit:
  assumes "db_inv db" "find_reservation db rid = Some r" "res_account r = a" "res_state r = Open" "res_mode r = Enforce"
    "\<And>p. p \<in> set ps \<Longrightarrow> holdable db rid a p" "distinct (map fst ps)"
  shows "free_credit (placed rid a ps db) a = free_credit db a - sum_by snd ps"
  using assms
proof (induction ps arbitrary: db)
  case Nil
  then show ?case by (simp add: placed_def)
next
  case (Cons p ps)
  let ?h = "new_hold rid a p"
  let ?db = "place_db ?h db"
  have p: "holdable db rid a p" using Cons.prems(6) by simp
  then obtain l where l: "find_lot db (fst p) = Some l" "lot_account l = a" "live_lot (db_now db) l" "0 < snd p" "snd p \<le> free_micro l"
    and new: "\<And>k. k \<in> set (credit_reservation_holds db) \<Longrightarrow> (hold_reservation k, hold_lot k) \<noteq> (rid, fst p)"
    unfolding holdable_def by blast
  have inv: "db_inv ?db" by (rule place_inv [OF Cons.prems(1), where l = l]) (use l new in simp_all)
  have keys: "keys_ok db" using Cons.prems(1) by (simp add: db_inv_def)
  have one: "free_credit ?db a = free_credit db a - snd p"
    using free_credit_place [OF keys, of ?h l a] l by simp
  have "holdable ?db rid a q" if q: "q \<in> set ps" for q
  proof -
    have "fst q \<noteq> fst p" using Cons.prems(7) q by (auto simp: image_iff)
    then show ?thesis using Cons.prems(6) [of q] q by (auto simp: holdable_def)
  qed
  then have "free_credit (placed rid a ps ?db) a = free_credit ?db a - sum_by snd ps"
    using Cons.IH [OF inv] Cons.prems by simp
  with one show ?case by (simp add: placed_def)
qed

subsection \<open>A task that starts\<close>

definition cards_ok :: "db \<Rightarrow> bool" where
  "cards_ok db \<longleftrightarrow>
     (\<forall>m\<in>set (credit_rate_card_models db). rate_card_model_checks m) \<and>
     (\<forall>c\<in>set (credit_rate_cards db). safe_int (card_version c))"

definition request_key_free :: "db \<Rightarrow> uuid \<Rightarrow> string option \<Rightarrow> bool" where
  "request_key_free db a k \<longleftrightarrow>
     (case k of None \<Rightarrow> True
      | Some s \<Rightarrow> length s \<le> 300 \<and>
          \<not> list_ex (\<lambda>r. res_account r = a \<and> request_key r = Some s) (credit_reservations db))"

lemma priceModel_facts:
  assumes "priceModel model d = Inr (Some p)" "cards_ok d"
  shows "0 < pm_minStart p" "pm_minStart p \<le> pm_maxReserve p" "safe_int (pm_version p)"
    "list_ex (\<lambda>c. card_version c = pm_version p) (credit_rate_cards d)"
proof -
  from assms(1) obtain c row where c: "cardInForce None d = Some c" and row: "modelRow (card_version c) model d = Inr (Some row)"
    and p: "p = \<lparr>pm_version = card_version c, pm_minStart = minStartMicro row, pm_maxReserve = maxReserveMicro row\<rparr>"
    by (auto simp: priceModel_def result_simps split: if_splits option.splits)
  have "c \<in> set (credit_rate_cards d)"
    using c by (auto simp: cardInForce_def first_row_def split: list.splits)
      (metis list.set_intros(1) mem_Collect_eq set_filter set_sort)
  moreover have "row \<in> set (credit_rate_card_models d)"
    using row by (auto simp: modelRow_def toModelRecord_def result_simps find_Some_iff split: option.splits)
  ultimately show "0 < pm_minStart p" "pm_minStart p \<le> pm_maxReserve p" "safe_int (pm_version p)"
    "list_ex (\<lambda>c. card_version c = pm_version p) (credit_rate_cards d)"
    using assms(2) p by (auto simp: cards_ok_def rate_card_model_checks_def list_ex_iff)
qed

lemma requestKeyFor_nonempty: "requestKeyFor k = Some s \<Longrightarrow> 1 \<le> length s"
  by (auto simp: requestKeyFor_def Let_def split: option.splits if_splits)

lemma insertEnforce_effect:
  fixes n :: NewCreditReservation
  defines "x \<equiv> min (nr_maxReserveMicro n) (nr_availableMicro n)"
  assumes inv: "sys_inv d" and fresh: "fresh_task d (nr_id n)"
    and room: "length (filter (open_enforce (nr_account n)) (credit_reservations d)) < 3"
    and amount: "0 < x" "x \<le> MAX_SAFE" and card: "list_ex (\<lambda>c. card_version c = nr_card n) (credit_rate_cards d)"
    and key: "request_key_free d (nr_account n) (nr_request_key n)" "nr_request_key n \<noteq> Some []"
  obtains s where "insertEnforceReservation n d = Inr ((s, x), start_db (reservation_row n Enforce (Some s) x None (db_now d)) d)"
    "s \<in> {1, 2, 3}" "\<And>q. q \<in> set (credit_reservations d) \<Longrightarrow> open_enforce (nr_account n) q \<Longrightarrow> res_slot q \<noteq> Some s"
    "reservation_checks (reservation_row n Enforce (Some s) x None (db_now d))"
proof -
  note ok = sys_invD [OF inv]
  obtain s where s: "lowest_free_slot (nr_account n) d = Some s" "s \<in> {1, 2, 3}"
    "\<And>q. q \<in> set (credit_reservations d) \<Longrightarrow> open_enforce (nr_account n) q \<Longrightarrow> res_slot q \<noteq> Some s"
    using lowest_free_slot_found [OF ok(3,4) room] by blast
  let ?row = "reservation_row n Enforce (Some s) x None (db_now d)"
  have checks: "reservation_checks ?row"
    using s(2) amount key
    by (auto simp: reservation_checks_def reservation_row_def CREDIT_RESERVATION_SLOTS_def CREDIT_MAX_UNTIL_MINUTES_def
        request_key_free_def Suc_le_eq split: option.splits)
  have "\<not> list_ex (\<lambda>o'. open_enforce (res_account ?row) o' \<and> res_slot o' = res_slot ?row) (credit_reservations d)"
    using s(3) by (auto simp: list_ex_iff reservation_row_def)
  moreover have "\<not> (request_key ?row \<noteq> None \<and>
      list_ex (\<lambda>o'. res_account o' = res_account ?row \<and> request_key o' = request_key ?row) (credit_reservations d))"
    using key(1) by (auto simp: request_key_free_def reservation_row_def split: option.splits)
  moreover have "find_reservation d (res_id ?row) = None" "list_ex (\<lambda>c. card_version c = res_card ?row) (credit_rate_cards d)"
    using fresh card by (simp_all add: fresh_task_def reservation_row_def)
  ultimately have "insert_reservation ?row d = Inr (start_db ?row d)"
    using checks by (simp add: insert_reservation_def start_db_def)
  moreover have "slotOf (res_slot ?row) = Inr s" "exact (reserved ?row) = Inr x"
    using s(2) amount by (auto simp: reservation_row_def slotOf_def safe_int_def)
  ultimately have "insertEnforceReservation n d = Inr ((s, x), start_db ?row d)"
    using s(1) by (simp add: insertEnforceReservation_def Let_def x_def)
  then show thesis using s(2,3) checks by (rule that)
qed

text \<open>Between two states of one ledger, COMMIT looks again only at accounts that were touched before.\<close>

lemma commit_sys_inv:
  assumes "sys_inv e" and "\<And>a. a \<in> set (touched_accounts db e) \<Longrightarrow> credit_check_debt_vs_free e a"
  shows "commit_checks db e"
proof -
  note ok = sys_invD [OF assms(1)]
  have "credit_check_reservation e q" for q
  proof (cases "find_reservation e q")
    case None
    then show ?thesis by (simp add: credit_check_reservation_def)
  next
    case (Some r)
    from find_reservation_Some [OF this] ok(5) show ?thesis by (auto simp: tasks_balanced_def)
  qed
  with assms(2) show ?thesis by (simp add: commit_checks_def list_all_iff)
qed

lemma touched_start:
  "touched_accounts db (placed rid a ps (start_db r d)) = touched_accounts db d"
proof -
  have "filter (\<lambda>h. released_at h \<noteq> None) (new_rows hs (hs' @ map (new_hold rid a) ps)) =
      filter (\<lambda>h. released_at h \<noteq> None) (new_rows hs hs')" for hs hs'
    by (auto simp: new_rows_def filter_empty_conv)
  then show ?thesis
    using placed_frame [of rid a ps "start_db r d"] placed_holds [of rid a ps "start_db r d"]
    by (simp add: touched_accounts_def start_db_def)
qed

definition may_start :: "db \<Rightarrow> CreditReserveInput \<Rightarrow> priced_model \<Rightarrow> bool" where
  "may_start d input p \<longleftrightarrow>
     length (filter (open_enforce (ri_account input)) (credit_reservations d)) < 3 \<and>
     account_debt d (ri_account input) = 0 \<and> pm_minStart p \<le> free_credit d (ri_account input)"

text \<open>What the service is handed: a fresh id, an unused request key, amounts JavaScript can hold.\<close>

definition start_input_ok :: "db \<Rightarrow> CreditReserveInput \<Rightarrow> bool" where
  "start_input_ok d input \<longleftrightarrow>
     fresh_task d (ri_reservation input) \<and> find_account d (ri_account input) \<noteq> None \<and>
     request_key_free d (ri_account input) (requestKeyFor (ri_idempotencyKey input)) \<and>
     free_credit d (ri_account input) \<le> MAX_SAFE \<and> cards_ok d"

lemma place_phase:
  assumes inv: "sys_inv d" and fresh: "fresh_task d (res_id r)" and acct: "find_account d (res_account r) \<noteq> None"
    and r: "res_mode r = Enforce" "res_state r = Open" "committed r = 0" "reserved r = x"
    and row: "reservation_checks r" "safe_int (res_card r)"
    and slot: "\<And>q. q \<in> set (credit_reservations d) \<Longrightarrow> open_enforce (res_account r) q \<Longrightarrow> res_slot q \<noteq> res_slot r"
    and x: "0 < x" "x \<le> free_credit d (res_account r)" "x \<le> MAX_SAFE"
  defines "ps \<equiv> draw x (spend_purses d (res_account r))"
  defines "e \<equiv> placed (res_id r) (res_account r) ps (start_db r d)"
  shows "placeHolds (res_id r) (res_account r) x (start_db r d) = Inr (ps, e)" "sys_inv e" "sum_by snd ps = x"
    "free_credit e (res_account r) = free_credit d (res_account r) - x" "credit_ledger e = credit_ledger d"
    "find_account e = find_account d"
proof -
  let ?d = "start_db r d"
  note ok = sys_invD [OF inv] and frame = placed_frame [of "res_id r" "res_account r" ps ?d]
  have none: "hold_reservation h \<noteq> res_id r" if "h \<in> set (credit_reservation_holds d)" for h
    by (rule fresh_task_rows(4) [OF ok(3) fresh that])
  note draw = draw_spendable [OF ok(1,2) less_imp_le [OF x(1)] x(2) none, folded ps_def]
  have hold: "holdable d (res_id r) (res_account r) p" if "p \<in> set ps" for p using draw(4) that by blast
  have sum: "sum_by snd ps = reserved r" using draw(2) r(4) by simp
  have small: "reserved r \<le> MAX_SAFE" using x(3) r(4) by simp
  note start = start_sys_inv [OF inv fresh r(1-3) sum row(1) small row(2) acct slot hold draw(3), folded e_def]
  have "spendable_lots ?d (res_account r) = spendable_lots d (res_account r)" by (simp add: spendable_lots_def start_db_def)
  then have amounts: "hold_amounts x (spendable_lots ?d (res_account r)) = ps" using draw(1) by simp
  have "all_results (map (\<lambda>(i, x). rbind (exact x) (\<lambda>y. Inr (i, y))) ps) = Inr (map id ps)"
    by (rule all_results_same) (use draw(5) in auto)
  then show "placeHolds (res_id r) (res_account r) x ?d = Inr (ps, e)"
    using start(1) amounts by (simp add: placeHolds_def Let_def)
  show "sys_inv e" by (rule start(2))
  show "sum_by snd ps = x" using sum r(4) by simp
  show "credit_ledger e = credit_ledger d" "find_account e = find_account d"
    using frame by (simp_all add: e_def start_db_def find_account_def fun_eq_iff)
  have found: "find_reservation ?d (res_id r) = Some r" using find_start [of d r] fresh by (simp add: fresh_task_def)
  have inv0: "db_inv ?d" using ok(1) db_inv_cong [of ?d d] by (simp add: start_db_def)
  have "holdable ?d (res_id r) (res_account r) q" if "q \<in> set ps" for q
    using hold [OF that] by (simp add: holdable_def start_db_def)
  from placed_free_credit [OF inv0 found refl r(2,1) this draw(3)] sum r(4)
  show "free_credit e (res_account r) = free_credit d (res_account r) - x"
    by (simp add: e_def free_credit_def start_db_def)
qed

definition started_row :: "CreditReserveInput \<Rightarrow> priced_model \<Rightarrow> db \<Rightarrow> nat \<Rightarrow> credit_reservation" where
  "started_row input p d s =
     (let free = free_credit d (ri_account input)
      in reservation_row (new_reservation input (pm_version p) (pm_maxReserve p) free) Enforce (Some s)
           (min (pm_maxReserve p) free) None (db_now d))"

definition started_db :: "CreditReserveInput \<Rightarrow> priced_model \<Rightarrow> db \<Rightarrow> nat \<Rightarrow> db" where
  "started_db input p d s =
     placed (ri_reservation input) (ri_account input)
       (draw (min (pm_maxReserve p) (free_credit d (ri_account input))) (spend_purses d (ri_account input)))
       (start_db (started_row input p d s) d)"

lemma reserve_started:
  assumes lock: "lockAccount (ri_account input) db = Inr (acct, db1)" and refresh: "refreshUnderSavepoint refresh (ri_account input) db1 = d"
    and inv: "sys_inv d" and price: "priceModel (ri_model input) d = Inr (Some p)" and may: "may_start d input p"
    and new: "start_input_ok d input"
  defines "x \<equiv> min (pm_maxReserve p) (free_credit d (ri_account input))"
  obtains s where "reserveEnforce refresh input db =
      Inr (Reserved (ri_reservation input) s x (pm_version p) (draw x (spend_purses d (ri_account input))), started_db input p d s)"
    "sys_inv (started_db input p d s)" "0 < x" "sum_by snd (draw x (spend_purses d (ri_account input))) = x" "s \<in> {1, 2, 3}"
    "\<not> list_ex (\<lambda>q. open_enforce (ri_account input) q \<and> res_slot q = Some s) (credit_reservations d)"
    "free_credit (started_db input p d s) (ri_account input) = free_credit d (ri_account input) - x"
    "credit_ledger (started_db input p d s) = credit_ledger d" "find_account (started_db input p d s) = find_account d"
proof -
  let ?a = "ri_account input" and ?rid = "ri_reservation input"
  let ?ps = "draw x (spend_purses d ?a)" and ?n = "new_reservation input (pm_version p) (pm_maxReserve p) (free_credit d ?a)"
  note ok = sys_invD [OF inv]
  from may have room: "length (filter (open_enforce ?a) (credit_reservations d)) < 3" "account_debt d ?a = 0"
    "pm_minStart p \<le> free_credit d ?a" by (simp_all add: may_start_def)
  from new have input: "fresh_task d ?rid" "request_key_free d ?a (requestKeyFor (ri_idempotencyKey input))"
    "free_credit d ?a \<le> MAX_SAFE" "cards_ok d" by (simp_all add: start_input_ok_def)
  obtain c where c: "find_account d ?a = Some c" "debt_micro c = 0"
    using new room(2) by (auto simp: start_input_ok_def account_debt_def)
  note priced = priceModel_facts [OF price input(4)]
  have x: "0 < x" "x \<le> free_credit d ?a" "x \<le> MAX_SAFE" using priced(1,2) room(3) input(3) by (auto simp: x_def)
  have n: "nr_id ?n = ?rid" "nr_account ?n = ?a" "nr_card ?n = pm_version p" "nr_maxReserveMicro ?n = pm_maxReserve p"
    "nr_availableMicro ?n = free_credit d ?a" "nr_request_key ?n = requestKeyFor (ri_idempotencyKey input)"
    by (simp_all add: new_reservation_def)
  have key: "nr_request_key ?n \<noteq> Some []" using requestKeyFor_nonempty [of _ "[]"] unfolding n by auto
  obtain s where s: "insertEnforceReservation ?n d = Inr ((s, x), start_db (reservation_row ?n Enforce (Some s) x None (db_now d)) d)"
    "s \<in> {1, 2, 3}" "\<And>q. q \<in> set (credit_reservations d) \<Longrightarrow> open_enforce ?a q \<Longrightarrow> res_slot q \<noteq> Some s"
    "reservation_checks (reservation_row ?n Enforce (Some s) x None (db_now d))"
    using insertEnforce_effect [of d ?n, unfolded n, folded x_def, OF inv input(1) room(1) x(1,3) priced(4) input(2)] key n(6)
    by metis
  let ?r = "reservation_row ?n Enforce (Some s) x None (db_now d)"
  let ?e = "placed ?rid ?a ?ps (start_db ?r d)"
  have r: "res_id ?r = ?rid" "res_account ?r = ?a" "res_mode ?r = Enforce" "res_state ?r = Open" "committed ?r = 0"
    "reserved ?r = x" "res_slot ?r = Some s" "res_card ?r = pm_version p"
    by (simp_all add: reservation_row_def n)
  have acct: "find_account d ?a \<noteq> None" using c(1) by simp
  note place = place_phase [of d ?r x, unfolded r, OF inv input(1) acct refl refl refl refl s(4) priced(3) s(3) x]
  have count: "openEnforceCount ?a d = Inr (int (length (filter (open_enforce ?a) (credit_reservations d))))"
    using room(1) by (simp add: openEnforceCount_def safe_int_def MAX_SAFE_def)
  have ensure: "ensureAccount ?a d = Inr (c, d)"
    using c by (simp add: ensureAccount_def Let_def insert_account_def toAccountRecord_def)
  have avail: "spendableMicro ?a d = Inr (free_credit d ?a)"
    using spendableMicro_sum [of d ?a] ok(1) input(3) free_credit_nonneg [of d ?a] by (simp add: db_inv_def safe_int_def)
  have body: "reserveEnforce refresh input db = Inr (Reserved ?rid s x (pm_version p) ?ps, ?e)"
    using lock refresh price count room c ensure avail s(1) place(1)
    by (simp add: reserveEnforce_def Let_def MAX_ENFORCED_TASKS_def)
  have e: "?e = started_db input p d s" by (simp add: started_db_def started_row_def x_def Let_def)
  have "\<not> list_ex (\<lambda>q. open_enforce ?a q \<and> res_slot q = Some s) (credit_reservations d)"
    using s(3) by (auto simp: list_ex_iff)
  then show thesis by (intro that [of s]) (use body place x(1) s(2,3) in \<open>simp_all add: e\<close>)
qed

text \<open>C7: a task that may start does start. When the model is priced, fewer than three enforced tasks are open, nothing
  is owed and the free credit covers the model's minimum, \<open>reserve\<close> grants and commits the smaller of
  the model's maximum and the free credit, gives the task a slot no open task of the account has, and
  holds exactly that amount, drawn from the spendable lots in the spend order; measured from the refreshed
  state \<open>d\<close>, the account can spend that much less and the ledger is untouched; and the state is sound.\<close>
theorem reserve_holds_exactly_what_it_grants:
  assumes "lockAccount (ri_account input) db = Inr (acct, db1)" and "refreshUnderSavepoint refresh (ri_account input) db1 = d"
    and "sys_inv d" and "set (touched_accounts db d) \<subseteq> {ri_account input}"
    and "priceModel (ri_model input) d = Inr (Some p)" and "may_start d input p" and "start_input_ok d input"
    and "ri_mode input = Enforce"
  defines "x \<equiv> min (pm_maxReserve p) (free_credit d (ri_account input))"
  shows "\<exists>slot e. reserve refresh input db =
      Inr (Reserved (ri_reservation input) slot x (pm_version p) (draw x (spend_purses d (ri_account input))), e) \<and>
    0 < x \<and> sum_by snd (draw x (spend_purses d (ri_account input))) = x \<and> slot \<in> {1, 2, 3} \<and>
    \<not> list_ex (\<lambda>q. open_enforce (ri_account input) q \<and> res_slot q = Some slot) (credit_reservations d) \<and>
    free_credit e (ri_account input) = free_credit d (ri_account input) - x \<and>
    credit_ledger e = credit_ledger d \<and> sys_inv e"
proof -
  let ?a = "ri_account input"
  obtain s where s: "reserveEnforce refresh input db =
      Inr (Reserved (ri_reservation input) s x (pm_version p) (draw x (spend_purses d ?a)), started_db input p d s)"
    "sys_inv (started_db input p d s)" "0 < x" "sum_by snd (draw x (spend_purses d ?a)) = x" "s \<in> {1, 2, 3}"
    "\<not> list_ex (\<lambda>q. open_enforce ?a q \<and> res_slot q = Some s) (credit_reservations d)"
    "free_credit (started_db input p d s) ?a = free_credit d ?a - x"
    "credit_ledger (started_db input p d s) = credit_ledger d" "find_account (started_db input p d s) = find_account d"
    unfolding x_def by (rule reserve_started [OF assms(1-3,5-7)])
  have "credit_check_debt_vs_free (started_db input p d s) ?a"
    using assms(6) s(9) by (simp add: may_start_def credit_check_debt_vs_free_def account_debt_def)
  moreover have "touched_accounts db (started_db input p d s) = touched_accounts db d" by (simp add: started_db_def touched_start)
  ultimately have "commit_checks db (started_db input p d s)" using assms(4) by (intro commit_sys_inv [OF s(2)]) auto
  then show ?thesis
    using s assms(8) by (intro exI [of _ s] exI [of _ "started_db input p d s"]) (simp add: reserve_def transaction_def)
qed

text \<open>
  The example: the account of \<open>example_db\<close> with a rate card in force; a Claude Haiku task may start with the
  three credits its two lots have free, which is exactly the model's minimum.
\<close>

definition example_start_db :: "int \<Rightarrow> db" where
  "example_start_db amt = (example_db amt 0)
     \<lparr>credit_rate_cards := [\<lparr>card_version = 1, markup_bp = 20000, announced_at = 0, effective_at = 0, withdrawn_at = None\<rparr>],
      credit_rate_card_models := [model_row_of 1 (''claude-haiku-4-5'', CREDIT_RATE_CARD_V1 claude_haiku_4_5)]\<rparr>"

definition example_input :: "string \<Rightarrow> CreditReserveInput" where
  "example_input model =
     \<lparr>ri_account = example_account, ri_reservation = example_task, ri_session = ''s1'', ri_idempotencyKey = Some ''k1'',
      ri_model = model, ri_mode = Enforce, ri_bootId = ''boot-1''\<rparr>"

lemma example_start_sys: "0 \<le> amt \<Longrightarrow> sys_inv (example_start_db amt)"
  using example_inv [of amt 0] example_hygiene [of amt 0] db_inv_cong [of "example_start_db amt" "example_db amt 0"]
    hygiene_cong [of "example_start_db amt" "example_db amt 0"]
  by (simp add: sys_inv_def task_inv_defs example_start_db_def) (simp add: example_db_def)

lemma example_start_priced:
  "priceModel ''claude-haiku-4-5'' (example_start_db amt) = Inr (Some \<lparr>pm_version = 1, pm_minStart = 3000000, pm_maxReserve = 30000000\<rparr>)"
  by (simp add: priceModel_def deploymentKeyModelRefusal_def agentModelListPrice_def AgentModels_def CLAUDE_MODELS_def
      CLAUDE_MODEL_KEY_POLICY_def cardInForce_def modelRow_def toModelRecord_def first_row_def example_start_db_def
      example_db_def model_row_of_def CreditRateCardModelRow.defs safe_int_def MAX_SAFE_def)

lemma example_start_purses:
  "spend_purses (example_start_db amt) example_account = [(example_lot, 1000000), (example_extra, 2000000)]"
  "free_credit (example_start_db amt) example_account = 3000000"
  by (simp_all add: spend_purses_def spendable_lots_def free_credit_def example_start_db_def example_simps live_lot_def
      spend_key_def free_micro_def)

lemma example_start_input: "start_input_ok (example_start_db 0) (example_input ''claude-haiku-4-5'')"
proof -
  have "\<not> task_key example_task ''grant:1''" "\<not> task_key example_task ''grant:2''"
    using task_key_long [of example_task "''grant:1''"] task_key_long [of example_task "''grant:2''"]
    by (auto simp: uuid_ok_def colon_free_def example_task_def)
  then have "fresh_task (example_start_db 0) example_task"
    by (simp add: fresh_task_def example_start_db_def example_db_def example_row_def find_reservation_def uuid_ok_def
        colon_free_def example_task_def)
  moreover have "cards_ok (example_start_db 0)"
    by (simp add: cards_ok_def example_start_db_def model_row_of_def CreditRateCardModelRow.defs rate_card_model_checks_def
        safe_int_def MAX_SAFE_def)
  ultimately show ?thesis
    using example_start_purses(2) [of 0]
    by (simp add: start_input_ok_def example_input_def request_key_free_def requestKeyFor_def js_trim_def js_space_def
        find_account_def MAX_SAFE_def) (simp add: example_start_db_def example_simps)
qed

theorem reserve_holds_exactly_what_it_grants_witness:
  "\<exists>slot e. reserve None (example_input ''claude-haiku-4-5'') (example_start_db 0) =
     Inr (Reserved example_task slot 3000000 1 [(example_lot, 1000000), (example_extra, 2000000)], e) \<and>
     free_credit e example_account = 0 \<and> sys_inv e"
proof -
  let ?db = "example_start_db 0" and ?in = "example_input ''claude-haiku-4-5''"
  have lock: "lockAccount (ri_account ?in) ?db = Inr (fresh_account example_account, ?db)"
    by (simp add: lockAccount_def Let_def insert_account_def find_account_def toAccountRecord_def example_input_def
        example_start_db_def example_db_def fresh_account_def)
  have "set (touched_accounts ?db ?db) \<subseteq> {ri_account ?in}" by (simp add: touched_accounts_def new_rows_def)
  moreover have "priceModel (ri_model ?in) ?db = Inr (Some \<lparr>pm_version = 1, pm_minStart = 3000000, pm_maxReserve = 30000000\<rparr>)"
    using example_start_priced by (simp add: example_input_def)
  moreover have "may_start ?db ?in \<lparr>pm_version = 1, pm_minStart = 3000000, pm_maxReserve = 30000000\<rparr>"
    using example_start_purses [of 0]
    by (simp add: may_start_def example_input_def account_debt_def find_account_def) (simp add: example_start_db_def example_simps)
  moreover have "refreshUnderSavepoint None (ri_account ?in) ?db = ?db" by (simp add: refreshUnderSavepoint_def)
  moreover have "ri_mode ?in = Enforce" "ri_account ?in = example_account" "ri_reservation ?in = example_task"
    by (simp_all add: example_input_def)
  moreover have "draw 3000000 [(example_lot, 1000000::int), (example_extra, 2000000)] = [(example_lot, 1000000), (example_extra, 2000000)]"
    by simp
  ultimately show ?thesis
    using reserve_holds_exactly_what_it_grants [OF lock _ example_start_sys [of 0] _ _ _ example_start_input, of None]
      example_start_purses [of 0] by fastforce
qed

subsection \<open>Refusals\<close>

text \<open>When each refusal applies, in the state the refresh left.\<close>

definition refusal_applies :: "db \<Rightarrow> uuid \<Rightarrow> priced_model option \<Rightarrow> CreditReserveRefusal \<Rightarrow> bool" where
  "refusal_applies d a priced why =
     (case why of
        RefusedModel \<Rightarrow> priced = None
      | RefusedTasksInFlight \<Rightarrow> MAX_ENFORCED_TASKS \<le> int (length (filter (open_enforce a) (credit_reservations d)))
      | RefusedDebt \<Rightarrow> 0 < account_debt d a
      | RefusedBalance \<Rightarrow> (case priced of None \<Rightarrow> True | Some p \<Rightarrow> free_credit d a < pm_minStart p))"

lemma refused_Inr:
  assumes "refused a why m lo n avail d = Inr (res, d')" "find_account d a = Some c"
  shows "d' = d \<and> (\<exists>x. res = ReserveRefused x \<and> rr_reason x = why)"
  using assms by (auto simp: refused_def ensureAccount_def Let_def insert_account_def result_simps)

lemma reserve_checks:
  assumes "lockAccount (ri_account input) db = Inr (acct, db1)" "refreshUnderSavepoint refresh (ri_account input) db1 = d"
    "sys_inv d" "find_account d (ri_account input) = Some c" "debt_micro c \<le> MAX_SAFE" "priceModel (ri_model input) d = Inr (Some p)"
    "n = int (length (filter (open_enforce (ri_account input)) (credit_reservations d)))"
  shows "reserveEnforce refresh input db =
    (if MAX_ENFORCED_TASKS \<le> n then refused (ri_account input) RefusedTasksInFlight None (Some (pm_minStart p)) (Some n) None d
     else if debt_micro c > 0 then refused (ri_account input) RefusedDebt None (Some (pm_minStart p)) (Some n) None d
     else rbind (exact (free_credit d (ri_account input))) (\<lambda>available.
       if available < pm_minStart p then refused (ri_account input) RefusedBalance None (Some (pm_minStart p)) (Some n) (Some available) d
       else rbind (insertEnforceReservation (new_reservation input (pm_version p) (pm_maxReserve p) available) d)
           (\<lambda>((slot, amount), db4).
         rbind (placeHolds (ri_reservation input) (ri_account input) amount db4) (\<lambda>(holds, db5).
           Inr (Reserved (ri_reservation input) slot amount (pm_version p) holds, db5)))))"
proof -
  note ok = sys_invD [OF assms(3)]
  have "n \<le> 3" using three_slots [OF ok(3,4), of "ri_account input"] assms(7) by simp
  then have count: "openEnforceCount (ri_account input) d = Inr n"
    by (simp add: openEnforceCount_def assms(7) safe_int_def MAX_SAFE_def)
  have "safe_int (debt_micro c)"
    using assms(4,5) ok(1) debt_nonneg [OF ok(1), of "ri_account input"] by (simp add: account_debt_def safe_int_def)
  then have ensure: "ensureAccount (ri_account input) d = Inr (c, d)"
    using assms(4) by (simp add: ensureAccount_def Let_def insert_account_def toAccountRecord_def)
  have avail: "spendableMicro (ri_account input) d = exact (free_credit d (ri_account input))" using spendableMicro_sum ok(1) by (simp add: db_inv_def)
  show ?thesis
    using assms(1,2,6) count ensure avail unfolding reserveEnforce_def by (simp add: Let_def)
qed

text \<open>C15: \<open>reserve\<close> refuses for the first reason of the published order that applies, and only then: the model is
  checked before the tasks in flight, these before the debt, the debt before the balance. A refusal
  writes nothing beyond the refresh that ran before the checks, so it can be asked again.\<close>
theorem reserve_refuses_in_the_published_order:
  assumes "lockAccount (ri_account input) db = Inr (acct, db1)" and "refreshUnderSavepoint refresh (ri_account input) db1 = d"
    and "sys_inv d" and "find_account d (ri_account input) \<noteq> None" and "account_debt d (ri_account input) \<le> MAX_SAFE"
    and "priceModel (ri_model input) d = Inr priced" and "reserveEnforce refresh input db = Inr (res, e)"
  shows "case find (refusal_applies d (ri_account input) priced) CREDIT_RESERVE_REFUSAL_ORDER of
      Some why \<Rightarrow> e = d \<and> (\<exists>x. res = ReserveRefused x \<and> rr_reason x = why)
    | None \<Rightarrow> (\<exists>slot amount version holds. res = Reserved (ri_reservation input) slot amount version holds)"
proof -
  let ?a = "ri_account input"
  obtain c where c: "find_account d ?a = Some c" using assms(4) by blast
  then have debt: "account_debt d ?a = debt_micro c" by (simp add: account_debt_def)
  note order = CREDIT_RESERVE_REFUSAL_ORDER_def refusal_applies_def
  show ?thesis
  proof (cases priced)
    case None
    with assms(1,2,6,7) have "refused ?a RefusedModel (deploymentKeyModelRefusal (ri_model input)) None None None d = Inr (res, e)"
      by (simp add: reserveEnforce_def Let_def)
    from refused_Inr [OF this c] None show ?thesis by (simp add: order)
  next
    case (Some p)
    let ?n = "int (length (filter (open_enforce ?a) (credit_reservations d)))"
    have small: "debt_micro c \<le> MAX_SAFE" using assms(5) debt by simp
    have priced: "priceModel (ri_model input) d = Inr (Some p)" using assms(6) Some by simp
    note run = assms(7) [unfolded reserve_checks [OF assms(1-3) c small priced refl]]
    consider "MAX_ENFORCED_TASKS \<le> ?n" | "\<not> MAX_ENFORCED_TASKS \<le> ?n" "debt_micro c > 0"
      | "\<not> MAX_ENFORCED_TASKS \<le> ?n" "\<not> debt_micro c > 0" "free_credit d ?a < pm_minStart p"
      | "\<not> MAX_ENFORCED_TASKS \<le> ?n" "\<not> debt_micro c > 0" "\<not> free_credit d ?a < pm_minStart p" by blast
    then show ?thesis
    proof cases
      case 1
      with refused_Inr [OF _ c] run Some show ?thesis by (auto simp: order)
    next
      case 2
      with refused_Inr [OF _ c] run Some debt show ?thesis by (auto simp: order)
    next
      case 3
      with refused_Inr [OF _ c] run Some debt show ?thesis by (auto simp: order result_simps)
    next
      case 4
      with run Some debt show ?thesis by (auto simp: order result_simps)
    qed
  qed
qed

theorem reserve_refuses_in_the_published_order_witness:
  "\<exists>x e. reserveEnforce None (example_input ''claude-haiku-4-5'') (example_start_db 700) = Inr (ReserveRefused x, e) \<and>
     rr_reason x = RefusedDebt \<and> e = example_start_db 700"
proof -
  let ?db = "example_start_db 700" and ?in = "example_input ''claude-haiku-4-5''"
  have "map_sum id fst (reserveEnforce None ?in ?db) = Inr (ReserveRefused \<lparr>rr_reason = RefusedDebt, rr_modelRefusal = None,
      rr_debtReason = Some ''plan_change'', rr_debtMicro = 700, rr_availableMicro = 3000000, rr_minStartMicro = Some 3000000,
      rr_openTasks = 0\<rparr>)" by code_simp
  then obtain x e where run: "reserveEnforce None ?in ?db = Inr (ReserveRefused x, e)"
    by (cases "reserveEnforce None ?in ?db") auto
  have acc: "find_account ?db example_account = Some ((fresh_account example_account)\<lparr>debt_micro := 700\<rparr>)"
    by (simp add: find_account_def example_start_db_def example_db_def fresh_account_def)
  have lock: "lockAccount (ri_account ?in) ?db = Inr ((fresh_account example_account)\<lparr>debt_micro := 700\<rparr>, ?db)"
    using acc by (simp add: lockAccount_def Let_def insert_account_def toAccountRecord_def example_input_def fresh_account_def
        safe_int_def MAX_SAFE_def)
  have refresh: "refreshUnderSavepoint None (ri_account ?in) ?db = ?db" by (simp add: refreshUnderSavepoint_def)
  have a: "ri_account ?in = example_account" "ri_model ?in = ''claude-haiku-4-5''" by (simp_all add: example_input_def)
  have debt: "account_debt ?db example_account = 700" by (simp add: account_debt_def acc)
  let ?p = "\<lparr>pm_version = 1, pm_minStart = 3000000, pm_maxReserve = 30000000\<rparr>"
  have "credit_reservations ?db = []" by (simp add: example_start_db_def example_db_def)
  then have "find (refusal_applies ?db example_account (Some ?p)) CREDIT_RESERVE_REFUSAL_ORDER = Some RefusedDebt"
    using debt by (simp add: CREDIT_RESERVE_REFUSAL_ORDER_def refusal_applies_def MAX_ENFORCED_TASKS_def)
  with reserve_refuses_in_the_published_order [OF lock refresh example_start_sys [of 700] _ _ _ run, of "Some ?p"]
    acc debt run a example_start_priced [of 700]
  show ?thesis by (simp add: MAX_SAFE_def)
qed

text \<open>The witness of \<open>at_most_three_open_tasks\<close>.\<close>

theorem at_most_three_open_tasks_witness:
  "openEnforceCount example_account (example_task_db Enforce 100) = Inr 1 \<and>
   length (filter (open_enforce example_account) (credit_reservations (example_task_db Enforce 100))) \<le> 3"
proof -
  have "filter (open_enforce example_account) (credit_reservations (example_task_db Enforce 100)) = [example_reservation Enforce]"
    by (simp add: example_task_db_def open_enforce_def example_reservation_def)
  with at_most_three_open_tasks [OF example_task_sys, of example_account Enforce 100] show ?thesis by simp
qed

end
