(* ===== verification/Task_Calls.thy ===== *)
theory Task_Calls
  imports Task_Start
begin

section \<open>The model calls of a task\<close>

text \<open>
  What admitting, sending and settling one model call guarantee: a call is admitted exactly when its bound fits what its
  task has left, a call is settled once and never for more than its bound, and the committed amount
  of a task stays the sum of what its calls may still cost.
\<close>

subsection \<open>One open task changes its calls\<close>

definition put_calls :: "credit_model_call list \<Rightarrow> db \<Rightarrow> db" where
  "put_calls cs db = db\<lparr>credit_model_calls := cs\<rparr>"

lemma put_calls_simps [simp]:
  "db_now (put_calls cs db) = db_now db" "credit_ledger (put_calls cs db) = credit_ledger db"
  "credit_reservation_holds (put_calls cs db) = credit_reservation_holds db"
  "credit_reservations (put_calls cs db) = credit_reservations db" "credit_model_calls (put_calls cs db) = cs"
  "find_reservation (put_calls cs db) = find_reservation db" "find_account (put_calls cs db) = find_account db"
  "holds_of (put_calls cs db) = holds_of db" "charges_of (put_calls cs db) = charges_of db"
  "calls_of (put_calls cs db) q = filter (\<lambda>c. call_reservation c = q) cs"
  "credit_rate_card_models (put_calls cs db) = credit_rate_card_models db"
  by (simp_all add: put_calls_def calls_of_def)

lemma put_calls_inv [simp]: "db_inv (put_calls cs db) = db_inv db" "hygiene (put_calls cs db) = hygiene db"
  "slots_ok (put_calls cs db) = slots_ok db" "claims_ok (put_calls cs db) = claims_ok db"
proof -
  show "db_inv (put_calls cs db) = db_inv db" by (rule db_inv_cong) (simp_all add: put_calls_def)
  show "hygiene (put_calls cs db) = hygiene db" by (rule hygiene_cong) (simp_all add: put_calls_def)
qed (simp_all add: put_calls_def slots_ok_def claims_ok_def)

definition call_row_ok :: "db \<Rightarrow> credit_model_call \<Rightarrow> bool" where
  "call_row_ok db c \<longleftrightarrow> call_checks c \<and>
     (\<exists>p. find_reservation db (call_reservation c) = Some p \<and> res_account p = call_account c)"

lemma call_rows: "task_rows_ok db \<Longrightarrow> c \<in> set (credit_model_calls db) \<Longrightarrow> call_row_ok db c"
  by (simp add: task_rows_ok_def call_row_ok_def)

lemma find_call_Some: "find_call db i = Some c \<Longrightarrow> c \<in> set (credit_model_calls db) \<and> call_id c = i"
  by (auto simp: find_call_def dest: lookup_by_Some)

text \<open>
  The calls of one open task change, and the row of the task with them. The state stays sound when the
  new rows pass their CHECKs and the committed amount is again what the calls commit.
\<close>

lemma task_calls_change:
  assumes inv: "sys_inv db" and r: "find_reservation db rid = Some r" "res_state r = Open"
    and f: "keeps_terms f" "reservation_checks (f r)"  "res_state (f r) = Open"
    and cs: "distinct (map call_id cs)" "\<And>c. c \<in> set cs \<Longrightarrow> call_row_ok db c"
      "\<And>q. q \<noteq> rid \<Longrightarrow> filter (\<lambda>c. call_reservation c = q) cs = calls_of db q"
      "sum_by call_commits (filter (\<lambda>c. call_reservation c = rid) cs) = committed (f r)"
  shows "sys_inv (put_task rid f (put_calls cs db))"
proof -
  let ?d = "put_calls cs db" and ?e = "put_task rid f (put_calls cs db)"
  note ok = sys_invD [OF inv]
  have rows: "task_rows_ok ?d" using ok(3) cs(1,2) by (simp add: task_rows_ok_def call_row_ok_def)
  have found: "find_reservation ?d rid = Some r" using r(1) by simp
  have keep: "\<And>q. res_id (f q) = res_id q" using f(1) by (simp add: keeps_terms_def)
  have check: "credit_check_reservation ?e q" if "q \<noteq> rid" "find_reservation db q = Some p" for q p
  proof -
    have "credit_check_reservation ?e q = credit_check_reservation db q"
      by (rule check_cong) (use that(1) cs(3) keep in \<open>simp_all add: find_put_task\<close>)
    moreover have "credit_check_reservation db q"
      using ok(5) find_reservation_Some [OF that(2)] by (auto simp: tasks_balanced_def)
    ultimately show ?thesis by simp
  qed
  have own: "credit_check_reservation db rid" "holds_of db rid = holds_of ?e rid"
    using ok(5) find_reservation_Some [OF r(1)] by (auto simp: tasks_balanced_def)
  then have mine: "credit_check_reservation ?e rid"
    using r f cs(4) keep by (simp add: credit_check_reservation_def find_put_task keeps_terms_def)
  have "tasks_balanced ?e"
    unfolding tasks_balanced_def
  proof (rule ballI)
    fix q assume "q \<in> set (credit_reservations ?e)"
    then consider "res_id q \<noteq> rid" "q \<in> set (credit_reservations db)"
      | p where "p \<in> set (credit_reservations db)" "res_id p = rid" "q = f p"
      by (auto simp: put_task_def set_update_where)
    then show "credit_check_reservation ?e (res_id q) \<and> (res_state q = Open \<longrightarrow>
        (\<forall>h\<in>set (holds_of ?e (res_id q)). released_at h = None) \<and> charges_of ?e (res_id q) = [] \<and>
        (\<forall>x\<in>set (credit_ledger ?e). \<not> task_key (res_id q) (idempotency_key x)))"
    proof cases
      case 1
      with check ok(5) find_reservation_member [OF ok(3) 1(2)] show ?thesis by (simp add: tasks_balanced_def)
    next
      case 2
      then have "p = r" using find_reservation_member [OF ok(3) 2(1)] r(1) by simp
      with 2 mine ok(5) keep r(2) show ?thesis by (auto simp: tasks_balanced_def)
    qed
  qed
  moreover have "slots_ok ?e" by (rule put_task_slots) (use ok(4) f(1) in simp_all)
  moreover have "task_rows_ok ?e" by (rule put_task_rows [OF rows found f(1,2)])
  ultimately show ?thesis using ok by (simp add: sys_inv_def task_inv_def)
qed

text \<open>A transaction that moves no money commits when its state is sound.\<close>

lemma commit_quiet:
  assumes "sys_inv e" "credit_ledger e = credit_ledger db" "credit_reservation_holds e = credit_reservation_holds db"
  shows "commit_checks db e"
proof -
  have "touched_accounts db e = []" using assms(2,3) by (simp add: touched_accounts_def new_rows_def)
  then show ?thesis by (intro commit_sys_inv [OF assms(1)]) simp
qed

lemma transaction_quiet:
  assumes "body db = Inr (x, e)" "sys_inv e" "credit_ledger e = credit_ledger db"
    "credit_reservation_holds e = credit_reservation_holds db"
  shows "transaction body db = Inr (x, e)"
  using assms commit_quiet by (simp add: transaction_def)

lemma transaction_read: "body db = Inr (x, db) \<Longrightarrow> transaction body db = Inr (x, db)"
  by (simp add: transaction_def commit_same)

subsection \<open>Admitting a call\<close>

text \<open>What the service is handed: a fresh id, a bound as \<open>callUpperBound\<close> returns it, numbers JavaScript can hold.\<close>

definition bound_ok :: "CreditCallBound \<Rightarrow> bool" where
  "bound_ok b \<longleftrightarrow> cb_inputBoundTokens b > 0 \<and> cb_maxOutputTokens b > 0 \<and> cb_inputBoundMicro b > 0 \<and>
     cb_inputBoundMicro b < cb_boundMicro b"

definition call_input_ok :: "db \<Rightarrow> credit_reservation \<Rightarrow> CreditCallBound \<Rightarrow> uuid \<Rightarrow> bool" where
  "call_input_ok db r b cid \<longleftrightarrow> bound_ok b \<and> find_call db cid = None \<and>
     (if res_mode r = Shadow then committed r + cb_boundMicro b \<le> MAX_SAFE else True)"

definition admitted_db :: "db \<Rightarrow> credit_reservation \<Rightarrow> call_purpose \<Rightarrow> CreditCallBound \<Rightarrow> uuid \<Rightarrow> db" where
  "admitted_db db r purpose b cid =
     put_task (res_id r) (commit_row (cb_boundMicro b) (db_now db)) (put_calls (credit_model_calls db @
       [new_call cid (res_id r) (res_account r) purpose (res_model r) b
          (res_mode r = Shadow \<and> committed r + cb_boundMicro b > reserved r) (next_seq db (res_id r))]) db)"

lemma keeps_terms_commit: "keeps_terms (commit_row x t)"
  by (simp add: keeps_terms_def commit_row_def)

lemma next_seq_pos: "1 \<le> next_seq db rid"
proof -
  have "x \<le> fold (\<lambda>c n. max n (call_seq c)) cs x" for cs and x :: int
  proof (induction cs arbitrary: x)
    case (Cons c cs)
    from Cons [of "max x (call_seq c)"] show ?case by simp
  qed simp
  from this [of 0] show ?thesis by (simp add: next_seq_def)
qed

lemma reservation_checksD:
  assumes "reservation_checks r"
  shows "0 \<le> committed r" "0 \<le> reserved r" "res_mode r = Shadow \<or> committed r \<le> reserved r"
    "res_mode r = Shadow \<or> would_refuse_reason r = None"
  using assms by (simp_all only: reservation_checks_def) linarith+

lemma commit_checks_row:
  assumes "reservation_checks r" "0 < x" "res_mode r = Shadow \<or> committed r + x \<le> reserved r"
  shows "reservation_checks (commit_row x t r)"
proof -
  have c: "0 \<le> committed r + x" using reservation_checksD(1) [OF assms(1)] assms(2) by linarith
  have w: "(if res_mode r = Shadow \<and> would_refuse_reason r = None \<and> committed r + x > reserved r
      then Some WouldCallDidNotFit else would_refuse_reason r) = would_refuse_reason r \<or>
    res_mode r = Shadow \<and> would_refuse_reason r = None" (is "?w = _ \<or> _") by simp
  have "reserved r = 0 \<longrightarrow> would_refuse_reason r = Some WouldModel"
    using assms(1) unfolding reservation_checks_def by linarith
  then have "?w = would_refuse_reason r \<or> res_mode r = Shadow \<and> would_refuse_reason r = None \<and> 0 < reserved r"
    using reservation_checksD(2) [OF assms(1)] by (cases "reserved r = 0") auto
  then show ?thesis
    using assms(1,3) c unfolding reservation_checks_def commit_row_def by (elim disjE) (simp_all cong: option.case_cong)
qed

lemma new_call_simps [simp]:
  "call_id (new_call cid rid a p m b ov n) = cid" "call_reservation (new_call cid rid a p m b ov n) = rid"
  "call_account (new_call cid rid a p m b ov n) = a" "call_commits (new_call cid rid a p m b ov n) = cb_boundMicro b"
  by (simp_all add: new_call_def call_commits_def)

lemma new_call_checks: "bound_ok b \<Longrightarrow> 1 \<le> n \<Longrightarrow> call_checks (new_call cid rid a p m b ov n)"
  by (simp add: call_checks_def new_call_def bound_ok_def)

lemma admitted_sys_inv:
  assumes inv: "sys_inv db" and r: "find_reservation db rid = Some r" "may_commit rid m (cb_boundMicro b) (db_now db) r"
    and input: "call_input_ok db r b cid"
  shows "sys_inv (admitted_db db r purpose b cid)"
proof -
  note ok = sys_invD [OF inv]
  have b: "bound_ok b" and new: "find_call db cid = None" using input by (simp_all add: call_input_ok_def)
  have pos: "0 < cb_boundMicro b" using b unfolding bound_ok_def by linarith
  have id: "res_id r = rid" and "open": "res_state r = Open" and fits: "res_mode r = Shadow \<or> committed r + cb_boundMicro b \<le> reserved r"
    using r(2) by (simp_all add: may_commit_def)
  have rc: "reservation_checks r" using ok(3) find_reservation_Some [OF r(1)] by (auto simp: task_rows_ok_def)
  have check: "credit_check_reservation db rid" using ok(5) find_reservation_Some [OF r(1)] by (auto simp: tasks_balanced_def)
  show ?thesis
    unfolding admitted_db_def id
  proof (rule task_calls_change [OF inv r(1) "open" keeps_terms_commit commit_checks_row [OF rc pos fits]], goal_cases)
    case 1
    then show ?case using "open" by (simp add: commit_row_def)
  next
    case 2
    have "cid \<notin> set (map call_id (credit_model_calls db))" using new by (simp add: find_call_def lookup_by_None)
    with ok(3) show ?case by (simp add: task_rows_ok_def)
  next
    case (3 c)
    then show ?case
      using call_rows [OF ok(3)] new_call_checks [OF b next_seq_pos] r(1) by (auto simp: call_row_ok_def)
  next
    case (4 q)
    then show ?case by (simp add: calls_of_def)
  next
    case 5
    then show ?case using check r(1) by (simp add: credit_check_reservation_def calls_of_def commit_row_def)
  qed
qed

lemma update_one_task:
  assumes "task_rows_ok db" "find_reservation db rid = Some r" "\<And>q. P q \<Longrightarrow> res_id q = rid" "reservation_checks (f r)"
  shows "update_reservations P f db = (if P r then Inr ([f r], put_task rid f db) else Inr ([], db))"
proof -
  have d: "distinct (map res_id (credit_reservations db))" using assms(1) by (simp add: task_rows_ok_def)
  have l: "lookup_by res_id rid (credit_reservations db) = Some r" using assms(2) by (simp add: find_reservation_def)
  have rows: "filter P (credit_reservations db) = (if P r then [r] else [])" by (rule filter_by_key [OF d l assms(3)])
  show ?thesis
  proof (cases "P r")
    case True
    have "update_where P f (credit_reservations db) = update_where (\<lambda>q. res_id q = rid) f (credit_reservations db)"
    proof (rule update_where_cong)
      fix q assume "q \<in> set (credit_reservations db)"
      then have "res_id q = rid \<Longrightarrow> q = r" using lookup_by_member [OF d] l by fastforce
      with True show "P q = (res_id q = rid)" using assms(3) by blast
    qed
    with rows True assms(4) show ?thesis unfolding update_reservations_def put_task_def by simp
  next
    case False
    then have none: "filter P (credit_reservations db) = []" using rows by simp
    have "\<not> P q" if "q \<in> set (credit_reservations db)" for q
      using none that unfolding filter_empty_conv by blast
    then have "update_where P f (credit_reservations db) = credit_reservations db" by (rule update_where_idle)
    with none False show ?thesis unfolding update_reservations_def by simp
  qed
qed

lemma commit_effect:
  assumes inv: "sys_inv db" and r: "find_reservation db rid = Some r" and x: "0 < x"
    and safe: "if res_mode r = Shadow then committed r + x \<le> MAX_SAFE else True"
  shows "commitCallBound rid m x db =
    (if may_commit rid m x (db_now db) r
     then Inr (Some \<lparr>ccb_account = res_account r, ccb_mode = res_mode r, ccb_card = res_card r,
         ccb_leftMicro = reserved r - (committed r + x),
         ccb_overReservation = (res_mode r = Shadow \<and> committed r + x > reserved r)\<rparr>,
       put_task rid (commit_row x (db_now db)) db)
     else Inr (None, db))"
proof (cases "may_commit rid m x (db_now db) r")
  case True
  have ok: "task_rows_ok db" and rc: "reservation_checks r" "reserved r \<le> MAX_SAFE" "safe_int (res_card r)"
    using sys_invD(3) [OF inv] find_reservation_Some [OF r] by (auto simp: task_rows_ok_def)
  have fits: "res_mode r = Shadow \<or> committed r + x \<le> reserved r" using True by (simp add: may_commit_def)
  have "0 \<le> reserved r" "0 \<le> committed r" using rc(1) unfolding reservation_checks_def by linarith+
  with fits safe rc(2) x have "safe_int (reserved r - (committed r + x))"
    by (auto simp: safe_int_def MAX_SAFE_def split: if_splits)
  moreover have "update_reservations (may_commit rid m x (db_now db)) (commit_row x (db_now db)) db =
      Inr ([commit_row x (db_now db) r], put_task rid (commit_row x (db_now db)) db)"
    using update_one_task [where P = "may_commit rid m x (db_now db)" and f = "commit_row x (db_now db)",
        OF ok r _ commit_checks_row [OF rc(1) x fits]] True by (simp add: may_commit_def)
  ultimately show ?thesis using True rc(3) by (simp add: commitCallBound_def commit_row_def)
next
  case False
  have "filter (may_commit rid m x (db_now db)) (credit_reservations db) = []"
  proof -
    have "q = r" if "q \<in> set (credit_reservations db)" "res_id q = rid" for q
      using find_reservation_member [OF sys_invD(3) [OF inv] that(1)] that(2) r by simp
    with False show ?thesis by (auto simp: filter_empty_conv may_commit_def)
  qed
  moreover from this have "update_where (may_commit rid m x (db_now db)) f (credit_reservations db) = credit_reservations db" for f
    by (intro update_where_idle) (auto simp: filter_empty_conv)
  ultimately show ?thesis using False by (simp add: commitCallBound_def update_reservations_def)
qed

lemma insert_call_effect:
  assumes "bound_ok b" "find_call db cid = None" "call_row_fits (next_seq db rid) b"
    "list_ex (\<lambda>r. res_id r = rid \<and> res_account r = a) (credit_reservations db)"
  shows "insertModelCall cid rid a purpose m b ov db =
    Inr ((cid, next_seq db rid), put_calls (credit_model_calls db @ [new_call cid rid a purpose m b ov (next_seq db rid)]) db)"
proof -
  have "safe_int (next_seq db rid)"
    using next_seq_pos [of db rid] assms(3) by (simp add: call_row_fits_def int4_def safe_int_def MAX_SAFE_def)
  then show ?thesis
    using assms new_call_checks [OF assms(1) next_seq_pos] by (simp add: insertModelCall_def Let_def put_calls_def)
qed

lemma insert_call_refused:
  "\<not> call_row_fits (next_seq db rid) b \<Longrightarrow> insertModelCall cid rid a purpose m b ov db = Inl (SqlError 22003)"
  by (simp add: insertModelCall_def Let_def)

definition admission_refusal :: "db \<Rightarrow> credit_reservation \<Rightarrow> string \<Rightarrow> CreditAdmissionRefusal" where
  "admission_refusal db r model =
     (if res_state r = Settled then TaskSettled else if db_now db \<ge> max_until r then PastMaxAge
      else if res_model r \<noteq> model then OtherModel else DidNotFit)"

lemma admit_effect:
  assumes inv: "sys_inv db" and r: "find_reservation db rid = Some r" and new: "call_input_ok db r b cid"
    and small: "committed r \<le> MAX_SAFE"
    and fits: "may_commit rid model (cb_boundMicro b) (db_now db) r \<Longrightarrow> call_row_fits (next_seq db rid) b"
  shows "admitCall rid purpose model b cid db =
    (if may_commit rid model (cb_boundMicro b) (db_now db) r
     then Inr (Admitted cid (next_seq db rid) (res_mode r) (reserved r - (committed r + cb_boundMicro b))
         (res_mode r = Shadow \<and> committed r + cb_boundMicro b > reserved r), admitted_db db r purpose b cid)
     else Inr (AdmitRefused (admission_refusal db r model) (reserved r - committed r), db))"
proof -
  let ?x = "cb_boundMicro b"
  note ok = sys_invD [OF inv]
  have id: "res_id r = rid" and mem: "r \<in> set (credit_reservations db)" using find_reservation_Some [OF r] by auto
  have rc: "reservation_checks r" "reserved r \<le> MAX_SAFE" using ok(3) mem by (auto simp: task_rows_ok_def)
  have input: "bound_ok b" "find_call db cid = None"
    "if res_mode r = Shadow then committed r + ?x \<le> MAX_SAFE else True"
    using new id by (simp_all add: call_input_ok_def)
  have x: "0 < ?x" using input(1) unfolding bound_ok_def by linarith
  note commit = commit_effect [OF inv r x input(3), of model]
  show ?thesis
  proof (cases "may_commit rid model ?x (db_now db) r")
    case True
    then have m: "res_model r = model" by (simp add: may_commit_def)
    note sound = admitted_sys_inv [OF inv r True new, of purpose]
    let ?d = "put_task rid (commit_row ?x (db_now db)) db"
    have found: "find_reservation ?d rid = Some (commit_row ?x (db_now db) r)"
      using r by (simp add: find_put_task commit_row_def)
    have "commit_row ?x (db_now db) r \<in> set (credit_reservations ?d)" using find_reservation_Some [OF found] by simp
    then have fk: "list_ex (\<lambda>q. res_id q = rid \<and> res_account q = res_account r) (credit_reservations ?d)"
      unfolding list_ex_iff using id by (intro bexI) (simp_all add: commit_row_def)
    have seq: "next_seq ?d rid = next_seq db rid" by (simp add: next_seq_def)
    have "put_calls cs ?d = put_task rid (commit_row ?x (db_now db)) (put_calls cs db)" for cs
      by (simp add: put_task_def put_calls_def)
    then have body: "admitCallIn rid purpose model b cid db =
        Inr (Admitted cid (next_seq db rid) (res_mode r) (reserved r - (committed r + ?x))
          (res_mode r = Shadow \<and> committed r + ?x > reserved r), admitted_db db r purpose b cid)"
      using commit True insert_call_effect [of b ?d cid rid "res_account r" purpose model, OF input(1) _ _ fk] fits [OF True] input m id seq
      by (simp add: admitCallIn_def admitted_db_def)
    have "admitCall rid purpose model b cid db = admitCallIn rid purpose model b cid db"
      unfolding admitCall_def body by (rule transaction_quiet [where body = "admitCallIn rid purpose model b cid", OF body sound])
        (simp_all add: admitted_db_def)
    then show ?thesis using True body by simp
  next
    case False
    have "safe_int (reserved r - committed r)"
      using reservation_checksD(1,2) [OF rc(1)] rc(2) small by (simp add: safe_int_def)
    then have "admitCallIn rid purpose model b cid db =
        Inr (AdmitRefused (admission_refusal db r model) (reserved r - committed r), db)"
      using commit False r by (simp add: admitCallIn_def admissionRefusal_def admission_refusal_def)
    then show ?thesis using False unfolding admitCall_def by (simp add: transaction_read)
  qed
qed

text \<open>A call whose number or token bounds no \<^verbatim>\<open>integer\<close> column can hold is refused by the \<^verbatim>\<open>INSERT\<close>.\<close>

lemma admit_out_of_range:
  assumes inv: "sys_inv db" and r: "find_reservation db rid = Some r" and new: "call_input_ok db r b cid"
    and may: "may_commit rid model (cb_boundMicro b) (db_now db) r" and wide: "\<not> call_row_fits (next_seq db rid) b"
  shows "admitCall rid purpose model b cid db = Inl (SqlError 22003)"
proof -
  have x: "0 < cb_boundMicro b" "if res_mode r = Shadow then committed r + cb_boundMicro b \<le> MAX_SAFE else True"
    using new unfolding call_input_ok_def bound_ok_def by linarith+
  have "next_seq (put_task rid (commit_row (cb_boundMicro b) (db_now db)) db) rid = next_seq db rid"
    by (simp add: next_seq_def)
  with wide have "admitCallIn rid purpose model b cid db = Inl (SqlError 22003)"
    using commit_effect [OF inv r x, of model] may find_reservation_Some [OF r]
    by (simp add: admitCallIn_def insert_call_refused)
  then show ?thesis by (simp add: admitCall_def transaction_def)
qed

lemma admit_ran:
  assumes "sys_inv db" "find_reservation db rid = Some r" "call_input_ok db r b cid" "committed r \<le> MAX_SAFE"
    and run: "admitCall rid purpose model b cid db = Inr (out, e)"
  shows "e = (if may_commit rid model (cb_boundMicro b) (db_now db) r then admitted_db db r purpose b cid else db)"
proof -
  have "may_commit rid model (cb_boundMicro b) (db_now db) r \<Longrightarrow> call_row_fits (next_seq db rid) b"
    using admit_out_of_range [OF assms(1-3), of model purpose] run by auto
  from admit_effect [OF assms(1-4) this, of model purpose] run show ?thesis by auto
qed

text \<open>C8: a call is admitted exactly when it fits. On a sound state \<open>admitCall\<close> admits the call when the task is
  open, not past its maximum age and running the same model and, if it is enforced, the bound fits
  what is reserved and not yet committed. Then exactly the bound is committed, the call is the last
  of the task's calls, an enforced task has still committed no more than it reserved, and the state
  is sound. Otherwise nothing is written, and the reason is the first that applies. The one fault is a call
  the table's \<^verbatim>\<open>integer\<close> columns cannot hold, its number within the task or its token bounds: the database
  refuses it with 22003 and the transaction rolls back.\<close>
theorem admitCall_admits_exactly_what_fits:
  assumes "sys_inv db" and "find_reservation db rid = Some r" and "call_input_ok db r b cid"
    and "committed r \<le> MAX_SAFE"
  shows "if may_commit rid model (cb_boundMicro b) (db_now db) r
    then if call_row_fits (next_seq db rid) b
      then admitCall rid purpose model b cid db =
          Inr (Admitted cid (next_seq db rid) (res_mode r) (reserved r - (committed r + cb_boundMicro b))
            (res_mode r = Shadow \<and> committed r + cb_boundMicro b > reserved r), admitted_db db r purpose b cid) \<and>
        sys_inv (admitted_db db r purpose b cid) \<and>
        find_reservation (admitted_db db r purpose b cid) rid = Some (commit_row (cb_boundMicro b) (db_now db) r) \<and>
        (res_mode r = Enforce \<longrightarrow> committed r + cb_boundMicro b \<le> reserved r)
      else admitCall rid purpose model b cid db = Inl (SqlError 22003)
    else admitCall rid purpose model b cid db =
      Inr (AdmitRefused (admission_refusal db r model) (reserved r - committed r), db)"
proof -
  have id: "res_id r = rid" using find_reservation_Some [OF assms(2)] by simp
  then have "find_reservation (admitted_db db r purpose b cid) rid = Some (commit_row (cb_boundMicro b) (db_now db) r)"
    using assms(2) by (simp add: admitted_db_def find_put_task commit_row_def)
  then show ?thesis
    using admit_effect [OF assms, of model purpose] admit_out_of_range [OF assms(1-3), of model purpose]
      admitted_sys_inv [OF assms(1,2) _ assms(3)] by (auto simp: may_commit_def)
qed

text \<open>The example: the task of \<open>example_task_db\<close>, which holds 1500000 and has committed 500000 to its calls.\<close>

definition example_bound :: "int \<Rightarrow> CreditCallBound" where
  "example_bound x = \<lparr>cb_inputBoundTokens = 10, cb_inputBoundMicro = 20, cb_maxOutputTokens = 30, cb_boundMicro = x, cb_basis = RegionBytes\<rparr>"

theorem admitCall_admits_exactly_what_fits_witness:
  "(\<exists>db'. admitCall example_task Plan ''claude-sonnet-5'' (example_bound 1000000) example_lot (example_task_db Enforce 100) =
      Inr (Admitted example_lot 3 Enforce 0 False, db') \<and> sys_inv db') \<and>
   admitCall example_task Plan ''claude-sonnet-5'' (example_bound 1000001) example_lot (example_task_db Enforce 100) =
     Inr (AdmitRefused DidNotFit 1000000, example_task_db Enforce 100)"
proof -
  let ?db = "example_task_db Enforce 100"
  have seq: "next_seq ?db example_task = 3"
    by (simp add: next_seq_def calls_of_def task_example_simps)
  have input: "call_input_ok ?db (example_reservation Enforce) (example_bound x) example_lot" if "20 < x" for x
    using seq that
    by (simp add: call_input_ok_def bound_ok_def example_bound_def example_reservation_def)
      (simp add: find_call_def task_example_simps)
  have fits: "call_row_fits 3 (example_bound x)" for x by (simp add: call_row_fits_def int4_def example_bound_def)
  have small: "committed (example_reservation Enforce) \<le> MAX_SAFE" by (simp add: example_reservation_def MAX_SAFE_def)
  note law = admitCall_admits_exactly_what_fits [OF example_task_sys example_task_found input small,
      where purpose = Plan and model = "''claude-sonnet-5''"]
  have now: "db_now ?db = 100" by (simp add: example_task_db_def)
  from law [of 1000000] law [of 1000001] show ?thesis
    using seq now fits by (auto simp: may_commit_def admission_refusal_def example_reservation_def example_bound_def)
qed

subsection \<open>Sending and settling a call\<close>

interpretation call_sent: row_update call_id "\<lambda>(_ :: unit). mark_sent_row"
  by unfold_locales (simp add: mark_sent_row_def)

interpretation call_settled: row_update call_id "\<lambda>(b, s, u, t). settle_call_row b s u t"
  by unfold_locales (auto simp: settle_call_row_def)

lemma filter_update_where:
  "(\<And>r. r \<in> set rs \<Longrightarrow> P r \<Longrightarrow> \<not> Q r \<and> \<not> Q (f r)) \<Longrightarrow> filter Q (update_where P f rs) = filter Q rs"
  by (induction rs) auto

lemma sum_filter_update:
  assumes "distinct (map key rs)" "lookup_by key k rs = Some r" "Q r" "Q (f r)" "\<And>q. key (f q) = key q"
  shows "sum_by g (filter Q (update_where (\<lambda>q. key q = k) f rs)) = sum_by g (filter Q rs) - g r + g (f r)"
proof -
  have "row_update key (\<lambda>(_ :: unit). f)" by unfold_locales (rule assms(5))
  from row_update.sum [OF this assms(1,2), where f = "\<lambda>q. if Q q then g q else 0"] assms(3,4)
  show ?thesis by (simp add: sum_by_filter_if)
qed

text \<open>
  An update of one open call of an open task, which keeps whose it is, keeps the rows sound, and changes
  the committed amount by what the call now commits.
\<close>

definition keeps_owner :: "(credit_model_call \<Rightarrow> credit_model_call) \<Rightarrow> bool" where
  "keeps_owner g \<longleftrightarrow> (\<forall>q. call_id (g q) = call_id q \<and> call_reservation (g q) = call_reservation q \<and>
     call_account (g q) = call_account q)"

lemma call_change_rows:
  assumes ok: "task_rows_ok db" and c: "find_call db cid = Some c" and g: "keeps_owner g" "call_checks (g c)"
  defines "cs \<equiv> update_where (\<lambda>q. call_id q = cid) g (credit_model_calls db)"
  shows "distinct (map call_id cs)" "\<And>q. q \<in> set cs \<Longrightarrow> call_row_ok db q" "task_rows_ok (put_calls cs db)"
proof -
  have d: "distinct (map call_id (credit_model_calls db))" using ok by (simp add: task_rows_ok_def)
  have l: "lookup_by call_id cid (credit_model_calls db) = Some c" using c by (simp add: find_call_def)
  have "map call_id (update_where P g cs) = map call_id cs" for P cs
    using g(1) by (induction cs) (auto simp: keeps_owner_def)
  then show "distinct (map call_id cs)" using d by (simp add: cs_def)
  show rows: "call_row_ok db q" if "q \<in> set cs" for q
  proof -
    from that consider "q \<in> set (credit_model_calls db)" | p where "p \<in> set (credit_model_calls db)" "call_id p = cid" "q = g p"
      by (auto simp: cs_def set_update_where)
    then show ?thesis
    proof cases
      case 2
      then have "p = c" using lookup_by_member [OF d 2(1)] l by simp
      moreover have "call_row_ok db p" using call_rows [OF ok 2(1)] .
      ultimately show ?thesis using 2(3) g by (simp add: call_row_ok_def keeps_owner_def)
    qed (rule call_rows [OF ok])
  qed
  from \<open>distinct (map call_id cs)\<close> rows ok show "task_rows_ok (put_calls cs db)" by (simp add: task_rows_ok_def call_row_ok_def)
qed

lemma call_change:
  assumes inv: "sys_inv db" and c: "find_call db cid = Some c" and r: "find_reservation db (call_reservation c) = Some r" "res_state r = Open"
    and g: "keeps_owner g" "call_checks (g c)"
    and f: "keeps_terms f" "reservation_checks (f r)" "res_state (f r) = Open"
      "committed (f r) = committed r - call_commits c + call_commits (g c)"
  shows "sys_inv (put_task (call_reservation c) f (put_calls (update_where (\<lambda>q. call_id q = cid) g (credit_model_calls db)) db))"
proof -
  note ok = sys_invD [OF inv] and rows = call_change_rows [where g = g, OF sys_invD(3) [OF inv] c g]
  have d: "distinct (map call_id (credit_model_calls db))" using ok(3) by (simp add: task_rows_ok_def)
  have l: "lookup_by call_id cid (credit_model_calls db) = Some c" using c by (simp add: find_call_def)
  have one: "q = c" if "q \<in> set (credit_model_calls db)" "call_id q = cid" for q
    using lookup_by_member [OF d that(1)] that(2) l by simp
  have check: "credit_check_reservation db (call_reservation c)"
    using ok(5) find_reservation_Some [OF r(1)] by (auto simp: tasks_balanced_def)
  show ?thesis
  proof (rule task_calls_change [OF inv r f(1-3) rows(1,2)], goal_cases)
    case (2 q)
    then show ?case unfolding calls_of_def using one g(1) by (intro filter_update_where) (auto simp: keeps_owner_def)
  next
    case 3
    have "sum_by call_commits (calls_of db (call_reservation c)) = committed r"
      using check r(1) by (simp add: credit_check_reservation_def)
    then show ?case
      using f(4) sum_filter_update [OF d l, where Q = "\<lambda>q. call_reservation q = call_reservation c" and f = g and g = call_commits] g
      by (simp add: calls_of_def keeps_owner_def)
  qed
qed

lemma update_one_call:
  assumes "task_rows_ok db" "find_call db cid = Some c" "call_checks (g c)"
  shows "update_calls (started_call cid) g db =
    (if call_state c = Started
     then Inr ([g c], put_calls (update_where (\<lambda>q. call_id q = cid) g (credit_model_calls db)) db) else Inr ([], db))"
proof -
  have d: "distinct (map call_id (credit_model_calls db))" using assms(1) by (simp add: task_rows_ok_def)
  have l: "lookup_by call_id cid (credit_model_calls db) = Some c" using assms(2) by (simp add: find_call_def)
  have id: "call_id c = cid" using find_call_Some [OF assms(2)] by simp
  have one: "q = c" if "q \<in> set (credit_model_calls db)" "call_id q = cid" for q
    using lookup_by_member [OF d that(1)] that(2) l by simp
  have rows: "filter (started_call cid) (credit_model_calls db) = (if call_state c = Started then [c] else [])"
    using filter_by_key [OF d l, of "started_call cid"] id by (simp add: started_call_def)
  have "update_where (started_call cid) g (credit_model_calls db) =
      (if call_state c = Started then update_where (\<lambda>q. call_id q = cid) g (credit_model_calls db) else credit_model_calls db)"
    using one by (auto simp: started_call_def intro!: update_where_cong update_where_idle)
  with rows assms(3) show ?thesis by (simp add: update_calls_def put_calls_def)
qed

lemma started_task_open:
  assumes "sys_inv db" "find_call db cid = Some c" "call_state c = Started" "find_reservation db (call_reservation c) = Some r"
  shows "res_state r = Open"
proof -
  note ok = sys_invD [OF assms(1)]
  have check: "credit_check_reservation db (call_reservation c)"
    using ok(5) find_reservation_Some [OF assms(4)] by (auto simp: tasks_balanced_def)
  have "c \<in> set (calls_of db (call_reservation c))" using find_call_Some [OF assms(2)] by (simp add: calls_of_def)
  then have "list_ex (\<lambda>c. call_state c = Started) (calls_of db (call_reservation c))" using assms(3) by (auto simp: list_ex_iff)
  with check assms(4) show ?thesis by (cases "res_state r") (auto simp: credit_check_reservation_def)
qed

lemma call_commits_bounds:
  assumes "sys_inv db" "find_call db cid = Some c" "find_reservation db (call_reservation c) = Some r"
  shows "0 \<le> call_commits c" "call_commits c \<le> committed r"
proof -
  note ok = sys_invD [OF assms(1)]
  have "credit_check_reservation db (call_reservation c)"
    using ok(5) find_reservation_Some [OF assms(3)] by (auto simp: tasks_balanced_def)
  then have sum: "sum_by call_commits (calls_of db (call_reservation c)) = committed r"
    using assms(3) by (simp add: credit_check_reservation_def)
  have pos: "0 \<le> call_commits q" if "q \<in> set (credit_model_calls db)" for q
  proof -
    have "call_checks q" using ok(3) that by (simp add: task_rows_ok_def)
    from call_amounts [OF this] show ?thesis by linarith
  qed
  have c: "c \<in> set (credit_model_calls db)" using find_call_Some [OF assms(2)] by simp
  from pos [OF c] show "0 \<le> call_commits c" .
  have "call_commits c \<le> sum_by call_commits (calls_of db (call_reservation c))"
    by (rule sum_by_member_le) (use c pos in \<open>auto simp: calls_of_def\<close>)
  with sum show "call_commits c \<le> committed r" by simp
qed

lemma put_task_id [simp]: "put_task rid (\<lambda>r. r) db = db"
  by (simp add: put_task_def update_where_id)

lemma sent_effect:
  assumes inv: "sys_inv db" and c: "find_call db cid = Some c"
  shows "\<exists>e. markSent cid db = Inr (call_state c = Started, e) \<and> sys_inv e \<and>
    credit_reservations e = credit_reservations db \<and> credit_ledger e = credit_ledger db \<and>
    credit_model_calls e = (if call_state c = Started
      then update_where (\<lambda>q. call_id q = cid) mark_sent_row (credit_model_calls db) else credit_model_calls db)"
proof -
  note ok = sys_invD [OF inv]
  have mem: "c \<in> set (credit_model_calls db)" using find_call_Some [OF c] by simp
  have checks: "call_checks c" using ok(3) mem by (simp add: task_rows_ok_def)
  obtain r where r: "find_reservation db (call_reservation c) = Some r"
    using call_rows [OF ok(3) mem] by (auto simp: call_row_ok_def)
  have rc: "reservation_checks r" using ok(3) find_reservation_Some [OF r] by (auto simp: task_rows_ok_def)
  show ?thesis
  proof (cases "call_state c = Started")
    case True
    note "open" = started_task_open [OF inv c True r]
    have new: "call_checks (mark_sent_row c)" using checks True by (simp add: call_checks_def mark_sent_row_def)
    let ?e = "put_calls (update_where (\<lambda>q. call_id q = cid) mark_sent_row (credit_model_calls db)) db"
    have keep: "keeps_terms (\<lambda>q. q)" by (simp add: keeps_terms_def)
    have inv': "sys_inv ?e"
      using call_change [where f = "\<lambda>q. q" and g = mark_sent_row, OF inv c r "open" _ new keep rc "open"] by (simp add: mark_sent_row_def call_commits_def keeps_owner_def)
    have body: "markCallSent cid db = Inr (True, ?e)"
      using update_one_call [where g = mark_sent_row, OF ok(3) c new] True by (simp add: markCallSent_def)
    have "markSent cid db = Inr (True, ?e)"
      unfolding markSent_def by (rule transaction_quiet [where body = "markCallSent cid", OF body inv']) simp_all
    then show ?thesis using inv' True by (intro exI [of _ ?e]) simp
  next
    case False
    have d: "distinct (map call_id (credit_model_calls db))" using ok(3) by (simp add: task_rows_ok_def)
    have l: "lookup_by call_id cid (credit_model_calls db) = Some c" using c by (simp add: find_call_def)
    have none: "\<not> started_call cid q" if "q \<in> set (credit_model_calls db)" for q
      using lookup_by_member [OF d that] l False by (auto simp: started_call_def)
    then have "filter (started_call cid) (credit_model_calls db) = []" by (simp add: filter_empty_conv)
    moreover have "update_where (started_call cid) mark_sent_row (credit_model_calls db) = credit_model_calls db"
      using none by (rule update_where_idle)
    ultimately have "markCallSent cid db = Inr (False, db)" by (simp add: markCallSent_def update_calls_def)
    then show ?thesis using inv False by (simp add: markSent_def transaction_read)
  qed
qed

lemma move_is_set: "move_committed d r = set_committed (committed r + d) r"
  by (simp add: move_committed_def set_committed_def)

lemma settled_charge_checks:
  assumes "callSettlement (basisTheRowAgreesWith asked was_sent) bound maxOut rates usage = Inr s"
  shows "charge_checks (basisTheRowAgreesWith asked was_sent) was_sent bound (st_chargedMicro s)"
    and "\<not> was_sent \<Longrightarrow> st_chargedMicro s = 0" and "safe_int bound" "safe_int maxOut"
proof -
  show "charge_checks (basisTheRowAgreesWith asked was_sent) was_sent bound (st_chargedMicro s)"
    using settlement_charge [OF assms]
    by (cases asked; cases was_sent) (simp_all add: basisTheRowAgreesWith_def FREE_SETTLE_BASES_def charge_checks_def)
  show "\<not> was_sent \<Longrightarrow> st_chargedMicro s = 0"
    using settlement_charge [OF assms] by (cases asked) (simp_all add: basisTheRowAgreesWith_def FREE_SETTLE_BASES_def)
  have "0 \<le> bound" "bound \<le> MAX_SAFE" "0 \<le> maxOut" "maxOut \<le> MAX_SAFE"
    using assms by (simp_all add: callSettlement_def rbind_eq_Inr requireNonNegativeSafeInteger_Inr)
  then show "safe_int bound" "safe_int maxOut" by (simp_all add: safe_int_def)
qed

definition settled_call_db :: "db \<Rightarrow> credit_model_call \<Rightarrow> settle_basis \<Rightarrow> CallSettlement \<Rightarrow> uuid option \<Rightarrow> db" where
  "settled_call_db db c b s record =
     put_task (call_reservation c) (move_committed (st_chargedMicro s - bound_micro c))
       (put_calls (update_where (\<lambda>q. call_id q = call_id c) (settle_call_row b s record (db_now db)) (credit_model_calls db)) db)"

lemma lock_started_call:
  assumes inv: "sys_inv db" and c: "find_call db cid = Some c" and r: "find_reservation db (call_reservation c) = Some r"
    and "call_state c = Started"
    and s: "callSettlement (basisTheRowAgreesWith asked (sent c)) (bound_micro c) (max_output_tokens c) rates usage = Inr s"
  shows "lockCallForSettlement cid db = Inr (Some (c, r))"
proof -
  have "call_checks c" "safe_int (res_card r)"
    using sys_invD(3) [OF inv] find_call_Some [OF c] find_reservation_Some [OF r] by (auto simp: task_rows_ok_def)
  with assms(2-4) settled_charge_checks(3,4) [OF s] show ?thesis by (auto simp: lockCallForSettlement_def call_checks_def)
qed

text \<open>Usage the \<^verbatim>\<open>integer\<close> columns cannot hold is refused.\<close>

lemma settle_call_out_of_range:
  assumes "sys_inv db" and "find_call db cid = Some c" and "find_reservation db (call_reservation c) = Some r"
    and "call_state c = Started" and "modelRow (res_card r) (call_model c) db = Inr (Some rates)"
    and "callSettlement (basisTheRowAgreesWith asked (sent c)) (bound_micro c) (max_output_tokens c) rates usage = Inr s"
    and "\<not> tokens_fit (st_tokens s)"
  shows "settleCall cid asked usage record db = Inl (SqlError 22003)"
  using lock_started_call [OF assms(1-4,6)] assms(4-7)
  by (simp add: settleCall_def settleCallIn_def settleOneCall_def Let_def transaction_def)

lemma settle_call_effect:
  assumes inv: "sys_inv db" and c: "find_call db cid = Some c" and r: "find_reservation db (call_reservation c) = Some r"
    and started: "call_state c = Started" and row: "modelRow (res_card r) (call_model c) db = Inr (Some rates)"
    and s: "callSettlement (basisTheRowAgreesWith asked (sent c)) (bound_micro c) (max_output_tokens c) rates usage = Inr s"
    and fits: "tokens_fit (st_tokens s)"
  shows "settleCall cid asked usage record db =
      Inr ((\<lparr>cs_outcome = OutcomeSettled, cs_chargedMicro = st_chargedMicro s, cs_boundMicro = bound_micro c,
             cs_overBound = st_overBound s\<rparr>,
            bound_exceeded c (basisTheRowAgreesWith asked (sent c)) s (bound_micro c)),
           settled_call_db db c (basisTheRowAgreesWith asked (sent c)) s record)"
    and "sys_inv (settled_call_db db c (basisTheRowAgreesWith asked (sent c)) s record)"
proof -
  let ?b = "basisTheRowAgreesWith asked (sent c)" and ?rid = "call_reservation c" and ?d = "st_chargedMicro s - bound_micro c"
  let ?g = "settle_call_row ?b s record (db_now db)"
  let ?cs = "update_where (\<lambda>q. call_id q = cid) ?g (credit_model_calls db)"
  let ?e = "settled_call_db db c ?b s record"
  have e: "?e = put_task ?rid (move_committed ?d) (put_calls ?cs db)"
    using find_call_Some [OF c] by (simp add: settled_call_db_def)
  note ok = sys_invD [OF inv]
  have mem: "c \<in> set (credit_model_calls db)" "call_id c = cid" using find_call_Some [OF c] by auto
  have checks: "call_checks c" using ok(3) mem by (simp add: task_rows_ok_def)
  have rc: "reservation_checks r" "safe_int (res_card r)" using ok(3) find_reservation_Some [OF r] by (auto simp: task_rows_ok_def)
  note "open" = started_task_open [OF inv c started r]
  note charge = settled_charge_checks [OF s]
  have amounts: "0 \<le> st_chargedMicro s" "st_chargedMicro s \<le> bound_micro c" using charge(1) by (simp_all add: charge_checks_def)
  have commits: "call_commits c = bound_micro c" using started by (simp add: call_commits_def)
  have new: "call_checks (?g c)" using checks started charge(1) by (simp add: call_checks_def settle_call_row_def)
  have left: "0 \<le> committed r + ?d" "committed r + ?d \<le> committed r"
    using call_commits_bounds [OF inv c r] commits amounts by linarith+
  have rc': "reservation_checks (move_committed ?d r)" unfolding move_is_set by (rule checks_committed [OF rc(1) left])
  have own: "keeps_owner ?g" by (simp add: keeps_owner_def settle_call_row_def)
  have sound: "sys_inv ?e"
    unfolding e by (rule call_change [where f = "move_committed ?d" and g = ?g, OF inv c r "open" own new _ rc'])
      (use "open" commits in \<open>simp_all add: settle_call_row_def move_committed_def call_commits_def\<close>)
  note lock = lock_started_call [OF inv c r started s]
  have found: "find_reservation (put_calls ?cs db) ?rid = Some r" using r by simp
  have safe: "safe_int (st_chargedMicro s)" using amounts charge(3) by (simp add: safe_int_def)
  have one: "settleOneCall cid ?b s record db = Inr (Some (bound_micro c, st_chargedMicro s), put_calls ?cs db)"
    using update_one_call [where g = ?g, OF ok(3) c new] started charge(3) safe fits
    by (simp add: settleOneCall_def settle_call_row_def charged_or_0_def)
  have gave: "releaseCommittedBound ?rid (bound_micro c) (st_chargedMicro s) (put_calls ?cs db) = Inr ((), ?e)"
    using update_open_task [where f = "move_committed ?d", OF call_change_rows(3) [OF ok(3) c own new] found "open" rc']
    by (simp add: e releaseCommittedBound_def)
  let ?out = "(\<lparr>cs_outcome = OutcomeSettled, cs_chargedMicro = st_chargedMicro s, cs_boundMicro = bound_micro c,
      cs_overBound = st_overBound s\<rparr>, bound_exceeded c ?b s (bound_micro c))"
  have body: "settleCallIn cid asked usage record db = Inr (?out, ?e)"
    using lock started row s one gave by (simp add: settleCallIn_def Let_def)
  have ran: "settleCall cid asked usage record db = Inr (?out, ?e)"
    unfolding settleCall_def
    by (rule transaction_quiet [where body = "settleCallIn cid asked usage record", OF body sound]) (simp_all add: e)
  from ran sound show "settleCall cid asked usage record db = Inr (?out, ?e)" "sys_inv ?e" by this+
qed

text \<open>C9: a call is settled once, for no more than its bound. Settling a started call, with usage its card can
  price, writes the charge and gives back exactly what the bound had over it; a call that never
  left costs nothing; no money moves and the state stays sound. Any later settlement of the call, on
  any basis and with any usage, reports the first one and changes nothing. The one fault is usage with a count
  the table's \<^verbatim>\<open>integer\<close> columns cannot hold: the database refuses it with 22003 and the call stays started.\<close>
theorem settleCall_settles_once:
  assumes "sys_inv db" and "find_call db cid = Some c" and "find_reservation db (call_reservation c) = Some r"
    and "call_state c = Started" and "modelRow (res_card r) (call_model c) db = Inr (Some rates)"
    and "callSettlement (basisTheRowAgreesWith asked (sent c)) (bound_micro c) (max_output_tokens c) rates usage = Inr s"
  shows "if \<not> tokens_fit (st_tokens s) then settleCall cid asked usage record db = Inl (SqlError 22003)
   else \<exists>e. settleCall cid asked usage record db =
      Inr ((\<lparr>cs_outcome = OutcomeSettled, cs_chargedMicro = st_chargedMicro s, cs_boundMicro = bound_micro c,
             cs_overBound = st_overBound s\<rparr>,
            bound_exceeded c (basisTheRowAgreesWith asked (sent c)) s (bound_micro c)), e) \<and>
    0 \<le> st_chargedMicro s \<and> st_chargedMicro s \<le> bound_micro c \<and> (\<not> sent c \<longrightarrow> st_chargedMicro s = 0) \<and>
    find_reservation e (call_reservation c) = Some (move_committed (st_chargedMicro s - bound_micro c) r) \<and>
    credit_ledger e = credit_ledger db \<and> sys_inv e \<and>
    settleCall cid again other_usage other_record e =
      Inr ((\<lparr>cs_outcome = OutcomeAlreadySettled, cs_chargedMicro = st_chargedMicro s, cs_boundMicro = bound_micro c,
             cs_overBound = False\<rparr>, None), e)"
proof (cases "tokens_fit (st_tokens s)")
  case True
  let ?b = "basisTheRowAgreesWith asked (sent c)" and ?rid = "call_reservation c"
  let ?e = "settled_call_db db c ?b s record" and ?d = "st_chargedMicro s - bound_micro c"
  let ?g = "settle_call_row ?b s record (db_now db)"
  note effect = settle_call_effect [OF assms True] and charge = settled_charge_checks [OF assms(6)]
  have id: "call_id c = cid" using find_call_Some [OF assms(2)] by simp
  have card: "safe_int (res_card r)" using sys_invD(3) [OF assms(1)] find_reservation_Some [OF assms(3)] by (auto simp: task_rows_ok_def)
  have amounts: "0 \<le> st_chargedMicro s" "st_chargedMicro s \<le> bound_micro c" using charge(1) by (simp_all add: charge_checks_def)
  have safe: "safe_int (st_chargedMicro s)" using amounts charge(3) by (simp add: safe_int_def)
  have c': "find_call ?e cid = Some (?g c)"
    using call_settled.lookup [of cid cid "(?b, s, record, db_now db)"] assms(2) id
    by (simp add: find_call_def put_calls_def settled_call_db_def)
  have r': "find_reservation ?e ?rid = Some (move_committed ?d r)"
    using assms(3) by (simp add: find_put_task move_committed_def settled_call_db_def)
  have "settleCallIn cid again other_usage other_record ?e =
      Inr ((\<lparr>cs_outcome = OutcomeAlreadySettled, cs_chargedMicro = st_chargedMicro s, cs_boundMicro = bound_micro c,
             cs_overBound = False\<rparr>, None), ?e)"
    using c' r' card charge(3,4) safe
    by (simp add: settleCallIn_def lockCallForSettlement_def settle_call_row_def charged_or_0_def move_committed_def)
  then have "settleCall cid again other_usage other_record ?e =
      Inr ((\<lparr>cs_outcome = OutcomeAlreadySettled, cs_chargedMicro = st_chargedMicro s, cs_boundMicro = bound_micro c,
             cs_overBound = False\<rparr>, None), ?e)"
    unfolding settleCall_def by (simp add: transaction_read)
  moreover have "credit_ledger ?e = credit_ledger db" by (simp add: settled_call_db_def)
  ultimately show ?thesis using True effect amounts charge(2) r' by (intro if_not_P [THEN iffD2, OF _ exI [of _ ?e]]) simp_all
next
  case False
  with settle_call_out_of_range [OF assms False] show ?thesis by simp
qed

text \<open>The example: the call of \<open>example_task_db\<close> that was sent with a bound of 200000, under rate card 1.\<close>

definition example_priced :: "db \<Rightarrow> db" where
  "example_priced db = db\<lparr>credit_rate_card_models := [model_row_of 1 (''claude-sonnet-5'', CREDIT_RATE_CARD_V1 claude_sonnet_5)]\<rparr>"

lemma cards_frame [simp]:
  "sys_inv (example_priced db) = sys_inv db" "find_reservation (example_priced db) = find_reservation db"
  "find_call (example_priced db) = find_call db"
proof -
  have eq: "find_account (example_priced db) = find_account db" "find_reservation (example_priced db) = find_reservation db"
    "calls_of (example_priced db) = calls_of db" "holds_of (example_priced db) = holds_of db"
    "charges_of (example_priced db) = charges_of db"
    by (simp_all add: example_priced_def fun_eq_iff find_account_def find_reservation_def calls_of_def holds_of_def charges_of_def)
  then show "find_reservation (example_priced db) = find_reservation db" by simp
  show "find_call (example_priced db) = find_call db" by (simp add: example_priced_def find_call_def fun_eq_iff)
  have "db_inv (example_priced db) = db_inv db" "hygiene (example_priced db) = hygiene db"
    by (rule db_inv_cong hygiene_cong; simp add: example_priced_def)+
  moreover have "credit_check_reservation (example_priced db) q = credit_check_reservation db q" for q
    by (rule check_cong) (simp_all add: eq)
  ultimately show "sys_inv (example_priced db) = sys_inv db"
    by (simp add: sys_inv_def task_inv_defs eq) (simp add: example_priced_def)
qed

theorem settleCall_settles_once_witness:
  "\<exists>e x. settleCall ''dddddddd-0000-4000-8000-000000000002'' ProviderUsage
      (Some \<lparr>uncachedInput = 100, outputTokens = 50, cacheRead = 0, cacheWrite5m = 0, cacheWrite1h = 0\<rparr>) None
      (example_priced (example_task_db Enforce 100)) = Inr (x, e) \<and> cs_chargedMicro (fst x) = 140000 \<and> sys_inv e"
proof -
  let ?i = "''dddddddd-0000-4000-8000-000000000002''" and ?db = "example_priced (example_task_db Enforce 100)"
  let ?c = "example_call ?i 2 200000 None"
  let ?row = "model_row_of 1 (''claude-sonnet-5'', CREDIT_RATE_CARD_V1 claude_sonnet_5)"
  let ?u = "Some \<lparr>uncachedInput = 100, outputTokens = 50, cacheRead = 0, cacheWrite5m = 0, cacheWrite1h = 0\<rparr>"
  have c: "find_call ?db ?i = Some ?c" by (simp add: find_call_def task_example_simps)
  have r: "find_reservation ?db (call_reservation ?c) = Some (example_reservation Enforce)"
    using example_task_found [of Enforce 100] by (simp add: example_call_def)
  have row: "modelRow (res_card (example_reservation Enforce)) (call_model ?c) ?db = Inr (Some ?row)" by code_simp
  have s: "callSettlement (basisTheRowAgreesWith ProviderUsage (sent ?c)) (bound_micro ?c) (max_output_tokens ?c) ?row ?u =
      Inr \<lparr>st_chargedMicro = 140000, st_actualMicro = Some 140000, st_overBound = False, st_tokens = ?u\<rparr>" by code_simp
  have "call_state ?c = Started" "tokens_fit ?u" by (simp_all add: example_call_def tokens_fit_def int4_def)
  from settleCall_settles_once [OF _ c r this(1) row s, of None] this(2) example_task_sys [of Enforce 100]
  show ?thesis by fastforce
qed

end
