(* ===== verification/Task_Shadow.thy ===== *)
theory Task_Shadow
  imports Task_Calls
begin

section \<open>Shadow tasks\<close>

text \<open>
  A shadow task measures what enforcement would have done: it has a reservation and calls, but no slot and no holds. Its end
  writes what its calls would have cost and moves no money; its start always answers, whatever fails
  underneath.
\<close>

definition same_money :: "db \<Rightarrow> db \<Rightarrow> bool" where
  "same_money db e \<longleftrightarrow>
     credit_accounts e = credit_accounts db \<and> credit_lots e = credit_lots db \<and> credit_ledger e = credit_ledger db \<and>
     credit_reservation_holds e = credit_reservation_holds db \<and> credit_clawbacks e = credit_clawbacks db"

subsection \<open>The end of a shadow task\<close>

lemma checks_settled_shadow:
  assumes "reservation_checks r" "res_mode r = Shadow" "0 \<le> C"
  shows "reservation_checks (settled_row C why t r)"
  using assms unfolding reservation_checks_def settled_row_def by (simp cong: option.case_cong)

definition ended_db :: "uuid \<Rightarrow> settle_reason \<Rightarrow> db \<Rightarrow> db" where
  "ended_db rid why db =
     put_task rid (settled_row (task_charge db rid) why (db_now db)) (crashed_db rid db)"

lemma ended_found:
  "find_reservation db rid = Some r \<Longrightarrow> find_reservation (ended_db rid why db) rid = Some (final_row db rid why r)"
  by (simp add: ended_db_def find_put_task crashed_finds final_row_def settled_row_def)

lemma ended_calls: "calls_of (ended_db rid why db) q = calls_of (crashed_db rid db) q"
  by (simp add: ended_db_def)

lemma ended_settles_only: "settles_only a rid db (ended_db rid why db)"
proof -
  have "settles_only a rid (crashed_db rid db) (ended_db rid why db)"
    by (simp add: settles_only_def ended_db_def find_put_task settled_row_def)
  with crashed_settles_only show ?thesis by (rule settles_only_trans)
qed

lemma ended_sound:
  assumes inv: "sys_inv db" and r: "find_reservation db rid = Some r" "res_state r = Open" "res_mode r = Shadow"
  shows "sys_inv (ended_db rid why db)"
    and "markSettled rid (task_charge db rid) why (crashed_db rid db) = Inr ((), ended_db rid why db)"
proof -
  let ?C = "task_charge db rid" and ?d = "crashed_db rid db" and ?e = "ended_db rid why db" and ?q = "final_row db rid why r"
  note t = open_task_fresh [OF inv r(1,2)] and ok = sys_invD [OF inv]
  note inv1 = crashed_sys_inv(1) [OF inv r(1,2)]
  note ok1 = sys_invD [OF inv1]
  have r1: "find_reservation ?d rid = Some (set_committed ?C r)" using r(1) by (simp add: crashed_finds)
  have rc: "reservation_checks (set_committed ?C r)" using ok1(3) find_reservation_Some [OF r1] by (simp add: task_rows_ok_def)
  have C: "0 \<le> ?C" using task_charge_bounds [OF ok(3) t(3) r(1)] by simp
  have checks: "reservation_checks (settled_row ?C why (db_now db) (set_committed ?C r))"
    using checks_settled_shadow [OF rc _ C] r(3) by (simp add: set_committed_def)
  have opn: "res_state (set_committed ?C r) = Open" using r(2) by (simp add: set_committed_def)
  show "markSettled rid ?C why ?d = Inr ((), ?e)"
    using update_open_task [where f = "settled_row ?C why (db_now db)", OF ok1(3) r1 opn checks]
    by (simp add: markSettled_def ended_db_def)
  have rows: "task_rows_ok ?e"
    unfolding ended_db_def by (rule put_task_rows [OF ok1(3) r1 keeps_terms_settled checks])
  have found: "find_reservation ?e rid = Some ?q" by (rule ended_found [OF r(1)])
  have "charges_of ?e rid = []" using t(5) by (simp add: ended_db_def)
  then have check: "credit_check_reservation ?e rid"
    using found crashed_totals [of rid db] r(3)
    by (simp add: credit_check_reservation_def ended_calls final_row_def settled_row_def set_committed_def)
  have "tasks_balanced ?e"
    unfolding tasks_balanced_def
  proof (rule ballI)
    fix q assume q: "q \<in> set (credit_reservations ?e)"
    note mine = find_reservation_member [OF rows q]
    show "credit_check_reservation ?e (res_id q) \<and> (res_state q = Open \<longrightarrow>
        (\<forall>h\<in>set (holds_of ?e (res_id q)). released_at h = None) \<and> charges_of ?e (res_id q) = [] \<and>
        (\<forall>x\<in>set (credit_ledger ?e). \<not> task_key (res_id q) (idempotency_key x)))"
    proof (cases "res_id q = rid")
      case True
      then have "q = ?q" using mine found by simp
      with True check show ?thesis by simp
    qed (rule settles_only_balanced [OF ended_settles_only ok(5,3) t(1) mine])
  qed
  moreover have "slots_ok ?e" unfolding ended_db_def by (rule put_task_slots [OF ok1(4) keeps_terms_settled])
  moreover have "db_inv ?e" "hygiene ?e" "claims_ok ?e" using ok by (simp_all add: ended_db_def)
  ultimately show "sys_inv ?e" using rows by (simp add: sys_inv_def task_inv_def)
qed

lemma lock_account_sound:
  assumes "sys_inv db" "find_account db a \<noteq> None" "account_debt db a \<le> MAX_SAFE"
  obtains acct where "lockAccount a db = Inr (acct, db)" "debt_micro acct = account_debt db a"
proof -
  obtain c where c: "find_account db a = Some c" using assms(2) by blast
  then have "safe_int (debt_micro c)"
    using debt_nonneg [OF sys_invD(1) [OF assms(1)], of a] assms(3) by (simp add: account_debt_def safe_int_def)
  with c that show thesis by (simp add: lockAccount_def Let_def insert_account_def toAccountRecord_def account_debt_def)
qed

lemma shadow_settle_effect:
  assumes inv: "sys_inv db" and r: "find_reservation db rid = Some r" "res_state r = Open" "res_mode r = Shadow"
    and safe: "account_debt db (res_account r) \<le> MAX_SAFE" "committed r \<le> MAX_SAFE"
  shows "settleIn new_id rid why db =
      Inr (EMPTY_SETTLEMENT\<lparr>sr_outcome := OutcomeSettled, sr_chargedMicro := task_charge db rid\<rparr>, ended_db rid why db)"
    and "commit_checks db (ended_db rid why db)"
proof -
  note t = open_task_fresh [OF inv r(1,2)] and ok = sys_invD [OF inv]
  note sound = ended_sound [OF inv r, of why]
  obtain acct where lock: "lockAccount (res_account r) db = Inr (acct, db)"
    using lock_account_sound [OF inv t(2) safe(1)] by blast
  have rc: "reservation_checks r" "safe_int (res_card r)" using ok(3) find_reservation_Some [OF r(1)] by (auto simp: task_rows_ok_def)
  have slot: "res_slot r = None" "res_charged r = None" using rc(1) r(2,3) by (auto simp: reservation_checks_def)
  have "safe_int (reserved r)" "safe_int (committed r)"
    using reservation_checksD(1,2) [OF rc(1)] t(7) safe(2) by (simp_all add: safe_int_def)
  then have read: "lockReservation rid db = Inr (Some r)" using r(1) rc(2) slot by (simp add: lockReservation_def)
  obtain n where crash: "settleStartedCallsAfterACrash rid db = Inr (n, crashed_db rid db)"
    using crashed_sys_inv(2) [OF inv r(1,2)] by blast
  have "safe_int (task_charge db rid)" using task_charge_bounds [OF ok(3) t(3) r(1)] safe(2) by (simp add: safe_int_def)
  then have charged: "chargedByCalls rid (crashed_db rid db) = Inr (task_charge db rid)"
    by (simp add: chargedByCalls_def crashed_totals)
  show "settleIn new_id rid why db =
      Inr (EMPTY_SETTLEMENT\<lparr>sr_outcome := OutcomeSettled, sr_chargedMicro := task_charge db rid\<rparr>, ended_db rid why db)"
    using r lock read crash charged sound(2) by (simp add: settleIn_def accountOf_def)
  show "commit_checks db (ended_db rid why db)" by (rule commit_quiet [OF sound(1)]) (simp_all add: ended_db_def)
qed

text \<open>C16: a shadow task ends without moving money. Settling an open shadow task always succeeds; it settles its calls like an
  enforced task's, records what they would have cost, and leaves accounts, lots, holds, claims and
  the ledger exactly as they were.\<close>
theorem shadow_settlement_moves_no_money:
  assumes "sys_inv db" and "find_reservation db rid = Some r" and "res_state r = Open" and "res_mode r = Shadow"
    and "account_debt db (res_account r) \<le> MAX_SAFE" and "committed r \<le> MAX_SAFE"
  shows "\<exists>e. settle new_id rid why db =
      Inr (EMPTY_SETTLEMENT\<lparr>sr_outcome := OutcomeSettled, sr_chargedMicro := task_charge db rid\<rparr>, e) \<and>
    same_money db e \<and> find_reservation e rid = Some (final_row db rid why r) \<and> sys_inv e"
  using shadow_settle_effect(1) [OF assms, of new_id why] shadow_settle_effect(2) [OF assms, of why]
    ended_sound(1) [OF assms(1-4)] ended_found [OF assms(2)]
  by (simp add: settle_def transaction_def same_money_def) (simp add: ended_db_def)

theorem shadow_settlement_moves_no_money_witness:
  "\<exists>e. settle example_new_id example_task Completed (example_task_db Shadow 100) =
      Inr (EMPTY_SETTLEMENT\<lparr>sr_outcome := OutcomeSettled, sr_chargedMicro := 500000\<rparr>, e) \<and>
    credit_ledger e = credit_ledger (example_task_db Shadow 100) \<and> sys_inv e"
proof -
  let ?db = "example_task_db Shadow 100"
  have "task_charge ?db example_task = 500000"
    by (simp add: task_charge_def calls_of_def task_example_simps owed_by_call_def crash_charge_def charged_or_0_def)
  moreover have "account_debt ?db (res_account (example_reservation Shadow)) \<le> MAX_SAFE"
    by (simp add: account_debt_def find_account_def task_example_simps MAX_SAFE_def)
  moreover have "res_state (example_reservation Shadow) = Open" "res_mode (example_reservation Shadow) = Shadow"
    "committed (example_reservation Shadow) \<le> MAX_SAFE"
    by (simp_all add: example_reservation_def MAX_SAFE_def)
  ultimately show ?thesis
    using shadow_settlement_moves_no_money [OF example_task_sys example_task_found, of Shadow 100 example_new_id Completed]
    by (auto simp: same_money_def)
qed

subsection \<open>The start of a shadow task\<close>

lemma start_shadow_sound:
  assumes inv: "sys_inv db" and fresh: "fresh_task db (res_id r)" and r: "res_mode r = Shadow" "res_state r = Open" "committed r = 0"
    and row: "reservation_checks r" "reserved r \<le> MAX_SAFE" "safe_int (res_card r)" "find_account db (res_account r) \<noteq> None"
  shows "sys_inv (start_db r db)"
proof -
  let ?d = "start_db r db"
  note ok = sys_invD [OF inv]
  have none: "find_reservation db (res_id r) = None" using fresh by (simp add: fresh_task_def)
  note find = find_start [OF none] and empty = fresh_task_rows [OF ok(3) fresh]
  have same: "calls_of ?d = calls_of db" "holds_of ?d = holds_of db" "charges_of ?d = charges_of db"
    "credit_ledger ?d = credit_ledger db" "find_account ?d = find_account db"
    by (simp_all add: start_db_def)
  have keep: "find_reservation ?d i = Some q" if "find_reservation db i = Some q" for i q
    using that none find by auto
  have "task_rows_ok ?d"
    unfolding task_rows_ok_def same(5)
  proof (intro conjI ballI)
    show "distinct (map res_id (credit_reservations ?d))"
      using ok(3) none by (auto simp: task_rows_ok_def start_db_def find_reservation_def lookup_by_None)
  next
    fix c assume "c \<in> set (credit_model_calls ?d)"
    then have "c \<in> set (credit_model_calls db)" by (simp add: start_db_def)
    with ok(3) keep show "\<exists>q. find_reservation ?d (call_reservation c) = Some q \<and> res_account q = call_account c"
      by (meson task_rows_ok_def)
  next
    fix h assume "h \<in> set (credit_reservation_holds ?d)"
    then have "h \<in> set (credit_reservation_holds db)" by (simp add: start_db_def)
    with ok(3) keep show "\<exists>q. find_reservation ?d (hold_reservation h) = Some q \<and> res_account q = hold_account h \<and> res_mode q = Enforce"
      by (meson task_rows_ok_def)
  qed (use ok(3) row fresh in \<open>auto simp: task_rows_ok_def fresh_task_def start_db_def\<close>)
  moreover have "tasks_balanced ?d"
    unfolding tasks_balanced_def
  proof (rule ballI)
    fix q assume "q \<in> set (credit_reservations ?d)"
    then consider "q \<in> set (credit_reservations db)" | "q = r" by (auto simp: start_db_def)
    then show "credit_check_reservation ?d (res_id q) \<and> (res_state q = Open \<longrightarrow>
        (\<forall>h\<in>set (holds_of ?d (res_id q)). released_at h = None) \<and> charges_of ?d (res_id q) = [] \<and>
        (\<forall>x\<in>set (credit_ledger ?d). \<not> task_key (res_id q) (idempotency_key x)))"
    proof cases
      case 1
      then have "res_id q \<noteq> res_id r" using none by (metis find_reservation_def imageI lookup_by_None)
      then have "credit_check_reservation ?d (res_id q) = credit_check_reservation db (res_id q)"
        by (intro check_cong) (simp_all add: find same)
      with 1 ok(5) same show ?thesis by (simp add: tasks_balanced_def)
    next
      case 2
      with fresh find empty r same show ?thesis by (auto simp: credit_check_reservation_def fresh_task_def)
    qed
  qed
  moreover have "slots_ok ?d"
    using ok(4) r(1) by (simp add: slots_ok_def start_db_def open_enforce_def)
  moreover have "claims_ok ?d" using ok(6) by (simp add: claims_ok_def start_db_def)
  moreover have "db_inv ?d" "hygiene ?d"
    using ok(1,2) db_inv_cong [of ?d db] hygiene_cong [of ?d db] by (simp_all add: start_db_def)
  ultimately show ?thesis by (simp add: sys_inv_def task_inv_def)
qed

definition shadow_row :: "db \<Rightarrow> CreditReserveInput \<Rightarrow> credit_reservation \<Rightarrow> bool" where
  "shadow_row d input r \<longleftrightarrow>
     res_id r = ri_reservation input \<and> res_account r = ri_account input \<and> res_mode r = Shadow \<and> res_state r = Open \<and>
     committed r = 0 \<and> res_charged r = None \<and> reservation_checks r \<and> reserved r \<le> MAX_SAFE \<and>
     list_ex (\<lambda>c. card_version c = res_card r) (credit_rate_cards d)"

lemma insertShadow_Inr:
  assumes "insertShadowReservation n amount why d = Inr (x, e)" "nr_id n = ri_reservation input" "nr_account n = ri_account input"
  shows "\<exists>r. e = start_db r d \<and> shadow_row d input r"
proof -
  let ?r = "reservation_row n Shadow None amount why (db_now d)"
  have "insert_reservation ?r d = Inr e" "amount \<le> MAX_SAFE"
    using assms(1) by (auto simp: insertShadowReservation_def Let_def result_simps reservation_row_def safe_int_def)
  then have "e = start_db ?r d \<and> shadow_row d input ?r"
    using assms(2,3) by (auto simp: insert_reservation_def start_db_def shadow_row_def reservation_row_def split: if_splits)
  then show ?thesis by blast
qed

definition refreshed :: "refresher \<Rightarrow> uuid \<Rightarrow> db \<Rightarrow> db" where
  "refreshed refresh a db = refreshUnderSavepoint refresh a (insert_account a db)"

lemma measureModelRefusal_Inr:
  assumes "measureModelRefusal input d = Inr (out, e)"
  shows "e = d \<or> (\<exists>r. e = start_db r d \<and> shadow_row d input r)"
proof (cases "cardInForce None d")
  case None
  with assms show ?thesis by (simp add: measureModelRefusal_def)
next
  case (Some c)
  with assms obtain x where "insertShadowReservation (new_reservation input (card_version c) 0 0) 0 (Some WouldModel) d = Inr (x, e)"
    by (auto simp: measureModelRefusal_def result_simps)
  from insertShadow_Inr [OF this] show ?thesis by (simp add: new_reservation_def)
qed

lemma measureShadow_Inr:
  assumes run: "measureShadow refresh input db = Inr (out, e)" and acct: "find_account (refreshed refresh (ri_account input) db) (ri_account input) \<noteq> None"
  shows "e = refreshed refresh (ri_account input) db \<or>
    (\<exists>r. e = start_db r (refreshed refresh (ri_account input) db) \<and> shadow_row (refreshed refresh (ri_account input) db) input r)"
proof -
  let ?a = "ri_account input" and ?d = "refreshed refresh (ri_account input) db"
  have ensure: "ensureAccount ?a ?d = Inr (acct, x) \<Longrightarrow> x = ?d" for acct x
    using acct by (auto simp: ensureAccount_def Let_def insert_account_def result_simps)
  from run obtain priced where priced: "priceModel (ri_model input) ?d = Inr priced"
    by (auto simp: measureShadow_def lockAccount_Inr refreshed_def Let_def result_simps)
  show ?thesis
  proof (cases priced)
    case None
    with run priced have "measureModelRefusal input ?d = Inr (out, e)"
      by (auto simp: measureShadow_def lockAccount_Inr refreshed_def Let_def result_simps)
    from measureModelRefusal_Inr [OF this] show ?thesis .
  next
    case (Some p)
    with run priced obtain acct d why x where "ensureAccount ?a ?d = Inr (acct, d)"
      "insertShadowReservation (new_reservation input (pm_version p) 0 0) (pm_maxReserve p) why d = Inr (x, e)"
      by (auto simp: measureShadow_def lockAccount_Inr refreshed_def Let_def result_simps)
    with ensure have "insertShadowReservation (new_reservation input (pm_version p) 0 0) (pm_maxReserve p) why ?d = Inr (x, e)"
      by blast
    from insertShadow_Inr [OF this] show ?thesis by (simp add: new_reservation_def)
  qed
qed

lemma reserve_shadow_Inr:
  assumes run: "reserve refresh input db = Inr (out, e)" and mode: "ri_mode input = Shadow"
    and acct: "find_account (refreshed refresh (ri_account input) db) (ri_account input) \<noteq> None"
  shows "e = db \<or> e = refreshed refresh (ri_account input) db \<or>
    (\<exists>r. e = start_db r (refreshed refresh (ri_account input) db) \<and> shadow_row (refreshed refresh (ri_account input) db) input r)"
proof (cases "transaction (measureShadow refresh input) db")
  case Inl
  with run mode show ?thesis by (simp add: reserve_def reserveShadow_def)
next
  case (Inr p)
  with run mode have "transaction (measureShadow refresh input) db = Inr (out, e)" by (simp add: reserve_def reserveShadow_def)
  then have "measureShadow refresh input db = Inr (out, e)" by (auto simp: transaction_def result_simps split: if_splits)
  from measureShadow_Inr [OF this acct] show ?thesis by blast
qed

end
