(* ===== verification/Task_Book.thy ===== *)
theory Task_Book
  imports Task_Shadow
begin

section \<open>The task book: what the service promises about tasks\<close>

text \<open>
  An abstract account of tasks and calls, without rows, slots, leases, locks or a \<^verbatim>\<open>committed_micro\<close>
  counter: a task has what it reserved and a list of calls; a call is waiting with a bound, sent or not, or it is
  paid; a task ends by paying for every call. The locale \<open>refines\<close> is the interface between a step
  relation and such an account.
\<close>

subsection \<open>Refinement of a step relation\<close>

locale refines =
  fixes step :: "'s \<Rightarrow> 's \<Rightarrow> bool" and spec_step :: "'a \<Rightarrow> 'a \<Rightarrow> bool" and inv :: "'s \<Rightarrow> bool" and view :: "'s \<Rightarrow> 'a"
  assumes step_inv: "inv s \<Longrightarrow> step s t \<Longrightarrow> inv t"
    and step_view: "inv s \<Longrightarrow> step s t \<Longrightarrow> view t = view s \<or> spec_step (view s) (view t)"
begin

lemma run_inv: "step\<^sup>*\<^sup>* s t \<Longrightarrow> inv s \<Longrightarrow> inv t"
  by (induction rule: rtranclp_induct) (auto intro: step_inv)

lemma run_view: "step\<^sup>*\<^sup>* s t \<Longrightarrow> inv s \<Longrightarrow> spec_step\<^sup>*\<^sup>* (view s) (view t)"
proof (induction rule: rtranclp_induct)
  case (step t u)
  with run_inv have "inv t" by blast
  with step step_view [of t u] show ?case by (metis rtranclp.rtrancl_into_rtrancl)
qed simp

lemma run_stable:
  assumes "\<And>a b. spec_step a b \<Longrightarrow> P a \<Longrightarrow> P b" and "step\<^sup>*\<^sup>* s t" and "inv s" and "P (view s)"
  shows "P (view t)"
  using run_view [OF assms(2,3)] assms(4) by (induction rule: rtranclp_induct) (auto intro: assms(1))

end

subsection \<open>The book\<close>

datatype call_view = Waiting int bool | Paid int

record task_view =
  tv_mode :: reservation_mode
  tv_reserved :: int
  tv_calls :: "(uuid \<times> call_view) list"
  tv_charged :: "int option"

type_synonym book = "uuid \<Rightarrow> task_view option"

fun liability :: "call_view \<Rightarrow> int" where
  "liability (Waiting b _) = b"
| "liability (Paid x) = x"

fun final_cost :: "call_view \<Rightarrow> int" where
  "final_cost (Waiting b s) = (if s then b else 0)"
| "final_cost (Paid x) = x"

definition total_liability :: "task_view \<Rightarrow> int" where
  "total_liability v = sum_by (liability \<circ> snd) (tv_calls v)"

definition put_call :: "uuid \<Rightarrow> call_view \<Rightarrow> (uuid \<times> call_view) list \<Rightarrow> (uuid \<times> call_view) list" where
  "put_call i c = map (\<lambda>p. if fst p = i then (i, c) else p)"

definition end_task :: "task_view \<Rightarrow> task_view" where
  "end_task v = v\<lparr>tv_calls := map (\<lambda>p. (fst p, Paid (final_cost (snd p)))) (tv_calls v),
                  tv_charged := Some (sum_by (final_cost \<circ> snd) (tv_calls v))\<rparr>"

inductive book_step :: "book \<Rightarrow> book \<Rightarrow> bool" where
  opens: "B i = None \<Longrightarrow> 0 \<le> x \<Longrightarrow>
    book_step B (B(i \<mapsto> \<lparr>tv_mode = m, tv_reserved = x, tv_calls = [], tv_charged = None\<rparr>))"
| admits: "B i = Some v \<Longrightarrow> tv_charged v = None \<Longrightarrow> c \<notin> fst ` set (tv_calls v) \<Longrightarrow> 0 < x \<Longrightarrow>
    tv_mode v = Shadow \<or> total_liability v + x \<le> tv_reserved v \<Longrightarrow>
    book_step B (B(i \<mapsto> v\<lparr>tv_calls := tv_calls v @ [(c, Waiting x False)]\<rparr>))"
| sends: "B i = Some v \<Longrightarrow> tv_charged v = None \<Longrightarrow> (c, Waiting x s) \<in> set (tv_calls v) \<Longrightarrow>
    book_step B (B(i \<mapsto> v\<lparr>tv_calls := put_call c (Waiting x True) (tv_calls v)\<rparr>))"
| pays: "B i = Some v \<Longrightarrow> tv_charged v = None \<Longrightarrow> (c, Waiting x s) \<in> set (tv_calls v) \<Longrightarrow> 0 \<le> y \<Longrightarrow> y \<le> x \<Longrightarrow>
    s \<or> y = 0 \<Longrightarrow> book_step B (B(i \<mapsto> v\<lparr>tv_calls := put_call c (Paid y) (tv_calls v)\<rparr>))"
| closes: "B i = Some v \<Longrightarrow> tv_charged v = None \<Longrightarrow> book_step B (B(i \<mapsto> end_task v))"

inductive_cases book_stepE: "book_step B B'"

subsection \<open>What holds of every book\<close>

definition view_ok :: "task_view \<Rightarrow> bool" where
  "view_ok v \<longleftrightarrow>
     distinct (map fst (tv_calls v)) \<and> 0 \<le> tv_reserved v \<and> list_all (\<lambda>p. 0 \<le> liability (snd p)) (tv_calls v) \<and>
     (tv_mode v = Enforce \<longrightarrow> total_liability v \<le> tv_reserved v) \<and>
     (case tv_charged v of None \<Rightarrow> True
      | Some x \<Rightarrow> x = total_liability v \<and> list_all (\<lambda>p. \<exists>y. snd p = Paid y) (tv_calls v))"

definition book_ok :: "book \<Rightarrow> bool" where
  "book_ok B \<longleftrightarrow> (\<forall>i v. B i = Some v \<longrightarrow> view_ok v)"

lemma final_cost_le: "0 \<le> liability c \<Longrightarrow> 0 \<le> final_cost c \<and> final_cost c \<le> liability c"
  by (cases c) auto

lemma put_call_keys [simp]: "map fst (put_call i c ps) = map fst ps"
  by (induction ps) (auto simp: put_call_def)

lemma put_call_member: "p \<in> set (put_call i c ps) \<Longrightarrow> p \<in> set ps \<or> snd p = c"
  by (auto simp: put_call_def)

lemma put_call_liability:
  "(i, d) \<in> set ps \<Longrightarrow> distinct (map fst ps) \<Longrightarrow>
   sum_by (liability \<circ> snd) (put_call i c ps) = sum_by (liability \<circ> snd) ps - liability d + liability c"
proof (induction ps)
  case (Cons p ps)
  have idle: "put_call i c ps = ps" if "i \<notin> fst ` set ps"
    unfolding put_call_def using that by (intro map_idI) force
  show ?case
  proof (cases "fst p = i")
    case True
    with Cons.prems(2) have new: "i \<notin> fst ` set ps" by auto
    then have "(i, d) \<notin> set ps" by force
    with Cons.prems(1) have "p = (i, d)" by auto
    with idle [OF new] show ?thesis by (simp add: put_call_def)
  next
    case False
    with Cons show ?thesis by (auto simp: put_call_def)
  qed
qed simp

lemma put_call_ok:
  assumes "view_ok v" "tv_charged v = None" "(c, Waiting x s) \<in> set (tv_calls v)" "0 \<le> liability d" "liability d \<le> x"
  shows "view_ok (v\<lparr>tv_calls := put_call c d (tv_calls v)\<rparr>)"
proof -
  have "distinct (map fst (tv_calls v))" using assms(1) by (simp add: view_ok_def)
  from put_call_liability [OF assms(3) this, of d] assms(5)
  have "total_liability (v\<lparr>tv_calls := put_call c d (tv_calls v)\<rparr>) \<le> total_liability v"
    by (simp add: total_liability_def)
  moreover have "list_all (\<lambda>p. 0 \<le> liability (snd p)) (put_call c d (tv_calls v))"
    using assms(1,4) by (auto simp: view_ok_def list_all_iff dest!: put_call_member)
  ultimately show ?thesis using assms(1,2) unfolding view_ok_def by (auto intro: order.trans)
qed

lemma end_task_ok:
  assumes "view_ok v"
  shows "view_ok (end_task v)"
proof -
  have nonneg: "0 \<le> liability (snd p)" if "p \<in> set (tv_calls v)" for p using assms that by (auto simp: view_ok_def list_all_iff)
  have "sum_by (final_cost \<circ> snd) (tv_calls v) \<le> sum_by (liability \<circ> snd) (tv_calls v)"
    using final_cost_le nonneg by (intro sum_by_mono) simp
  moreover have "total_liability (end_task v) = sum_by (final_cost \<circ> snd) (tv_calls v)"
    by (simp add: total_liability_def end_task_def sum_by_map comp_def)
  ultimately show ?thesis
    using assms final_cost_le nonneg
    by (auto simp: view_ok_def end_task_def total_liability_def list_all_iff comp_def)
qed

lemma book_step_ok: "book_step B B' \<Longrightarrow> book_ok B \<Longrightarrow> book_ok B'"
proof (induction rule: book_step.induct)
  case (admits B i v c x)
  then have "view_ok v" by (simp add: book_ok_def)
  with admits have "view_ok (v\<lparr>tv_calls := tv_calls v @ [(c, Waiting x False)]\<rparr>)"
    by (auto simp: view_ok_def total_liability_def)
  with admits show ?case by (simp add: book_ok_def)
next
  case (sends B i v c x s)
  then have "view_ok v" by (simp add: book_ok_def)
  moreover from this sends have "0 \<le> x" by (auto simp: view_ok_def list_all_iff)
  ultimately show ?case using sends put_call_ok [of v c x s "Waiting x True"] by (simp add: book_ok_def)
next
  case (pays B i v c x s y)
  then show ?case using put_call_ok [of v c x s "Paid y"] by (simp add: book_ok_def)
next
  case (opens B i x m)
  then show ?case by (simp add: book_ok_def view_ok_def total_liability_def)
next
  case (closes B i v)
  then show ?case by (simp add: book_ok_def end_task_ok)
qed

text \<open>A task that ended never changes again.\<close>

lemma book_step_final:
  "book_step B B' \<Longrightarrow> B i = Some v \<Longrightarrow> tv_charged v = Some x \<Longrightarrow> B' i = Some v"
  by (erule book_stepE) auto

end
