(* ===== verification/Task_Views.thy ===== *)
theory Task_Views
  imports Task_Book
begin

section \<open>The task book of a database\<close>

text \<open>
  What a database means as a task book, that a sound database means a sound book, and that each operation on a task is one
  step of the book.
\<close>

definition call_view_of :: "credit_model_call \<Rightarrow> call_view" where
  "call_view_of c = (if call_state c = Started then Waiting (bound_micro c) (sent c) else Paid (charged_or_0 c))"

definition task_view_of :: "db \<Rightarrow> credit_reservation \<Rightarrow> task_view" where
  "task_view_of db r =
     \<lparr>tv_mode = res_mode r, tv_reserved = reserved r,
      tv_calls = map (\<lambda>c. (call_id c, call_view_of c)) (calls_of db (res_id r)), tv_charged = res_charged r\<rparr>"

definition book_of :: "db \<Rightarrow> book" where
  "book_of db i = map_option (task_view_of db) (find_reservation db i)"

lemma liability_of: "liability (call_view_of c) = call_commits c"
  by (simp add: call_view_of_def call_commits_def charged_or_0_def)

lemma final_cost_of: "final_cost (call_view_of c) = owed_by_call c"
  by (simp add: call_view_of_def owed_by_call_def crash_charge_def)

lemma view_keys: "map fst (tv_calls (task_view_of db r)) = map call_id (calls_of db (res_id r))"
  by (simp add: task_view_of_def comp_def)

lemma view_liability: "total_liability (task_view_of db r) = sum_by call_commits (calls_of db (res_id r))"
  by (simp add: total_liability_def task_view_of_def sum_by_map liability_of)

lemma view_final: "sum_by (final_cost \<circ> snd) (tv_calls (task_view_of db r)) = task_charge db (res_id r)"
  by (simp add: task_charge_def task_view_of_def sum_by_map final_cost_of)

lemma call_ids_distinct: "task_rows_ok db \<Longrightarrow> distinct (map call_id (calls_of db i))"
  by (simp add: task_rows_ok_def calls_of_def distinct_map_filter)

lemma open_uncharged: "reservation_checks r \<Longrightarrow> res_charged r = None \<longleftrightarrow> res_state r = Open"
  unfolding reservation_checks_def by (cases "res_state r") (auto split: option.splits)

lemma sound_book:
  assumes "sys_inv db"
  shows "book_ok (book_of db)"
  unfolding book_ok_def
proof (intro allI impI)
  fix i v assume "book_of db i = Some v"
  then obtain r where r: "find_reservation db i = Some r" and v: "v = task_view_of db r" by (auto simp: book_of_def)
  note ok = sys_invD [OF assms] and mem = find_reservation_Some [OF r]
  have check: "credit_check_reservation db i" using ok(5) mem by (auto simp: tasks_balanced_def)
  have rc: "reservation_checks r" using ok(3) mem by (auto simp: task_rows_ok_def)
  have calls: "call_checks c" if "c \<in> set (calls_of db i)" for c using ok(3) that by (auto simp: task_rows_ok_def calls_of_def)
  have id: "res_id r = i" using mem by simp
  have "0 \<le> call_commits c" if "c \<in> set (calls_of db i)" for c using call_amounts [OF calls [OF that]] by linarith
  then have "list_all (\<lambda>p. 0 \<le> liability (snd p)) (tv_calls v)" by (auto simp: v task_view_of_def id list_all_iff liability_of)
  moreover have "distinct (map fst (tv_calls v))" using call_ids_distinct [OF ok(3)] by (simp add: v view_keys)
  moreover have "tv_mode v = res_mode r" "tv_reserved v = reserved r" "tv_charged v = res_charged r"
    by (simp_all add: v task_view_of_def)
  moreover have "list_all (\<lambda>p. \<exists>y. snd p = Paid y) (tv_calls v)" if "\<forall>c\<in>set (calls_of db i). call_state c = CallSettled"
    using that by (auto simp: v task_view_of_def id list_all_iff call_view_of_def)
  moreover have "total_liability v = committed r" using check r mem by (simp add: v view_liability credit_check_reservation_def)
  moreover have "case res_charged r of None \<Rightarrow> True
      | Some x \<Rightarrow> x = committed r \<and> (\<forall>c\<in>set (calls_of db i). call_state c = CallSettled)"
  proof (cases "res_state r")
    case Open
    with open_uncharged [OF rc] show ?thesis by simp
  next
    case Settled
    with check r have c: "\<not> list_ex (\<lambda>c. call_state c = Started) (calls_of db i)"
      "res_charged r = Some (sum_by charged_or_0 (calls_of db i))" "sum_by call_commits (calls_of db i) = committed r"
      by (simp_all add: credit_check_reservation_def)
    then have done': "\<forall>c\<in>set (calls_of db i). call_state c = CallSettled"
      by (auto simp: list_ex_iff) (metis call_state.exhaust)
    then have "sum_by charged_or_0 (calls_of db i) = sum_by call_commits (calls_of db i)"
      by (intro sum_by_cong) (simp add: settled_commits)
    with c done' show ?thesis by simp
  qed
  ultimately show "view_ok v"
    using reservation_checksD(2,3) [OF rc] unfolding view_ok_def by (auto split: option.splits)
qed

subsection \<open>Changes of a database, seen in the book\<close>

lemma book_same:
  assumes "\<And>i. map_option (\<lambda>r. (res_id r, res_mode r, reserved r, res_charged r)) (find_reservation e i) =
      map_option (\<lambda>r. (res_id r, res_mode r, reserved r, res_charged r)) (find_reservation db i)"
    and "calls_of e = calls_of db"
  shows "book_of e = book_of db"
proof
  fix i
  from assms(1) [of i] show "book_of e i = book_of db i"
    by (cases "find_reservation e i"; cases "find_reservation db i") (simp_all add: book_of_def task_view_of_def assms(2))
qed

lemma book_change:
  assumes "\<And>q. q \<noteq> rid \<Longrightarrow> find_reservation e q = find_reservation db q \<and> calls_of e q = calls_of db q"
    and "find_reservation e rid = Some r"
  shows "book_of e = (book_of db)(rid \<mapsto> task_view_of e r)"
proof
  fix i
  show "book_of e i = ((book_of db)(rid \<mapsto> task_view_of e r)) i"
  proof (cases "i = rid")
    case False
    with assms(1) [of i] show ?thesis
      by (cases "find_reservation db i") (auto simp: book_of_def task_view_of_def dest: find_reservation_Some)
  qed (use assms(2) in \<open>simp add: book_of_def\<close>)
qed

lemma open_view:
  assumes "sys_inv db" "find_reservation db i = Some r" "res_state r = Open"
  shows "book_of db i = Some (task_view_of db r)" "tv_charged (task_view_of db r) = None"
    "total_liability (task_view_of db r) = committed r"
proof -
  note ok = sys_invD [OF assms(1)] and mem = find_reservation_Some [OF assms(2)]
  have "reservation_checks r" using ok(3) mem by (auto simp: task_rows_ok_def)
  with assms(3) show "tv_charged (task_view_of db r) = None" by (simp add: task_view_of_def open_uncharged)
  show "book_of db i = Some (task_view_of db r)" using assms(2) by (simp add: book_of_def)
  have "credit_check_reservation db i" using ok(5) mem by (auto simp: tasks_balanced_def)
  then show "total_liability (task_view_of db r) = committed r"
    using assms(2) mem by (simp add: view_liability credit_check_reservation_def)
qed

lemma start_book:
  assumes "sys_inv db" "fresh_task db (res_id r)" "0 \<le> reserved r" "res_charged r = None"
    and e: "find_reservation e = find_reservation (start_db r db)" "credit_model_calls e = credit_model_calls db"
  shows "book_step (book_of db) (book_of e)"
proof -
  have none: "find_reservation db (res_id r) = None" using assms(2) by (simp add: fresh_task_def)
  have calls: "calls_of e = calls_of db" by (simp add: calls_of_def e(2) fun_eq_iff)
  have "calls_of db (res_id r) = []" by (rule fresh_task_rows(1) [OF sys_invD(3) [OF assms(1)] assms(2)])
  then have v: "task_view_of e r = \<lparr>tv_mode = res_mode r, tv_reserved = reserved r, tv_calls = [], tv_charged = None\<rparr>"
    using assms(4) by (simp add: task_view_of_def calls)
  have "book_of e = (book_of db)(res_id r \<mapsto> task_view_of e r)"
    by (rule book_change) (simp_all add: e(1) find_start [OF none] calls)
  moreover have "book_of db (res_id r) = None" using none by (simp add: book_of_def)
  ultimately show ?thesis using book_step.opens assms(3) unfolding v by metis
qed

lemma admit_book:
  assumes inv: "sys_inv db" and r: "find_reservation db rid = Some r" "may_commit rid m (cb_boundMicro b) t r"
    and new: "call_input_ok db r b cid"
  shows "book_step (book_of db) (book_of (admitted_db db r purpose b cid))"
proof -
  let ?e = "admitted_db db r purpose b cid" and ?v = "task_view_of db r" and ?x = "cb_boundMicro b"
  have id: "res_id r = rid" and opn: "res_state r = Open" and fits: "res_mode r = Shadow \<or> committed r + ?x \<le> reserved r"
    using r(2) by (simp_all add: may_commit_def)
  note view = open_view [OF inv r(1) opn]
  have x: "0 < ?x" using new unfolding call_input_ok_def bound_ok_def by linarith
  have found: "find_reservation ?e rid = Some (commit_row ?x (db_now db) r)"
    using r(1) id by (simp add: admitted_db_def find_put_task commit_row_def)
  have others: "find_reservation ?e q = find_reservation db q \<and> calls_of ?e q = calls_of db q" if "q \<noteq> rid" for q
    using that id by (simp add: admitted_db_def find_put_task commit_row_def) (simp add: calls_of_def)
  have v: "task_view_of ?e (commit_row ?x (db_now db) r) = ?v\<lparr>tv_calls := tv_calls ?v @ [(cid, Waiting ?x False)]\<rparr>"
    using id by (simp add: task_view_of_def admitted_db_def commit_row_def)
      (simp add: calls_of_def call_view_of_def new_call_def)
  have "cid \<notin> call_id ` set (credit_model_calls db)" using new by (auto simp: call_input_ok_def find_call_def lookup_by_None)
  then have fresh: "cid \<notin> fst ` set (tv_calls ?v)" by (auto simp: task_view_of_def calls_of_def)
  have "tv_mode ?v = Shadow \<or> total_liability ?v + ?x \<le> tv_reserved ?v" using fits view(3) by (simp add: task_view_of_def)
  from book_step.admits [where B = "book_of db" and i = rid, OF view(1,2) fresh x this] show ?thesis using book_change [OF others found] v by simp
qed

lemma call_book:
  assumes inv: "sys_inv db" and c: "find_call db cid = Some c" and own: "keeps_owner g"
    and r: "find_reservation db (call_reservation c) = Some r"
    and e: "find_reservation e (call_reservation c) = Some r'" "res_id r' = res_id r" "res_mode r' = res_mode r"
      "reserved r' = reserved r" "res_charged r' = res_charged r"
      "\<And>q. q \<noteq> call_reservation c \<Longrightarrow> find_reservation e q = find_reservation db q"
      "credit_model_calls e = update_where (\<lambda>q. call_id q = cid) g (credit_model_calls db)"
  shows "book_of e = (book_of db)(call_reservation c \<mapsto>
      (task_view_of db r)\<lparr>tv_calls := put_call cid (call_view_of (g c)) (tv_calls (task_view_of db r))\<rparr>)"
    and "(cid, call_view_of c) \<in> set (tv_calls (task_view_of db r))"
proof -
  note ok = sys_invD [OF inv]
  have d: "distinct (map call_id (credit_model_calls db))" using ok(3) by (simp add: task_rows_ok_def)
  have one: "q = c" if "q \<in> set (credit_model_calls db)" "call_id q = cid" for q
    using lookup_by_member [OF d that(1)] that(2) c by (simp add: find_call_def)
  have keep: "\<And>q. call_id (g q) = call_id q" "\<And>q. call_reservation (g q) = call_reservation q"
    using own by (simp_all add: keeps_owner_def)
  have id: "res_id r = call_reservation c" using find_reservation_Some [OF r] by simp
  have "calls_of e q = calls_of db q" if "q \<noteq> call_reservation c" for q
    unfolding calls_of_def e(7) using one keep(2) that by (intro filter_update_where) auto
  with e(6) have others: "find_reservation e q = find_reservation db q \<and> calls_of e q = calls_of db q"
    if "q \<noteq> call_reservation c" for q using that by blast
  have "map (\<lambda>c. (call_id c, call_view_of c)) (filter P (update_where (\<lambda>q. call_id q = cid) g cs)) =
      put_call cid (call_view_of (g c)) (map (\<lambda>c. (call_id c, call_view_of c)) (filter P cs))"
    if "\<And>q. q \<in> set cs \<Longrightarrow> call_id q = cid \<Longrightarrow> q = c" "\<And>q. P (g q) = P q" for P cs
    using that by (induction cs) (auto simp: put_call_def keep)
  from this [of "credit_model_calls db" "\<lambda>q. call_reservation q = call_reservation c"] one keep(2)
  have "task_view_of e r' = (task_view_of db r)\<lparr>tv_calls := put_call cid (call_view_of (g c)) (tv_calls (task_view_of db r))\<rparr>"
    using e id by (simp add: task_view_of_def calls_of_def)
  with book_change [OF others e(1)] show "book_of e = (book_of db)(call_reservation c \<mapsto>
      (task_view_of db r)\<lparr>tv_calls := put_call cid (call_view_of (g c)) (tv_calls (task_view_of db r))\<rparr>)" by simp
  have "c \<in> set (calls_of db (res_id r))" using find_call_Some [OF c] id by (simp add: calls_of_def)
  then show "(cid, call_view_of c) \<in> set (tv_calls (task_view_of db r))"
    using find_call_Some [OF c] by (auto simp: task_view_of_def)
qed

end
