(* ===== verification/Task_Steps.thy ===== *)
theory Task_Steps
  imports Task_Views
begin

section \<open>The service as a state machine\<close>

text \<open>
  One step of the service is one of its operations on the tables, in any order: a task is reserved, a call admitted, sent
  or settled, a task settled, swept or kept alive, a process gives up its leases, time passes. Each keeps
  the tables sound and is at most one step of the task book, so every run is a run of the book.
\<close>

definition stepped :: "db \<Rightarrow> db \<Rightarrow> bool" where
  "stepped db e \<longleftrightarrow> sys_inv e \<and> (book_of e = book_of db \<or> book_step (book_of db) (book_of e))"

lemma stepped_refl: "sys_inv db \<Longrightarrow> stepped db db"
  by (simp add: stepped_def)

lemma stepped_same: "sys_inv d \<Longrightarrow> book_of d = book_of db \<Longrightarrow> stepped d e \<Longrightarrow> stepped db e"
  by (simp add: stepped_def)

subsection \<open>Calls\<close>

lemma admit_stepped:
  assumes "sys_inv db" "find_reservation db rid = Some r" "call_input_ok db r b cid" "committed r \<le> MAX_SAFE"
    "admitCall rid purpose model b cid db = Inr (out, e)"
  shows "stepped db e"
proof (cases "may_commit rid model (cb_boundMicro b) (db_now db) r")
  case True
  with admit_ran [OF assms] have "e = admitted_db db r purpose b cid" by simp
  with admitted_sys_inv [OF assms(1,2) True assms(3), of purpose] admit_book [OF assms(1,2) True assms(3), of purpose]
  show ?thesis by (simp add: stepped_def)
next
  case False
  with admit_ran [OF assms] have "e = db" by simp
  with assms(1) show ?thesis by (simp add: stepped_refl)
qed

lemma sent_stepped:
  assumes inv: "sys_inv db" and run: "markSent cid db = Inr (out, e)"
  shows "stepped db e"
proof (cases "find_call db cid")
  case None
  then have none: "\<not> started_call cid q" if "q \<in> set (credit_model_calls db)" for q
    using that by (auto simp: find_call_def lookup_by_None started_call_def)
  then have "filter (started_call cid) (credit_model_calls db) = []" by (simp add: filter_empty_conv)
  moreover have "update_where (started_call cid) mark_sent_row (credit_model_calls db) = credit_model_calls db"
    using none by (rule update_where_idle)
  ultimately have "markCallSent cid db = Inr (False, db)" by (simp add: markCallSent_def update_calls_def)
  from transaction_read [where body = "markCallSent cid", OF this] run have "e = db" by (simp add: markSent_def)
  with inv show ?thesis by (simp add: stepped_refl)
next
  case (Some c)
  from sent_effect [OF inv Some] run have e: "sys_inv e" "credit_reservations e = credit_reservations db"
    "credit_model_calls e = (if call_state c = Started
      then update_where (\<lambda>q. call_id q = cid) mark_sent_row (credit_model_calls db) else credit_model_calls db)" by auto
  have found: "find_reservation e = find_reservation db" by (simp add: find_reservation_def e(2) fun_eq_iff)
  show ?thesis
  proof (cases "call_state c = Started")
    case False
    then have "calls_of e = calls_of db" by (simp add: calls_of_def e(3) fun_eq_iff)
    then have "book_of e = book_of db" by (intro book_same) (simp_all add: found)
    with e(1) show ?thesis by (simp add: stepped_def)
  next
    case True
    obtain r where r: "find_reservation db (call_reservation c) = Some r"
      using call_rows [OF sys_invD(3) [OF inv]] find_call_Some [OF Some] by (auto simp: call_row_ok_def)
    note opn = started_task_open [OF inv Some True r]
    note view = open_view [OF inv r opn]
    have own: "keeps_owner mark_sent_row" by (simp add: keeps_owner_def mark_sent_row_def)
    have calls: "credit_model_calls e = update_where (\<lambda>q. call_id q = cid) mark_sent_row (credit_model_calls db)"
      using True e(3) by simp
    have re: "find_reservation e (call_reservation c) = Some r" using r by (simp add: found)
    have others: "find_reservation e q = find_reservation db q" for q by (simp add: found)
    note call = call_book [OF inv Some own r re refl refl refl refl others calls]
    have "call_view_of c = Waiting (bound_micro c) (sent c)" "call_view_of (mark_sent_row c) = Waiting (bound_micro c) True"
      using True by (simp_all add: call_view_of_def mark_sent_row_def)
    then have "book_step (book_of db) (book_of e)"
      using book_step.sends [where B = "book_of db", OF view(1,2)] call by simp
    with e(1) show ?thesis by (simp add: stepped_def)
  qed
qed

text \<open>A settled call changed nothing, or was a started call settled as its basis says.\<close>

lemma settle_call_cases:
  assumes inv: "sys_inv db" and run: "settleCall cid asked usage record db = Inr (out, e)"
  obtains "e = db"
  | c r rates s where "find_call db cid = Some c" "find_reservation db (call_reservation c) = Some r" "call_state c = Started"
    "modelRow (res_card r) (call_model c) db = Inr (Some rates)"
    "callSettlement (basisTheRowAgreesWith asked (sent c)) (bound_micro c) (max_output_tokens c) rates usage = Inr s"
    "e = settled_call_db db c (basisTheRowAgreesWith asked (sent c)) s record" "sys_inv e"
proof -
  from run have body: "settleCallIn cid asked usage record db = Inr (out, e)"
    by (auto simp: settleCall_def transaction_def result_simps split: if_splits)
  show thesis
  proof (cases "lockCallForSettlement cid db")
    case (Inr found)
    show thesis
    proof (cases "\<exists>c r. found = Some (c, r) \<and> call_state c = Started")
      case False
      then have "e = db"
        using body Inr by (cases found) (auto simp: settleCallIn_def result_simps split: if_splits call_state.splits
            intro: call_state.exhaust)
      then show thesis by (rule that(1))
    next
      case True
      then obtain c r where cr: "found = Some (c, r)" and started: "call_state c = Started" by blast
      with Inr have c: "find_call db cid = Some c" "find_reservation db (call_reservation c) = Some r"
        by (auto simp: lockCallForSettlement_def result_simps split: option.splits)
      from body Inr cr started obtain rates s where row: "modelRow (res_card r) (call_model c) db = Inr (Some rates)"
        and s: "callSettlement (basisTheRowAgreesWith asked (sent c)) (bound_micro c) (max_output_tokens c) rates usage = Inr s"
        by (auto simp: settleCallIn_def Let_def result_simps split: option.splits)
      have "tokens_fit (st_tokens s)" using settle_call_out_of_range [OF inv c started row s, of "record"] run by auto
      note effect = settle_call_effect [OF inv c started row s this, of "record"]
      from run effect(1) have "e = settled_call_db db c (basisTheRowAgreesWith asked (sent c)) s record" by simp
      with effect(2) show thesis using that(2) [OF c started row s] by simp
    qed
  qed (use body in \<open>simp add: settleCallIn_def\<close>)
qed

lemma settle_call_stepped:
  assumes inv: "sys_inv db" and run: "settleCall cid asked usage record db = Inr (out, e)"
  shows "stepped db e"
  using inv run
proof (cases rule: settle_call_cases)
  case 1
  with inv show ?thesis by (simp add: stepped_refl)
next
  case (2 c r rates s)
  note c = 2(1,2) and started = 2(3) and s = 2(5) and e = 2(6)
  let ?b = "basisTheRowAgreesWith asked (sent c)"
  note opn = started_task_open [OF inv c(1) started c(2)]
  note view = open_view [OF inv c(2) opn] and charge = settled_charge_checks [OF s]
  let ?g = "settle_call_row ?b s record (db_now db)"
  have own: "keeps_owner ?g" by (simp add: keeps_owner_def settle_call_row_def)
  have id: "call_id c = cid" using find_call_Some [OF c(1)] by simp
  have found: "find_reservation e q = (if q = call_reservation c then map_option (move_committed (st_chargedMicro s - bound_micro c))
      (find_reservation db q) else find_reservation db q)" for q
    by (simp add: e settled_call_db_def find_put_task move_committed_def)
  let ?r = "move_committed (st_chargedMicro s - bound_micro c) r"
  have re: "find_reservation e (call_reservation c) = Some ?r" using c(2) by (simp add: found)
  have calls: "credit_model_calls e = update_where (\<lambda>q. call_id q = cid) ?g (credit_model_calls db)"
    by (simp add: e settled_call_db_def id)
  have kept: "res_id ?r = res_id r" "res_mode ?r = res_mode r" "reserved ?r = reserved r" "res_charged ?r = res_charged r"
    by (simp_all add: move_committed_def)
  have others: "find_reservation e q = find_reservation db q" if "q \<noteq> call_reservation c" for q using that by (simp add: found)
  note call = call_book [OF inv c(1) own c(2) re kept others calls]
  have "call_view_of c = Waiting (bound_micro c) (sent c)" "call_view_of (?g c) = Paid (st_chargedMicro s)"
    using started by (simp_all add: call_view_of_def settle_call_row_def charged_or_0_def)
  moreover have "0 \<le> st_chargedMicro s" "st_chargedMicro s \<le> bound_micro c" using charge(1) by (simp_all add: charge_checks_def)
  ultimately have "book_step (book_of db) (book_of e)"
    using book_step.pays [where B = "book_of db", OF view(1,2)] call charge(2) by auto
  with 2(7) show ?thesis by (simp add: stepped_def)
qed

subsection \<open>The end of a task\<close>

lemma crashed_view:
  "map (\<lambda>c. (call_id c, call_view_of c)) (calls_of (crashed_db rid db) rid) =
   map (\<lambda>p. (fst p, Paid (final_cost (snd p)))) (map (\<lambda>c. (call_id c, call_view_of c)) (calls_of db rid))"
proof -
  have "map (\<lambda>c. (call_id c, call_view_of c))
        (filter (\<lambda>c. call_reservation c = rid) (update_where (unfinished rid) (crash_settle_row t) cs)) =
      map (\<lambda>c. (call_id c, Paid (final_cost (call_view_of c)))) (filter (\<lambda>c. call_reservation c = rid) cs)" for t cs
    by (induction cs) (auto simp: unfinished_def call_view_of_def charged_or_0_def crash_charge_def crash_settle_row_def)
  then show ?thesis by (simp add: crashed_finds(2)) (simp add: calls_of_def)
qed

lemma settled_book:
  assumes inv: "sys_inv db" and r: "find_reservation db rid = Some r" "res_state r = Open"
    and e: "sys_inv e" "settles_only a rid db e" "find_reservation e rid = Some (final_row db rid why r)"
      "calls_of e rid = calls_of (crashed_db rid db) rid"
  shows "stepped db e"
proof -
  note view = open_view [OF inv r]
  have id: "res_id r = rid" using find_reservation_Some [OF r(1)] by simp
  have others: "find_reservation e q = find_reservation db q \<and> calls_of e q = calls_of db q" if "q \<noteq> rid" for q
    using e(2) that by (simp add: settles_only_def)
  have row: "reserved (final_row db rid why r) = reserved r" by (simp add: final_row_def settled_row_def set_committed_def)
  have "task_view_of e (final_row db rid why r) = end_task (task_view_of db r)"
    using e(4) crashed_view [of rid db] view_final [of db r] id row unfolding end_task_def
    by (simp add: task_view_of_def)
  with book_change [OF others e(3)] have "book_of e = (book_of db)(rid \<mapsto> end_task (task_view_of db r))" by simp
  with book_step.closes [where B = "book_of db", OF view(1,2)] e(1) show ?thesis by (simp add: stepped_def)
qed

text \<open>What a settlement is handed: room for the rows it writes, and amounts JavaScript can hold.\<close>

definition settle_room :: "db \<Rightarrow> uuid \<Rightarrow> bool" where
  "settle_room db rid \<longleftrightarrow>
     (case find_reservation db rid of None \<Rightarrow> True
      | Some r \<Rightarrow> account_debt db (res_account r) \<le> MAX_SAFE \<and>
          (if res_mode r = Enforce then settle_headroom db (res_account r) else committed r \<le> MAX_SAFE))"

lemma insert_account_found: "find_account db a \<noteq> None \<Longrightarrow> insert_account a db = db"
  by (simp add: insert_account_def)

lemma task_account_found:
  assumes "sys_inv db" "find_reservation db rid = Some r"
  shows "find_account db (res_account r) \<noteq> None"
  using sys_invD(3) [OF assms(1)] find_reservation_Some [OF assms(2)] by (auto simp: task_rows_ok_def)

lemma settle_stepped:
  assumes inv: "sys_inv db" and room: "settle_room db rid" and new_id: "\<And>d. uuid_ok (new_id d)"
    and run: "settleIn new_id rid why db = Inr (res, e)"
  shows "stepped db e"
proof (cases "find_reservation db rid")
  case None
  with run have "e = db" by (simp add: settleIn_def accountOf_def)
  with inv show ?thesis by (simp add: stepped_refl)
next
  case (Some r)
  from room Some have debt: "account_debt db (res_account r) \<le> MAX_SAFE"
    and sized: "if res_mode r = Enforce then settle_headroom db (res_account r) else committed r \<le> MAX_SAFE"
    by (simp_all add: settle_room_def)
  show ?thesis
  proof (cases "res_state r")
    case Settled
    obtain acct where lock: "lockAccount (res_account r) db = Inr (acct, db)"
      using lock_account_sound [OF inv task_account_found [OF inv Some] debt] by blast
    from run Some lock Settled have "e = db"
      by (auto simp: settleIn_def accountOf_def lockReservation_def result_simps)
    with inv show ?thesis by (simp add: stepped_refl)
  next
    case Open
    show ?thesis
    proof (cases "res_mode r")
      case Enforce
      with sized have "settle_headroom db (res_account r)" by simp
      from settle_effect [where new_id = new_id and why = why, OF inv Some Open Enforce this new_id]
      obtain res' e' where "settleIn new_id rid why db = Inr (res', e')" "sys_inv e'"
        "find_reservation e' rid = Some (final_row db rid why r)" "settles_only (res_account r) rid db e'"
        "calls_of e' rid = calls_of (crashed_db rid db) rid" by metis
      with run settled_book [OF inv Some Open] show ?thesis by simp
    next
      case Shadow
      with sized have small: "committed r \<le> MAX_SAFE" by simp
      from run shadow_settle_effect(1) [OF inv Some Open Shadow debt small, of new_id why] have "e = ended_db rid why db" by simp
      with settled_book [OF inv Some Open ended_sound(1) [OF inv Some Open Shadow] ended_settles_only ended_found [OF Some] ended_calls]
      show ?thesis by simp
    qed
  qed
qed

lemma transaction_Inr: "transaction body db = Inr (x, e) \<Longrightarrow> body db = Inr (x, e)"
  by (auto simp: transaction_def result_simps split: if_splits)

lemma sweep_stepped:
  assumes inv: "sys_inv db" and room: "settle_room db rid" and new_id: "\<And>d. uuid_ok (new_id d)"
    and a: "accountOf rid db = Some a" and run: "settleOneLapsed new_id rid a db = Inr (out, e)"
  shows "stepped db e"
proof -
  obtain r where r: "find_reservation db rid = Some r" "a = res_account r" using a by (auto simp: accountOf_def)
  have same: "insert_account a db = db" using task_account_found [OF inv r(1)] r(2) by (simp add: insert_account_found)
  have "settleLapsedIn new_id rid a db = Inr (out, e)"
    using run unfolding settleOneLapsed_def by (rule transaction_Inr)
  then consider "e = db" | why res where "settleIn new_id rid why db = Inr (res, e)"
    by (auto simp: settleLapsedIn_def lockAccount_Inr same result_simps split: option.splits)
  then show ?thesis
  proof cases
    case 1
    with inv show ?thesis by (simp add: stepped_refl)
  next
    case 2
    from settle_stepped [OF inv room new_id 2] show ?thesis .
  qed
qed

subsection \<open>Leases and time\<close>

lemma leases_stepped:
  assumes inv: "sys_inv db"
    and run: "update_reservations P (set_lease t) db = Inr (rows, e)"
  shows "stepped db e"
proof -
  note ok = sys_invD [OF inv]
  let ?e = "db\<lparr>credit_reservations := update_where P (set_lease t) (credit_reservations db)\<rparr>"
  from run have e: "e = ?e" by (auto simp: update_reservations_def Let_def split: if_splits)
  have lookup: "find_reservation ?e i = map_option (\<lambda>r. if P r then set_lease t r else r) (find_reservation db i)" for i
  proof -
    have "lookup_by res_id i (update_where P (set_lease t) rs) = map_option (\<lambda>r. if P r then set_lease t r else r) (lookup_by res_id i rs)" for rs
      by (induction rs) (auto simp: set_lease_def)
    then show ?thesis by (simp add: find_reservation_def)
  qed
  have kept: "res_id (set_lease t r) = res_id r" "res_account (set_lease t r) = res_account r" "res_mode (set_lease t r) = res_mode r"
    "res_state (set_lease t r) = res_state r" "reserved (set_lease t r) = reserved r" "res_card (set_lease t r) = res_card r"
    "res_slot (set_lease t r) = res_slot r" "committed (set_lease t r) = committed r" "res_charged (set_lease t r) = res_charged r" for r
    by (simp_all add: set_lease_def)
  have member: "\<exists>p\<in>set (credit_reservations db). q = p \<or> q = set_lease t p" if "q \<in> set (credit_reservations ?e)" for q
    using that by (auto simp: set_update_where)
  have ids: "map res_id (update_where P (set_lease t) rs) = map res_id rs" for rs by (induction rs) (auto simp: kept)
  have slots: "map res_slot (filter (open_enforce a) (update_where P (set_lease t) rs)) = map res_slot (filter (open_enforce a) rs)" for a rs
    by (induction rs) (auto simp: kept open_enforce_def)
  have same: "calls_of ?e = calls_of db" "holds_of ?e = holds_of db" "charges_of ?e = charges_of db" "find_account ?e = find_account db"
    by simp_all
  have check: "credit_check_reservation ?e i = credit_check_reservation db i" for i
    unfolding credit_check_reservation_def lookup same by (cases "find_reservation db i") (simp_all add: kept)
  have "task_rows_ok ?e"
    unfolding task_rows_ok_def lookup same
  proof (intro conjI ballI)
    fix q assume "q \<in> set (credit_reservations ?e)"
    from member [OF this] ok(3) show "reservation_checks q" "uuid_ok (res_id q)" "reserved q \<le> MAX_SAFE" "safe_int (res_card q)"
      "find_account db (res_account q) \<noteq> None" by (auto simp: task_rows_ok_def kept set_lease_checks)
  next
    fix c assume "c \<in> set (credit_model_calls ?e)"
    then have "c \<in> set (credit_model_calls db)" by simp
    with ok(3) obtain r where "call_checks c" "find_reservation db (call_reservation c) = Some r" "res_account r = call_account c"
      by (auto simp: task_rows_ok_def)
    then show "call_checks c" "\<exists>r. map_option (\<lambda>r. if P r then set_lease t r else r) (find_reservation db (call_reservation c)) = Some r \<and>
        res_account r = call_account c" by (auto simp: kept)
  next
    fix h assume "h \<in> set (credit_reservation_holds ?e)"
    then have "h \<in> set (credit_reservation_holds db)" by simp
    with ok(3) obtain r where "find_reservation db (hold_reservation h) = Some r" "res_account r = hold_account h" "res_mode r = Enforce"
      "(released_at h = None) = (hold_charged h = None)" by (fastforce simp: task_rows_ok_def)
    then show "\<exists>r. map_option (\<lambda>r. if P r then set_lease t r else r) (find_reservation db (hold_reservation h)) = Some r \<and>
        res_account r = hold_account h \<and> res_mode r = Enforce" "(released_at h = None) = (hold_charged h = None)" by (auto simp: kept)
  qed (use ok(3) in \<open>simp_all add: task_rows_ok_def ids\<close>)
  moreover have "tasks_balanced ?e"
    unfolding tasks_balanced_def check same
  proof (intro ballI)
    fix q assume "q \<in> set (credit_reservations ?e)"
    from member [OF this] ok(5) show "credit_check_reservation db (res_id q) \<and> (res_state q = Open \<longrightarrow>
        (\<forall>h\<in>set (holds_of db (res_id q)). released_at h = None) \<and> charges_of db (res_id q) = [] \<and>
        (\<forall>x\<in>set (credit_ledger ?e). \<not> task_key (res_id q) (idempotency_key x)))"
      by (auto simp: tasks_balanced_def kept)
  qed
  moreover have "slots_ok ?e" using ok(4) by (simp add: slots_ok_def slots)
  moreover have "claims_ok ?e" using ok(6) by (simp add: claims_ok_def)
  moreover have "db_inv ?e" "hygiene ?e" using ok(1,2) db_inv_cong [of ?e db] hygiene_cong [of ?e db] by simp_all
  ultimately have "sys_inv ?e" by (simp add: sys_inv_def task_inv_def)
  moreover have "book_of ?e = book_of db"
    by (rule book_same) (simp_all add: lookup option.map_comp comp_def kept if_distrib cong: if_cong)
  ultimately show ?thesis by (simp add: stepped_def e)
qed

text \<open>Operations that leave the tables of tasks alone.\<close>

lemma tasks_untouched:
  assumes inv: "sys_inv db" and e: "db_inv e" "hygiene e" "credit_reservations e = credit_reservations db"
    "credit_model_calls e = credit_model_calls db" "credit_reservation_holds e = credit_reservation_holds db"
    "credit_ledger e = credit_ledger db" "credit_clawbacks e = credit_clawbacks db"
    and accounts: "\<And>a. find_account db a \<noteq> None \<Longrightarrow> find_account e a \<noteq> None"
  shows "sys_inv e" "book_of e = book_of db"
proof -
  note ok = sys_invD [OF inv]
  have same: "find_reservation e = find_reservation db" "calls_of e = calls_of db" "holds_of e = holds_of db" "charges_of e = charges_of db"
    using e(3-6) by (simp_all add: fun_eq_iff find_reservation_def calls_of_def holds_of_def charges_of_def)
  show "book_of e = book_of db" by (rule book_same) (simp_all add: same)
  have "credit_check_reservation e i = credit_check_reservation db i" for i by (rule check_cong) (simp_all add: same)
  then have "tasks_balanced e" using ok(5) e(3,6) same by (simp add: tasks_balanced_def)
  moreover have "task_rows_ok e" using ok(3) accounts by (simp add: task_rows_ok_def same e(3-5) del: not_None_eq)
  moreover have "slots_ok e" "claims_ok e" using ok(4,6) e(3,7) by (simp_all add: slots_ok_def claims_ok_def)
  ultimately show "sys_inv e" using e(1,2) by (simp add: sys_inv_def task_inv_def)
qed

lemma clock_stepped: "sys_inv db \<Longrightarrow> stepped db (db\<lparr>db_now := t\<rparr>)"
proof -
  assume inv: "sys_inv db"
  have "db_inv (db\<lparr>db_now := t\<rparr>)" "hygiene (db\<lparr>db_now := t\<rparr>)"
    using sys_invD(1,2) [OF inv] db_inv_cong [of "db\<lparr>db_now := t\<rparr>" db] hygiene_cong [of "db\<lparr>db_now := t\<rparr>" db] by simp_all
  from tasks_untouched [OF inv this] show ?thesis by (simp add: stepped_def find_account_def)
qed

lemma insert_account_untouched:
  assumes "sys_inv db"
  shows "sys_inv (insert_account a db)" "book_of (insert_account a db) = book_of db"
proof -
  have "db_inv (insert_account a db)" by (rule insert_account_inv) (rule sys_invD(1) [OF assms])
  moreover have "hygiene (insert_account a db)"
    using sys_invD(2) [OF assms] hygiene_cong [of "insert_account a db" db] by (simp add: insert_account_def)
  moreover have "find_account (insert_account a db) b \<noteq> None" if "find_account db b \<noteq> None" for b
    using that by (auto simp: insert_account_def find_account_def lookup_by_append split: option.splits)
  ultimately show "sys_inv (insert_account a db)" "book_of (insert_account a db) = book_of db"
    using tasks_untouched [OF assms, of "insert_account a db"] by (simp_all add: insert_account_def)
qed

subsection \<open>The start of a task\<close>

text \<open>
  No reversal waits for nothing: an account with a claim still pending has an enforced task open, whose end will
  pay it or turn it into debt.
\<close>

definition claims_backed :: "db \<Rightarrow> bool" where
  "claims_backed db \<longleftrightarrow>
     (\<forall>c\<in>set (credit_clawbacks db). 0 < cb_pending c \<longrightarrow> cb_state c = Applied \<and>
        list_ex (open_enforce (cb_account c)) (credit_reservations db))"

text \<open>
  What the service relies on of the refresh it is built with: it keeps the tables sound, leaves tasks, calls
  and rate cards alone, and leaves no claim without an open task behind.
\<close>

definition refresh_sound :: "refresher \<Rightarrow> bool" where
  "refresh_sound refresh \<longleftrightarrow>
     (\<forall>f a d d'. refresh = Some f \<longrightarrow> sys_inv d \<longrightarrow> f a d = Inr ((), d') \<longrightarrow>
        sys_inv d' \<and> credit_reservations d' = credit_reservations d \<and> credit_model_calls d' = credit_model_calls d \<and>
        credit_rate_cards d' = credit_rate_cards d \<and> credit_rate_card_models d' = credit_rate_card_models d \<and>
        (claims_backed d \<longrightarrow> claims_backed d'))"

lemma same_book:
  "credit_reservations d' = credit_reservations d \<Longrightarrow> credit_model_calls d' = credit_model_calls d \<Longrightarrow> book_of d' = book_of d"
  by (rule book_same) (simp_all add: find_reservation_def calls_of_def fun_eq_iff)

lemma refreshed_sound:
  assumes "sys_inv db" "refresh_sound refresh"
  shows "sys_inv (refreshed refresh a db)" "book_of (refreshed refresh a db) = book_of db"
proof -
  note acct = insert_account_untouched [OF assms(1), of a]
  have "sys_inv (refreshed refresh a db) \<and> book_of (refreshed refresh a db) = book_of db"
  proof (cases refresh)
    case None
    with acct show ?thesis by (simp add: refreshed_def refreshUnderSavepoint_def)
  next
    case (Some f)
    show ?thesis
    proof (cases "f a (insert_account a db)")
      case (Inr p)
      then have d: "f a (insert_account a db) = Inr ((), snd p)" "refreshed refresh a db = snd p"
        using Some by (cases p, simp add: refreshed_def refreshUnderSavepoint_def)+
      have "sys_inv (snd p)" "credit_reservations (snd p) = credit_reservations (insert_account a db)"
        "credit_model_calls (snd p) = credit_model_calls (insert_account a db)"
        using assms(2) Some acct(1) d(1) unfolding refresh_sound_def by blast+
      with d(2) acct(2) same_book show ?thesis by metis
    qed (use Some acct in \<open>simp add: refreshed_def refreshUnderSavepoint_def\<close>)
  qed
  then show "sys_inv (refreshed refresh a db)" "book_of (refreshed refresh a db) = book_of db" by blast+
qed

definition start_ready :: "refresher \<Rightarrow> CreditReserveInput \<Rightarrow> db \<Rightarrow> bool" where
  "start_ready refresh input db \<longleftrightarrow>
     start_input_ok (refreshed refresh (ri_account input) db) input \<and>
     account_debt (refreshed refresh (ri_account input) db) (ri_account input) \<le> MAX_SAFE"

lemma started_book:
  assumes "sys_inv d" "start_input_ok d input" "0 < min (pm_maxReserve p) (free_credit d (ri_account input))"
  shows "book_step (book_of d) (book_of (started_db input p d s))"
proof -
  let ?r = "started_row input p d s"
  have row: "res_id ?r = ri_reservation input" "res_charged ?r = None"
    "reserved ?r = min (pm_maxReserve p) (free_credit d (ri_account input))"
    by (simp_all add: started_row_def reservation_row_def new_reservation_def Let_def)
  note frame = placed_frame [of "ri_reservation input" "ri_account input"
      "draw (min (pm_maxReserve p) (free_credit d (ri_account input))) (spend_purses d (ri_account input))" "start_db ?r d"]
  show ?thesis
    by (rule start_book [where r = ?r])
      (use assms row frame in \<open>simp_all add: start_input_ok_def started_db_def start_db_def\<close>)
qed

lemma reserve_enforced_cases:
  assumes inv: "sys_inv d" and d: "d = refreshed refresh (ri_account input) db" and new: "start_input_ok d input"
    and debt: "account_debt d (ri_account input) \<le> MAX_SAFE" and run: "reserveEnforce refresh input db = Inr (out, e)"
  obtains "e = d"
  | p s where "e = started_db input p d s" "sys_inv e" "0 < min (pm_maxReserve p) (free_credit d (ri_account input))"
proof -
  let ?a = "ri_account input"
  have acct: "find_account d ?a \<noteq> None" using new by (simp add: start_input_ok_def)
  then obtain c where c: "find_account d ?a = Some c" by blast
  then have small: "debt_micro c \<le> MAX_SAFE" using debt by (simp add: account_debt_def)
  from run obtain acct1 where lock: "lockAccount ?a db = Inr (acct1, insert_account ?a db)"
    by (auto simp: reserveEnforce_def result_simps lockAccount_Inr)
  have refresh: "refreshUnderSavepoint refresh ?a (insert_account ?a db) = d" by (simp add: d refreshed_def)
  from run lock refresh obtain priced where priced: "priceModel (ri_model input) d = Inr priced"
    by (auto simp: reserveEnforce_def Let_def result_simps)
  show thesis
  proof (cases priced)
    case None
    with run lock refresh priced have "refused ?a RefusedModel (deploymentKeyModelRefusal (ri_model input)) None None None d = Inr (out, e)"
      by (simp add: reserveEnforce_def Let_def)
    with refused_Inr [OF this c] that(1) show thesis by simp
  next
    case (Some p)
    with priced have price: "priceModel (ri_model input) d = Inr (Some p)" by simp
    show thesis
    proof (cases "may_start d input p")
      case True
      from reserve_started [OF lock refresh inv price True new] run
      obtain s where s: "e = started_db input p d s" "sys_inv (started_db input p d s)"
        "0 < min (pm_maxReserve p) (free_credit d ?a)" by (metis Pair_inject sum.inject(2))
      then show thesis using that(2) by simp
    next
      case False
      note steps = reserve_checks [OF lock refresh inv c small price refl]
      have "e = d"
      proof (cases "MAX_ENFORCED_TASKS \<le> int (length (filter (open_enforce ?a) (credit_reservations d)))")
        case True
        with run steps refused_Inr [OF _ c] show ?thesis by auto
      next
        case few: False
        show ?thesis
        proof (cases "0 < debt_micro c")
          case True
          with few run steps refused_Inr [OF _ c] show ?thesis by auto
        next
          case paid: False
          have "0 \<le> debt_micro c" using debt_nonneg [OF sys_invD(1) [OF inv], of ?a] c by (simp add: account_debt_def)
          with paid few False c have "free_credit d ?a < pm_minStart p"
            by (simp add: may_start_def account_debt_def MAX_ENFORCED_TASKS_def)
          with few paid run steps refused_Inr [OF _ c] show ?thesis by (auto simp: result_simps)
        qed
      qed
      then show thesis by (rule that(1))
    qed
  qed
qed

lemma reserve_enforced_stepped:
  assumes inv: "sys_inv d" and d: "d = refreshed refresh (ri_account input) db" and new: "start_input_ok d input"
    and debt: "account_debt d (ri_account input) \<le> MAX_SAFE" and run: "reserveEnforce refresh input db = Inr (out, e)"
  shows "stepped d e"
  using inv d new debt run
proof (cases rule: reserve_enforced_cases)
  case 1
  with inv show ?thesis by (simp add: stepped_refl)
next
  case (2 p s)
  with started_book [OF inv new 2(3)] show ?thesis by (simp add: stepped_def)
qed

lemma reserve_stepped:
  assumes inv: "sys_inv db" and refresh: "refresh_sound refresh" and ready: "start_ready refresh input db"
    and run: "reserve refresh input db = Inr (out, e)"
  shows "stepped db e"
proof -
  let ?d = "refreshed refresh (ri_account input) db"
  note d = refreshed_sound [OF inv refresh, of "ri_account input"]
  from ready have new: "start_input_ok ?d input" "account_debt ?d (ri_account input) \<le> MAX_SAFE" by (simp_all add: start_ready_def)
  then have acct: "find_account ?d (ri_account input) \<noteq> None" "fresh_task ?d (ri_reservation input)" "cards_ok ?d"
    by (simp_all add: start_input_ok_def)
  show ?thesis
  proof (cases "ri_mode input")
    case Enforce
    with run have "reserveEnforce refresh input db = Inr (out, e)" by (auto simp: reserve_def dest: transaction_Inr)
    from reserve_enforced_stepped [OF d(1) refl new this] show ?thesis by (rule stepped_same [OF d])
  next
    case Shadow
    from reserve_shadow_Inr [OF run Shadow acct(1)] consider "e = db" | "e = ?d"
      | r where "e = start_db r ?d" "shadow_row ?d input r" by blast
    then show ?thesis
    proof cases
      case 1
      with inv show ?thesis by (simp add: stepped_refl)
    next
      case 2
      with d show ?thesis by (simp add: stepped_def)
    next
      case 3
      then have r: "res_id r = ri_reservation input" "res_account r = ri_account input" "res_mode r = Shadow" "res_state r = Open"
        "committed r = 0" "res_charged r = None" "reservation_checks r" "reserved r \<le> MAX_SAFE"
        "list_ex (\<lambda>c. card_version c = res_card r) (credit_rate_cards ?d)" by (simp_all add: shadow_row_def)
      have card: "safe_int (res_card r)" using r(9) acct(3) by (auto simp: cards_ok_def list_ex_iff)
      have fresh: "fresh_task ?d (res_id r)" "find_account ?d (res_account r) \<noteq> None" using r(1,2) acct by simp_all
      have "sys_inv e" unfolding 3(1) by (rule start_shadow_sound [OF d(1) fresh(1) r(3-5,7,8) card fresh(2)])
      moreover have "book_step (book_of ?d) (book_of e)"
        by (rule start_book [where r = r, OF d(1) fresh(1) reservation_checksD(2) [OF r(7)] r(6)])
          (simp_all add: 3(1) start_db_def)
      ultimately show ?thesis using d(2) by (simp add: stepped_def)
    qed
  qed
qed

end
