(* ===== verification/Rate_Publisher.thy ===== *)
theory Rate_Publisher
  imports Rate_Cards Complex_Main
begin

section \<open>Deriving and publishing a rate card\<close>

text \<open>
  \<^verbatim>\<open>services/credit-rate-card-publisher.ts\<close> and the three rate card routes of
  \<^verbatim>\<open>routes/admin-ai-credits.ts\<close> with their helpers in \<^verbatim>\<open>services/admin-credits.ts\<close>: every price of a
  new card is the registry's list price times the markup, or the card is refused with every reason.
  The server computes the products in binary floats and takes a product within \<open>10\<^sup>-\<^sup>9\<close> of a whole
  number as that number; here the product is the exact rational with the same tolerance.
\<close>

subsection \<open>A draft and its refusals\<close>

datatype AiCreditsModelDecision = DecidedOnCredits | DecidedOwnKeyOnly

definition AI_CREDITS_MODEL_DECISION :: "(string \<times> AiCreditsModelDecision) list" where
  "AI_CREDITS_MODEL_DECISION =
     [(''claude-opus-5'', DecidedOwnKeyOnly), (''claude-sonnet-5'', DecidedOnCredits),
      (''claude-opus-4-8'', DecidedOwnKeyOnly), (''claude-opus-4-7'', DecidedOwnKeyOnly),
      (''claude-sonnet-4-6'', DecidedOnCredits), (''claude-haiku-4-5'', DecidedOnCredits)]"

record RateCardModelTerms =
  terms_model :: string
  terms_minStart :: int
  terms_maxReserve :: int

record RateCardDraft =
  draft_markupBp :: int
  draft_models :: "RateCardModelTerms list"

datatype RateCardPriceField =
    InputPrice | OutputPrice | CacheReadPrice | CacheWrite5mPrice | CacheWrite1hPrice
  | ListInputPrice | ListOutputPrice

datatype RateCardDraftRefusal =
    NoModels
  | MarkupOutOfRange int
  | DuplicateModel string
  | ModelOwnKeyOnly string
  | ModelUnpriced string
  | PriceNotWhole string RateCardPriceField
  | RateOrder string
  | ReserveBounds string

datatype RateCardDraftResult =
    DraftOk int "(string \<times> CreditRateCardModelRow) list"
  | DraftRefused "RateCardDraftRefusal list"

record RateCardSources =
  src_registry :: "(string \<times> AgentModelInfo) list"
  src_keyPolicy :: "(string \<times> AgentModelKeyPolicy) list"
  src_decisions :: "(string \<times> AiCreditsModelDecision) list"

definition SHIPPED_SOURCES :: RateCardSources where
  "SHIPPED_SOURCES =
     \<lparr>src_registry = CLAUDE_MODELS, src_keyPolicy = CLAUDE_MODEL_KEY_POLICY,
      src_decisions = AI_CREDITS_MODEL_DECISION\<rparr>"

definition MARKUP_BASIS_POINTS_PER_UNIT :: int where
  "MARKUP_BASIS_POINTS_PER_UNIT = 10000"

definition RATE_CARD_MIN_MARKUP_BP :: int where
  "RATE_CARD_MIN_MARKUP_BP = 1 * MARKUP_BASIS_POINTS_PER_UNIT"

definition RATE_CARD_MAX_MARKUP_BP :: int where
  "RATE_CARD_MAX_MARKUP_BP = 10 * MARKUP_BASIS_POINTS_PER_UNIT"

definition WHOLE_TOLERANCE :: rat where
  "WHOLE_TOLERANCE = 1 / 10 ^ 9"

text \<open>\<^verbatim>\<open>Math.round\<close> rounds a half upwards. A rational is always finite.\<close>

definition wholeOrNull :: "rat \<Rightarrow> int option" where
  "wholeOrNull v =
     (let rounded = \<lfloor>v + 1 / 2\<rfloor>
      in if \<bar>v - of_int rounded\<bar> > WHOLE_TOLERANCE then None
         else if safe_int rounded then Some rounded else None)"

text \<open>
  Tenths of a cent per thousand tokens times 100 are cents per thousand times 1000: microcents per
  token, which is microcredits per token at a markup of one.
\<close>

definition wanted_prices :: "AgentModelInfo \<Rightarrow> int \<Rightarrow> (RateCardPriceField \<times> rat) list" where
  "wanted_prices info markupBp =
     (let markup = of_int markupBp / of_int MARKUP_BASIS_POINTS_PER_UNIT;
          listIn = of_int (inputTenthCentsPer1k info) / 10 * 1000;
          listOut = of_int (outputTenthCentsPer1k info) / 10 * 1000
      in [(InputPrice, listIn * markup),
          (OutputPrice, listOut * markup),
          (CacheReadPrice, listIn * (of_int (cacheReadPercent info) / 100) * markup),
          (CacheWrite5mPrice, listIn * (of_int (cacheWrite5mPercent info) / 100) * markup),
          (CacheWrite1hPrice, listIn * (of_int (cacheWrite1hPercent info) / 100) * markup),
          (ListInputPrice, listIn),
          (ListOutputPrice, listOut)])"

definition whole_prices :: "AgentModelInfo \<Rightarrow> int \<Rightarrow> (RateCardPriceField \<times> int option) list" where
  "whole_prices info markupBp = map (\<lambda>(f, v). (f, wholeOrNull v)) (wanted_prices info markupBp)"

text \<open>The row of a complete set of prices (\<^verbatim>\<open>isComplete\<close>), with its terms.\<close>

definition price_row :: "RateCardModelTerms \<Rightarrow> (RateCardPriceField \<times> int option) list
    \<Rightarrow> CreditRateCardModelRow option" where
  "price_row terms prices =
     (let p = (\<lambda>f. case map_of prices f of None \<Rightarrow> None | Some w \<Rightarrow> w)
      in Option.bind (p InputPrice) (\<lambda>i. Option.bind (p OutputPrice) (\<lambda>out.
         Option.bind (p CacheReadPrice) (\<lambda>rd. Option.bind (p CacheWrite5mPrice) (\<lambda>w5.
         Option.bind (p CacheWrite1hPrice) (\<lambda>w1. Option.bind (p ListInputPrice) (\<lambda>li.
         Option.bind (p ListOutputPrice) (\<lambda>lo.
           Some \<lparr>inputMicroPerToken = i, outputMicroPerToken = out, cacheReadMicroPerToken = rd,
                 cacheWrite5mMicroPerToken = w5, cacheWrite1hMicroPerToken = w1,
                 minStartMicro = terms_minStart terms, maxReserveMicro = terms_maxReserve terms,
                 listInputMicrocentsPerToken = li, listOutputMicrocentsPerToken = lo\<rparr>))))))))"

definition card_rates_ordered :: "'a CreditRates_scheme \<Rightarrow> bool" where
  "card_rates_ordered r \<longleftrightarrow>
     cacheReadMicroPerToken r \<ge> 0 \<and> cacheReadMicroPerToken r \<le> inputMicroPerToken r \<and>
     inputMicroPerToken r \<le> cacheWrite5mMicroPerToken r \<and>
     cacheWrite5mMicroPerToken r \<le> cacheWrite1hMicroPerToken r"

definition reserve_bounds_ok :: "RateCardModelTerms \<Rightarrow> bool" where
  "reserve_bounds_ok terms \<longleftrightarrow>
     safe_int (terms_minStart terms) \<and> safe_int (terms_maxReserve terms) \<and>
     terms_minStart terms > 0 \<and> terms_maxReserve terms \<ge> terms_minStart terms"

definition markup_ok :: "int \<Rightarrow> bool" where
  "markup_ok bp \<longleftrightarrow> safe_int bp \<and> bp \<ge> RATE_CARD_MIN_MARKUP_BP \<and> bp \<le> RATE_CARD_MAX_MARKUP_BP"

text \<open>One model of the draft: its refusals, and its row when it has none.\<close>

definition derive_model :: "RateCardSources \<Rightarrow> int \<Rightarrow> string list \<Rightarrow> RateCardModelTerms
    \<Rightarrow> RateCardDraftRefusal list \<times> CreditRateCardModelRow list" where
  "derive_model s bp seen terms =
     (let model = terms_model terms in
      if model \<in> set seen then ([DuplicateModel model], [])
      else case (if model \<in> set AgentModels then map_of (src_registry s) model else None) of
        None \<Rightarrow> ([ModelUnpriced model], [])
      | Some info \<Rightarrow>
          if contains_opus model \<or> map_of (src_keyPolicy s) model \<noteq> Some AnyKey \<or>
             map_of (src_decisions s) model \<noteq> Some DecidedOnCredits
          then ([ModelOwnKeyOnly model], [])
          else if \<not> inputTenthCentsPer1k info > 0 \<or> \<not> outputTenthCentsPer1k info > 0
          then ([ModelUnpriced model], [])
          else
            let bounds = (if reserve_bounds_ok terms then [] else [ReserveBounds model]) in
            if \<not> markup_ok bp then (bounds, [])
            else
              let prices = whole_prices info bp;
                  broken = map (\<lambda>(f, _). PriceNotWhole model f) (filter (\<lambda>(_, w). w = None) prices)
              in case price_row terms prices of
                   None \<Rightarrow> (bounds @ broken, [])
                 | Some row \<Rightarrow>
                     if \<not> card_rates_ordered row then (bounds @ broken @ [RateOrder model], [])
                     else (bounds @ broken, if reserve_bounds_ok terms then [row] else []))"

fun derive_models :: "RateCardSources \<Rightarrow> int \<Rightarrow> string list \<Rightarrow> RateCardModelTerms list
    \<Rightarrow> RateCardDraftRefusal list \<times> (string \<times> CreditRateCardModelRow) list" where
  "derive_models s bp seen [] = ([], [])"
| "derive_models s bp seen (t # ts) =
     (let one = derive_model s bp seen t; rest = derive_models s bp (terms_model t # seen) ts
      in (fst one @ fst rest, map (Pair (terms_model t)) (snd one) @ snd rest))"

definition deriveRateCardRows :: "RateCardDraft \<Rightarrow> RateCardSources \<Rightarrow> RateCardDraftResult" where
  "deriveRateCardRows draft s =
     (let bp = draft_markupBp draft;
          derived = derive_models s bp [] (draft_models draft);
          refusals = (if markup_ok bp then [] else [MarkupOutOfRange bp]) @
                     (if draft_models draft = [] then [NoModels] else []) @ fst derived
      in if refusals \<noteq> [] then DraftRefused refusals else DraftOk bp (snd derived))"

subsection \<open>The models a card should price\<close>

definition BASE_TERMS_MODEL :: string where
  "BASE_TERMS_MODEL = ''claude-sonnet-5''"

definition BASE_MIN_START_MICRO :: int where
  "BASE_MIN_START_MICRO = 6000000"

definition BASE_MAX_RESERVE_MICRO :: int where
  "BASE_MAX_RESERVE_MICRO = 60000000"

definition candidate_terms :: "RateCardSources \<Rightarrow> int \<Rightarrow> string \<times> AgentModelInfo \<Rightarrow> RateCardModelTerms list" where
  "candidate_terms s baseOut p =
     (case p of (model, info) \<Rightarrow>
        if contains_opus model \<or> map_of (src_keyPolicy s) model \<noteq> Some AnyKey \<or>
           map_of (src_decisions s) model \<noteq> Some DecidedOnCredits \<or> \<not> outputTenthCentsPer1k info > 0
        then []
        else let ratio = of_int (outputTenthCentsPer1k info) / of_int baseOut in
          (case (wholeOrNull (of_int BASE_MIN_START_MICRO * ratio), wholeOrNull (of_int BASE_MAX_RESERVE_MICRO * ratio)) of
             (Some lo, Some hi) \<Rightarrow> [\<lparr>terms_model = model, terms_minStart = lo, terms_maxReserve = hi\<rparr>]
           | _ \<Rightarrow> []))"

definition candidateRateCardModels :: "RateCardSources \<Rightarrow> RateCardModelTerms list result" where
  "candidateRateCardModels s =
     (case map_of (src_registry s) BASE_TERMS_MODEL of
        None \<Rightarrow> Inl PlainError
      | Some base \<Rightarrow>
          if \<not> outputTenthCentsPer1k base > 0 then Inl PlainError
          else Inr (sort_key terms_model
                 (concat (map (candidate_terms s (outputTenthCentsPer1k base)) (src_registry s)))))"

subsection \<open>Whole prices\<close>

definition whole_10k :: "int \<Rightarrow> int option" where
  "whole_10k n = (if 10000 dvd n \<and> safe_int (n div 10000) then Some (n div 10000) else None)"

lemma whole_10k_Some: "whole_10k n = Some k \<longleftrightarrow> n = 10000 * k \<and> safe_int k"
  by (auto simp: whole_10k_def)

text \<open>
  A price is a whole number of ten-thousandths of a microcredit: far coarser than the tolerance, so
  it is whole for the server exactly when it is whole.
\<close>

lemma wholeOrNull_10k: "wholeOrNull (of_int n / 10000) = whole_10k n"
proof -
  have "(of_int n / 10000 :: rat) + 1 / 2 = of_int (n + 5000) / of_int 10000" by (simp add: field_simps)
  then obtain r where r: "\<lfloor>(of_int n / 10000 :: rat) + 1 / 2\<rfloor> = r" "r = (n + 5000) div 10000"
    by (simp only: floor_divide_of_int_eq)
  have gap: "of_int n / 10000 - of_int r = (of_int (n - 10000 * r) / 10000 :: rat)" by (simp add: diff_divide_distrib)
  show ?thesis
  proof (cases "n = 10000 * r")
    case True
    with r(1) show ?thesis by (simp add: wholeOrNull_def whole_10k_def WHOLE_TOLERANCE_def Let_def)
  next
    case False
    then have "1 \<le> \<bar>n - 10000 * r\<bar>" by linarith
    then have "(1 :: rat) \<le> \<bar>of_int (n - 10000 * r)\<bar>" by linarith
    then have "WHOLE_TOLERANCE < \<bar>of_int n / 10000 - of_int r :: rat\<bar>"
      unfolding gap abs_divide by (simp add: WHOLE_TOLERANCE_def)
    then have none: "wholeOrNull (of_int n / 10000) = None" by (simp add: wholeOrNull_def r(1))
    have "\<not> 10000 dvd n" using False r(2) by auto
    with none show ?thesis by (simp add: whole_10k_def)
  qed
qed

lemma whole_prices_10k:
  fixes info bp
  defines "t \<equiv> inputTenthCentsPer1k info" and "u \<equiv> outputTenthCentsPer1k info"
  shows "whole_prices info bp =
    [(InputPrice, whole_10k (100 * t * bp)), (OutputPrice, whole_10k (100 * u * bp)),
     (CacheReadPrice, whole_10k (t * cacheReadPercent info * bp)),
     (CacheWrite5mPrice, whole_10k (t * cacheWrite5mPercent info * bp)),
     (CacheWrite1hPrice, whole_10k (t * cacheWrite1hPercent info * bp)),
     (ListInputPrice, whole_10k (1000000 * t)), (ListOutputPrice, whole_10k (1000000 * u))]"
  unfolding whole_prices_def wanted_prices_def MARKUP_BASIS_POINTS_PER_UNIT_def t_def u_def
  by (simp add: Let_def field_simps flip: wholeOrNull_10k)

lemma whole_10k_list [simp]: "whole_10k (1000000 * t) = (if safe_int (100 * t) then Some (100 * t) else None)"
  by (auto simp: whole_10k_def)

text \<open>What a derived price row says: list price times markup, exactly.\<close>

definition at_markup :: "int \<Rightarrow> 'a CreditRateCardModelRow_scheme \<Rightarrow> bool" where
  "at_markup bp m \<longleftrightarrow>
     10000 * inputMicroPerToken m = listInputMicrocentsPerToken m * bp \<and>
     10000 * outputMicroPerToken m = listOutputMicrocentsPerToken m * bp"

lemma price_row_Some:
  assumes "price_row terms (whole_prices info bp) = Some row"
  shows "at_markup bp row"
    and "listInputMicrocentsPerToken row = 100 * inputTenthCentsPer1k info"
    and "listOutputMicrocentsPerToken row = 100 * outputTenthCentsPer1k info"
    and "minStartMicro row = terms_minStart terms" "maxReserveMicro row = terms_maxReserve terms"
    and "list_all safe_int [inputMicroPerToken row, outputMicroPerToken row, cacheReadMicroPerToken row,
      cacheWrite5mMicroPerToken row, cacheWrite1hMicroPerToken row, listInputMicrocentsPerToken row,
      listOutputMicrocentsPerToken row]"
  using assms unfolding price_row_def whole_prices_10k
  by (auto simp: bind_eq_Some_conv whole_10k_Some at_markup_def split: if_splits)

subsection \<open>What a card that is not refused says\<close>

definition priced_row :: "RateCardSources \<Rightarrow> int \<Rightarrow> string \<Rightarrow> CreditRateCardModelRow \<Rightarrow> bool" where
  "priced_row s bp model row \<longleftrightarrow>
     (\<exists>info. map_of (src_registry s) model = Some info \<and>
        listInputMicrocentsPerToken row = 100 * inputTenthCentsPer1k info \<and>
        listOutputMicrocentsPerToken row = 100 * outputTenthCentsPer1k info) \<and>
     map_of (src_keyPolicy s) model = Some AnyKey \<and> map_of (src_decisions s) model = Some DecidedOnCredits \<and>
     \<not> contains_opus model \<and> at_markup bp row \<and> rate_card_model_checks row \<and>
     list_all safe_int [inputMicroPerToken row, outputMicroPerToken row, cacheReadMicroPerToken row,
       cacheWrite5mMicroPerToken row, cacheWrite1hMicroPerToken row, minStartMicro row, maxReserveMicro row,
       listInputMicrocentsPerToken row, listOutputMicrocentsPerToken row]"

lemma marked_up_pos:
  assumes "10000 * (x :: int) = 100 * t * bp" "0 < t" "markup_ok bp"
  shows "0 < x"
proof -
  have "0 < 100 * t * bp"
    using assms(2,3) by (simp add: markup_ok_def RATE_CARD_MIN_MARKUP_BP_def MARKUP_BASIS_POINTS_PER_UNIT_def)
  with assms(1) show ?thesis by linarith
qed

lemma price_row_complete:
  "filter (\<lambda>(_, w). w = None) (whole_prices info bp) = [] \<Longrightarrow> price_row terms (whole_prices info bp) \<noteq> None"
  unfolding price_row_def whole_prices_10k by (auto simp: Let_def split: if_splits)

lemma derive_model_ok:
  assumes "derive_model s bp seen t = ([], rows)" "markup_ok bp"
  shows "terms_model t \<notin> set seen" "\<exists>row. rows = [row] \<and> priced_row s bp (terms_model t) row"
proof -
  from assms obtain info row where m: "terms_model t \<notin> set seen" "map_of (src_registry s) (terms_model t) = Some info"
    "map_of (src_keyPolicy s) (terms_model t) = Some AnyKey" "map_of (src_decisions s) (terms_model t) = Some DecidedOnCredits"
    "\<not> contains_opus (terms_model t)" "0 < inputTenthCentsPer1k info" "0 < outputTenthCentsPer1k info" "reserve_bounds_ok t"
    and row: "price_row t (whole_prices info bp) = Some row" "card_rates_ordered row" "rows = [row]"
    by (auto simp: derive_model_def Let_def price_row_complete split: if_splits option.splits)
  note p = price_row_Some [OF row(1)]
  from p(1-3) have "0 < inputMicroPerToken row" "0 < outputMicroPerToken row"
    using marked_up_pos [OF _ m(6) assms(2)] marked_up_pos [OF _ m(7) assms(2)] by (simp_all add: at_markup_def)
  then have "rate_card_model_checks row"
    using row(2) m(8) p(4,5) by (simp add: rate_card_model_checks_def card_rates_ordered_def reserve_bounds_ok_def)
  then have "priced_row s bp (terms_model t) row"
    using m p by (simp add: priced_row_def reserve_bounds_ok_def)
  with m(1) row(3) show "terms_model t \<notin> set seen" "\<exists>row. rows = [row] \<and> priced_row s bp (terms_model t) row" by auto
qed

lemma derive_models_ok:
  assumes "derive_models s bp seen ts = ([], rows)" "markup_ok bp"
  shows "map fst rows = map terms_model ts \<and> distinct (map fst rows) \<and> set (map fst rows) \<inter> set seen = {} \<and>
    (\<forall>(m, row)\<in>set rows. priced_row s bp m row)"
  using assms(1)
proof (induction ts arbitrary: seen rows)
  case (Cons t ts)
  from Cons.prems obtain one rest where run: "derive_model s bp seen t = ([], one)"
    "derive_models s bp (terms_model t # seen) ts = ([], rest)" "rows = map (Pair (terms_model t)) one @ rest"
    by (cases "derive_model s bp seen t", cases "derive_models s bp (terms_model t # seen) ts") (auto simp: Let_def)
  from derive_model_ok [OF run(1) assms(2)] obtain row where "one = [row]" "priced_row s bp (terms_model t) row"
    "terms_model t \<notin> set seen" by blast
  moreover note ih = Cons.IH [OF run(2)]
  moreover have "fst ` set rest = terms_model ` set ts" using ih by (metis list.set_map)
  ultimately show ?case using run(3) by auto
qed simp

lemma deriveRateCardRows_ok:
  assumes "deriveRateCardRows draft s = DraftOk bp rows"
  shows "bp = draft_markupBp draft" "markup_ok bp" "rows \<noteq> []" "map fst rows = map terms_model (draft_models draft)"
    "distinct (map fst rows)" "(m, row) \<in> set rows \<Longrightarrow> priced_row s bp m row"
proof -
  from assms obtain n where n: "bp = draft_markupBp draft" "markup_ok bp" "draft_models draft \<noteq> []"
    "derive_models s bp [] (draft_models draft) = ([], rows)"
    by (cases "derive_models s (draft_markupBp draft) [] (draft_models draft)")
       (auto simp: deriveRateCardRows_def Let_def split: if_splits)
  note d = derive_models_ok [OF n(4,2)]
  with n show "bp = draft_markupBp draft" "markup_ok bp" "rows \<noteq> []" "map fst rows = map terms_model (draft_models draft)"
    "distinct (map fst rows)" "(m, row) \<in> set rows \<Longrightarrow> priced_row s bp m row" by auto
qed

subsection \<open>Publishing the derived rows\<close>

lemma model_row_of_simps [simp]:
  "rcm_version (model_row_of v (m, r)) = v" "rcm_model (model_row_of v (m, r)) = m"
  "CreditRateCardModelRow.truncate (model_row_of v (m, r)) = r"
  "rate_card_model_checks (model_row_of v (m, r)) = rate_card_model_checks r"
  "at_markup bp (model_row_of v (m, r)) = at_markup bp r"
  by (simp_all add: model_row_of_def rate_card_model_checks_def at_markup_def CreditRateCardModelRow.defs)

lemma insert_model_rows:
  assumes "distinct (map fst rows)" "\<forall>(m, r)\<in>set rows. rate_card_model_checks r \<and> \<not> contains_opus m"
    and "\<forall>x\<in>set (credit_rate_card_models db). rcm_version x = v \<longrightarrow> rcm_model x \<notin> fst ` set rows"
  shows "foldr_result insert_model_row db (map (model_row_of v) rows) =
    Inr (db\<lparr>credit_rate_card_models := credit_rate_card_models db @ map (model_row_of v) rows\<rparr>)"
  using assms
proof (induction rows arbitrary: db)
  case (Cons p rows)
  obtain m r where p: "p = (m, r)" by (cases p)
  let ?d = "db\<lparr>credit_rate_card_models := credit_rate_card_models db @ [model_row_of v p]\<rparr>"
  have "insert_model_row db (model_row_of v p) = Inr ?d"
    using Cons.prems by (auto simp: insert_model_row_def p list_ex_iff)
  moreover have "foldr_result insert_model_row ?d (map (model_row_of v) rows) =
      Inr (?d\<lparr>credit_rate_card_models := credit_rate_card_models ?d @ map (model_row_of v) rows\<rparr>)"
    by (rule Cons.IH) (use Cons.prems in \<open>auto simp: p\<close>)
  ultimately show ?case by simp
qed simp

text \<open>Every model row belongs to a card: the foreign key of \<^verbatim>\<open>credit_rate_card_models\<close>.\<close>

definition card_rows_linked :: "db \<Rightarrow> bool" where
  "card_rows_linked db \<longleftrightarrow>
     (\<forall>m\<in>set (credit_rate_card_models db). \<exists>c\<in>set (credit_rate_cards db). card_version c = rcm_version m)"

lemma linked_old: "card_rows_linked db \<Longrightarrow> m \<in> set (credit_rate_card_models db) \<Longrightarrow> rcm_version m \<noteq> next_card_version db"
  using next_version_fresh by (fastforce simp: card_rows_linked_def)

definition published_card :: "int \<Rightarrow> instant \<Rightarrow> db \<Rightarrow> rate_card" where
  "published_card bp effective db =
     \<lparr>card_version = next_card_version db, markup_bp = bp, announced_at = db_now db, effective_at = effective,
      withdrawn_at = None\<rparr>"

definition published_db :: "int \<Rightarrow> instant \<Rightarrow> (string \<times> CreditRateCardModelRow) list \<Rightarrow> db \<Rightarrow> db" where
  "published_db bp effective rows db =
     db\<lparr>credit_rate_cards := credit_rate_cards db @ [published_card bp effective db],
        credit_rate_card_models := credit_rate_card_models db @ map (model_row_of (next_card_version db)) rows\<rparr>"

lemma next_card_version_pos: "1 \<le> next_card_version db"
  using version_fold_le(2) [of 0 "credit_rate_cards db"] by (simp add: next_card_version_def)

lemma publish_derived:
  assumes rows: "deriveRateCardRows draft s = DraftOk bp rows" and linked: "card_rows_linked db"
    and notice: "next_card_version db = 1 \<or> db_now db + 720 * 3600000 \<le> effective"
    and slot: "\<forall>c\<in>set (credit_rate_cards db). withdrawn_at c = None \<longrightarrow> effective_at c \<noteq> effective"
  shows "publish bp effective rows db = Inr (published_card bp effective db, published_db bp effective rows db)"
proof -
  note d = deriveRateCardRows_ok [OF rows]
  let ?d = "db\<lparr>credit_rate_cards := credit_rate_cards db @ [published_card bp effective db]\<rparr>"
  have "rate_card_checks (published_card bp effective db)"
    using d(2) notice next_card_version_pos [of db]
    by (auto simp: rate_card_checks_def published_card_def markup_ok_def RATE_CARD_MIN_MARKUP_BP_def
        RATE_CARD_MAX_MARKUP_BP_def MARKUP_BASIS_POINTS_PER_UNIT_def)
  moreover have "foldr_result insert_model_row ?d (map (model_row_of (next_card_version db)) rows) =
      Inr (?d\<lparr>credit_rate_card_models := credit_rate_card_models ?d @ map (model_row_of (next_card_version db)) rows\<rparr>)"
    by (rule insert_model_rows [OF d(5)]) (use d(6) linked_old [OF linked] in \<open>auto simp: priced_row_def\<close>)
  moreover have "\<not> list_ex (\<lambda>c. withdrawn_at c = None \<and> effective_at c = effective) (credit_rate_cards db)"
    using slot by (auto simp: list_ex_iff)
  ultimately show ?thesis by (simp add: publish_def Let_def published_card_def published_db_def)
qed

lemma published_reads_back:
  assumes rows: "deriveRateCardRows draft s = DraftOk bp rows" and linked: "card_rows_linked db" and m: "(m, row) \<in> set rows"
  shows "modelRow (next_card_version db) m (published_db bp effective rows db) = Inr (Some (model_row_of (next_card_version db) (m, row)))"
proof -
  let ?v = "next_card_version db"
  note d = deriveRateCardRows_ok [OF rows]
  have none: "find (\<lambda>r. rcm_version r = ?v \<and> rcm_model r = m) (credit_rate_card_models db) = None"
    using linked_old [OF linked] by (fastforce simp: find_None_iff)
  have "find (\<lambda>r. rcm_version r = ?v \<and> rcm_model r = m) (map (model_row_of ?v) rows) = Some (model_row_of ?v (m, row))"
    using d(5) m by (induction rows) (auto simp: rev_image_eqI)
  with none have "find (\<lambda>r. rcm_version r = ?v \<and> rcm_model r = m) (credit_rate_card_models (published_db bp effective rows db)) =
      Some (model_row_of ?v (m, row))" by (simp add: published_db_def find_append_if)
  moreover have "toModelRecord (model_row_of ?v (m, row)) = Inr (model_row_of ?v (m, row))"
    using d(6) [OF m] by (simp add: toModelRecord_def priced_row_def model_row_of_def CreditRateCardModelRow.defs exact_def)
  ultimately show ?thesis by (simp add: modelRow_def)
qed

subsection \<open>The shipped registry\<close>

definition shipped_terms :: "RateCardModelTerms list" where
  "shipped_terms =
     [\<lparr>terms_model = ''claude-haiku-4-5'', terms_minStart = 3000000, terms_maxReserve = 30000000\<rparr>,
      \<lparr>terms_model = ''claude-sonnet-4-6'', terms_minStart = 9000000, terms_maxReserve = 90000000\<rparr>,
      \<lparr>terms_model = ''claude-sonnet-5'', terms_minStart = 6000000, terms_maxReserve = 60000000\<rparr>]"

lemma candidates_shipped: "candidateRateCardModels SHIPPED_SOURCES = Inr shipped_terms"
  by code_simp

text \<open>A row of the launch card at another markup: the list prices stay, the rates scale.\<close>

definition at_rate :: "int \<Rightarrow> CreditRateCardModelRow \<Rightarrow> CreditRateCardModelRow" where
  "at_rate bp r = r\<lparr>inputMicroPerToken := listInputMicrocentsPerToken r * bp div 10000,
     outputMicroPerToken := listOutputMicrocentsPerToken r * bp div 10000,
     cacheReadMicroPerToken := listInputMicrocentsPerToken r * bp div 100000,
     cacheWrite5mMicroPerToken := listInputMicrocentsPerToken r * bp div 8000,
     cacheWrite1hMicroPerToken := listInputMicrocentsPerToken r * bp div 5000\<rparr>"

definition shipped_rows :: "int \<Rightarrow> (string \<times> CreditRateCardModelRow) list" where
  "shipped_rows bp =
     [(''claude-haiku-4-5'', at_rate bp (CREDIT_RATE_CARD_V1 claude_haiku_4_5)),
      (''claude-sonnet-4-6'', at_rate bp (CREDIT_RATE_CARD_V1 claude_sonnet_4_6)),
      (''claude-sonnet-5'', at_rate bp (CREDIT_RATE_CARD_V1 claude_sonnet_5))]"

lemma launch_card: "shipped_rows 20000 =
    [(''claude-haiku-4-5'', CREDIT_RATE_CARD_V1 claude_haiku_4_5),
     (''claude-sonnet-4-6'', CREDIT_RATE_CARD_V1 claude_sonnet_4_6),
     (''claude-sonnet-5'', CREDIT_RATE_CARD_V1 claude_sonnet_5)]"
  by (simp add: shipped_rows_def at_rate_def)

lemma shipped_policies:
  "contains_opus ''claude-haiku-4-5'' = False" "contains_opus ''claude-sonnet-4-6'' = False" "contains_opus ''claude-sonnet-5'' = False"
  by code_simp+

lemma markup_ok_iff: "markup_ok bp \<longleftrightarrow> 10000 \<le> bp \<and> bp \<le> 100000"
  by (auto simp: markup_ok_def RATE_CARD_MIN_MARKUP_BP_def RATE_CARD_MAX_MARKUP_BP_def
      MARKUP_BASIS_POINTS_PER_UNIT_def safe_int_def MAX_SAFE_def)

text \<open>
  A model of the shipped registry: output at five times the input price, the common cache multipliers. Its row
  is whole at every multiple of 2000 basis points; the cheapest model's row is whole at no other.
\<close>

lemma derive_shipped_model:
  assumes m: "terms_model x \<notin> set seen" "terms_model x \<in> set AgentModels" "reserve_bounds_ok x" "\<not> contains_opus (terms_model x)"
    "map_of (src_registry s) (terms_model x) = Some (model_info l t (5 * t) n)"
    "map_of (src_keyPolicy s) (terms_model x) = Some AnyKey" "map_of (src_decisions s) (terms_model x) = Some DecidedOnCredits"
    and t: "1 \<le> t" "t \<le> 3" and bp: "markup_ok bp" "bp = 2000 * k"
  shows "derive_model s bp seen x = ([],
    [\<lparr>inputMicroPerToken = 20 * (t * k), outputMicroPerToken = 100 * (t * k), cacheReadMicroPerToken = 2 * (t * k),
      cacheWrite5mMicroPerToken = 25 * (t * k), cacheWrite1hMicroPerToken = 40 * (t * k),
      minStartMicro = terms_minStart x, maxReserveMicro = terms_maxReserve x,
      listInputMicrocentsPerToken = 100 * t, listOutputMicrocentsPerToken = 500 * t\<rparr>])"
proof -
  have k: "5 \<le> k" "k \<le> 50" using bp by (simp_all add: markup_ok_iff)
  then have tk: "0 \<le> t * k" "t * k \<le> 150" using t mult_mono [of t 3 k 50] by simp_all
  have "whole_10k (10000 * (j * (t * k))) = Some (j * (t * k))" if "0 \<le> j" "j \<le> 100" for j
  proof -
    have "0 \<le> j * (t * k)" "j * (t * k) \<le> 100 * 150" using that tk mult_mono [of j 100 "t * k" 150] by simp_all
    then show ?thesis by (simp add: whole_10k_def safe_int_def MAX_SAFE_def)
  qed
  from this [of 20] this [of 100] this [of 2] this [of 25] this [of 40]
  have prices: "whole_10k (100 * t * bp) = Some (20 * (t * k))" "whole_10k (100 * (5 * t) * bp) = Some (100 * (t * k))"
    "whole_10k (t * 10 * bp) = Some (2 * (t * k))" "whole_10k (t * 125 * bp) = Some (25 * (t * k))"
    "whole_10k (t * 200 * bp) = Some (40 * (t * k))" by (simp_all add: bp(2) ac_simps)
  have lists: "whole_10k (1000000 * t) = Some (100 * t)" "whole_10k (1000000 * (5 * t)) = Some (500 * t)"
    using t by (simp_all add: whole_10k_def safe_int_def MAX_SAFE_def)
  have "whole_prices (model_info l t (5 * t) n) bp =
      [(InputPrice, Some (20 * (t * k))), (OutputPrice, Some (100 * (t * k))), (CacheReadPrice, Some (2 * (t * k))),
       (CacheWrite5mPrice, Some (25 * (t * k))), (CacheWrite1hPrice, Some (40 * (t * k))),
       (ListInputPrice, Some (100 * t)), (ListOutputPrice, Some (500 * t))]"
    by (simp only: whole_prices_10k model_info_def AgentModelInfo.simps prices lists)
  with m t bp(1) tk k show ?thesis
    by (simp add: derive_model_def price_row_def card_rates_ordered_def Let_def model_info_def)
qed

lemma derive_shipped_model_refused:
  assumes m: "terms_model x \<notin> set seen" "terms_model x \<in> set AgentModels" "\<not> contains_opus (terms_model x)"
    "map_of (src_registry s) (terms_model x) = Some (model_info l 1 5 n)"
    "map_of (src_keyPolicy s) (terms_model x) = Some AnyKey" "map_of (src_decisions s) (terms_model x) = Some DecidedOnCredits"
    and bp: "markup_ok bp" "\<not> 2000 dvd bp"
  shows "fst (derive_model s bp seen x) \<noteq> []"
proof -
  have "\<not> (10000 dvd 10 * bp \<and> 10000 dvd 125 * bp)"
  proof
    assume "10000 dvd 10 * bp \<and> 10000 dvd 125 * bp"
    then obtain a c where "10 * bp = 10000 * a" "125 * bp = 10000 * c" unfolding dvd_def by blast
    then have bp: "bp = 1000 * a" and "2 * (4 * c) = 100 * a" "bp = 80 * c" by linarith+
    then have "2 * c = 25 * a" by linarith
    then have "even a" by presburger
    then have "2000 dvd bp" unfolding bp by auto
    with assms(8) show False by simp
  qed
  then have "whole_10k (1 * 10 * bp) = None \<or> whole_10k (1 * 125 * bp) = None" by (auto simp: whole_10k_def)
  then have "price_row x (whole_prices (model_info l 1 5 n) bp) = None \<and>
      filter (\<lambda>(_, w). w = None) (whole_prices (model_info l 1 5 n) bp) \<noteq> []"
    unfolding whole_prices_10k by (auto simp: price_row_def model_info_def)
  with m bp(1) show ?thesis by (auto simp: derive_model_def Let_def model_info_def split: option.splits)
qed

lemmas shipped_simps = SHIPPED_SOURCES_def CLAUDE_MODELS_def CLAUDE_MODEL_KEY_POLICY_def AI_CREDITS_MODEL_DECISION_def
  AgentModels_def shipped_policies reserve_bounds_ok_def safe_int_def MAX_SAFE_def

lemma derive_shipped:
  assumes bp: "markup_ok bp" "bp = 2000 * k"
  shows "deriveRateCardRows \<lparr>draft_markupBp = bp, draft_models = shipped_terms\<rparr> SHIPPED_SOURCES = DraftOk bp (shipped_rows bp)"
proof -
  let ?x = "\<lambda>m lo hi. \<lparr>terms_model = m, terms_minStart = lo, terms_maxReserve = hi\<rparr>"
  have "derive_model SHIPPED_SOURCES bp [] (?x ''claude-haiku-4-5'' 3000000 30000000) =
      ([], [at_rate bp (CREDIT_RATE_CARD_V1 claude_haiku_4_5)])"
    by (subst derive_shipped_model [where l = "''Claude Haiku 4.5''" and t = 1 and n = 4096, OF _ _ _ _ _ _ _ _ _ bp])
      (simp_all add: shipped_simps at_rate_def bp(2))
  moreover have "derive_model SHIPPED_SOURCES bp [''claude-haiku-4-5''] (?x ''claude-sonnet-4-6'' 9000000 90000000) =
      ([], [at_rate bp (CREDIT_RATE_CARD_V1 claude_sonnet_4_6)])"
    by (subst derive_shipped_model [where l = "''Claude Sonnet 4.6''" and t = 3 and n = 1024, OF _ _ _ _ _ _ _ _ _ bp])
      (simp_all add: shipped_simps at_rate_def bp(2))
  moreover have "derive_model SHIPPED_SOURCES bp [''claude-sonnet-4-6'', ''claude-haiku-4-5''] (?x ''claude-sonnet-5'' 6000000 60000000) =
      ([], [at_rate bp (CREDIT_RATE_CARD_V1 claude_sonnet_5)])"
    by (subst derive_shipped_model [where l = "''Claude Sonnet 5''" and t = 2 and n = 1024, OF _ _ _ _ _ _ _ _ _ bp])
      (simp_all add: shipped_simps at_rate_def bp(2))
  ultimately have "derive_models SHIPPED_SOURCES bp [] shipped_terms = ([], shipped_rows bp)"
    by (simp add: shipped_terms_def shipped_rows_def Let_def)
  with bp(1) show ?thesis by (simp add: deriveRateCardRows_def Let_def shipped_terms_def)
qed

subsection \<open>The routes\<close>

text \<open>
  \<open>classifyRateCardRefusals\<close>: the status, and the refusals its sentence lists. A route's answer is a value or the HTTP
  status it throws; any other exception is \<open>Uncaught\<close>. The request schema bounds the markup and
  parses the instant before the handler runs; the process's clock is the argument \<open>clock\<close>.
\<close>

definition ownKeyOnlyModels :: "RateCardDraftRefusal list \<Rightarrow> string list" where
  "ownKeyOnlyModels refusals = sort (List.map_filter (\<lambda>r. case r of ModelOwnKeyOnly m \<Rightarrow> Some m | _ \<Rightarrow> None) refusals)"

definition classifyRateCardRefusals :: "RateCardDraftRefusal list \<Rightarrow> nat \<times> RateCardDraftRefusal list" where
  "classifyRateCardRefusals refusals = (if ownKeyOnlyModels refusals \<noteq> [] then (403, refusals) else (400, refusals))"

datatype http_error = Http nat "RateCardDraftRefusal list" | Uncaught fault

datatype AdminRateCardStatus = StatusAnnounced | StatusInForce | StatusWithdrawn | StatusSuperseded

definition rateCardStatus :: "rate_card \<Rightarrow> int option \<Rightarrow> instant \<Rightarrow> AdminRateCardStatus" where
  "rateCardStatus c inForceVersion t =
     (if withdrawn_at c \<noteq> None then StatusWithdrawn
      else if effective_at c > t then StatusAnnounced
      else if inForceVersion = Some (card_version c) then StatusInForce
      else StatusSuperseded)"

record AdminRateCardView =
  view_version :: int
  view_markup :: int
  view_status :: AdminRateCardStatus
  view_announced :: instant
  view_effective :: instant
  view_withdrawn :: "instant option"
  view_models :: nat

definition buildAdminRateCardView :: "rate_card \<Rightarrow> nat \<Rightarrow> int option \<Rightarrow> instant \<Rightarrow> AdminRateCardView" where
  "buildAdminRateCardView c n inForceVersion t =
     \<lparr>view_version = card_version c, view_markup = markup_bp c, view_status = rateCardStatus c inForceVersion t,
      view_announced = announced_at c, view_effective = effective_at c, view_withdrawn = withdrawn_at c,
      view_models = n\<rparr>"

definition RATE_CARD_NOTICE_HOURS :: int where
  "RATE_CARD_NOTICE_HOURS = 720"

definition clearsNoticeWindow :: "instant \<Rightarrow> instant \<Rightarrow> bool" where
  "clearsNoticeWindow announced effective \<longleftrightarrow> effective \<ge> announced + RATE_CARD_NOTICE_HOURS * 60 * 60 * 1000"

definition refused_write :: "(nat \<Rightarrow> http_error) \<Rightarrow> fault \<Rightarrow> http_error" where
  "refused_write answer e =
     (case e of SqlError n \<Rightarrow> if n \<in> {23514, 55000, 23505} then answer n else Uncaught e | _ \<Rightarrow> Uncaught e)"

definition publishRateCard :: "RateCardSources \<Rightarrow> instant \<Rightarrow> int \<Rightarrow> instant \<Rightarrow> db
    \<Rightarrow> http_error + AdminRateCardView \<times> db" where
  "publishRateCard s clock markup effective db =
     (if \<not> (10000 \<le> markup \<and> markup \<le> 100000) then Inl (Http 400 [])
      else case candidateRateCardModels s of
        Inl e \<Rightarrow> Inl (Uncaught e)
      | Inr models \<Rightarrow>
          (case deriveRateCardRows \<lparr>draft_markupBp = markup, draft_models = models\<rparr> s of
             DraftRefused refusals \<Rightarrow> (case classifyRateCardRefusals refusals of (n, d) \<Rightarrow> Inl (Http n d))
           | DraftOk bp rows \<Rightarrow>
               if \<not> clearsNoticeWindow clock effective then Inl (Http 400 [])
               else (case publish bp effective rows db of
                  Inl e \<Rightarrow> Inl (refused_write (\<lambda>n. if n = 23505 then Http 409 [] else Http 400 []) e)
                | Inr (c, db') \<Rightarrow> Inr (buildAdminRateCardView c (length rows) None clock, db'))))"

definition listRateCards :: "instant \<Rightarrow> db \<Rightarrow> AdminRateCardView list" where
  "listRateCards clock db =
     (let inForce = map_option card_version (cardInForce (Some clock) db)
      in map (\<lambda>c. buildAdminRateCardView c (case modelCounts db (card_version c) of None \<Rightarrow> 0 | Some n \<Rightarrow> n) inForce clock)
           (listAll db))"

definition withdrawRateCard :: "instant \<Rightarrow> int \<Rightarrow> db \<Rightarrow> http_error + AdminRateCardView \<times> db" where
  "withdrawRateCard clock version db =
     (if \<not> safe_int version \<or> version < 1 then Inl (Http 400 [])
      else case withdraw version db of
        Inl e \<Rightarrow> Inl (refused_write (\<lambda>_. Http 409 []) e)
      | Inr (NotFound, _) \<Rightarrow> Inl (Http 404 [])
      | Inr (AlreadyWithdrawn _, _) \<Rightarrow> Inl (Http 409 [])
      | Inr (Withdrawn c, db') \<Rightarrow>
          Inr (buildAdminRateCardView c (case modelCounts db' version of None \<Rightarrow> 0 | Some n \<Rightarrow> n) None clock, db'))"

subsection \<open>What the owner's publish does\<close>

lemma derive_eligible:
  assumes "terms_model x \<notin> set seen" "\<not> contains_opus (terms_model x)"
    "map_of (src_keyPolicy s) (terms_model x) = Some AnyKey" "map_of (src_decisions s) (terms_model x) = Some DecidedOnCredits"
  shows "ModelOwnKeyOnly m \<notin> set (fst (derive_model s bp seen x))"
  using assms by (auto simp: derive_model_def Let_def split: option.splits)

lemma no_own_key_refusal: "(\<And>m. ModelOwnKeyOnly m \<notin> set rs) \<Longrightarrow> ownKeyOnlyModels rs = []"
proof -
  assume none: "\<And>m. ModelOwnKeyOnly m \<notin> set rs"
  have "List.map_filter (\<lambda>r. case r of ModelOwnKeyOnly m \<Rightarrow> Some m | _ \<Rightarrow> None) rs = []"
    using none by (induction rs) (auto simp: List.map_filter_simps split: RateCardDraftRefusal.splits)
  then show ?thesis by (simp add: ownKeyOnlyModels_def)
qed

lemma derive_shipped_refused:
  assumes "markup_ok bp" "\<not> 2000 dvd bp"
  defines "rs \<equiv> fst (derive_models SHIPPED_SOURCES bp [] shipped_terms)"
  shows "deriveRateCardRows \<lparr>draft_markupBp = bp, draft_models = shipped_terms\<rparr> SHIPPED_SOURCES = DraftRefused rs"
    and "classifyRateCardRefusals rs = (400, rs)" and "rs \<noteq> []"
proof -
  let ?x = "\<lparr>terms_model = ''claude-haiku-4-5'', terms_minStart = 3000000, terms_maxReserve = 30000000\<rparr>"
  have "fst (derive_model SHIPPED_SOURCES bp [] ?x) \<noteq> []"
    by (rule derive_shipped_model_refused [where l = "''Claude Haiku 4.5''" and n = 4096, OF _ _ _ _ _ _ assms(1,2)])
      (simp_all add: shipped_simps model_info_def)
  then show "rs \<noteq> []" by (simp add: rs_def shipped_terms_def Let_def)
  with assms(1) show "deriveRateCardRows \<lparr>draft_markupBp = bp, draft_models = shipped_terms\<rparr> SHIPPED_SOURCES = DraftRefused rs"
    by (simp add: deriveRateCardRows_def Let_def rs_def shipped_terms_def)
  have "ModelOwnKeyOnly m \<notin> set rs" for m
    by (simp add: rs_def shipped_terms_def Let_def derive_eligible shipped_simps)
  then have "ownKeyOnlyModels rs = []" by (rule no_own_key_refusal)
  then show "classifyRateCardRefusals rs = (400, rs)" by (simp add: classifyRateCardRefusals_def)
qed

text \<open>C14: the owner publishes list price times markup or nothing. On the shipped registry the route accepts a markup
  exactly when it lies between one and ten times list and every price comes out whole, which is every
  multiple of 2000 basis points; it then needs 720 hours of notice on both clocks and an instant no
  live card already takes. The card it writes prices exactly the models that run on credits, each at
  list price times the markup with the cache rates a tenth, five quarters and twice the input rate,
  and changes no other table; every other request is refused with the status the code gives, and
  the launch card is the one it writes at a markup of two.\<close>
theorem owner_publishes_list_price_times_markup:
  assumes "card_rows_linked db" and "credit_rate_cards db \<noteq> []" and "\<forall>c\<in>set (credit_rate_cards db). 1 \<le> card_version c"
  shows "publishRateCard SHIPPED_SOURCES clock bp effective db =
      (if \<not> (10000 \<le> bp \<and> bp \<le> 100000) then Inl (Http 400 [])
       else if \<not> 2000 dvd bp then Inl (Http 400 (fst (derive_models SHIPPED_SOURCES bp [] shipped_terms)))
       else if effective < clock + 720 * 3600000 \<or> effective < db_now db + 720 * 3600000 then Inl (Http 400 [])
       else if \<exists>c\<in>set (credit_rate_cards db). withdrawn_at c = None \<and> effective_at c = effective then Inl (Http 409 [])
       else Inr (buildAdminRateCardView (published_card bp effective db) 3 None clock,
                 published_db bp effective (shipped_rows bp) db)) \<and>
    shipped_rows 20000 =
      [(''claude-haiku-4-5'', CREDIT_RATE_CARD_V1 claude_haiku_4_5),
       (''claude-sonnet-4-6'', CREDIT_RATE_CARD_V1 claude_sonnet_4_6),
       (''claude-sonnet-5'', CREDIT_RATE_CARD_V1 claude_sonnet_5)]"
proof -
  let ?v = "next_card_version db" and ?draft = "\<lparr>draft_markupBp = bp, draft_models = shipped_terms\<rparr>"
  have v: "?v \<noteq> 1"
    using assms(2,3) next_version_fresh [of "hd (credit_rate_cards db)" db] by (fastforce dest: hd_in_set)
  note run = publishRateCard_def candidates_shipped
  have "publishRateCard SHIPPED_SOURCES clock bp effective db = Inl (Http 400 (fst (derive_models SHIPPED_SOURCES bp [] shipped_terms)))"
    if "markup_ok bp" "\<not> 2000 dvd bp"
    using that derive_shipped_refused [OF that] by (simp add: run markup_ok_iff)
  moreover have "publishRateCard SHIPPED_SOURCES clock bp effective db =
      (if effective < clock + 720 * 3600000 \<or> effective < db_now db + 720 * 3600000 then Inl (Http 400 [])
       else if \<exists>c\<in>set (credit_rate_cards db). withdrawn_at c = None \<and> effective_at c = effective then Inl (Http 409 [])
       else Inr (buildAdminRateCardView (published_card bp effective db) 3 None clock,
                 published_db bp effective (shipped_rows bp) db))"
    if ok: "markup_ok bp" "2000 dvd bp"
  proof -
    obtain k where k: "bp = 2000 * k" using ok(2) by blast
    note rows = derive_shipped [OF ok(1) k]
    have late_refused: "publish bp effective (shipped_rows bp) db = Inl (SqlError 23514)" if "effective < db_now db + 720 * 3600000"
      using that v by (simp add: publish_def Let_def rate_card_checks_def)
    have clash_refused: "publish bp effective (shipped_rows bp) db = Inl (SqlError 23505)"
      if "\<not> effective < db_now db + 720 * 3600000" "\<exists>c\<in>set (credit_rate_cards db). withdrawn_at c = None \<and> effective_at c = effective"
      using that ok(1) next_card_version_pos [of db]
      by (auto simp: publish_def Let_def rate_card_checks_def markup_ok_iff list_ex_iff)
    have fine_published: "publish bp effective (shipped_rows bp) db = Inr (published_card bp effective db, published_db bp effective (shipped_rows bp) db)"
      if "\<not> effective < db_now db + 720 * 3600000" "\<not> (\<exists>c\<in>set (credit_rate_cards db). withdrawn_at c = None \<and> effective_at c = effective)"
      by (rule publish_derived [OF rows assms(1)]) (use that in auto)
    have run2: "publishRateCard SHIPPED_SOURCES clock bp effective db =
        (if effective < clock + 720 * 3600000 then Inl (Http 400 [])
         else case publish bp effective (shipped_rows bp) db of
            Inl e \<Rightarrow> Inl (refused_write (\<lambda>n. if n = 23505 then Http 409 [] else Http 400 []) e)
          | Inr (c, db') \<Rightarrow> Inr (buildAdminRateCardView c (length (shipped_rows bp)) None clock, db'))"
      using ok(1) rows by (simp add: run markup_ok_iff clearsNoticeWindow_def RATE_CARD_NOTICE_HOURS_def)
    have len: "length (shipped_rows bp) = 3" by (simp add: shipped_rows_def)
    consider (late) "effective < db_now db + 720 * 3600000"
      | (clash) "\<not> effective < db_now db + 720 * 3600000" "\<exists>c\<in>set (credit_rate_cards db). withdrawn_at c = None \<and> effective_at c = effective"
      | (fine) "\<not> effective < db_now db + 720 * 3600000" "\<not> (\<exists>c\<in>set (credit_rate_cards db). withdrawn_at c = None \<and> effective_at c = effective)"
      by blast
    then show ?thesis
    proof cases
      case late
      then show ?thesis using late_refused [OF late] by (simp add: run2 refused_write_def)
    next
      case clash
      show ?thesis unfolding run2 clash_refused [OF clash] using clash by (simp add: refused_write_def)
    next
      case fine
      show ?thesis unfolding run2 fine_published [OF fine] using fine by (auto simp: len)
    qed
  qed
  moreover have "publishRateCard SHIPPED_SOURCES clock bp effective db = Inl (Http 400 [])" if "\<not> markup_ok bp"
    using that by (simp add: run markup_ok_iff)
  ultimately show ?thesis
    using launch_card by (simp add: markup_ok_iff)
qed

text \<open>The launch card as migration 0127 seeds it, and a card of markup 2.2 published on the next day.\<close>

definition launch_db :: db where
  "launch_db = (example_cards 5000)\<lparr>
     credit_rate_cards := [\<lparr>card_version = 1, markup_bp = 20000, announced_at = 0, effective_at = 0, withdrawn_at = None\<rparr>],
     credit_rate_card_models := map (model_row_of 1) (shipped_rows 20000)\<rparr>"

lemma launch_db_simps [simp]: "db_now launch_db = 5000"
  "credit_rate_cards launch_db = [\<lparr>card_version = 1, markup_bp = 20000, announced_at = 0, effective_at = 0, withdrawn_at = None\<rparr>]"
  "credit_rate_card_models launch_db = map (model_row_of 1) (shipped_rows 20000)"
  by (simp_all add: launch_db_def example_cards_def)

lemma launch_db_ok: "card_rows_linked launch_db" "credit_rate_cards launch_db \<noteq> []"
  "\<forall>c\<in>set (credit_rate_cards launch_db). 1 \<le> card_version c"
  by (simp_all add: card_rows_linked_def shipped_rows_def)

theorem owner_publishes_list_price_times_markup_witness:
  "publishRateCard SHIPPED_SOURCES 5000 22000 2592005000 launch_db =
     Inr (buildAdminRateCardView (published_card 22000 2592005000 launch_db) 3 None 5000,
          published_db 22000 2592005000 (shipped_rows 22000) launch_db)"
  using owner_publishes_list_price_times_markup [OF launch_db_ok, of 5000 22000 2592005000]
  by simp

text \<open>C39: a derived card comes back as it was derived. Whatever the registry and the policies, a draft that is not
  refused is one row per model, each a model both policies put on credits and none of the Opus
  class, at list price times the markup exactly, in the order the call bound relies on; once it is
  published, with its notice and at an instant of its own, reading any of its models back returns
  that row.\<close>
theorem derived_card_round_trip:
  assumes "deriveRateCardRows draft s = DraftOk bp rows" and "card_rows_linked db"
    and "next_card_version db = 1 \<or> db_now db + 720 * 3600000 \<le> effective"
    and "\<forall>c\<in>set (credit_rate_cards db). withdrawn_at c = None \<longrightarrow> effective_at c \<noteq> effective"
  shows "\<exists>c db'. publish bp effective rows db = Inr (c, db') \<and> map fst rows = map terms_model (draft_models draft) \<and>
    (\<forall>(m, row)\<in>set rows. priced_row s bp m row \<and>
       (\<exists>r. modelRow (card_version c) m db' = Inr (Some r) \<and> CreditRateCardModelRow.truncate r = row))"
proof (intro exI conjI)
  show "publish bp effective rows db = Inr (published_card bp effective db, published_db bp effective rows db)"
    by (rule publish_derived [OF assms])
  note d = deriveRateCardRows_ok [OF assms(1)]
  show "map fst rows = map terms_model (draft_models draft)" by (rule d(4))
  have "card_version (published_card bp effective db) = next_card_version db" by (simp add: published_card_def)
  then show "\<forall>(m, row)\<in>set rows. priced_row s bp m row \<and>
      (\<exists>r. modelRow (card_version (published_card bp effective db)) m (published_db bp effective rows db) = Inr (Some r) \<and>
         CreditRateCardModelRow.truncate r = row)"
    using d(6) published_reads_back [OF assms(1,2)] by (fastforce simp: model_row_of_simps)
qed

theorem derived_card_round_trip_witness:
  "\<exists>c db' r. publish 22000 2592005000 (shipped_rows 22000) launch_db = Inr (c, db') \<and>
     modelRow (card_version c) ''claude-haiku-4-5'' db' = Inr (Some r) \<and>
     CreditRateCardModelRow.truncate r = at_rate 22000 (CREDIT_RATE_CARD_V1 claude_haiku_4_5)"
proof -
  have rows: "deriveRateCardRows \<lparr>draft_markupBp = 22000, draft_models = shipped_terms\<rparr> SHIPPED_SOURCES = DraftOk 22000 (shipped_rows 22000)"
    by (rule derive_shipped [where k = 11]) (simp_all add: markup_ok_iff)
  have ok: "next_card_version launch_db = 1 \<or> db_now launch_db + 720 * 3600000 \<le> 2592005000"
    "\<forall>c\<in>set (credit_rate_cards launch_db). withdrawn_at c = None \<longrightarrow> effective_at c \<noteq> 2592005000"
    by simp_all
  have "(''claude-haiku-4-5'', at_rate 22000 (CREDIT_RATE_CARD_V1 claude_haiku_4_5)) \<in> set (shipped_rows 22000)"
    by (simp add: shipped_rows_def)
  with derived_card_round_trip [OF rows launch_db_ok(1) ok] show ?thesis by fast
qed

subsection \<open>The list of cards\<close>

lemma first_row_sorted:
  assumes "first_row (sort_key f xs) = Some x"
  shows "x \<in> set xs" "y \<in> set xs \<Longrightarrow> f x \<le> f y"
proof -
  from assms obtain ys where ys: "sort_key f xs = x # ys" by (auto simp: first_row_def split: list.splits)
  then have "set xs = insert x (set ys)" by (metis list.simps(15) set_sort)
  moreover have "\<forall>y\<in>set ys. f x \<le> f y" using ys sorted_sort_key [of f xs] by simp
  ultimately show "x \<in> set xs" "y \<in> set xs \<Longrightarrow> f x \<le> f y" by auto
qed

text \<open>C40: the list tells each card's status truly. At any clock a card is listed as in force exactly when it is the
  card that prices tasks at that instant, and there is at most one such card; every other card is
  listed as withdrawn, announced for later, or overtaken by a card that took effect after it.\<close>
theorem listed_statuses_are_exact:
  assumes "distinct (map card_version (credit_rate_cards db))"
    and "\<forall>c\<in>set (credit_rate_cards db). \<forall>d\<in>set (credit_rate_cards db).
      withdrawn_at c = None \<longrightarrow> withdrawn_at d = None \<longrightarrow> effective_at c = effective_at d \<longrightarrow> c = d"
    and "c \<in> set (credit_rate_cards db)"
  shows "case rateCardStatus c (map_option card_version (cardInForce (Some t) db)) t of
      StatusInForce \<Rightarrow> cardInForce (Some t) db = Some c
    | StatusWithdrawn \<Rightarrow> withdrawn_at c \<noteq> None
    | StatusAnnounced \<Rightarrow> withdrawn_at c = None \<and> t < effective_at c
    | StatusSuperseded \<Rightarrow> withdrawn_at c = None \<and> (\<exists>d. cardInForce (Some t) db = Some d \<and> effective_at c < effective_at d)"
proof (cases "withdrawn_at c = None \<and> effective_at c \<le> t")
  case True
  let ?cs = "filter (\<lambda>c. effective_at c \<le> t \<and> withdrawn_at c = None) (credit_rate_cards db)"
  have "c \<in> set ?cs" using assms(3) True by simp
  then have "set (sort_key (\<lambda>c. - effective_at c) ?cs) \<noteq> {}" unfolding set_sort by (metis empty_iff)
  then obtain d where d: "cardInForce (Some t) db = Some d"
    by (cases "sort_key (\<lambda>c. - effective_at c) ?cs") (auto simp: cardInForce_def first_row_def)
  then have first: "first_row (sort_key (\<lambda>c. - effective_at c) ?cs) = Some d" by (simp add: cardInForce_def)
  have d_in: "d \<in> set (credit_rate_cards db)" "withdrawn_at d = None" using first_row_sorted(1) [OF first] by auto
  have le: "effective_at c \<le> effective_at d" using first_row_sorted(2) [OF first \<open>c \<in> set ?cs\<close>] by simp
  show ?thesis
  proof (cases "d = c")
    case True
    with d \<open>withdrawn_at c = None \<and> effective_at c \<le> t\<close> show ?thesis by (simp add: rateCardStatus_def)
  next
    case False
    then have "card_version d \<noteq> card_version c" using assms(1,3) d_in(1) by (auto simp: distinct_map inj_on_def)
    moreover have "effective_at c \<noteq> effective_at d" using False assms(2,3) d_in True by auto
    ultimately show ?thesis using d le True by (simp add: rateCardStatus_def)
  qed
qed (use assms(3) in \<open>auto simp: rateCardStatus_def\<close>)

theorem listed_statuses_are_exact_witness:
  "rateCardStatus \<lparr>card_version = 1, markup_bp = 20000, announced_at = 0, effective_at = 0, withdrawn_at = None\<rparr>
     (map_option card_version (cardInForce (Some 2592005000) (published_db 22000 2592005000 (shipped_rows 22000) launch_db)))
     2592005000 = StatusSuperseded \<and>
   cardInForce (Some 2592005000) (published_db 22000 2592005000 (shipped_rows 22000) launch_db) =
     Some (published_card 22000 2592005000 launch_db)"
proof -
  let ?db = "published_db 22000 2592005000 (shipped_rows 22000) launch_db"
  let ?c = "\<lparr>card_version = 1, markup_bp = 20000, announced_at = 0, effective_at = 0, withdrawn_at = None\<rparr>"
  have cards: "credit_rate_cards ?db = [?c, published_card 22000 2592005000 launch_db]"
    by (simp add: published_db_def)
  have new: "published_card 22000 2592005000 launch_db =
      \<lparr>card_version = 2, markup_bp = 22000, announced_at = 5000, effective_at = 2592005000, withdrawn_at = None\<rparr>"
    by (simp add: published_card_def next_card_version_def)
  have status: "cardInForce (Some 2592005000) ?db = Some (published_card 22000 2592005000 launch_db)"
    by (simp add: cardInForce_def cards new first_row_def)
  have "case rateCardStatus ?c (map_option card_version (cardInForce (Some 2592005000) ?db)) 2592005000 of
      StatusInForce \<Rightarrow> cardInForce (Some 2592005000) ?db = Some ?c
    | StatusWithdrawn \<Rightarrow> withdrawn_at ?c \<noteq> None
    | StatusAnnounced \<Rightarrow> withdrawn_at ?c = None \<and> 2592005000 < effective_at ?c
    | StatusSuperseded \<Rightarrow> withdrawn_at ?c = None \<and>
        (\<exists>d. cardInForce (Some 2592005000) ?db = Some d \<and> effective_at ?c < effective_at d)"
    by (rule listed_statuses_are_exact) (simp_all add: cards new)
  with status show ?thesis by (cases "rateCardStatus ?c (map_option card_version (cardInForce (Some 2592005000) ?db)) 2592005000") (auto simp: new)
qed

end
