(* ===== verification/Task_Runs.thy ===== *)
theory Task_Runs
  imports Task_Steps Rate_Publisher
begin

section \<open>Runs of the service\<close>

text \<open>
  The step relation of the service and its two laws over runs of any length, by an interpretation of
  \<open>refines\<close>: every reachable state is sound, and every run is a run of the task book.
\<close>

inductive credit_step :: "db \<Rightarrow> db \<Rightarrow> bool" where
  reserves: "refresh_sound refresh \<Longrightarrow> start_ready refresh input db \<Longrightarrow> reserve refresh input db = Inr (out, e) \<Longrightarrow>
    credit_step db e"
| admits: "find_reservation db rid = Some r \<Longrightarrow> call_input_ok db r b cid \<Longrightarrow> committed r \<le> MAX_SAFE \<Longrightarrow>
    admitCall rid purpose model b cid db = Inr (admitted, e) \<Longrightarrow> credit_step db e"
| sends: "markSent cid db = Inr (marked, e) \<Longrightarrow> credit_step db e"
| settles_call: "settleCall cid asked usage usage_id db = Inr (settled, e) \<Longrightarrow> credit_step db e"
| settles: "settle_room db rid \<Longrightarrow> (\<forall>d. uuid_ok (new_id d)) \<Longrightarrow> settle new_id rid why db = Inr (res, e) \<Longrightarrow>
    credit_step db e"
| sweeps: "settle_room db rid \<Longrightarrow> (\<forall>d. uuid_ok (new_id d)) \<Longrightarrow> accountOf rid db = Some a \<Longrightarrow>
    settleOneLapsed new_id rid a db = Inr (swept, e) \<Longrightarrow> credit_step db e"
| renews: "heartbeat k db = Inr (renewed, e) \<Longrightarrow> credit_step db e"
| gives_up: "releaseOwnLeases k db = Inr (released, e) \<Longrightarrow> credit_step db e"
| publishes: "publishRateCard SHIPPED_SOURCES clock bp effective db = Inr (published, e) \<Longrightarrow> credit_step db e"
| withdraws: "withdrawRateCard clock v db = Inr (withdrawn, e) \<Longrightarrow> credit_step db e"
| waits: "db_now db \<le> t \<Longrightarrow> credit_step db (db\<lparr>db_now := t\<rparr>)"

inductive_cases credit_stepE: "credit_step db e"

lemma heartbeat_stepped: "sys_inv db \<Longrightarrow> heartbeat k db = Inr (n, e) \<Longrightarrow> stepped db e"
  by (auto simp: heartbeat_def renewLeases_def result_simps stepped_refl split: if_splits intro: leases_stepped)

lemma releases_stepped: "sys_inv db \<Longrightarrow> releaseOwnLeases k db = Inr (n, e) \<Longrightarrow> stepped db e"
  by (auto simp: releaseOwnLeases_def expireLeasesOfOwner_def result_simps intro: leases_stepped)

text \<open>The owner's routes touch the rate cards alone.\<close>

lemma insert_rows_only_append:
  "foldr_result insert_model_row db rows = Inr e \<Longrightarrow>
     e = db\<lparr>credit_rate_card_models := credit_rate_card_models db @ rows\<rparr>"
proof (induction rows arbitrary: db)
  case (Cons r rows)
  from Cons.prems obtain d where d: "insert_model_row db r = Inr d" "foldr_result insert_model_row d rows = Inr e"
    by (auto simp: result_simps)
  from d(1) have "d = db\<lparr>credit_rate_card_models := credit_rate_card_models db @ [r]\<rparr>"
    by (auto simp: insert_model_row_def split: if_splits)
  with Cons.IH [OF d(2)] show ?case by simp
qed simp

lemma publish_Inr:
  assumes "publish bp effective rows db = Inr (c, e)"
  shows "c = published_card bp effective db" "e = published_db bp effective rows db"
  using assms unfolding publish_def Let_def
  by (auto simp: published_card_def published_db_def result_simps dest!: insert_rows_only_append split: if_splits)

lemma publishRateCard_Inr:
  assumes "publishRateCard s clock bp effective db = Inr (v, e)"
  obtains draft rows where "deriveRateCardRows draft s = DraftOk bp rows" "e = published_db bp effective rows db"
proof -
  from assms obtain models where "candidateRateCardModels s = Inr models"
    by (auto simp: publishRateCard_def split: if_splits sum.splits)
  moreover from this assms obtain n rows where "deriveRateCardRows \<lparr>draft_markupBp = bp, draft_models = models\<rparr> s = DraftOk n rows"
    by (cases "deriveRateCardRows \<lparr>draft_markupBp = bp, draft_models = models\<rparr> s")
       (auto simp: publishRateCard_def split: if_splits prod.splits)
  moreover from this have "n = bp" using deriveRateCardRows_ok(1) by fastforce
  ultimately show thesis
    using assms that publish_Inr(2) by (auto simp: publishRateCard_def split: if_splits sum.splits)
qed

lemma withdrawRateCard_Inr:
  assumes "withdrawRateCard clock n db = Inr (v, e)"
  shows "e = db\<lparr>credit_rate_cards := update_where (\<lambda>x. card_version x = n) (\<lambda>x. x\<lparr>withdrawn_at := Some (db_now db)\<rparr>) (credit_rate_cards db)\<rparr>"
  using assms
  by (auto simp: withdrawRateCard_def withdraw_def Let_def split: if_splits sum.splits option.splits RateCardWithdrawResult.splits prod.splits)

lemma cards_stepped:
  assumes "sys_inv db"
  shows "stepped db (db\<lparr>credit_rate_cards := cs, credit_rate_card_models := ms\<rparr>)" (is "stepped db ?e")
proof -
  have "db_inv ?e" "hygiene ?e"
    using sys_invD(1,2) [OF assms] db_inv_cong [of ?e db] hygiene_cong [of ?e db] by simp_all
  from tasks_untouched [OF assms this] show ?thesis by (simp add: stepped_def find_account_def)
qed

lemma credit_step_stepped:
  assumes "sys_inv db" "credit_step db e"
  shows "stepped db e"
  using assms(2)
proof (cases rule: credit_step.cases)
  case (reserves refresh input out)
  with reserve_stepped [OF assms(1)] show ?thesis by blast
next
  case (admits rid r b cid purpose model admitted)
  with admit_stepped [OF assms(1)] show ?thesis by blast
next
  case (sends cid marked)
  with sent_stepped [OF assms(1)] show ?thesis by blast
next
  case (settles_call cid asked usage usage_id settled)
  with settle_call_stepped [OF assms(1)] show ?thesis by blast
next
  case (settles rid new_id why res)
  then have "settleIn new_id rid why db = Inr (res, e)" by (auto simp: settle_def dest: transaction_Inr)
  with settles settle_stepped [OF assms(1)] show ?thesis by blast
next
  case (sweeps rid new_id a swept)
  with sweep_stepped [OF assms(1)] show ?thesis by blast
next
  case (renews k renewed)
  with heartbeat_stepped [OF assms(1)] show ?thesis by blast
next
  case (gives_up k released)
  with releases_stepped [OF assms(1)] show ?thesis by blast
next
  case (publishes clock bp effective published)
  then obtain rows where "e = published_db bp effective rows db" by (auto elim: publishRateCard_Inr)
  with cards_stepped [OF assms(1)] show ?thesis by (simp add: published_db_def)
next
  case (withdraws clock v withdrawn)
  from withdrawRateCard_Inr [OF this]
    cards_stepped [OF assms(1), where ms = "credit_rate_card_models db"] show ?thesis by simp
next
  case (waits t)
  with clock_stepped [OF assms(1)] show ?thesis by blast
qed

interpretation runs: refines credit_step book_step sys_inv book_of
  by unfold_locales (auto dest: credit_step_stepped simp: stepped_def)

text \<open>C6: every state the service can reach is sound. Started from a sound state, any number of reservations,
  admissions, sends and settlements, sweeps, heartbeats and releases, and rate cards published or
  withdrawn by the owner, in any order and at any times, leave balances equal to the sums of the ledger, debts equal to their movements, held credit equal
  to the holds of open tasks, every row within its CHECKs, open enforced tasks in different slots,
  and what each task has committed equal to what its calls may cost.\<close>
theorem runs_keep_the_tables_sound:
  assumes "credit_step\<^sup>*\<^sup>* db e" and "sys_inv db"
  shows "sys_inv e"
  by (rule runs.run_inv [OF assms])

text \<open>C5: the service implements the task book. Every run of it is, seen through tasks and calls alone, a
  run of the abstract account: a task opens with what it reserved, a call is admitted only within
  it, is marked sent, is paid for once with at most its bound and nothing if it never left, and the
  task ends by paying for every call. So in every reachable state an enforced task owes at most what
  it reserved and a task that ended was charged the sum of its calls; and a task that has ended
  never changes again, whatever runs afterwards.\<close>
theorem runs_implement_the_task_book:
  assumes "credit_step\<^sup>*\<^sup>* db e" and "sys_inv db"
  shows "book_step\<^sup>*\<^sup>* (book_of db) (book_of e) \<and> book_ok (book_of e) \<and>
    (\<forall>i v x. book_of db i = Some v \<longrightarrow> tv_charged v = Some x \<longrightarrow> book_of e i = Some v)"
proof (intro conjI allI impI)
  show "book_step\<^sup>*\<^sup>* (book_of db) (book_of e)" by (rule runs.run_view [OF assms])
  show "book_ok (book_of e)"
    by (rule runs.run_stable [where P = book_ok, OF book_step_ok assms sound_book [OF assms(2)]])
  fix i v x assume "book_of db i = Some v" "tv_charged v = Some x"
  then show "book_of e i = Some v"
    using runs.run_stable [where P = "\<lambda>B. B i = Some v", OF _ assms] book_step_final by blast
qed

text \<open>The example: the task of \<open>example_task_db\<close> is kept alive, is settled and pays for its calls, and time passes.\<close>

lemma example_run:
  obtains e where "credit_step\<^sup>*\<^sup>* (example_task_db Enforce 100) e"
    "find_reservation e example_task = Some (final_row (example_task_db Enforce 100) example_task Completed (example_reservation Enforce))"
proof -
  let ?db = "example_task_db Enforce 100" and ?r = "example_reservation Enforce"
  have r: "res_state ?r = Open" "res_mode ?r = Enforce" "settle_headroom ?db (res_account ?r)"
    using example_task_room by (simp_all add: example_reservation_def)
  have "0 \<le> pending_total ?db (res_account ?r)"
    unfolding pending_total_def by (rule sum_by_nonneg) (simp add: standing_claim_def)
  then have room: "settle_room ?db example_task"
    using r by (simp add: settle_room_def example_task_found settle_headroom_def)
  have ids: "\<forall>d. uuid_ok (example_new_id d)" by (simp add: example_new_id_ok)
  from settle_effect [where new_id = example_new_id and why = Completed, OF example_task_sys example_task_found r example_new_id_ok]
  obtain res e where e: "settleIn example_new_id example_task Completed ?db = Inr (res, e)" "commit_checks ?db e"
    "find_reservation e example_task = Some (final_row ?db example_task Completed ?r)" by metis
  then have "settle example_new_id example_task Completed ?db = Inr (res, e)" by (simp add: settle_def transaction_def)
  from credit_step.settles [OF room ids this] have "credit_step ?db e" .
  moreover have "credit_step e (e\<lparr>db_now := db_now e + 1\<rparr>)" by (rule credit_step.waits) simp
  ultimately have "credit_step\<^sup>*\<^sup>* ?db (e\<lparr>db_now := db_now e + 1\<rparr>)" by (meson converse_rtranclp_into_rtranclp rtranclp.rtrancl_refl)
  then show thesis by (rule that) (use e(3) in \<open>simp add: find_reservation_def\<close>)
qed

theorem runs_keep_the_tables_sound_witness:
  "\<exists>e. credit_step\<^sup>*\<^sup>* (example_task_db Enforce 100) e \<and> e \<noteq> example_task_db Enforce 100 \<and> sys_inv e"
proof -
  obtain e where e: "credit_step\<^sup>*\<^sup>* (example_task_db Enforce 100) e"
    "find_reservation e example_task = Some (final_row (example_task_db Enforce 100) example_task Completed (example_reservation Enforce))"
    by (rule example_run)
  have "e \<noteq> example_task_db Enforce 100"
  proof
    assume "e = example_task_db Enforce 100"
    with e(2) example_task_found [of Enforce 100]
    have "res_state (final_row (example_task_db Enforce 100) example_task Completed (example_reservation Enforce)) = Open"
      by (simp add: example_reservation_def)
    then show False by (simp add: final_row_def settled_row_def)
  qed
  with e runs_keep_the_tables_sound [OF e(1) example_task_sys] show ?thesis by blast
qed

theorem runs_implement_the_task_book_witness:
  "\<exists>e v. book_step\<^sup>*\<^sup>* (book_of (example_task_db Enforce 100)) (book_of e) \<and> book_ok (book_of e) \<and>
     book_of e example_task = Some v \<and> tv_charged v = Some 500000"
proof -
  let ?db = "example_task_db Enforce 100"
  obtain e where e: "credit_step\<^sup>*\<^sup>* ?db e"
    "find_reservation e example_task = Some (final_row ?db example_task Completed (example_reservation Enforce))"
    by (rule example_run)
  have "task_charge ?db example_task = 500000"
    by (simp add: task_charge_def calls_of_def task_example_simps owed_by_call_def crash_charge_def charged_or_0_def)
  then have "\<exists>v. book_of e example_task = Some v \<and> tv_charged v = Some 500000"
    using e(2) by (simp add: book_of_def task_view_of_def final_row_def settled_row_def)
  with runs_implement_the_task_book [OF e(1) example_task_sys] show ?thesis by blast
qed

end
