(* ===== verification/Claim_Laws.thy ===== *)
theory Claim_Laws
  imports Task_Steps
begin

section \<open>No claim waits for nothing\<close>

text \<open>
  A reversal whose credit a running task holds leaves a pending claim. This theory follows the claims through a
  settlement, whatever it pays: no claim ever grows or appears, the walk keeps the list of claims it
  was given, and when the last enforced task of an account ends the claims left over are cleared, as
  debt or as a recorded drop. So a claim still pending has an open task that will answer it.
\<close>

subsection \<open>Claims only shrink\<close>

definition claims_within :: "db \<Rightarrow> db \<Rightarrow> bool" where
  "claims_within db d \<longleftrightarrow>
     (\<forall>k\<in>set (credit_clawbacks d). 0 < cb_pending k \<longrightarrow>
        (\<exists>j\<in>set (credit_clawbacks db). cb_id j = cb_id k \<and> cb_account j = cb_account k \<and> cb_state j = cb_state k \<and>
           cb_pending k \<le> cb_pending j))"

lemma within_same: "credit_clawbacks d = credit_clawbacks db \<Longrightarrow> claims_within db d"
  by (auto simp: claims_within_def)

lemma within_trans [trans]: "claims_within db d \<Longrightarrow> claims_within d e \<Longrightarrow> claims_within db e"
  unfolding claims_within_def by (metis less_le_trans order_trans)

lemma insert_ledger_claims: "insert_ledger v db = Inr (x, d) \<Longrightarrow> credit_clawbacks d = credit_clawbacks db"
proof (cases x)
  case None
  then show "insert_ledger v db = Inr (x, d) \<Longrightarrow> ?thesis"
    by (auto simp: insert_ledger_def Let_def result_simps split: if_splits)
next
  case (Some r)
  then show "insert_ledger v db = Inr (x, d) \<Longrightarrow> ?thesis" by (simp add: insert_ledger_Some)
qed

lemma append_ledger_claims: "append_ledger en db = Inr (y, d) \<Longrightarrow> credit_clawbacks d = credit_clawbacks db"
  by (auto simp: append_ledger_def result_simps dest!: insert_ledger_claims split: option.splits if_splits)

lemma append_if_claims: "append_if b en db = Inr d \<Longrightarrow> credit_clawbacks d = credit_clawbacks db"
  by (auto simp: append_if_def result_simps dest: append_ledger_claims split: if_splits)

text \<open>An update of clawbacks that lowers what they are owed.\<close>

definition lowers :: "(credit_clawback \<Rightarrow> credit_clawback) \<Rightarrow> bool" where
  "lowers f \<longleftrightarrow> (\<forall>c. cb_id (f c) = cb_id c \<and> cb_account (f c) = cb_account c \<and> cb_state (f c) = cb_state c \<and>
     cb_pending (f c) \<le> cb_pending c)"

lemma lowers_moves: "0 \<le> x \<Longrightarrow> lowers (move_pending x)" "0 \<le> x \<Longrightarrow> lowers (pending_to_debt x)"
  by (simp_all add: lowers_def move_pending_def pending_to_debt_def)

lemma update_clawbacks_Inr:
  "update_clawbacks P f db = Inr (rows, d) \<Longrightarrow> d = db\<lparr>credit_clawbacks := update_where P f (credit_clawbacks db)\<rparr>"
  by (auto simp: update_clawbacks_def Let_def split: if_splits)

lemma lowers_within:
  assumes "update_clawbacks P f db = Inr (rows, d)" "lowers f"
  shows "claims_within db d"
  using assms(2) unfolding claims_within_def lowers_def update_clawbacks_Inr [OF assms(1)]
  by (fastforce simp: set_update_where)

lemma payPending_within: "payPendingClaim cid x db = Inr (u, d) \<Longrightarrow> 0 \<le> x \<Longrightarrow> claims_within db d"
  by (auto simp: payPendingClaim_def result_simps lowers_moves dest!: lowers_within split: if_splits)

lemma payClaims_within:
  "payClaims a rid lot may released cs db = Inr ((left, cs', paid), d) \<Longrightarrow>
     claims_within db d \<and> map pc_clawback cs' = map pc_clawback cs"
proof (induction cs arbitrary: released db left cs' paid d)
  case Nil
  then show ?case by (simp add: within_same)
next
  case (Cons c cs)
  show ?case
  proof (cases "may c \<and> \<not> released \<le> 0 \<and> \<not> owed c \<le> 0")
    case True
    let ?x = "min released (owed c)"
    from Cons.prems True obtain y db1 u db2 left' cs2 paid' where run: "append_ledger (claim_entry a rid lot c ?x) db = Inr (y, db1)"
      "payPendingClaim (pc_clawback c) ?x db1 = Inr (u, db2)"
      "payClaims a rid lot may (released - ?x) cs db2 = Inr ((left', cs2, paid'), d)" "cs' = c\<lparr>owed := owed c - ?x\<rparr> # cs2"
      by (fastforce simp: Let_def result_simps)
    have "claims_within db db1" by (rule within_same [OF append_ledger_claims [OF run(1)]])
    also have "claims_within db1 db2" by (rule payPending_within [OF run(2)]) (use True in simp)
    also have "claims_within db2 d" using Cons.IH [OF run(3)] by simp
    finally show ?thesis using Cons.IH [OF run(3)] run(4) by simp
  next
    case False
    with Cons.prems consider "d = db" "cs' = c # cs"
      | left' cs2 paid' where "payClaims a rid lot may released cs db = Inr ((left', cs2, paid'), d)" "cs' = c # cs2"
      by (fastforce simp: result_simps split: if_splits)
    then show ?thesis by cases (auto simp: within_same dest: Cons.IH)
  qed
qed

lemma releaseHold_claims: "releaseHold rid lot x db = Inr (u, d) \<Longrightarrow> credit_clawbacks d = credit_clawbacks db"
  by (auto simp: releaseHold_def split: list.splits if_splits)

lemma settle_hold_within:
  assumes "settle_hold a r own (w, db) h = Inr (w', d)"
  shows "claims_within db d \<and> map pc_clawback (sw_claims w') = map pc_clawback (sw_claims w)"
proof -
  from assms obtain x u db1 db2 left cs paid db3 b4 e4 db4 b5 e5 where run: "releaseHold (res_id r) (oh_lot h) x db = Inr (u, db1)"
    "append_if (x > 0) (charge_entry a r (oh_lot h) x) db1 = Inr db2"
    "payClaims a (res_id r) (oh_lot h) (may_pay own (oh_lot h)) (oh_heldMicro h - x) (sw_claims w) db2 = Inr ((left, cs, paid), db3)"
    "append_if b4 e4 db3 = Inr db4" "append_if b5 e5 db4 = Inr d" "sw_claims w' = cs"
    by (fastforce simp: settle_hold_def Let_def result_simps)
  have "claims_within db db2"
    by (rule within_same) (use releaseHold_claims [OF run(1)] append_if_claims [OF run(2)] in simp)
  also have "claims_within db2 db3" using payClaims_within [OF run(3)] by simp
  also have "claims_within db3 d"
    by (rule within_same) (use append_if_claims [OF run(4)] append_if_claims [OF run(5)] in simp)
  finally show ?thesis using payClaims_within [OF run(3)] run(6) by simp
qed

lemma walk_within:
  "foldr_result (settle_hold a r own) (w, db) hs = Inr (w', d) \<Longrightarrow>
     claims_within db d \<and> map pc_clawback (sw_claims w') = map pc_clawback (sw_claims w)"
proof (induction hs arbitrary: w db)
  case Nil
  then show ?case by (simp add: within_same)
next
  case (Cons h hs)
  then obtain v d1 where run: "settle_hold a r own (w, db) h = Inr (v, d1)" "foldr_result (settle_hold a r own) (v, d1) hs = Inr (w', d)"
    by (auto simp: result_simps)
  from settle_hold_within [OF run(1)] Cons.IH [OF run(2)] show ?case using within_trans by auto
qed

subsection \<open>The end of the last task clears them\<close>

lemma lowered_row:
  assumes "update_clawbacks P f db = Inr (rows, d)" "k \<in> set (credit_clawbacks d)"
  obtains j where "j \<in> set (credit_clawbacks db)" "k = (if P j then f j else j)"
  using assms(2) that unfolding update_clawbacks_Inr [OF assms(1)] by (auto simp: set_update_where)

text \<open>
  One claim cleared: rows of other claims stay as they were, and no row of this one still owes anything, when each
  such row owed the whole of it or nothing.
\<close>

definition debts_known :: "db \<Rightarrow> bool" where
  "debts_known db \<longleftrightarrow> (\<forall>c\<in>set (credit_clawbacks db). 0 < cb_pending c \<longrightarrow> cb_debt c \<noteq> None)"

definition cleared :: "uuid \<Rightarrow> int \<Rightarrow> db \<Rightarrow> db \<Rightarrow> bool" where
  "cleared cid x db d \<longleftrightarrow> claims_within db d \<and> (debts_known db \<longrightarrow> debts_known d) \<and>
     (\<forall>k\<in>set (credit_clawbacks d). 0 < cb_pending k \<longrightarrow> cb_id k \<noteq> cid \<longrightarrow> k \<in> set (credit_clawbacks db)) \<and>
     ((\<forall>j\<in>set (credit_clawbacks db). cb_id j = cid \<longrightarrow> 0 < cb_pending j \<longrightarrow> cb_pending j = x) \<longrightarrow>
      (\<forall>k\<in>set (credit_clawbacks d). cb_id k = cid \<longrightarrow> \<not> 0 < cb_pending k))"

lemma lowered_cleared:
  assumes run: "update_clawbacks P f db = Inr (rows, d)" and x: "0 < x" and f: "lowers f" "\<And>c. cb_pending (f c) = cb_pending c - x"
    "\<And>c. cb_debt c \<noteq> None \<Longrightarrow> cb_debt (f c) \<noteq> None"
    and P: "\<And>c. P c \<Longrightarrow> cb_id c = cid \<and> x \<le> cb_pending c"
    and hits: "\<And>c. c \<in> set (credit_clawbacks db) \<Longrightarrow> cb_id c = cid \<Longrightarrow> cb_pending c = x \<Longrightarrow> P c"
  shows "cleared cid x db d"
  unfolding cleared_def
proof (intro conjI ballI impI)
  show "claims_within db d" by (rule lowers_within [OF run f(1)])
  assume "debts_known db"
  then show "debts_known d"
    using f x unfolding debts_known_def update_clawbacks_Inr [OF run] by (fastforce simp: set_update_where)
next
  fix k assume k: "k \<in> set (credit_clawbacks d)" "0 < cb_pending k" "cb_id k \<noteq> cid"
  from run k(1) obtain j where j: "j \<in> set (credit_clawbacks db)" "k = (if P j then f j else j)" by (rule lowered_row)
  then have "\<not> P j" using k(3) P f(1) by (auto simp: lowers_def)
  with j show "k \<in> set (credit_clawbacks db)" by simp
next
  fix k assume whole: "\<forall>j\<in>set (credit_clawbacks db). cb_id j = cid \<longrightarrow> 0 < cb_pending j \<longrightarrow> cb_pending j = x"
    and k: "k \<in> set (credit_clawbacks d)" "cb_id k = cid"
  from run k(1) obtain j where j: "j \<in> set (credit_clawbacks db)" "k = (if P j then f j else j)" by (rule lowered_row)
  have id: "cb_id j = cid" using j(2) k(2) f(1) by (auto simp: lowers_def split: if_splits)
  show "\<not> 0 < cb_pending k"
  proof (cases "P j")
    case True
    then have "cb_pending j = x" using whole j(1) id P [OF True] x by auto
    with True j(2) f(2) [of j] show ?thesis by simp
  next
    case False
    then show ?thesis using whole hits j id by auto
  qed
qed

lemma debt_cleared:
  assumes "pendingClaimBecomesDebt cid x db = Inr (u, d)" "0 < x"
    and "debts_known db"
  shows "cleared cid x db d"
proof -
  from assms(1) obtain rows where "update_clawbacks (\<lambda>c. owes cid x c \<and> cb_debt c \<noteq> None) (pending_to_debt x) db = Inr (rows, d)"
    by (auto simp: pendingClaimBecomesDebt_def result_simps split: if_splits)
  then show ?thesis
    by (rule lowered_cleared [OF _ assms(2)])
      (use assms(2,3) in \<open>auto simp: lowers_moves owes_def pending_to_debt_def debts_known_def\<close>)
qed

lemma drop_cleared:
  assumes "dropClaim new_id cid rid x db = Inr (u, d)" "0 < x"
  shows "cleared cid x db d"
proof -
  from assms(1) obtain rows d1 where run: "update_clawbacks (owes cid x) (move_pending x) db = Inr (rows, d1)"
    and d: "credit_clawbacks d = credit_clawbacks d1 \<or>
      (\<exists>k. credit_clawbacks d = credit_clawbacks d1 @ [k] \<and> cb_pending k = 0)"
    by (auto simp: dropClaim_def Let_def result_simps drop_record_def split: if_splits option.splits)
  have one: "cleared cid x db d1"
    by (rule lowered_cleared [OF run assms(2)]) (use assms(2) in \<open>auto simp: lowers_moves owes_def move_pending_def\<close>)
  from d show ?thesis
  proof
    assume "credit_clawbacks d = credit_clawbacks d1"
    with one show ?thesis by (simp add: cleared_def claims_within_def debts_known_def)
  next
    assume "\<exists>k. credit_clawbacks d = credit_clawbacks d1 @ [k] \<and> cb_pending k = 0"
    then obtain k where "credit_clawbacks d = credit_clawbacks d1 @ [k]" "cb_pending k = 0" by blast
    with one show ?thesis by (simp add: cleared_def claims_within_def debts_known_def ball_Un)
  qed
qed

text \<open>The loop over the claims left over: every one of them is cleared.\<close>

lemma cleared_others:
  assumes "cleared cid x db d" "cid' \<noteq> cid"
    "\<forall>j\<in>set (credit_clawbacks db). cb_id j = cid' \<longrightarrow> 0 < cb_pending j \<longrightarrow> cb_pending j = y"
  shows "\<forall>j\<in>set (credit_clawbacks d). cb_id j = cid' \<longrightarrow> 0 < cb_pending j \<longrightarrow> cb_pending j = y"
  using assms unfolding cleared_def by blast

lemma debt_loop_clears:
  assumes "debt_loop new_id a rid cs db = Inr (t, d)" "distinct (map pc_clawback cs)" "debts_known db"
    and "\<And>c. c \<in> set cs \<Longrightarrow> 0 < owed c \<and>
      (\<forall>j\<in>set (credit_clawbacks db). cb_id j = pc_clawback c \<longrightarrow> 0 < cb_pending j \<longrightarrow> cb_pending j = owed c)"
  shows "claims_within db d \<and>
    (\<forall>k\<in>set (credit_clawbacks d). cb_id k \<in> pc_clawback ` set cs \<longrightarrow> \<not> 0 < cb_pending k)"
  using assms
proof (induction cs arbitrary: db t)
  case Nil
  then show ?case by (simp add: within_same)
next
  case (Cons c cs)
  have pos: "0 < owed c" using Cons.prems(4) [of c] by simp
  from Cons.prems(1) obtain d1 s where one: "cleared (pc_clawback c) (owed c) db d1" and rest: "debt_loop new_id a rid cs d1 = Inr (s, d)"
  proof (cases "pc_annual c")
    case True
    with Cons.prems(1) that show thesis by (auto simp: result_simps dest: drop_cleared [OF _ pos])
  next
    case False
    with Cons.prems(1) obtain y e1 u d1 s where run: "append_ledger (task_entry a [''claim_debt'', pc_clawback c, rid] None
        (IncurDebt (owed c) (clawbackDebtReason (pc_source c)))) db = Inr (y, e1)"
      "pendingClaimBecomesDebt (pc_clawback c) (owed c) e1 = Inr (u, d1)" "debt_loop new_id a rid cs d1 = Inr (s, d)"
      by (auto simp: result_simps)
    have same: "credit_clawbacks e1 = credit_clawbacks db" by (rule append_ledger_claims [OF run(1)])
    have "cleared (pc_clawback c) (owed c) e1 d1"
      by (rule debt_cleared [OF run(2) pos]) (use Cons.prems(3) in \<open>simp add: debts_known_def same\<close>)
    then have "cleared (pc_clawback c) (owed c) db d1" by (simp add: cleared_def claims_within_def debts_known_def same)
    from this run(3) show thesis by (rule that)
  qed
  have none: "\<forall>k\<in>set (credit_clawbacks d1). cb_id k = pc_clawback c \<longrightarrow> \<not> 0 < cb_pending k"
    using one Cons.prems(4) [of c] by (simp add: cleared_def)
  have ih: "claims_within d1 d \<and> (\<forall>k\<in>set (credit_clawbacks d). cb_id k \<in> pc_clawback ` set cs \<longrightarrow> \<not> 0 < cb_pending k)"
  proof (rule Cons.IH [OF rest])
    show "distinct (map pc_clawback cs)" "debts_known d1" using Cons.prems(2,3) one by (simp_all add: cleared_def)
    fix q assume q: "q \<in> set cs"
    then have "pc_clawback q \<noteq> pc_clawback c" using Cons.prems(2) by (force simp: image_iff)
    with Cons.prems(4) [of q] q show "0 < owed q \<and>
        (\<forall>j\<in>set (credit_clawbacks d1). cb_id j = pc_clawback q \<longrightarrow> 0 < cb_pending j \<longrightarrow> cb_pending j = owed q)"
      using cleared_others [OF one] by simp
  qed
  have "claims_within db d1" using one by (simp add: cleared_def)
  then have "claims_within db d" using ih within_trans by blast
  moreover have "\<not> 0 < cb_pending k" if "k \<in> set (credit_clawbacks d)" "cb_id k = pc_clawback c" for k
  proof
    assume "0 < cb_pending k"
    with ih that(1) obtain j where "j \<in> set (credit_clawbacks d1)" "cb_id j = cb_id k" "cb_pending k \<le> cb_pending j"
      unfolding claims_within_def by blast
    with none that(2) \<open>0 < cb_pending k\<close> show False by fastforce
  qed
  ultimately show ?case using ih by auto
qed

subsection \<open>The settlement\<close>

lemma pendingClaims_ids:
  assumes "pendingClaims a db = Inr cs"
  shows "pc_clawback ` set cs = cb_id ` set (filter (standing_claim a) (credit_clawbacks db))"
proof -
  have ids: "all_results (map (\<lambda>c. rbind (exact (cb_pending c)) (\<lambda>_. Inr (claim_of c))) ks) = Inr cs \<Longrightarrow>
      map pc_clawback cs = map cb_id ks" for ks cs
    by (induction ks arbitrary: cs) (auto simp: result_simps claim_of_def)
  from ids [OF assms [unfolded pendingClaims_def]] have "set (map pc_clawback cs) =
      cb_id ` set (sort_key (\<lambda>c. (cb_created c, cb_id c)) (filter (standing_claim a) (credit_clawbacks db)))"
    by (metis list.set_map)
  then show ?thesis by simp
qed

lemma claims_whole:
  assumes ok: "claims_ok db" and match: "claims_match db cs"
  shows "c \<in> set cs \<Longrightarrow> j \<in> set (credit_clawbacks db) \<Longrightarrow> cb_id j = pc_clawback c \<Longrightarrow> cb_pending j = owed c"
  using match find_clawback_member [OF ok, of j] by (auto simp: claims_match_def claim_matches_def)

lemma left_loop:
  assumes "claims_ok db" "claims_match db cs" "debt_loop new_id a rid (filter (\<lambda>c. owed c > 0) cs) db = Inr (t, d)"
  shows "claims_within db d \<and>
    (\<forall>k\<in>set (credit_clawbacks d). cb_id k \<in> pc_clawback ` set (filter (\<lambda>c. owed c > 0) cs) \<longrightarrow> \<not> 0 < cb_pending k)"
proof (rule debt_loop_clears [OF assms(3)])
  show "distinct (map pc_clawback (filter (\<lambda>c. owed c > 0) cs))"
    using assms(2) by (simp add: claims_match_def distinct_map_filter)
  have "cb_debt c \<noteq> None" if "c \<in> set (credit_clawbacks db)" "0 < cb_pending c" for c
    using assms(1) that by (cases "cb_state c") (auto simp: claims_ok_def clawback_checks_def)
  then show "debts_known db" by (simp add: debts_known_def)
  fix c assume "c \<in> set (filter (\<lambda>c. owed c > 0) cs)"
  then show "0 < owed c \<and> (\<forall>j\<in>set (credit_clawbacks db). cb_id j = pc_clawback c \<longrightarrow> 0 < cb_pending j \<longrightarrow> cb_pending j = owed c)"
    using claims_whole [OF assms(1,2)] by simp
qed

text \<open>After the walk and the end of the task: with no other task open, nothing of the account's claims is left.\<close>

lemma left_claims_cleared:
  assumes run: "claimsLeftBecomeDebt new_id a rid cs db = Inr (t, d)" and none: "\<not> hasOtherOpenEnforce a rid db"
    and ok: "claims_ok db" and match: "claims_match db cs"
    and k: "k \<in> set (credit_clawbacks d)" "cb_id k \<in> pc_clawback ` set cs"
  shows "\<not> 0 < cb_pending k"
proof -
  let ?cs = "filter (\<lambda>c. owed c > 0) cs"
  note whole = claims_whole [OF ok match]
  have loop: "claims_within db d \<and> (\<forall>k\<in>set (credit_clawbacks d). cb_id k \<in> pc_clawback ` set ?cs \<longrightarrow> \<not> 0 < cb_pending k)"
  proof (cases "?cs = []")
    case True
    with run have "d = db" by (simp add: claimsLeftBecomeDebt_def Let_def)
    with True show ?thesis by (simp add: within_same)
  next
    case False
    with run none have "debt_loop new_id a rid ?cs db = Inr (t, d)" by (simp add: claimsLeftBecomeDebt_def Let_def)
    then show ?thesis by (rule left_loop [OF ok match])
  qed
  from k(2) obtain c where c: "c \<in> set cs" "cb_id k = pc_clawback c" by blast
  show ?thesis
  proof (cases "owed c > 0")
    case True
    with c loop k(1) show ?thesis by (auto simp: image_iff)
  next
    case False
    show ?thesis
    proof
      assume "0 < cb_pending k"
      then obtain j where "j \<in> set (credit_clawbacks db)" "cb_id j = cb_id k" "cb_pending k \<le> cb_pending j"
        using loop k(1) by (auto simp: claims_within_def)
      with whole [OF c(1), of j] c(2) False \<open>0 < cb_pending k\<close> show False by simp
    qed
  qed
qed

lemma left_claims_within:
  assumes run: "claimsLeftBecomeDebt new_id a rid cs db = Inr (t, d)" and ok: "claims_ok db" and match: "claims_match db cs"
  shows "claims_within db d"
proof -
  from run consider "d = db" | "debt_loop new_id a rid (filter (\<lambda>c. owed c > 0) cs) db = Inr (t, d)"
    by (auto simp: claimsLeftBecomeDebt_def Let_def split: if_splits)
  then show ?thesis using left_loop [OF ok match] by cases (auto simp: within_same)
qed

text \<open>
  The whole settlement keeps every claim backed: a claim of another account keeps its open task, and a claim of this
  one is either backed by another open task or cleared.
\<close>

lemma open_after_settlement:
  assumes only: "settles_only a rid db e" and rows: "task_rows_ok db" and q: "q \<in> set (credit_reservations db)" "res_id q \<noteq> rid"
  shows "q \<in> set (credit_reservations e)"
proof -
  have "find_reservation e (res_id q) = Some q"
    using only q find_reservation_member [OF rows q(1)] by (simp add: settles_only_def)
  then show ?thesis by (rule find_reservation_Some [THEN conjunct1])
qed

lemma repay_loop_claims: "repay_loop a x ls db = Inr (paid, d) \<Longrightarrow> credit_clawbacks d = credit_clawbacks db"
proof (induction ls arbitrary: x db paid)
  case (Cons l ls)
  then show ?case
    by (cases l) (auto simp: Let_def result_simps split: if_splits dest!: append_ledger_claims)
qed simp

lemma settleDebt_claims: "settleDebtFromFree a db = Inr (paid, d) \<Longrightarrow> credit_clawbacks d = credit_clawbacks db"
  by (auto simp: settleDebtFromFree_def result_simps split: if_splits dest: repay_loop_claims)

lemma markSettled_Inr:
  assumes "markSettled rid x why db = Inr (u, d)"
  shows "credit_clawbacks d = credit_clawbacks db" "find_clawback d = find_clawback db" "claims_ok d = claims_ok db"
    "q \<in> set (credit_reservations d) \<Longrightarrow> res_id q \<noteq> rid \<Longrightarrow> q \<in> set (credit_reservations db)"
  using assms
  by (auto simp: markSettled_def update_reservations_def Let_def result_simps set_update_where open_task_def settled_row_def
      find_clawback_def claims_ok_def fun_eq_iff split: if_splits)

lemma crashed_others: "q \<in> set (credit_reservations (crashed_db rid db)) \<Longrightarrow> res_id q \<noteq> rid \<Longrightarrow> q \<in> set (credit_reservations db)"
  by (auto simp: crashed_db_def put_task_def set_update_where set_committed_def)

lemma settle_tail:
  assumes inv: "sys_inv db" and r: "find_reservation db rid = Some r" "res_state r = Open" "res_mode r = Enforce"
    and room: "settle_headroom db (res_account r)" and C: "0 \<le> task_charge db rid" "task_charge db rid \<le> reserved r"
    and run: "settleIn new_id rid why db = Inr (res, e)"
  obtains cs own hs w d3 d4 t d5 paid where
    "pendingClaims (res_account r) (crashed_db rid db) = Inr cs"
    "foldr_result (settle_hold (res_account r) r own)
       (first_walk (task_charge db rid) (account_debt db (res_account r)) cs, crashed_db rid db) hs = Inr (w, d3)"
    "openHoldsInSpendOrder rid (crashed_db rid db) = Inr hs"
    "ownLots (res_account r) (crashed_db rid db) (map as_owed cs) [] = Inr own"
    "markSettled rid (task_charge db rid) why d3 = Inr ((), d4)"
    "claimsLeftBecomeDebt new_id (res_account r) rid (sw_claims w) d4 = Inr (t, d5)"
    "settleDebtFromFree (res_account r) d5 = Inr (paid, e)"
proof -
  let ?a = "res_account r" and ?d1 = "crashed_db rid db" and ?C = "task_charge db rid"
  note ok = sys_invD [OF inv] and t = open_task_fresh [OF inv r(1,2)]
  have "0 \<le> pending_total db ?a" unfolding pending_total_def by (rule sum_by_nonneg) (simp add: standing_claim_def)
  then have debt: "account_debt db ?a \<le> MAX_SAFE" using room by (simp add: settle_headroom_def)
  have card: "safe_int (res_card r)" using ok(3) find_reservation_Some [OF r(1)] by (auto simp: task_rows_ok_def)
  obtain acct where lock: "lockAccount ?a db = Inr (acct, db)" "debt_micro acct = account_debt db ?a" "lockReservation rid db = Inr (Some r)"
    using lock_reads [OF inv r(1) debt t(7,8) card r(3)] by blast
  obtain n where crash: "settleStartedCallsAfterACrash rid db = Inr (n, ?d1)" using crashed_sys_inv [OF inv r(1,2)] by blast
  have charged: "chargedByCalls rid ?d1 = Inr ?C"
    using crashed_totals(1) [of rid db] C t(7) by (simp add: chargedByCalls_def safe_int_def)
  from run r lock crash charged that show thesis
    by (auto simp: settleIn_def accountOf_def Let_def result_simps first_walk_def)
qed

lemma settle_claims_backed:
  assumes inv: "sys_inv db" and r: "find_reservation db rid = Some r" "res_state r = Open" "res_mode r = Enforce"
    and room: "settle_headroom db (res_account r)" and new_id: "\<And>d. uuid_ok (new_id d)"
    and run: "settleIn new_id rid why db = Inr (res, e)"
    and claims: "claims_backed db"
  shows "claims_backed e"
proof -
  let ?a = "res_account r" and ?d1 = "crashed_db rid db" and ?C = "task_charge db rid"
  let ?r = "set_committed ?C r"
  note ok = sys_invD [OF inv] and t = open_task_fresh [OF inv r(1,2)]
  obtain res' e' where eff: "settleIn new_id rid why db = Inr (res', e')" "settles_only ?a rid db e'" "0 \<le> ?C" "?C \<le> reserved r"
    using settle_effect [where new_id = new_id and why = why, OF inv r room new_id] by metis
  with run have only: "settles_only ?a rid db e" by simp
  have r1: "find_reservation ?d1 rid = Some ?r" "res_state ?r = Open" "res_mode ?r = Enforce" "res_account ?r = ?a" "?C \<le> reserved ?r"
    using r eff(4) by (simp_all add: crashed_finds set_committed_def)
  have room1: "settle_headroom ?d1 ?a" using room by (simp add: settle_headroom_def pending_total_def)
  have rid: "res_id r = rid" using find_reservation_Some [OF r(1)] by simp
  from settle_tail [OF inv r room eff(3,4) run] obtain cs own hs w d3 d4 s d5 paid where steps:
    "pendingClaims ?a ?d1 = Inr cs"
    "foldr_result (settle_hold ?a r own) (first_walk ?C (account_debt db ?a) cs, ?d1) hs = Inr (w, d3)"
    "openHoldsInSpendOrder rid ?d1 = Inr hs" "ownLots ?a ?d1 (map as_owed cs) [] = Inr own"
    "markSettled rid ?C why d3 = Inr ((), d4)" "claimsLeftBecomeDebt new_id ?a rid (sw_claims w) d4 = Inr (s, d5)"
    "settleDebtFromFree ?a d5 = Inr (paid, e)" by blast
  obtain w' d' where walk: "foldr_result (settle_hold ?a r own) (first_walk ?C (account_debt ?d1 ?a) cs, ?d1) hs = Inr (w', d')"
    "task_moves (walk_key rid) ?a rid ?d1 d'" "walk_ok ?a rid w' d'"
    using walk_phase [OF crashed_sys_inv(1) [OF inv r(1,2)] r1(1-4) rid room1 eff(3) r1(5)] steps(1,3,4) by (metis sum.inject(2))
  from walk(1) steps(2) have "w' = w" "d' = d3" by simp_all
  with walk(2,3) have moves: "task_moves (walk_key rid) ?a rid ?d1 d3" and ok3: "claims_ok d3" "claims_match d3 (sw_claims w)"
    by (simp_all add: walk_ok_def)
  note marked = markSettled_Inr [OF steps(5)]
  have ok4: "claims_ok d4" "claims_match d4 (sw_claims w)"
    using ok3 marked(2,3) claims_match_cong [of "sw_claims w" d4 d3] by simp_all
  have ids: "pc_clawback ` set (sw_claims w) = cb_id ` set (filter (standing_claim ?a) (credit_clawbacks db))"
  proof -
    have "map pc_clawback (sw_claims w) = map pc_clawback cs"
      using walk_within [OF steps(2)] by (simp add: first_walk_def comp_def)
    then have "set (map pc_clawback (sw_claims w)) = set (map pc_clawback cs)" by (simp only:)
    with pendingClaims_ids [OF steps(1)] show ?thesis by simp
  qed
  have "claims_within db d3" using walk_within [OF steps(2)] by (simp add: claims_within_def)
  also have "claims_within d3 d4" by (rule within_same [OF marked(1)])
  also have "claims_within d4 d5" by (rule left_claims_within [OF steps(6) ok4])
  also have "claims_within d5 e" by (rule within_same [OF settleDebt_claims [OF steps(7)]])
  finally have within: "claims_within db e" .
  have backed: "list_ex (open_enforce (cb_account k)) (credit_reservations e) \<and> cb_state k = Applied"
    if k: "k \<in> set (credit_clawbacks e)" "0 < cb_pending k" for k
  proof -
    from within k obtain j where j: "j \<in> set (credit_clawbacks db)" "cb_id j = cb_id k" "cb_account j = cb_account k"
      "cb_state j = cb_state k" "0 < cb_pending j" unfolding claims_within_def by (metis less_le_trans)
    with claims have applied: "cb_state j = Applied" and "list_ex (open_enforce (cb_account j)) (credit_reservations db)"
      by (auto simp: claims_backed_def)
    then obtain q where q: "q \<in> set (credit_reservations db)" "open_enforce (cb_account j) q" by (auto simp: list_ex_iff)
    have other: ?thesis if "p \<in> set (credit_reservations db)" "open_enforce (cb_account j) p" "res_id p \<noteq> rid" for p
      using open_after_settlement [OF only ok(3) that(1,3)] that(2) j(3,4) applied by (auto simp: list_ex_iff)
    show ?thesis
    proof (cases "cb_account j = ?a \<and> \<not> hasOtherOpenEnforce ?a rid d4")
      case True
      then have "cb_id k \<in> pc_clawback ` set (sw_claims w)"
        using j applied unfolding ids by (auto simp: standing_claim_def image_iff)
      moreover have "k \<in> set (credit_clawbacks d5)" using k(1) settleDebt_claims [OF steps(7)] by simp
      ultimately have "\<not> 0 < cb_pending k" using left_claims_cleared [OF steps(6) _ ok4] True by blast
      with k(2) show ?thesis by contradiction
    next
      case False
      show ?thesis
      proof (cases "cb_account j = ?a")
        case True
        with False obtain p where p: "p \<in> set (credit_reservations d4)" "open_enforce ?a p" "res_id p \<noteq> rid"
          by (auto simp: hasOtherOpenEnforce_def list_ex_iff)
        have "p \<in> set (credit_reservations ?d1)" using marked(4) [OF p(1,3)] moves_frame [OF moves] by simp
        from other [OF crashed_others [OF this p(3)]] p(2,3) True show ?thesis by simp
      next
        case False
        have "res_id q \<noteq> rid"
        proof
          assume "res_id q = rid"
          then have "q = r" using find_reservation_member [OF ok(3) q(1)] r(1) by simp
          with q(2) False show False by (simp add: open_enforce_def)
        qed
        with other q show ?thesis by blast
      qed
    qed
  qed
  then show ?thesis by (auto simp: claims_backed_def)
qed

end
