(* ===== verification/Credit_Audit.thy ===== *)
theory Credit_Audit
  imports Credit_Ledger Complex_Main
begin

section \<open>The daily audit of the credit records\<close>

text \<open>
  The nine counts of \<^verbatim>\<open>db/credit-invariant-audit-repo.ts\<close> and the report
  \<^verbatim>\<open>services/credit-invariant-audit.ts\<close> makes of them. Every count is one query over the credit tables; a
  grouped left join is the sum over the rows that name the group's key. The last query reads the two
  billing tables, which the credit system only mirrors: they are an argument. The alert and the job
  that re-arms itself are left out.
\<close>

datatype CreditInvariantCheck =
    LotBalanceVsLedger | AccountDebtVsLedger | LotHeldVsHolds | HoldOpenPastItsTask
  | ReservationOpenPastMaxUntil | ClaimPendingWithNoOpenHold | ShadowChargeVsListPrice
  | RateCardRateVsListPrice | ActiveSubscriptionWithoutPaidInvoice

definition CREDIT_INVARIANT_CHECKS :: "CreditInvariantCheck list" where
  "CREDIT_INVARIANT_CHECKS =
     [LotBalanceVsLedger, AccountDebtVsLedger, LotHeldVsHolds, HoldOpenPastItsTask,
      ReservationOpenPastMaxUntil, ClaimPendingWithNoOpenHold, ShadowChargeVsListPrice,
      RateCardRateVsListPrice, ActiveSubscriptionWithoutPaidInvoice]"

definition CREDIT_AUDIT_MAX_UNTIL_GRACE_MINUTES :: int where
  "CREDIT_AUDIT_MAX_UNTIL_GRACE_MINUTES = 5"

definition CREDIT_AUDIT_SHADOW_TOLERANCE_FRACTION :: rat where
  "CREDIT_AUDIT_SHADOW_TOLERANCE_FRACTION = 1 / 100"

definition BASIS_POINTS :: int where
  "BASIS_POINTS = 10000"

text \<open>A count read back as a JavaScript number.\<close>

definition row_count :: "'r list \<Rightarrow> int result" where
  "row_count rows = exact (int (length rows))"

subsection \<open>The credit tables against each other\<close>

definition lotBalanceVsLedger :: "db \<Rightarrow> int result" where
  "lotBalanceVsLedger db =
     row_count (filter (\<lambda>l. sum_by lot_delta (filter (\<lambda>g. led_lot g = Some (lot_id l)) (credit_ledger db)) \<noteq> remaining l)
       (credit_lots db))"

definition accountDebtVsLedger :: "db \<Rightarrow> int result" where
  "accountDebtVsLedger db =
     row_count (filter (\<lambda>a. sum_by debt_delta (filter (\<lambda>g. led_account g = acc_id a) (credit_ledger db)) \<noteq> debt_micro a)
       (credit_accounts db))"

definition lotHeldVsHolds :: "db \<Rightarrow> int result" where
  "lotHeldVsHolds db =
     row_count (filter (\<lambda>l. sum_by hold_micro (filter (\<lambda>h. hold_lot h = lot_id l \<and> released_at h = None)
         (credit_reservation_holds db)) \<noteq> held l) (credit_lots db))"

definition holdOpenPastItsTask :: "db \<Rightarrow> int result" where
  "holdOpenPastItsTask db =
     row_count (filter (\<lambda>h. released_at h = None \<and>
         \<not> list_ex (\<lambda>r. res_id r = hold_reservation h \<and> res_state r = Open \<and> res_mode r = Enforce)
             (credit_reservations db))
       (credit_reservation_holds db))"

definition reservationOpenPastMaxUntil :: "db \<Rightarrow> int result" where
  "reservationOpenPastMaxUntil db =
     row_count (filter (\<lambda>r. res_state r = Open \<and>
         max_until r < db_now db - CREDIT_AUDIT_MAX_UNTIL_GRACE_MINUTES * 60000) (credit_reservations db))"

definition claimPendingWithNoOpenHold :: "db \<Rightarrow> int result" where
  "claimPendingWithNoOpenHold db =
     row_count (filter (\<lambda>c. cb_pending c > 0 \<and>
         \<not> list_ex (\<lambda>h. hold_account h = cb_account c \<and> released_at h = None \<and>
              list_ex (\<lambda>r. res_id r = hold_reservation h \<and> res_state r = Open \<and> res_mode r = Enforce)
                (credit_reservations db))
             (credit_reservation_holds db))
       (credit_clawbacks db))"

subsection \<open>Prices against the list\<close>

text \<open>
  Token counts of a call are stored together or not at all; an absent count reads as zero. Postgres
  divides these numerics by the basis points exactly: the quotient has at most four decimals.
\<close>

definition tokens_or_0 :: "credit_model_call \<Rightarrow> ModelCallTokens" where
  "tokens_or_0 c =
     (case call_tokens c of
        None \<Rightarrow> \<lparr>uncachedInput = 0, outputTokens = 0, cacheRead = 0, cacheWrite5m = 0, cacheWrite1h = 0\<rparr>
      | Some t \<Rightarrow> t)"

definition actual_or_0 :: "credit_model_call \<Rightarrow> int" where
  "actual_or_0 c = (case actual_micro c of None \<Rightarrow> 0 | Some x \<Rightarrow> x)"

definition list_charge :: "rate_card \<Rightarrow> rate_card_model \<Rightarrow> ModelCallTokens \<Rightarrow> rat" where
  "list_charge crd m t =
     of_int ((uncachedInput t * listInputMicrocentsPerToken m + outputTokens t * listOutputMicrocentsPerToken m)
       * markup_bp crd) / of_int BASIS_POINTS"

definition shadow_call_off_list :: "rate_card \<Rightarrow> rate_card_model \<Rightarrow> credit_model_call \<Rightarrow> bool" where
  "shadow_call_off_list crd m c \<longleftrightarrow>
     (let t = tokens_or_0 c in
        cacheRead t = 0 \<and> cacheWrite5m t = 0 \<and> cacheWrite1h t = 0 \<and>
        \<bar>of_int (actual_or_0 c) - list_charge crd m t\<bar>
          > max 1 (of_int (actual_or_0 c) * CREDIT_AUDIT_SHADOW_TOLERANCE_FRACTION))"

text \<open>The rows of the join: a call, its reservation, the reservation's card and the model's row on it.\<close>

definition shadow_rows :: "db \<Rightarrow> (rate_card \<times> rate_card_model \<times> credit_model_call) list" where
  "shadow_rows db =
     [(crd, m, c). c \<leftarrow> credit_model_calls db, r \<leftarrow> credit_reservations db, crd \<leftarrow> credit_rate_cards db,
        m \<leftarrow> credit_rate_card_models db,
        res_id r = call_reservation c \<and> card_version crd = res_card r \<and>
        rcm_version m = res_card r \<and> rcm_model m = call_model c \<and>
        res_mode r = Shadow \<and> call_state c = CallSettled \<and> settle_basis c = Some ProviderUsage]"

definition shadowChargeVsListPrice :: "db \<Rightarrow> int result" where
  "shadowChargeVsListPrice db =
     row_count (filter (\<lambda>(crd, m, c). shadow_call_off_list crd m c) (shadow_rows db))"

text \<open>Postgres rounds a numeric half away from zero.\<close>

definition round_numeric :: "rat \<Rightarrow> int" where
  "round_numeric x = (if 0 \<le> x then \<lfloor>x + 1 / 2\<rfloor> else - \<lfloor>- x + 1 / 2\<rfloor>)"

definition off_list :: "int \<Rightarrow> rate_card_model \<Rightarrow> bool" where
  "off_list markup m \<longleftrightarrow>
     inputMicroPerToken m \<noteq> round_numeric (of_int (listInputMicrocentsPerToken m * markup) / of_int BASIS_POINTS) \<or>
     outputMicroPerToken m \<noteq> round_numeric (of_int (listOutputMicrocentsPerToken m * markup) / of_int BASIS_POINTS)"

definition rateCardRateVsListPrice :: "db \<Rightarrow> int result" where
  "rateCardRateVsListPrice db =
     row_count [m. m \<leftarrow> credit_rate_card_models db, c \<leftarrow> credit_rate_cards db,
       card_version c = rcm_version m \<and> off_list (markup_bp c) m]"

subsection \<open>Subscriptions against paid invoices\<close>

record subscription =
  sub_account :: uuid
  sub_stripe :: string
  sub_status :: string

record invoice_payment =
  inv_account :: uuid
  inv_subscription :: "string option"
  line_kind :: "string option"
  line_period_start :: "instant option"
  line_period_end :: "instant option"

record billing_tables =
  subscriptions :: "subscription list"
  billing_invoice_payments :: "invoice_payment list"

definition covers_now :: "instant \<Rightarrow> subscription \<Rightarrow> invoice_payment \<Rightarrow> bool" where
  "covers_now t s p \<longleftrightarrow>
     inv_account p = sub_account s \<and> inv_subscription p = Some (sub_stripe s) \<and> line_kind p \<noteq> None \<and>
     (case (line_period_start p, line_period_end p) of (Some a, Some b) \<Rightarrow> a \<le> t \<and> t < b | _ \<Rightarrow> False)"

definition activeSubscriptionWithoutPaidInvoice :: "billing_tables \<Rightarrow> db \<Rightarrow> int result" where
  "activeSubscriptionWithoutPaidInvoice bill db =
     row_count (filter (\<lambda>s. sub_status s = ''active'' \<and>
         \<not> list_ex (covers_now (db_now db) s) (billing_invoice_payments bill)) (subscriptions bill))"

subsection \<open>The report\<close>

definition count_of :: "billing_tables \<Rightarrow> db \<Rightarrow> CreditInvariantCheck \<Rightarrow> int result" where
  "count_of bill db check =
     (case check of
        LotBalanceVsLedger \<Rightarrow> lotBalanceVsLedger db
      | AccountDebtVsLedger \<Rightarrow> accountDebtVsLedger db
      | LotHeldVsHolds \<Rightarrow> lotHeldVsHolds db
      | HoldOpenPastItsTask \<Rightarrow> holdOpenPastItsTask db
      | ReservationOpenPastMaxUntil \<Rightarrow> reservationOpenPastMaxUntil db
      | ClaimPendingWithNoOpenHold \<Rightarrow> claimPendingWithNoOpenHold db
      | ShadowChargeVsListPrice \<Rightarrow> shadowChargeVsListPrice db
      | RateCardRateVsListPrice \<Rightarrow> rateCardRateVsListPrice db
      | ActiveSubscriptionWithoutPaidInvoice \<Rightarrow> activeSubscriptionWithoutPaidInvoice bill db)"

definition countAll :: "billing_tables \<Rightarrow> db \<Rightarrow> (CreditInvariantCheck \<times> int) list result" where
  "countAll bill db =
     all_results (map (\<lambda>check. rbind (count_of bill db check) (\<lambda>n. Inr (check, n))) CREDIT_INVARIANT_CHECKS)"

text \<open>\<open>breachesIn\<close> walks the declared list: a missing count reads as \<open>-1\<close> and is reported.\<close>

definition breachesIn :: "(CreditInvariantCheck \<times> int) list \<Rightarrow> (CreditInvariantCheck \<times> int) list" where
  "breachesIn counts =
     filter (\<lambda>(_, n). n \<noteq> 0)
       (map (\<lambda>check. (check, case map_of counts check of None \<Rightarrow> -1 | Some n \<Rightarrow> n)) CREDIT_INVARIANT_CHECKS)"

record CreditInvariantAuditReport =
  report_counts :: "(CreditInvariantCheck \<times> int) list"
  report_breaches :: "(CreditInvariantCheck \<times> int) list"

definition auditCreditInvariants :: "billing_tables \<Rightarrow> db \<Rightarrow> CreditInvariantAuditReport result" where
  "auditCreditInvariants bill db =
     rbind (countAll bill db) (\<lambda>counts.
       Inr \<lparr>report_counts = counts, report_breaches = breachesIn counts\<rparr>)"

end
