(* ===== verification/Audit_Runs.thy ===== *)
theory Audit_Runs
  imports Task_Runs Claim_Laws Credit_Audit
begin

section \<open>What the daily audit finds\<close>

text \<open>
  The audit asks whether the records still agree; here is what it finds after any run of the service. The counts
  over the credit tables are zero in every sound state; a claim is pending only while a task is open;
  and a shadow call costs the markup times the list price, because every card prices its models at
  exactly that and every call is settled from its card.
\<close>

subsection \<open>The tables\<close>

lemma row_count_0: "row_count [] = Inr 0" "rs = [] \<Longrightarrow> row_count rs = Inr 0"
  by (simp_all add: row_count_def exact_def)

lemma sound_counts:
  assumes "sys_inv db"
  shows "lotBalanceVsLedger db = Inr 0" "accountDebtVsLedger db = Inr 0" "lotHeldVsHolds db = Inr 0" "holdOpenPastItsTask db = Inr 0"
proof -
  note ok = sys_invD [OF assms]
  have bal: "balances_ok db" using ok(1) by (simp add: db_inv_def)
  show "lotBalanceVsLedger db = Inr 0" "accountDebtVsLedger db = Inr 0" "lotHeldVsHolds db = Inr 0"
    unfolding lotBalanceVsLedger_def accountDebtVsLedger_def lotHeldVsHolds_def
    using bal by (auto simp: balances_ok_def lot_total_def debt_total_def hold_total_def filter_empty_conv row_count_0)
  have "\<exists>r\<in>set (credit_reservations db). res_id r = hold_reservation h \<and> res_state r = Open \<and> res_mode r = Enforce"
    if h: "h \<in> set (credit_reservation_holds db)" "released_at h = None" for h
  proof -
    from ok(3) h(1) obtain r where r: "find_reservation db (hold_reservation h) = Some r" "res_mode r = Enforce"
      by (fastforce simp: task_rows_ok_def)
    note mem = find_reservation_Some [OF r(1)]
    have "h \<in> set (holds_of db (res_id r))" using h(1) mem by (simp add: holds_of_def)
    moreover have "credit_check_reservation db (res_id r)" using ok(5) mem by (auto simp: tasks_balanced_def)
    ultimately have "res_state r \<noteq> Settled" using r h(2) mem by (auto simp: credit_check_reservation_def list_ex_iff)
    with r mem show ?thesis by (cases "res_state r") auto
  qed
  then show "holdOpenPastItsTask db = Inr 0"
    unfolding holdOpenPastItsTask_def by (intro row_count_0(2)) (auto simp: filter_empty_conv list_ex_iff)
qed

text \<open>An open enforced task reserves a positive amount, so it has a hold, and its holds are its account's.\<close>

lemma backed_count:
  assumes inv: "sys_inv db" and "claims_backed db"
  shows "claimPendingWithNoOpenHold db = Inr 0"
proof -
  note ok = sys_invD [OF inv]
  have "\<exists>h\<in>set (credit_reservation_holds db). hold_account h = a \<and> released_at h = None \<and>
      (\<exists>r\<in>set (credit_reservations db). res_id r = hold_reservation h \<and> res_state r = Open \<and> res_mode r = Enforce)"
    if "list_ex (open_enforce a) (credit_reservations db)" for a
  proof -
    from that obtain r where r: "r \<in> set (credit_reservations db)" "res_account r = a" "res_state r = Open" "res_mode r = Enforce"
      by (auto simp: list_ex_iff open_enforce_def)
    have found: "find_reservation db (res_id r) = Some r" by (rule find_reservation_member [OF ok(3) r(1)])
    note t = open_task_fresh [OF inv found r(3)]
    have "sum_by hold_micro (holds_of db (res_id r)) = reserved r" using t(3) found r(4) by (simp add: credit_check_reservation_def)
    moreover have "0 < reserved r" using t(8) r(4) by (auto simp: reservation_checks_def)
    ultimately obtain h where h: "h \<in> set (holds_of db (res_id r))" by (cases "holds_of db (res_id r)") auto
    then have mem: "h \<in> set (credit_reservation_holds db)" "hold_reservation h = res_id r" by (simp_all add: holds_of_def)
    then have "hold_account h = a" using ok(3) found r(2) by (fastforce simp: task_rows_ok_def)
    with mem t(4) [OF h] r show ?thesis by metis
  qed
  then have backed: "list_ex (\<lambda>h. hold_account h = cb_account c \<and> released_at h = None \<and>
        list_ex (\<lambda>r. res_id r = hold_reservation h \<and> res_state r = Open \<and> res_mode r = Enforce) (credit_reservations db))
      (credit_reservation_holds db)"
    if "c \<in> set (credit_clawbacks db)" "0 < cb_pending c" for c
    using assms(2) that unfolding list_ex_iff claims_backed_def by blast
  then show ?thesis
    unfolding claimPendingWithNoOpenHold_def by (intro row_count_0(2)) (simp add: filter_empty_conv)
qed

subsection \<open>Prices\<close>

definition call_priced :: "db \<Rightarrow> credit_model_call \<Rightarrow> bool" where
  "call_priced db c \<longleftrightarrow> (call_state c = CallSettled \<longrightarrow> settle_basis c = Some ProviderUsage \<longrightarrow>
     (\<exists>r m t. find_reservation db (call_reservation c) = Some r \<and> modelRow (res_card r) (call_model c) db = Inr (Some m) \<and>
        call_tokens c = Some t \<and> actual_micro c = Some (raw_charge t m)))"

definition cards_at_list :: "db \<Rightarrow> bool" where
  "cards_at_list db \<longleftrightarrow> card_rows_linked db \<and>
     distinct (map (\<lambda>m. (rcm_version m, rcm_model m)) (credit_rate_card_models db)) \<and>
     (\<forall>m\<in>set (credit_rate_card_models db). \<forall>c\<in>set (credit_rate_cards db).
        card_version c = rcm_version m \<longrightarrow> at_markup (markup_bp c) m)"

definition audit_inv :: "db \<Rightarrow> bool" where
  "audit_inv db \<longleftrightarrow> sys_inv db \<and> claims_backed db \<and> cards_at_list db \<and> (\<forall>c\<in>set (credit_model_calls db). call_priced db c)"

lemma modelRow_Some: "modelRow v name db = Inr (Some m) \<Longrightarrow>
    m \<in> set (credit_rate_card_models db) \<and> rcm_version m = v \<and> rcm_model m = name"
  by (auto simp: modelRow_def toModelRecord_def result_simps find_Some_iff split: option.splits)

lemma priced_at_list:
  assumes "at_markup bp m" "markup_bp crd = bp" "tokens_or_0 c = t" "actual_or_0 c = raw_charge t m"
  shows "\<not> shadow_call_off_list crd m c"
proof -
  have "of_int (raw_charge t m) = list_charge crd m t" if "cacheRead t = 0" "cacheWrite5m t = 0" "cacheWrite1h t = 0"
  proof -
    have "10000 * raw_charge t m = (uncachedInput t * listInputMicrocentsPerToken m + outputTokens t * listOutputMicrocentsPerToken m) * bp"
    proof -
      have "10000 * raw_charge t m = uncachedInput t * (10000 * inputMicroPerToken m) + outputTokens t * (10000 * outputMicroPerToken m)"
        using that by (simp add: raw_charge_def)
      also have "\<dots> = uncachedInput t * (listInputMicrocentsPerToken m * bp) + outputTokens t * (listOutputMicrocentsPerToken m * bp)"
        using assms(1) by (simp only: at_markup_def)
      finally show ?thesis by (simp add: algebra_simps)
    qed
    then have "(of_int (10000 * raw_charge t m) :: rat) =
        of_int ((uncachedInput t * listInputMicrocentsPerToken m + outputTokens t * listOutputMicrocentsPerToken m) * bp)"
      by simp
    then show ?thesis using assms(2) by (simp add: list_charge_def BASIS_POINTS_def field_simps)
  qed
  then show ?thesis using assms(3,4) unfolding shadow_call_off_list_def Let_def by fastforce
qed

lemma shadow_count:
  assumes "cards_at_list db" "\<forall>c\<in>set (credit_model_calls db). call_priced db c" "task_rows_ok db"
  shows "shadowChargeVsListPrice db = Inr 0"
proof -
  have "\<not> shadow_call_off_list crd m c" if row: "(crd, m, c) \<in> set (shadow_rows db)" for crd m c
  proof -
    from row obtain r where r: "c \<in> set (credit_model_calls db)" "r \<in> set (credit_reservations db)" "crd \<in> set (credit_rate_cards db)"
      "m \<in> set (credit_rate_card_models db)" "res_id r = call_reservation c" "card_version crd = res_card r"
      "rcm_version m = res_card r" "rcm_model m = call_model c" "call_state c = CallSettled" "settle_basis c = Some ProviderUsage"
      by (auto simp: shadow_rows_def split: if_splits)
    have "find_reservation db (call_reservation c) = Some r" using find_reservation_member [OF assms(3) r(2)] r(5) by simp
    with assms(2) r(1,9,10) obtain m' t where m': "modelRow (res_card r) (call_model c) db = Inr (Some m')"
      "call_tokens c = Some t" "actual_micro c = Some (raw_charge t m')" by (auto simp: call_priced_def)
    have "distinct (map (\<lambda>m. (rcm_version m, rcm_model m)) (credit_rate_card_models db))" using assms(1) by (simp add: cards_at_list_def)
    then have "m' = m" using modelRow_Some [OF m'(1)] r(4,7,8) by (simp add: distinct_map inj_on_def)
    moreover have "at_markup (markup_bp crd) m" using assms(1) r(3,4,6,7) by (simp add: cards_at_list_def)
    ultimately show ?thesis using m'(2,3) by (intro priced_at_list) (simp_all add: tokens_or_0_def actual_or_0_def)
  qed
  then show ?thesis
    unfolding shadowChargeVsListPrice_def by (intro row_count_0(2)) (auto simp: filter_empty_conv)
qed

lemma round_whole: "10000 * x = y \<Longrightarrow> round_numeric (of_int y / of_int BASIS_POINTS) = x"
proof -
  assume "10000 * x = y"
  then have "(of_int y / of_int BASIS_POINTS :: rat) = of_int x" by (auto simp: BASIS_POINTS_def)
  moreover have "\<lfloor>(of_int x + 1 / 2 :: rat)\<rfloor> = x" "\<lfloor>(- of_int x + 1 / 2 :: rat)\<rfloor> = - x" by linarith+
  ultimately show ?thesis by (simp add: round_numeric_def)
qed

lemma card_count:
  assumes "cards_at_list db"
  shows "rateCardRateVsListPrice db = Inr 0"
proof -
  have "\<not> off_list (markup_bp c) m"
    if "m \<in> set (credit_rate_card_models db)" "c \<in> set (credit_rate_cards db)" "card_version c = rcm_version m" for m c
    using assms that unfolding cards_at_list_def at_markup_def off_list_def
    by (metis round_whole)
  then have "[m. m \<leftarrow> credit_rate_card_models db, c \<leftarrow> credit_rate_cards db,
       card_version c = rcm_version m \<and> off_list (markup_bp c) m] = []"
    by (auto simp: concat_eq_Nil_conv)
  then show ?thesis unfolding rateCardRateVsListPrice_def by (rule row_count_0(2))
qed

subsection \<open>Every step keeps it\<close>

text \<open>An update of tasks that keeps what the audit reads of them.\<close>

definition stays :: "(credit_reservation \<Rightarrow> credit_reservation) \<Rightarrow> bool" where
  "stays f \<longleftrightarrow> (\<forall>r. res_id (f r) = res_id r \<and> res_card (f r) = res_card r \<and> (\<forall>a. open_enforce a (f r) = open_enforce a r))"

lemma stays_found:
  "stays f \<Longrightarrow> lookup_by res_id i rs = Some r \<Longrightarrow>
     \<exists>q. lookup_by res_id i (update_where P f rs) = Some q \<and> res_card q = res_card r"
  by (induction rs) (auto simp: stays_def split: if_splits)

lemma stays_open: "stays f \<Longrightarrow> list_ex (open_enforce a) (update_where P f rs) = list_ex (open_enforce a) rs"
  by (induction rs) (auto simp: stays_def)

text \<open>A step that leaves the cards alone, keeps the card of every task, and settles calls only at their price.\<close>

lemma calls_stay_priced:
  assumes "\<And>v name m. modelRow v name db = Inr (Some m) \<Longrightarrow> modelRow v name e = Inr (Some m)"
    and "\<And>i r. find_reservation db i = Some r \<Longrightarrow> \<exists>q. find_reservation e i = Some q \<and> res_card q = res_card r"
    and "\<And>c. c \<in> set (credit_model_calls e) \<Longrightarrow> call_priced db c"
  shows "\<forall>c\<in>set (credit_model_calls e). call_priced e c"
proof
  fix c assume "c \<in> set (credit_model_calls e)"
  from assms(3) [OF this] show "call_priced e c"
    unfolding call_priced_def using assms(1,2) by metis
qed

lemma modelRow_cong: "credit_rate_card_models e = credit_rate_card_models db \<Longrightarrow> modelRow v m e = modelRow v m db"
  by (simp add: modelRow_def)

lemma claims_stay_backed:
  assumes "claims_backed db" "credit_clawbacks e = credit_clawbacks db"
    and "\<And>a. list_ex (open_enforce a) (credit_reservations db) \<Longrightarrow> list_ex (open_enforce a) (credit_reservations e)"
  shows "claims_backed e"
  using assms by (simp add: claims_backed_def)

lemma audit_invD:
  assumes "audit_inv db"
  shows "sys_inv db" "claims_backed db" "cards_at_list db" "\<And>c. c \<in> set (credit_model_calls db) \<Longrightarrow> call_priced db c"
  using assms by (simp_all add: audit_inv_def)

lemma audit_inv_intro:
  assumes inv: "audit_inv db" and sys: "sys_inv e"
    and cards: "credit_rate_cards e = credit_rate_cards db" "credit_rate_card_models e = credit_rate_card_models db"
    and claims: "credit_clawbacks e = credit_clawbacks db"
    and found: "\<And>i r. find_reservation db i = Some r \<Longrightarrow> \<exists>q. find_reservation e i = Some q \<and> res_card q = res_card r"
    and opn: "\<And>a. list_ex (open_enforce a) (credit_reservations db) \<Longrightarrow> list_ex (open_enforce a) (credit_reservations e)"
    and calls: "\<And>c. c \<in> set (credit_model_calls e) \<Longrightarrow> call_priced db c"
  shows "audit_inv e"
proof -
  note a = audit_invD [OF inv]
  have "cards_at_list e" using a(3) by (simp add: cards_at_list_def card_rows_linked_def cards)
  moreover have "\<forall>c\<in>set (credit_model_calls e). call_priced e c"
    by (rule calls_stay_priced [OF _ found calls]) (simp_all add: modelRow_cong [OF cards(2)])
  ultimately show ?thesis using sys claims_stay_backed [OF a(2) claims opn] by (simp add: audit_inv_def)
qed

lemma audit_inv_update:
  assumes inv: "audit_inv db" and sys: "sys_inv e" and f: "stays f"
    and e: "credit_reservations e = update_where P f (credit_reservations db)" "credit_rate_cards e = credit_rate_cards db"
      "credit_rate_card_models e = credit_rate_card_models db" "credit_clawbacks e = credit_clawbacks db"
    and calls: "\<And>c. c \<in> set (credit_model_calls e) \<Longrightarrow> call_priced db c"
  shows "audit_inv e"
proof (rule audit_inv_intro [OF inv sys e(2-4) _ _ calls])
  show "find_reservation db i = Some r \<Longrightarrow> \<exists>q. find_reservation e i = Some q \<and> res_card q = res_card r" for i r
    unfolding find_reservation_def e(1) by (rule stays_found [OF f])
  show "list_ex (open_enforce a) (credit_reservations db) \<Longrightarrow> list_ex (open_enforce a) (credit_reservations e)" for a
    unfolding e(1) stays_open [OF f] .
qed

lemma not_settled_priced: "call_state c = Started \<Longrightarrow> call_priced db c"
  by (simp add: call_priced_def)

lemma admit_audited:
  assumes inv: "audit_inv db" and "find_reservation db rid = Some r" "call_input_ok db r b cid" "committed r \<le> MAX_SAFE"
    "admitCall rid purpose model b cid db = Inr (out, e)"
  shows "audit_inv e"
proof (cases "may_commit rid model (cb_boundMicro b) (db_now db) r")
  case True
  have e: "e = admitted_db db r purpose b cid" using True admit_ran [OF audit_invD(1) [OF inv] assms(2-5)] by simp
  have "sys_inv e" unfolding e by (rule admitted_sys_inv [OF audit_invD(1) [OF inv] assms(2) True assms(3)])
  moreover have "stays (commit_row (cb_boundMicro b) (db_now db))" by (simp add: stays_def commit_row_def open_enforce_def)
  moreover have "credit_reservations e = update_where (\<lambda>q. res_id q = res_id r) (commit_row (cb_boundMicro b) (db_now db)) (credit_reservations db)"
    by (simp add: e admitted_db_def put_task_def)
  ultimately show ?thesis
    by (rule audit_inv_update [OF inv])
      (use audit_invD(4) [OF inv] in \<open>auto simp: e admitted_db_def put_calls_def new_call_def intro: not_settled_priced\<close>)
next
  case False
  with admit_ran [OF audit_invD(1) [OF inv] assms(2-5)] have "e = db" by simp
  with inv show ?thesis by simp
qed

lemma sent_audited:
  assumes inv: "audit_inv db" and run: "markSent cid db = Inr (out, e)"
  shows "audit_inv e"
proof -
  from run have e: "e = db\<lparr>credit_model_calls := update_where (started_call cid) mark_sent_row (credit_model_calls db)\<rparr>"
    by (auto simp: markSent_def markCallSent_def update_calls_def Let_def result_simps dest!: transaction_Inr split: if_splits)
  have "sys_inv e" using sent_stepped [OF audit_invD(1) [OF inv] run] by (simp add: stepped_def)
  moreover have "stays id" by (simp add: stays_def)
  moreover have "credit_reservations e = update_where (\<lambda>_. False) id (credit_reservations db)"
    by (simp add: e update_where_idle)
  ultimately show ?thesis
    by (rule audit_inv_update [OF inv])
      (use audit_invD(4) [OF inv] in \<open>auto simp: e set_update_where started_call_def mark_sent_row_def intro: not_settled_priced\<close>)
qed

lemma settle_call_audited:
  assumes inv: "audit_inv db" and run: "settleCall cid asked usage record db = Inr (out, e)"
  shows "audit_inv e"
  using audit_invD(1) [OF inv] run
proof (cases rule: settle_call_cases)
  case (2 c r rates s)
  let ?b = "basisTheRowAgreesWith asked (sent c)" and ?d = "st_chargedMicro s - bound_micro c"
  have "stays (move_committed ?d)" by (simp add: stays_def move_committed_def open_enforce_def)
  moreover have "credit_reservations e = update_where (\<lambda>q. res_id q = call_reservation c) (move_committed ?d) (credit_reservations db)"
    by (simp add: 2(6) settled_call_db_def put_task_def)
  moreover have "call_priced db (settle_call_row ?b s record (db_now db) c)"
  proof -
    have "\<exists>t. st_tokens s = Some t \<and> st_actualMicro s = Some (raw_charge t rates)" if "?b = ProviderUsage"
      using 2(5) that by (auto simp: callSettlement_def result_simps cap_def requireUsage_def split: option.splits)
    with 2(2,4) show ?thesis by (auto simp: call_priced_def settle_call_row_def)
  qed
  moreover have "q = c" if "q \<in> set (credit_model_calls db)" "call_id q = call_id c" for q
  proof -
    have "distinct (map call_id (credit_model_calls db))" using sys_invD(3) [OF audit_invD(1) [OF inv]] by (simp add: task_rows_ok_def)
    with find_call_Some [OF 2(1)] that show ?thesis by (simp add: distinct_map inj_on_def)
  qed
  ultimately show ?thesis
    using audit_invD(4) [OF inv] 2(7)
    by (intro audit_inv_update [OF inv 2(7)]) (auto simp: 2(6) settled_call_db_def put_calls_def set_update_where)
qed (use inv in simp)

lemma settled_audited:
  assumes inv: "audit_inv db" and r: "find_reservation db rid = Some r"
    and e: "sys_inv e" "settles_only a rid db e" "find_reservation e rid = Some (final_row db rid why r)"
      "calls_of e rid = calls_of (crashed_db rid db) rid" "claims_backed e"
  shows "audit_inv e"
proof -
  have cards: "credit_rate_cards e = credit_rate_cards db" "credit_rate_card_models e = credit_rate_card_models db"
    using e(2) by (simp_all add: settles_only_def)
  have "call_priced db c" if c: "c \<in> set (credit_model_calls e)" for c
  proof (cases "call_reservation c = rid")
    case True
    with c have "c \<in> set (calls_of e rid)" by (simp add: calls_of_def)
    then have "c \<in> set (credit_model_calls (crashed_db rid db))" unfolding e(4) by (simp add: calls_of_def)
    then consider "c \<in> set (credit_model_calls db)" | b where "c = crash_settle_row (db_now db) b"
      by (auto simp: crashed_db_def set_update_where)
    then show ?thesis
      by cases (use audit_invD(4) [OF inv] in \<open>auto simp: call_priced_def crash_settle_row_def crash_basis_def\<close>)
  next
    case False
    then have "calls_of e (call_reservation c) = calls_of db (call_reservation c)" using e(2) by (simp add: settles_only_def)
    moreover have "c \<in> set (calls_of e (call_reservation c))" using c by (simp add: calls_of_def)
    ultimately have "c \<in> set (calls_of db (call_reservation c))" by simp
    then show ?thesis using audit_invD(4) [OF inv] by (simp add: calls_of_def)
  qed
  moreover have "\<exists>q. find_reservation e i = Some q \<and> res_card q = res_card p" if "find_reservation db i = Some p" for i p
    using that e(2,3) r by (cases "i = rid") (auto simp: settles_only_def final_row_def settled_row_def set_committed_def)
  ultimately have "\<forall>c\<in>set (credit_model_calls e). call_priced e c"
    by (intro calls_stay_priced) (simp_all add: modelRow_cong [OF cards(2)])
  moreover have "cards_at_list e" using audit_invD(3) [OF inv] by (simp add: cards_at_list_def card_rows_linked_def cards)
  ultimately show ?thesis using e(1,5) by (simp add: audit_inv_def)
qed

lemma settle_audited:
  assumes inv: "audit_inv db" and room: "settle_room db rid" and new_id: "\<And>d. uuid_ok (new_id d)"
    and run: "settleIn new_id rid why db = Inr (res, e)"
  shows "audit_inv e"
proof (cases "find_reservation db rid")
  case None
  with run have "e = db" by (simp add: settleIn_def accountOf_def)
  with inv show ?thesis by simp
next
  case (Some r)
  note sys = audit_invD(1) [OF inv]
  from room Some have debt: "account_debt db (res_account r) \<le> MAX_SAFE"
    and sized: "if res_mode r = Enforce then settle_headroom db (res_account r) else committed r \<le> MAX_SAFE"
    by (simp_all add: settle_room_def)
  show ?thesis
  proof (cases "res_state r")
    case Settled
    obtain acct where lock: "lockAccount (res_account r) db = Inr (acct, db)"
      using lock_account_sound [OF sys task_account_found [OF sys Some] debt] by blast
    from run Some lock Settled have "e = db"
      by (auto simp: settleIn_def accountOf_def lockReservation_def result_simps)
    with inv show ?thesis by simp
  next
    case Open
    show ?thesis
    proof (cases "res_mode r")
      case Enforce
      with sized have head: "settle_headroom db (res_account r)" by simp
      from settle_effect [where new_id = new_id and why = why, OF sys Some Open Enforce head new_id]
      obtain res' e' where eff: "settleIn new_id rid why db = Inr (res', e')" "sys_inv e'"
        "find_reservation e' rid = Some (final_row db rid why r)" "settles_only (res_account r) rid db e'"
        "calls_of e' rid = calls_of (crashed_db rid db) rid" by metis
      with run have "e' = e" by simp
      from settled_audited [OF inv Some eff(2,4,3,5), unfolded this]
        settle_claims_backed [where new_id = new_id, OF sys Some Open Enforce head new_id run audit_invD(2) [OF inv]]
      show ?thesis by blast
    next
      case Shadow
      with sized have small: "committed r \<le> MAX_SAFE" by simp
      from run shadow_settle_effect(1) [OF sys Some Open Shadow debt small, of new_id why] have e: "e = ended_db rid why db" by simp
      have "claims_backed e"
      proof (rule claims_stay_backed [OF audit_invD(2) [OF inv]])
        show "credit_clawbacks e = credit_clawbacks db" by (simp add: e ended_db_def)
        fix b assume "list_ex (open_enforce b) (credit_reservations db)"
        then obtain q where q: "q \<in> set (credit_reservations db)" "open_enforce b q" by (auto simp: list_ex_iff)
        have "res_id q \<noteq> rid"
          using q(2) Shadow find_reservation_member [OF sys_invD(3) [OF sys] q(1)] Some by (auto simp: open_enforce_def)
        with open_after_settlement [OF ended_settles_only sys_invD(3) [OF sys] q(1)] q(2)
        show "list_ex (open_enforce b) (credit_reservations e)" by (auto simp: e list_ex_iff)
      qed
      then show ?thesis
        using settled_audited [OF inv Some ended_sound(1) [OF sys Some Open Shadow] ended_settles_only ended_found [OF Some] ended_calls]
        by (simp add: e)
    qed
  qed
qed

lemma sweep_audited:
  assumes inv: "audit_inv db" and room: "settle_room db rid" and new_id: "\<And>d. uuid_ok (new_id d)"
    and a: "accountOf rid db = Some a" and run: "settleOneLapsed new_id rid a db = Inr (out, e)"
  shows "audit_inv e"
proof -
  obtain r where r: "find_reservation db rid = Some r" "a = res_account r" using a by (auto simp: accountOf_def)
  have same: "insert_account a db = db" using task_account_found [OF audit_invD(1) [OF inv] r(1)] r(2) by (simp add: insert_account_found)
  have "settleLapsedIn new_id rid a db = Inr (out, e)"
    using run unfolding settleOneLapsed_def by (rule transaction_Inr)
  then consider "e = db" | why res where "settleIn new_id rid why db = Inr (res, e)"
    by (auto simp: settleLapsedIn_def lockAccount_Inr same result_simps split: option.splits)
  then show ?thesis by cases (use inv settle_audited [OF inv room new_id] in auto)
qed

lemma leases_audited:
  assumes inv: "audit_inv db" and run: "update_reservations P (set_lease t) db = Inr (rows, e)"
  shows "audit_inv e"
proof -
  from run have e: "e = db\<lparr>credit_reservations := update_where P (set_lease t) (credit_reservations db)\<rparr>"
    by (auto simp: update_reservations_def Let_def split: if_splits)
  have "sys_inv e" using leases_stepped [OF audit_invD(1) [OF inv] run] by (simp add: stepped_def)
  moreover have "stays (set_lease t)" by (simp add: stays_def set_lease_def open_enforce_def)
  moreover have "credit_reservations e = update_where P (set_lease t) (credit_reservations db)" by (simp add: e)
  ultimately show ?thesis
    by (rule audit_inv_update [OF inv]) (use audit_invD(4) [OF inv] in \<open>simp_all add: e\<close>)
qed

text \<open>A state that differs only in tables the audit's invariant reads through \<open>sys_inv\<close>.\<close>

lemma audit_same:
  assumes "audit_inv db" "sys_inv e" "claims_backed e" "credit_reservations e = credit_reservations db"
    "credit_model_calls e = credit_model_calls db" "credit_rate_cards e = credit_rate_cards db"
    "credit_rate_card_models e = credit_rate_card_models db"
  shows "audit_inv e"
proof -
  have "\<forall>c\<in>set (credit_model_calls e). call_priced e c"
    by (rule calls_stay_priced [where db = db])
      (use audit_invD(4) [OF assms(1)] in \<open>simp_all add: modelRow_cong [OF assms(7)] find_reservation_def assms(4,5)\<close>)
  moreover have "cards_at_list e" using audit_invD(3) [OF assms(1)] by (simp add: cards_at_list_def card_rows_linked_def assms(6,7))
  ultimately show ?thesis using assms(2,3) by (simp add: audit_inv_def)
qed

lemma refreshed_audited:
  assumes inv: "audit_inv db" and refresh: "refresh_sound refresh"
  shows "audit_inv (refreshed refresh a db)"
proof -
  let ?d = "insert_account a db"
  have "claims_backed ?d" using audit_invD(2) [OF inv] by (simp add: claims_backed_def insert_account_def)
  then have d: "audit_inv ?d"
    by (rule audit_same [OF inv insert_account_untouched(1) [OF audit_invD(1) [OF inv]]]) (simp_all add: insert_account_def)
  show ?thesis
  proof (cases refresh)
    case None
    with d show ?thesis by (simp add: refreshed_def refreshUnderSavepoint_def)
  next
    case (Some f)
    show ?thesis
    proof (cases "f a ?d")
      case (Inr p)
      then have run: "f a ?d = Inr ((), snd p)" "refreshed refresh a db = snd p"
        using Some by (cases p, simp add: refreshed_def refreshUnderSavepoint_def)+
      have "sys_inv (snd p)" "claims_backed (snd p)" "credit_reservations (snd p) = credit_reservations ?d"
        "credit_model_calls (snd p) = credit_model_calls ?d" "credit_rate_cards (snd p) = credit_rate_cards ?d"
        "credit_rate_card_models (snd p) = credit_rate_card_models ?d"
        using refresh Some audit_invD(1,2) [OF d] run(1) unfolding refresh_sound_def by blast+
      then show ?thesis unfolding run(2) by (rule audit_same [OF d])
    qed (use Some d in \<open>simp add: refreshed_def refreshUnderSavepoint_def\<close>)
  qed
qed

lemma start_audited:
  assumes inv: "audit_inv d" and sys: "sys_inv e"
    and e: "credit_reservations e = credit_reservations d @ [r]" "credit_model_calls e = credit_model_calls d"
      "credit_clawbacks e = credit_clawbacks d" "credit_rate_cards e = credit_rate_cards d"
      "credit_rate_card_models e = credit_rate_card_models d"
  shows "audit_inv e"
  by (rule audit_inv_intro [OF inv sys e(4,5,3)])
    (use audit_invD(4) [OF inv] in \<open>simp_all add: e find_reservation_def lookup_by_append\<close>)

lemma reserve_audited:
  assumes inv: "audit_inv db" and refresh: "refresh_sound refresh" and ready: "start_ready refresh input db"
    and run: "reserve refresh input db = Inr (out, e)"
  shows "audit_inv e"
proof -
  let ?d = "refreshed refresh (ri_account input) db"
  note d = refreshed_audited [OF inv refresh, of "ri_account input"]
  have sys: "sys_inv e" using reserve_stepped [OF audit_invD(1) [OF inv] refresh ready run] by (simp add: stepped_def)
  from ready have new: "start_input_ok ?d input" "account_debt ?d (ri_account input) \<le> MAX_SAFE" by (simp_all add: start_ready_def)
  then have acct: "find_account ?d (ri_account input) \<noteq> None" by (simp add: start_input_ok_def)
  show ?thesis
  proof (cases "ri_mode input")
    case Enforce
    with run have "reserveEnforce refresh input db = Inr (out, e)" by (auto simp: reserve_def dest: transaction_Inr)
    with audit_invD(1) [OF d] refl new show ?thesis
    proof (cases rule: reserve_enforced_cases)
      case 1
      with d show ?thesis by simp
    next
      case (2 p s)
      let ?ps = "draw (min (pm_maxReserve p) (free_credit ?d (ri_account input))) (spend_purses ?d (ri_account input))"
      note frame = placed_frame [of "ri_reservation input" "ri_account input" ?ps "start_db (started_row input p ?d s) ?d"]
      show ?thesis
        by (rule start_audited [OF d sys, where r = "started_row input p ?d s"])
          (use frame in \<open>simp_all add: 2(1) started_db_def start_db_def\<close>)
    qed
  next
    case Shadow
    from reserve_shadow_Inr [OF run Shadow acct] consider "e = db" | "e = ?d" | r where "e = start_db r ?d" by blast
    then show ?thesis
    proof cases
      case (3 r)
      show ?thesis by (rule start_audited [OF d sys, where r = r]) (simp_all add: 3 start_db_def)
    qed (use inv d in simp_all)
  qed
qed

subsection \<open>Rate cards\<close>

lemma published_at_list:
  assumes cards: "cards_at_list db" and rows: "deriveRateCardRows draft s = DraftOk bp rows"
  shows "cards_at_list (published_db bp effective rows db)"
proof -
  let ?v = "next_card_version db" and ?e = "published_db bp effective rows db"
  note d = deriveRateCardRows_ok [OF rows]
  have linked: "card_rows_linked db" using cards by (simp add: cards_at_list_def)
  have "card_rows_linked ?e"
    using linked by (auto simp: card_rows_linked_def published_db_def published_card_def)
  moreover have "distinct (map (\<lambda>m. (rcm_version m, rcm_model m)) (credit_rate_card_models ?e))"
  proof -
    have models: "credit_rate_card_models ?e = credit_rate_card_models db @ map (model_row_of ?v) rows" by (simp add: published_db_def)
    have keys: "map (\<lambda>m. (rcm_version m, rcm_model m)) (map (model_row_of ?v) rows) = map (Pair ?v) (map fst rows)" by auto
    have "distinct (map (Pair ?v) (map fst rows))" using d(5) by (simp add: distinct_map inj_on_def)
    moreover have "set (map (\<lambda>m. (rcm_version m, rcm_model m)) (credit_rate_card_models db)) \<inter> set (map (Pair ?v) (map fst rows)) = {}"
      using linked_old [OF linked] by auto
    ultimately show ?thesis
      unfolding models map_append distinct_append keys using cards by (simp add: cards_at_list_def)
  qed
  moreover have "at_markup (markup_bp c) m"
    if m: "m \<in> set (credit_rate_card_models ?e)" and c: "c \<in> set (credit_rate_cards ?e)" and v: "card_version c = rcm_version m" for m c
  proof -
    from m consider "m \<in> set (credit_rate_card_models db)" | name row where "(name, row) \<in> set rows" "m = model_row_of ?v (name, row)"
      by (auto simp: published_db_def)
    then show ?thesis
    proof cases
      case 1
      then have "c \<in> set (credit_rate_cards db)" using c v linked_old [OF linked 1] by (auto simp: published_db_def published_card_def)
      with 1 v cards show ?thesis by (simp add: cards_at_list_def)
    next
      case 2
      then have "c = published_card bp effective db" using c v next_version_fresh [of c db] by (auto simp: published_db_def)
      with 2 d(6) [OF 2(1)] show ?thesis by (simp add: published_card_def priced_row_def)
    qed
  qed
  ultimately show ?thesis by (simp add: cards_at_list_def)
qed

lemma publish_audited:
  assumes inv: "audit_inv db" and run: "publishRateCard s clock bp effective db = Inr (v, e)"
  shows "audit_inv e"
proof -
  from run obtain draft rows where rows: "deriveRateCardRows draft s = DraftOk bp rows" "e = published_db bp effective rows db"
    by (rule publishRateCard_Inr)
  have "sys_inv e" using cards_stepped [OF audit_invD(1) [OF inv]] by (simp add: rows(2) published_db_def stepped_def)
  moreover have "claims_backed e" using audit_invD(2) [OF inv] by (simp add: rows(2) published_db_def claims_backed_def)
  moreover have "cards_at_list e" unfolding rows(2) by (rule published_at_list [OF audit_invD(3) [OF inv] rows(1)])
  moreover have "\<forall>c\<in>set (credit_model_calls e). call_priced e c"
  proof (rule calls_stay_priced [where db = db])
    show "modelRow w name e = Inr (Some m)" if "modelRow w name db = Inr (Some m)" for w name m
      using that by (auto simp: modelRow_def rows(2) published_db_def find_append_if split: option.splits)
  qed (use audit_invD(4) [OF inv] in \<open>simp_all add: rows(2) published_db_def find_reservation_def\<close>)
  ultimately show ?thesis by (simp add: audit_inv_def)
qed

lemma withdraw_audited:
  assumes inv: "audit_inv db" and run: "withdrawRateCard clock n db = Inr (v, e)"
  shows "audit_inv e"
proof -
  note e = withdrawRateCard_Inr [OF run]
  let ?f = "\<lambda>x. x\<lparr>withdrawn_at := Some (db_now db)\<rparr>"
  have "sys_inv e" using cards_stepped [OF audit_invD(1) [OF inv], where ms = "credit_rate_card_models db"] by (simp add: e stepped_def)
  moreover have "claims_backed e" using audit_invD(2) [OF inv] by (simp add: e claims_backed_def)
  moreover have "cards_at_list e"
  proof -
    let ?g = "\<lambda>x. if card_version x = n then ?f x else x"
    have cards: "credit_rate_cards e = map ?g (credit_rate_cards db)" by (simp add: e update_where_def)
    have models: "credit_rate_card_models e = credit_rate_card_models db" by (simp add: e)
    have kept: "card_version (?g x) = card_version x" "markup_bp (?g x) = markup_bp x" for x by simp_all
    show ?thesis
      using audit_invD(3) [OF inv] unfolding cards_at_list_def card_rows_linked_def cards models set_map
      by (simp only: ball_simps bex_simps kept) blast
  qed
  moreover have "\<forall>c\<in>set (credit_model_calls e). call_priced e c"
    by (rule calls_stay_priced [where db = db])
      (use audit_invD(4) [OF inv] in \<open>simp_all add: e modelRow_def find_reservation_def\<close>)
  ultimately show ?thesis by (simp add: audit_inv_def)
qed

subsection \<open>After any run\<close>

lemma credit_step_audited:
  assumes "audit_inv db" "credit_step db e"
  shows "audit_inv e"
  using assms(2)
proof (cases rule: credit_step.cases)
  case (reserves refresh input out)
  with reserve_audited [OF assms(1)] show ?thesis by blast
next
  case (admits rid r b cid purpose model admitted)
  with admit_audited [OF assms(1)] show ?thesis by blast
next
  case (sends cid marked)
  with sent_audited [OF assms(1)] show ?thesis by blast
next
  case (settles_call cid asked usage usage_id settled)
  with settle_call_audited [OF assms(1)] show ?thesis by blast
next
  case (settles rid new_id why res)
  then have "settleIn new_id rid why db = Inr (res, e)" by (auto simp: settle_def dest: transaction_Inr)
  with settles settle_audited [OF assms(1)] show ?thesis by blast
next
  case (sweeps rid new_id a swept)
  with sweep_audited [OF assms(1)] show ?thesis by blast
next
  case (renews k renewed)
  then have "e = db \<or> (\<exists>P t rows. update_reservations P (set_lease t) db = Inr (rows, e))"
    by (auto simp: heartbeat_def renewLeases_def result_simps split: if_splits)
  with assms(1) leases_audited show ?thesis by blast
next
  case (gives_up k released)
  then have "\<exists>P t rows. update_reservations P (set_lease t) db = Inr (rows, e)"
    by (auto simp: releaseOwnLeases_def expireLeasesOfOwner_def result_simps)
  with assms(1) leases_audited show ?thesis by blast
next
  case (publishes clock bp effective published)
  from publish_audited [OF assms(1) this] show ?thesis .
next
  case (withdraws clock v withdrawn)
  from withdraw_audited [OF assms(1) this] show ?thesis .
next
  case (waits t)
  have "sys_inv e" using clock_stepped [OF audit_invD(1) [OF assms(1)], of t] by (simp add: waits stepped_def)
  moreover have "claims_backed e" using audit_invD(2) [OF assms(1)] by (simp add: waits claims_backed_def)
  ultimately show ?thesis by (rule audit_same [OF assms(1)]) (simp_all add: waits)
qed

lemma run_audited: "credit_step\<^sup>*\<^sup>* db e \<Longrightarrow> audit_inv db \<Longrightarrow> audit_inv e"
  by (induction rule: rtranclp_induct) (auto intro: credit_step_audited)

text \<open>Counts that JavaScript can hold: the tables the other two queries count are not that long.\<close>

definition countable_rows :: "billing_tables \<Rightarrow> db \<Rightarrow> bool" where
  "countable_rows bill db \<longleftrightarrow>
     int (length (credit_reservations db)) \<le> MAX_SAFE \<and> int (length (subscriptions bill)) \<le> MAX_SAFE"

lemma row_count_filter:
  assumes "int (length rows) \<le> MAX_SAFE"
  shows "row_count (filter P rows) = Inr (int (length (filter P rows)))"
proof -
  have "int (length (filter P rows)) \<le> MAX_SAFE" using assms length_filter_le [of P rows] by linarith
  then show ?thesis by (simp add: row_count_def exact_def safe_int_def)
qed

lemma audit_report:
  assumes inv: "audit_inv db" and small: "countable_rows bill db"
  obtains report m n where "auditCreditInvariants bill db = Inr report" "reservationOpenPastMaxUntil db = Inr m"
    "activeSubscriptionWithoutPaidInvoice bill db = Inr n"
    "report_breaches report = filter (\<lambda>(_, k). k \<noteq> 0)
       [(ReservationOpenPastMaxUntil, m), (ActiveSubscriptionWithoutPaidInvoice, n)]"
proof -
  note a = audit_invD [OF inv]
  have len: "int (length (credit_reservations db)) \<le> MAX_SAFE" "int (length (subscriptions bill)) \<le> MAX_SAFE"
    using small by (simp_all add: countable_rows_def)
  obtain m where m: "reservationOpenPastMaxUntil db = Inr m"
    using row_count_filter [OF len(1)] by (simp add: reservationOpenPastMaxUntil_def)
  obtain n where n: "activeSubscriptionWithoutPaidInvoice bill db = Inr n"
    using row_count_filter [OF len(2)] by (simp add: activeSubscriptionWithoutPaidInvoice_def)
  have shadow: "shadowChargeVsListPrice db = Inr 0"
    by (rule shadow_count [OF a(3)]) (use a(4) sys_invD(3) [OF a(1)] in auto)
  note counts = sound_counts [OF a(1)] backed_count [OF a(1,2)] shadow card_count [OF a(3)] m n
  let ?counts = "[(LotBalanceVsLedger, 0), (AccountDebtVsLedger, 0), (LotHeldVsHolds, 0), (HoldOpenPastItsTask, 0),
    (ReservationOpenPastMaxUntil, m), (ClaimPendingWithNoOpenHold, 0), (ShadowChargeVsListPrice, 0),
    (RateCardRateVsListPrice, 0), (ActiveSubscriptionWithoutPaidInvoice, n)]"
  have "countAll bill db = Inr ?counts" by (simp add: countAll_def count_of_def CREDIT_INVARIANT_CHECKS_def counts)
  then have "auditCreditInvariants bill db = Inr \<lparr>report_counts = ?counts, report_breaches = breachesIn ?counts\<rparr>"
    by (simp add: auditCreditInvariants_def)
  moreover have "breachesIn ?counts = filter (\<lambda>(_, k). k \<noteq> 0) [(ReservationOpenPastMaxUntil, m), (ActiveSubscriptionWithoutPaidInvoice, n)]"
    by (simp add: breachesIn_def CREDIT_INVARIANT_CHECKS_def cong: if_cong)
  ultimately show thesis using that m n by simp
qed

text \<open>
  The example: the launch card is in force, and a shadow task with one call settled at that card's price and another
  sent ends. The audit then re-derives the settled call's price from the list.
\<close>

definition audited_db :: "instant \<Rightarrow> db" where
  "audited_db t = (example_task_db Shadow t)\<lparr>
     credit_rate_cards := credit_rate_cards launch_db, credit_rate_card_models := credit_rate_card_models launch_db\<rparr>"

lemma audited_db_found: "find_reservation (audited_db t) example_task = Some (example_reservation Shadow)"
  using example_task_found [of Shadow t] by (simp add: audited_db_def find_reservation_def)

lemma audited_db_inv: "audit_inv (audited_db t)"
proof -
  have "sys_inv (audited_db t)"
    using cards_stepped [OF example_task_sys] by (simp add: audited_db_def stepped_def)
  moreover have "claims_backed (audited_db t)" by (simp add: claims_backed_def audited_db_def example_task_db_def)
  moreover have "at_markup 20000 r" if "(m, r) \<in> set (shipped_rows 20000)" for m r
    using that unfolding launch_card by (auto simp: at_markup_def)
  then have "cards_at_list (audited_db t)"
    by (auto simp: cards_at_list_def card_rows_linked_def audited_db_def launch_card)
  moreover have "modelRow 1 ''claude-sonnet-5'' (audited_db t) =
      Inr (Some (model_row_of 1 (''claude-sonnet-5'', CREDIT_RATE_CARD_V1 claude_sonnet_5)))"
    by (simp add: modelRow_def toModelRecord_def audited_db_def launch_card exact_def safe_int_def MAX_SAFE_def
        model_row_of_def CreditRateCardModelRow.defs)
  then have "\<forall>c\<in>set (credit_model_calls (audited_db t)). call_priced (audited_db t) c"
    using audited_db_found [of t]
    by (simp add: call_priced_def audited_db_def example_task_db_def example_call_def example_reservation_def raw_charge_def
        model_row_of_def CreditRateCardModelRow.defs)
  ultimately show ?thesis by (simp add: audit_inv_def)
qed

lemma audited_run:
  obtains e where "credit_step\<^sup>*\<^sup>* (audited_db 100) e" "length (shadow_rows e) = 1"
    "countable_rows \<lparr>subscriptions = [], billing_invoice_payments = []\<rparr> e"
proof -
  let ?db = "audited_db 100" and ?bill = "\<lparr>subscriptions = [], billing_invoice_payments = []\<rparr>"
  let ?e = "ended_db example_task Completed ?db" and ?r = "example_reservation Shadow"
  have r: "res_state ?r = Open" "res_mode ?r = Shadow" by (simp_all add: example_reservation_def)
  have safe: "account_debt ?db (res_account ?r) \<le> MAX_SAFE" "committed ?r \<le> MAX_SAFE"
    by (simp_all add: account_debt_def find_account_def audited_db_def task_example_simps MAX_SAFE_def)
  note ran = shadow_settle_effect [OF audit_invD(1) [OF audited_db_inv] audited_db_found r safe, where why = Completed]
  have "settle_room ?db example_task" using r safe by (simp add: settle_room_def audited_db_found)
  moreover have "\<forall>d. uuid_ok (example_new_id d)" by (simp add: example_new_id_ok)
  moreover have "settle example_new_id example_task Completed ?db =
      Inr (EMPTY_SETTLEMENT\<lparr>sr_outcome := OutcomeSettled, sr_chargedMicro := task_charge ?db example_task\<rparr>, ?e)"
    by (simp add: settle_def transaction_def ran(1) [of example_new_id] ran(2))
  ultimately have "credit_step ?db ?e" by (rule credit_step.settles)
  then have run: "credit_step\<^sup>*\<^sup>* ?db ?e" by blast
  have "length (credit_reservations ?e) = 1" "length (shadow_rows ?e) = 1"
    by (simp_all add: shadow_rows_def ended_db_def crashed_db_def put_task_def settled_row_def set_committed_def audited_db_def
        example_task_db_def example_call_def example_reservation_def unfinished_def crash_settle_row_def shipped_rows_def at_rate_def
        model_row_of_def CreditRateCardModelRow.defs crash_basis_def)
  then have "countable_rows ?bill ?e" by (simp add: countable_rows_def MAX_SAFE_def)
  with run \<open>length (shadow_rows ?e) = 1\<close> show thesis by (rule that)
qed

text \<open>C11: the daily audit never finds the credit records in disagreement. After any run of the service from a state the
  audit's rules hold in, with the owner publishing and withdrawing rate cards along the way, the audit returns its report, and the
  report names at most the two rules no write can enforce: a task past its ceiling that the keeper has
  not reached, and a subscription the billing mirror shows active without a paid invoice. Balances,
  debts and holds add up, no hold outlives its task, no claim waits with no task open to answer it,
  every shadow call cost the card's markup times the list price, and every card prices its models so.\<close>
theorem runs_pass_the_audit:
  assumes "credit_step\<^sup>*\<^sup>* db e" and "audit_inv db" and "countable_rows bill e"
  shows "\<exists>report. auditCreditInvariants bill e = Inr report \<and>
    fst ` set (report_breaches report) \<subseteq> {ReservationOpenPastMaxUntil, ActiveSubscriptionWithoutPaidInvoice}"
proof -
  obtain report m n where "auditCreditInvariants bill e = Inr report"
    "report_breaches report = filter (\<lambda>(_, k). k \<noteq> 0)
       [(ReservationOpenPastMaxUntil, m), (ActiveSubscriptionWithoutPaidInvoice, n)]"
    by (rule audit_report [OF run_audited [OF assms(1,2)] assms(3)])
  then show ?thesis by auto
qed

theorem runs_pass_the_audit_witness:
  "\<exists>e report. credit_step\<^sup>*\<^sup>* (audited_db 100) e \<and> length (shadow_rows e) = 1 \<and>
     auditCreditInvariants \<lparr>subscriptions = [], billing_invoice_payments = []\<rparr> e = Inr report \<and>
     fst ` set (report_breaches report) \<subseteq> {ReservationOpenPastMaxUntil, ActiveSubscriptionWithoutPaidInvoice}"
proof -
  obtain e where e: "credit_step\<^sup>*\<^sup>* (audited_db 100) e" "length (shadow_rows e) = 1"
    "countable_rows \<lparr>subscriptions = [], billing_invoice_payments = []\<rparr> e"
    by (rule audited_run)
  from runs_pass_the_audit [OF e(1) audited_db_inv e(3)] e(1,2) show ?thesis by blast
qed

lemma countAll_Inr:
  assumes "countAll bill db = Inr counts"
  obtains k where "\<And>check. count_of bill db check = Inr (k check)"
    "counts = map (\<lambda>check. (check, k check)) CREDIT_INVARIANT_CHECKS"
proof -
  have walk: "all_results (map (\<lambda>check. rbind (f check) (\<lambda>n. Inr (check, n))) cs) = Inr ys \<Longrightarrow>
      (\<forall>c\<in>set cs. f c = Inr (projr (f c))) \<and> ys = map (\<lambda>c. (c, projr (f c))) cs"
    for f :: "CreditInvariantCheck \<Rightarrow> int result" and cs ys
    by (induction cs arbitrary: ys) (auto simp: result_simps split: sum.splits)
  have every: "check \<in> set CREDIT_INVARIANT_CHECKS" for check
    by (cases check) (simp_all add: CREDIT_INVARIANT_CHECKS_def)
  show thesis
    using walk [OF assms [unfolded countAll_def]] every by (intro that [of "\<lambda>c. projr (count_of bill db c)"]) auto
qed

lemma row_count_silent: "row_count (filter P rows) = Inr n \<Longrightarrow> n = 0 \<longleftrightarrow> (\<forall>r\<in>set rows. \<not> P r)"
  by (auto simp: row_count_def exact_def filter_empty_conv split: if_splits)

lemma breachesIn_counts:
  "breachesIn (map (\<lambda>check. (check, k check)) CREDIT_INVARIANT_CHECKS) =
     map (\<lambda>check. (check, k check)) (filter (\<lambda>check. k check \<noteq> 0) CREDIT_INVARIANT_CHECKS)"
  by (simp add: breachesIn_def CREDIT_INVARIANT_CHECKS_def)

text \<open>C38: the audit reports every disagreement of the credit records. Whatever state it is run on, the first three rules
  are all silent exactly when every lot holds the sum of the ledger rows that name it, every account
  owes the sum of its debt movements, and every lot's held credit is the sum of its unreleased holds;
  and the report lists a rule exactly when its count is not zero, in the published order.\<close>
theorem audit_reports_every_disagreement:
  assumes "countAll bill db = Inr counts"
  shows "({LotBalanceVsLedger, AccountDebtVsLedger, LotHeldVsHolds} \<inter> fst ` set (breachesIn counts) = {} \<longleftrightarrow>
      (\<forall>l\<in>set (credit_lots db). remaining l = lot_total db (lot_id l) \<and> held l = hold_total db (lot_id l)) \<and>
      (\<forall>c\<in>set (credit_accounts db). debt_micro c = debt_total db (acc_id c))) \<and>
    map fst (breachesIn counts) = filter (\<lambda>check. count_of bill db check \<noteq> Inr 0) CREDIT_INVARIANT_CHECKS"
proof -
  obtain k where k: "\<And>check. count_of bill db check = Inr (k check)"
    and counts: "counts = map (\<lambda>check. (check, k check)) CREDIT_INVARIANT_CHECKS"
    by (rule countAll_Inr [OF assms]) blast
  note silent = k [of LotBalanceVsLedger] k [of AccountDebtVsLedger] k [of LotHeldVsHolds]
  have lots: "k LotBalanceVsLedger = 0 \<longleftrightarrow> (\<forall>l\<in>set (credit_lots db). remaining l = lot_total db (lot_id l))"
    using row_count_silent [OF silent(1) [unfolded count_of_def lotBalanceVsLedger_def, simplified]]
    by (auto simp: lot_total_def)
  have accounts: "k AccountDebtVsLedger = 0 \<longleftrightarrow> (\<forall>c\<in>set (credit_accounts db). debt_micro c = debt_total db (acc_id c))"
    using row_count_silent [OF silent(2) [unfolded count_of_def accountDebtVsLedger_def, simplified]]
    by (auto simp: debt_total_def)
  have holds: "k LotHeldVsHolds = 0 \<longleftrightarrow> (\<forall>l\<in>set (credit_lots db). held l = hold_total db (lot_id l))"
    using row_count_silent [OF silent(3) [unfolded count_of_def lotHeldVsHolds_def, simplified]]
    by (auto simp: hold_total_def)
  have breaches: "breachesIn counts = map (\<lambda>check. (check, k check)) (filter (\<lambda>check. k check \<noteq> 0) CREDIT_INVARIANT_CHECKS)"
    unfolding counts by (rule breachesIn_counts)
  have "{LotBalanceVsLedger, AccountDebtVsLedger, LotHeldVsHolds} \<inter> fst ` set (breachesIn counts) = {} \<longleftrightarrow>
      k LotBalanceVsLedger = 0 \<and> k AccountDebtVsLedger = 0 \<and> k LotHeldVsHolds = 0"
    unfolding breaches by (auto simp: CREDIT_INVARIANT_CHECKS_def)
  moreover have "map fst (breachesIn counts) = filter (\<lambda>check. count_of bill db check \<noteq> Inr 0) CREDIT_INVARIANT_CHECKS"
    unfolding breaches by (simp add: k comp_def)
  ultimately show ?thesis unfolding lots accounts holds by blast
qed

text \<open>The audited example, after a lot was changed behind the ledger's back.\<close>

definition tampered_db :: "db" where
  "tampered_db = (audited_db 100)\<lparr>credit_lots := map (\<lambda>l. l\<lparr>remaining := remaining l + 1\<rparr>) (credit_lots (audited_db 100))\<rparr>"

theorem audit_reports_every_disagreement_witness:
  "\<exists>counts. countAll \<lparr>subscriptions = [], billing_invoice_payments = []\<rparr> tampered_db = Inr counts \<and>
     LotBalanceVsLedger \<in> fst ` set (breachesIn counts) \<and>
     LotHeldVsHolds \<notin> fst ` set (breachesIn counts)"
proof -
  let ?bill = "\<lparr>subscriptions = [], billing_invoice_payments = []\<rparr>"
  have lot: "count_of ?bill tampered_db LotBalanceVsLedger = Inr 1" by code_simp
  have held: "count_of ?bill tampered_db LotHeldVsHolds = Inr 0" by code_simp
  obtain counts where counts: "countAll ?bill tampered_db = Inr counts"
    by (cases "countAll ?bill tampered_db") code_simp
  have "map fst (breachesIn counts) = filter (\<lambda>check. count_of ?bill tampered_db check \<noteq> Inr 0) CREDIT_INVARIANT_CHECKS"
    using audit_reports_every_disagreement [OF counts] by blast
  then have "fst ` set (breachesIn counts) = {check \<in> set CREDIT_INVARIANT_CHECKS. count_of ?bill tampered_db check \<noteq> Inr 0}"
    by (metis set_filter set_map)
  then show ?thesis using counts lot held by (auto simp: CREDIT_INVARIANT_CHECKS_def)
qed

end
