(* ===== verification/Target_Keys.thy ===== *)
theory Target_Keys
  imports Task_Settlement
begin

section \<open>The target keys of credit units\<close>

text \<open>
  \<open>unitTargetKey\<close> of \<^verbatim>\<open>db/credit-windows-repo.ts\<close> prints the target of one payment's credit in one window, which
  \<open>parseUnitTargetKey\<close> reads: the two are inverse to each other on windows that are spelled as uuids and
  payment references without colons.
\<close>

definition unitTargetKey :: "string \<Rightarrow> string \<Rightarrow> string" where
  "unitTargetKey windowId coverageRef = ''window:'' @ windowId @ '':'' @ coverageRef"

definition unit_names :: "string \<Rightarrow> string \<Rightarrow> bool" where
  "unit_names w ref \<longleftrightarrow> uuid_shape w \<and> ref \<noteq> [] \<and> colon_free ref"

lemma parse_printed:
  assumes "unit_names w ref"
  shows "parseUnitTargetKey (unitTargetKey w ref) = Some (w, ref)"
proof -
  have "length w = 36" using assms by (simp add: unit_names_def uuid_shape_def)
  with assms show ?thesis by (simp add: parseUnitTargetKey_def unitTargetKey_def unit_names_def Let_def)
qed

lemma print_parsed:
  assumes "parseUnitTargetKey k = Some (w, ref)"
  shows "k = unitTargetKey w ref" "unit_names w ref"
proof -
  from assms have p: "take 7 k = ''window:''" "take 1 (drop 36 (drop 7 k)) = '':''" "uuid_shape (take 36 (drop 7 k))"
    "drop 1 (drop 36 (drop 7 k)) \<noteq> []" "colon_free (drop 1 (drop 36 (drop 7 k)))"
    and w: "take 36 (drop 7 k) = w" "drop 1 (drop 36 (drop 7 k)) = ref"
    unfolding parseUnitTargetKey_def Let_def by (simp_all split: if_splits)
  have "k = take 7 k @ take 36 (drop 7 k) @ take 1 (drop 36 (drop 7 k)) @ drop 1 (drop 36 (drop 7 k))"
    by (simp only: append_take_drop_id)
  also have "\<dots> = unitTargetKey w ref" unfolding p(1,2) w unitTargetKey_def ..
  finally show "k = unitTargetKey w ref" .
  show "unit_names w ref" using p(3-5) unfolding w unit_names_def by blast
qed

text \<open>C37: a unit's target key reads back as what it was printed from, and a key that reads as a unit is the one
  that unit prints: exactly the keys \<^verbatim>\<open>window:<uuid>:<payment>\<close> name units, each exactly one.\<close>
theorem unit_target_keys_round_trip:
  "parseUnitTargetKey k = Some (w, ref) \<longleftrightarrow> k = unitTargetKey w ref \<and> unit_names w ref"
  using parse_printed print_parsed by blast

end
