(* ===== verification/Reversal_Plans.thy ===== *)
theory Reversal_Plans
  imports Target_Keys Complex_Main
begin

section \<open>Planning a reversal\<close>

text \<open>
  The pure part of \<^verbatim>\<open>services/credit-grants.ts\<close> that decides what a refund, a dispute or a plan change
  takes: how an amount lands on lots, what a unit (one payment's credit in one month) keeps, how much
  debt an annual payment may leave, and what became of debt already written. Amounts are integers;
  a sum past JavaScript's safe integers, which the server would round, is kept exact.
\<close>

subsection \<open>A clawback of a fixed amount\<close>

record ClawbackTargetLot =
  tl_lot :: uuid
  tl_granted :: int
  tl_expired :: int
  tl_remaining :: int
  tl_held :: int
  tl_returned :: bool

record ClawbackArithmetic =
  ca_takes :: "(uuid \<times> int) list"
  ca_clawed :: int
  ca_shortfall :: int
  ca_pending :: int
  ca_debt :: int

definition everHeld :: "'a ClawbackTargetLot_scheme \<Rightarrow> int" where
  "everHeld lot = max 0 (tl_granted lot - tl_expired lot)"

definition lot_free :: "'a ClawbackTargetLot_scheme \<Rightarrow> int" where
  "lot_free lot = min (max 0 (tl_remaining lot - tl_held lot)) (everHeld lot)"

fun take_walk :: "int \<Rightarrow> int \<Rightarrow> 'a ClawbackTargetLot_scheme list \<Rightarrow> (uuid \<times> int) list \<times> int" where
  "take_walk want clawed [] = ([], clawed)"
| "take_walk want clawed (lot # lots) =
     (if clawed \<ge> want then ([], clawed)
      else if tl_returned lot then take_walk want clawed lots
      else let x = min (want - clawed) (lot_free lot) in
        if x \<le> 0 then take_walk want clawed lots
        else case take_walk want (clawed + x) lots of (takes, c) \<Rightarrow> ((tl_lot lot, x) # takes, c))"

definition planClawbackOfAmount :: "'a ClawbackTargetLot_scheme list \<Rightarrow> int \<Rightarrow> int \<Rightarrow> ClawbackArithmetic result" where
  "planClawbackOfAmount lots amount heldTotal =
     (if \<not> safe_int amount \<or> amount \<le> 0 then Inl RangeError
      else if \<not> safe_int heldTotal \<or> heldTotal < 0 then Inl RangeError
      else let askable = sum_by everHeld lots;
               want = min amount askable
           in case take_walk want 0 lots of (takes, clawed) \<Rightarrow>
                let shortfall = want - clawed; pending = min shortfall heldTotal
                in Inr \<lparr>ca_takes = takes, ca_clawed = clawed, ca_shortfall = shortfall,
                        ca_pending = pending, ca_debt = shortfall - pending\<rparr>)"

text \<open>The walk is the greedy draw over the lots that may give, in the order given.\<close>

definition givers :: "'a ClawbackTargetLot_scheme list \<Rightarrow> (uuid \<times> int) list" where
  "givers lots = map (\<lambda>l. (tl_lot l, lot_free l)) (filter (\<lambda>l. \<not> tl_returned l \<and> 0 < lot_free l) lots)"

lemma take_walk_draw:
  "take_walk want clawed lots = (draw (want - clawed) (givers lots), clawed + sum_by snd (draw (want - clawed) (givers lots)))"
proof (induction want clawed lots rule: take_walk.induct)
  case (1 want clawed)
  then show ?case by (simp add: givers_def)
next
  case (2 want clawed lot lots)
  show ?case
  proof (cases "want \<le> clawed \<or> tl_returned lot \<or> lot_free lot \<le> 0")
    case True
    with 2 show ?thesis by (auto simp: givers_def draw_idle Let_def)
  next
    case False
    define m where "m = min (want - clawed) (lot_free lot)"
    from False have x: "0 < m" "m = min (lot_free lot) (want - clawed)" "givers (lot # lots) = (tl_lot lot, lot_free lot) # givers lots"
      by (auto simp: m_def givers_def)
    have "take_walk want (clawed + m) lots =
        (draw (want - clawed - m) (givers lots), clawed + m + sum_by snd (draw (want - clawed - m) (givers lots)))"
      using 2(3) [OF _ _ m_def] False x(1) by (simp add: diff_diff_add)
    moreover have "take_walk want clawed (lot # lots) =
        (case take_walk want (clawed + m) lots of (takes, c) \<Rightarrow> ((tl_lot lot, m) # takes, c))"
      using False x(1) by (simp add: Let_def flip: m_def)
    moreover have "draw (want - clawed) (givers (lot # lots)) = (tl_lot lot, m) # draw (want - clawed - m) (givers lots)"
      using False x(2) by (simp add: x(3))
    ultimately show ?thesis by (simp only: prod.case) simp
  qed
qed

lemma givers_sum: "sum_by snd (givers lots) = sum_by lot_free (filter (\<lambda>l. \<not> tl_returned l) lots)"
proof (induction lots)
  case (Cons l lots)
  have "0 \<le> lot_free l" by (simp add: lot_free_def everHeld_def)
  with Cons show ?case by (auto simp: givers_def)
qed (simp add: givers_def)

lemma plan_lands:
  assumes "safe_int amount" "0 < amount" "safe_int heldTotal" "0 \<le> heldTotal"
  shows "\<exists>plan. planClawbackOfAmount lots amount heldTotal = Inr plan \<and>
    (let want = min amount (sum_by everHeld lots) in
      ca_takes plan = draw want (givers lots) \<and> ca_clawed plan = sum_by snd (ca_takes plan) \<and>
      ca_clawed plan = min want (sum_by lot_free (filter (\<lambda>l. \<not> tl_returned l) lots)) \<and>
      ca_clawed plan + ca_pending plan + ca_debt plan = want \<and>
      ca_pending plan = min (want - ca_clawed plan) heldTotal \<and> 0 \<le> ca_pending plan \<and> 0 \<le> ca_debt plan)"
proof -
  define want where "want = min amount (sum_by everHeld lots)"
  have "0 \<le> sum_by everHeld lots" by (intro sum_by_nonneg) (simp add: everHeld_def)
  then have want: "0 \<le> want" using assms(2) by (simp add: want_def)
  have "sum_by snd (draw want (givers lots)) = min want (sum_by snd (givers lots))"
    by (rule draw_sum [OF want]) (auto simp: givers_def)
  moreover have "take_walk want 0 lots = (draw want (givers lots), sum_by snd (draw want (givers lots)))"
    by (simp add: take_walk_draw)
  ultimately show ?thesis
    using assms by (auto simp: planClawbackOfAmount_def Let_def givers_sum simp flip: want_def)
qed

text \<open>A reversal takes what the lots can give and charges the rest exactly once. Asked for an amount, it asks the lots
  for no more than they ever held; it takes their free credit greedily in the order given, stepping
  over a lot a won dispute returned; what it could not take becomes a claim on credit that running
  tasks hold, as far as that reaches, and only the rest becomes debt. Taken, claimed and owed add up to
  what was asked.\<close>
theorem planClawbackOfAmount_lands_exactly:
  assumes "safe_int amount" "0 < amount" "safe_int heldTotal" "0 \<le> heldTotal"
  shows "\<exists>plan. planClawbackOfAmount lots amount heldTotal = Inr plan \<and>
    (let want = min amount (sum_by everHeld lots) in
      ca_takes plan = draw want (givers lots) \<and> ca_clawed plan = sum_by snd (ca_takes plan) \<and>
      ca_clawed plan = min want (sum_by lot_free (filter (\<lambda>l. \<not> tl_returned l) lots)) \<and>
      ca_clawed plan + ca_pending plan + ca_debt plan = want \<and>
      ca_pending plan = min (want - ca_clawed plan) heldTotal \<and> 0 \<le> ca_pending plan \<and> 0 \<le> ca_debt plan)"
  using plan_lands [OF assms] .

definition example_target :: "uuid \<Rightarrow> int \<Rightarrow> int \<Rightarrow> bool \<Rightarrow> ClawbackTargetLot" where
  "example_target i left hld ret =
     \<lparr>tl_lot = i, tl_granted = 1000000, tl_expired = 0, tl_remaining = left, tl_held = hld, tl_returned = ret\<rparr>"

theorem planClawbackOfAmount_lands_exactly_witness:
  "planClawbackOfAmount [example_target ''a'' 0 0 False, example_target ''b'' 900000 400000 False] 2000000 300000 =
     Inr \<lparr>ca_takes = [(''b'', 500000)], ca_clawed = 500000, ca_shortfall = 1500000, ca_pending = 300000, ca_debt = 1200000\<rparr> \<and>
   (\<exists>plan. planClawbackOfAmount [example_target ''a'' 0 0 False, example_target ''b'' 900000 400000 False] 2000000 300000 = Inr plan \<and>
      ca_clawed plan + ca_pending plan + ca_debt plan = 2000000)"
proof -
  let ?lots = "[example_target ''a'' 0 0 False, example_target ''b'' 900000 400000 False]"
  have "sum_by everHeld ?lots = 2000000" by (simp add: everHeld_def example_target_def)
  moreover have "safe_int 2000000" "safe_int 300000" by (simp_all add: safe_int_def MAX_SAFE_def)
  moreover have "planClawbackOfAmount ?lots 2000000 300000 =
     Inr \<lparr>ca_takes = [(''b'', 500000)], ca_clawed = 500000, ca_shortfall = 1500000, ca_pending = 300000, ca_debt = 1200000\<rparr>"
    by (simp add: planClawbackOfAmount_def safe_int_def MAX_SAFE_def everHeld_def lot_free_def example_target_def Let_def)
  ultimately show ?thesis
    using planClawbackOfAmount_lands_exactly [of 2000000 300000 ?lots] by (simp add: Let_def)
qed

subsection \<open>What a unit keeps\<close>

definition MICRO_PER_CREDIT :: int where
  "MICRO_PER_CREDIT = 1000000"

record UnitKeepTerm =
  kt_micro :: int
  kt_still_paid_at :: "int option"

definition wholeNonNegative :: "int \<Rightarrow> int result" where
  "wholeNonNegative v = (if \<not> safe_int v \<or> v < 0 then Inl RangeError else Inr v)"

text \<open>The loop over the terms keeps an exact fraction \<open>n / d\<close>.\<close>

fun keep_sum :: "int \<Rightarrow> int \<Rightarrow> UnitKeepTerm list \<Rightarrow> int \<times> int \<Rightarrow> (int \<times> int) result" where
  "keep_sum paid still [] (n, d) = Inr (n, d)"
| "keep_sum paid still (t # ts) (n, d) =
     (if \<not> safe_int (kt_micro t) then Inl RangeError
      else if paid = 0 then keep_sum paid still ts (n + kt_micro t * d, d)
      else rbind (case kt_still_paid_at t of None \<Rightarrow> Inr paid | Some a \<Rightarrow> wholeNonNegative a) (\<lambda>was.
        case (if was = 0 then (if still > 0 then kt_micro t else 0, 1) else (kt_micro t * still, was)) of (tn, td) \<Rightarrow>
          if td = d then keep_sum paid still ts (n + tn, d)
          else keep_sum paid still ts (n * td + tn * d, d * td)))"

definition unitKeepMicro :: "int \<Rightarrow> int \<Rightarrow> UnitKeepTerm list \<Rightarrow> int result" where
  "unitKeepMicro amountPaid stillPaid terms =
     rbind (wholeNonNegative amountPaid) (\<lambda>paid.
     rbind (wholeNonNegative stillPaid) (\<lambda>s.
     rbind (keep_sum paid (min paid s) terms (0, 1)) (\<lambda>(n, d).
       Inr (if n \<le> 0 then 0 else n div d div MICRO_PER_CREDIT * MICRO_PER_CREDIT))))"

definition unitTargetMicro :: "int \<Rightarrow> int \<Rightarrow> int option \<Rightarrow> int" where
  "unitTargetMicro keep consumed allowed =
     (case allowed of None \<Rightarrow> keep | Some a \<Rightarrow> max keep (consumed - max 0 a))"

text \<open>The reference: each term scaled by what is still paid over what was paid when it was made.\<close>

definition term_share :: "int \<Rightarrow> int \<Rightarrow> UnitKeepTerm \<Rightarrow> rat" where
  "term_share paid still t =
     (let was = (case kt_still_paid_at t of None \<Rightarrow> paid | Some a \<Rightarrow> a)
      in if paid = 0 then of_int (kt_micro t)
         else if was = 0 then (if still > 0 then of_int (kt_micro t) else 0)
         else of_int (kt_micro t) * of_int still / of_int was)"

definition term_ok :: "UnitKeepTerm \<Rightarrow> bool" where
  "term_ok t \<longleftrightarrow> safe_int (kt_micro t) \<and>
     (case kt_still_paid_at t of None \<Rightarrow> True | Some a \<Rightarrow> safe_int a \<and> 0 \<le> a)"

lemma keep_sum_exact:
  assumes "0 \<le> paid" "\<forall>t\<in>set ts. term_ok t" "0 < d"
  shows "\<exists>m e. keep_sum paid still ts (n, d) = Inr (m, e) \<and> 0 < e \<and>
    (of_int m / of_int e :: rat) = of_int n / of_int d + sum_list (map (term_share paid still) ts)"
  using assms
proof (induction ts arbitrary: n d)
  case (Cons t ts)
  have ok: "safe_int (kt_micro t)" using Cons.prems(2) by (simp add: term_ok_def)
  define was where "was = (case kt_still_paid_at t of None \<Rightarrow> paid | Some a \<Rightarrow> a)"
  have was: "(case kt_still_paid_at t of None \<Rightarrow> Inr paid | Some a \<Rightarrow> wholeNonNegative a) = Inr was" "0 \<le> was"
    using Cons.prems(1,2) by (auto simp: was_def term_ok_def wholeNonNegative_def split: option.splits)
  define tn td where "tn = (if was = 0 then (if still > 0 then kt_micro t else 0) else kt_micro t * still)"
    and "td = (if was = 0 then 1 else was)"
  show ?case
  proof (cases "paid = 0")
    case True
    then have "keep_sum paid still (t # ts) (n, d) = keep_sum paid still ts (n + kt_micro t * d, d)" using ok by simp
    moreover have "(of_int (n + kt_micro t * d) / of_int d :: rat) = of_int n / of_int d + term_share paid still t"
      using True Cons.prems(3) by (simp add: term_share_def Let_def field_simps)
    ultimately show ?thesis
      using Cons.IH [of d "n + kt_micro t * d"] Cons.prems by (simp add: add.assoc)
  next
    case False
    have td: "0 < td" using was(2) by (simp add: td_def)
    have pair: "(if was = 0 then (if still > 0 then kt_micro t else 0, 1) else (kt_micro t * still, was)) = (tn, td)"
      by (simp add: tn_def td_def)
    have share: "term_share paid still t = of_int tn / of_int td"
      using False by (simp add: term_share_def tn_def td_def Let_def flip: was_def)
    have step: "keep_sum paid still (t # ts) (n, d) =
        (if td = d then keep_sum paid still ts (n + tn, d) else keep_sum paid still ts (n * td + tn * d, d * td))"
      using False ok by (simp add: was(1) pair)
    show ?thesis
    proof (cases "td = d")
      case True
      then have "(of_int (n + tn) / of_int d :: rat) = of_int n / of_int d + term_share paid still t"
        by (simp add: share add_divide_distrib)
      with True step Cons.IH [of d "n + tn"] Cons.prems show ?thesis by (simp add: add.assoc)
    next
      case False
      have "(of_int (n * td + tn * d) / of_int (d * td) :: rat) = of_int n / of_int d + term_share paid still t"
        using td Cons.prems(3) by (simp add: share field_simps)
      with False step Cons.IH [of "d * td" "n * td + tn * d"] Cons.prems td show ?thesis by (simp add: add.assoc)
    qed
  qed
qed simp

text \<open>A unit keeps its exact share in whole credits, rounded once. Whatever grants and takes it is made of and
  whatever its payment paid when each was made, what a unit keeps is the exact sum of each scaled by
  what is still paid now over what was paid then, never below nothing and rounded down to whole
  credits once, at the end: no term loses a credit to a rounding of its own.\<close>
theorem unitKeepMicro_is_the_exact_share:
  assumes "safe_int paid" "0 \<le> paid" "safe_int still" "0 \<le> still" "\<forall>t\<in>set terms. term_ok t"
  shows "unitKeepMicro paid still terms =
    Inr (\<lfloor>max 0 (sum_list (map (term_share paid (min paid still)) terms)) / 1000000\<rfloor> * 1000000)"
proof -
  define x where "x = sum_list (map (term_share paid (min paid still)) terms)"
  obtain m e where run: "keep_sum paid (min paid still) terms (0, 1) = Inr (m, e)" "0 < e"
    and m: "(of_int m / of_int e :: rat) = x"
    using keep_sum_exact [OF assms(2,5), of 1 "min paid still" 0] by (auto simp: x_def)
  have keep: "unitKeepMicro paid still terms = Inr (if m \<le> 0 then 0 else m div e div 1000000 * 1000000)"
    using assms(1-4) run by (simp add: unitKeepMicro_def wholeNonNegative_def MICRO_PER_CREDIT_def)
  show ?thesis
  proof (cases "m \<le> 0")
    case True
    with run(2) have "x \<le> 0" by (simp flip: m add: divide_le_0_iff)
    with True keep show ?thesis by (simp flip: x_def)
  next
    case False
    with run(2) have "0 < x" by (simp flip: m)
    have "\<lfloor>x / 1000000\<rfloor> = \<lfloor>(of_int m / of_int (e * 1000000) :: rat)\<rfloor>" by (simp flip: m)
    also have "\<dots> = m div (e * 1000000)" by (rule floor_divide_of_int_eq)
    also have "\<dots> = m div e div 1000000" by (simp add: zdiv_zmult2_eq)
    finally show ?thesis using False keep \<open>0 < x\<close> by (simp flip: x_def)
  qed
qed

theorem unitKeepMicro_is_the_exact_share_witness:
  "unitKeepMicro 3000 1000 [\<lparr>kt_micro = 5000000, kt_still_paid_at = None\<rparr>, \<lparr>kt_micro = 4000000, kt_still_paid_at = Some 2000\<rparr>] =
     Inr 3000000 \<and>
   \<lfloor>(5000000 * 1000 / 3000 + 4000000 * 1000 / 2000 :: rat) / 1000000\<rfloor> * 1000000 = 3000000"
proof -
  let ?terms = "[\<lparr>kt_micro = 5000000, kt_still_paid_at = None\<rparr>, \<lparr>kt_micro = 4000000, kt_still_paid_at = Some 2000\<rparr>]"
  have "unitKeepMicro 3000 1000 ?terms = Inr 3000000" by code_simp
  moreover have "unitKeepMicro 3000 1000 ?terms =
      Inr (\<lfloor>max 0 (sum_list (map (term_share 3000 (min 3000 1000)) ?terms)) / 1000000\<rfloor> * 1000000)"
    by (rule unitKeepMicro_is_the_exact_share) (simp_all add: term_ok_def safe_int_def MAX_SAFE_def)
  ultimately show ?thesis by (simp add: term_share_def)
qed

subsection \<open>The debt an annual payment may leave\<close>

fun share_debt :: "int \<Rightarrow> (int \<times> int) list \<Rightarrow> int list" where
  "share_debt left [] = []"
| "share_debt left ((keep, consumed) # us) =
     (let allowed = min (max 0 (consumed - keep)) left in allowed # share_debt (left - allowed) us)"

definition allowedDebtByUnit :: "(int \<times> int) list \<Rightarrow> int option \<Rightarrow> int option \<Rightarrow> int option list" where
  "allowedDebtByUnit units paidForKeep capSpent =
     (case paidForKeep of None \<Rightarrow> map (\<lambda>_. None) units
      | Some p \<Rightarrow>
          let spent = (case capSpent of None \<Rightarrow> sum_by snd units | Some c \<Rightarrow> c)
          in map Some (share_debt (max 0 (spent - p)) units))"

text \<open>What a unit would owe at its target: what was spent beyond it.\<close>

definition owed_at :: "(int \<times> int) \<times> int option \<Rightarrow> int" where
  "owed_at u = (case u of ((keep, consumed), allowed) \<Rightarrow> max 0 (consumed - unitTargetMicro keep consumed allowed))"

lemma share_debt_owed:
  assumes "0 \<le> left"
  shows "sum_by owed_at (zip units (map Some (share_debt left units))) =
      min (sum_by (\<lambda>(keep, consumed). max 0 (consumed - keep)) units) left \<and>
    (\<forall>u\<in>set (zip units (map Some (share_debt left units))). owed_at u \<le> max 0 (snd (fst u) - fst (fst u)))"
  using assms
proof (induction left units rule: share_debt.induct)
  case (2 left keep consumed us)
  define x where "x = min (max 0 (consumed - keep)) left"
  have x: "0 \<le> x" "x \<le> left" "x \<le> max 0 (consumed - keep)" using 2(2) by (auto simp: x_def)
  have owed: "owed_at ((keep, consumed), Some x) = x" using x by (auto simp: owed_at_def unitTargetMicro_def)
  have rest: "0 \<le> sum_by (\<lambda>(keep, consumed). max 0 (consumed - keep)) us" by (intro sum_by_nonneg) auto
  have "sum_by owed_at (zip us (map Some (share_debt (left - x) us))) =
      min (sum_by (\<lambda>(keep, consumed). max 0 (consumed - keep)) us) (left - x) \<and>
    (\<forall>u\<in>set (zip us (map Some (share_debt (left - x) us))). owed_at u \<le> max 0 (snd (fst u) - fst (fst u)))"
    using 2(1) [OF x_def] x by simp
  moreover have "x + min S (left - x) = min (max 0 (consumed - keep) + S) left" if "0 \<le> S" for S
    using that 2(2) unfolding x_def by linarith
  ultimately show ?case using owed x rest by (simp add: Let_def flip: x_def)
qed simp

text \<open>The cap on the debt of an annual payment holds over all of its months. What its units would owe at their targets
  adds up to the smaller of their shortfalls and what was spent beyond what the payment still pays
  for, no unit owing more than its own shortfall; without a cap every unit's target is what it
  keeps.\<close>
theorem annual_cap_bounds_the_debt:
  "(case paidForKeep of
      None \<Rightarrow> map (\<lambda>((keep, consumed), a). unitTargetMicro keep consumed a) (zip units (allowedDebtByUnit units None capSpent))
                = map fst units
    | Some p \<Rightarrow>
        let spent = (case capSpent of None \<Rightarrow> sum_by snd units | Some c \<Rightarrow> c);
            due = zip units (allowedDebtByUnit units (Some p) capSpent)
        in length (allowedDebtByUnit units (Some p) capSpent) = length units \<and>
           sum_by owed_at due = min (sum_by (\<lambda>(keep, consumed). max 0 (consumed - keep)) units) (max 0 (spent - p)) \<and>
           (\<forall>u\<in>set due. owed_at u \<le> max 0 (snd (fst u) - fst (fst u))))"
proof (cases paidForKeep)
  case None
  have "map (\<lambda>((keep, consumed), a). unitTargetMicro keep consumed a) (zip us (map (\<lambda>_. None) us)) = map fst us" for us
    by (induction us) (auto simp: unitTargetMicro_def)
  with None show ?thesis by (simp add: allowedDebtByUnit_def)
next
  case (Some p)
  have "length (share_debt left us) = length us" for left us
    by (induction left us rule: share_debt.induct) (simp_all add: Let_def)
  with Some share_debt_owed [of "max 0 ((case capSpent of None \<Rightarrow> sum_by snd units | Some c \<Rightarrow> c) - p)" units]
  show ?thesis by (simp add: allowedDebtByUnit_def Let_def)
qed

theorem annual_cap_bounds_the_debt_witness:
  "allowedDebtByUnit [(1000000, 3000000), (0, 2000000)] (Some 3500000) None = [Some 1500000, Some 0] \<and>
   sum_by owed_at (zip [(1000000, 3000000), (0, 2000000)] (allowedDebtByUnit [(1000000, 3000000), (0, 2000000)] (Some 3500000) None))
     = 1500000"
  using annual_cap_bounds_the_debt [where paidForKeep = "Some 3500000" and units = "[(1000000, 3000000), (0, 2000000)]" and capSpent = None]
  by (simp add: allowedDebtByUnit_def Let_def)

end
