(* ===== verification/Debt_Fates.thy ===== *)
theory Debt_Fates
  imports Reversal_Plans
begin

section \<open>What became of the debt each reversal wrote\<close>

text \<open>
  \<open>followDebt\<close> and \<open>debtFates\<close> of \<^verbatim>\<open>services/credit-grants.ts\<close>: the account's debt is one figure, so the
  movements of it are read oldest first and every repayment is taken to pay the oldest debt still
  owed. The objects the loop mutates are the records \<open>DebtChunk\<close>, oldest first; a map keyed by strings
  that is built by overwriting is the last row that sets the key. A key is read by its parts between
  colons, which is what the anchored patterns of the code match.
\<close>

subsection \<open>Reading keys\<close>

fun split_colon :: "string \<Rightarrow> string list" where
  "split_colon [] = [[]]"
| "split_colon (c # cs) =
     (if c = CHR '':'' then [] # split_colon cs
      else case split_colon cs of [] \<Rightarrow> [[c]] | p # ps \<Rightarrow> (c # p) # ps)"

text \<open>\<^verbatim>\<open>/^claim_debt:([^:]+):/\<close>\<close>

definition claim_debt_id :: "string \<Rightarrow> string option" where
  "claim_debt_id k =
     (case split_colon k of
        w # i # _ # _ \<Rightarrow> if w = ''claim_debt'' \<and> i \<noteq> [] then Some i else None
      | _ \<Rightarrow> None)"

definition UNDO_KEY :: "string \<Rightarrow> uuid option" where
  "UNDO_KEY k =
     (case split_colon k of
        r # w # i # ref # u # c # _ # _ \<Rightarrow>
          if r = ''reinstate'' \<and> w = ''window'' \<and> uuid_shape i \<and> ref \<noteq> [] \<and> u = ''undo'' \<and> uuid_shape c then Some c else None
      | _ \<Rightarrow> None)"

definition UNIT_GIVEBACK_KEY :: "string \<Rightarrow> string option" where
  "UNIT_GIVEBACK_KEY k =
     (case split_colon k of
        r # w # i # ref # _ # _ \<Rightarrow>
          if r = ''reinstate'' \<and> w = ''window'' \<and> uuid_shape i \<and> ref \<noteq> [] then Some (colon_join [w, i, ref]) else None
      | _ \<Rightarrow> None)"

subsection \<open>Following the debt\<close>

record LedgerDebtEvent =
  de_id :: nat
  de_at :: instant
  de_kind :: CreditLedgerKind
  de_key :: string
  de_lot :: "uuid option"
  de_delta :: int

record AccountClawback =
  ac_id :: uuid
  ac_source :: string
  ac_source_ref :: string
  ac_target_key :: string
  ac_state :: clawback_state

record DebtRepaid =
  rp_lot :: uuid
  rp_micro :: int
  rp_row :: nat
  rp_at :: instant

record DebtChunk =
  ck_owner :: "uuid option"
  ck_unit :: "string option"
  ck_incurred :: int
  ck_outstanding :: int
  ck_repaid :: "DebtRepaid list"
  ck_forgivenSelf :: int
  ck_forgivenOther :: int

fun reduce_debt :: "(DebtChunk \<Rightarrow> bool) \<Rightarrow> (int \<Rightarrow> DebtChunk \<Rightarrow> DebtChunk) \<Rightarrow> int \<Rightarrow> DebtChunk list
    \<Rightarrow> DebtChunk list \<times> int" where
  "reduce_debt pool f left [] = ([], left)"
| "reduce_debt pool f left (c # cs) =
     (if left \<le> 0 then (c # cs, left)
      else if \<not> pool c then (case reduce_debt pool f left cs of (cs', l) \<Rightarrow> (c # cs', l))
      else let x = min left (ck_outstanding c) in
        if x \<le> 0 then (case reduce_debt pool f left cs of (cs', l) \<Rightarrow> (c # cs', l))
        else case reduce_debt pool f (left - x) cs of (cs', l) \<Rightarrow>
               (f x (c\<lparr>ck_outstanding := ck_outstanding c - x\<rparr>) # cs', l))"

definition repaid_from :: "LedgerDebtEvent \<Rightarrow> uuid \<Rightarrow> int \<Rightarrow> DebtChunk \<Rightarrow> DebtChunk" where
  "repaid_from e lot x c =
     c\<lparr>ck_repaid := ck_repaid c @ [\<lparr>rp_lot = lot, rp_micro = x, rp_row = de_id e, rp_at = de_at e\<rparr>]\<rparr>"

definition forgiven_self :: "int \<Rightarrow> DebtChunk \<Rightarrow> DebtChunk" where
  "forgiven_self x c = c\<lparr>ck_forgivenSelf := ck_forgivenSelf c + x\<rparr>"

definition forgiven_other :: "int \<Rightarrow> DebtChunk \<Rightarrow> DebtChunk" where
  "forgiven_other x c = c\<lparr>ck_forgivenOther := ck_forgivenOther c + x\<rparr>"

text \<open>The clawback a debt row names, and the unit that debt belongs to.\<close>

definition debt_owner :: "AccountClawback list \<Rightarrow> string \<Rightarrow> AccountClawback option" where
  "debt_owner clawbacks k =
     (case claim_debt_id k of
        Some i \<Rightarrow> find (\<lambda>c. ac_id c = i) (rev clawbacks)
      | None \<Rightarrow> find (\<lambda>c. k \<in> {colon_join [''clawback'', ac_source c, ac_source_ref c, ac_target_key c, ''debt''],
                              colon_join [''clawback'', ac_source c, ac_source_ref c, ''debt'']}) (rev clawbacks))"

definition debt_unit :: "(uuid \<times> string) list \<Rightarrow> AccountClawback option \<Rightarrow> string option" where
  "debt_unit unitOf owner =
     (case owner of None \<Rightarrow> None
      | Some c \<Rightarrow>
          (case map_of unitOf (ac_id c) of
             Some u \<Rightarrow> Some u
           | None \<Rightarrow> if length (split_colon (ac_target_key c)) = 3 then Some (ac_target_key c) else None))"

definition follow_event :: "AccountClawback list \<Rightarrow> (uuid \<times> string) list \<Rightarrow> LedgerDebtEvent
    \<Rightarrow> DebtChunk list \<Rightarrow> DebtChunk list" where
  "follow_event clawbacks unitOf e chunks =
     (if de_delta e > 0 then
        let owner = debt_owner clawbacks (de_key e) in
        chunks @ [\<lparr>ck_owner = map_option ac_id owner, ck_unit = debt_unit unitOf owner, ck_incurred = de_delta e,
                   ck_outstanding = de_delta e, ck_repaid = [], ck_forgivenSelf = 0, ck_forgivenOther = 0\<rparr>]
      else let amount = - de_delta e in
        case de_lot e of
          Some lot \<Rightarrow> fst (reduce_debt (\<lambda>_. True) (repaid_from e lot) amount chunks)
        | None \<Rightarrow>
            (case (case UNDO_KEY (de_key e) of
                     Some i \<Rightarrow> reduce_debt (\<lambda>c. ck_owner c = Some i) forgiven_self amount chunks
                   | None \<Rightarrow>
                       (case UNIT_GIVEBACK_KEY (de_key e) of
                          Some u \<Rightarrow> reduce_debt (\<lambda>c. ck_unit c = Some u) forgiven_self amount chunks
                        | None \<Rightarrow> (chunks, amount))) of
               (chunks', left) \<Rightarrow> fst (reduce_debt (\<lambda>_. True) forgiven_other left chunks')))"

definition followDebt :: "LedgerDebtEvent list \<Rightarrow> AccountClawback list \<Rightarrow> (uuid \<times> string) list \<Rightarrow> DebtChunk list" where
  "followDebt events clawbacks unitOf = fold (follow_event clawbacks unitOf) events []"

record ClawbackDebtFate =
  cf_incurred :: int
  cf_outstanding :: int
  cf_repaid :: "DebtRepaid list"
  cf_forgivenSelf :: int
  cf_forgivenOther :: int

definition no_fate :: ClawbackDebtFate where
  "no_fate = \<lparr>cf_incurred = 0, cf_outstanding = 0, cf_repaid = [], cf_forgivenSelf = 0, cf_forgivenOther = 0\<rparr>"

definition add_fate :: "DebtChunk \<Rightarrow> ClawbackDebtFate \<Rightarrow> ClawbackDebtFate" where
  "add_fate c f =
     \<lparr>cf_incurred = cf_incurred f + ck_incurred c, cf_outstanding = cf_outstanding f + ck_outstanding c,
      cf_repaid = cf_repaid f @ ck_repaid c, cf_forgivenSelf = cf_forgivenSelf f + ck_forgivenSelf c,
      cf_forgivenOther = cf_forgivenOther f + ck_forgivenOther c\<rparr>"

fun fates_of :: "DebtChunk list \<Rightarrow> (uuid \<rightharpoonup> ClawbackDebtFate) \<Rightarrow> (uuid \<rightharpoonup> ClawbackDebtFate)" where
  "fates_of [] fates = fates"
| "fates_of (c # cs) fates =
     (case ck_owner c of
        None \<Rightarrow> fates_of cs fates
      | Some i \<Rightarrow> fates_of cs (fates(i \<mapsto> add_fate c (case fates i of None \<Rightarrow> no_fate | Some f \<Rightarrow> f))))"

definition debtFates :: "LedgerDebtEvent list \<Rightarrow> AccountClawback list \<Rightarrow> (uuid \<times> string) list
    \<Rightarrow> (uuid \<rightharpoonup> ClawbackDebtFate)" where
  "debtFates events clawbacks unitOf = fates_of (followDebt events clawbacks unitOf) Map.empty"

subsection \<open>Nothing is lost\<close>

definition chunk_ok :: "DebtChunk \<Rightarrow> bool" where
  "chunk_ok c \<longleftrightarrow> 0 \<le> ck_outstanding c \<and>
     ck_incurred c = ck_outstanding c + sum_by rp_micro (ck_repaid c) + ck_forgivenSelf c + ck_forgivenOther c"

text \<open>What one reduction may do to a chunk, whatever it records the amount as.\<close>

definition accounts_for :: "(int \<Rightarrow> DebtChunk \<Rightarrow> DebtChunk) \<Rightarrow> bool" where
  "accounts_for f \<longleftrightarrow> (\<forall>x c. ck_outstanding (f x c) = ck_outstanding c \<and> ck_incurred (f x c) = ck_incurred c \<and>
     sum_by rp_micro (ck_repaid (f x c)) + ck_forgivenSelf (f x c) + ck_forgivenOther (f x c) =
       sum_by rp_micro (ck_repaid c) + ck_forgivenSelf c + ck_forgivenOther c + x)"

lemma accounts_for_records: "accounts_for (repaid_from e lot)" "accounts_for forgiven_self" "accounts_for forgiven_other"
  by (simp_all add: accounts_for_def repaid_from_def forgiven_self_def forgiven_other_def)

lemma reduce_debt_keeps:
  assumes "accounts_for f" "\<forall>c\<in>set chunks. chunk_ok c" "0 \<le> left" "reduce_debt pool f left chunks = (chunks', l)"
  shows "(\<forall>c\<in>set chunks'. chunk_ok c) \<and> sum_by ck_incurred chunks' = sum_by ck_incurred chunks \<and>
    sum_by ck_outstanding chunks' + left = sum_by ck_outstanding chunks + l \<and>
    l = max 0 (left - sum_by ck_outstanding (filter pool chunks)) \<and> 0 \<le> l"
  using assms
proof (induction pool f left chunks arbitrary: chunks' l rule: reduce_debt.induct)
  case (1 pool f left)
  then show ?case by simp
next
  case (2 pool f left c cs)
  note ok = "2.prems"(1,2)
  have c: "chunk_ok c" "0 \<le> ck_outstanding c" and cs: "\<forall>c\<in>set cs. chunk_ok c" using ok(2) by (simp_all add: chunk_ok_def)
  have pool0: "0 \<le> sum_by ck_outstanding (filter pool cs)" using cs by (intro sum_by_nonneg) (auto simp: chunk_ok_def)
  show ?case
  proof (cases "left \<le> 0")
    case True
    with ok c pool0 "2.prems"(3,4) show ?thesis by auto
  next
    case False
    obtain d m where walk: "reduce_debt pool f left cs = (d, m)" by fastforce
    show ?thesis
    proof (cases "pool c \<and> 0 < min left (ck_outstanding c)")
      case None: False
      then have "reduce_debt pool f left (c # cs) = (c # d, m)"
        using False by (cases "pool c") (simp_all add: Let_def walk min_less_iff_conj not_less)
      then have run: "chunks' = c # d" "l = m" using "2.prems"(4) by simp_all
      have "(\<forall>c\<in>set d. chunk_ok c) \<and> sum_by ck_incurred d = sum_by ck_incurred cs \<and>
          sum_by ck_outstanding d + left = sum_by ck_outstanding cs + m \<and>
          m = max 0 (left - sum_by ck_outstanding (filter pool cs)) \<and> 0 \<le> m"
      proof (cases "pool c")
        case True
        with None have "min left (ck_outstanding c) \<le> 0" by auto
        from "2.IH"(2) [OF False _ refl this ok(1) cs "2.prems"(3) walk] True show ?thesis by blast
      next
        case no: False
        from "2.IH"(1) [OF False no ok(1) cs "2.prems"(3) walk] show ?thesis .
      qed
      moreover have "pool c \<Longrightarrow> ck_outstanding c = 0" using None False c(2) by auto
      ultimately show ?thesis using run c(1) by (cases "pool c") simp_all
    next
      case True
      define x where "x = min left (ck_outstanding c)"
      obtain d m where walk: "reduce_debt pool f (left - x) cs = (d, m)" by fastforce
      have x: "0 < x" "x \<le> left" "x \<le> ck_outstanding c" using True by (auto simp: x_def)
      let ?c = "f x (c\<lparr>ck_outstanding := ck_outstanding c - x\<rparr>)"
      have run: "chunks' = ?c # d" "l = m"
        using "2.prems"(4) False True walk x(1) by (auto simp: Let_def simp flip: x_def)
      have c': "ck_outstanding ?c = ck_outstanding c - x" "ck_incurred ?c = ck_incurred c"
        "sum_by rp_micro (ck_repaid ?c) + ck_forgivenSelf ?c + ck_forgivenOther ?c =
           sum_by rp_micro (ck_repaid c) + ck_forgivenSelf c + ck_forgivenOther c + x"
        using ok(1) [unfolded accounts_for_def, rule_format, of x "c\<lparr>ck_outstanding := ck_outstanding c - x\<rparr>"] by simp_all
      then have "chunk_ok ?c" using c(1) x(3) by (simp add: chunk_ok_def)
      moreover note c'(1,2)
      moreover have "(\<forall>c\<in>set d. chunk_ok c) \<and> sum_by ck_incurred d = sum_by ck_incurred cs \<and>
          sum_by ck_outstanding d + (left - x) = sum_by ck_outstanding cs + m \<and>
          m = max 0 (left - x - sum_by ck_outstanding (filter pool cs)) \<and> 0 \<le> m"
        using "2.IH"(3) [OF False _ x_def _ ok(1) cs _ walk] True x by auto
      moreover have "max 0 (left - x - S) = max 0 (left - (ck_outstanding c + S))" if "0 \<le> S" for S
        using that False x(1) unfolding x_def by linarith
      ultimately show ?thesis using run True pool0 by simp
    qed
  qed
qed

lemmas reduce_keeps = accounts_for_records [THEN reduce_debt_keeps]

lemma follow_event_keeps:
  assumes "\<forall>c\<in>set chunks. chunk_ok c" "0 \<le> sum_by ck_outstanding chunks + de_delta e"
  shows "(\<forall>c\<in>set (follow_event cbs units e chunks). chunk_ok c) \<and>
    sum_by ck_outstanding (follow_event cbs units e chunks) = sum_by ck_outstanding chunks + de_delta e \<and>
    sum_by ck_incurred (follow_event cbs units e chunks) = sum_by ck_incurred chunks + max 0 (de_delta e)"
proof (cases "0 < de_delta e")
  case True
  with assms(1) show ?thesis by (auto simp: follow_event_def chunk_ok_def Let_def)
next
  case False
  define amount where "amount = - de_delta e"
  then have amount: "0 \<le> amount" "amount \<le> sum_by ck_outstanding chunks" "max 0 (de_delta e) = 0" using False assms(2) by auto
  show ?thesis
  proof (cases "de_lot e")
    case (Some lot)
    obtain d l where walk: "reduce_debt (\<lambda>_. True) (repaid_from e lot) amount chunks = (d, l)" by fastforce
    then have "follow_event cbs units e chunks = d" using False Some by (simp add: follow_event_def Let_def flip: amount_def)
    with reduce_keeps(1) [OF assms(1) amount(1) walk] amount show ?thesis by (simp add: amount_def)
  next
    case None
    define first where "first = (case UNDO_KEY (de_key e) of
        Some i \<Rightarrow> reduce_debt (\<lambda>c. ck_owner c = Some i) forgiven_self amount chunks
      | None \<Rightarrow> (case UNIT_GIVEBACK_KEY (de_key e) of
          Some u \<Rightarrow> reduce_debt (\<lambda>c. ck_unit c = Some u) forgiven_self amount chunks
        | None \<Rightarrow> (chunks, amount)))"
    obtain d left where f: "first = (d, left)" by fastforce
    have d: "\<forall>c\<in>set d. chunk_ok c" "sum_by ck_incurred d = sum_by ck_incurred chunks"
      "sum_by ck_outstanding d + amount = sum_by ck_outstanding chunks + left" "0 \<le> left"
      using f reduce_keeps(2) [OF assms(1) amount(1)] assms(1) amount(1)
      by (auto simp: first_def split: option.splits)
    obtain g l where walk: "reduce_debt (\<lambda>_. True) forgiven_other left d = (g, l)" by fastforce
    have "follow_event cbs units e chunks = g"
      using False None walk by (simp add: follow_event_def Let_def f flip: amount_def first_def)
    with reduce_keeps(3) [OF d(1) d(4) walk] d amount show ?thesis by (simp add: amount_def)
  qed
qed

text \<open>The account's debt never runs below nothing.\<close>

fun debt_runs :: "int \<Rightarrow> LedgerDebtEvent list \<Rightarrow> bool" where
  "debt_runs w [] \<longleftrightarrow> True"
| "debt_runs w (e # es) \<longleftrightarrow> 0 \<le> w + de_delta e \<and> debt_runs (w + de_delta e) es"

lemma follow_keeps:
  assumes "\<forall>c\<in>set chunks. chunk_ok c" "debt_runs (sum_by ck_outstanding chunks) events"
  shows "(\<forall>c\<in>set (fold (follow_event cbs units) events chunks). chunk_ok c) \<and>
    sum_by ck_outstanding (fold (follow_event cbs units) events chunks) = sum_by ck_outstanding chunks + sum_by de_delta events \<and>
    sum_by ck_incurred (fold (follow_event cbs units) events chunks) = sum_by ck_incurred chunks + sum_by (\<lambda>e. max 0 (de_delta e)) events"
  using assms
proof (induction events arbitrary: chunks)
  case (Cons e es)
  have "0 \<le> sum_by ck_outstanding chunks + de_delta e" using Cons.prems(2) by simp
  note one = follow_event_keeps [OF Cons.prems(1) this, where cbs = cbs and units = units]
  with Cons.IH [of "follow_event cbs units e chunks"] Cons.prems(2) show ?case by (simp add: add.assoc)
qed simp

definition fate_ok :: "ClawbackDebtFate \<Rightarrow> bool" where
  "fate_ok f \<longleftrightarrow> 0 \<le> cf_outstanding f \<and>
     cf_incurred f = cf_outstanding f + sum_by rp_micro (cf_repaid f) + cf_forgivenSelf f + cf_forgivenOther f"

lemma fates_of_sums:
  assumes "\<forall>c\<in>set cs. chunk_ok c" "\<forall>f. fates i = Some f \<longrightarrow> fate_ok f"
  shows "(\<forall>f. fates_of cs fates i = Some f \<longrightarrow> fate_ok f) \<and>
    (case fates_of cs fates i of None \<Rightarrow> 0 | Some f \<Rightarrow> cf_outstanding f) =
      (case fates i of None \<Rightarrow> 0 | Some f \<Rightarrow> cf_outstanding f) + sum_by ck_outstanding (filter (\<lambda>c. ck_owner c = Some i) cs)"
  using assms
proof (induction cs arbitrary: fates)
  case (Cons c cs)
  show ?case
  proof (cases "ck_owner c")
    case None
    with Cons show ?thesis by simp
  next
    case (Some j)
    let ?f = "case fates j of None \<Rightarrow> no_fate | Some f \<Rightarrow> f"
    have "fate_ok (add_fate c ?f)" if "j = i"
      using Cons.prems that by (auto simp: fate_ok_def chunk_ok_def add_fate_def no_fate_def split: option.splits)
    moreover define m where "m = fates(j \<mapsto> add_fate c ?f)"
    ultimately have m: "\<forall>f. m i = Some f \<longrightarrow> fate_ok f" using Cons.prems(2) by (cases "j = i") simp_all
    have "(case m i of None \<Rightarrow> 0 | Some f \<Rightarrow> cf_outstanding f) =
        (case fates i of None \<Rightarrow> 0 | Some f \<Rightarrow> cf_outstanding f) + (if j = i then ck_outstanding c else 0)"
      by (simp add: m_def add_fate_def no_fate_def split: option.split)
    moreover have "fates_of (c # cs) fates = fates_of cs m" using Some by (simp add: m_def)
    ultimately show ?thesis using Cons.IH [of m] m Cons.prems(1) Some by (simp add: add.assoc)
  qed
qed simp

text \<open>Every unit of debt a reversal wrote is accounted for. As long as the account's debt never ran below nothing, what a
  clawback's debt came to is exactly what is still owed of it, what was repaid and out of which lots,
  and what was forgiven, by its own unit or otherwise; and what all debt rows together still owe is the
  account's debt, so a repayment is never counted against two reversals.\<close>
theorem debtFates_account_for_all_debt:
  assumes "debt_runs 0 events"
  shows "(\<forall>i f. debtFates events clawbacks unitOf i = Some f \<longrightarrow>
      cf_incurred f = cf_outstanding f + sum_by rp_micro (cf_repaid f) + cf_forgivenSelf f + cf_forgivenOther f \<and>
      0 \<le> cf_outstanding f \<and> cf_outstanding f \<le> sum_by de_delta events) \<and>
    sum_by ck_outstanding (followDebt events clawbacks unitOf) = sum_by de_delta events \<and>
    sum_by ck_incurred (followDebt events clawbacks unitOf) = sum_by (\<lambda>e. max 0 (de_delta e)) events"
proof -
  let ?cs = "followDebt events clawbacks unitOf"
  have all: "\<forall>c\<in>set ?cs. chunk_ok c" "sum_by ck_outstanding ?cs = sum_by de_delta events"
    "sum_by ck_incurred ?cs = sum_by (\<lambda>e. max 0 (de_delta e)) events"
    using follow_keeps [of "[]" events clawbacks unitOf] assms by (simp_all add: followDebt_def)
  have "fate_ok f \<and> cf_outstanding f \<le> sum_by de_delta events" if "debtFates events clawbacks unitOf i = Some f" for i f
  proof -
    have "sum_by ck_outstanding (filter (\<lambda>c. ck_owner c = Some i) ?cs) \<le> sum_by ck_outstanding ?cs"
      using all(1) by (intro sum_by_filter_le) (simp add: chunk_ok_def)
    with fates_of_sums [OF all(1), of Map.empty i] that all(2) show ?thesis by (simp add: debtFates_def)
  qed
  then show ?thesis using all(2,3) by (auto simp: fate_ok_def)
qed

definition example_clawback_id :: uuid where
  "example_clawback_id = ''eeeeeeee-0000-4000-8000-000000000001''"

definition example_debt_events :: "LedgerDebtEvent list" where
  "example_debt_events =
     [\<lparr>de_id = 4, de_at = 10, de_kind = DebtIncurred,
       de_key = colon_join [''clawback'', ''stripe_refund'', ''re_1'', ''debt''], de_lot = None, de_delta = 900\<rparr>,
      \<lparr>de_id = 6, de_at = 20, de_kind = DebtRepayment, de_key = ''debt_repayment:l:1'', de_lot = Some ''l'', de_delta = - 500\<rparr>,
      \<lparr>de_id = 9, de_at = 30, de_kind = AdjustmentEntry,
       de_key = colon_join [''reinstate'', ''window'', ''cccccccc-0000-4000-8000-000000000001'', ''in_1'', ''undo'', example_clawback_id, ''x''],
       de_lot = None, de_delta = - 300\<rparr>]"

theorem debtFates_account_for_all_debt_witness:
  "\<exists>f. debtFates example_debt_events
      [\<lparr>ac_id = example_clawback_id, ac_source = ''stripe_refund'', ac_source_ref = ''re_1'', ac_target_key = ''order:1'', ac_state = Applied\<rparr>]
      [] example_clawback_id = Some f \<and>
     cf_incurred f = 900 \<and> cf_outstanding f = 100 \<and> sum_by rp_micro (cf_repaid f) = 500 \<and> cf_forgivenSelf f = 300 \<and> cf_forgivenOther f = 0"
proof -
  let ?cb = "[\<lparr>ac_id = example_clawback_id, ac_source = ''stripe_refund'', ac_source_ref = ''re_1'', ac_target_key = ''order:1'',
    ac_state = Applied\<rparr>]"
  have "map_option (\<lambda>f. (cf_incurred f, cf_outstanding f, sum_by rp_micro (cf_repaid f), cf_forgivenSelf f))
      (debtFates example_debt_events ?cb [] example_clawback_id) = Some (900, 100, 500, 300)"
    by code_simp
  then obtain f where f: "debtFates example_debt_events ?cb [] example_clawback_id = Some f" "cf_incurred f = 900"
    "cf_outstanding f = 100" "sum_by rp_micro (cf_repaid f) = 500" "cf_forgivenSelf f = 300"
    by auto
  have "debt_runs 0 example_debt_events" by (simp add: example_debt_events_def)
  from debtFates_account_for_all_debt [OF this] f show ?thesis by force
qed

end
