(* ===== verification/Clawbacks.thy ===== *)
theory Clawbacks
  imports Claim_Laws Debt_Fates
begin

section \<open>Writing a reversal\<close>

text \<open>
  \<open>clawBack\<close> of \<^verbatim>\<open>services/credit-grants.ts\<close> and the statements of \<^verbatim>\<open>db/credit-windows-repo.ts\<close> it runs: it looks for
  its own record first, plans what the lots give, what a claim on held credit covers and what becomes
  debt, writes one ledger row for each lot and one for the debt, records the clawback and repays debt
  from free credit. A reversal of several units runs it once a unit, each with its own key, targets and claimable
  credit, and settles the debt at the end.
\<close>

subsection \<open>The lots a reversal may take from\<close>

definition starts_with :: "string \<Rightarrow> string \<Rightarrow> bool" where
  "starts_with s p \<longleftrightarrow> take (length p) s = p"

text \<open>\<^verbatim>\<open>split_part(s, ':', n)\<close>: the \<open>n\<close>-th part counted from one, empty past the last.\<close>

definition split_part :: "string \<Rightarrow> nat \<Rightarrow> string" where
  "split_part s n = (let ps = split_colon s in if n - 1 < length ps then ps ! (n - 1) else [])"

definition prorationGrantKey :: "uuid \<Rightarrow> nat \<Rightarrow> string" where
  "prorationGrantKey windowId sq = colon_join [''proration'', windowId, dec sq]"

definition expired_of :: "db \<Rightarrow> uuid \<Rightarrow> int" where
  "expired_of db i = - sum_by lot_delta (filter (\<lambda>x. led_lot x = Some i \<and> led_kind x = Expiry) (credit_ledger db))"

definition window_of_lot :: "db \<Rightarrow> credit_lot \<Rightarrow> credit_window option" where
  "window_of_lot db l =
     (case lot_window l of None \<Rightarrow> None
      | Some w \<Rightarrow> find (\<lambda>x. win_id x = w \<and> win_account x = lot_account l) (credit_windows db))"

text \<open>The payment a lot belongs to; SQL's null is \<open>None\<close>.\<close>

definition lot_coverage :: "db \<Rightarrow> credit_lot \<Rightarrow> string option" where
  "lot_coverage db l =
     (let of_window = map_option win_source_ref (window_of_lot db l)
      in case lot_kind l of
           Monthly \<Rightarrow> of_window
         | Proration \<Rightarrow>
             (case sort_key lc_seq (filter (\<lambda>s. lot_window l = Some (lc_window s) \<and>
                      grant_key l = prorationGrantKey (lc_window s) (lc_seq s)) (credit_window_level_changes db)) of
                [] \<Rightarrow> of_window
              | s # _ \<Rightarrow> (case lc_source_ref s of None \<Rightarrow> of_window | Some r \<Rightarrow> Some r))
         | _ \<Rightarrow> Some (split_part (grant_key l) 4))"

definition target_row :: "db \<Rightarrow> credit_lot \<Rightarrow> ClawbackTargetLot" where
  "target_row db l =
     \<lparr>tl_lot = lot_id l, tl_granted = granted l, tl_expired = expired_of db (lot_id l), tl_remaining = remaining l,
      tl_held = held l,
      tl_returned = (lot_kind l = Adjustment \<and> drop (length (grant_key l) - 9) (grant_key l) = '':returned'')\<rparr>"

definition toTargetLot :: "ClawbackTargetLot \<Rightarrow> ClawbackTargetLot result" where
  "toTargetLot t =
     rbind (exactMicro (tl_granted t)) (\<lambda>_. rbind (exactMicro (tl_expired t)) (\<lambda>_.
     rbind (exactMicro (tl_remaining t)) (\<lambda>_. rbind (exactMicro (tl_held t)) (\<lambda>_. Inr t))))"

definition window_lots :: "uuid \<Rightarrow> uuid \<Rightarrow> db \<Rightarrow> credit_lot list" where
  "window_lots a windowId db =
     rev (sort_key (\<lambda>l. (lot_created l, lot_id l))
       (filter (\<lambda>l. lot_account l = a \<and>
          (lot_window l = Some windowId \<or>
           lot_window l = None \<and> lot_kind l = Adjustment \<and>
             starts_with (grant_key l) (''reinstate:window:'' @ windowId @ '':''))) (credit_lots db)))"

definition clawbackTargets :: "uuid \<Rightarrow> uuid \<Rightarrow> string list option \<Rightarrow> db \<Rightarrow> ClawbackTargetLot list result" where
  "clawbackTargets a windowId coverageRefs db =
     all_results (map (\<lambda>l. toTargetLot (target_row db l))
       (filter (\<lambda>l. case coverageRefs of None \<Rightarrow> True
          | Some refs \<Rightarrow> (case lot_coverage db l of None \<Rightarrow> False | Some c \<Rightarrow> c \<in> set refs)) (window_lots a windowId db)))"

subsection \<open>Standing claims and the record of a clawback\<close>

definition pendingClaimTotalMicro :: "uuid \<Rightarrow> db \<Rightarrow> int result" where
  "pendingClaimTotalMicro a db = exactMicro (sum_by cb_pending (filter (standing_claim a) (credit_clawbacks db)))"

record CreditClawbackRecord =
  cr_id :: uuid
  cr_account :: uuid
  cr_source :: string
  cr_sourceRef :: string
  cr_targetKey :: string
  cr_state :: clawback_state
  cr_amount :: "int option"
  cr_clawed :: int
  cr_pending :: int
  cr_debt :: int

definition or_0 :: "int option \<Rightarrow> int" where
  "or_0 x = (case x of None \<Rightarrow> 0 | Some v \<Rightarrow> v)"

definition toClawbackRecord :: "credit_clawback \<Rightarrow> CreditClawbackRecord result" where
  "toClawbackRecord c =
     rbind (member_of CREDIT_CLAWBACK_SOURCES (cb_source c)) (\<lambda>_.
     rbind (case cb_amount c of None \<Rightarrow> Inr None | Some x \<Rightarrow> rbind (exactMicro x) (\<lambda>v. Inr (Some v))) (\<lambda>amount.
     rbind (exactMicro (or_0 (cb_clawed c))) (\<lambda>clawed.
     rbind (exactMicro (cb_pending c)) (\<lambda>pending.
     rbind (exactMicro (or_0 (cb_debt c))) (\<lambda>debt.
       Inr \<lparr>cr_id = cb_id c, cr_account = cb_account c, cr_source = cb_source c, cr_sourceRef = cb_source_ref c,
            cr_targetKey = cb_target_key c, cr_state = cb_state c, cr_amount = amount, cr_clawed = clawed,
            cr_pending = pending, cr_debt = debt\<rparr>)))))"

definition keyed_clawback :: "string \<Rightarrow> string \<Rightarrow> string \<Rightarrow> credit_clawback \<Rightarrow> bool" where
  "keyed_clawback source ref target c \<longleftrightarrow> cb_source c = source \<and> cb_source_ref c = ref \<and> cb_target_key c = target"

definition findClawback :: "string \<Rightarrow> string \<Rightarrow> string \<Rightarrow> db \<Rightarrow> CreditClawbackRecord option result" where
  "findClawback source ref target db =
     (case find (keyed_clawback source ref target) (credit_clawbacks db) of
        None \<Rightarrow> Inr None
      | Some row \<Rightarrow> rbind (toClawbackRecord row) (\<lambda>r. Inr (Some r)))"

definition optionalBigint :: "int option \<Rightarrow> int option result" where
  "optionalBigint v = (case v of None \<Rightarrow> Inr None | Some x \<Rightarrow> if \<not> safe_int x \<or> x < 0 then Inl RangeError else Inr (Some x))"

record NewCreditClawback =
  nc_account :: uuid
  nc_source :: string
  nc_sourceRef :: string
  nc_targetKey :: string
  nc_amount :: int
  nc_clawed :: int
  nc_pending :: int
  nc_debt :: int
  nc_disputed :: "int option"
  nc_capSpent :: "int option"
  nc_ledgerMark :: "int option"

definition clawback_row :: "uuid \<Rightarrow> instant \<Rightarrow> 'a NewCreditClawback_scheme \<Rightarrow> credit_clawback" where
  "clawback_row i t v =
     \<lparr>cb_id = i, cb_account = nc_account v, cb_source = nc_source v, cb_source_ref = nc_sourceRef v,
      cb_target_key = nc_targetKey v, cb_fraction = None, cb_amount = Some (nc_amount v), cb_state = Applied,
      cb_clawed = Some (nc_clawed v), cb_pending = nc_pending v, cb_debt = Some (nc_debt v), cb_created = t,
      cb_disputed = nc_disputed v, cb_cap_spent = nc_capSpent v, cb_ledger_mark = map_option nat (nc_ledgerMark v),
      cb_forgive_after = None\<rparr>"

text \<open>
  \<^verbatim>\<open>ON CONFLICT DO NOTHING\<close>: any unique key, the drawn id's too. The CHECKs of migrations 0139 and 0140 ask that
  the disputed amount, the frozen spend and the mark are not negative.
\<close>

definition insertClawback :: "(db \<Rightarrow> uuid) \<Rightarrow> 'a NewCreditClawback_scheme \<Rightarrow> CreditClawbackRecord statement" where
  "insertClawback new_id v db =
     rbind (optionalBigint (nc_capSpent v)) (\<lambda>_. rbind (optionalBigint (nc_ledgerMark v)) (\<lambda>_.
       let row = clawback_row (new_id db) (db_now db) v
       in if \<not> clawback_checks row \<or> (case nc_disputed v of None \<Rightarrow> False | Some x \<Rightarrow> x < 0) then Inl (SqlError 23514)
          else if list_ex (same_clawback_key row) (credit_clawbacks db)
          then rbind (findClawback (nc_source v) (nc_sourceRef v) (nc_targetKey v) db) (\<lambda>existing.
                 case existing of None \<Rightarrow> Inl PlainError | Some r \<Rightarrow> Inr (r, db))
          else rbind (toClawbackRecord row) (\<lambda>r. Inr (r, db\<lparr>credit_clawbacks := credit_clawbacks db @ [row]\<rparr>))))"

subsection \<open>The reversal of one unit\<close>

datatype clawback_kind = TakesForPlanChange | TakesForReversal

record ClawBackInput =
  ci_source :: string
  ci_sourceRef :: string
  ci_targetKey :: string
  ci_windowId :: uuid
  ci_amountMicro :: int
  ci_ledgerKind :: clawback_kind
  ci_debtReason :: string
  ci_ledgerKeyPrefix :: "string option"
  ci_targets :: "ClawbackTargetLot list option"
  ci_disputedMinor :: "int option"
  ci_settle :: bool
  ci_claimableMicro :: "int option"
  ci_capSpentMicro :: "int option"
  ci_ledgerMark :: "int option"

definition clawbackLedgerKey :: "'a ClawBackInput_scheme \<Rightarrow> string \<Rightarrow> string" where
  "clawbackLedgerKey input suffix = ''clawback:'' @ ci_source input @ '':'' @ ci_sourceRef input @ '':'' @ suffix"

definition clawback_key :: "'a ClawBackInput_scheme \<Rightarrow> string \<Rightarrow> string" where
  "clawback_key input suffix =
     (case ci_ledgerKeyPrefix input of Some p \<Rightarrow> p @ '':'' @ suffix | None \<Rightarrow> clawbackLedgerKey input suffix)"

definition take_entry :: "uuid \<Rightarrow> 'a ClawBackInput_scheme \<Rightarrow> uuid \<times> int \<Rightarrow> NewCreditLedgerEntry" where
  "take_entry a input t =
     \<lparr>entry_account = a, entry_key = clawback_key input (fst t), entry_actor = None, entry_session = None,
      entry_movement = (case ci_ledgerKind input of
         TakesForPlanChange \<Rightarrow> ProrationClawbackOf (fst t) (snd t) (Some (ci_source input))
       | TakesForReversal \<Rightarrow> RefundClawbackOf (fst t) (snd t) (Some (ci_source input)))\<rparr>"

definition debt_entry :: "uuid \<Rightarrow> 'a ClawBackInput_scheme \<Rightarrow> int \<Rightarrow> NewCreditLedgerEntry" where
  "debt_entry a input x =
     \<lparr>entry_account = a, entry_key = clawback_key input ''debt'', entry_actor = None, entry_session = None,
      entry_movement = IncurDebt x (ci_debtReason input)\<rparr>"

definition new_clawback :: "uuid \<Rightarrow> 'a ClawBackInput_scheme \<Rightarrow> ClawbackArithmetic \<Rightarrow> NewCreditClawback" where
  "new_clawback a input plan =
     \<lparr>nc_account = a, nc_source = ci_source input, nc_sourceRef = ci_sourceRef input, nc_targetKey = ci_targetKey input,
      nc_amount = ci_amountMicro input, nc_clawed = ca_clawed plan, nc_pending = ca_pending plan, nc_debt = ca_debt plan,
      nc_disputed = ci_disputedMinor input, nc_capSpent = ci_capSpentMicro input, nc_ledgerMark = ci_ledgerMark input\<rparr>"

text \<open>What a claim may be laid on: credit the account's tasks hold and no claim stands over, and never
  more than the caller allows.\<close>

definition claimable_credit :: "int option \<Rightarrow> int \<Rightarrow> int \<Rightarrow> int" where
  "claimable_credit allowed heldTotal standingClaims =
     (let onAccount = max 0 (heldTotal - standingClaims)
      in case allowed of None \<Rightarrow> onAccount | Some x \<Rightarrow> min onAccount (max 0 x))"

definition reversal_lots :: "uuid \<Rightarrow> 'a ClawBackInput_scheme \<Rightarrow> db \<Rightarrow> ClawbackTargetLot list result" where
  "reversal_lots a input db =
     (case ci_targets input of Some ls \<Rightarrow> Inr ls | None \<Rightarrow> clawbackTargets a (ci_windowId input) None db)"

definition clawBack :: "(db \<Rightarrow> uuid) \<Rightarrow> uuid \<Rightarrow> 'a ClawBackInput_scheme \<Rightarrow> CreditClawbackRecord statement" where
  "clawBack new_id a input db =
     rbind (findClawback (ci_source input) (ci_sourceRef input) (ci_targetKey input) db) (\<lambda>already.
     case already of Some r \<Rightarrow> Inr (r, db)
     | None \<Rightarrow>
     rbind (reversal_lots a input db) (\<lambda>lots.
     rbind (heldMicro a db) (\<lambda>heldTotal.
     rbind (pendingClaimTotalMicro a db) (\<lambda>standingClaims.
     rbind (planClawbackOfAmount lots (ci_amountMicro input)
              (claimable_credit (ci_claimableMicro input) heldTotal standingClaims)) (\<lambda>plan.
     rbind (foldr_result (\<lambda>d t. rbind (append_ledger (take_entry a input t) d) (\<lambda>(_, d'). Inr d')) db (ca_takes plan)) (\<lambda>db1.
     rbind (append_if (ca_debt plan > 0) (debt_entry a input (ca_debt plan)) db1) (\<lambda>db2.
     rbind (insertClawback new_id (new_clawback a input plan) db2) (\<lambda>(r, db3).
     rbind (if ci_settle input then settleDebtFromFree a db3 else Inr ([], db3)) (\<lambda>(_, db4).
       Inr (r, db4))))))))))"

end
