(* ===== verification/Clawback_Laws.thy ===== *)
theory Clawback_Laws
  imports Clawbacks
begin

section \<open>What a reversal leaves behind\<close>

text \<open>
  A reversal writes ledger rows of its own family of keys, one clawback and perhaps repayments of
  debt. Such rows are outside every task: they keep \<open>sys_inv\<close>, the invariant of all tables. Beside that, this
  theory shows that a reversal whose keys are unused goes through, charges the account exactly what it
  was asked for, claims no held credit twice and is a record read back the second time.
\<close>

subsection \<open>Rows outside every task\<close>

definition outside :: "credit_ledger_values \<Rightarrow> bool" where
  "outside v \<longleftrightarrow> led_reservation v = None \<and> (\<forall>rid. uuid_ok rid \<longrightarrow> \<not> task_key rid (idempotency_key v))"

lemma outside_sys_inv:
  assumes m: "ledger_moves outside db d" and inv: "sys_inv db" and d: "db_inv d" "hygiene d"
  shows "sys_inv d"
proof -
  note ok = sys_invD [OF inv] and frame = ledger_moves_frame [OF m] and finds = ledger_moves_finds [OF m]
  obtain rows where rows: "credit_ledger d = credit_ledger db @ rows"
    "\<And>r. r \<in> set rows \<Longrightarrow> \<exists>v e. outside v \<and> r = new_ledger_row v e" by (rule ledger_moves_rows [OF m]) blast
  have new: "led_reservation r = None" "uuid_ok q \<Longrightarrow> \<not> task_key q (idempotency_key r)" if "r \<in> set rows" for r q
    using rows(2) [OF that] by (auto simp: outside_def)
  have charges: "charges_of d q = charges_of db q" for q
  proof -
    have "filter (\<lambda>x. led_reservation x = Some q \<and> led_kind x = TaskCharge) rows = []"
      unfolding filter_empty_conv using new(1) by auto
    then show ?thesis by (simp add: charges_of_def rows(1))
  qed
  have "credit_check_reservation d q = credit_check_reservation db q" for q
    by (rule check_cong) (simp_all add: finds charges)
  moreover have "uuid_ok (res_id r)" if "r \<in> set (credit_reservations db)" for r
    using ok(3) that by (simp add: task_rows_ok_def)
  ultimately have "tasks_balanced d"
    using ok(5) new(2) unfolding tasks_balanced_def frame(2) finds(3) charges rows(1) by auto
  moreover have "task_rows_ok d" by (rule ledger_moves_task_rows [OF m ok(3)])
  moreover have "slots_ok d" "claims_ok d" using ok(4,6) frame(2,5) by (simp_all add: slots_ok_def claims_ok_def)
  ultimately show ?thesis using d by (simp add: sys_inv_def task_inv_def)
qed

text \<open>The keys of reversals, and those of repayments, are not those of any task.\<close>

definition reversal_key :: "string \<Rightarrow> bool" where
  "reversal_key k \<longleftrightarrow> (\<exists>rest. k = ''clawback:'' @ rest)"

lemma reversal_key_head:
  assumes "reversal_key (colon_join ps)" "\<forall>p\<in>set ps. colon_free p" "ps \<noteq> []"
  shows "hd ps = ''clawback''"
proof -
  from assms(1) obtain rest where k: "colon_join ps = ''clawback'' @ CHR '':'' # rest" by (auto simp: reversal_key_def)
  show ?thesis
  proof (cases ps rule: colon_join.cases)
    case (2 x)
    then show ?thesis using k assms(2) by (simp add: colon_join.simps colon_free_def)
  next
    case (3 x y zs)
    then have "x @ CHR '':'' # colon_join (y # zs) = ''clawback'' @ CHR '':'' # rest" using k by (simp add: colon_join.simps)
    from append_colon_inject [OF _ _ this] 3 assms(2) show ?thesis by (simp add: colon_free_def)
  qed (use assms(3) in simp)
qed

lemma reversal_key_not_task: "reversal_key k \<Longrightarrow> uuid_ok rid \<Longrightarrow> \<not> task_key rid k"
proof
  assume k: "reversal_key k" "uuid_ok rid" "task_key rid k"
  obtain ps where "k = colon_join ps" "\<forall>p\<in>set ps. colon_free p" "ps \<noteq> []"
    "hd ps \<in> {''task_charge'', ''task_release_debt'', ''task_release_expiry'', ''claim'', ''claim_debt''}"
    using task_key_parts [OF k(3,2)] by metis
  with reversal_key_head [of ps] k(1) show False by auto
qed

lemma reversal_key_not_counter:
  assumes "reversal_key k" "uuid_ok i" "w \<in> {''expiry'', ''debt_repayment''}"
  shows "k \<noteq> colon_join [w, i, dec n]"
proof
  assume "k = colon_join [w, i, dec n]"
  with assms have "hd [w, i, dec n] = ''clawback''"
    by (intro reversal_key_head) (auto simp: uuid_ok_def)
  with assms(3) show False by auto
qed

lemma repayment_outside: "repayment_of a v \<Longrightarrow> outside v"
  using task_key_not_counter by (fastforce simp: repayment_of_def outside_def)

text \<open>What a row of a reversal is.\<close>

definition reversal_row :: "uuid \<Rightarrow> credit_ledger_values \<Rightarrow> bool" where
  "reversal_row a v \<longleftrightarrow> led_account v = a \<and> led_reservation v = None \<and> reversal_key (idempotency_key v)"

lemma reversal_outside: "reversal_row a v \<Longrightarrow> outside v"
  by (simp add: reversal_row_def outside_def reversal_key_not_task)

lemma reversal_hygiene:
  assumes "hygiene db" "reversal_row a v"
  shows "hygiene (apply_row v db)"
proof -
  have "counter_keys (apply_row v db) w k" if "counter_keys db w k" "w \<in> {''expiry'', ''debt_repayment''}" for w k
    using that reversal_key_not_counter [of "idempotency_key v"] assms(2)
    by (intro counter_keys_apply) (auto simp: reversal_row_def)
  with assms(1) show ?thesis by (simp add: hygiene_def)
qed

subsection \<open>What the account stands at\<close>

text \<open>Credit in lots less debt, as the ledger records it: repaying debt from a lot leaves it as it is.\<close>

definition account_balance :: "db \<Rightarrow> uuid \<Rightarrow> int" where
  "account_balance db a = sum_by (\<lambda>r. lot_delta r - debt_delta r) (filter (\<lambda>r. led_account r = a) (credit_ledger db))"

lemma account_balance_apply [simp]:
  "account_balance (apply_row v db) a = account_balance db a + (if led_account v = a then lot_delta v - debt_delta v else 0)"
  by (simp add: account_balance_def)

text \<open>The keys a reversal writes under.\<close>

lemma starts_with_iff: "starts_with s p \<longleftrightarrow> (\<exists>r. s = p @ r)"
  unfolding starts_with_def by (metis append_eq_conv_conj)

lemma clawback_key_append: "clawback_key input s = clawback_key input [] @ s"
  by (simp add: clawback_key_def clawbackLedgerKey_def split: option.splits)

lemma clawback_key_inject [simp]: "clawback_key input x = clawback_key input y \<longleftrightarrow> x = y"
  using clawback_key_append [of input x] clawback_key_append [of input y] by simp

definition keys_fit :: "uuid \<Rightarrow> 'a ClawBackInput_scheme \<Rightarrow> db \<Rightarrow> bool" where
  "keys_fit a input db \<longleftrightarrow>
     starts_with (clawback_key input []) ''clawback:'' \<and> length (clawback_key input []) \<le> 164 \<and>
     \<not> list_ex (\<lambda>r. led_account r = a \<and> starts_with (idempotency_key r) (clawback_key input [])) (credit_ledger db)"

lemma reversal_clawback_key: "keys_fit a input db \<Longrightarrow> reversal_key (clawback_key input s)"
  unfolding clawback_key_append [of input s] keys_fit_def reversal_key_def starts_with_iff by auto

lemma clawback_key_free: "keys_fit a input db \<Longrightarrow> \<not> key_taken db a (clawback_key input s)"
  unfolding clawback_key_append [of input s] by (auto simp: keys_fit_def key_taken_def list_ex_iff starts_with_iff)

lemma clawback_key_length:
  assumes "keys_fit a input db" "length s \<le> 36"
  shows "checkedKey (clawback_key input s) = Inr (clawback_key input s)"
proof -
  have "1 \<le> length (clawback_key input [])" using assms(1) by (auto simp: keys_fit_def starts_with_iff)
  with assms show ?thesis
    unfolding clawback_key_append [of input s] by (simp add: keys_fit_def checkedKey_Inr)
qed

subsection \<open>The rows a reversal writes\<close>

text \<open>A lot a reversal may take an amount from: of the account, with that much free credit.\<close>

definition may_give :: "db \<Rightarrow> uuid \<Rightarrow> uuid \<times> int \<Rightarrow> bool" where
  "may_give db a t \<longleftrightarrow> 0 < snd t \<and> snd t \<le> MAX_SAFE \<and> uuid_ok (fst t) \<and>
     (\<exists>l. find_lot db (fst t) = Some l \<and> lot_account l = a \<and> snd t \<le> free_micro l)"

definition reversal_written :: "uuid \<Rightarrow> int \<Rightarrow> int \<Rightarrow> nat \<Rightarrow> db \<Rightarrow> db \<Rightarrow> bool" where
  "reversal_written a taken debt n db d \<longleftrightarrow>
     db_inv d \<and> hygiene d \<and> ledger_moves (reversal_row a) db d \<and> find_account d a \<noteq> None \<and>
     account_debt d a = account_debt db a + debt \<and>
     account_balance d a = account_balance db a - taken - debt \<and> ledger_seq d \<le> ledger_seq db + n"

lemma written_refl: "db_inv d \<Longrightarrow> hygiene d \<Longrightarrow> find_account d a \<noteq> None \<Longrightarrow> reversal_written a 0 0 0 d d"
  by (simp add: reversal_written_def)

lemma written_trans:
  "reversal_written a x y m db d \<Longrightarrow> reversal_written a x' y' n d e \<Longrightarrow> reversal_written a (x + x') (y + y') (m + n) db e"
  unfolding reversal_written_def using ledger_moves_trans by fastforce

lemma take_entry_row:
  assumes "keys_fit a input d" "0 < x" "x \<le> MAX_SAFE" "uuid_ok i"
  obtains v where "creditLedgerRowFor (take_entry a input (i, x)) = Inr v" "led_lot v = Some i" "lot_delta v = - x"
    "\<not> funding_kind (led_kind v)" "debt_delta v = 0" "led_reservation v = None" "led_account v = a"
    "idempotency_key v = clawback_key input i"
proof -
  let ?k = "case ci_ledgerKind input of TakesForPlanChange \<Rightarrow> ProrationClawback | TakesForReversal \<Rightarrow> RefundClawback"
  have key: "checkedKey (clawback_key input i) = Inr (clawback_key input i)"
    using clawback_key_length [OF assms(1)] assms(4) by (simp add: uuid_ok_def)
  have "creditLedgerRowFor (take_entry a input (i, x)) =
      Inr (common_values (take_entry a input (i, x)) (Some (ci_source input)) ?k (Some i) (- x) 0)"
    using key positive_safe [OF assms(2,3)]
    by (simp add: creditLedgerRowFor_def take_entry_def split: clawback_kind.split)
  then show thesis
    by (rule that) (simp_all add: take_entry_def funding_kind_def split: clawback_kind.split)
qed

lemma take_step:
  assumes "db_inv d" "hygiene d" "keys_fit a input db" "\<not> key_taken d a (clawback_key input i)"
    and "find_account d a \<noteq> None" "may_give d a (i, x)"
  obtains v y where "append_ledger (take_entry a input (i, x)) d = Inr (y, apply_row v d)"
    "reversal_written a x 0 1 d (apply_row v d)" "led_lot v = Some i" "idempotency_key v = clawback_key input i"
    "led_account v = a"
proof -
  from assms(6) obtain l where l: "find_lot d i = Some l" "lot_account l = a" "x \<le> free_micro l"
    and x: "0 < x" "x \<le> MAX_SAFE" "uuid_ok i" by (auto simp: may_give_def)
  obtain v where v: "creditLedgerRowFor (take_entry a input (i, x)) = Inr v" "led_lot v = Some i" "lot_delta v = - x"
    "\<not> funding_kind (led_kind v)" "debt_delta v = 0" "led_reservation v = None" "led_account v = a"
    "idempotency_key v = clawback_key input i" by (rule take_entry_row [OF assms(3) x])
  have e: "entry_account (take_entry a input (i, x)) = a" "entry_key (take_entry a input (i, x)) = clawback_key input i"
    by (simp_all add: take_entry_def)
  note step = take_effect [OF assms(1) v(1,2,3,4) _ x(1) l(3,1), of 0, unfolded e]
  have can: "can_apply v d" and run: "append_ledger (take_entry a input (i, x)) d = Inr ((True, new_ledger_row v d), apply_row v d)"
    using step v(5) l(2) assms(4,5) debt_nonneg [OF assms(1), of a] by simp_all
  have row: "reversal_row a v" using v(6,7,8) reversal_clawback_key [OF assms(3)] by (simp add: reversal_row_def)
  have "reversal_written a x 0 1 d (apply_row v d)"
    unfolding reversal_written_def
    using apply_db_inv [OF assms(1) can] reversal_hygiene [OF assms(2) row] ledger_moves_one [of "reversal_row a", OF row] assms(5) v(3,5,7) by simp
  with run v(2,7,8) show thesis using that by blast
qed

abbreviation run_takes :: "uuid \<Rightarrow> 'a ClawBackInput_scheme \<Rightarrow> db \<Rightarrow> (uuid \<times> int) list \<Rightarrow> db result" where
  "run_takes a input \<equiv> foldr_result (\<lambda>d t. rbind (append_ledger (take_entry a input t) d) (\<lambda>(_, d'). Inr d'))"

lemma takes_effect:
  assumes "db_inv d" "hygiene d" "find_account d a \<noteq> None" "keys_fit a input db"
    and "\<And>t. t \<in> set ts \<Longrightarrow> may_give d a t \<and> \<not> key_taken d a (clawback_key input (fst t))" "distinct (map fst ts)"
  shows "\<exists>e. run_takes a input d ts = Inr e \<and> reversal_written a (sum_by snd ts) 0 (length ts) d e \<and>
    (\<forall>k. key_taken e a k \<longrightarrow> key_taken d a k \<or> k \<in> clawback_key input ` fst ` set ts)"
  using assms
proof (induction ts arbitrary: d)
  case Nil
  then show ?case by (simp add: written_refl)
next
  case (Cons t ts)
  obtain i x where t: "t = (i, x)" by (cases t)
  have "may_give d a (i, x)" "\<not> key_taken d a (clawback_key input i)" using Cons.prems(5) [of t] t by auto
  then obtain v y where run: "append_ledger (take_entry a input (i, x)) d = Inr (y, apply_row v d)"
    "reversal_written a x 0 1 d (apply_row v d)" "led_lot v = Some i" "idempotency_key v = clawback_key input i"
    "led_account v = a"
    using take_step [OF Cons.prems(1,2,4) _ Cons.prems(3)] by metis
  let ?d = "apply_row v d"
  have keys: "key_taken ?d a k \<longleftrightarrow> key_taken d a k \<or> k = clawback_key input i" for k
    using run(4,5) by (auto simp: key_taken_def)
  have rest: "may_give ?d a q \<and> \<not> key_taken ?d a (clawback_key input (fst q))" if "q \<in> set ts" for q
  proof -
    have "fst q \<noteq> i" using Cons.prems(6) that t by force
    with Cons.prems(5) [of q] that run(3) keys show ?thesis by (auto simp: may_give_def)
  qed
  have d: "db_inv ?d" "hygiene ?d" "find_account ?d a \<noteq> None" using run(2) by (simp_all add: reversal_written_def)
  obtain e where e: "run_takes a input ?d ts = Inr e" "reversal_written a (sum_by snd ts) 0 (length ts) ?d e"
    "\<forall>k. key_taken e a k \<longrightarrow> key_taken ?d a k \<or> k \<in> clawback_key input ` fst ` set ts"
    using Cons.IH [OF d Cons.prems(4) rest] Cons.prems(6) by auto
  have "run_takes a input d (t # ts) = Inr e" using run(1) e(1) t by simp
  moreover have "reversal_written a (sum_by snd (t # ts)) 0 (length (t # ts)) d e"
    using written_trans [OF run(2) e(2)] t by simp
  moreover have "\<forall>k. key_taken e a k \<longrightarrow> key_taken d a k \<or> k \<in> clawback_key input ` fst ` set (t # ts)"
    using e(3) keys t by auto
  ultimately show ?case by blast
qed

text \<open>The debt row, when there is any.\<close>

lemma debt_step:
  assumes "db_inv d" "hygiene d" "find_account d a \<noteq> None" "keys_fit a input db"
    and "\<not> key_taken d a (clawback_key input ''debt'')" "0 \<le> x" "x \<le> MAX_SAFE" "ci_debtReason input \<in> set AiDebtReasons"
  shows "\<exists>e. append_if (x > 0) (debt_entry a input x) d = Inr e \<and> reversal_written a 0 x 1 d e"
proof (cases "x > 0")
  case False
  with assms have "reversal_written a 0 x 1 d d" by (simp add: reversal_written_def)
  with False show ?thesis by (simp add: append_if_def)
next
  case True
  have key: "checkedKey (clawback_key input ''debt'') = Inr (clawback_key input ''debt'')"
    using clawback_key_length [OF assms(4)] by simp
  let ?v = "common_values (debt_entry a input x) (Some (ci_debtReason input)) DebtIncurred None 0 x"
  have v: "creditLedgerRowFor (debt_entry a input x) = Inr ?v"
    using key positive_safe [OF True assms(7)] assms(8)
    by (simp add: creditLedgerRowFor_def debt_entry_def member_of_def)
  have parts: "led_account ?v = a" "led_lot ?v = None" "lot_delta ?v = 0" "debt_delta ?v = x" "led_kind ?v = DebtIncurred"
    "led_reservation ?v = None" "idempotency_key ?v = clawback_key input ''debt''"
    by (simp_all add: debt_entry_def)
  obtain c where c: "find_account d a = Some c" using assms(3) by blast
  then have "0 \<le> debt_micro c" using debt_nonneg [OF assms(1), of a] by (simp add: account_debt_def)
  then have can: "can_apply ?v d"
    using row_for_facts(1) [OF v] parts c assms(5) True by (simp add: can_apply_def)
  have row: "reversal_row a ?v" using parts reversal_clawback_key [OF assms(4)] by (simp add: reversal_row_def)
  have "reversal_written a 0 x 1 d (apply_row ?v d)"
    unfolding reversal_written_def
    using apply_db_inv [OF assms(1) can] reversal_hygiene [OF assms(2) row]
      ledger_moves_one [of "reversal_row a", OF row] assms(3) parts by simp
  with append_applies [OF v can] True show ?thesis by (simp add: append_if_def)
qed

subsection \<open>The record\<close>

lemma claims_sys_inv:
  assumes "sys_inv d" "claims_ok (d\<lparr>credit_clawbacks := bs\<rparr>)"
  shows "sys_inv (d\<lparr>credit_clawbacks := bs\<rparr>)"
proof -
  let ?e = "d\<lparr>credit_clawbacks := bs\<rparr>"
  note ok = sys_invD [OF assms(1)]
  have "credit_check_reservation ?e q = credit_check_reservation d q" for q by (rule check_cong) simp_all
  then have "tasks_balanced ?e" using ok(5) by (simp add: tasks_balanced_def)
  moreover have "task_rows_ok ?e" using ok(3) by (simp add: task_rows_ok_def)
  moreover have "db_inv ?e" "hygiene ?e" using ok(1,2) db_inv_cong [of ?e d] hygiene_cong [of ?e d] by simp_all
  ultimately show ?thesis using ok(4) assms(2) by (simp add: sys_inv_def task_inv_def slots_ok_def)
qed

definition safe_amount :: "int \<Rightarrow> bool" where
  "safe_amount x \<longleftrightarrow> 0 \<le> x \<and> x \<le> MAX_SAFE"

lemma exact_amount [simp]: "safe_amount x \<Longrightarrow> exactMicro x = Inr x"
  by (simp add: safe_amount_def safe_int_def)

definition optional_ok :: "int option \<Rightarrow> bool" where
  "optional_ok v \<longleftrightarrow> (case v of None \<Rightarrow> True | Some x \<Rightarrow> safe_amount x)"

lemma optionalBigint_ok: "optional_ok v \<Longrightarrow> optionalBigint v = Inr v"
  by (auto simp: optional_ok_def optionalBigint_def safe_amount_def safe_int_def split: option.splits)

definition record_of :: "uuid \<Rightarrow> 'a NewCreditClawback_scheme \<Rightarrow> CreditClawbackRecord" where
  "record_of i v =
     \<lparr>cr_id = i, cr_account = nc_account v, cr_source = nc_source v, cr_sourceRef = nc_sourceRef v,
      cr_targetKey = nc_targetKey v, cr_state = Applied, cr_amount = Some (nc_amount v), cr_clawed = nc_clawed v,
      cr_pending = nc_pending v, cr_debt = nc_debt v\<rparr>"

definition clawback_ok :: "'a NewCreditClawback_scheme \<Rightarrow> bool" where
  "clawback_ok v \<longleftrightarrow> nc_source v \<in> set CREDIT_CLAWBACK_SOURCES \<and> nc_targetKey v \<noteq> ''unmatched'' \<and>
     0 < nc_amount v \<and> safe_amount (nc_amount v) \<and> safe_amount (nc_clawed v) \<and> safe_amount (nc_pending v) \<and>
     safe_amount (nc_debt v) \<and> optional_ok (nc_disputed v) \<and> optional_ok (nc_capSpent v) \<and> optional_ok (nc_ledgerMark v)"

lemma clawback_row_reads:
  assumes "clawback_ok v"
  shows "clawback_checks (clawback_row i t v)" "toClawbackRecord (clawback_row i t v) = Inr (record_of i v)"
proof -
  show "clawback_checks (clawback_row i t v)"
    using assms by (simp add: clawback_checks_def clawback_row_def clawback_ok_def safe_amount_def)
  have "member_of CREDIT_CLAWBACK_SOURCES (nc_source v) = Inr (nc_source v)"
    using assms by (simp add: clawback_ok_def member_of_def)
  with assms show "toClawbackRecord (clawback_row i t v) = Inr (record_of i v)"
    by (simp add: toClawbackRecord_def clawback_row_def record_of_def or_0_def clawback_ok_def)
qed

lemma insertClawback_writes:
  assumes "claims_ok d" "clawback_ok v" "uuid_ok (new_id d)" "new_id d \<notin> cb_id ` set (credit_clawbacks d)"
    and none: "find (keyed_clawback (nc_source v) (nc_sourceRef v) (nc_targetKey v)) (credit_clawbacks d) = None"
  defines "row \<equiv> clawback_row (new_id d) (db_now d) v" and "e \<equiv> d\<lparr>credit_clawbacks := credit_clawbacks d @ [clawback_row (new_id d) (db_now d) v]\<rparr>"
  shows "insertClawback new_id v d = Inr (record_of (new_id d) v, e)" "claims_ok e"
    "find (keyed_clawback (nc_source v) (nc_sourceRef v) (nc_targetKey v)) (credit_clawbacks e) = Some row"
proof -
  note reads = clawback_row_reads [OF assms(2), of "new_id d" "db_now d"]
  have fresh: "\<not> list_ex (same_clawback_key row) (credit_clawbacks d)"
    using assms(4) none by (fastforce simp: list_ex_iff same_clawback_key_def row_def clawback_row_def keyed_clawback_def find_None_iff)
  have signs: "\<not> (case nc_disputed v of None \<Rightarrow> False | Some x \<Rightarrow> x < 0)"
    using assms(2) by (auto simp: clawback_ok_def optional_ok_def safe_amount_def split: option.splits)
  have opts: "optionalBigint (nc_capSpent v) = Inr (nc_capSpent v)" "optionalBigint (nc_ledgerMark v) = Inr (nc_ledgerMark v)"
    using assms(2) by (simp_all add: clawback_ok_def optionalBigint_ok)
  show "insertClawback new_id v d = Inr (record_of (new_id d) v, e)"
    using reads fresh signs by (simp add: insertClawback_def opts Let_def e_def row_def)
  show "claims_ok e"
    using assms(1,3,4) reads(1) by (simp add: claims_ok_def e_def) (simp add: clawback_row_def)
  have "find P (xs @ [x]) = Some x" if "find P xs = None" "P x" for P and xs :: "credit_clawback list" and x
    using that by (induction xs) (auto split: if_splits)
  then show "find (keyed_clawback (nc_source v) (nc_sourceRef v) (nc_targetKey v)) (credit_clawbacks e) = Some row"
    using none by (simp add: e_def row_def keyed_clawback_def clawback_row_def)
qed

text \<open>Credit is held on an account only by its open enforced tasks.\<close>

lemma held_by_open_task:
  assumes "sys_inv db" "0 < sum_by held (filter (\<lambda>l. lot_account l = a) (credit_lots db))"
  shows "list_ex (open_enforce a) (credit_reservations db)"
proof -
  note ok = sys_invD [OF assms(1)]
  have sound: "0 \<le> held l" "held l = hold_total db (lot_id l)" if "l \<in> set (credit_lots db)" for l
    using ok(1) that unfolding inv_defs lot_bounds_def by blast+
  have "\<exists>l\<in>set (filter (\<lambda>l. lot_account l = a) (credit_lots db)). 0 < held l"
    using assms(2) by (rule sum_by_pos_iff [THEN iffD1, rotated]) (use sound(1) in simp)
  then obtain l where l: "l \<in> set (credit_lots db)" "lot_account l = a" "0 < held l" by auto
  then have "0 < hold_total db (lot_id l)" using sound(2) by simp
  then obtain h where h: "h \<in> set (credit_reservation_holds db)" "hold_lot h = lot_id l" "released_at h = None"
    unfolding hold_total_def by (metis (mono_tags, lifting) filter_empty_conv less_irrefl sum_by_simps(1))
  have "find_lot db (lot_id l) = Some l" using l(1) ok(1) by (simp add: db_inv_def find_lot_member)
  with h have account: "hold_account h = a" using ok(1) l(2) by (fastforce simp: inv_defs)
  obtain r where r: "find_reservation db (hold_reservation h) = Some r" "res_account r = hold_account h" "res_mode r = Enforce"
    using ok(3) h(1) by (auto simp: task_rows_ok_def)
  have mem: "r \<in> set (credit_reservations db)" "res_id r = hold_reservation h" using find_reservation_Some [OF r(1)] by auto
  have "res_state r = Open"
  proof (rule ccontr)
    assume "res_state r \<noteq> Open"
    then have settled: "res_state r = Settled" by (cases "res_state r") auto
    have "credit_check_reservation db (hold_reservation h)" using ok(5) mem by (auto simp: tasks_balanced_def)
    then have "\<not> list_ex (\<lambda>h. released_at h = None) (holds_of db (hold_reservation h))"
      using r(1,3) settled by (simp add: credit_check_reservation_def)
    with h show False by (auto simp: holds_of_def list_ex_iff)
  qed
  with r account mem(1) show ?thesis by (auto simp: list_ex_iff open_enforce_def)
qed

subsection \<open>A reversal as a whole\<close>

text \<open>Targets read from the tables: distinct lots of the account, with what is in them.\<close>

definition targets_read :: "uuid \<Rightarrow> db \<Rightarrow> ClawbackTargetLot list \<Rightarrow> bool" where
  "targets_read a db lots \<longleftrightarrow> distinct (map tl_lot lots) \<and>
     (\<forall>t\<in>set lots. case find_lot db (tl_lot t) of None \<Rightarrow> False
        | Some l \<Rightarrow> lot_account l = a \<and> tl_remaining t = remaining l \<and> tl_held t = held l)"

definition held_total :: "db \<Rightarrow> uuid \<Rightarrow> int" where
  "held_total db a = sum_by held (filter (\<lambda>l. lot_account l = a) (credit_lots db))"

definition reversal_ready :: "uuid \<Rightarrow> 'a ClawBackInput_scheme \<Rightarrow> ClawbackTargetLot list \<Rightarrow> db \<Rightarrow> bool" where
  "reversal_ready a input lots db \<longleftrightarrow>
     find_account db a \<noteq> None \<and> keys_fit a input db \<and> targets_read a db lots \<and>
     ci_source input \<in> set CREDIT_CLAWBACK_SOURCES \<and> ci_targetKey input \<noteq> ''unmatched'' \<and>
     ci_debtReason input \<in> set AiDebtReasons \<and> 0 < ci_amountMicro input \<and>
     account_debt db a + ci_amountMicro input \<le> MAX_SAFE \<and> held_total db a \<le> MAX_SAFE \<and> pending_total db a \<le> MAX_SAFE \<and>
     optional_ok (ci_disputedMinor input) \<and> optional_ok (ci_capSpentMicro input) \<and> optional_ok (ci_ledgerMark input) \<and>
     ledger_seq db + length lots + 1 < 10 ^ 17"

lemma drawn_pos: "p \<in> set (draw want (givers lots)) \<Longrightarrow> 0 < snd p"
proof -
  have "0 < snd q" if "q \<in> set (givers lots)" for q using that by (auto simp: givers_def)
  then show "p \<in> set (draw want (givers lots)) \<Longrightarrow> 0 < snd p"
    using draw_member [of "fst p" "snd p" want "givers lots"] by simp
qed

lemma givers_may_give:
  assumes "sys_inv db" "targets_read a db lots" "t \<in> set (draw want (givers lots))" "want \<le> MAX_SAFE"
    and "sum_by snd (draw want (givers lots)) \<le> want"
  shows "may_give db a t"
proof -
  note ok = sys_invD [OF assms(1)]
  obtain i x where t: "t = (i, x)" by (cases t)
  have pos: "0 < snd p" if "p \<in> set (givers lots)" for p using that by (auto simp: givers_def)
  obtain f where x: "0 < x" "(i, f) \<in> set (givers lots)" "x \<le> f"
    using draw_member [of i x want "givers lots"] assms(3) t pos by auto
  obtain tl where tl: "tl \<in> set lots" "tl_lot tl = i" "lot_free tl = f" using x(2) by (auto simp: givers_def)
  with assms(2) obtain l where l: "find_lot db i = Some l" "lot_account l = a" "tl_remaining tl = remaining l" "tl_held tl = held l"
    by (fastforce simp: targets_read_def split: option.splits)
  have mem: "l \<in> set (credit_lots db)" "lot_id l = i" using find_lot_Some [OF l(1)] by auto
  have "uuid_ok i" using ok(2) mem by (auto simp: hygiene_def amounts_ok_def)
  moreover have "held l \<le> remaining l" using ok(1) mem(1) unfolding inv_defs lot_bounds_def by blast
  then have "x \<le> free_micro l" using x(3) tl(3) l(3,4) by (simp add: lot_free_def free_micro_def)
  moreover have "snd t \<le> sum_by snd (draw want (givers lots))"
    by (rule sum_by_member_le [OF assms(3)]) (rule less_imp_le [OF drawn_pos])
  ultimately show ?thesis using t x(1) l(1,2) assms(4,5) by (simp add: may_give_def)
qed

lemma givers_distinct: "distinct (map tl_lot lots) \<Longrightarrow> distinct (map fst (draw want (givers lots)))"
proof -
  assume d: "distinct (map tl_lot lots)"
  obtain n where n: "map fst (draw want (givers lots)) = take n (map fst (givers lots))" using draw_keys by blast
  have "map fst (givers lots) = map tl_lot (filter (\<lambda>l. \<not> tl_returned l \<and> 0 < lot_free l) lots)"
    by (simp add: givers_def comp_def)
  then have "distinct (map fst (givers lots))" using d by (auto simp: distinct_map intro: inj_on_subset)
  with n show ?thesis by simp
qed

text \<open>The lots of a window are such targets when the reversal reads them itself.\<close>

lemma all_targets: "all_results (map (\<lambda>l. toTargetLot (g l)) ls) = Inr lots \<Longrightarrow> lots = map g ls"
  by (induction ls arbitrary: lots) (auto simp: toTargetLot_def result_simps)

lemma clawbackTargets_read:
  assumes "sys_inv db" "clawbackTargets a w refs db = Inr lots"
  shows "targets_read a db lots"
proof -
  have keys: "keys_ok db" using sys_invD(1) [OF assms(1)] by (simp add: db_inv_def)
  let ?P = "\<lambda>l. case refs of None \<Rightarrow> True | Some refs \<Rightarrow> (case lot_coverage db l of None \<Rightarrow> False | Some c \<Rightarrow> c \<in> set refs)"
  have lots: "lots = map (target_row db) (filter ?P (window_lots a w db))"
    using assms(2) unfolding clawbackTargets_def by (rule all_targets)
  have "distinct (map lot_id (credit_lots db))" using keys by (simp add: keys_ok_def)
  then have "distinct (map lot_id (filter ?P (window_lots a w db)))"
    by (auto simp: window_lots_def distinct_map rev_map [symmetric] intro: inj_on_subset)
  moreover have "tl_lot \<circ> target_row db = lot_id" by (simp add: fun_eq_iff target_row_def)
  moreover have "find_lot db (lot_id l) = Some l \<and> lot_account l = a" if "l \<in> set (window_lots a w db)" for l
    using that find_lot_member [OF keys] by (auto simp: window_lots_def)
  ultimately show ?thesis by (auto simp: targets_read_def lots target_row_def)
qed

lemma claimable_bounds: "0 \<le> claimable_credit c h s" "claimable_credit c h s \<le> max 0 (h - s)"
  by (auto simp: claimable_credit_def Let_def split: option.splits)

text \<open>The rows of a repayment leave the balance alone.\<close>

lemma repayments_balance:
  assumes m: "ledger_moves (repayment_of a) d e" and e: "db_inv e"
  shows "account_balance e b = account_balance d b"
proof -
  obtain rows where rows: "credit_ledger e = credit_ledger d @ rows"
    "\<And>r. r \<in> set rows \<Longrightarrow> \<exists>v d. repayment_of a v \<and> r = new_ledger_row v d" by (rule ledger_moves_rows [OF m]) blast
  have "lot_delta r - debt_delta r = 0" if "r \<in> set rows" for r
  proof -
    have "led_kind r = DebtRepayment" using rows(2) [OF that] by (auto simp: repayment_of_def)
    moreover have "ledger_row_checks r" using e that rows(1) by (simp add: db_inv_def rows_ok_def)
    ultimately show ?thesis by (simp add: ledger_row_checks_def funding_kind_def)
  qed
  then have "sum_by (\<lambda>r. lot_delta r - debt_delta r) (filter (\<lambda>r. led_account r = b) rows) = 0"
    by (intro sum_by_zero) simp
  then show ?thesis by (simp add: account_balance_def rows(1))
qed

lemma pending_nonneg: "0 \<le> pending_total db a"
  unfolding pending_total_def by (rule sum_by_nonneg) (simp add: standing_claim_def)

lemma clawBack_rows:
  assumes inv: "sys_inv db" and ready: "reversal_ready a input lots db"
    and plan: "planClawbackOfAmount lots (ci_amountMicro input) c = Inr plan" "0 \<le> c" "c \<le> max 0 (held_total db a - pending_total db a)"
  obtains d1 d2 where "run_takes a input db (ca_takes plan) = Inr d1"
    "append_if (ca_debt plan > 0) (debt_entry a input (ca_debt plan)) d1 = Inr d2"
    "reversal_written a (ca_clawed plan) (ca_debt plan) (length lots + 1) db d2" "clawback_ok (new_clawback a input plan)"
    "ca_clawed plan + ca_pending plan + ca_debt plan = min (ci_amountMicro input) (sum_by everHeld lots)"
    "0 \<le> ca_pending plan" "ca_pending plan \<le> c" "0 \<le> ca_debt plan" "ca_debt plan \<le> ci_amountMicro input"
proof -
  note r = ready [unfolded reversal_ready_def] and ok = sys_invD [OF inv]
  define want where "want = min (ci_amountMicro input) (sum_by everHeld lots)"
  have amount: "safe_int (ci_amountMicro input)" "safe_int c"
    using r plan(2,3) debt_nonneg [OF ok(1), of a] pending_nonneg [of db a] by (auto simp: safe_int_def)
  have pos: "0 < ci_amountMicro input" and read: "targets_read a db lots" and keys: "keys_fit a input db"
    and acct: "find_account db a \<noteq> None" and reason: "ci_debtReason input \<in> set AiDebtReasons" using r by blast+
  have p: "ca_takes plan = draw want (givers lots)" "ca_clawed plan = sum_by snd (ca_takes plan)"
    "ca_clawed plan + ca_pending plan + ca_debt plan = want" "ca_pending plan = min (want - ca_clawed plan) c"
    "0 \<le> ca_pending plan" "0 \<le> ca_debt plan"
    using plan_lands [OF amount(1) pos amount(2) plan(2), of lots] unfolding plan(1) sum.inject Let_def want_def by blast+
  have clawed: "0 \<le> ca_clawed plan"
    unfolding p(2) p(1) by (rule sum_by_nonneg) (rule less_imp_le [OF drawn_pos])
  have want: "want \<le> ci_amountMicro input" "ci_amountMicro input \<le> MAX_SAFE"
    using r debt_nonneg [OF ok(1), of a] by (auto simp: want_def)
  have le: "ca_clawed plan \<le> want" "ca_pending plan \<le> want" "ca_debt plan \<le> want" using p(3,5,6) clawed by auto
  have give: "may_give db a t \<and> \<not> key_taken db a (clawback_key input (fst t))" if "t \<in> set (ca_takes plan)" for t
    using givers_may_give [OF inv read that [unfolded p(1)]] want le(1) p(1,2) clawback_key_free [OF keys] by simp
  have dist: "distinct (map fst (ca_takes plan))" unfolding p(1) by (rule givers_distinct) (use read in \<open>simp add: targets_read_def\<close>)
  obtain d1 where d1: "run_takes a input db (ca_takes plan) = Inr d1"
    "reversal_written a (ca_clawed plan) 0 (length (ca_takes plan)) db d1"
    "\<forall>k. key_taken d1 a k \<longrightarrow> key_taken db a k \<or> k \<in> clawback_key input ` fst ` set (ca_takes plan)"
    using takes_effect [OF ok(1,2) acct keys give dist] p(2) by auto
  have sound: "db_inv d1" "hygiene d1" "find_account d1 a \<noteq> None" using d1(2) by (simp_all add: reversal_written_def)
  have "\<not> key_taken d1 a (clawback_key input ''debt'')"
  proof
    assume "key_taken d1 a (clawback_key input ''debt'')"
    then have "clawback_key input ''debt'' \<in> clawback_key input ` fst ` set (ca_takes plan)"
      using d1(3) clawback_key_free [OF keys] by blast
    then have "''debt'' \<in> fst ` set (ca_takes plan)" by force
    then have "uuid_ok ''debt''" using give by (auto simp: may_give_def)
    then show False by (simp add: uuid_ok_def)
  qed
  then obtain d2 where d2: "append_if (ca_debt plan > 0) (debt_entry a input (ca_debt plan)) d1 = Inr d2"
    "reversal_written a 0 (ca_debt plan) 1 d1 d2"
    using debt_step [OF sound keys _ p(6) _ reason] le want by auto
  obtain n where n: "map fst (draw want (givers lots)) = take n (map fst (givers lots))" using draw_keys by blast
  have "length (ca_takes plan) \<le> length (givers lots)" using arg_cong [OF n, of length] by (simp add: p(1))
  also have "\<dots> \<le> length lots" by (simp add: givers_def)
  finally have "length (ca_takes plan) \<le> length lots" .
  then have "reversal_written a (ca_clawed plan) (ca_debt plan) (length lots + 1) db d2"
    using written_trans [OF d1(2) d2(2)] by (simp add: reversal_written_def)
  moreover have "clawback_ok (new_clawback a input plan)"
    using r want le p(5,6) clawed by (auto simp: clawback_ok_def new_clawback_def safe_amount_def)
  ultimately show thesis
    using that [OF d1(1) d2(1)] p(3-6) le want by (simp add: want_def)
qed

text \<open>Debt repaid afterwards, when the caller asks for it.\<close>

lemma settle_after:
  assumes "sys_inv d" "ledger_seq d < 10 ^ 17" "account_debt d a \<le> MAX_SAFE"
  obtains paid e where "(if b then settleDebtFromFree a d else Inr ([], d)) = Inr (paid, e)" "sys_inv e"
    "credit_clawbacks e = credit_clawbacks d" "credit_reservations e = credit_reservations d"
    "account_balance e a = account_balance d a" "b \<longrightarrow> credit_check_debt_vs_free e a"
proof (cases b)
  case False
  with assms(1) that show thesis by simp
next
  case True
  note ok = sys_invD [OF assms(1)]
  obtain paid e where e: "settleDebtFromFree a d = Inr (paid, e)" "db_inv e" "hygiene e" "ledger_moves (repayment_of a) d e"
    "account_debt e a = account_debt d a - sum_by snd paid" "free_credit e a = free_credit d a - sum_by snd paid"
    "sum_by snd paid = min (account_debt d a) (free_credit d a)"
    using settle_debt_effect [OF ok(1,2) assms(2,3)] by blast
  have m: "ledger_moves outside d e" using e(4) repayment_outside by (rule ledger_moves_mono)
  show thesis
  proof (rule that [of paid e])
    show "sys_inv e" by (rule outside_sys_inv [OF m assms(1) e(2,3)])
    show "account_balance e a = account_balance d a" by (rule repayments_balance [OF e(4,2)])
    show "b \<longrightarrow> credit_check_debt_vs_free e a" using e(5-7) by (auto simp: credit_check_debt_vs_free_def min_def)
  qed (use True e(1) ledger_moves_frame [OF e(4)] in simp_all)
qed

lemma backed_claims:
  assumes "claims_backed db" "credit_reservations e = credit_reservations db" "credit_clawbacks e = credit_clawbacks db @ [row]"
    and "0 < cb_pending row \<Longrightarrow> cb_state row = Applied \<and> list_ex (open_enforce (cb_account row)) (credit_reservations db)"
  shows "claims_backed e"
  using assms by (auto simp: claims_backed_def)

text \<open>What it reads before it writes.\<close>

lemma reversal_reads:
  assumes inv: "sys_inv db" and ready: "reversal_ready a input lots db"
  defines "c \<equiv> claimable_credit (ci_claimableMicro input) (held_total db a) (pending_total db a)"
  obtains plan where "heldMicro a db = Inr (held_total db a)" "pendingClaimTotalMicro a db = Inr (pending_total db a)"
    "planClawbackOfAmount lots (ci_amountMicro input) c = Inr plan" "0 \<le> c" "c \<le> max 0 (held_total db a - pending_total db a)"
proof -
  have sizes: "held_total db a \<le> MAX_SAFE" "pending_total db a \<le> MAX_SAFE" "0 < ci_amountMicro input"
    "account_debt db a + ci_amountMicro input \<le> MAX_SAFE" using ready unfolding reversal_ready_def by blast+
  note inv' = sys_invD(1) [OF inv]
  have "0 \<le> held_total db a"
    unfolding held_total_def using inv' by (intro sum_by_nonneg) (auto simp: inv_defs lot_bounds_def)
  with sizes(1) have held: "heldMicro a db = Inr (held_total db a)"
    by (simp add: heldMicro_def held_total_def [symmetric] safe_int_def)
  have claims: "pendingClaimTotalMicro a db = Inr (pending_total db a)"
    using pending_nonneg [of db a] sizes(2) by (simp add: pendingClaimTotalMicro_def pending_total_def [symmetric] safe_int_def)
  have c: "0 \<le> c" "c \<le> max 0 (held_total db a - pending_total db a)" using claimable_bounds by (simp_all add: c_def)
  have "safe_int (ci_amountMicro input)" "safe_int c"
    using sizes c debt_nonneg [OF inv', of a] pending_nonneg [of db a] by (auto simp: safe_int_def)
  then obtain plan where "planClawbackOfAmount lots (ci_amountMicro input) c = Inr plan"
    using plan_lands [OF _ sizes(3) _ c(1)] by blast
  then show thesis using that held claims c by blast
qed

lemma find_same: "find (keyed_clawback (ci_source i) (ci_sourceRef i) (ci_targetKey i)) =
    find (keyed_clawback (nc_source (new_clawback a i p)) (nc_sourceRef (new_clawback a i p)) (nc_targetKey (new_clawback a i p)))"
  by (simp add: new_clawback_def)

definition unrecorded :: "'a ClawBackInput_scheme \<Rightarrow> db \<Rightarrow> bool" where
  "unrecorded input db \<longleftrightarrow>
     find (keyed_clawback (ci_source input) (ci_sourceRef input) (ci_targetKey input)) (credit_clawbacks db) = None"

text \<open>Every id drawn is a uuid no clawback of the state has yet.\<close>

definition fresh_ids :: "(db \<Rightarrow> uuid) \<Rightarrow> db \<Rightarrow> bool" where
  "fresh_ids new_id db \<longleftrightarrow> (\<forall>d. uuid_ok (new_id d) \<and> new_id d \<notin> cb_id ` set (credit_clawbacks db))"

text \<open>Its own rows and record, up to the repayment of debt.\<close>

lemma reversal_recorded:
  assumes inv: "sys_inv db" and ready: "reversal_ready a input lots db" and new: "unrecorded input db" and ids: "fresh_ids new_id db"
    and d2: "reversal_written a x y (length lots + 1) db d" and v: "clawback_ok (new_clawback a input plan)"
    and y: "y \<le> ci_amountMicro input"
  defines "row \<equiv> clawback_row (new_id d) (db_now d) (new_clawback a input plan)"
  obtains e where "insertClawback new_id (new_clawback a input plan) d = Inr (record_of (new_id d) (new_clawback a input plan), e)"
    "sys_inv e" "find (keyed_clawback (ci_source input) (ci_sourceRef input) (ci_targetKey input)) (credit_clawbacks e) = Some row"
    "credit_clawbacks e = credit_clawbacks db @ [row]" "credit_reservations e = credit_reservations db"
    "account_balance e a = account_balance db a - x - y" "ledger_seq e < 10 ^ 17" "account_debt e a \<le> MAX_SAFE"
proof -
  have w: "db_inv d" "hygiene d" "ledger_moves (reversal_row a) db d" "account_debt d a = account_debt db a + y"
    "account_balance d a = account_balance db a - x - y" "ledger_seq d \<le> ledger_seq db + (length lots + 1)"
    using d2 by (simp_all add: reversal_written_def)
  have "ledger_moves outside db d" using w(3) reversal_outside by (rule ledger_moves_mono)
  then have sys: "sys_inv d" by (rule outside_sys_inv [OF _ inv w(1,2)])
  note frame = ledger_moves_frame [OF w(3)]
  define e where "e = d\<lparr>credit_clawbacks := credit_clawbacks d @ [row]\<rparr>"
  let ?v = "new_clawback a input plan"
  have none: "find (keyed_clawback (nc_source ?v) (nc_sourceRef ?v) (nc_targetKey ?v)) (credit_clawbacks d) = None"
    using new by (simp only: unrecorded_def frame(5) find_same [symmetric])
  have id: "uuid_ok (new_id d)" "new_id d \<notin> cb_id ` set (credit_clawbacks d)" using ids by (simp_all add: fresh_ids_def frame(5))
  note ins = insertClawback_writes [where new_id = new_id, OF sys_invD(6) [OF sys] v id none, folded row_def, folded e_def]
  have "sys_inv e" using claims_sys_inv [OF sys] ins(2) by (simp add: e_def)
  moreover have "account_debt db a + ci_amountMicro input \<le> MAX_SAFE" "ledger_seq db + length lots + 1 < 10 ^ 17"
    using ready unfolding reversal_ready_def by blast+
  ultimately show thesis
    using that [OF ins(1)] ins(3) find_same [of input a plan] frame(2,5) w(4-6) y
    by (simp add: e_def account_debt_def account_balance_def)
qed

text \<open>C13: a reversal on sound tables, with its keys unused and its targets read from them, goes through and is charged
  exactly once. What it took, claimed and made debt add up to the amount asked, as far as its lots
  ever held it; what the account stands at (credit in lots less debt) falls by what it took and made debt and by
  nothing else; its claim is laid only on held credit no other claim stands over, and only while a
  task that will answer it is open. The tables stay sound, debt and free credit do not stand side by
  side after it settles, and the same reversal run again reads its record back and changes nothing.\<close>
theorem clawBack_charges_exactly_once:
  assumes inv: "sys_inv db" and lots: "reversal_lots a input db = Inr lots" and ready: "reversal_ready a input lots db"
    and new: "unrecorded input db" and ids: "fresh_ids new_id db"
  shows "\<exists>r e. clawBack new_id a input db = Inr (r, e) \<and> sys_inv e \<and> (claims_backed db \<longrightarrow> claims_backed e) \<and>
    cr_clawed r + cr_pending r + cr_debt r = min (ci_amountMicro input) (sum_by everHeld lots) \<and>
    account_balance e a = account_balance db a - cr_clawed r - cr_debt r \<and>
    pending_total e a = pending_total db a + cr_pending r \<and>
    pending_total e a \<le> max (pending_total db a) (held_total db a) \<and>
    (ci_settle input \<longrightarrow> credit_check_debt_vs_free e a) \<and>
    clawBack new_id a input e = Inr (r, e)"
proof -
  obtain plan where reads: "heldMicro a db = Inr (held_total db a)" "pendingClaimTotalMicro a db = Inr (pending_total db a)"
    and plan: "planClawbackOfAmount lots (ci_amountMicro input)
        (claimable_credit (ci_claimableMicro input) (held_total db a) (pending_total db a)) = Inr plan"
      "0 \<le> claimable_credit (ci_claimableMicro input) (held_total db a) (pending_total db a)"
      "claimable_credit (ci_claimableMicro input) (held_total db a) (pending_total db a) \<le> max 0 (held_total db a - pending_total db a)"
    by (rule reversal_reads [OF inv ready])
  obtain d1 d2 where rows: "run_takes a input db (ca_takes plan) = Inr d1"
    "append_if (ca_debt plan > 0) (debt_entry a input (ca_debt plan)) d1 = Inr d2"
    "reversal_written a (ca_clawed plan) (ca_debt plan) (length lots + 1) db d2" "clawback_ok (new_clawback a input plan)"
    "ca_clawed plan + ca_pending plan + ca_debt plan = min (ci_amountMicro input) (sum_by everHeld lots)"
    "0 \<le> ca_pending plan" "ca_pending plan \<le> claimable_credit (ci_claimableMicro input) (held_total db a) (pending_total db a)"
    "0 \<le> ca_debt plan" "ca_debt plan \<le> ci_amountMicro input"
    by (rule clawBack_rows [OF inv ready plan])
  let ?v = "new_clawback a input plan"
  let ?row = "clawback_row (new_id d2) (db_now d2) ?v" and ?r = "record_of (new_id d2) ?v"
  obtain d3 where d3: "insertClawback new_id ?v d2 = Inr (?r, d3)" "sys_inv d3"
    "find (keyed_clawback (ci_source input) (ci_sourceRef input) (ci_targetKey input)) (credit_clawbacks d3) = Some ?row"
    "credit_clawbacks d3 = credit_clawbacks db @ [?row]" "credit_reservations d3 = credit_reservations db"
    "account_balance d3 a = account_balance db a - ca_clawed plan - ca_debt plan" "ledger_seq d3 < 10 ^ 17"
    "account_debt d3 a \<le> MAX_SAFE"
    by (rule reversal_recorded [OF inv ready new ids rows(3,4,9)])
  obtain paid e where e: "(if ci_settle input then settleDebtFromFree a d3 else Inr ([], d3)) = Inr (paid, e)" "sys_inv e"
    "credit_clawbacks e = credit_clawbacks d3" "credit_reservations e = credit_reservations d3"
    "account_balance e a = account_balance d3 a" "ci_settle input \<longrightarrow> credit_check_debt_vs_free e a"
    by (rule settle_after [OF d3(2,7,8)])
  have parts: "cr_clawed ?r = ca_clawed plan" "cr_pending ?r = ca_pending plan" "cr_debt ?r = ca_debt plan"
    "cb_pending ?row = ca_pending plan" "cb_account ?row = a" "cb_state ?row = Applied"
    by (simp_all add: record_of_def clawback_row_def new_clawback_def)
  have bs: "credit_clawbacks e = credit_clawbacks db @ [?row]" "credit_reservations e = credit_reservations db"
    using e(3,4) d3(4,5) by simp_all
  have pending: "pending_total e a = pending_total db a + ca_pending plan"
    using rows(6) parts by (simp add: pending_total_def bs standing_claim_def)
  have backed: "claims_backed e" if "claims_backed db"
    using backed_claims [OF that bs(2,1)] held_by_open_task [OF inv, of a] parts rows(7) plan(3) pending_nonneg [of db a]
    by (fastforce simp: held_total_def)
  have "clawBack new_id a input db = Inr (?r, e)"
    using plan(1) rows(1,2) d3(1) e(1) new unfolding clawBack_def findClawback_def unrecorded_def by (simp add: lots reads)
  moreover have "clawBack new_id a input e = Inr (?r, e)"
    using d3(3) clawback_row_reads(2) [OF rows(4)] by (simp add: clawBack_def findClawback_def e(3))
  moreover have "pending_total e a \<le> max (pending_total db a) (held_total db a)"
    using pending rows(7) plan(3) by linarith
  ultimately show ?thesis using e(2,5,6) backed parts rows(5) d3(6) pending by auto
qed

definition example_reversal :: ClawBackInput where
  "example_reversal =
     \<lparr>ci_source = ''stripe_refund'', ci_sourceRef = ''ch_1:250'', ci_targetKey = unitTargetKey ''w1'' ''in_1'', ci_windowId = ''w1'',
      ci_amountMicro = 2500000, ci_ledgerKind = TakesForReversal, ci_debtReason = ''payment_reversed'',
      ci_ledgerKeyPrefix = None, ci_targets = None, ci_disputedMinor = None, ci_settle = True, ci_claimableMicro = None,
      ci_capSpentMicro = None, ci_ledgerMark = Some 1\<rparr>"

definition example_targets :: "ClawbackTargetLot list" where
  "example_targets = [\<lparr>tl_lot = example_lot, tl_granted = 2000000, tl_expired = 0, tl_remaining = 2000000, tl_held = 1500000,
     tl_returned = False\<rparr>]"

theorem clawBack_charges_exactly_once_witness:
  "\<exists>r e. clawBack example_new_id example_account example_reversal (example_task_db Enforce 100) = Inr (r, e) \<and> sys_inv e \<and>
     cr_clawed r + cr_pending r + cr_debt r = 2000000 \<and> claims_backed e \<and> pending_total e example_account \<le> 1500000 \<and>
     clawBack example_new_id example_account example_reversal e = Inr (r, e)"
proof -
  let ?db = "example_task_db Enforce 100"
  have lots: "reversal_lots example_account example_reversal ?db = Inr example_targets"
    by (simp add: reversal_lots_def clawbackTargets_def window_lots_def example_reversal_def example_targets_def task_example_simps
        target_row_def expired_of_def toTargetLot_def result_simps safe_int_def MAX_SAFE_def)
  then have read: "targets_read example_account ?db example_targets"
    by (intro clawbackTargets_read [OF example_task_sys]) (simp add: reversal_lots_def example_reversal_def)
  have held: "held_total ?db example_account = 1500000" "pending_total ?db example_account = 0"
    by (simp_all add: held_total_def pending_total_def task_example_simps)
  have "keys_fit example_account example_reversal ?db"
    by (simp add: keys_fit_def clawback_key_def clawbackLedgerKey_def example_reversal_def starts_with_def task_example_simps)
  then have ready: "reversal_ready example_account example_reversal example_targets ?db"
    using read held
    by (simp add: reversal_ready_def example_reversal_def CREDIT_CLAWBACK_SOURCES_def AiDebtReasons_def unitTargetKey_def
        optional_ok_def safe_amount_def example_targets_def find_account_def account_debt_def MAX_SAFE_def)
      (simp add: example_task_db_def fresh_account_def)
  have fresh: "unrecorded example_reversal ?db" "fresh_ids example_new_id ?db"
    using example_new_id_ok by (simp_all add: unrecorded_def fresh_ids_def example_task_db_def)
  have "claims_backed ?db" by (simp add: claims_backed_def example_task_db_def)
  moreover have "sum_by everHeld example_targets = 2000000" by (simp add: example_targets_def everHeld_def)
  ultimately show ?thesis
    using clawBack_charges_exactly_once [OF example_task_sys lots ready fresh] held by (auto simp: example_reversal_def)
qed

end
