(* ===== verification/Window_Plans.thy ===== *)
theory Window_Plans
  imports Reversal_Plans
begin

section \<open>Which coverage a window follows\<close>

text \<open>
  The pure part of \<^verbatim>\<open>services/credit-grants.ts\<close> that decides what a credit window is drawn from, which
  two levels its coverage says it should have, and what a Stripe payment bought. An instant of the
  database is a count of microseconds here: \<^verbatim>\<open>PgInstant\<close> is its fixed-width text, whose order is the
  order of time, and a proration needs the microseconds the text carries.
\<close>

type_synonym PgInstant = int

subsection \<open>The candidate a window is drawn from\<close>

text \<open>The sources of a window are ranked in the order \<^verbatim>\<open>CREDIT_WINDOW_SOURCES\<close> lists them.\<close>

definition CREDIT_WINDOW_SOURCES :: "window_source list" where
  "CREDIT_WINDOW_SOURCES = [StripeInvoice, CryptoEntitlement, PlanOverride]"

fun index_of :: "'a list \<Rightarrow> 'a \<Rightarrow> int" where
  "index_of [] x = - 1"
| "index_of (y # ys) x = (if y = x then 0 else let i = index_of ys x in if i < 0 then i else i + 1)"

definition sourceRank :: "window_source \<Rightarrow> int" where
  "sourceRank source = index_of CREDIT_WINDOW_SOURCES source"

lemma sourceRank_simps [simp]:
  "sourceRank StripeInvoice = 0" "sourceRank CryptoEntitlement = 1" "sourceRank PlanOverride = 2"
  by (simp_all add: sourceRank_def CREDIT_WINDOW_SOURCES_def)

lemma sourceRank_inj [simp]: "sourceRank a = sourceRank b \<longleftrightarrow> a = b"
  by (cases a; cases b) simp_all

record CreditWindowCandidate =
  cand_source :: window_source
  cand_sourceRef :: string
  cand_tier :: AccountTier
  cand_levelMicro :: int
  cand_undisputedLevelMicro :: "int option"
  cand_naturalStart :: PgInstant
  cand_naturalEnd :: PgInstant
  cand_windowStart :: PgInstant
  cand_windowEnd :: PgInstant

definition or_else :: "'a option \<Rightarrow> 'a \<Rightarrow> 'a" where
  "or_else x d = (case x of None \<Rightarrow> d | Some y \<Rightarrow> y)"

lemma or_else_simps [simp]: "or_else None d = d" "or_else (Some y) d = y"
  by (simp_all add: or_else_def)

definition compareCandidates :: "CreditWindowCandidate \<Rightarrow> CreditWindowCandidate \<Rightarrow> int" where
  "compareCandidates a b =
     (let la = or_else (cand_undisputedLevelMicro a) (cand_levelMicro a);
          lb = or_else (cand_undisputedLevelMicro b) (cand_levelMicro b)
      in if la \<noteq> lb then (if la > lb then -1 else 1)
         else if cand_windowStart a \<noteq> cand_windowStart b
         then (if cand_windowStart a < cand_windowStart b then -1 else 1)
         else let bySource = sourceRank (cand_source a) - sourceRank (cand_source b)
         in if bySource \<noteq> 0 then bySource
            else if cand_sourceRef a < cand_sourceRef b then -1
            else if cand_sourceRef a > cand_sourceRef b then 1 else 0)"

fun pick_best :: "CreditWindowCandidate option \<Rightarrow> CreditWindowCandidate list \<Rightarrow> CreditWindowCandidate option" where
  "pick_best best [] = best"
| "pick_best best (c # cs) =
     pick_best (case best of None \<Rightarrow> Some c | Some b \<Rightarrow> if compareCandidates c b < 0 then Some c else best) cs"

definition pickWindowCandidate :: "CreditWindowCandidate list \<Rightarrow> CreditWindowCandidate option" where
  "pickWindowCandidate candidates = pick_best None candidates"

text \<open>The comparison is the order of one key.\<close>

definition candidate_key :: "CreditWindowCandidate \<Rightarrow> int \<times> PgInstant \<times> int \<times> string" where
  "candidate_key c =
     (- or_else (cand_undisputedLevelMicro c) (cand_levelMicro c), cand_windowStart c,
      sourceRank (cand_source c), cand_sourceRef c)"

lemma compareCandidates_less: "compareCandidates a b < 0 \<longleftrightarrow> candidate_key a < candidate_key b"
  using sourceRank_inj [of "cand_source a" "cand_source b"]
  by (auto simp: compareCandidates_def candidate_key_def less_prod_def Let_def simp del: sourceRank_inj)

lemma pick_best_Some:
  "\<exists>c. pick_best (Some b) cs = Some c \<and> c \<in> set (b # cs) \<and> (\<forall>d\<in>set (b # cs). candidate_key c \<le> candidate_key d)"
proof (induction cs arbitrary: b)
  case (Cons c cs)
  show ?case
  proof (cases "candidate_key c < candidate_key b")
    case True
    then show ?thesis using Cons.IH [of c] by (auto simp: compareCandidates_less intro: order_trans less_imp_le)
  next
    case False
    then show ?thesis using Cons.IH [of b] by (auto simp: compareCandidates_less intro: order_trans)
  qed
qed simp

lemma pickWindowCandidate_least:
  "cs \<noteq> [] \<Longrightarrow> \<exists>c. pickWindowCandidate cs = Some c \<and> c \<in> set cs \<and> (\<forall>d\<in>set cs. candidate_key c \<le> candidate_key d)"
  using pick_best_Some by (cases cs) (auto simp: pickWindowCandidate_def)

text \<open>The payment a month is drawn from does not depend on the order the database returned the
  candidates in: from any two listings of the same candidates, no two of which share a source and
  reference, the same one is picked; it has the highest undisputed level of all, and starts no later
  than any other of that level.\<close>
theorem pickWindowCandidate_is_order_independent:
  assumes "mset cs = mset cs'" and "inj_on (\<lambda>c. (cand_source c, cand_sourceRef c)) (set cs)" and "cs \<noteq> []"
  shows "\<exists>c\<in>set cs. pickWindowCandidate cs = Some c \<and> pickWindowCandidate cs' = Some c \<and>
    (\<forall>d\<in>set cs. let l = \<lambda>c. or_else (cand_undisputedLevelMicro c) (cand_levelMicro c) in
       l d \<le> l c \<and> (l d = l c \<longrightarrow> cand_windowStart c \<le> cand_windowStart d))"
proof -
  from assms(1,3) have s: "set cs' = set cs" "cs' \<noteq> []" by (auto dest: mset_eq_setD)
  from assms(3) obtain c where c: "pickWindowCandidate cs = Some c" "c \<in> set cs"
      "\<forall>d\<in>set cs. candidate_key c \<le> candidate_key d" using pickWindowCandidate_least by blast
  from s obtain d where d: "pickWindowCandidate cs' = Some d" "d \<in> set cs"
      "\<forall>e\<in>set cs. candidate_key d \<le> candidate_key e" using pickWindowCandidate_least by metis
  have "candidate_key c = candidate_key d" using c d by (meson antisym)
  then have "c = d" using assms(2) c(2) d(2) by (auto simp: candidate_key_def inj_on_def)
  moreover have "\<forall>d\<in>set cs. let l = \<lambda>c. or_else (cand_undisputedLevelMicro c) (cand_levelMicro c) in
       l d \<le> l c \<and> (l d = l c \<longrightarrow> cand_windowStart c \<le> cand_windowStart d)"
    using c(3) by (auto simp: candidate_key_def Let_def less_eq_prod_def)
  ultimately show ?thesis using c(1,2) d(1) by blast
qed

theorem pickWindowCandidate_is_order_independent_witness:
  "\<exists>c. let a = \<lparr>cand_source = PlanOverride, cand_sourceRef = ''o'', cand_tier = api_starter, cand_levelMicro = 7,
           cand_undisputedLevelMicro = Some 9, cand_naturalStart = 0, cand_naturalEnd = 30, cand_windowStart = 5,
           cand_windowEnd = 30\<rparr>;
         b = a\<lparr>cand_source := StripeInvoice, cand_sourceRef := ''in_1'', cand_levelMicro := 9,
           cand_undisputedLevelMicro := None\<rparr>
     in pickWindowCandidate [a, b] = Some c \<and> pickWindowCandidate [b, a] = Some c"
proof -
  let ?a = "\<lparr>cand_source = PlanOverride, cand_sourceRef = ''o'', cand_tier = api_starter, cand_levelMicro = 7,
           cand_undisputedLevelMicro = Some 9, cand_naturalStart = 0, cand_naturalEnd = 30, cand_windowStart = 5,
           cand_windowEnd = 30\<rparr>"
  let ?b = "?a\<lparr>cand_source := StripeInvoice, cand_sourceRef := ''in_1'', cand_levelMicro := 9,
           cand_undisputedLevelMicro := None\<rparr>"
  have "mset [?a, ?b] = mset [?b, ?a]" by (simp add: add_mset_commute)
  from pickWindowCandidate_is_order_independent [OF this] show ?thesis
    by (auto simp: inj_on_def Let_def)
qed

subsection \<open>The two levels of a window\<close>

datatype line_kind = period_line | proration_up

record WindowCover =
  cov_source :: window_source
  cov_sourceRef :: string
  cov_lineKind :: "line_kind option"
  cov_subscriptionId :: "string option"
  cov_active :: bool
  cov_levelMicro :: "int option"
  cov_undisputedLevelMicro :: "int option"
  cov_stillPaidMinor :: "int option"
  cov_disputed :: bool
  cov_upAt :: PgInstant
  cov_upMicroseconds :: int
  cov_downAt :: PgInstant
  cov_downMicroseconds :: int

record WindowCovers =
  wc_windowId :: uuid
  wc_source :: window_source
  wc_sourceRef :: string
  wc_levelMicro :: int
  wc_undisputedLevelMicro :: int
  wc_undisputedRecorded :: bool
  wc_levelSeq :: nat
  wc_windowEnd :: PgInstant
  wc_naturalMicroseconds :: int
  wc_nowAt :: PgInstant
  wc_nowMicroseconds :: int
  wc_covers :: "WindowCover list"

record window_envelope =
  env_cover :: WindowCover
  env_keepMicro :: int

text \<open>\<open>wt_ownAlone\<close> holds the level and the undisputed level the drawing coverage earns on its own.\<close>

record WindowTargets =
  wt_own :: "WindowCover option"
  wt_ownAlone :: "(int \<times> int) option"
  wt_line :: "WindowCover list"
  wt_undisputedLevelMicro :: "int option"
  wt_levelMicro :: "int option"
  wt_lineBest :: "WindowCover option"
  wt_envelope :: "window_envelope option"

definition envelopeKeepMicro :: "int \<Rightarrow> int \<Rightarrow> int \<Rightarrow> int \<Rightarrow> int result" where
  "envelopeKeepMicro coverLevelMicro baseLevelMicro portionMicroseconds wholeMicroseconds =
     (if coverLevelMicro \<le> baseLevelMicro then Inr 0
      else proratedWholeCreditsMicro (coverLevelMicro - baseLevelMicro)
             (min portionMicroseconds wholeMicroseconds) wholeMicroseconds)"

text \<open>
  The code compares covers by object identity with the one it found as its own. Each cover is paired
  with whether it is that object: the first in the list with the window's source and reference.
\<close>

fun mark_first :: "('a \<Rightarrow> bool) \<Rightarrow> 'a list \<Rightarrow> (bool \<times> 'a) list" where
  "mark_first P [] = []"
| "mark_first P (x # xs) = (if P x then (True, x) # map (Pair False) xs else (False, x) # mark_first P xs)"

definition draws_it :: "WindowCovers \<Rightarrow> WindowCover \<Rightarrow> bool" where
  "draws_it wc c \<longleftrightarrow> cov_source c = wc_source wc \<and> cov_sourceRef c = wc_sourceRef wc"

text \<open>The loops that raise a level to the best of a list, and the base of the envelope.\<close>

definition raise_level :: "('a \<Rightarrow> int option) \<Rightarrow> 'a \<Rightarrow> int option \<Rightarrow> int option" where
  "raise_level f c best =
     (case f c of None \<Rightarrow> best
      | Some l \<Rightarrow> (case best of None \<Rightarrow> Some l | Some b \<Rightarrow> if l > b then Some l else best))"

definition raise_base :: "int \<Rightarrow> WindowCover \<Rightarrow> int \<Rightarrow> int" where
  "raise_base level c base =
     (if cov_lineKind c \<noteq> Some proration_up then base
      else case cov_levelMicro c of None \<Rightarrow> base | Some l \<Rightarrow> if l < level \<and> l > base then l else base)"

definition kindRank :: "WindowCover \<Rightarrow> int" where
  "kindRank c = (if cov_lineKind c = Some proration_up then 0 else 1)"

definition line_key :: "WindowCover \<Rightarrow> int \<times> int \<times> int \<times> string \<times> PgInstant \<times> PgInstant" where
  "line_key c = (- or_else (cov_undisputedLevelMicro c) 0, kindRank c, sourceRank (cov_source c),
     cov_sourceRef c, cov_upAt c, cov_downAt c)"

definition envelope_key :: "WindowCover \<Rightarrow> int \<times> int \<times> string" where
  "envelope_key c = (- or_else (cov_levelMicro c) 0, sourceRank (cov_source c), cov_sourceRef c)"

definition first_of :: "'a list \<Rightarrow> 'a option" where
  "first_of xs = (case xs of [] \<Rightarrow> None | x # _ \<Rightarrow> Some x)"

definition own_alone :: "WindowCovers \<Rightarrow> WindowCover option \<Rightarrow> (int \<times> int) option" where
  "own_alone wc own =
     (case own of
        Some c \<Rightarrow> Some (or_else (cov_levelMicro c) 0, or_else (cov_undisputedLevelMicro c) 0)
      | None \<Rightarrow> if wc_source wc = CryptoEntitlement then Some (0, 0) else None)"

definition window_envelope_of :: "WindowCovers \<Rightarrow> (int \<times> int) option \<Rightarrow> WindowCover list \<Rightarrow> WindowCover list
    \<Rightarrow> window_envelope option result" where
  "window_envelope_of wc ownAlone line standing =
     (case first_of (sort_key envelope_key (filter (\<lambda>c. cov_levelMicro c \<noteq> None) standing)) of
        None \<Rightarrow> Inr None
      | Some best \<Rightarrow>
          (case cov_levelMicro best of
             None \<Rightarrow> Inr None
           | Some l \<Rightarrow>
               let base = fold (raise_base l) line (case ownAlone of None \<Rightarrow> 0 | Some (shown, _) \<Rightarrow> shown)
               in rbind (envelopeKeepMicro l base (cov_upMicroseconds best) (wc_naturalMicroseconds wc)) (\<lambda>keep.
                    Inr (Some \<lparr>env_cover = best, env_keepMicro = keep\<rparr>))))"

definition line_best_of :: "WindowCover option \<Rightarrow> (bool \<times> WindowCover) list \<Rightarrow> WindowCover option" where
  "line_best_of own line =
     (let candidates = filter (\<lambda>p. cov_undisputedLevelMicro (snd p) \<noteq> None) line;
          lineCandidates = (case own of
             Some c \<Rightarrow> if \<exists>p\<in>set candidates. fst p then candidates else candidates @ [(True, c)]
           | None \<Rightarrow> candidates)
      in first_of (sort_key line_key (map snd lineCandidates)))"

definition windowTargets :: "WindowCovers \<Rightarrow> WindowTargets result" where
  "windowTargets wc =
     (let covers = mark_first (draws_it wc) (wc_covers wc);
          own = map_option snd (find fst covers);
          ownAlone = own_alone wc own;
          overrideEnded = (wc_source wc = PlanOverride \<and> own = None);
          active = filter (\<lambda>(_, c). cov_active c) covers;
          in_line = (\<lambda>(mine, c). overrideEnded \<or> mine \<or> cov_lineKind c = Some proration_up);
          line = filter in_line active;
          standing = (if overrideEnded then [] else filter (\<lambda>p. \<not> in_line p) active);
          undisputed = fold (raise_level (\<lambda>p. cov_undisputedLevelMicro (snd p))) line (map_option snd ownAlone);
          shown = fold (raise_level (\<lambda>p. cov_levelMicro (snd p))) active (map_option fst ownAlone)
      in rbind (window_envelope_of wc ownAlone (map snd line) (map snd standing)) (\<lambda>envelope.
           Inr \<lparr>wt_own = own, wt_ownAlone = ownAlone, wt_line = map snd line,
                wt_undisputedLevelMicro = undisputed, wt_levelMicro = shown,
                wt_lineBest = line_best_of own line, wt_envelope = envelope\<rparr>))"

subsection \<open>The targets do not depend on the order of the rows\<close>

definition cover_name :: "WindowCover \<Rightarrow> window_source \<times> string" where
  "cover_name c = (cov_source c, cov_sourceRef c)"

lemma mark_first_unique:
  "(\<And>x y. x \<in> set xs \<Longrightarrow> y \<in> set xs \<Longrightarrow> P x \<Longrightarrow> P y \<Longrightarrow> x = y) \<Longrightarrow> distinct xs \<Longrightarrow> mark_first P xs = map (\<lambda>x. (P x, x)) xs"
  by (induction xs) auto

lemma draws_it_unique:
  assumes "distinct (map cover_name cs)" "x \<in> set cs" "y \<in> set cs" "draws_it wc x" "draws_it wc y"
  shows "x = y"
proof -
  have "cover_name x = cover_name y" using assms(4,5) by (simp add: draws_it_def cover_name_def)
  with assms(1-3) show ?thesis by (metis distinct_map inj_onD)
qed

lemma mark_first_covers:
  "distinct (map cover_name (wc_covers wc)) \<Longrightarrow>
     mark_first (draws_it wc) (wc_covers wc) = map (\<lambda>c. (draws_it wc c, c)) (wc_covers wc)"
  by (rule mark_first_unique) (use draws_it_unique in blast, simp add: distinct_map)

lemma find_map_pair: "map_option snd (find fst (map (\<lambda>c. (P c, c)) xs)) = find P xs"
  by (induction xs) auto

text \<open>What is left of a walk over the rows is a sum, a best or a sorted list of the same rows.\<close>

lemma raise_level_commutes: "raise_level f x \<circ> raise_level f y = raise_level f y \<circ> raise_level f x"
  by (auto simp: raise_level_def fun_eq_iff split: option.splits)

lemma raise_base_commutes: "raise_base l x \<circ> raise_base l y = raise_base l y \<circ> raise_base l x"
  by (auto simp: raise_base_def fun_eq_iff split: option.splits)

lemma fold_raise_level: "mset xs = mset ys \<Longrightarrow> fold (raise_level f) xs b = fold (raise_level f) ys b"
  using fold_multiset_equiv [of xs "raise_level f" ys] raise_level_commutes by metis

lemma fold_raise_base: "mset xs = mset ys \<Longrightarrow> fold (raise_base l) xs b = fold (raise_base l) ys b"
  using fold_multiset_equiv [of xs "raise_base l" ys] raise_base_commutes by metis

lemma sort_key_perm:
  fixes k :: "'a \<Rightarrow> 'b::linorder"
  assumes "mset xs = mset ys" "inj_on k (set xs)"
  shows "sort_key k xs = sort_key k ys"
  using assms by (intro sort_key_inj_key_eq) auto

lemma find_perm:
  assumes "mset xs = mset ys" "\<And>x y. x \<in> set xs \<Longrightarrow> y \<in> set xs \<Longrightarrow> P x \<Longrightarrow> P y \<Longrightarrow> x = y"
  shows "find P xs = find P ys"
proof (cases "find P xs")
  case None
  with mset_eq_setD [OF assms(1)] show ?thesis by (metis find_None_iff)
next
  case (Some x)
  then have x: "x \<in> set xs" "P x" by (auto simp: find_Some_iff)
  then have "find P ys \<noteq> None" using mset_eq_setD [OF assms(1)] by (auto simp: find_None_iff)
  then obtain y where y: "find P ys = Some y" by blast
  then have "y \<in> set ys" "P y" by (auto simp: find_Some_iff)
  then have "x = y" using x assms(2) mset_eq_setD [OF assms(1)] by blast
  with Some y show ?thesis by simp
qed

text \<open>The targets over covers whose names differ, with the identity of the code's objects gone.\<close>

definition line_best_by_name :: "WindowCover option \<Rightarrow> WindowCover list \<Rightarrow> WindowCover option" where
  "line_best_by_name own line =
     (let candidates = filter (\<lambda>c. cov_undisputedLevelMicro c \<noteq> None) line
      in first_of (sort_key line_key (case own of
           Some c \<Rightarrow> if c \<in> set candidates then candidates else candidates @ [c]
         | None \<Rightarrow> candidates)))"

definition targets_by_name :: "WindowCovers \<Rightarrow> WindowTargets result" where
  "targets_by_name wc =
     (let own = find (draws_it wc) (wc_covers wc);
          ownAlone = own_alone wc own;
          overrideEnded = (wc_source wc = PlanOverride \<and> own = None);
          active = filter cov_active (wc_covers wc);
          in_line = (\<lambda>c. overrideEnded \<or> draws_it wc c \<or> cov_lineKind c = Some proration_up);
          line = filter in_line active;
          standing = filter (\<lambda>c. \<not> in_line c) active
      in rbind (window_envelope_of wc ownAlone line standing) (\<lambda>envelope.
           Inr \<lparr>wt_own = own, wt_ownAlone = ownAlone, wt_line = line,
                wt_undisputedLevelMicro = fold (raise_level cov_undisputedLevelMicro) line (map_option snd ownAlone),
                wt_levelMicro = fold (raise_level cov_levelMicro) active (map_option fst ownAlone),
                wt_lineBest = line_best_by_name own line, wt_envelope = envelope\<rparr>))"

lemma fold_raise_pairs: "fold (raise_level (\<lambda>p. f (snd p))) (map (\<lambda>c. (P c, c)) xs) b = fold (raise_level f) xs b"
  by (induction xs arbitrary: b) (simp_all add: raise_level_def)

lemma filter_pairs: "filter Q (map (\<lambda>c. (P c, c)) xs) = map (\<lambda>c. (P c, c)) (filter (\<lambda>c. Q (P c, c)) xs)"
  by (simp add: filter_map comp_def)

lemma map_snd_pairs: "map snd (map (\<lambda>c. (P c, c)) xs) = xs"
  by (simp add: comp_def)

lemma line_best_pairs:
  assumes "distinct (map cover_name cs)" "own = find (draws_it wc) cs" "set line \<subseteq> set cs"
  shows "line_best_of own (map (\<lambda>c. (draws_it wc c, c)) line) = line_best_by_name own line"
proof (cases own)
  case None
  then show ?thesis
    by (simp add: line_best_of_def line_best_by_name_def Let_def filter_pairs map_snd_pairs del: map_map)
next
  case (Some c)
  let ?cand = "filter (\<lambda>c. cov_undisputedLevelMicro c \<noteq> None) line"
  from Some assms(2) have c: "c \<in> set cs" "draws_it wc c" by (auto simp: find_Some_iff)
  have same: "x = c" if "x \<in> set cs" "draws_it wc x" for x
    using draws_it_unique [OF assms(1) that(1) c(1) that(2) c(2)] .
  have "(\<exists>p\<in>set (map (\<lambda>c. (draws_it wc c, c)) ?cand). fst p) \<longleftrightarrow> (\<exists>x\<in>set ?cand. draws_it wc x)" by auto
  also have "\<dots> \<longleftrightarrow> c \<in> set ?cand" unfolding set_filter using assms(3) c(2) same by blast
  finally have mine: "(\<exists>p\<in>set (map (\<lambda>c. (draws_it wc c, c)) ?cand). fst p) \<longleftrightarrow> c \<in> set ?cand" .
  show ?thesis
    unfolding line_best_of_def line_best_by_name_def Let_def Some option.case filter_pairs snd_conv mine
    by (simp only: if_distrib [of "map snd"] map_append map_snd_pairs list.map snd_conv)
qed

lemma windowTargets_by_name:
  assumes names: "distinct (map cover_name (wc_covers wc))"
  shows "windowTargets wc = targets_by_name wc"
proof -
  let ?cs = "wc_covers wc" and ?D = "draws_it wc"
  define own where "own = find ?D ?cs"
  define ended where "ended \<longleftrightarrow> wc_source wc = PlanOverride \<and> own = None"
  let ?act = "filter cov_active ?cs" and ?in = "\<lambda>c. ended \<or> ?D c \<or> cov_lineKind c = Some proration_up"
  have mark: "mark_first ?D ?cs = map (\<lambda>c. (?D c, c)) ?cs" by (rule mark_first_covers [OF names])
  have own': "map_option snd (find fst (mark_first ?D ?cs)) = own" by (simp only: mark find_map_pair own_def)
  have act: "filter (\<lambda>(_, c). cov_active c) (mark_first ?D ?cs) = map (\<lambda>c. (?D c, c)) ?act"
    by (simp only: mark filter_pairs prod.case)
  have line: "filter (\<lambda>(mine, c). ended \<or> mine \<or> cov_lineKind c = Some proration_up) (map (\<lambda>c. (?D c, c)) ?act) =
      map (\<lambda>c. (?D c, c)) (filter ?in ?act)"
    by (simp only: filter_pairs prod.case)
  have standing: "(if ended then [] else filter (\<lambda>p. \<not> (case p of (mine, c) \<Rightarrow> ended \<or> mine \<or> cov_lineKind c = Some proration_up))
      (map (\<lambda>c. (?D c, c)) ?act)) = map (\<lambda>c. (?D c, c)) (filter (\<lambda>c. \<not> ?in c) ?act)"
    by (simp only: filter_pairs prod.case) simp
  have best: "line_best_of own (map (\<lambda>c. (?D c, c)) (filter ?in ?act)) = line_best_by_name own (filter ?in ?act)"
    by (rule line_best_pairs [OF names own_def]) auto
  show ?thesis
    unfolding windowTargets_def targets_by_name_def Let_def own' own_def [symmetric] ended_def [symmetric] act line
      standing best fold_raise_pairs map_snd_pairs ..
qed

lemma inj_on_names: "distinct (map cover_name cs) \<Longrightarrow> inj_on line_key (set cs) \<and> inj_on envelope_key (set cs)"
  by (auto simp: distinct_map inj_on_def line_key_def envelope_key_def cover_name_def)

lemma window_envelope_perm:
  assumes "distinct (map cover_name cs)" "mset line = mset line'" "mset st = mset st'" "set st \<subseteq> set cs"
  shows "window_envelope_of wc alone line st = window_envelope_of wc alone line' st'"
proof -
  let ?f = "filter (\<lambda>c. cov_levelMicro c \<noteq> None)"
  have "inj_on envelope_key (set (?f st))"
    using inj_on_names [OF assms(1)] assms(4) by (auto intro: inj_on_subset)
  then have "sort_key envelope_key (?f st) = sort_key envelope_key (?f st')"
    using assms(3) by (intro sort_key_perm) simp_all
  then show ?thesis unfolding window_envelope_of_def by (simp only: fold_raise_base [OF assms(2)])
qed

lemma line_best_perm:
  assumes "distinct (map cover_name cs)" "mset line = mset line'" "set line \<subseteq> set cs" "\<forall>c. own = Some c \<longrightarrow> c \<in> set cs"
  shows "line_best_by_name own line = line_best_by_name own line'"
proof -
  let ?cand = "filter (\<lambda>c. cov_undisputedLevelMicro c \<noteq> None)"
  let ?with = "\<lambda>xs. case own of Some c \<Rightarrow> if c \<in> set xs then xs else xs @ [c] | None \<Rightarrow> xs"
  have m: "mset (?cand line) = mset (?cand line')" using assms(2) by simp
  from mset_eq_setD [OF this] m have "mset (?with (?cand line)) = mset (?with (?cand line'))"
    by (auto split: option.splits)
  moreover have "set (?with (?cand line)) \<subseteq> set cs" using assms(3,4) by (auto split: option.splits)
  then have "inj_on line_key (set (?with (?cand line)))"
    using inj_on_names [OF assms(1)] by (auto intro: inj_on_subset)
  ultimately have "sort_key line_key (?with (?cand line)) = sort_key line_key (?with (?cand line'))"
    by (rule sort_key_perm)
  then show ?thesis by (simp only: line_best_by_name_def Let_def)
qed

text \<open>The two levels a window should have, the coverage an undisputed change is measured from and what
  a stand-alone cover keeps are decided by which coverages there are and never by the order the database
  returned them in, as long as no two share a source and reference.\<close>
theorem windowTargets_ignore_row_order:
  assumes "distinct (map cover_name cs)" and "mset cs = mset cs'"
    and "windowTargets (wc\<lparr>wc_covers := cs\<rparr>) = Inr t"
  shows "\<exists>t'. windowTargets (wc\<lparr>wc_covers := cs'\<rparr>) = Inr t' \<and> mset (wt_line t') = mset (wt_line t) \<and>
    t' = t\<lparr>wt_line := wt_line t'\<rparr>"
proof -
  let ?a = "wc\<lparr>wc_covers := cs\<rparr>" and ?b = "wc\<lparr>wc_covers := cs'\<rparr>"
  let ?D = "draws_it wc"
  define own where "own = find ?D cs"
  define ended where "ended \<longleftrightarrow> wc_source wc = PlanOverride \<and> own = None"
  let ?act = "filter cov_active" and ?in = "\<lambda>c. ended \<or> ?D c \<or> cov_lineKind c = Some proration_up"
  have D: "draws_it ?a = ?D" "draws_it ?b = ?D" "own_alone ?a own = own_alone wc own" "own_alone ?b own = own_alone wc own"
    by (auto simp: draws_it_def own_alone_def fun_eq_iff)
  have natural: "wc_naturalMicroseconds ?a = wc_naturalMicroseconds wc" "wc_naturalMicroseconds ?b = wc_naturalMicroseconds wc"
    and fields: "wc_covers ?a = cs" "wc_covers ?b = cs'" "wc_source ?a = wc_source wc" "wc_source ?b = wc_source wc"
    by simp_all
  have E: "window_envelope_of ?a = window_envelope_of wc" "window_envelope_of ?b = window_envelope_of wc"
    by (intro ext; simp only: window_envelope_of_def natural)+
  have names: "distinct (map cover_name cs')"
  proof -
    have "mset (map cover_name cs) = mset (map cover_name cs')" using assms(2) by simp
    with assms(1) show ?thesis by (rule mset_eq_imp_distinct_iff [THEN iffD1, rotated])
  qed
  have own': "find ?D cs' = own"
    unfolding own_def by (rule find_perm [OF assms(2), symmetric]) (rule draws_it_unique [OF assms(1)])
  have m: "mset (filter ?in (?act cs)) = mset (filter ?in (?act cs'))"
    "mset (filter (\<lambda>c. \<not> ?in c) (?act cs)) = mset (filter (\<lambda>c. \<not> ?in c) (?act cs'))"
    "mset (?act cs) = mset (?act cs')" using assms(2) by simp_all
  have own_in: "\<forall>c. own = Some c \<longrightarrow> c \<in> set cs" by (auto simp: own_def find_Some_iff)
  have env: "window_envelope_of wc alone (filter ?in (?act cs)) (filter (\<lambda>c. \<not> ?in c) (?act cs)) =
      window_envelope_of wc alone (filter ?in (?act cs')) (filter (\<lambda>c. \<not> ?in c) (?act cs'))" for alone
    by (rule window_envelope_perm [OF assms(1) m(1,2)]) auto
  have best: "line_best_by_name own (filter ?in (?act cs)) = line_best_by_name own (filter ?in (?act cs'))"
    by (rule line_best_perm [OF assms(1) m(1) _ own_in]) auto
  have a: "targets_by_name ?a = Inr t" using assms(3) windowTargets_by_name [of ?a] assms(1) by simp
  have b: "windowTargets ?b = targets_by_name ?b" using windowTargets_by_name [of ?b] names by simp
  let ?T = "\<lambda>xs envelope. \<lparr>wt_own = own, wt_ownAlone = own_alone wc own, wt_line = filter ?in (?act xs),
      wt_undisputedLevelMicro = fold (raise_level cov_undisputedLevelMicro) (filter ?in (?act xs)) (map_option snd (own_alone wc own)),
      wt_levelMicro = fold (raise_level cov_levelMicro) (?act xs) (map_option fst (own_alone wc own)),
      wt_lineBest = line_best_by_name own (filter ?in (?act xs)), wt_envelope = envelope\<rparr>"
  have Ta: "targets_by_name ?a = rbind (window_envelope_of wc (own_alone wc own) (filter ?in (?act cs))
      (filter (\<lambda>c. \<not> ?in c) (?act cs))) (\<lambda>e. Inr (?T cs e))"
    by (simp only: targets_by_name_def Let_def fields D E own_def [symmetric] ended_def [symmetric])
  have Tb: "targets_by_name ?b = rbind (window_envelope_of wc (own_alone wc own) (filter ?in (?act cs'))
      (filter (\<lambda>c. \<not> ?in c) (?act cs'))) (\<lambda>e. Inr (?T cs' e))"
    by (simp only: targets_by_name_def Let_def fields D E own' ended_def [symmetric])
  from a obtain e where e: "window_envelope_of wc (own_alone wc own) (filter ?in (?act cs))
      (filter (\<lambda>c. \<not> ?in c) (?act cs)) = Inr e" and t: "t = ?T cs e"
    unfolding Ta by (auto simp only: rbind_eq_Inr sum.inject)
  have "windowTargets ?b = Inr (?T cs' e)" using b Tb e env by simp
  moreover have "?T cs' e = t\<lparr>wt_line := filter ?in (?act cs')\<rparr>"
    unfolding t using fold_raise_level [OF m(1)] fold_raise_level [OF m(3)] best by simp
  moreover have "mset (wt_line (?T cs' e)) = mset (wt_line t)" unfolding t using m(1) by simp
  ultimately show ?thesis by auto
qed

definition sample_cover :: WindowCover where
  "sample_cover = \<lparr>cov_source = StripeInvoice, cov_sourceRef = ''in_1'', cov_lineKind = Some period_line,
     cov_subscriptionId = Some ''sub'', cov_active = True, cov_levelMicro = Some 3000000000,
     cov_undisputedLevelMicro = Some 3000000000, cov_stillPaidMinor = Some 500, cov_disputed = False, cov_upAt = 0,
     cov_upMicroseconds = 30, cov_downAt = 0, cov_downMicroseconds = 30\<rparr>"

definition sample_term :: WindowCover where
  "sample_term = sample_cover\<lparr>cov_source := CryptoEntitlement, cov_sourceRef := ''order'', cov_lineKind := None,
     cov_subscriptionId := None, cov_levelMicro := Some 10000000000, cov_upAt := 15, cov_upMicroseconds := 15\<rparr>"

definition sample_covers :: WindowCovers where
  "sample_covers = \<lparr>wc_windowId = ''w'', wc_source = StripeInvoice, wc_sourceRef = ''in_1'', wc_levelMicro = 3000000000,
     wc_undisputedLevelMicro = 3000000000, wc_undisputedRecorded = True, wc_levelSeq = 0, wc_windowEnd = 30,
     wc_naturalMicroseconds = 30, wc_nowAt = 15, wc_nowMicroseconds = 15, wc_covers = [sample_cover, sample_term]\<rparr>"

theorem windowTargets_ignore_row_order_witness:
  "\<exists>t. windowTargets (sample_covers\<lparr>wc_covers := [sample_term, sample_cover]\<rparr>) = Inr t \<and>
     wt_levelMicro t = Some 10000000000 \<and> wt_undisputedLevelMicro t = Some 3000000000 \<and>
     wt_envelope t = Some \<lparr>env_cover = sample_term, env_keepMicro = 3500000000\<rparr>"
proof -
  let ?t = "\<lparr>wt_own = Some sample_cover, wt_ownAlone = Some (3000000000, 3000000000), wt_line = [sample_cover],
      wt_undisputedLevelMicro = Some 3000000000, wt_levelMicro = Some 10000000000, wt_lineBest = Some sample_cover,
      wt_envelope = Some \<lparr>env_cover = sample_term, env_keepMicro = 3500000000\<rparr>\<rparr>"
  have "distinct (map cover_name [sample_cover, sample_term])" by code_simp
  moreover have "mset [sample_cover, sample_term] = mset [sample_term, sample_cover]" by (simp add: add_mset_commute)
  moreover have "windowTargets (sample_covers\<lparr>wc_covers := [sample_cover, sample_term]\<rparr>) = Inr ?t" by code_simp
  ultimately have "\<exists>t'. windowTargets (sample_covers\<lparr>wc_covers := [sample_term, sample_cover]\<rparr>) = Inr t' \<and>
      mset (wt_line t') = mset (wt_line ?t) \<and> t' = ?t\<lparr>wt_line := wt_line t'\<rparr>"
    by (rule windowTargets_ignore_row_order)
  then obtain t' where t': "windowTargets (sample_covers\<lparr>wc_covers := [sample_term, sample_cover]\<rparr>) = Inr t'"
    "t' = ?t\<lparr>wt_line := wt_line t'\<rparr>" by blast
  have "wt_levelMicro t' = Some 10000000000" "wt_undisputedLevelMicro t' = Some 3000000000"
    "wt_envelope t' = Some \<lparr>env_cover = sample_term, env_keepMicro = 3500000000\<rparr>"
    by (subst t'(2), simp)+
  with t'(1) show ?thesis by blast
qed

text \<open>What a stand-alone cover keeps: a share of what it adds to the month, in whole credits.\<close>

lemma envelopeKeepMicro_bounds:
  assumes "envelopeKeepMicro cover base portion whole = Inr keep" and "0 \<le> portion" and "0 < whole"
  shows "0 \<le> keep \<and> keep \<le> max 0 (cover - base) \<and> MICROCREDITS_PER_CREDIT dvd keep"
proof (cases "cover \<le> base")
  case True
  with assms show ?thesis by (simp add: envelopeKeepMicro_def)
next
  case False
  define p where "p = min portion whole"
  have p: "0 \<le> p" "p \<le> whole" using assms by (auto simp: p_def)
  have d: "proratedWholeCreditsMicro (cover - base) p whole = Inr keep" using False assms(1) by (simp add: envelopeKeepMicro_def p_def)
  have keep: "0 \<le> keep \<and> MICROCREDITS_PER_CREDIT dvd keep"
    using d p False assms(3)
    by (auto simp: result_simps trunc_div_nonneg MICROCREDITS_PER_CREDIT_def pos_imp_zdiv_nonneg_iff)
  moreover have "keep * whole \<le> (cover - base) * p" using prorated_magnitude [OF d] keep False p by simp
  moreover have "(cover - base) * p \<le> (cover - base) * whole" using False p by (intro mult_left_mono) auto
  ultimately have "keep \<le> cover - base" using assms(3) by (meson mult_le_cancel_right_pos order_trans)
  with keep show ?thesis by simp
qed

subsection \<open>What a Stripe payment bought\<close>

record InvoicePaymentFacts =
  if_stripeInvoiceId :: string
  if_accountId :: uuid
  if_amountPaidMinor :: int
  if_refundedMinor :: int
  if_disputedMinor :: int
  if_lineKind :: "string option"
  if_lineInterval :: "string option"
  if_lineTier :: "string option"
  if_linePeriodStart :: "PgInstant option"
  if_linePeriodEnd :: "PgInstant option"
  if_upgradeFromMicro :: "int option"

definition AccountTierSchema :: "string \<Rightarrow> AccountTier option" where
  "AccountTierSchema s = map_of
     [(''free'', tier_free), (''solo_manual'', solo_manual), (''team_manual'', team_manual),
      (''agency_manual'', agency_manual), (''api_starter'', api_starter), (''api_builder'', api_builder),
      (''api_scale'', api_scale), (''enterprise'', enterprise)] s"

text \<open>\<^verbatim>\<open>new Date(at.slice(0, 23) + 'Z')\<close>: the text cut to the millisecond; \<open>None\<close> is an invalid date.\<close>

definition date_of_instant :: "PgInstant \<Rightarrow> Date option" where
  "date_of_instant i = TimeClip (i div 1000)"

definition monthsSpanned :: "PgInstant option \<Rightarrow> PgInstant option \<Rightarrow> int option result" where
  "monthsSpanned period_start period_end =
     (case (period_start, period_end) of
        (Some s, Some e) \<Rightarrow>
          (case (date_of_instant s, date_of_instant e) of
             (Some from_date, Some to_date) \<Rightarrow>
               if to_date \<le> from_date then Inr None
               else
                 let estimate = max 1 ((getUTCFullYear to_date - getUTCFullYear from_date) * 12 +
                                       (getUTCMonth to_date - getUTCMonth from_date))
                 in rbind (if estimate > 1 then rbind (addUtcMonths from_date (estimate - 1)) (\<lambda>d. Inr (d \<ge> to_date))
                           else Inr False) (\<lambda>over.
                    if over then Inr (Some (estimate - 1))
                    else rbind (addUtcMonths from_date estimate) (\<lambda>d.
                           Inr (Some (if d \<ge> to_date then estimate else estimate + 1))))
           | _ \<Rightarrow> Inr None)
      | _ \<Rightarrow> Inr None)"

definition paidForMicro :: "InvoicePaymentFacts \<Rightarrow> int option result" where
  "paidForMicro payment =
     (case if_lineTier payment of None \<Rightarrow> Inr None
      | Some name \<Rightarrow>
     (case AccountTierSchema name of None \<Rightarrow> Inr None
      | Some tier \<Rightarrow>
     rbind (planMonthlyCreditsMicro tier) (\<lambda>plan.
     (case plan of None \<Rightarrow> Inr None
      | Some monthly \<Rightarrow>
        if monthly \<le> 0 then Inr None
        else if if_lineKind payment = Some ''period''
        then Inr (if if_lineInterval payment = Some ''year'' then Some (monthly * 12) else None)
        else if if_lineKind payment = Some ''proration_up'' \<and> if_lineInterval payment = Some ''year''
        then rbind (monthsSpanned (if_linePeriodStart payment) (if_linePeriodEnd payment)) (\<lambda>months.
               (case months of None \<Rightarrow> Inr None
                | Some n \<Rightarrow>
                    let step = monthly - min monthly (or_else (if_upgradeFromMicro payment) 0)
                    in Inr (if step > 0 then Some (step * n) else None)))
        else Inr None))))"

record UnitPaymentTerms =
  ut_amountPaidMinor :: int
  ut_stillPaidMinor :: int
  ut_paidForMicro :: "int option"

definition invoiceTerms :: "InvoicePaymentFacts \<Rightarrow> UnitPaymentTerms result" where
  "invoiceTerms payment =
     rbind (paidForMicro payment) (\<lambda>bought.
       Inr \<lparr>ut_amountPaidMinor = if_amountPaidMinor payment,
            ut_stillPaidMinor = max 0 (if_amountPaidMinor payment - if_refundedMinor payment - if_disputedMinor payment),
            ut_paidForMicro = bought\<rparr>)"

definition stillPaidShareMicro :: "int \<Rightarrow> int \<Rightarrow> int \<Rightarrow> int" where
  "stillPaidShareMicro micro paidMinor stillMinor =
     (if paidMinor = 0 then micro else trunc_div (micro * min stillMinor paidMinor) paidMinor)"

definition floorToPriorMinute :: "Date \<Rightarrow> Date" where
  "floorToPriorMinute was = (was div 60000) * 60000 - 60000"

lemma earlier_no_later_month: "s \<le> t \<Longrightarrow> month_no s \<le> month_no t"
  using later_month_later [of t s] by force

text \<open>The months a line spans are counted up: of a line whose end lies two months inside the range of a
  Date, they are the fewest whole months from its start that reach its end, at least one, whatever the
  days and times of day of the two.\<close>
theorem monthsSpanned_counts_up:
  assumes "\<bar>s div 1000\<bar> \<le> MAX_TIME" and "s div 1000 < e div 1000" and "e div 1000 + 62 * msPerDay \<le> MAX_TIME"
  shows "\<exists>n a b. monthsSpanned (Some s) (Some e) = Inr (Some n) \<and> 1 \<le> n \<and>
    addUtcMonths (s div 1000) (n - 1) = Inr a \<and> a < e div 1000 \<and>
    addUtcMonths (s div 1000) n = Inr b \<and> e div 1000 \<le> b"
proof -
  define f t where "f = s div 1000" and "t = e div 1000"
  define d where "d = month_no t - month_no f"
  define est where "est = max 1 d"
  have ft: "\<bar>f\<bar> \<le> MAX_TIME" "f < t" "t + 62 * msPerDay \<le> MAX_TIME" using assms by (simp_all add: f_def t_def)
  have d: "0 \<le> d" using earlier_no_later_month [of f t] ft(2) by (simp add: d_def)
  have reach: "t < month_time f (d + 1)" by (rule later_month_later) (simp add: month_no_month_time d_def)
  have near: "month_time f (d + 1) \<le> MAX_TIME" using month_after_near [of f t] ft(3) by (simp add: d_def)
  have below: "month_time f k < t" if "k < d" for k
    by (rule later_month_later) (use that in \<open>simp add: month_no_month_time d_def\<close>)
  have add: "addUtcMonths f k = Inr (month_time f k)" if "0 \<le> k" "k \<le> d + 1" for k
    using month_in_range [OF ft(1) that(1)] month_time_mono_le [OF that(2), of f] near by simp
  have dates: "date_of_instant s = Some f" "date_of_instant e = Some t"
    using ft by (auto simp: date_of_instant_def TimeClip_def msPerDay_def simp flip: f_def t_def)
  have est': "max 1 ((getUTCFullYear t - getUTCFullYear f) * 12 + (getUTCMonth t - getUTCMonth f)) = est"
    by (simp add: est_def d_def month_no_def algebra_simps)
  have est1: "1 \<le> est" "est \<le> d + 1" "1 < est \<Longrightarrow> est = d" using d by (auto simp: est_def)
  have early: "(if est > 1 then rbind (addUtcMonths f (est - 1)) (\<lambda>x. Inr (x \<ge> t)) else Inr False) = Inr False"
    using add [of "est - 1"] below [of "est - 1"] est1 by auto
  define n where "n = (if month_time f est \<ge> t then est else est + 1)"
  have "monthsSpanned (Some s) (Some e) = Inr (Some n)"
    unfolding monthsSpanned_def Let_def prod.case option.case dates est' early
    using ft(2) add [of est] est1 by (simp add: n_def)
  moreover have "1 \<le> n" using est1(1) by (simp add: n_def)
  moreover have n: "n \<le> d + 1 \<and> month_time f (n - 1) < t \<and> t \<le> month_time f n"
  proof (cases "month_time f est \<ge> t")
    case True
    then have "n = est" by (simp add: n_def)
    moreover have "month_time f (est - 1) < t"
      using est1 below [of "est - 1"] ft(2) by (cases "est = 1") auto
    ultimately show ?thesis using True est1(2) by simp
  next
    case False
    then have "est \<noteq> d + 1" using reach by auto
    then have "est = d" using d by (auto simp: est_def)
    with False reach show ?thesis by (simp add: n_def)
  qed
  ultimately show ?thesis using add [of n] add [of "n - 1"] by (auto simp flip: f_def t_def)
qed

theorem monthsSpanned_counts_up_witness:
  "\<exists>n a b. monthsSpanned (Some 1706659200000000) (Some 1709251200000000) = Inr (Some n) \<and> 1 \<le> n \<and>
    addUtcMonths 1706659200000 (n - 1) = Inr a \<and> a < 1709251200000 \<and>
    addUtcMonths 1706659200000 n = Inr b \<and> 1709251200000 \<le> b"
  using monthsSpanned_counts_up [of 1706659200000000 1709251200000000]
  by (simp add: MAX_TIME_def msPerDay_def)

text \<open>What is still paid of an amount is never more than it, never negative, and all of it when nothing was
  taken back.\<close>

lemma stillPaidShareMicro_bounds:
  assumes "0 \<le> micro" "0 \<le> paid" "0 \<le> still"
  shows "0 \<le> stillPaidShareMicro micro paid still \<and> stillPaidShareMicro micro paid still \<le> micro \<and>
    (paid \<le> still \<longrightarrow> stillPaidShareMicro micro paid still = micro)"
proof (cases "paid = 0")
  case True
  with assms show ?thesis by (simp add: stillPaidShareMicro_def)
next
  case False
  have "micro * min still paid \<le> micro * paid" using assms by (intro mult_left_mono) auto
  then have "micro * min still paid div paid \<le> micro" using False assms(2)
    by (metis le_less nonzero_mult_div_cancel_right zdiv_mono1)
  then show ?thesis using False assms
    by (auto simp: stillPaidShareMicro_def trunc_div_nonneg pos_imp_zdiv_nonneg_iff min_def)
qed

end
