(* ===== verification/Statements.thy ===== *)
theory Statements
  imports Clawback_Laws Window_Plans
begin

section \<open>Statements in sequence\<close>

text \<open>
  The refresh of an account and the reversals of its payments are long transactions: dozens of reads and writes, one
  after the other, in loops. They are written with the combinators of this theory, one for each way the
  TypeScript code continues: an awaited step and what follows it, a value, a read that leaves the
  tables alone, a computation that may throw, a step under a condition and a loop that carries its mutated variables.
  A fault ends the whole, as an exception does.
\<close>

definition run_then :: "'a statement \<Rightarrow> ('a \<Rightarrow> 'b statement) \<Rightarrow> 'b statement" where
  "run_then f g db = rbind (f db) (\<lambda>(x, d). g x d)"

definition give :: "'a \<Rightarrow> 'a statement" where
  "give x db = Inr (x, db)"

definition reading :: "(db \<Rightarrow> 'a result) \<Rightarrow> 'a statement" where
  "reading f db = rbind (f db) (\<lambda>x. Inr (x, db))"

definition computing :: "'a result \<Rightarrow> 'a statement" where
  "computing r db = rbind r (\<lambda>x. Inr (x, db))"

definition throwing :: "fault \<Rightarrow> 'a statement" where
  "throwing e db = Inl e"

fun each_do :: "('x \<Rightarrow> 's \<Rightarrow> 's statement) \<Rightarrow> 'x list \<Rightarrow> 's \<Rightarrow> 's statement" where
  "each_do f [] s = give s"
| "each_do f (x # xs) s = run_then (f x s) (each_do f xs)"

lemma run_then_Inr [result_simps]: "run_then f g db = Inr p \<longleftrightarrow> (\<exists>x d. f db = Inr (x, d) \<and> g x d = Inr p)"
  by (auto simp: run_then_def result_simps)

lemma give_Inr [result_simps]: "give x db = Inr p \<longleftrightarrow> p = (x, db)"
  by (auto simp: give_def)

lemma reading_Inr [result_simps]: "reading f db = Inr p \<longleftrightarrow> f db = Inr (fst p) \<and> snd p = db"
  by (cases p) (auto simp: reading_def result_simps)

lemma computing_Inr [result_simps]: "computing r db = Inr p \<longleftrightarrow> r = Inr (fst p) \<and> snd p = db"
  by (cases p) (auto simp: computing_def result_simps)

lemma throwing_Inr [simp]: "throwing e db \<noteq> Inr p"
  by (simp add: throwing_def)

end
