(* ===== verification/Window_Repo.thy ===== *)
theory Window_Repo
  imports Statements
begin

section \<open>The windows repository\<close>

text \<open>
  The statements of \<^verbatim>\<open>db/credit-windows-repo.ts\<close> over the credit tables: the rows a unit is measured on, the
  windows a payment earned, and the writes of windows, included lots, level changes and claims. What a
  row returns is a record of the code's own names. The tables keep milliseconds; \<open>pg_instant\<close> is the text a query prints of
  one, in microseconds, and \<open>timestamptz\<close> reads such a text back.
\<close>

definition pg_instant :: "instant \<Rightarrow> PgInstant" where
  "pg_instant t = 1000 * t"

definition timestamptz :: "PgInstant \<Rightarrow> instant" where
  "timestamptz i = i div 1000"

lemma timestamptz_pg [simp]: "timestamptz (pg_instant t) = t"
  by (simp add: timestamptz_def pg_instant_def)

definition nullableMicro :: "int option \<Rightarrow> int option result" where
  "nullableMicro v = (case v of None \<Rightarrow> Inr None | Some x \<Rightarrow> rbind (exactMicro x) (\<lambda>y. Inr (Some y)))"

definition signedMicro :: "int \<Rightarrow> int result" where
  "signedMicro v = (if \<not> safe_int v then Inl RangeError else Inr v)"

definition listParam :: "string list \<Rightarrow> string list result" where
  "listParam values = (if \<exists>v\<in>set values. CHR '','' \<in> set v then Inl RangeError else Inr values)"

definition clawbackSource :: "string \<Rightarrow> string result" where
  "clawbackSource value = member_of CREDIT_CLAWBACK_SOURCES value"

text \<open>The keys that start with a prefix, as a range of an index: from the prefix to the same text with its
  last colon made a semicolon, which is the next character.\<close>

definition keyPrefixRange :: "string \<Rightarrow> (string \<times> string) result" where
  "keyPrefixRange prefix =
     (if prefix = [] \<or> last prefix \<noteq> CHR '':'' then Inl PlainError else Inr (prefix, butlast prefix @ '';''))"

fun strpos_found :: "string \<Rightarrow> string \<Rightarrow> bool" where
  "strpos_found p [] \<longleftrightarrow> p = []"
| "strpos_found p (c # cs) \<longleftrightarrow> starts_with (c # cs) p \<or> strpos_found p cs"

definition ends_with :: "string \<Rightarrow> string \<Rightarrow> bool" where
  "ends_with s p \<longleftrightarrow> drop (length s - length p) s = p"

subsection \<open>Windows\<close>

record SourcedCreditWindow =
  scw_id :: uuid
  scw_sourceRef :: string
  scw_levelMicro :: int
  scw_levelSeq :: nat
  scw_windowStart :: PgInstant
  scw_windowEnd :: PgInstant
  scw_current :: bool

definition window_now :: "instant \<Rightarrow> credit_window \<Rightarrow> bool" where
  "window_now t w \<longleftrightarrow> window_start w \<le> t \<and> t < window_end w"

definition toSourcedWindow :: "instant \<Rightarrow> credit_window \<Rightarrow> SourcedCreditWindow result" where
  "toSourcedWindow t w =
     rbind (exactMicro (win_level w)) (\<lambda>level.
       Inr \<lparr>scw_id = win_id w, scw_sourceRef = win_source_ref w, scw_levelMicro = level, scw_levelSeq = win_level_seq w,
            scw_windowStart = pg_instant (window_start w), scw_windowEnd = pg_instant (window_end w),
            scw_current = window_now t w\<rparr>)"

definition windows_newest_first :: "credit_window list \<Rightarrow> credit_window list" where
  "windows_newest_first ws = rev (sort_key (\<lambda>w. (window_start w, win_id w)) ws)"

definition earned_by :: "db \<Rightarrow> window_source \<Rightarrow> string \<Rightarrow> credit_window \<Rightarrow> bool" where
  "earned_by db source ref w \<longleftrightarrow>
     win_source w = source \<and> win_source_ref w = ref \<or>
     list_ex (\<lambda>s. lc_window s = win_id w \<and> lc_reason s \<in> {PlanChange, DisputeReinstated} \<and> lc_source_ref s = Some ref)
       (credit_window_level_changes db) \<or>
     list_ex (\<lambda>l. lot_account l = win_account w \<and> lot_window l = None \<and> lot_kind l = Adjustment \<and>
        starts_with (grant_key l) (''reinstate:window:'' @ win_id w @ '':'' @ ref @ '':'')) (credit_lots db)"

definition windowsOfCoverage :: "uuid \<Rightarrow> window_source \<Rightarrow> string \<Rightarrow> db \<Rightarrow> SourcedCreditWindow list result" where
  "windowsOfCoverage a source ref db =
     all_results (map (toSourcedWindow (db_now db))
       (windows_newest_first (filter (\<lambda>w. win_account w = a \<and> earned_by db source ref w) (credit_windows db))))"

definition windowsByIds :: "uuid \<Rightarrow> uuid list \<Rightarrow> db \<Rightarrow> SourcedCreditWindow list result" where
  "windowsByIds a ids db =
     (if ids = [] then Inr []
      else rbind (listParam ids) (\<lambda>wanted.
        all_results (map (toSourcedWindow (db_now db))
          (windows_newest_first (filter (\<lambda>w. win_account w = a \<and> win_id w \<in> set wanted) (credit_windows db))))))"

record CurrentCreditWindow =
  ccw_id :: uuid
  ccw_windowStart :: PgInstant
  ccw_windowEnd :: PgInstant
  ccw_levelMicro :: int

definition currentWindow :: "uuid \<Rightarrow> db \<Rightarrow> CurrentCreditWindow option result" where
  "currentWindow a db =
     (case find (\<lambda>w. win_account w = a \<and> window_now (db_now db) w) (credit_windows db) of
        None \<Rightarrow> Inr None
      | Some w \<Rightarrow> rbind (exactMicro (win_level w)) (\<lambda>level.
          Inr (Some \<lparr>ccw_id = win_id w, ccw_windowStart = pg_instant (window_start w),
                     ccw_windowEnd = pg_instant (window_end w), ccw_levelMicro = level\<rparr>)))"

subsection \<open>The rows of one unit\<close>

record UnitStep =
  us_seq :: nat
  us_reason :: level_change_reason
  us_deltaMicro :: int
  us_stillPaidMinor :: "int option"

definition unitSteps :: "uuid \<Rightarrow> uuid \<Rightarrow> string \<Rightarrow> db \<Rightarrow> UnitStep list result" where
  "unitSteps a windowId coverageRef db =
     all_results (map (\<lambda>s.
         rbind (signedMicro (lc_delta s)) (\<lambda>d. rbind (nullableMicro (lc_still_paid s)) (\<lambda>p.
           Inr \<lparr>us_seq = lc_seq s, us_reason = lc_reason s, us_deltaMicro = d, us_stillPaidMinor = p\<rparr>)))
       (sort_key lc_seq (filter (\<lambda>s. list_ex (\<lambda>w. win_id w = windowId \<and> lc_window s = win_id w \<and> win_account w = a \<and>
             or_else (lc_source_ref s) (win_source_ref w) = coverageRef) (credit_windows db))
          (credit_window_level_changes db))))"

record UnitClawback =
  uc_id :: uuid
  uc_source :: string
  uc_sourceRef :: string
  uc_targetKey :: string
  uc_state :: clawback_state
  uc_debtMicro :: int
  uc_pendingMicro :: int
  uc_ledgerMark :: "int option"
  uc_clawedMicro :: int
  uc_createdAt :: PgInstant
  uc_amountMicro :: "int option"

definition toUnitClawback :: "credit_clawback \<Rightarrow> UnitClawback result" where
  "toUnitClawback c =
     rbind (clawbackSource (cb_source c)) (\<lambda>source.
     rbind (exactMicro (or_0 (cb_debt c))) (\<lambda>debt.
     rbind (exactMicro (cb_pending c)) (\<lambda>pending.
     rbind (nullableMicro (map_option int (cb_ledger_mark c))) (\<lambda>mark.
     rbind (exactMicro (or_0 (cb_clawed c))) (\<lambda>clawed.
     rbind (nullableMicro (cb_amount c)) (\<lambda>amount.
       Inr \<lparr>uc_id = cb_id c, uc_source = source, uc_sourceRef = cb_source_ref c, uc_targetKey = cb_target_key c,
            uc_state = cb_state c, uc_debtMicro = debt, uc_pendingMicro = pending, uc_ledgerMark = mark,
            uc_clawedMicro = clawed, uc_createdAt = pg_instant (cb_created c), uc_amountMicro = amount\<rparr>))))))"

definition clawbacks_in_order :: "credit_clawback list \<Rightarrow> credit_clawback list" where
  "clawbacks_in_order cs = sort_key (\<lambda>c. (cb_created c, cb_id c)) cs"

definition unitClawbacks :: "uuid \<Rightarrow> uuid \<Rightarrow> string \<Rightarrow> string list \<Rightarrow> db \<Rightarrow> UnitClawback list result" where
  "unitClawbacks a windowId targetKey planChangeRefs db =
     rbind (listParam planChangeRefs) (\<lambda>refs.
       all_results (map toUnitClawback (clawbacks_in_order (filter (\<lambda>c.
         cb_account c = a \<and> cb_state c \<in> {Applied, Reversed} \<and>
         (cb_target_key c = targetKey \<or>
          cb_source c = ''plan_change'' \<and> cb_target_key c = ''window:'' @ windowId \<and> cb_source_ref c \<in> set refs))
         (credit_clawbacks db)))))"

definition accountClawbacks :: "uuid \<Rightarrow> db \<Rightarrow> AccountClawback list result" where
  "accountClawbacks a db =
     all_results (map (\<lambda>c. rbind (clawbackSource (cb_source c)) (\<lambda>source.
         Inr \<lparr>ac_id = cb_id c, ac_source = source, ac_source_ref = cb_source_ref c, ac_target_key = cb_target_key c,
              ac_state = cb_state c\<rparr>))
       (clawbacks_in_order (filter (\<lambda>c. cb_account c = a) (credit_clawbacks db))))"

definition debtEvents :: "uuid \<Rightarrow> db \<Rightarrow> LedgerDebtEvent list result" where
  "debtEvents a db =
     all_results (map (\<lambda>x. rbind (exactMicro (int (led_id x))) (\<lambda>_. rbind (signedMicro (debt_delta x)) (\<lambda>d.
         Inr \<lparr>de_id = led_id x, de_at = led_created x, de_kind = led_kind x, de_key = idempotency_key x,
              de_lot = led_lot x, de_delta = d\<rparr>)))
       (sort_key led_id (filter (\<lambda>x. led_account x = a \<and> debt_delta x \<noteq> 0) (credit_ledger db))))"

record UnitGivebackRow =
  ug_key :: string
  ug_lot :: "uuid option"
  ug_lotDeltaMicro :: int
  ug_debtDeltaMicro :: int

definition unitGivebackRows :: "uuid \<Rightarrow> uuid \<Rightarrow> string \<Rightarrow> db \<Rightarrow> UnitGivebackRow list result" where
  "unitGivebackRows a windowId givebackPrefix db =
     rbind (keyPrefixRange givebackPrefix) (\<lambda>(low, below).
       if \<not> starts_with givebackPrefix (''reinstate:window:'' @ windowId @ '':'') then Inl PlainError
       else all_results (map (\<lambda>x. rbind (signedMicro (lot_delta x)) (\<lambda>l. rbind (signedMicro (debt_delta x)) (\<lambda>d.
           Inr \<lparr>ug_key = idempotency_key x, ug_lot = led_lot x, ug_lotDeltaMicro = l, ug_debtDeltaMicro = d\<rparr>)))
         (sort_key led_id (filter (\<lambda>x. led_account x = a \<and> led_kind x = AdjustmentEntry \<and>
             starts_with (idempotency_key x) ''reinstate:'' \<and> low \<le> idempotency_key x \<and> idempotency_key x < below)
           (credit_ledger db)))))"

record UnitLot = ClawbackTargetLot +
  ul_kind :: CreditLotKind
  ul_consumedMicro :: int
  ul_takenMicro :: int
  ul_stillPaidMinor :: "int option"
  ul_expiresAt :: PgInstant
  ul_live :: bool
  ul_spendRank :: nat
  ul_createdAt :: PgInstant

text \<open>The sums over a lot's rows: what no task moved, what other units' claims took, what other
  units and returned credit brought in, and what reversals of this unit took and gave back.\<close>

definition non_task_rows :: "db \<Rightarrow> uuid \<Rightarrow> credit_ledger_row list" where
  "non_task_rows db i =
     filter (\<lambda>x. led_lot x = Some i \<and> led_kind x \<in> {Grant, ProrationGrant, TopUpEntry, Expiry, ProrationClawback,
         RefundClawback, AdjustmentEntry}) (credit_ledger db)"

definition own_claim :: "uuid list \<Rightarrow> string \<Rightarrow> bool" where
  "own_claim own k \<longleftrightarrow> split_part k 2 \<in> set own"

definition returned_key :: "string \<Rightarrow> bool" where
  "returned_key k \<longleftrightarrow> strpos_found '':returned:'' k \<or> strpos_found '':unclaimed:'' k"

definition others_claims :: "uuid list \<Rightarrow> credit_ledger_row \<Rightarrow> int" where
  "others_claims own x =
     (if starts_with (idempotency_key x) ''claim:'' \<and> \<not> own_claim own (idempotency_key x) then - lot_delta x else 0)"

definition given_in :: "string \<Rightarrow> credit_ledger_row \<Rightarrow> int" where
  "given_in prefix x =
     (if led_kind x = AdjustmentEntry \<and> starts_with (idempotency_key x) ''reinstate:'' \<and>
         (\<not> starts_with (idempotency_key x) prefix \<or> returned_key (idempotency_key x)) then lot_delta x else 0)"

definition taken_by :: "uuid list \<Rightarrow> string \<Rightarrow> credit_ledger_row \<Rightarrow> int" where
  "taken_by own prefix x =
     (if starts_with (idempotency_key x) ''claim:''
      then (if own_claim own (idempotency_key x) then - lot_delta x else 0)
      else if led_kind x \<in> {RefundClawback, ProrationClawback} then - lot_delta x
      else if led_kind x = AdjustmentEntry \<and> lot_delta x > 0 \<and> starts_with (idempotency_key x) prefix \<and>
              \<not> returned_key (idempotency_key x) then - lot_delta x
      else 0)"

definition toUnitLot :: "db \<Rightarrow> uuid list \<Rightarrow> string \<Rightarrow> credit_lot \<Rightarrow> UnitLot result" where
  "toUnitLot db own prefix l =
     (let rows = non_task_rows db (lot_id l);
          consumed = sum_by lot_delta rows - remaining l + sum_by (others_claims own) rows - sum_by (given_in prefix) rows
      in rbind (exactMicro (granted l)) (\<lambda>grantedMicro.
         rbind (exactMicro (sum_by (\<lambda>x. if led_kind x = Expiry then - lot_delta x else 0) rows)) (\<lambda>expired.
         rbind (exactMicro (remaining l)) (\<lambda>left.
         rbind (exactMicro (held l)) (\<lambda>heldMicro.
         rbind (signedMicro consumed) (\<lambda>consumedMicro.
         rbind (signedMicro (sum_by (taken_by own prefix) rows)) (\<lambda>taken.
         rbind (nullableMicro (lot_still_paid l)) (\<lambda>still.
           Inr \<lparr>tl_lot = lot_id l, tl_granted = grantedMicro, tl_expired = expired, tl_remaining = left, tl_held = heldMicro,
                tl_returned = (lot_kind l = Adjustment \<and> ends_with (grant_key l) '':returned''), ul_kind = lot_kind l,
                ul_consumedMicro = consumedMicro, ul_takenMicro = max 0 taken, ul_stillPaidMinor = still,
                ul_expiresAt = pg_instant (expires_at l), ul_live = live_lot (db_now db) l,
                ul_spendRank = CREDIT_LOT_SPEND_RANK (lot_kind l), ul_createdAt = pg_instant (lot_created l)\<rparr>))))))))"

definition unitLots :: "uuid \<Rightarrow> uuid \<Rightarrow> bool \<Rightarrow> string list \<Rightarrow> string \<Rightarrow> uuid list \<Rightarrow> db \<Rightarrow> UnitLot list result" where
  "unitLots a windowId drawnFromUnit prorationKeys givebackPrefix ownClawbackIds db =
     rbind (listParam ownClawbackIds) (\<lambda>own. rbind (listParam prorationKeys) (\<lambda>keys.
       all_results (map (toUnitLot db own givebackPrefix)
         (rev (sort_key (\<lambda>l. (lot_created l, lot_id l)) (filter (\<lambda>l. lot_account l = a \<and>
            (lot_window l = Some windowId \<and> lot_kind l = Monthly \<and> drawnFromUnit \<or>
             lot_window l = Some windowId \<and> lot_kind l = Proration \<and> grant_key l \<in> set keys \<or>
             lot_window l = None \<and> lot_kind l = Adjustment \<and> starts_with (grant_key l) givebackPrefix))
           (credit_lots db)))))))"

subsection \<open>Claims collected, lots to return to, standing disputes\<close>

record CollectedClaim =
  cc_clawbackId :: uuid
  cc_reservationId :: uuid
  cc_lotId :: uuid
  cc_micro :: int
  cc_row :: nat
  cc_at :: PgInstant

definition claim_rows :: "db \<Rightarrow> uuid \<Rightarrow> uuid \<Rightarrow> credit_ledger_row list" where
  "claim_rows db a i =
     filter (\<lambda>x. led_account x = a \<and> starts_with (idempotency_key x) ''claim:'' \<and>
         ''claim:'' @ i @ '':'' \<le> idempotency_key x \<and> idempotency_key x < ''claim:'' @ i @ '';'') (credit_ledger db)"

text \<open>A claim is paid from a lot, so every row names one.\<close>

definition collectedClaims :: "uuid \<Rightarrow> uuid list \<Rightarrow> db \<Rightarrow> CollectedClaim list result" where
  "collectedClaims a clawbackIds db =
     (if clawbackIds = [] then Inr []
      else rbind (listParam clawbackIds) (\<lambda>ids.
        all_results (map (\<lambda>x. rbind (exactMicro (- lot_delta x)) (\<lambda>micro. rbind (exactMicro (int (led_id x))) (\<lambda>_.
            Inr \<lparr>cc_clawbackId = split_part (idempotency_key x) 2, cc_reservationId = split_part (idempotency_key x) 3,
                 cc_lotId = or_else (led_lot x) [], cc_micro = micro, cc_row = led_id x,
                 cc_at = pg_instant (led_created x)\<rparr>)))
          (sort_key led_id (concat (map (claim_rows db a) ids))))))"

record ReturnLot =
  rl_lotId :: uuid
  rl_roomMicro :: int
  rl_expiresAt :: PgInstant
  rl_live :: bool
  rl_expired :: bool
  rl_unit :: "string option"

definition lot_unit :: "db \<Rightarrow> credit_lot \<Rightarrow> string option" where
  "lot_unit db l =
     (case lot_kind l of
        Adjustment \<Rightarrow>
          if lot_window l = None \<and> starts_with (grant_key l) ''reinstate:window:''
          then Some (colon_join [''window'', split_part (grant_key l) 3, split_part (grant_key l) 4]) else None
      | TopUp \<Rightarrow> None
      | _ \<Rightarrow> (case window_of_lot db l of None \<Rightarrow> None
            | Some w \<Rightarrow> map_option (\<lambda>ref. colon_join [''window'', win_id w, ref]) (lot_coverage db l)))"

definition toReturnLot :: "db \<Rightarrow> credit_lot \<Rightarrow> ReturnLot result" where
  "toReturnLot db l =
     rbind (exactMicro (granted l - remaining l)) (\<lambda>room.
       Inr \<lparr>rl_lotId = lot_id l, rl_roomMicro = room, rl_expiresAt = pg_instant (expires_at l),
            rl_live = live_lot (db_now db) l, rl_expired = (revoked_at l = None \<and> expires_at l \<le> db_now db),
            rl_unit = (case lot_unit db l of None \<Rightarrow> None | Some u \<Rightarrow> if parseUnitTargetKey u \<noteq> None then Some u else None)\<rparr>)"

definition lotsForReturn :: "uuid \<Rightarrow> uuid list \<Rightarrow> db \<Rightarrow> ReturnLot list result" where
  "lotsForReturn a lotIds db =
     (if lotIds = [] then Inr []
      else rbind (listParam lotIds) (\<lambda>ids.
        all_results (map (toReturnLot db)
          (sort_key lot_id (filter (\<lambda>l. lot_account l = a \<and> lot_id l \<in> set ids) (credit_lots db))))))"

definition clawbackTakes :: "uuid \<Rightarrow> string \<Rightarrow> uuid list \<Rightarrow> db \<Rightarrow> (uuid \<times> int) list result" where
  "clawbackTakes a keyPrefix lotIds db =
     (if lotIds = [] then Inr []
      else rbind (listParam (map (\<lambda>i. keyPrefix @ '':'' @ i) lotIds)) (\<lambda>keys.
        all_results (map (\<lambda>x. rbind (exactMicro (- lot_delta x)) (\<lambda>micro. Inr (or_else (led_lot x) [], micro)))
          (sort_key led_id (filter (\<lambda>x. led_account x = a \<and> idempotency_key x \<in> set keys \<and>
              led_kind x \<in> {RefundClawback, ProrationClawback}) (credit_ledger db))))))"

definition ledgerMark :: "uuid \<Rightarrow> db \<Rightarrow> int result" where
  "ledgerMark a db = exactMicro (int (fold (\<lambda>x m. max m (led_id x)) (filter (\<lambda>x. led_account x = a) (credit_ledger db)) 0))"

text \<open>A target of a whole invoice, or of one of its units.\<close>

definition target_of_invoice :: "string \<Rightarrow> string \<Rightarrow> bool" where
  "target_of_invoice ref k \<longleftrightarrow> k = ''invoice:'' @ ref \<or> ends_with k ('':'' @ ref)"

definition standing_caps :: "uuid \<Rightarrow> string \<Rightarrow> credit_clawback \<Rightarrow> bool" where
  "standing_caps a ref c \<longleftrightarrow>
     cb_account c = a \<and> cb_state c = Applied \<and> cb_source c \<in> {''stripe_refund'', ''stripe_dispute''} \<and>
     cb_cap_spent c \<noteq> None \<and>
     (cb_target_key c = ''invoice:'' @ ref \<or>
      starts_with (cb_target_key c) ''window:'' \<and> ends_with (cb_target_key c) ('':'' @ ref))"

definition standingCapSpent :: "uuid \<Rightarrow> string \<Rightarrow> db \<Rightarrow> int option result" where
  "standingCapSpent a ref db =
     (case rev (sort_key (\<lambda>c. (case cb_ledger_mark c of None \<Rightarrow> - 1 | Some m \<Rightarrow> int m, cb_created c, cb_id c))
             (filter (standing_caps a ref) (credit_clawbacks db))) of
        [] \<Rightarrow> Inr None
      | c # _ \<Rightarrow> rbind (exactMicro (or_0 (cb_cap_spent c))) (\<lambda>v. Inr (Some v)))"

definition dispute_row :: "uuid \<Rightarrow> string \<Rightarrow> credit_clawback \<Rightarrow> bool" where
  "dispute_row a ref c \<longleftrightarrow>
     cb_account c = a \<and> cb_source c = ''stripe_dispute'' \<and> cb_state c = Applied \<and> colon_free (cb_source_ref c) \<and>
     target_of_invoice ref (cb_target_key c)"

definition newestStandingDispute :: "uuid \<Rightarrow> string \<Rightarrow> db \<Rightarrow> string option" where
  "newestStandingDispute a ref db =
     (case rev (clawbacks_in_order (filter (\<lambda>c. dispute_row a ref c \<and> cb_disputed c \<noteq> None) (credit_clawbacks db))) of
        [] \<Rightarrow> None | c # _ \<Rightarrow> Some (cb_source_ref c))"

record StandingDispute =
  sd_disputeId :: string
  sd_amountMinor :: int

text \<open>One row per dispute id: the largest amount recorded, and whether a row from before migration 0139 is among them.\<close>

definition max_option :: "int option list \<Rightarrow> int option" where
  "max_option vs = fold (\<lambda>v m. case v of None \<Rightarrow> m | Some x \<Rightarrow> (case m of None \<Rightarrow> Some x | Some y \<Rightarrow> Some (max x y))) vs None"

definition standingDisputes :: "uuid \<Rightarrow> string \<Rightarrow> db \<Rightarrow> StandingDispute list result" where
  "standingDisputes a ref db =
     (let rows = filter (dispute_row a ref) (credit_clawbacks db);
          groups = map (\<lambda>i. (i, filter (\<lambda>c. cb_source_ref c = i) rows)) (sort (remdups (map cb_source_ref rows)));
          amount = (\<lambda>cs. max_option (map cb_disputed cs));
          legacy = (\<lambda>cs. \<exists>c\<in>set cs. cb_disputed c = None \<and> cb_ledger_mark c = None)
      in if \<exists>g\<in>set groups. legacy (snd g) \<and> amount (snd g) = None then Inl CreditLegacyDisputeError
         else all_results (map (\<lambda>g. rbind (exactMicro (or_0 (amount (snd g)))) (\<lambda>x.
                Inr \<lparr>sd_disputeId = fst g, sd_amountMinor = x\<rparr>))
              (filter (\<lambda>g. amount (snd g) \<noteq> None) groups)))"

text \<open>A dispute's own rows, and those a sweep of a standing dispute wrote under \<^verbatim>\<open>dispute:rf...\<close>, but not those its win writes.\<close>

definition of_dispute :: "string \<Rightarrow> credit_clawback \<Rightarrow> bool" where
  "of_dispute disputeId c \<longleftrightarrow>
     cb_source c = ''stripe_dispute'' \<and>
     (cb_source_ref c = disputeId \<or>
      starts_with (cb_source_ref c) (disputeId @ '':'') \<and> \<not> starts_with (cb_source_ref c) (disputeId @ '':won''))"

record DisputeStoodSince =
  ds_mark :: int
  ds_at :: PgInstant

definition disputeStoodSince :: "uuid \<Rightarrow> string \<Rightarrow> db \<Rightarrow> DisputeStoodSince option result" where
  "disputeStoodSince a disputeId db =
     (case filter (\<lambda>c. cb_account c = a \<and> of_dispute disputeId c) (credit_clawbacks db) of
        [] \<Rightarrow> Inr None
      | c # cs \<Rightarrow>
          rbind (if \<exists>x\<in>set (c # cs). cb_ledger_mark x = None then Inr 0
                 else exactMicro (fold (\<lambda>x m. min m (int (or_else (cb_ledger_mark x) 0))) cs (int (or_else (cb_ledger_mark c) 0))))
            (\<lambda>mark. Inr (Some \<lparr>ds_mark = mark, ds_at = pg_instant (fold (\<lambda>x t. min t (cb_created x)) cs (cb_created c))\<rparr>)))"

record UsedSince =
  ud_latestExpiry :: "PgInstant option"
  ud_lotIds :: "uuid list"

definition used_since :: "db \<Rightarrow> DisputeStoodSince \<Rightarrow> credit_lot \<Rightarrow> bool" where
  "used_since db since l \<longleftrightarrow>
     list_ex (\<lambda>x. led_lot x = Some (lot_id l) \<and> led_kind x \<in> {TaskCharge, DebtRepayment} \<and> int (led_id x) > ds_mark since)
       (credit_ledger db) \<or>
     list_ex (\<lambda>h. hold_lot h = lot_id l \<and>
        (case released_at h of None \<Rightarrow> True | Some t \<Rightarrow> t > timestamptz (ds_at since))) (credit_reservation_holds db)"

definition latestExpiryUsedSince :: "uuid \<Rightarrow> DisputeStoodSince \<Rightarrow> db \<Rightarrow> UsedSince" where
  "latestExpiryUsedSince a since db =
     (let ls = sort_key (\<lambda>l. (- expires_at l, lot_id l))
            (filter (\<lambda>l. lot_account l = a \<and> used_since db since l) (credit_lots db))
      in \<lparr>ud_latestExpiry = (case ls of [] \<Rightarrow> None | l # _ \<Rightarrow> Some (pg_instant (expires_at l))), ud_lotIds = map lot_id ls\<rparr>)"

definition databaseNow :: "db \<Rightarrow> PgInstant" where
  "databaseNow db = pg_instant (db_now db)"

definition aMonthFromNow :: "db \<Rightarrow> PgInstant" where
  "aMonthFromNow db = pg_instant (month_time (db_now db) 1)"

definition clawbacksForSource :: "string \<Rightarrow> string \<Rightarrow> db \<Rightarrow> CreditClawbackRecord list result" where
  "clawbacksForSource source sourceRef db =
     all_results (map toClawbackRecord
       (clawbacks_in_order (filter (\<lambda>c. cb_source c = source \<and> cb_source_ref c = sourceRef) (credit_clawbacks db))))"

definition appliedDisputeClawbacks :: "string \<Rightarrow> db \<Rightarrow> CreditClawbackRecord list result" where
  "appliedDisputeClawbacks disputeId db =
     all_results (map toClawbackRecord
       (clawbacks_in_order (filter (\<lambda>c. cb_state c = Applied \<and> of_dispute disputeId c) (credit_clawbacks db))))"

end
