(* ===== verification/Billing_Coverage.thy ===== *)
theory Billing_Coverage
  imports Window_Repo
begin

section \<open>What the billing tables say an account has paid for\<close>

text \<open>
  The three queries of \<^verbatim>\<open>db/credit-windows-repo.ts\<close> that read the billing tables: \<open>coverageCandidates\<close> (which coverage a
  new window may be drawn from, and its month), \<open>windowCovers\<close> (the window over now and every paid
  coverage of it, with the levels it earns shown and undisputed) and \<open>invoicePayment\<close>. The billing tables are those of
  another service, in the columns the queries read. A level is an allowance scaled by what is still paid; in the
  query the products are 64-bit, which the allowances of the plan table fit up to payments of
  three hundred million minor units, and the model computes them exactly.
\<close>

subsection \<open>The billing tables\<close>

record stripe_payment =
  pay_invoice :: string
  pay_account :: uuid
  pay_subscription :: "string option"
  pay_charge :: "string option"
  pay_amount :: int
  pay_refunded :: int
  pay_disputed :: int
  pay_lineKind :: "string option"
  pay_lineTier :: "AccountTier option"
  pay_lineInterval :: "string option"
  pay_lineStart :: "instant option"
  pay_lineEnd :: "instant option"
  pay_paidAt :: instant

record stripe_subscription =
  ssub_account :: uuid
  ssub_stripe :: string
  ssub_tier :: AccountTier
  ssub_status :: string
  ssub_tierSince :: "instant option"

record crypto_entitlement =
  ce_account :: uuid
  ce_order :: string
  ce_tier :: AccountTier
  ce_starts :: instant
  ce_expires :: instant

record plan_override =
  po_account :: uuid
  po_monthlyCredits :: int
  po_anchor :: instant
  po_ends :: "instant option"
  po_effectiveSince :: instant

record billing =
  bill_payments :: "stripe_payment list"
  bill_subscriptions :: "stripe_subscription list"
  bill_entitlements :: "crypto_entitlement list"
  bill_overrides :: "plan_override list"
  bill_accounts :: "(uuid \<times> AccountTier) list"

text \<open>The CHECKs of \<^verbatim>\<open>billing_invoice_payments\<close> the levels rest on.\<close>

definition payment_checks :: "stripe_payment \<Rightarrow> bool" where
  "payment_checks p \<longleftrightarrow>
     0 \<le> pay_amount p \<and> 0 \<le> pay_refunded p \<and> pay_refunded p \<le> pay_amount p \<and>
     0 \<le> pay_disputed p \<and> pay_disputed p \<le> pay_amount p \<and>
     (pay_lineKind p = None \<or> pay_lineKind p \<in> {Some ''period'', Some ''proration_up''}) \<and>
     (case (pay_lineStart p, pay_lineEnd p) of (Some s, Some e) \<Rightarrow> s < e | _ \<Rightarrow> True)"

subsection \<open>The plan table of a query\<close>

definition ACCOUNT_TIERS :: "AccountTier list" where
  "ACCOUNT_TIERS = [tier_free, solo_manual, team_manual, agency_manual, api_starter, api_builder, api_scale, enterprise]"

fun tier_text :: "AccountTier \<Rightarrow> string" where
  "tier_text tier_free = ''free''" | "tier_text solo_manual = ''solo_manual''" | "tier_text team_manual = ''team_manual''"
| "tier_text agency_manual = ''agency_manual''" | "tier_text api_starter = ''api_starter''"
| "tier_text api_builder = ''api_builder''" | "tier_text api_scale = ''api_scale''" | "tier_text enterprise = ''enterprise''"

lemma tier_text_reads: "AccountTierSchema (tier_text t) = Some t"
  by (cases t) (simp_all add: AccountTierSchema_def)

definition planAllowancesJson :: "(AccountTier \<times> int) list" where
  "planAllowancesJson = List.map_filter (\<lambda>tier.
     case planMonthlyCreditsMicro tier of Inr (Some micro) \<Rightarrow> if micro > 0 then Some (tier, micro) else None | _ \<Rightarrow> None)
     ACCOUNT_TIERS"

definition plan_allowance :: "AccountTier \<Rightarrow> int option" where
  "plan_allowance tier = map_of planAllowancesJson tier"

subsection \<open>What a paid line still earns\<close>

text \<open>The undisputed level the window had before the upgrade a line paid for; 0 when no step names it.\<close>

definition first_step_of :: "db \<Rightarrow> uuid \<Rightarrow> string \<Rightarrow> level_change option" where
  "first_step_of db a invoice =
     first_of (sort_key (\<lambda>s. (lc_created s, lc_window s, lc_seq s))
       (filter (\<lambda>s. lc_reason s = PlanChange \<and> lc_source_ref s = Some invoice \<and>
          list_ex (\<lambda>w. win_id w = lc_window s \<and> win_account w = a) (credit_windows db)) (credit_window_level_changes db)))"

definition step_from :: "level_change \<Rightarrow> int" where
  "step_from s = or_else (lc_undisputed_from s) (lc_from s)"

definition UP_LINE_FROM :: "db \<Rightarrow> stripe_payment \<Rightarrow> int" where
  "UP_LINE_FROM db p = (case first_step_of db (pay_account p) (pay_invoice p) of None \<Rightarrow> 0 | Some s \<Rightarrow> step_from s)"

definition line_level :: "int \<Rightarrow> int \<Rightarrow> bool \<Rightarrow> int \<Rightarrow> int \<Rightarrow> int" where
  "line_level allowance paid up upFrom reversed =
     (if paid = 0 then allowance
      else let still = max (paid - reversed) 0
           in trunc_div (trunc_div (allowance * still + (if up \<and> reversed > 0 then min allowance upFrom * (paid - still) else 0))
                paid) 1000000 * 1000000)"

definition PAID_LINE_LEVEL :: "db \<Rightarrow> stripe_payment \<Rightarrow> int \<Rightarrow> int \<Rightarrow> int" where
  "PAID_LINE_LEVEL db p line mirror =
     line_level (min line mirror) (pay_amount p) (pay_lineKind p = Some ''proration_up'') (UP_LINE_FROM db p)
       (pay_refunded p + pay_disputed p)"

definition PAID_LINE_LEVEL_UNDISPUTED :: "db \<Rightarrow> stripe_payment \<Rightarrow> int \<Rightarrow> int \<Rightarrow> int" where
  "PAID_LINE_LEVEL_UNDISPUTED db p line mirror =
     line_level (min line mirror) (pay_amount p) (pay_lineKind p = Some ''proration_up'') (UP_LINE_FROM db p)
       (pay_refunded p)"

definition STILL_PAID_FOR :: "stripe_payment \<Rightarrow> bool" where
  "STILL_PAID_FOR p \<longleftrightarrow> pay_refunded p + pay_disputed p < pay_amount p \<or> pay_amount p = 0"

definition STILL_PAID_FOR_UNDISPUTED :: "stripe_payment \<Rightarrow> bool" where
  "STILL_PAID_FOR_UNDISPUTED p \<longleftrightarrow> pay_refunded p < pay_amount p \<or> pay_amount p = 0"

text \<open>A payment with its subscription and the allowances of the paid plan and of the subscription's plan.\<close>

definition paid_lines :: "billing \<Rightarrow> uuid \<Rightarrow> (stripe_payment \<times> stripe_subscription \<times> int \<times> int) list" where
  "paid_lines bill a =
     List.map_filter (\<lambda>(p, s).
         case (Option.bind (pay_lineTier p) plan_allowance, plan_allowance (ssub_tier s)) of
           (Some line, Some mirror) \<Rightarrow> Some (p, s, line, mirror)
         | _ \<Rightarrow> None)
       (filter (\<lambda>(p, s). pay_account p = a \<and> pay_subscription p = Some (ssub_stripe s) \<and> ssub_account s = pay_account p)
         (List.product (bill_payments bill) (bill_subscriptions bill)))"

definition line_over :: "instant \<Rightarrow> stripe_payment \<Rightarrow> (instant \<times> instant) option" where
  "line_over t p =
     (case (pay_lineStart p, pay_lineEnd p) of (Some s, Some e) \<Rightarrow> if s \<le> t \<and> t < e then Some (s, e) else None | _ \<Rightarrow> None)"

subsection \<open>The candidates of a new window\<close>

record coverage_source =
  cs_source :: window_source
  cs_sourceRef :: string
  cs_tier :: AccountTier
  cs_level :: int
  cs_undisputed :: int
  cs_byMonth :: bool
  cs_starts :: instant
  cs_paidEnd :: "instant option"

definition paid_sources :: "billing \<Rightarrow> uuid \<Rightarrow> db \<Rightarrow> coverage_source list" where
  "paid_sources bill a db =
     List.map_filter (\<lambda>(p, s, line, mirror).
         case (pay_lineInterval p, line_over (db_now db) p) of
           (Some interval, Some (starts, ends)) \<Rightarrow>
             if pay_lineKind p = Some ''period'' \<and> STILL_PAID_FOR_UNDISPUTED p \<and> ssub_status s = ''active''
             then Some \<lparr>cs_source = StripeInvoice, cs_sourceRef = pay_invoice p,
                        cs_tier = (if mirror < line then ssub_tier s else or_else (pay_lineTier p) (ssub_tier s)),
                        cs_level = PAID_LINE_LEVEL db p line mirror,
                        cs_undisputed = PAID_LINE_LEVEL_UNDISPUTED db p line mirror,
                        cs_byMonth = (interval = ''year''), cs_starts = starts, cs_paidEnd = Some ends\<rparr>
             else None
         | _ \<Rightarrow> None) (paid_lines bill a)"

definition crypto_sources :: "billing \<Rightarrow> uuid \<Rightarrow> db \<Rightarrow> coverage_source list" where
  "crypto_sources bill a db =
     List.map_filter (\<lambda>e.
         case plan_allowance (ce_tier e) of
           None \<Rightarrow> None
         | Some micro \<Rightarrow>
             if ce_account e = a \<and> ce_starts e \<le> db_now db \<and> db_now db < ce_expires e
             then Some \<lparr>cs_source = CryptoEntitlement, cs_sourceRef = ce_order e, cs_tier = ce_tier e, cs_level = micro,
                        cs_undisputed = micro, cs_byMonth = False, cs_starts = ce_starts e,
                        cs_paidEnd = Some (ce_expires e)\<rparr>
             else None) (bill_entitlements bill)"

definition override_live :: "instant \<Rightarrow> plan_override \<Rightarrow> bool" where
  "override_live t o' \<longleftrightarrow>
     po_anchor o' \<le> t \<and> po_effectiveSince o' \<le> t \<and> (case po_ends o' of None \<Rightarrow> True | Some e \<Rightarrow> t < e) \<and>
     po_monthlyCredits o' > 0"

definition PLAN_OVERRIDE_SOURCE_REF :: string where
  "PLAN_OVERRIDE_SOURCE_REF = ''override''"

definition override_sources :: "billing \<Rightarrow> uuid \<Rightarrow> db \<Rightarrow> coverage_source list" where
  "override_sources bill a db =
     List.map_filter (\<lambda>o'.
         case map_of (bill_accounts bill) (po_account o') of
           None \<Rightarrow> None
         | Some tier \<Rightarrow>
             if po_account o' = a \<and> override_live (db_now db) o'
             then Some \<lparr>cs_source = PlanOverride, cs_sourceRef = PLAN_OVERRIDE_SOURCE_REF, cs_tier = tier,
                        cs_level = po_monthlyCredits o' * 1000000, cs_undisputed = po_monthlyCredits o' * 1000000,
                        cs_byMonth = True, cs_starts = po_anchor o', cs_paidEnd = po_ends o'\<rparr>
             else None) (bill_overrides bill)"

text \<open>
  The natural month of a source: its own paid period, never shorter than a month, or the month counted
  from its anchor that contains the instant. \<^verbatim>\<open>timestamp + k months\<close> clamps the day, as \<open>month_time\<close> does.
\<close>

definition months_from :: "instant \<Rightarrow> instant \<Rightarrow> (instant \<times> instant) list" where
  "months_from anchor t =
     (let k0 = (getUTCFullYear t - getUTCFullYear anchor) * 12 + getUTCMonth t - getUTCMonth anchor
      in filter (\<lambda>(s, e). s \<le> t \<and> t < e)
           (map (\<lambda>k. (month_time anchor k, month_time anchor (k + 1))) [max 0 (k0 - 1)..k0 + 1]))"

definition natural_months :: "instant \<Rightarrow> coverage_source \<Rightarrow> (instant \<times> instant) list" where
  "natural_months t src =
     (if cs_byMonth src then months_from (cs_starts src) t
      else [(cs_starts src, max (or_else (cs_paidEnd src) (month_time (cs_starts src) 1)) (month_time (cs_starts src) 1))])"

definition latest_window_end :: "uuid \<Rightarrow> db \<Rightarrow> instant option" where
  "latest_window_end a db = max_option (map (\<lambda>w. Some (window_end w)) (filter (\<lambda>w. win_account w = a) (credit_windows db)))"

definition source_text :: "window_source \<Rightarrow> string" where
  "source_text s = (case s of StripeInvoice \<Rightarrow> ''stripe_invoice'' | CryptoEntitlement \<Rightarrow> ''crypto_entitlement''
     | PlanOverride \<Rightarrow> ''plan_override'')"

definition toCandidate :: "coverage_source \<Rightarrow> instant \<times> instant \<times> instant \<times> instant \<Rightarrow> CreditWindowCandidate result" where
  "toCandidate src m =
     (case m of (naturalStart, naturalEnd, windowStart, windowEnd) \<Rightarrow>
        rbind (exactMicro (cs_level src)) (\<lambda>level. rbind (exactMicro (cs_undisputed src)) (\<lambda>undisputed.
          Inr \<lparr>cand_source = cs_source src, cand_sourceRef = cs_sourceRef src, cand_tier = cs_tier src,
               cand_levelMicro = level, cand_undisputedLevelMicro = Some undisputed,
               cand_naturalStart = pg_instant naturalStart, cand_naturalEnd = pg_instant naturalEnd,
               cand_windowStart = pg_instant windowStart, cand_windowEnd = pg_instant windowEnd\<rparr>)))"

definition window_months :: "uuid \<Rightarrow> db \<Rightarrow> coverage_source \<Rightarrow> (coverage_source \<times> instant \<times> instant \<times> instant \<times> instant) list" where
  "window_months a db src =
     filter (\<lambda>(_, _, _, s, e). s \<le> db_now db \<and> db_now db < e)
       (map (\<lambda>(ns, ne). (src, ns, ne, max ns (or_else (latest_window_end a db) ns), min ne (or_else (cs_paidEnd src) ne)))
         (natural_months (db_now db) src))"

definition coverageCandidates :: "billing \<Rightarrow> uuid \<Rightarrow> db \<Rightarrow> CreditWindowCandidate list result" where
  "coverageCandidates bill a db =
     all_results (map (\<lambda>(src, m). toCandidate src m)
       (sort_key (\<lambda>(src, _, _, s, _). (- cs_undisputed src, s, source_text (cs_source src), cs_sourceRef src))
         (concat (map (window_months a db)
            (paid_sources bill a db @ crypto_sources bill a db @ override_sources bill a db)))))"

subsection \<open>The window over now and what covers it\<close>

record cover_row =
  cvr_source :: window_source
  cvr_sourceRef :: string
  cvr_lineKind :: "line_kind option"
  cvr_subscription :: "string option"
  cvr_active :: bool
  cvr_level :: "int option"
  cvr_undisputed :: "int option"
  cvr_stillPaid :: "int option"
  cvr_disputed :: bool
  cvr_upFrom :: instant
  cvr_downFrom :: instant

definition line_kind_of :: "string option \<Rightarrow> line_kind option" where
  "line_kind_of k = (if k = Some ''period'' then Some period_line else if k = Some ''proration_up'' then Some proration_up else None)"

definition paid_covers :: "billing \<Rightarrow> uuid \<Rightarrow> db \<Rightarrow> cover_row list" where
  "paid_covers bill a db =
     List.map_filter (\<lambda>(p, s, line, mirror).
         case (line_kind_of (pay_lineKind p), line_over (db_now db) p) of
           (Some kind, Some (starts, _)) \<Rightarrow>
             Some \<lparr>cvr_source = StripeInvoice, cvr_sourceRef = pay_invoice p, cvr_lineKind = Some kind,
                   cvr_subscription = pay_subscription p, cvr_active = (ssub_status s = ''active''),
                   cvr_level = (if STILL_PAID_FOR p then Some (PAID_LINE_LEVEL db p line mirror) else None),
                   cvr_undisputed =
                     (if STILL_PAID_FOR_UNDISPUTED p then Some (PAID_LINE_LEVEL_UNDISPUTED db p line mirror) else None),
                   cvr_stillPaid = (if pay_amount p > 0 then Some (max (pay_amount p - pay_refunded p) 0) else None),
                   cvr_disputed = (pay_disputed p > 0), cvr_upFrom = starts,
                   cvr_downFrom = or_else (ssub_tierSince s) (db_now db)\<rparr>
         | _ \<Rightarrow> None) (paid_lines bill a)"

definition standing_cover :: "coverage_source \<Rightarrow> instant \<Rightarrow> cover_row" where
  "standing_cover src since =
     \<lparr>cvr_source = cs_source src, cvr_sourceRef = cs_sourceRef src, cvr_lineKind = None, cvr_subscription = None,
      cvr_active = True, cvr_level = Some (cs_level src), cvr_undisputed = Some (cs_undisputed src), cvr_stillPaid = None,
      cvr_disputed = False, cvr_upFrom = since, cvr_downFrom = since\<rparr>"

definition override_covers :: "billing \<Rightarrow> uuid \<Rightarrow> db \<Rightarrow> cover_row list" where
  "override_covers bill a db =
     map (\<lambda>o'. \<lparr>cvr_source = PlanOverride, cvr_sourceRef = PLAN_OVERRIDE_SOURCE_REF, cvr_lineKind = None,
               cvr_subscription = None, cvr_active = True, cvr_level = Some (po_monthlyCredits o' * 1000000),
               cvr_undisputed = Some (po_monthlyCredits o' * 1000000), cvr_stillPaid = None, cvr_disputed = False,
               cvr_upFrom = po_effectiveSince o', cvr_downFrom = po_effectiveSince o'\<rparr>)
       (filter (\<lambda>o'. po_account o' = a \<and> override_live (db_now db) o') (bill_overrides bill))"

definition cover_rows :: "billing \<Rightarrow> uuid \<Rightarrow> db \<Rightarrow> cover_row list" where
  "cover_rows bill a db =
     paid_covers bill a db @ map (\<lambda>src. standing_cover src (cs_starts src)) (crypto_sources bill a db) @
     override_covers bill a db"

text \<open>A change is measured from its own start, clamped to the window so far.\<close>

definition clamped_from :: "credit_window \<Rightarrow> instant \<Rightarrow> instant \<Rightarrow> instant" where
  "clamped_from w t from_at = min (max from_at (window_start w)) t"

definition toCover :: "credit_window \<Rightarrow> instant \<Rightarrow> cover_row \<Rightarrow> WindowCover result" where
  "toCover w t r =
     (let up = clamped_from w t (cvr_upFrom r); down = clamped_from w t (cvr_downFrom r)
      in rbind (nullableMicro (cvr_level r)) (\<lambda>level.
         rbind (nullableMicro (cvr_undisputed r)) (\<lambda>undisputed.
         rbind (nullableMicro (cvr_stillPaid r)) (\<lambda>still.
         rbind (exactMicro (1000 * (window_end w - up))) (\<lambda>upUs.
         rbind (exactMicro (1000 * (window_end w - down))) (\<lambda>downUs.
           Inr \<lparr>cov_source = cvr_source r, cov_sourceRef = cvr_sourceRef r, cov_lineKind = cvr_lineKind r,
                cov_subscriptionId = cvr_subscription r, cov_active = cvr_active r, cov_levelMicro = level,
                cov_undisputedLevelMicro = undisputed, cov_stillPaidMinor = still, cov_disputed = cvr_disputed r,
                cov_upAt = pg_instant up, cov_upMicroseconds = upUs, cov_downAt = pg_instant down,
                cov_downMicroseconds = downUs\<rparr>))))))"

definition windowCovers :: "billing \<Rightarrow> uuid \<Rightarrow> db \<Rightarrow> WindowCovers option result" where
  "windowCovers bill a db =
     (case find (\<lambda>w. win_account w = a \<and> window_now (db_now db) w) (credit_windows db) of
        None \<Rightarrow> Inr None
      | Some w \<Rightarrow>
          rbind (all_results (map (toCover w (db_now db))
              (sort_key (\<lambda>r. (source_text (cvr_source r), cvr_sourceRef r)) (cover_rows bill a db)))) (\<lambda>covers.
          rbind (exactMicro (win_level w)) (\<lambda>level.
          rbind (exactMicro (or_else (win_undisputed_level w) (win_level w))) (\<lambda>undisputed.
          rbind (exactMicro (1000 * (natural_end w - natural_start w))) (\<lambda>naturalUs.
          rbind (exactMicro (1000 * (window_end w - db_now db))) (\<lambda>nowUs.
            Inr (Some \<lparr>wc_windowId = win_id w, wc_source = win_source w, wc_sourceRef = win_source_ref w,
                       wc_levelMicro = level, wc_undisputedLevelMicro = undisputed,
                       wc_undisputedRecorded = (win_undisputed_level w \<noteq> None), wc_levelSeq = win_level_seq w,
                       wc_windowEnd = pg_instant (window_end w), wc_naturalMicroseconds = naturalUs,
                       wc_nowAt = pg_instant (db_now db), wc_nowMicroseconds = nowUs, wc_covers = covers\<rparr>)))))))"

subsection \<open>One payment\<close>

definition invoicePayment :: "billing \<Rightarrow> uuid \<Rightarrow> string \<Rightarrow> db \<Rightarrow> InvoicePaymentFacts option result" where
  "invoicePayment bill a invoice db =
     (case find (\<lambda>p. pay_invoice p = invoice \<and> pay_account p = a) (bill_payments bill) of
        None \<Rightarrow> Inr None
      | Some p \<Rightarrow>
          rbind (exactMicro (pay_amount p)) (\<lambda>paid.
          rbind (exactMicro (pay_refunded p)) (\<lambda>refunded.
          rbind (exactMicro (pay_disputed p)) (\<lambda>disputed.
          rbind (nullableMicro (map_option step_from (first_step_of db a invoice))) (\<lambda>upFrom.
            Inr (Some \<lparr>if_stripeInvoiceId = pay_invoice p, if_accountId = pay_account p, if_amountPaidMinor = paid,
                       if_refundedMinor = refunded, if_disputedMinor = disputed, if_lineKind = pay_lineKind p,
                       if_lineInterval = pay_lineInterval p, if_lineTier = map_option tier_text (pay_lineTier p),
                       if_linePeriodStart = map_option pg_instant (pay_lineStart p),
                       if_linePeriodEnd = map_option pg_instant (pay_lineEnd p), if_upgradeFromMicro = upFrom\<rparr>))))))"

text \<open>What the payment behind an invoice still pays, refunds taken off.\<close>

definition still_paid_of :: "billing \<Rightarrow> uuid \<Rightarrow> string \<Rightarrow> int option" where
  "still_paid_of bill a invoice =
     map_option (\<lambda>p. max (pay_amount p - pay_refunded p) 0)
       (find (\<lambda>p. pay_invoice p = invoice \<and> pay_account p = a) (bill_payments bill))"

end
