(* ===== verification/Window_Writes.thy ===== *)
theory Window_Writes
  imports Billing_Coverage
begin

section \<open>Opening a window, granting it and moving its level\<close>

text \<open>
  The statements of \<^verbatim>\<open>db/credit-windows-repo.ts\<close> that write: a window, its monthly lot, a change of its
  level and the lot of an upgrade, and what becomes of a clawback once written. Each is the row the code inserts, the
  CHECKs and unique keys of migrations 0130, 0136, 0137 and 0139 it meets, and the guard triggers. \<open>new_id\<close> is
  \<^verbatim>\<open>gen_random_uuid()\<close>.
\<close>

subsection \<open>A window\<close>

definition window_row_checks :: "credit_window \<Rightarrow> bool" where
  "window_row_checks w \<longleftrightarrow>
     1 \<le> length (win_source_ref w) \<and> length (win_source_ref w) \<le> 200 \<and>
     natural_start w \<le> window_start w \<and> window_start w < window_end w \<and> window_end w \<le> natural_end w \<and>
     window_start w \<le> win_created w \<and>
     0 \<le> win_level w \<and> win_level w mod 1000000 = 0 \<and>
     (case win_undisputed_level w of None \<Rightarrow> True | Some u \<Rightarrow> 0 \<le> u \<and> u mod 1000000 = 0)"

text \<open>The primary key, the unique month of a source, and the exclusion of overlapping windows of an account.\<close>

definition same_month :: "uuid \<Rightarrow> window_source \<Rightarrow> string \<Rightarrow> instant \<Rightarrow> credit_window \<Rightarrow> bool" where
  "same_month a source ref start w \<longleftrightarrow>
     win_account w = a \<and> win_source w = source \<and> win_source_ref w = ref \<and> natural_start w = start"

definition windows_conflict :: "credit_window \<Rightarrow> credit_window \<Rightarrow> bool" where
  "windows_conflict x w \<longleftrightarrow>
     win_id x = win_id w \<or> same_month (win_account x) (win_source x) (win_source_ref x) (natural_start x) w \<or>
     win_account x = win_account w \<and> window_start x < window_end w \<and> window_start w < window_end x"

definition window_row :: "uuid \<Rightarrow> uuid \<Rightarrow> instant \<Rightarrow> CreditWindowCandidate \<Rightarrow> credit_window" where
  "window_row i a t c =
     \<lparr>win_id = i, win_account = a, win_source = cand_source c, win_source_ref = cand_sourceRef c,
      natural_start = timestamptz (cand_naturalStart c), natural_end = timestamptz (cand_naturalEnd c),
      window_start = timestamptz (cand_windowStart c), window_end = timestamptz (cand_windowEnd c),
      win_tier = tier_text (cand_tier c), win_level = cand_levelMicro c,
      win_undisputed_level = Some (or_else (cand_undisputedLevelMicro c) (cand_levelMicro c)), win_level_seq = 0,
      win_created = t\<rparr>"

datatype WriteWindowResult = WindowCreated uuid | WindowExisting uuid | WindowCovered

definition writeWindow :: "(db \<Rightarrow> uuid) \<Rightarrow> uuid \<Rightarrow> CreditWindowCandidate \<Rightarrow> WriteWindowResult statement" where
  "writeWindow new_id a c db =
     (let row = window_row (new_id db) a (db_now db) c;
          existing = (case find (same_month a (cand_source c) (cand_sourceRef c) (timestamptz (cand_naturalStart c)))
                        (credit_windows db) of
                        None \<Rightarrow> WindowCovered | Some w \<Rightarrow> WindowExisting (win_id w))
      in if \<not> window_now (db_now db) row then Inr (existing, db)
         else if \<not> window_row_checks row then Inl (SqlError 23514)
         else if list_ex (windows_conflict row) (credit_windows db) then Inr (existing, db)
         else Inr (WindowCreated (win_id row), db\<lparr>credit_windows := credit_windows db @ [row]\<rparr>))"

subsection \<open>A lot included in a window\<close>

text \<open>
  \<^verbatim>\<open>ON CONFLICT DO NOTHING\<close>: a taken id, a taken grant key and, for a monthly lot, a window that has one. The lot's
  window is read in the same statement, so its foreign key holds.
\<close>

definition insert_window_lot :: "uuid \<Rightarrow> lot_values \<Rightarrow> int option \<Rightarrow> db \<Rightarrow> db result" where
  "insert_window_lot i v still db =
     (if \<not> lot_row_checks v \<or> (case still of None \<Rightarrow> False | Some x \<Rightarrow> x < 0) then Inl (SqlError 23514)
      else if list_ex (\<lambda>l. lot_id l = i \<or> grant_key l = nl_grant_key v \<or>
                nl_kind v = Monthly \<and> lot_kind l = Monthly \<and> lot_window l = nl_window v) (credit_lots db) then Inr db
      else Inr (db\<lparr>credit_lots := credit_lots db @ [(new_lot_row i v db)\<lparr>lot_still_paid := still\<rparr>]\<rparr>))"

record MonthlyLot =
  ml_lotId :: uuid
  ml_grantedMicro :: int

text \<open>The window's share of its natural month, in whole credits: \<^verbatim>\<open>div\<close> of exact numerics truncates.\<close>

definition window_share :: "credit_window \<Rightarrow> int" where
  "window_share w =
     trunc_div (or_else (win_undisputed_level w) (win_level w) * (1000 * (window_end w - window_start w)))
       (1000 * (natural_end w - natural_start w) * 1000000) * 1000000"

definition monthly_lot_values :: "credit_window \<Rightarrow> lot_values" where
  "monthly_lot_values w =
     \<lparr>nl_account = win_account w, nl_kind = Monthly, nl_window = Some (win_id w), nl_grant_key = ''window:'' @ win_id w,
      nl_granted = window_share w, nl_starts = window_start w, nl_expires = window_end w\<rparr>"

definition find_window :: "uuid \<Rightarrow> uuid \<Rightarrow> db \<Rightarrow> credit_window option" where
  "find_window a i db = find (\<lambda>w. win_id w = i \<and> win_account w = a) (credit_windows db)"

definition ensureMonthlyLot :: "billing \<Rightarrow> (db \<Rightarrow> uuid) \<Rightarrow> uuid \<Rightarrow> uuid \<Rightarrow> MonthlyLot option statement" where
  "ensureMonthlyLot bill new_id a windowId db =
     rbind (case find_window a windowId db of
              None \<Rightarrow> Inr db
            | Some w \<Rightarrow>
                if window_share w > 0
                then insert_window_lot (new_id db) (monthly_lot_values w)
                       (if win_source w = StripeInvoice then still_paid_of bill a (win_source_ref w) else None) db
                else Inr db) (\<lambda>db1.
       (case find (\<lambda>l. lot_window l = Some windowId \<and> lot_account l = a \<and> lot_kind l = Monthly) (credit_lots db1) of
          None \<Rightarrow> Inr (None, db1)
        | Some l \<Rightarrow> rbind (exactMicro (granted l)) (\<lambda>micro.
            Inr (Some \<lparr>ml_lotId = lot_id l, ml_grantedMicro = micro\<rparr>, db1))))"

subsection \<open>A change of level\<close>

record CreditWindowLevelChange =
  ch_accountId :: uuid
  ch_windowId :: uuid
  ch_seq :: nat
  ch_reason :: level_change_reason
  ch_fromLevelMicro :: int
  ch_toLevelMicro :: int
  ch_undisputedFromMicro :: "int option"
  ch_undisputedToMicro :: "int option"
  ch_effectiveAt :: PgInstant
  ch_deltaMicro :: int
  ch_sourceRef :: "string option"
  ch_stillPaidMinor :: "int option"

definition undisputed_or_level :: "credit_window \<Rightarrow> int" where
  "undisputed_or_level w = or_else (win_undisputed_level w) (win_level w)"

definition level_change_checks :: "level_change \<Rightarrow> bool" where
  "level_change_checks s \<longleftrightarrow>
     1 \<le> lc_seq s \<and> 0 \<le> lc_from s \<and> lc_from s mod 1000000 = 0 \<and> 0 \<le> lc_to s \<and> lc_to s mod 1000000 = 0 \<and>
     (lc_from s \<noteq> lc_to s \<or> lc_undisputed_from s \<noteq> lc_undisputed_to s) \<and> lc_delta s mod 1000000 = 0 \<and>
     (case lc_undisputed_from s of None \<Rightarrow> True | Some x \<Rightarrow> 0 \<le> x \<and> x mod 1000000 = 0) \<and>
     (case lc_undisputed_to s of None \<Rightarrow> True | Some x \<Rightarrow> 0 \<le> x \<and> x mod 1000000 = 0) \<and>
     (case lc_still_paid s of None \<Rightarrow> True | Some x \<Rightarrow> 0 \<le> x)"

text \<open>\<^verbatim>\<open>credit_windows_guard\<close>: the sequence rises by one exactly when one of the two levels moved.\<close>

definition window_guard :: "credit_window \<Rightarrow> credit_window \<Rightarrow> bool" where
  "window_guard old new \<longleftrightarrow>
     win_level_seq new = win_level_seq old +
       (if (win_level new, undisputed_or_level new) \<noteq> (win_level old, undisputed_or_level old) then 1 else 0)"

definition level_moves :: "CreditWindowLevelChange \<Rightarrow> credit_window \<Rightarrow> bool" where
  "level_moves ch w \<longleftrightarrow>
     win_id w = ch_windowId ch \<and> win_account w = ch_accountId ch \<and> int (win_level_seq w) = int (ch_seq ch) - 1 \<and>
     win_level w = ch_fromLevelMicro ch \<and>
     undisputed_or_level w = or_else (ch_undisputedFromMicro ch) (ch_fromLevelMicro ch)"

definition move_level :: "CreditWindowLevelChange \<Rightarrow> credit_window \<Rightarrow> credit_window" where
  "move_level ch w =
     w\<lparr>win_level := ch_toLevelMicro ch,
       win_undisputed_level := Some (or_else (ch_undisputedToMicro ch) (ch_toLevelMicro ch)),
       win_level_seq := Suc (win_level_seq w)\<rparr>"

definition level_change_row :: "instant \<Rightarrow> CreditWindowLevelChange \<Rightarrow> level_change" where
  "level_change_row t ch =
     \<lparr>lc_window = ch_windowId ch, lc_seq = ch_seq ch, lc_reason = ch_reason ch, lc_from = ch_fromLevelMicro ch,
      lc_to = ch_toLevelMicro ch, lc_effective = timestamptz (ch_effectiveAt ch), lc_delta = ch_deltaMicro ch,
      lc_created = t, lc_source_ref = ch_sourceRef ch,
      lc_undisputed_from = Some (or_else (ch_undisputedFromMicro ch) (ch_fromLevelMicro ch)),
      lc_undisputed_to = Some (or_else (ch_undisputedToMicro ch) (ch_toLevelMicro ch)),
      lc_still_paid = ch_stillPaidMinor ch\<rparr>"

definition setWindowLevel :: "CreditWindowLevelChange \<Rightarrow> unit statement" where
  "setWindowLevel ch db =
     (let moved = filter (level_moves ch) (credit_windows db);
          row = level_change_row (db_now db) ch
      in if \<not> list_all (\<lambda>w. window_guard w (move_level ch w)) moved then Inl (SqlError 55000)
         else if \<not> list_all (\<lambda>w. window_row_checks (move_level ch w)) moved then Inl (SqlError 23514)
         else if length moved \<noteq> 1 then Inl PlainError
         else if \<not> level_change_checks row then Inl (SqlError 23514)
         else if list_ex (\<lambda>s. lc_window s = lc_window row \<and> lc_seq s = lc_seq row) (credit_window_level_changes db)
         then Inl (SqlError 23505)
         else Inr ((), db\<lparr>credit_windows := update_where (level_moves ch) (move_level ch) (credit_windows db),
                         credit_window_level_changes := credit_window_level_changes db @ [row]\<rparr>))"

definition proration_lot_values :: "credit_window \<Rightarrow> nat \<Rightarrow> int \<Rightarrow> instant \<Rightarrow> lot_values" where
  "proration_lot_values w sq micro t =
     \<lparr>nl_account = win_account w, nl_kind = Proration, nl_window = Some (win_id w),
      nl_grant_key = prorationGrantKey (win_id w) sq, nl_granted = micro, nl_starts = t, nl_expires = window_end w\<rparr>"

text \<open>What the step says its payment still paid, or what its payment still pays now.\<close>

definition step_still_paid :: "billing \<Rightarrow> uuid \<Rightarrow> uuid \<Rightarrow> nat \<Rightarrow> db \<Rightarrow> int option" where
  "step_still_paid bill a windowId sq db =
     (case find (\<lambda>s. lc_window s = windowId \<and> lc_seq s = sq) (credit_window_level_changes db) of
        None \<Rightarrow> None
      | Some s \<Rightarrow>
          (case lc_still_paid s of
             Some x \<Rightarrow> Some x
           | None \<Rightarrow> (case lc_source_ref s of None \<Rightarrow> None | Some ref \<Rightarrow> still_paid_of bill a ref)))"

definition ensureProrationLot :: "billing \<Rightarrow> (db \<Rightarrow> uuid) \<Rightarrow> uuid \<Rightarrow> uuid \<Rightarrow> nat \<Rightarrow> int \<Rightarrow> MonthlyLot statement" where
  "ensureProrationLot bill new_id a windowId sq micro db =
     rbind (case find_window a windowId db of
              None \<Rightarrow> Inr db
            | Some w \<Rightarrow>
                if db_now db < window_end w
                then insert_window_lot (new_id db) (proration_lot_values w sq micro (db_now db))
                       (step_still_paid bill a windowId sq db) db
                else Inr db) (\<lambda>db1.
       (case find (\<lambda>l. grant_key l = prorationGrantKey windowId sq) (credit_lots db1) of
          None \<Rightarrow> Inl PlainError
        | Some l \<Rightarrow> rbind (exactMicro (granted l)) (\<lambda>v. Inr (\<lparr>ml_lotId = lot_id l, ml_grantedMicro = v\<rparr>, db1))))"

subsection \<open>What becomes of a clawback\<close>

definition releasePendingClaim :: "uuid \<Rightarrow> int \<Rightarrow> unit statement" where
  "releasePendingClaim cid x db =
     rbind (update_clawbacks (\<lambda>c. owes cid x c \<and> cb_state c = Applied) (move_pending x) db) (\<lambda>(rows, db1).
       if length rows = 1 then Inr ((), db1) else Inl PlainError)"

definition reverse_row :: "credit_clawback \<Rightarrow> credit_clawback" where
  "reverse_row c = c\<lparr>cb_state := Reversed, cb_pending := 0\<rparr>"

definition markClawbackReversed :: "uuid \<Rightarrow> unit statement" where
  "markClawbackReversed cid db =
     rbind (update_clawbacks (\<lambda>c. cb_id c = cid \<and> cb_state c = Applied) reverse_row db) (\<lambda>(_, db1). Inr ((), db1))"

text \<open>A reversal that took nothing is still on record, under the invoice, with a fraction for its measure.\<close>

record reversal_record =
  rr_accountId :: uuid
  rr_source :: string
  rr_sourceRef :: string
  rr_targetKey :: string
  rr_fractionPpm :: int
  rr_state :: clawback_state
  rr_disputedMinor :: "int option"
  rr_capSpentMicro :: "int option"
  rr_ledgerMark :: "int option"

definition reversal_record_row :: "uuid \<Rightarrow> instant \<Rightarrow> reversal_record \<Rightarrow> credit_clawback" where
  "reversal_record_row i t v =
     \<lparr>cb_id = i, cb_account = rr_accountId v, cb_source = rr_source v, cb_source_ref = rr_sourceRef v,
      cb_target_key = rr_targetKey v, cb_fraction = Some (min 1000000 (max 1 (rr_fractionPpm v))), cb_amount = None,
      cb_state = rr_state v, cb_clawed = Some 0, cb_pending = 0, cb_debt = Some 0, cb_created = t,
      cb_disputed = rr_disputedMinor v, cb_cap_spent = rr_capSpentMicro v,
      cb_ledger_mark = map_option nat (rr_ledgerMark v), cb_forgive_after = None\<rparr>"

definition insert_reversal_record :: "(db \<Rightarrow> uuid) \<Rightarrow> reversal_record \<Rightarrow> unit statement" where
  "insert_reversal_record new_id v db =
     rbind (optionalBigint (rr_capSpentMicro v)) (\<lambda>_. rbind (optionalBigint (rr_ledgerMark v)) (\<lambda>_.
       let row = reversal_record_row (new_id db) (db_now db) v
       in if \<not> clawback_checks row \<or> (case rr_disputedMinor v of None \<Rightarrow> False | Some x \<Rightarrow> x < 0) then Inl (SqlError 23514)
          else if list_ex (same_clawback_key row) (credit_clawbacks db) then Inr ((), db)
          else Inr ((), db\<lparr>credit_clawbacks := credit_clawbacks db @ [row]\<rparr>)))"

definition recordDispute :: "(db \<Rightarrow> uuid) \<Rightarrow> uuid \<Rightarrow> string \<Rightarrow> string \<Rightarrow> int \<Rightarrow> clawback_state \<Rightarrow> int option \<Rightarrow> int option
    \<Rightarrow> int option \<Rightarrow> unit statement" where
  "recordDispute new_id a disputeId targetKey fractionPpm state disputedMinor capSpent mark =
     insert_reversal_record new_id
       \<lparr>rr_accountId = a, rr_source = ''stripe_dispute'', rr_sourceRef = disputeId, rr_targetKey = targetKey,
        rr_fractionPpm = fractionPpm, rr_state = state, rr_disputedMinor = disputedMinor, rr_capSpentMicro = capSpent,
        rr_ledgerMark = mark\<rparr>"

definition recordRefund :: "(db \<Rightarrow> uuid) \<Rightarrow> uuid \<Rightarrow> string \<Rightarrow> string \<Rightarrow> int \<Rightarrow> int \<Rightarrow> int \<Rightarrow> unit statement" where
  "recordRefund new_id a sourceRef targetKey fractionPpm capSpent mark =
     insert_reversal_record new_id
       \<lparr>rr_accountId = a, rr_source = ''stripe_refund'', rr_sourceRef = sourceRef, rr_targetKey = targetKey,
        rr_fractionPpm = fractionPpm, rr_state = Applied, rr_disputedMinor = None, rr_capSpentMicro = Some capSpent,
        rr_ledgerMark = Some mark\<rparr>"

end
