(* ===== verification/Unit_States.thy ===== *)
theory Unit_States
  imports Window_Writes
begin

section \<open>What a unit stands at\<close>

text \<open>
  A unit is one payment's credit in one window. \<open>unitState\<close> of \<^verbatim>\<open>services/credit-grants.ts\<close> reads everything it is measured
  on: its lots, its clawbacks with what became of the debt and the claims of each, and the terms it was
  granted at; the functions over it say what it holds, what it spent and what reversals charged it beyond
  its own lots. A sum past JavaScript's safe integers, which the server would round, is kept exact.
\<close>

subsection \<open>A unit and its charges\<close>

record UnitCharge =
  uh_clawback :: UnitClawback
  uh_standing :: bool
  uh_outstandingMicro :: int
  uh_repaidLeft :: "(uuid \<times> int) list"
  uh_forgivenOtherMicro :: int
  uh_collectedLeft :: "(uuid \<times> int) list"
  uh_droppedMicro :: int

record UnitState =
  un_windowId :: uuid
  un_windowEnd :: PgInstant
  un_live :: bool
  un_coverageRef :: string
  un_targetKey :: string
  un_lots :: "UnitLot list"
  un_charges :: "UnitCharge list"
  un_terms :: "UnitKeepTerm list"

definition chargedBeyond :: "UnitCharge \<Rightarrow> int" where
  "chargedBeyond c =
     uh_outstandingMicro c + uh_forgivenOtherMicro c + uh_droppedMicro c + sum_by snd (uh_repaidLeft c) +
     sum_by snd (uh_collectedLeft c)"

definition standing_charges :: "UnitState \<Rightarrow> UnitCharge list" where
  "standing_charges u = filter uh_standing (un_charges u)"

definition pending_of :: "UnitCharge \<Rightarrow> int" where
  "pending_of c = uc_pendingMicro (uh_clawback c)"

definition chargedOf :: "UnitState \<Rightarrow> int" where
  "chargedOf u = sum_by (\<lambda>c. chargedBeyond c + pending_of c) (standing_charges u)"

definition consumedOf :: "UnitState \<Rightarrow> int" where
  "consumedOf u = sum_by ul_consumedMicro (un_lots u)"

definition heldOf :: "UnitState \<Rightarrow> int" where
  "heldOf u = sum_by tl_held (un_lots u)"

definition positionOf :: "UnitState \<Rightarrow> int" where
  "positionOf u = sum_by tl_remaining (un_lots u) + consumedOf u - chargedOf u"

definition claimableOf :: "UnitState \<Rightarrow> int" where
  "claimableOf u =
     max 0 (sum_by tl_held (filter (\<lambda>l. \<not> tl_returned l) (un_lots u)) - sum_by pending_of (standing_charges u))"

definition freeOf :: "UnitState \<Rightarrow> int" where
  "freeOf u =
     sum_by (\<lambda>l. min (max 0 (tl_remaining l - tl_held l)) (max 0 (tl_granted l - tl_expired l)))
       (filter (\<lambda>l. \<not> tl_returned l) (un_lots u))"

definition chargedBeyondOf :: "UnitState \<Rightarrow> int" where
  "chargedBeyondOf u = sum_by chargedBeyond (standing_charges u)"

definition cancellableBeyondOf :: "UnitState \<Rightarrow> int" where
  "cancellableBeyondOf u =
     sum_by (\<lambda>c. uh_outstandingMicro c + sum_by snd (uh_repaidLeft c) + sum_by snd (uh_collectedLeft c)) (standing_charges u)"

definition handedShareOf :: "UnitState \<Rightarrow> int" where
  "handedShareOf u =
     max 0 (positionOf u + sum_by tl_expired (un_lots u) +
       sum_by (\<lambda>c. uc_clawedMicro (uh_clawback c) + pending_of c + chargedBeyond c)
         (filter (\<lambda>c. \<not> uc_createdAt (uh_clawback c) < un_windowEnd u) (standing_charges u)))"

definition spentForCapOf :: "UnitState \<Rightarrow> int" where
  "spentForCapOf u =
     (let planChange = sum_by (\<lambda>c. chargedBeyond c + pending_of c)
            (filter (\<lambda>c. uc_source (uh_clawback c) = ''plan_change'') (standing_charges u))
      in max 0 (consumedOf u - min planChange (max 0 (chargedOf u))))"

subsection \<open>Credit already given back\<close>

fun takeFromParts :: "(uuid \<times> int) list \<Rightarrow> uuid \<Rightarrow> int \<Rightarrow> (uuid \<times> int) list \<times> int" where
  "takeFromParts [] i left = ([], left)"
| "takeFromParts ((j, x) # ps) i left =
     (if left \<le> 0 then ((j, x) # ps, left)
      else if j \<noteq> i \<or> x \<le> 0 then (case takeFromParts ps i left of (qs, l) \<Rightarrow> ((j, x) # qs, l))
      else let t = min left x in case takeFromParts ps i (left - t) of (qs, l) \<Rightarrow> ((j, x - t) # qs, l))"

text \<open>\<^verbatim>\<open>/^drop:(uuid):/\<close> and \<^verbatim>\<open>/:(returned|unclaimed):(uuid)(?::new)?$/\<close>, by the parts between colons.\<close>

definition DROP_REF :: "string \<Rightarrow> uuid option" where
  "DROP_REF s = (case split_colon s of d # i # _ # _ \<Rightarrow> if d = ''drop'' \<and> uuid_shape i then Some i else None | _ \<Rightarrow> None)"

definition RETURNED_ROW :: "string \<Rightarrow> (string \<times> uuid) option" where
  "RETURNED_ROW k =
     (let ps = rev (split_colon k);
          qs = (case ps of p # rest \<Rightarrow> if p = ''new'' then rest else ps | [] \<Rightarrow> [])
      in case qs of
           i # w # _ # _ \<Rightarrow> if uuid_shape i \<and> w \<in> {''returned'', ''unclaimed''} then Some (w, i) else None
         | _ \<Rightarrow> None)"

fun return_row :: "(UnitCharge \<Rightarrow> bool) \<Rightarrow> string \<Rightarrow> uuid \<Rightarrow> int \<Rightarrow> UnitCharge list \<Rightarrow> UnitCharge list" where
  "return_row owned word i left [] = []"
| "return_row owned word i left (c # cs) =
     (if \<not> owned c then c # return_row owned word i left cs
      else if word = ''returned''
      then (case takeFromParts (uh_repaidLeft c) i left of (ps, l) \<Rightarrow> c\<lparr>uh_repaidLeft := ps\<rparr> # return_row owned word i l cs)
      else (case takeFromParts (uh_collectedLeft c) i left of
              (ps, l) \<Rightarrow> c\<lparr>uh_collectedLeft := ps\<rparr> # return_row owned word i l cs))"

definition given_back_row :: "UnitGivebackRow \<Rightarrow> UnitCharge list \<Rightarrow> UnitCharge list" where
  "given_back_row r charges =
     (if ug_lot r = None \<or> ug_lotDeltaMicro r \<le> 0 then charges
      else case RETURNED_ROW (ug_key r) of
             None \<Rightarrow> charges
           | Some (word, i) \<Rightarrow>
               return_row (\<lambda>c. case UNDO_KEY (ug_key r) of None \<Rightarrow> True | Some u \<Rightarrow> uc_id (uh_clawback c) = u)
                 word i (ug_lotDeltaMicro r) charges)"

subsection \<open>Reading a unit\<close>

text \<open>A charge as it stands before the rows given back are taken off it.\<close>

definition charge_of :: "(uuid \<times> int) list \<Rightarrow> (uuid \<rightharpoonup> ClawbackDebtFate) \<Rightarrow> CollectedClaim list \<Rightarrow> UnitClawback \<Rightarrow> UnitCharge" where
  "charge_of dropped fates collected c =
     (let fate = fates (uc_id c)
      in \<lparr>uh_clawback = c, uh_standing = (uc_state c = Applied),
          uh_outstandingMicro = (case fate of None \<Rightarrow> 0 | Some f \<Rightarrow> cf_outstanding f),
          uh_repaidLeft = (case fate of None \<Rightarrow> [] | Some f \<Rightarrow> map (\<lambda>p. (rp_lot p, rp_micro p)) (cf_repaid f)),
          uh_forgivenOtherMicro =
            (case fate of None \<Rightarrow> uc_debtMicro c
             | Some f \<Rightarrow> cf_forgivenOther f + max 0 (uc_debtMicro c - cf_incurred f)),
          uh_collectedLeft = map (\<lambda>p. (cc_lotId p, cc_micro p)) (filter (\<lambda>p. cc_clawbackId p = uc_id c) collected),
          uh_droppedMicro = sum_by snd (filter (\<lambda>p. fst p = uc_id c) dropped)\<rparr>)"

definition unit_fates :: "uuid \<Rightarrow> string \<Rightarrow> UnitClawback list \<Rightarrow> db \<Rightarrow> (uuid \<rightharpoonup> ClawbackDebtFate) result" where
  "unit_fates a targetKey clawbacks db =
     (if \<exists>c\<in>set clawbacks. uc_debtMicro c > 0
      then rbind (debtEvents a db) (\<lambda>events. rbind (accountClawbacks a db) (\<lambda>acs.
             Inr (debtFates events acs
               (map (\<lambda>c. (uc_id c, targetKey)) (filter (\<lambda>c. uc_source c = ''plan_change'') clawbacks)))))
      else Inr Map.empty)"

definition unit_terms :: "bool \<Rightarrow> UnitLot list \<Rightarrow> UnitStep list \<Rightarrow> UnitKeepTerm list" where
  "unit_terms drawnFromUnit lots steps =
     (case (if drawnFromUnit then find (\<lambda>l. ul_kind l = Monthly) lots else None) of
        None \<Rightarrow> [] | Some l \<Rightarrow> [\<lparr>kt_micro = tl_granted l, kt_still_paid_at = ul_stillPaidMinor l\<rparr>]) @
     map (\<lambda>s. \<lparr>kt_micro = us_deltaMicro s, kt_still_paid_at = us_stillPaidMinor s\<rparr>)
       (filter (\<lambda>s. us_reason s = PlanChange \<and> us_deltaMicro s \<noteq> 0) steps)"

definition unitState :: "uuid \<Rightarrow> SourcedCreditWindow \<Rightarrow> string \<Rightarrow> db \<Rightarrow> UnitState result" where
  "unitState a window coverageRef db =
     (let windowId = scw_id window;
          targetKey = unitTargetKey windowId coverageRef;
          givebackPrefix = unitGivebackPrefix targetKey;
          drawnFromUnit = (scw_sourceRef window = coverageRef)
      in rbind (unitSteps a windowId coverageRef db) (\<lambda>steps.
         rbind (unitClawbacks a windowId targetKey
             (map (\<lambda>s. colon_join [windowId, dec (us_seq s)]) (filter (\<lambda>s. us_reason s = PlanChange) steps)) db) (\<lambda>rows.
         let dropped = List.map_filter (\<lambda>c. map_option (\<lambda>i. (i, or_0 (uc_amountMicro c))) (DROP_REF (uc_sourceRef c))) rows;
             clawbacks = filter (\<lambda>c. DROP_REF (uc_sourceRef c) = None) rows;
             ownIds = map uc_id clawbacks
         in rbind (unitLots a windowId drawnFromUnit (map (\<lambda>s. prorationGrantKey windowId (us_seq s)) steps) givebackPrefix
              ownIds db) (\<lambda>lots.
            rbind (collectedClaims a ownIds db) (\<lambda>claims.
            rbind (unit_fates a targetKey clawbacks db) (\<lambda>fates.
            rbind (unitGivebackRows a windowId givebackPrefix db) (\<lambda>back_rows.
              let collected = filter (\<lambda>p. cc_lotId p \<notin> tl_lot ` set lots) claims;
                  charges = map (charge_of dropped fates collected) clawbacks
              in Inr \<lparr>un_windowId = windowId, un_windowEnd = scw_windowEnd window, un_live = scw_current window,
                      un_coverageRef = coverageRef, un_targetKey = targetKey, un_lots = lots,
                      un_charges = fold given_back_row back_rows charges,
                      un_terms = unit_terms drawnFromUnit lots steps\<rparr>)))))))"

end
