(* ===== verification/Give_Backs.thy ===== *)
theory Give_Backs
  imports Unit_States "HOL-Library.AList"
begin

section \<open>Moving a unit to its target\<close>

text \<open>
  The private steps of \<^verbatim>\<open>CreditGrantsService\<close> that move one unit: \<open>takeFromUnit\<close> takes what it stands above its
  target, \<open>giveBack\<close> gives back what it stands below (its pending claims first, then what reversals charged it beyond its
  own lots, then credit taken from its lots), and \<open>reconcileUnit\<close> does the one or the other. A \<^verbatim>\<open>Map\<close>
  that is written in insertion order is an association list, updated in place. What a log line says of credit that had
  expired meanwhile is left out.
\<close>

record grants_env =
  ge_bill :: billing
  ge_new_id :: "db \<Rightarrow> uuid"
  ge_now :: Date

record CreditUnitEvent =
  ev_source :: string
  ev_ref :: string
  ev_ledgerKind :: clawback_kind
  ev_debtReason :: string
  ev_label :: string
  ev_disputedMinor :: "int option"

record ClawbackExtras =
  ex_capSpentMicro :: "int option"
  ex_ledgerMark :: int

record WonDisputeReturn =
  wd_ref :: string
  wd_usedExpiry :: "PgInstant option"
  wd_usedLots :: "uuid list"
  wd_windowEnd :: "PgInstant option"
  wd_now :: PgInstant
  wd_monthOn :: PgInstant

record ReturnPart =
  pt_lotId :: uuid
  pt_micro :: int
  pt_key :: string
  pt_marker :: string

definition reinstateGrantKey :: "string \<Rightarrow> string" where
  "reinstateGrantKey ref = ''reinstate:'' @ ref"

definition returnedGrantKey :: "string \<Rightarrow> string" where
  "returnedGrantKey ref = ''reinstate:'' @ ref @ '':returned''"

text \<open>\<^verbatim>\<open>[...new Set(xs)]\<close>\<close>

definition new_set :: "'a list \<Rightarrow> 'a list" where
  "new_set xs = rev (remdups (rev xs))"

lemma set_new_set [simp]: "set (new_set xs) = set xs"
  by (simp add: new_set_def)

definition adjust_entry :: "uuid \<Rightarrow> uuid \<Rightarrow> int \<Rightarrow> string \<Rightarrow> string \<Rightarrow> NewCreditLedgerEntry" where
  "adjust_entry a lot delta k reason =
     \<lparr>entry_account = a, entry_key = k, entry_actor = None, entry_session = None,
      entry_movement = AdjustLot lot delta (Some reason)\<rparr>"

definition forgive_entry :: "uuid \<Rightarrow> int \<Rightarrow> string \<Rightarrow> string \<Rightarrow> NewCreditLedgerEntry" where
  "forgive_entry a amount k reason =
     \<lparr>entry_account = a, entry_key = k, entry_actor = None, entry_session = None,
      entry_movement = ForgiveDebt amount (Some reason)\<rparr>"

definition grant_entry :: "uuid \<Rightarrow> uuid \<Rightarrow> int \<Rightarrow> string \<Rightarrow> string option \<Rightarrow> NewCreditLedgerEntry" where
  "grant_entry a lot amount k reason =
     \<lparr>entry_account = a, entry_key = k, entry_actor = None, entry_session = None,
      entry_movement = GrantOf lot amount reason\<rparr>"

subsection \<open>Returning credit to the lots it came from\<close>

record fresh_group =
  fg_owner :: "string option"
  fg_rows :: "(string \<times> int) list"
  fg_ends :: "PgInstant list"

record return_walk =
  rw_into :: "(string \<times> (uuid \<times> int)) list"
  rw_usedRoom :: "(uuid \<times> int) list"
  rw_fresh :: "(string \<times> fresh_group) list"
  rw_left :: int

definition add_at :: "'k \<Rightarrow> int \<Rightarrow> ('k \<times> int) list \<Rightarrow> ('k \<times> int) list" where
  "add_at k x m = AList.update k (or_else (map_of m k) 0 + x) m"

definition put_back :: "ReturnPart \<Rightarrow> int \<Rightarrow> return_walk \<Rightarrow> return_walk" where
  "put_back p x st =
     (if x \<le> 0 then st
      else let k = pt_key p @ '':'' @ pt_marker p @ pt_lotId p
           in st\<lparr>rw_usedRoom := add_at (pt_lotId p) x (rw_usedRoom st),
                 rw_into := AList.update k (pt_lotId p, (case map_of (rw_into st) k of None \<Rightarrow> 0 | Some (_, y) \<Rightarrow> y) + x)
                   (rw_into st)\<rparr>)"

definition put_new :: "ReturnPart \<Rightarrow> ReturnLot \<Rightarrow> int \<Rightarrow> return_walk \<Rightarrow> return_walk" where
  "put_new p lot rest st =
     (let owner = or_else (rl_unit lot) [];
          grp = or_else (map_of (rw_fresh st) owner) \<lparr>fg_owner = rl_unit lot, fg_rows = [], fg_ends = []\<rparr>;
          k = pt_key p @ '':'' @ pt_marker p @ pt_lotId p @ '':new''
      in st\<lparr>rw_fresh := AList.update owner
              (grp\<lparr>fg_rows := add_at k rest (fg_rows grp), fg_ends := fg_ends grp @ [rl_expiresAt lot]\<rparr>) (rw_fresh st)\<rparr>)"

definition skips_part :: "WonDisputeReturn option \<Rightarrow> ReturnPart \<Rightarrow> ReturnLot \<Rightarrow> bool" where
  "skips_part win p lot \<longleftrightarrow>
     \<not> rl_live lot \<and> \<not> rl_expired lot \<or>
     (case win of None \<Rightarrow> False
      | Some w \<Rightarrow> pt_marker p = [] \<and> \<not> rl_live lot \<and> \<not> (\<exists>i\<in>set (wd_usedLots w). i \<noteq> pt_lotId p))"

definition return_part :: "WonDisputeReturn option \<Rightarrow> (uuid \<times> ReturnLot) list \<Rightarrow> ReturnPart \<Rightarrow> return_walk \<Rightarrow> return_walk" where
  "return_part win lots p st =
     (if rw_left st \<le> 0 then st
      else case map_of lots (pt_lotId p) of
             None \<Rightarrow> st
           | Some lot \<Rightarrow>
               if skips_part win p lot then st
               else
                 let micro = min (rw_left st) (pt_micro p);
                     used = Option.bind win wd_usedExpiry;
                     fits = rl_live lot \<and> (case used of None \<Rightarrow> True | Some u \<Rightarrow> rl_expiresAt lot \<ge> u);
                     x = (if fits then min micro (rl_roomMicro lot - or_else (map_of (rw_usedRoom st) (pt_lotId p)) 0) else 0);
                     st1 = put_back p x (st\<lparr>rw_left := rw_left st - micro\<rparr>);
                     rest = micro - x
                 in if rest \<le> 0 \<or> win = None then st1 else put_new p lot rest st1)"

text \<open>The instant a new lot ends: the latest known end when it is still ahead, else a month from now.\<close>

definition latest_instant :: "PgInstant option list \<Rightarrow> PgInstant option" where
  "latest_instant es = max_option es"

definition returned_expiry :: "WonDisputeReturn \<Rightarrow> PgInstant list \<Rightarrow> PgInstant" where
  "returned_expiry c ends =
     (case latest_instant (wd_windowEnd c # wd_usedExpiry c # map Some ends) of
        None \<Rightarrow> wd_monthOn c
      | Some e \<Rightarrow> if e > wd_now c then e else wd_monthOn c)"

definition append_adjust :: "uuid \<Rightarrow> uuid \<Rightarrow> int \<Rightarrow> string \<Rightarrow> int \<Rightarrow> int statement" where
  "append_adjust a lot x k given =
     run_then (append_ledger (adjust_entry a lot x k ''dispute_reinstated'')) (\<lambda>(applied, _).
       give (if applied then given + x else given))"

definition new_return_lot :: "grants_env \<Rightarrow> uuid \<Rightarrow> WonDisputeReturn \<Rightarrow> string \<Rightarrow> fresh_group \<Rightarrow> int \<Rightarrow> int statement" where
  "new_return_lot env a c tag grp given =
     run_then (computing (ceilMicroToWholeCredits (sum_by snd (fg_rows grp)))) (\<lambda>micro db.
       run_then
         (insertLot (ge_new_id env db)
            \<lparr>nl_account = a, nl_kind = Adjustment, nl_window = None,
             nl_grant_key = (case fg_owner grp of
                None \<Rightarrow> ''returned:'' @ a @ '':'' @ tag | Some u \<Rightarrow> returnedGrantKey (u @ '':'' @ tag)),
             nl_granted = micro, nl_starts = floorToPriorMinute (ge_now env),
             nl_expires = timestamptz (returned_expiry c (fg_ends grp))\<rparr>)
         (\<lambda>(_, lot). each_do (\<lambda>(k, m). append_adjust a (lot_id lot) m k) (fg_rows grp) given) db)"

definition returnCredit :: "grants_env \<Rightarrow> uuid \<Rightarrow> ReturnPart list \<Rightarrow> int \<Rightarrow> (WonDisputeReturn \<times> string) option \<Rightarrow> int statement" where
  "returnCredit env a parts budget win =
     (let wanted = filter (\<lambda>p. pt_micro p > 0) parts
      in if wanted = [] \<or> budget \<le> 0 then give 0
         else run_then (reading (lotsForReturn a (new_set (map pt_lotId wanted)))) (\<lambda>rows.
           let lots = map (\<lambda>l. (rl_lotId l, l)) rows;
               st = fold (return_part (map_option fst win) lots) wanted
                      \<lparr>rw_into = [], rw_usedRoom = [], rw_fresh = [], rw_left = budget\<rparr>
           in run_then (each_do (\<lambda>(k, i, x). append_adjust a i x k) (rw_into st) 0) (\<lambda>given.
                case win of
                  None \<Rightarrow> give given
                | Some (c, tag) \<Rightarrow> each_do (\<lambda>(_, grp). new_return_lot env a c tag grp) (rw_fresh st) given)))"

subsection \<open>Taking from a unit\<close>

definition unit_reversal :: "UnitState \<Rightarrow> int \<Rightarrow> CreditUnitEvent \<Rightarrow> string \<Rightarrow> ClawbackExtras \<Rightarrow> ClawBackInput" where
  "unit_reversal state amount ev suffix extras =
     (let ref = ev_ref ev @ suffix
      in \<lparr>ci_source = ev_source ev, ci_sourceRef = ref, ci_targetKey = un_targetKey state, ci_windowId = un_windowId state,
          ci_amountMicro = amount, ci_ledgerKind = ev_ledgerKind ev, ci_debtReason = ev_debtReason ev,
          ci_ledgerKeyPrefix = Some (''clawback:'' @ ev_source ev @ '':'' @ ref @ '':'' @ un_targetKey state),
          ci_targets = Some (map ClawbackTargetLot.truncate (un_lots state)),
          ci_disputedMinor = (if suffix = [] then ev_disputedMinor ev else None), ci_settle = False,
          ci_claimableMicro = Some (claimableOf state), ci_capSpentMicro = ex_capSpentMicro extras,
          ci_ledgerMark = Some (ex_ledgerMark extras)\<rparr>)"

definition takeFromUnit :: "grants_env \<Rightarrow> uuid \<Rightarrow> UnitState \<Rightarrow> int \<Rightarrow> CreditUnitEvent \<Rightarrow> string \<Rightarrow> ClawbackExtras
    \<Rightarrow> CreditClawbackRecord statement" where
  "takeFromUnit env a state amount ev suffix extras = clawBack (ge_new_id env) a (unit_reversal state amount ev suffix extras)"

subsection \<open>Giving back to a unit\<close>

definition return_part_of :: "string \<Rightarrow> string \<Rightarrow> uuid \<times> int \<Rightarrow> ReturnPart" where
  "return_part_of key marker p = \<lparr>pt_lotId = fst p, pt_micro = snd p, pt_key = key, pt_marker = marker\<rparr>"

definition beyond_parts :: "string \<Rightarrow> UnitCharge list \<Rightarrow> ReturnPart list" where
  "beyond_parts key standing =
     concat (map (\<lambda>c. map (return_part_of key ''unclaimed:'') (rev (uh_collectedLeft c)) @
                      map (return_part_of key ''returned:'') (rev (uh_repaidLeft c))) (rev standing))"

definition giveBackBeyond :: "grants_env \<Rightarrow> uuid \<Rightarrow> UnitState \<Rightarrow> int \<Rightarrow> CreditUnitEvent \<Rightarrow> WonDisputeReturn option
    \<Rightarrow> (int \<times> int) statement" where
  "giveBackBeyond env a state amount ev win =
     (let key = reinstateGrantKey (un_targetKey state @ '':'' @ ev_ref ev);
          standing = standing_charges state;
          outstanding = sum_by uh_outstandingMicro standing
      in run_then (lockAccount a) (\<lambda>acct.
           let forgive = min amount (min outstanding (debt_micro acct))
           in run_then
                (if forgive > 0 then run_then (append_ledger (forgive_entry a forgive (key @ '':forgive'') (ev_label ev))) (\<lambda>_. give ())
                 else give ())
                (\<lambda>_. run_then
                   (returnCredit env a (beyond_parts key standing) (if forgive > 0 then amount - forgive else amount)
                      (map_option (\<lambda>w. (w, ev_ref ev @ '':from:'' @ un_windowId state @ '':'' @ un_coverageRef state)) win))
                   (\<lambda>regranted. give (regranted, max 0 forgive)))))"

definition grantLot :: "grants_env \<Rightarrow> uuid \<Rightarrow> string \<Rightarrow> int \<Rightarrow> PgInstant \<Rightarrow> string \<Rightarrow> int statement" where
  "grantLot env a grantKey micro expiresAt reason =
     (if micro \<le> 0 then give 0
      else run_then (computing (ceilMicroToWholeCredits micro)) (\<lambda>amount db.
        run_then
          (insertLot (ge_new_id env db)
             \<lparr>nl_account = a, nl_kind = Adjustment, nl_window = None, nl_grant_key = grantKey, nl_granted = amount,
              nl_starts = floorToPriorMinute (ge_now env), nl_expires = timestamptz expiresAt\<rparr>)
          (\<lambda>(inserted, lot).
             if \<not> inserted then give 0
             else run_then (append_ledger (grant_entry a (lot_id lot) amount (grantKey @ '':grant'') (Some reason)))
                    (\<lambda>_. give amount)) db))"

definition restore_lot :: "uuid \<Rightarrow> string \<Rightarrow> string \<Rightarrow> UnitLot \<Rightarrow> int \<times> int \<Rightarrow> (int \<times> int) statement" where
  "restore_lot a ref say lot acc =
     (case acc of (left, given) \<Rightarrow>
        let fits = min left (min (ul_takenMicro lot) (tl_granted lot - tl_remaining lot))
        in if left \<le> 0 \<or> \<not> ul_live lot \<or> fits \<le> 0 then give acc
           else run_then (append_ledger (adjust_entry a (tl_lot lot) fits (reinstateGrantKey ref @ '':'' @ tl_lot lot) say))
                  (\<lambda>_. give (left - fits, given + fits)))"

definition restoreTaken :: "grants_env \<Rightarrow> uuid \<Rightarrow> UnitState \<Rightarrow> int \<Rightarrow> string \<Rightarrow> CreditUnitEvent \<Rightarrow> int statement" where
  "restoreTaken env a state micro ref ev =
     run_then (each_do (restore_lot a ref (ev_label ev)) (un_lots state) (micro, 0)) (\<lambda>(left, given).
       if left > 0
       then run_then (grantLot env a (reinstateGrantKey ref) left (un_windowEnd state) (ev_label ev)) (\<lambda>x. give (given + x))
       else give given)"

definition release_claim :: "UnitCharge \<Rightarrow> int \<Rightarrow> int statement" where
  "release_claim c left =
     (if left \<le> 0 \<or> pending_of c \<le> 0 then give left
      else run_then (releasePendingClaim (uc_id (uh_clawback c)) (min left (pending_of c))) (\<lambda>_.
        give (left - min left (pending_of c))))"

definition giveBack :: "grants_env \<Rightarrow> uuid \<Rightarrow> UnitState \<Rightarrow> int \<Rightarrow> CreditUnitEvent \<Rightarrow> WonDisputeReturn option
    \<Rightarrow> (int \<times> int) statement" where
  "giveBack env a state amount ev win =
     (let ref = un_targetKey state @ '':'' @ ev_ref ev;
          standing = standing_charges state
      in run_then (each_do release_claim standing amount) (\<lambda>left.
         let part = min left (sum_by chargedBeyond standing)
         in run_then (if part > 0 then giveBackBeyond env a state part ev win else give (0, 0)) (\<lambda>(regranted, forgiven).
            if left - part > 0 \<and> un_live state
            then run_then (restoreTaken env a state (left - part) ref ev) (\<lambda>x. give (regranted + x, forgiven))
            else give (regranted, forgiven))))"

subsection \<open>One unit and its target\<close>

datatype reconcile_mode = mode_take | mode_both

record unit_outcome =
  uo_clawback :: "CreditClawbackRecord option"
  uo_regrantedMicro :: int
  uo_forgivenMicro :: int

definition win_excess :: "UnitState \<Rightarrow> int \<Rightarrow> int" where
  "win_excess state target =
     min (cancellableBeyondOf state)
       (min (chargedBeyondOf state - max 0 (consumedOf state - target))
            (freeOf state + claimableOf state - (positionOf state - target)))"

definition unit_after_win :: "grants_env \<Rightarrow> uuid \<Rightarrow> SourcedCreditWindow \<Rightarrow> string \<Rightarrow> UnitState \<Rightarrow> int \<Rightarrow> CreditUnitEvent
    \<Rightarrow> WonDisputeReturn option \<Rightarrow> (UnitState \<times> int \<times> int) statement" where
  "unit_after_win env a window coverageRef state target ev win =
     (if positionOf state - target > 0 \<and> win \<noteq> None \<and> win_excess state target > 0
      then run_then (giveBackBeyond env a state (win_excess state target) ev win) (\<lambda>(regranted, forgiven).
        if regranted + forgiven > 0
        then run_then (reading (unitState a window coverageRef)) (\<lambda>fresh. give (fresh, regranted, forgiven))
        else give (state, regranted, forgiven))
      else give (state, 0, 0))"

definition reconcileUnit :: "grants_env \<Rightarrow> uuid \<Rightarrow> SourcedCreditWindow \<Rightarrow> string \<Rightarrow> UnitState \<Rightarrow> int \<Rightarrow> reconcile_mode
    \<Rightarrow> CreditUnitEvent \<Rightarrow> ClawbackExtras \<Rightarrow> WonDisputeReturn option \<Rightarrow> unit_outcome statement" where
  "reconcileUnit env a window coverageRef unit target mode ev extras win =
     run_then (unit_after_win env a window coverageRef unit target ev win) (\<lambda>(state, regranted, forgiven).
     let delta = positionOf state - target
     in if delta > 0
        then run_then (takeFromUnit env a state delta ev [] extras) (\<lambda>c.
          give \<lparr>uo_clawback = Some c, uo_regrantedMicro = regranted, uo_forgivenMicro = forgiven\<rparr>)
        else if delta = 0 \<or> mode = mode_take
        then give \<lparr>uo_clawback = None, uo_regrantedMicro = regranted, uo_forgivenMicro = forgiven\<rparr>
        else
          run_then (giveBack env a state (- delta) ev win) (\<lambda>(regranted1, forgiven1).
          run_then (reading (unitState a window coverageRef)) (\<lambda>after.
          let over = positionOf after - target
          in run_then (if over > 0 then run_then (takeFromUnit env a after over ev '':trim'' extras) (\<lambda>c. give (Some c))
                       else give None) (\<lambda>trim.
             give \<lparr>uo_clawback = trim, uo_regrantedMicro = regranted1, uo_forgivenMicro = forgiven1\<rparr>))))"

end
