(* ===== verification/Credit_Refresh.thy ===== *)
theory Credit_Refresh
  imports Give_Backs
begin

section \<open>The refresh of an account\<close>

text \<open>
  \<^verbatim>\<open>refreshCreditsIn\<close> and what it calls in \<^verbatim>\<open>services/credit-grants.ts\<close>: lots that are due expire, the month that is
  due is opened and granted (\<open>materializeWindows\<close>), the level of the current window follows the coverage (\<open>reconcileLevel\<close>,
  \<open>alignLevels\<close>), the units of the current window are held to their targets (\<open>reconcileWindowUnits\<close> through
  \<open>reconcilePaymentUnits\<close>) and debt is repaid from free credit. With it what a won dispute returns, and the two sweeps. The
  reads of one payment's units come before the first write, and are the definition \<open>payment_plan\<close>.
\<close>

subsection \<open>The units of one payment\<close>

record UnitReconcileSummary =
  ur_windows :: nat
  ur_clawbacks :: "CreditClawbackRecord list"
  ur_regrantedMicro :: int
  ur_forgivenMicro :: int
  ur_capSpentMicro :: "int option"

definition NOTHING :: UnitReconcileSummary where
  "NOTHING = \<lparr>ur_windows = 0, ur_clawbacks = [], ur_regrantedMicro = 0, ur_forgivenMicro = 0, ur_capSpentMicro = None\<rparr>"

datatype cap_mode = cap_measure | cap_standing

record reconcile_opts =
  ro_mode :: reconcile_mode
  ro_event :: CreditUnitEvent
  ro_onlyWindowIds :: "uuid list option"
  ro_standsAlone :: bool
  ro_cap :: cap_mode
  ro_win :: "WonDisputeReturn option"

definition currentWindowOf :: "WindowCovers \<Rightarrow> SourcedCreditWindow" where
  "currentWindowOf wc =
     \<lparr>scw_id = wc_windowId wc, scw_sourceRef = wc_sourceRef wc, scw_levelMicro = wc_levelMicro wc,
      scw_levelSeq = wc_levelSeq wc, scw_windowStart = wc_nowAt wc, scw_windowEnd = wc_windowEnd wc, scw_current = True\<rparr>"

definition currentEnvelope :: "billing \<Rightarrow> uuid \<Rightarrow> db \<Rightarrow> window_envelope option result" where
  "currentEnvelope bill a db =
     rbind (windowCovers bill a db) (\<lambda>wc. case wc of None \<Rightarrow> Inr None
       | Some c \<Rightarrow> rbind (windowTargets c) (\<lambda>t. Inr (wt_envelope t)))"

definition handed :: "reconcile_opts \<Rightarrow> string \<Rightarrow> SourcedCreditWindow \<Rightarrow> bool" where
  "handed opts ref w \<longleftrightarrow> ro_standsAlone opts \<and> scw_sourceRef w \<noteq> ref"

definition handedCurrent :: "reconcile_opts \<Rightarrow> string \<Rightarrow> SourcedCreditWindow \<Rightarrow> bool" where
  "handedCurrent opts ref w \<longleftrightarrow> handed opts ref w \<and> scw_current w"

text \<open>What a unit may keep: as the envelope of the current window, as a share handed to a past one, or by its terms.\<close>

definition unit_keep :: "reconcile_opts \<Rightarrow> window_source \<Rightarrow> string \<Rightarrow> UnitPaymentTerms \<Rightarrow> window_envelope option
    \<Rightarrow> SourcedCreditWindow \<Rightarrow> UnitState \<Rightarrow> int result" where
  "unit_keep opts source ref terms envelope w state =
     (if handedCurrent opts ref w
      then Inr (case envelope of None \<Rightarrow> 0
        | Some e \<Rightarrow> if cov_source (env_cover e) = source \<and> cov_sourceRef (env_cover e) = ref then env_keepMicro e else 0)
      else if handed opts ref w
      then (if ut_stillPaidMinor terms \<ge> ut_amountPaidMinor terms then Inr (handedShareOf state)
            else unitKeepMicro (ut_amountPaidMinor terms) (ut_stillPaidMinor terms)
                   [\<lparr>kt_micro = handedShareOf state, kt_still_paid_at = None\<rparr>])
      else unitKeepMicro (ut_amountPaidMinor terms) (ut_stillPaidMinor terms) (un_terms state))"

definition paid_for_keep :: "UnitPaymentTerms \<Rightarrow> int option result" where
  "paid_for_keep terms =
     (case ut_paidForMicro terms of
        None \<Rightarrow> Inr None
      | Some bought \<Rightarrow>
          rbind (floorMicroToWholeCredits (stillPaidShareMicro bought (ut_amountPaidMinor terms) (ut_stillPaidMinor terms)))
            (\<lambda>x. Inr (Some x)))"

definition cap_spent :: "cap_mode \<Rightarrow> uuid \<Rightarrow> string \<Rightarrow> int option \<Rightarrow> UnitState list \<Rightarrow> db \<Rightarrow> int option result" where
  "cap_spent over a ref paidForKeep states db =
     (if paidForKeep = None then Inr None
      else let measured = sum_by (\<lambda>s. spentForCapOf s + heldOf s) states
           in if over = cap_measure then Inr (Some measured)
              else rbind (standingCapSpent a ref db) (\<lambda>v. Inr (Some (or_else v measured))))"

record planned_unit =
  pu_window :: SourcedCreditWindow
  pu_snapshot :: UnitState
  pu_target :: int

record payment_plan =
  pp_earned :: nat
  pp_units :: "planned_unit list"
  pp_capSpent :: "int option"
  pp_mark :: int

definition moves :: "reconcile_opts \<Rightarrow> SourcedCreditWindow \<Rightarrow> bool" where
  "moves opts w \<longleftrightarrow> (case ro_onlyWindowIds opts of None \<Rightarrow> True | Some ids \<Rightarrow> scw_id w \<in> set ids)"

definition plan_unit :: "reconcile_opts \<Rightarrow> string \<Rightarrow> (SourcedCreditWindow \<times> UnitState) \<times> int \<times> int option \<Rightarrow> planned_unit" where
  "plan_unit opts ref u =
     (case u of ((w, s), keep, allowed) \<Rightarrow>
        \<lparr>pu_window = w, pu_snapshot = s,
         pu_target = (if handedCurrent opts ref w then keep else unitTargetMicro keep (spentForCapOf s) allowed)\<rparr>)"

definition payment_plan :: "grants_env \<Rightarrow> uuid \<Rightarrow> window_source \<Rightarrow> string \<Rightarrow> UnitPaymentTerms \<Rightarrow> reconcile_opts
    \<Rightarrow> SourcedCreditWindow list \<Rightarrow> db \<Rightarrow> payment_plan result" where
  "payment_plan env a source ref terms opts earned db =
     (let windows_read = (if ro_cap opts = cap_measure then earned else filter (moves opts) earned)
      in rbind (all_results (map (\<lambda>w. unitState a w ref db) windows_read)) (\<lambda>states.
         rbind (if list_ex (handedCurrent opts ref) windows_read then currentEnvelope (ge_bill env) a db else Inr None)
           (\<lambda>envelope.
         rbind (all_results (map (\<lambda>(w, s). unit_keep opts source ref terms envelope w s) (zip windows_read states))) (\<lambda>keeps.
         rbind (paid_for_keep terms) (\<lambda>paidForKeep.
         rbind (cap_spent (ro_cap opts) a ref paidForKeep states db) (\<lambda>capSpent.
         rbind (ledgerMark a db) (\<lambda>mark.
           let allowed = allowedDebtByUnit (zip keeps (map spentForCapOf states)) paidForKeep capSpent
           in Inr \<lparr>pp_earned = length earned,
                   pp_units = filter (\<lambda>u. moves opts (pu_window u))
                     (map (plan_unit opts ref) (zip (zip windows_read states) (zip keeps allowed))),
                   pp_capSpent = capSpent, pp_mark = mark\<rparr>)))))))"

text \<open>The first unit moved is the one that was read; a later one is read again, as the ones before it may have moved it.\<close>

definition move_unit :: "grants_env \<Rightarrow> uuid \<Rightarrow> string \<Rightarrow> reconcile_opts \<Rightarrow> ClawbackExtras \<Rightarrow> planned_unit
    \<Rightarrow> bool \<times> UnitReconcileSummary \<Rightarrow> (bool \<times> UnitReconcileSummary) statement" where
  "move_unit env a ref opts extras u acc =
     (case acc of (is_first, sm) \<Rightarrow>
        run_then (if is_first then give (pu_snapshot u) else reading (unitState a (pu_window u) ref)) (\<lambda>state.
        run_then (reconcileUnit env a (pu_window u) ref state (pu_target u) (ro_mode opts) (ro_event opts) extras (ro_win opts))
          (\<lambda>result.
             give (False, sm\<lparr>ur_clawbacks := ur_clawbacks sm @ (case uo_clawback result of None \<Rightarrow> [] | Some c \<Rightarrow> [c]),
                             ur_regrantedMicro := ur_regrantedMicro sm + uo_regrantedMicro result,
                             ur_forgivenMicro := ur_forgivenMicro sm + uo_forgivenMicro result\<rparr>))))"

definition reconcilePaymentUnits :: "grants_env \<Rightarrow> uuid \<Rightarrow> window_source \<Rightarrow> string \<Rightarrow> UnitPaymentTerms \<Rightarrow> reconcile_opts
    \<Rightarrow> UnitReconcileSummary statement" where
  "reconcilePaymentUnits env a source ref terms opts =
     run_then (reading (windowsOfCoverage a source ref)) (\<lambda>earned.
       if earned = [] then give NOTHING
       else if filter (moves opts) earned = [] then give (NOTHING\<lparr>ur_windows := length earned\<rparr>)
       else run_then (reading (payment_plan env a source ref terms opts earned)) (\<lambda>plan.
         let extras = \<lparr>ex_capSpentMicro = pp_capSpent plan, ex_ledgerMark = pp_mark plan\<rparr>
         in run_then (each_do (move_unit env a ref opts extras) (pp_units plan) (True, NOTHING)) (\<lambda>(_, sm).
              give (sm\<lparr>ur_windows := pp_earned plan, ur_capSpentMicro := pp_capSpent plan\<rparr>))))"

subsection \<open>The units of the current window\<close>

record window_units_input =
  wi_event :: "CreditUnitEvent option"
  wi_exclude :: "string list"
  wi_changed :: bool
  wi_win :: "WonDisputeReturn option"

definition refresh_tag :: "int \<Rightarrow> string" where
  "refresh_tag mark = ''rf'' @ dec (nat mark)"

definition dispute_event :: "string \<Rightarrow> string \<Rightarrow> CreditUnitEvent" where
  "dispute_event dispute tag =
     \<lparr>ev_source = ''stripe_dispute'', ev_ref = dispute @ '':'' @ tag, ev_ledgerKind = TakesForReversal,
      ev_debtReason = ''payment_reversed'', ev_label = ''dispute'', ev_disputedMinor = None\<rparr>"

definition plan_change_event :: "uuid \<Rightarrow> string \<Rightarrow> CreditUnitEvent" where
  "plan_change_event windowId tag =
     \<lparr>ev_source = ''plan_change'', ev_ref = windowId @ '':'' @ tag, ev_ledgerKind = TakesForPlanChange,
      ev_debtReason = ''plan_change'', ev_label = ''plan_change'', ev_disputedMinor = None\<rparr>"

definition disputed_refs :: "WindowCovers \<Rightarrow> WindowTargets \<Rightarrow> string list" where
  "disputed_refs wc t =
     new_set ((if wc_source wc = StripeInvoice then [wc_sourceRef wc] else []) @
       map cov_sourceRef (filter (\<lambda>c. cov_source c = StripeInvoice) (wt_line t)))"

definition envelope_ref :: "WindowTargets \<Rightarrow> string option" where
  "envelope_ref t = map_option (\<lambda>e. cov_sourceRef (env_cover e)) (wt_envelope t)"

definition reconcile_disputed :: "grants_env \<Rightarrow> uuid \<Rightarrow> WindowCovers \<Rightarrow> WindowTargets \<Rightarrow> string list \<Rightarrow> string
    \<Rightarrow> string \<Rightarrow> unit \<Rightarrow> unit statement" where
  "reconcile_disputed env a wc t exclude tag ref _ =
     (if ref \<in> set exclude \<or> envelope_ref t = Some ref then give ()
      else run_then (reading (invoicePayment (ge_bill env) a ref)) (\<lambda>found.
        case found of
          None \<Rightarrow> give ()
        | Some payment \<Rightarrow>
            if if_disputedMinor payment = 0 then give ()
            else run_then (reading (\<lambda>db. Inr (or_else (newestStandingDispute a ref db) ''standing''))) (\<lambda>dispute.
                 run_then (computing (invoiceTerms payment)) (\<lambda>terms.
                 run_then (reconcilePaymentUnits env a StripeInvoice ref terms
                     \<lparr>ro_mode = mode_both, ro_event = dispute_event dispute tag, ro_onlyWindowIds = Some [wc_windowId wc],
                      ro_standsAlone = (if_lineKind payment \<noteq> Some ''proration_up''), ro_cap = cap_standing, ro_win = None\<rparr>)
                   (\<lambda>_. give ())))))"

definition hold_envelope :: "grants_env \<Rightarrow> uuid \<Rightarrow> WindowCovers \<Rightarrow> window_envelope \<Rightarrow> CreditUnitEvent
    \<Rightarrow> WonDisputeReturn option \<Rightarrow> unit statement" where
  "hold_envelope env a wc e ev win =
     (let window = currentWindowOf wc; ref = cov_sourceRef (env_cover e)
      in run_then (reading (unitState a window ref)) (\<lambda>state.
         run_then (reading (ledgerMark a)) (\<lambda>mark.
         run_then (reconcileUnit env a window ref state (env_keepMicro e) mode_both ev
             \<lparr>ex_capSpentMicro = None, ex_ledgerMark = mark\<rparr> win) (\<lambda>_. give ()))))"

definition reconcileWindowUnits :: "grants_env \<Rightarrow> uuid \<Rightarrow> window_units_input \<Rightarrow> unit statement" where
  "reconcileWindowUnits env a input =
     run_then (reading (windowCovers (ge_bill env) a)) (\<lambda>found.
       case found of
         None \<Rightarrow> give ()
       | Some wc \<Rightarrow>
           run_then (computing (windowTargets wc)) (\<lambda>t.
             if wi_event input = None \<and> \<not> wi_changed input \<and> wt_envelope t = None then give ()
             else run_then (reading (\<lambda>db. if wi_event input = None then rbind (ledgerMark a db) (\<lambda>m. Inr (refresh_tag m))
                                          else Inr ''rf'')) (\<lambda>tag.
               run_then
                 (if wi_event input = None \<and> wi_changed input
                  then each_do (reconcile_disputed env a wc t (wi_exclude input) tag) (disputed_refs wc t) ()
                  else give ())
                 (\<lambda>_. case wt_envelope t of
                    None \<Rightarrow> give ()
                  | Some e \<Rightarrow>
                      if cov_sourceRef (env_cover e) \<in> set (wi_exclude input) then give ()
                      else hold_envelope env a wc e
                             (case wi_event input of
                                Some ev \<Rightarrow> ev\<lparr>ev_disputedMinor := None\<rparr>
                              | None \<Rightarrow> plan_change_event (wc_windowId wc) tag) (wi_win input)))))"

subsection \<open>Opening the month that is due\<close>

datatype CreditWindowGrant =
    NoWindow
  | AlreadyCovered
  | WindowGrant (wg_created: bool) (wg_windowId: uuid) (wg_source: window_source) (wg_sourceRef: string) (wg_grantedMicro: int)

definition written_window :: "WriteWindowResult \<Rightarrow> (bool \<times> uuid) option" where
  "written_window r = (case r of WindowCreated i \<Rightarrow> Some (True, i) | WindowExisting i \<Rightarrow> Some (False, i) | WindowCovered \<Rightarrow> None)"

definition monthly_grant :: "grants_env \<Rightarrow> uuid \<Rightarrow> uuid \<Rightarrow> int statement" where
  "monthly_grant env a windowId =
     run_then (ensureMonthlyLot (ge_bill env) (ge_new_id env) a windowId) (\<lambda>lot.
       case lot of
         None \<Rightarrow> give 0
       | Some l \<Rightarrow> run_then (append_ledger (grant_entry a (ml_lotId l) (ml_grantedMicro l) (''grant:'' @ ml_lotId l) None))
                    (\<lambda>_. give (ml_grantedMicro l)))"

definition materializeWindows :: "grants_env \<Rightarrow> uuid \<Rightarrow> CreditWindowGrant statement" where
  "materializeWindows env a =
     run_then (reading (coverageCandidates (ge_bill env) a)) (\<lambda>candidates.
       case pickWindowCandidate candidates of
         None \<Rightarrow> give NoWindow
       | Some best \<Rightarrow>
           run_then (writeWindow (ge_new_id env) a best) (\<lambda>written.
             case written_window written of
               None \<Rightarrow> give AlreadyCovered
             | Some (created, windowId) \<Rightarrow>
                 run_then (monthly_grant env a windowId) (\<lambda>micro.
                   give (WindowGrant created windowId (cand_source best) (cand_sourceRef best) micro))))"

end
