(* ===== verification/Account_Refresh.thy ===== *)
theory Account_Refresh
  imports Credit_Refresh
begin

section \<open>The level of the current window, and the whole refresh\<close>

text \<open>
  \<open>reconcileLevel\<close> follows the coverage of the current window: a change of what the plan line earns moves both levels and grants or
  claws back its share of what is left of the window; any other change of the level shown moves that level alone, and
  grants what the envelope of a standing coverage still lacks. \<open>refreshCreditsIn\<close> is the refresh in its transaction, the
  parameter the services of this development take; \<open>refreshCredits\<close> and the sweeps run it for one account and for many.
\<close>

subsection \<open>Following the coverage\<close>

record CreditLevelReconciled =
  lr_windowId :: uuid
  lr_fromLevelMicro :: int
  lr_toLevelMicro :: int
  lr_seq :: nat
  lr_deltaMicro :: int
  lr_prorationLotId :: "uuid option"
  lr_clawback :: "CreditClawbackRecord option"

definition proration_entry :: "uuid \<Rightarrow> MonthlyLot \<Rightarrow> NewCreditLedgerEntry" where
  "proration_entry a lot =
     \<lparr>entry_account = a, entry_key = ''proration_grant:'' @ ml_lotId lot, entry_actor = None, entry_session = None,
      entry_movement = ProrationGrantOf (ml_lotId lot) (ml_grantedMicro lot) (Some ''plan_change'')\<rparr>"

definition proration_grant :: "grants_env \<Rightarrow> uuid \<Rightarrow> uuid \<Rightarrow> nat \<Rightarrow> int \<Rightarrow> uuid option statement" where
  "proration_grant env a windowId sq delta =
     (if delta \<le> 0 then give None
      else run_then (ensureProrationLot (ge_bill env) (ge_new_id env) a windowId sq delta) (\<lambda>lot.
           run_then (append_ledger (proration_entry a lot)) (\<lambda>_. give (Some (ml_lotId lot)))))"

definition plan_change_clawback :: "WindowCovers \<Rightarrow> nat \<Rightarrow> int \<Rightarrow> ClawbackTargetLot list \<Rightarrow> ClawBackInput" where
  "plan_change_clawback wc sq amount lots =
     \<lparr>ci_source = ''plan_change'', ci_sourceRef = wc_windowId wc @ '':'' @ dec sq, ci_targetKey = ''window:'' @ wc_windowId wc,
      ci_windowId = wc_windowId wc, ci_amountMicro = amount, ci_ledgerKind = TakesForPlanChange,
      ci_debtReason = ''plan_change'', ci_ledgerKeyPrefix = None, ci_targets = Some lots, ci_disputedMinor = None,
      ci_settle = True, ci_claimableMicro = None, ci_capSpentMicro = None, ci_ledgerMark = None\<rparr>"

text \<open>What the line earns now, if it moved: the best line and the undisputed level.\<close>

definition line_move :: "WindowCovers \<Rightarrow> WindowTargets \<Rightarrow> (WindowCover \<times> int) option" where
  "line_move wc t =
     (case (wt_undisputedLevelMicro t, wt_lineBest t) of
        (Some u, Some best) \<Rightarrow> if u > 0 \<and> u \<noteq> wc_undisputedLevelMicro wc then Some (best, u) else None
      | _ \<Rightarrow> None)"

text \<open>The start and the length of what is left of the window for a change of the line.\<close>

definition line_span :: "WindowCovers \<Rightarrow> WindowTargets \<Rightarrow> WindowCover \<Rightarrow> int \<Rightarrow> PgInstant \<times> int" where
  "line_span wc t best u =
     (if u > wc_undisputedLevelMicro wc then (cov_upAt best, cov_upMicroseconds best)
      else case wt_own t of
             Some own \<Rightarrow> if cov_active own then (cov_downAt own, cov_downMicroseconds own) else (wc_nowAt wc, wc_nowMicroseconds wc)
           | None \<Rightarrow> (wc_nowAt wc, wc_nowMicroseconds wc))"

definition shown_level :: "WindowCovers \<Rightarrow> WindowTargets \<Rightarrow> int" where
  "shown_level wc t = (case wt_levelMicro t of Some l \<Rightarrow> if l > 0 then l else wc_levelMicro wc | None \<Rightarrow> wc_levelMicro wc)"

definition line_change :: "uuid \<Rightarrow> WindowCovers \<Rightarrow> WindowTargets \<Rightarrow> WindowCover \<Rightarrow> int \<Rightarrow> int \<Rightarrow> CreditWindowLevelChange" where
  "line_change a wc t best u delta =
     \<lparr>ch_accountId = a, ch_windowId = wc_windowId wc, ch_seq = Suc (wc_levelSeq wc), ch_reason = PlanChange,
      ch_fromLevelMicro = wc_levelMicro wc, ch_toLevelMicro = shown_level wc t,
      ch_undisputedFromMicro = Some (wc_undisputedLevelMicro wc), ch_undisputedToMicro = Some u,
      ch_effectiveAt = fst (line_span wc t best u), ch_deltaMicro = delta, ch_sourceRef = Some (cov_sourceRef best),
      ch_stillPaidMinor = cov_stillPaidMinor best\<rparr>"

definition level_reconciled :: "WindowCovers \<Rightarrow> WindowTargets \<Rightarrow> int \<Rightarrow> uuid option \<Rightarrow> CreditClawbackRecord option
    \<Rightarrow> CreditLevelReconciled" where
  "level_reconciled wc t delta lot clawback =
     \<lparr>lr_windowId = wc_windowId wc, lr_fromLevelMicro = wc_levelMicro wc, lr_toLevelMicro = shown_level wc t,
      lr_seq = Suc (wc_levelSeq wc), lr_deltaMicro = delta, lr_prorationLotId = lot, lr_clawback = clawback\<rparr>"

definition follow_line :: "grants_env \<Rightarrow> uuid \<Rightarrow> WindowCovers \<Rightarrow> WindowTargets \<Rightarrow> WindowCover \<Rightarrow> int
    \<Rightarrow> CreditLevelReconciled option statement" where
  "follow_line env a wc t best u =
     run_then (computing (proratedWholeCreditsMicro (u - wc_undisputedLevelMicro wc)
         (min (snd (line_span wc t best u)) (wc_naturalMicroseconds wc)) (wc_naturalMicroseconds wc))) (\<lambda>delta.
     run_then (setWindowLevel (line_change a wc t best u delta)) (\<lambda>_.
     run_then (proration_grant env a (wc_windowId wc) (Suc (wc_levelSeq wc)) delta) (\<lambda>lot.
     run_then
       (if delta < 0
        then run_then (reading (clawbackTargets a (wc_windowId wc)
                 (Some (new_set (wc_sourceRef wc # map cov_sourceRef (wt_line t)))))) (\<lambda>lots.
             run_then (clawBack (ge_new_id env) a (plan_change_clawback wc (Suc (wc_levelSeq wc)) (- delta) lots)) (\<lambda>c.
               give (Some c)))
        else give None) (\<lambda>clawback.
       give (Some (level_reconciled wc t delta lot clawback))))))"

text \<open>The envelope whose rise the level shown follows, and what the unit of its coverage still lacks of it.\<close>

definition rising_envelope :: "WindowCovers \<Rightarrow> WindowTargets \<Rightarrow> window_envelope option" where
  "rising_envelope wc t =
     (case wt_envelope t of
        None \<Rightarrow> None
      | Some e \<Rightarrow>
          if shown_level wc t > wc_levelMicro wc \<and> cov_levelMicro (env_cover e) = Some (shown_level wc t) then Some e else None)"

definition envelope_lack :: "uuid \<Rightarrow> WindowCovers \<Rightarrow> window_envelope \<Rightarrow> db \<Rightarrow> int result" where
  "envelope_lack a wc e db =
     rbind (unitState a (currentWindowOf wc) (cov_sourceRef (env_cover e)) db) (\<lambda>state.
       let need = env_keepMicro e - positionOf state
       in if need > 0 then ceilMicroToWholeCredits need else Inr 0)"

definition shown_change :: "uuid \<Rightarrow> WindowCovers \<Rightarrow> WindowTargets \<Rightarrow> int \<Rightarrow> CreditWindowLevelChange" where
  "shown_change a wc t delta =
     (let attributed = (case rising_envelope wc t of
            Some e \<Rightarrow> Some (env_cover e)
          | None \<Rightarrow> (case wt_lineBest t of Some b \<Rightarrow> Some b | None \<Rightarrow> wt_own t))
      in \<lparr>ch_accountId = a, ch_windowId = wc_windowId wc, ch_seq = Suc (wc_levelSeq wc), ch_reason = PlanChange,
          ch_fromLevelMicro = wc_levelMicro wc, ch_toLevelMicro = shown_level wc t,
          ch_undisputedFromMicro = Some (wc_undisputedLevelMicro wc),
          ch_undisputedToMicro = Some (wc_undisputedLevelMicro wc),
          ch_effectiveAt = (case rising_envelope wc t of Some e \<Rightarrow> cov_upAt (env_cover e) | None \<Rightarrow> wc_nowAt wc),
          ch_deltaMicro = delta,
          ch_sourceRef = Some (case attributed of Some c \<Rightarrow> cov_sourceRef c | None \<Rightarrow> wc_sourceRef wc),
          ch_stillPaidMinor = Option.bind attributed cov_stillPaidMinor\<rparr>)"

definition follow_shown :: "grants_env \<Rightarrow> uuid \<Rightarrow> WindowCovers \<Rightarrow> WindowTargets \<Rightarrow> CreditLevelReconciled option statement" where
  "follow_shown env a wc t =
     (if shown_level wc t = wc_levelMicro wc then give None
      else run_then (case rising_envelope wc t of None \<Rightarrow> give 0 | Some e \<Rightarrow> reading (envelope_lack a wc e)) (\<lambda>delta.
           run_then (setWindowLevel (shown_change a wc t delta)) (\<lambda>_.
           run_then (proration_grant env a (wc_windowId wc) (Suc (wc_levelSeq wc)) delta) (\<lambda>lot.
             give (Some (level_reconciled wc t delta lot None))))))"

definition legacy_disputed :: "WindowCovers \<Rightarrow> bool" where
  "legacy_disputed wc \<longleftrightarrow> \<not> wc_undisputedRecorded wc \<and> list_ex cov_disputed (wc_covers wc)"

definition reconcileLevel :: "grants_env \<Rightarrow> uuid \<Rightarrow> CreditLevelReconciled option statement" where
  "reconcileLevel env a =
     run_then (reading (windowCovers (ge_bill env) a)) (\<lambda>found.
       case found of
         None \<Rightarrow> give None
       | Some wc \<Rightarrow>
           if legacy_disputed wc then throwing CreditLegacyDisputeError
           else run_then (computing (windowTargets wc)) (\<lambda>t.
                  case line_move wc t of
                    Some (best, u) \<Rightarrow> follow_line env a wc t best u
                  | None \<Rightarrow> follow_shown env a wc t))"

text \<open>A reversal records where the two levels stand, and moves nothing else.\<close>

definition align_change :: "uuid \<Rightarrow> WindowCovers \<Rightarrow> level_change_reason \<Rightarrow> string \<Rightarrow> int \<Rightarrow> int \<Rightarrow> CreditWindowLevelChange" where
  "align_change a wc reason ref shown undisputed =
     \<lparr>ch_accountId = a, ch_windowId = wc_windowId wc, ch_seq = Suc (wc_levelSeq wc), ch_reason = reason,
      ch_fromLevelMicro = wc_levelMicro wc, ch_toLevelMicro = shown,
      ch_undisputedFromMicro = Some (wc_undisputedLevelMicro wc), ch_undisputedToMicro = Some undisputed,
      ch_effectiveAt = wc_nowAt wc, ch_deltaMicro = 0, ch_sourceRef = Some ref, ch_stillPaidMinor = None\<rparr>"

definition alignLevels :: "grants_env \<Rightarrow> uuid \<Rightarrow> level_change_reason \<Rightarrow> string \<Rightarrow> bool statement" where
  "alignLevels env a reason ref =
     run_then (reading (windowCovers (ge_bill env) a)) (\<lambda>found.
       case found of
         None \<Rightarrow> give False
       | Some wc \<Rightarrow>
           run_then (computing (windowTargets wc)) (\<lambda>t.
             let undisputed = or_else (wt_undisputedLevelMicro t) (wc_undisputedLevelMicro wc);
                 shown = or_else (wt_levelMicro t) (wc_levelMicro wc)
             in if undisputed = wc_undisputedLevelMicro wc \<and> shown = wc_levelMicro wc then give False
                else run_then (setWindowLevel (align_change a wc reason ref shown undisputed)) (\<lambda>_. give True)))"

subsection \<open>What a won dispute returns\<close>

definition wonDisputeReturn :: "uuid \<Rightarrow> string \<Rightarrow> db \<Rightarrow> WonDisputeReturn result" where
  "wonDisputeReturn a disputeId db =
     rbind (disputeStoodSince a disputeId db) (\<lambda>since.
     rbind (currentWindow a db) (\<lambda>current.
       let used = map_option (\<lambda>s. latestExpiryUsedSince a s db) since
       in Inr \<lparr>wd_ref = disputeId @ '':won'', wd_usedExpiry = Option.bind used ud_latestExpiry,
               wd_usedLots = (case used of None \<Rightarrow> [] | Some u \<Rightarrow> ud_lotIds u),
               wd_windowEnd = map_option ccw_windowEnd current, wd_now = databaseNow db, wd_monthOn = aMonthFromNow db\<rparr>))"

definition by_unit :: "CreditClawbackRecord list \<Rightarrow> (string \<times> CreditClawbackRecord list) list" where
  "by_unit reversed =
     fold (\<lambda>c m. AList.update (cr_targetKey c) (or_else (map_of m (cr_targetKey c)) [] @ [c]) m)
       (filter (\<lambda>c. parseUnitTargetKey (cr_targetKey c) \<noteq> None) reversed) []"

definition undo_parts :: "uuid \<Rightarrow> string \<Rightarrow> uuid list \<Rightarrow> UnitCharge \<Rightarrow> CreditClawbackRecord \<Rightarrow> db \<Rightarrow> ReturnPart list result" where
  "undo_parts a key unitLotIds charge c db =
     rbind (clawbackTakes a (''clawback:'' @ cr_source c @ '':'' @ cr_sourceRef c @ '':'' @ cr_targetKey c) unitLotIds db) (\<lambda>taken.
     rbind (collectedClaims a [cr_id c] db) (\<lambda>collected.
       Inr (map (return_part_of key []) taken @
            map (\<lambda>q. return_part_of key [] (cc_lotId q, cc_micro q)) (filter (\<lambda>q. cc_lotId q \<in> set unitLotIds) collected) @
            map (return_part_of key ''unclaimed:'') (uh_collectedLeft charge) @
            map (return_part_of key ''returned:'') (uh_repaidLeft charge))))"

definition undo_clawback :: "uuid \<Rightarrow> string \<Rightarrow> UnitState \<Rightarrow> CreditClawbackRecord \<Rightarrow> ReturnPart list \<times> int
    \<Rightarrow> (ReturnPart list \<times> int) statement" where
  "undo_clawback a targetKey state c acc =
     (case (find (\<lambda>x. uc_id (uh_clawback x) = cr_id c) (un_charges state), acc) of
        (None, _) \<Rightarrow> give acc
      | (Some charge, (parts, forgiven)) \<Rightarrow>
          let key = unitGivebackPrefix targetKey @ ''undo:'' @ cr_id c
          in run_then (lockAccount a) (\<lambda>acct.
               let forgive = min (uh_outstandingMicro charge) (debt_micro acct)
               in run_then
                    (if forgive > 0
                     then run_then (append_ledger (forgive_entry a forgive (key @ '':forgive'') ''dispute_reinstated''))
                            (\<lambda>_. give (forgiven + forgive))
                     else give forgiven)
                    (\<lambda>forgiven1.
                       run_then (reading (undo_parts a key (map tl_lot (un_lots state)) charge c)) (\<lambda>more_parts.
                         give (parts @ more_parts, forgiven1)))))"

definition undo_unit :: "uuid \<Rightarrow> SourcedCreditWindow list \<Rightarrow> string \<times> CreditClawbackRecord list \<Rightarrow> ReturnPart list \<times> int
    \<Rightarrow> (ReturnPart list \<times> int) statement" where
  "undo_unit a unitWindows u acc =
     (case u of (targetKey, cs) \<Rightarrow>
        (case parseUnitTargetKey targetKey of
           None \<Rightarrow> give acc
         | Some (windowId, coverageRef) \<Rightarrow>
             (case find (\<lambda>w. scw_id w = windowId) unitWindows of
                None \<Rightarrow> give acc
              | Some window \<Rightarrow>
                  run_then (reading (unitState a window coverageRef)) (\<lambda>state.
                    each_do (undo_clawback a targetKey state) cs acc))))"

definition returnWhatADisputeRemoved :: "grants_env \<Rightarrow> uuid \<Rightarrow> CreditClawbackRecord list \<Rightarrow> WonDisputeReturn
    \<Rightarrow> (int \<times> int) statement" where
  "returnWhatADisputeRemoved env a reversed win =
     (let units = by_unit reversed
      in if units = [] then give (0, 0)
         else run_then (reading (windowsByIds a (map (\<lambda>(k, _). case parseUnitTargetKey k of Some (w, _) \<Rightarrow> w | None \<Rightarrow> []) units)))
           (\<lambda>unitWindows.
              run_then (each_do (undo_unit a unitWindows) units ([], 0)) (\<lambda>(parts, forgiven).
              run_then (returnCredit env a parts MAX_SAFE (Some (win, wd_ref win @ '':undo''))) (\<lambda>regranted.
                give (regranted, forgiven)))))"

subsection \<open>The refresh\<close>

record CreditsRefreshResult =
  crr_expired :: "(uuid \<times> int) list"
  crr_window :: CreditWindowGrant
  crr_level :: "CreditLevelReconciled option"
  crr_repaid_debt :: "(uuid \<times> int) list"
  crr_currentWindowEnd :: "PgInstant option"

definition is_created :: "CreditWindowGrant \<Rightarrow> bool" where
  "is_created w = (case w of WindowGrant created _ _ _ _ \<Rightarrow> created | _ \<Rightarrow> False)"

definition refreshCreditsIn :: "grants_env \<Rightarrow> uuid \<Rightarrow> CreditsRefreshResult statement" where
  "refreshCreditsIn env a =
     run_then (lockAccount a) (\<lambda>_.
     run_then (expireDueLots a) (\<lambda>expired.
     run_then (materializeWindows env a) (\<lambda>window.
     run_then (reconcileLevel env a) (\<lambda>level.
     run_then (reconcileWindowUnits env a
         \<lparr>wi_event = None, wi_exclude = [], wi_changed = (is_created window \<or> level \<noteq> None), wi_win = None\<rparr>) (\<lambda>_.
     run_then (settleDebtFromFree a) (\<lambda>repaid.
     run_then (reading (currentWindow a)) (\<lambda>current.
       give \<lparr>crr_expired = expired, crr_window = window, crr_level = level, crr_repaid_debt = repaid,
             crr_currentWindowEnd = map_option ccw_windowEnd current\<rparr>)))))))"

definition refreshCredits :: "grants_env \<Rightarrow> uuid \<Rightarrow> CreditsRefreshResult statement" where
  "refreshCredits env a = transaction (refreshCreditsIn env a)"

text \<open>The refresh as the services take it: for its effect on the tables.\<close>

definition account_refresher :: "grants_env \<Rightarrow> refresher" where
  "account_refresher env = Some (\<lambda>a. run_then (refreshCreditsIn env a) (\<lambda>_. give ()))"

subsection \<open>The sweeps\<close>

definition BEFORE_EVERY_ACCOUNT :: uuid where
  "BEFORE_EVERY_ACCOUNT = ''00000000-0000-0000-0000-000000000000''"

definition checkedLimit :: "int \<Rightarrow> nat result" where
  "checkedLimit n = (if n < 1 \<or> n > 1000 then Inl RangeError else Inr (nat n))"

definition accounts_after :: "uuid option \<Rightarrow> int \<Rightarrow> uuid list \<Rightarrow> uuid list result" where
  "accounts_after after n found =
     rbind (checkedLimit n) (\<lambda>k.
       Inr (take k (sort (remdups (filter (\<lambda>a. or_else after BEFORE_EVERY_ACCOUNT < a) found)))))"

definition billed_accounts :: "billing \<Rightarrow> uuid list" where
  "billed_accounts bill =
     map pay_account (bill_payments bill) @ map ce_account (bill_entitlements bill) @ map po_account (bill_overrides bill)"

definition owed_a_window :: "billing \<Rightarrow> db \<Rightarrow> uuid \<Rightarrow> bool" where
  "owed_a_window bill db a \<longleftrightarrow>
     list_ex (\<lambda>src. window_months a db src \<noteq> []) (paid_sources bill a db @ crypto_sources bill a db @ override_sources bill a db)"

definition accountsOwedAWindow :: "billing \<Rightarrow> uuid option \<Rightarrow> int \<Rightarrow> db \<Rightarrow> uuid list result" where
  "accountsOwedAWindow bill after n db = accounts_after after n (filter (owed_a_window bill db) (billed_accounts bill))"

definition accountsWithDueLots :: "uuid option \<Rightarrow> int \<Rightarrow> db \<Rightarrow> uuid list result" where
  "accountsWithDueLots after n db =
     accounts_after after n
       (map lot_account (filter (\<lambda>l. expires_at l \<le> db_now db \<and> remaining l > held l) (credit_lots db)))"

record CreditSweepResult =
  sr_visited :: nat
  sr_granted :: nat
  sr_expired :: nat
  sr_failed :: nat
  sr_nextAfterAccountId :: "uuid option"

definition sweep_account :: "grants_env \<Rightarrow> uuid \<Rightarrow> CreditSweepResult \<times> db \<Rightarrow> CreditSweepResult \<times> db" where
  "sweep_account env a acc =
     (case acc of (r, db) \<Rightarrow>
        (case refreshCredits env a db of
           Inl _ \<Rightarrow> (r\<lparr>sr_failed := Suc (sr_failed r)\<rparr>, db)
         | Inr (result, db1) \<Rightarrow>
             (r\<lparr>sr_granted := sr_granted r + (if is_created (crr_window result) then 1 else 0),
                sr_expired := sr_expired r + (if crr_expired result \<noteq> [] then 1 else 0)\<rparr>, db1)))"

definition sweep :: "grants_env \<Rightarrow> (db \<Rightarrow> uuid list result) \<Rightarrow> int \<Rightarrow> CreditSweepResult statement" where
  "sweep env find_accounts n db =
     rbind (find_accounts db) (\<lambda>ids.
       Inr (fold (sweep_account env) ids
         (\<lparr>sr_visited = length ids, sr_granted = 0, sr_expired = 0, sr_failed = 0,
           sr_nextAfterAccountId = (if int (length ids) \<ge> n \<and> ids \<noteq> [] then Some (last ids) else None)\<rparr>, db)))"

definition sweepCoverage :: "grants_env \<Rightarrow> uuid option \<Rightarrow> int \<Rightarrow> CreditSweepResult statement" where
  "sweepCoverage env after n = sweep env (accountsOwedAWindow (ge_bill env) after n) n"

definition sweepExpiry :: "grants_env \<Rightarrow> uuid option \<Rightarrow> int \<Rightarrow> CreditSweepResult statement" where
  "sweepExpiry env after n = sweep env (accountsWithDueLots after n) n"

end
