(* ===== verification/Refresh_Laws.thy ===== *)
theory Refresh_Laws
  imports Account_Refresh
begin

section \<open>What a refresh may do to the tables\<close>

text \<open>
  Every statement of the refresh, when it goes through, is a \<open>sound_step\<close>: it keeps the invariant of all tables, only
  appends to the ledger, leaves tasks, holds, calls, rate cards and the clock alone, leaves no claim
  of a reversal without an open task, and never loses an account or the record of a reversal. The rules of \<open>keeps_rules\<close> carry this through the combinators the statements are written
  with, so that each operation is one line, and the refresh as a whole is what the services ask of it.
\<close>

named_theorems keeps_rules "how statements that keep the tables sound are put together"

definition reversal_key :: "credit_clawback \<Rightarrow> uuid \<times> uuid \<times> string \<times> string \<times> string" where
  "reversal_key c = (cb_id c, cb_account c, cb_source c, cb_source_ref c, cb_target_key c)"

definition sound_step :: "db \<Rightarrow> db \<Rightarrow> bool" where
  "sound_step d e \<longleftrightarrow>
     (sys_inv d \<longrightarrow>
        sys_inv e \<and> db_now e = db_now d \<and> credit_reservations e = credit_reservations d \<and>
        credit_reservation_holds e = credit_reservation_holds d \<and> credit_model_calls e = credit_model_calls d \<and>
        credit_rate_cards e = credit_rate_cards d \<and> credit_rate_card_models e = credit_rate_card_models d \<and>
        (\<exists>rows. credit_ledger e = credit_ledger d @ rows) \<and> ledger_seq d \<le> ledger_seq e \<and> (claims_backed d \<longrightarrow> claims_backed e) \<and>
        reversal_key ` set (credit_clawbacks d) \<subseteq> reversal_key ` set (credit_clawbacks e) \<and>
        (\<forall>a. find_account d a \<noteq> None \<longrightarrow> find_account e a \<noteq> None))"

definition keeps :: "'a statement \<Rightarrow> bool" where
  "keeps f \<longleftrightarrow> (\<forall>d x e. f d = Inr (x, e) \<longrightarrow> sound_step d e)"

lemma sound_step_refl [simp]: "sound_step d d"
  by (simp add: sound_step_def)

lemma sound_step_trans: "sound_step c d \<Longrightarrow> sound_step d e \<Longrightarrow> sound_step c e"
  unfolding sound_step_def by fastforce

lemma keepsD: "keeps f \<Longrightarrow> f d = Inr (x, e) \<Longrightarrow> sound_step d e"
  by (auto simp: keeps_def)

lemma keeps_run_then [keeps_rules]: "keeps f \<Longrightarrow> (\<And>x. keeps (g x)) \<Longrightarrow> keeps (run_then f g)"
  unfolding keeps_def run_then_Inr by (metis sound_step_trans)

lemma keeps_leaf [keeps_rules]: "keeps (give x)" "keeps (reading r)" "keeps (computing c)" "keeps (throwing e)"
  by (auto simp: keeps_def result_simps)

lemma keeps_each_do [keeps_rules]: "(\<And>x s. x \<in> set xs \<Longrightarrow> keeps (f x s)) \<Longrightarrow> keeps (each_do f xs s)"
  by (induction xs arbitrary: s) (auto intro: keeps_rules)

lemma keeps_if [keeps_rules]: "(b \<Longrightarrow> keeps f) \<Longrightarrow> (\<not> b \<Longrightarrow> keeps g) \<Longrightarrow> keeps (if b then f else g)"
  by simp

lemma keeps_option [keeps_rules]:
  "(v = None \<Longrightarrow> keeps f) \<Longrightarrow> (\<And>x. v = Some x \<Longrightarrow> keeps (g x)) \<Longrightarrow> keeps (case v of None \<Rightarrow> f | Some x \<Rightarrow> g x)"
  by (cases v) auto

lemma keeps_pair [keeps_rules]: "(\<And>x y. p = (x, y) \<Longrightarrow> keeps (f x y)) \<Longrightarrow> keeps (case p of (x, y) \<Rightarrow> f x y)"
  by (cases p) auto

lemma keeps_pair_step [keeps_rules]: "(\<And>x y. p = (x, y) \<Longrightarrow> keeps (f x y s)) \<Longrightarrow> keeps ((case p of (x, y) \<Rightarrow> f x y) s)"
  by (cases p) auto

subsection \<open>Rows of the ledger\<close>

lemma apply_keeps_accounts: "find_account d a \<noteq> None \<Longrightarrow> find_account (apply_row v d) a \<noteq> None"
proof -
  have "acc_id ` set (update_where P (move_debt x) cs) = acc_id ` set cs" for P x and cs :: "credit_account list"
    by (induction cs) (auto simp: move_debt_def)
  then show "find_account d a \<noteq> None \<Longrightarrow> find_account (apply_row v d) a \<noteq> None"
    by (simp add: apply_row_def find_account_def lookup_by_None)
qed

lemma apply_step:
  assumes can: "can_apply v d" and out: "outside v"
    and counters: "\<And>w k i n. (w, k) \<in> {(''expiry'', Expiry), (''debt_repayment'', DebtRepayment)} \<Longrightarrow> uuid_ok i \<Longrightarrow>
      idempotency_key v = colon_join [w, i, dec n] \<Longrightarrow> hygiene d \<Longrightarrow> n \<le> rows_of_kind (apply_row v d) i k"
  shows "sound_step d (apply_row v d)"
proof -
  have "sys_inv (apply_row v d)" if inv: "sys_inv d"
  proof (rule outside_sys_inv [OF ledger_moves_one [of outside, OF out] inv])
    note ok = sys_invD [OF inv]
    show "db_inv (apply_row v d)" by (rule apply_db_inv [OF ok(1) can])
    have "counter_keys (apply_row v d) w k" if "(w, k) \<in> {(''expiry'', Expiry), (''debt_repayment'', DebtRepayment)}" for w k
      using ok(2) that counters [OF that] by (intro counter_keys_apply) (auto simp: hygiene_def)
    then show "hygiene (apply_row v d)" using ok(2) by (simp add: hygiene_def)
  qed
  then show ?thesis by (simp add: sound_step_def claims_backed_def apply_keeps_accounts)
qed

lemma insert_ledger_step:
  assumes "insert_ledger v d = Inr (x, e)" "outside v"
    and "\<And>w k i n. (w, k) \<in> {(''expiry'', Expiry), (''debt_repayment'', DebtRepayment)} \<Longrightarrow> uuid_ok i \<Longrightarrow>
      idempotency_key v = colon_join [w, i, dec n] \<Longrightarrow> hygiene d \<Longrightarrow> n \<le> rows_of_kind (apply_row v d) i k"
  shows "sound_step d e"
  using assms by (cases x) (auto simp: insert_ledger_Inr intro!: apply_step)

lemma append_insert:
  assumes "append_ledger en d = Inr (y, e)"
  obtains v x where "creditLedgerRowFor en = Inr v" "insert_ledger v d = Inr (x, e)"
  using assms by (auto simp: append_ledger_def result_simps split: option.splits if_splits)

text \<open>The keys of the rows the refresh and the reversals write.\<close>

definition credit_key :: "string \<Rightarrow> bool" where
  "credit_key k \<longleftrightarrow> (\<exists>w\<in>{''clawback'', ''grant'', ''proration_grant'', ''reinstate''}. \<exists>rest. k = w @ CHR '':'' # rest)"

lemma credit_key_append: "credit_key k \<Longrightarrow> credit_key (k @ s)"
  unfolding credit_key_def by fastforce

lemma credit_key_head:
  assumes "credit_key (colon_join ps)" "\<forall>p\<in>set ps. colon_free p" "ps \<noteq> []"
  shows "hd ps \<in> {''clawback'', ''grant'', ''proration_grant'', ''reinstate''}"
proof -
  obtain w rest where w: "w \<in> {''clawback'', ''grant'', ''proration_grant'', ''reinstate''}"
    and k: "colon_join ps = w @ CHR '':'' # rest" using assms(1) unfolding credit_key_def by blast
  have free: "colon_free w" using w by (auto simp: colon_free_def)
  show ?thesis
  proof (cases ps rule: colon_join.cases)
    case (2 x)
    then show ?thesis using k assms(2) by (simp add: colon_join.simps colon_free_def)
  next
    case (3 x y zs)
    then have "x @ CHR '':'' # colon_join (y # zs) = w @ CHR '':'' # rest" using k by (simp add: colon_join.simps)
    from append_colon_inject [OF _ _ this] 3 assms(2) free w show ?thesis by simp
  qed (use assms(3) in simp)
qed

lemma credit_key_not_task: "credit_key k \<Longrightarrow> uuid_ok rid \<Longrightarrow> \<not> task_key rid k"
proof
  assume k: "credit_key k" "uuid_ok rid" "task_key rid k"
  obtain ps where "k = colon_join ps" "\<forall>p\<in>set ps. colon_free p" "ps \<noteq> []"
    "hd ps \<in> {''task_charge'', ''task_release_debt'', ''task_release_expiry'', ''claim'', ''claim_debt''}"
    using task_key_parts [OF k(3,2)] by metis
  with credit_key_head [of ps] k(1) show False by auto
qed

lemma credit_key_not_counter:
  assumes "credit_key k" "uuid_ok i" "w \<in> {''expiry'', ''debt_repayment''}"
  shows "k \<noteq> colon_join [w, i, dec n]"
proof
  assume "k = colon_join [w, i, dec n]"
  with assms have "hd [w, i, dec n] \<in> {''clawback'', ''grant'', ''proration_grant'', ''reinstate''}"
    by (intro credit_key_head) (auto simp: uuid_ok_def)
  with assms(3) show False by auto
qed

definition task_free :: "movement \<Rightarrow> bool" where
  "task_free m \<longleftrightarrow> (case m of TaskChargeOf _ _ _ _ _ _ \<Rightarrow> False | _ \<Rightarrow> True)"

lemma row_for_reservation: "creditLedgerRowFor en = Inr v \<Longrightarrow> task_free (entry_movement en) \<Longrightarrow> led_reservation v = None"
  by (cases "entry_movement en") (auto simp: creditLedgerRowFor_def task_free_def result_simps split: if_splits)

lemma keeps_append:
  assumes "credit_key (entry_key en)" "task_free (entry_movement en)"
  shows "keeps (append_ledger en)"
  unfolding keeps_def
proof (intro allI impI)
  fix d x e
  assume "append_ledger en d = Inr (x, e)"
  then obtain v y where v: "creditLedgerRowFor en = Inr v" and ins: "insert_ledger v d = Inr (y, e)" by (rule append_insert)
  have key: "idempotency_key v = entry_key en" using row_for_facts(5) [OF v] .
  have "outside v" using row_for_reservation [OF v assms(2)] credit_key_not_task [OF assms(1)] key by (simp add: outside_def)
  then show "sound_step d e"
    by (rule insert_ledger_step [OF ins]) (use credit_key_not_counter [OF assms(1)] key in auto)
qed

text \<open>Rows under a counter, whose count is no further than one ahead.\<close>

lemma counter_step:
  assumes ins: "insert_ledger v d = Inr (x, e)" and v: "led_reservation v = None" "led_lot v = Some i" "led_kind v = k"
    "idempotency_key v = colon_join [w, i, dec n]"
    and w: "(w, k) \<in> {(''expiry'', Expiry), (''debt_repayment'', DebtRepayment)}" and i: "uuid_ok i"
    and n: "n \<le> Suc (rows_of_kind d i k)"
  shows "sound_step d e"
proof (rule insert_ledger_step [OF ins])
  show "outside v" using v(1,4) w i task_key_not_counter by (fastforce simp: outside_def)
next
  fix w' k' i' n'
  assume a: "(w', k') \<in> {(''expiry'', Expiry), (''debt_repayment'', DebtRepayment)}" "uuid_ok i'"
    "idempotency_key v = colon_join [w', i', dec n']"
  have "[w, i, dec n] = [w', i', dec n']"
    by (rule colon_join_inject) (use a w i v(4) in \<open>auto simp: uuid_ok_def\<close>)
  then have "w' = w" "i' = i" "n' = n" by (auto dest: dec_inject)
  moreover from this have "k' = k" using a(1) w by auto
  ultimately show "n' \<le> rows_of_kind (apply_row v d) i' k'" using n v(2,3) by simp
qed

lemma rows_of_kind_mono: "credit_ledger e = credit_ledger d @ rows \<Longrightarrow> rows_of_kind d i k \<le> rows_of_kind e i k"
  by (simp add: rows_of_kind_def)

lemma sound_step_under: "(sys_inv d \<Longrightarrow> sound_step d e) \<Longrightarrow> sound_step d e"
  by (auto simp: sound_step_def)

lemma sound_step_counts: "sound_step d e \<Longrightarrow> sys_inv d \<Longrightarrow> rows_of_kind d i k \<le> rows_of_kind e i k"
  by (auto simp: sound_step_def intro: rows_of_kind_mono)

lemma lot_uuid: "sys_inv d \<Longrightarrow> l \<in> set (credit_lots d) \<Longrightarrow> uuid_ok (lot_id l)"
  using sys_invD(2) [of d] by (auto simp: hygiene_def amounts_ok_def)

lemma expiries_step:
  assumes inv: "sys_inv d" and ls: "set ls \<subseteq> set (credit_lots d)"
    and run: "foldr_result insert_one ([], d) (map (expiry_values d) ls) = Inr (rows, e)"
  shows "sound_step d e"
proof -
  have "sound_step d (snd (rows, e))"
  proof (rule foldr_result_invariant [where P = "\<lambda>p. sound_step d (snd p)", OF run])
    fix acc v acc'
    assume v: "v \<in> set (map (expiry_values d) ls)" and acc: "sound_step d (snd acc)" and step: "insert_one acc v = Inr acc'"
    obtain l where l: "l \<in> set (credit_lots d)" "v = expiry_values d l" using v ls by auto
    obtain x where ins: "insert_ledger v (snd acc) = Inr (x, snd acc')"
      using step by (cases acc) (auto simp: insert_one_def result_simps)
    have "sound_step (snd acc) (snd acc')"
      by (rule counter_step [OF ins, where i = "lot_id l" and k = Expiry and w = "''expiry''"
            and n = "1 + rows_of_kind d (lot_id l) Expiry"])
        (use l lot_uuid [OF inv] sound_step_counts [OF acc inv] in \<open>simp_all add: expiry_values_def\<close>)
    with acc show "sound_step d (snd acc')" by (rule sound_step_trans)
  qed simp
  then show ?thesis by simp
qed

lemma keeps_expireDueLots [keeps_rules]: "keeps (expireDueLots a)"
  unfolding keeps_def
proof (intro allI impI, rule sound_step_under)
  fix d x e
  assume "expireDueLots a d = Inr (x, e)" and inv: "sys_inv d"
  then obtain rows where "foldr_result insert_one ([], d) (map (expiry_values d) (due_lots d a)) = Inr (rows, e)"
    by (auto simp: expireDueLots_def result_simps)
  then show "sound_step d e" by (rule expiries_step [OF inv, rotated]) (auto simp: due_lots_def)
qed

lemma repayment_step:
  assumes "append_ledger \<lparr>entry_account = a, entry_key = colon_join [''debt_repayment'', i, dec (n + 1)], entry_actor = None,
      entry_session = None, entry_movement = RepayDebt i x None\<rparr> d = Inr (y, e)"
    and "uuid_ok i" "n \<le> rows_of_kind d i DebtRepayment"
  shows "sound_step d e"
proof -
  let ?en = "\<lparr>entry_account = a, entry_key = colon_join [''debt_repayment'', i, dec (n + 1)], entry_actor = None,
      entry_session = None, entry_movement = RepayDebt i x None\<rparr>"
  obtain v z where v: "creditLedgerRowFor ?en = Inr v" and ins: "insert_ledger v d = Inr (z, e)"
    using append_insert [OF assms(1)] by blast
  have row: "led_reservation v = None" "led_lot v = Some i" "led_kind v = DebtRepayment"
    using v by (auto simp: creditLedgerRowFor_def result_simps)
  have key: "idempotency_key v = colon_join [''debt_repayment'', i, dec (n + 1)]" using row_for_facts(5) [OF v] by simp
  show ?thesis by (rule counter_step [OF ins row key]) (use assms(2,3) in simp_all)
qed

lemma repay_loop_step:
  assumes "repay_loop a want ps d = Inr (x, e)" "sys_inv d"
    and "\<And>i f n. (i, f, n) \<in> set ps \<Longrightarrow> uuid_ok i \<and> n \<le> rows_of_kind d i DebtRepayment"
  shows "sound_step d e"
  using assms
proof (induction ps arbitrary: want d x)
  case (Cons p ps)
  obtain i f n where p: "p = (i, f, n)" by (cases p)
  show ?case
  proof (cases "want \<le> 0")
    case True
    with Cons.prems(1) p show ?thesis by simp
  next
    case False
    then obtain y d1 x1 left1 amount where run: "append_ledger \<lparr>entry_account = a,
          entry_key = colon_join [''debt_repayment'', i, dec (n + 1)], entry_actor = None, entry_session = None,
          entry_movement = RepayDebt i amount None\<rparr> d = Inr (y, d1)"
        "repay_loop a left1 ps d1 = Inr (x1, e)"
      using Cons.prems(1) p by (fastforce simp: result_simps Let_def)
    have s: "sound_step d d1" by (rule repayment_step [OF run(1)]) (use Cons.prems(3) p in auto)
    moreover have "sound_step d1 e"
    proof (rule Cons.IH [OF run(2)])
      show "sys_inv d1" using s Cons.prems(2) by (simp add: sound_step_def)
      show "uuid_ok j \<and> m \<le> rows_of_kind d1 j DebtRepayment" if "(j, g, m) \<in> set ps" for j g m
        using Cons.prems(3) [of j g m] that sound_step_counts [OF s Cons.prems(2), of j DebtRepayment] by simp
    qed
    ultimately show ?thesis by (rule sound_step_trans)
  qed
qed simp

lemma keeps_settleDebt [keeps_rules]: "keeps (settleDebtFromFree a)"
  unfolding keeps_def
proof (intro allI impI, rule sound_step_under)
  fix d x e
  assume run: "settleDebtFromFree a d = Inr (x, e)" and inv: "sys_inv d"
  show "sound_step d e"
  proof (cases "account_debt d a \<le> 0")
    case True
    with run show ?thesis by (auto simp: settleDebtFromFree_def result_simps split: if_splits)
  next
    case False
    with run obtain y where "repay_loop a (account_debt d a)
        (map (\<lambda>l. (lot_id l, free_micro l, rows_of_kind d (lot_id l) DebtRepayment)) (spendable_lots d a)) d = Inr (y, e)"
      by (auto simp: settleDebtFromFree_def result_simps split: if_splits)
    then show ?thesis
      by (rule repay_loop_step [OF _ inv]) (auto simp: spendable_member intro: lot_uuid [OF inv])
  qed
qed

subsection \<open>Accounts, lots and windows\<close>

text \<open>A step that leaves the ledger, the tasks and the claims as they are.\<close>

lemma untouched_step:
  assumes "sys_inv d \<Longrightarrow> db_inv e" "sys_inv d \<Longrightarrow> hygiene e" "db_now e = db_now d" "credit_reservations e = credit_reservations d"
    "credit_model_calls e = credit_model_calls d" "credit_reservation_holds e = credit_reservation_holds d"
    "credit_ledger e = credit_ledger d" "ledger_seq e = ledger_seq d" "credit_clawbacks e = credit_clawbacks d"
    "credit_rate_cards e = credit_rate_cards d" "credit_rate_card_models e = credit_rate_card_models d"
    and "\<And>a. find_account d a \<noteq> None \<Longrightarrow> find_account e a \<noteq> None"
  shows "sound_step d e"
  using tasks_untouched(1) [of d e] assms by (simp add: sound_step_def claims_backed_def)

lemma keeps_lockAccount [keeps_rules]: "keeps (lockAccount a)"
  unfolding keeps_def
proof (intro allI impI)
  fix d x e
  assume "lockAccount a d = Inr (x, e)"
  then have e: "e = insert_account a d" by (simp add: result_simps)
  show "sound_step d e"
    unfolding e
  proof (rule untouched_step)
    show "sys_inv d \<Longrightarrow> hygiene (insert_account a d)" "sys_inv d \<Longrightarrow> db_inv (insert_account a d)"
      using insert_account_untouched(1) [of d a] by (auto dest: sys_invD(1,2))
    show "find_account (insert_account a d) b \<noteq> None" if "find_account d b \<noteq> None" for b
      using that by (auto simp: insert_account_def find_account_def lookup_by_append split: option.splits)
  qed (simp_all add: insert_account_def)
qed

text \<open>A new lot: its id is a uuid, it is not beyond a safe integer, and nothing is in it yet.\<close>

definition empty_lot :: "uuid \<Rightarrow> db \<Rightarrow> credit_lot \<Rightarrow> bool" where
  "empty_lot i d l \<longleftrightarrow> lot_id l = i \<and> uuid_ok i \<and> i \<notin> lot_id ` set (credit_lots d) \<and>
     grant_key l \<notin> grant_key ` set (credit_lots d) \<and> remaining l = 0 \<and> held l = 0 \<and> 0 \<le> granted l \<and> granted l \<le> MAX_SAFE"

lemma empty_lot_inv:
  assumes inv: "db_inv d" and l: "empty_lot i d l"
  shows "db_inv (d\<lparr>credit_lots := credit_lots d @ [l]\<rparr>)"
proof -
  let ?e = "d\<lparr>credit_lots := credit_lots d @ [l]\<rparr>"
  have row: "lot_id l = i" "remaining l = 0" "held l = 0" "0 \<le> granted l" and new: "find_lot d i = None"
    and fresh: "grant_key l \<notin> grant_key ` set (credit_lots d)" "i \<notin> lot_id ` set (credit_lots d)"
    using l by (auto simp: empty_lot_def find_lot_def lookup_by_None)
  have inv': "keys_ok d" "rows_ok d" "balances_ok d" "holds_ok d" using inv by (simp_all add: db_inv_def)
  have "lot_total d i = 0"
    unfolding lot_total_def using inv'(2) new by (intro sum_by_zero) (auto simp: rows_ok_def)
  moreover have "hold_total d i = 0"
    unfolding hold_total_def using inv'(4) new by (intro sum_by_zero) (auto simp: holds_ok_def)
  moreover have same: "find_account ?e = find_account d" "lot_total ?e = lot_total d"
    "hold_total ?e = hold_total d" "debt_total ?e = debt_total d"
    by (auto simp: fun_eq_iff find_account_def lot_total_def hold_total_def debt_total_def)
  ultimately have "balances_ok ?e"
    using inv'(3) row unfolding balances_ok_def same by (auto simp: lot_bounds_def)
  moreover have grows: "find_lot d j = Some k \<Longrightarrow> find_lot ?e j = Some k" for j k
    by (simp add: find_lot_def lookup_by_append)
  have "keys_ok ?e" using inv'(1) fresh by (auto simp: keys_ok_def row)
  moreover have "rows_ok ?e" using inv'(2) grows by (simp add: rows_ok_def same) blast
  moreover have "holds_ok ?e" using inv'(4) grows by (simp add: holds_ok_def) blast
  ultimately show ?thesis by (simp add: db_inv_def)
qed

lemma empty_lot_step: "empty_lot i d l \<Longrightarrow> sound_step d (d\<lparr>credit_lots := credit_lots d @ [l]\<rparr>)"
proof (rule untouched_step)
  let ?e = "d\<lparr>credit_lots := credit_lots d @ [l]\<rparr>"
  assume l: "empty_lot i d l"
  show "db_inv ?e" if "sys_inv d" by (rule empty_lot_inv [OF sys_invD(1) [OF that] l])
  show "hygiene ?e" if "sys_inv d"
    using sys_invD(2) [OF that] l by (auto simp: hygiene_def amounts_ok_def counter_keys_def rows_of_kind_def empty_lot_def)
qed (simp_all add: find_account_def)

lemma new_row_empty:
  assumes "uuid_ok i" "i \<notin> lot_id ` set (credit_lots d)" "nl_grant_key v \<notin> grant_key ` set (credit_lots d)"
    "lot_row_checks v" "nl_granted v \<le> MAX_SAFE"
  shows "empty_lot i d ((new_lot_row i v d)\<lparr>lot_still_paid := s\<rparr>)" "empty_lot i d (new_lot_row i v d)"
  using assms by (simp_all add: empty_lot_def new_lot_row_def lot_row_checks_def)

lemma keeps_insertLot: "uuid_ok i \<Longrightarrow> keeps (insertLot i v)"
  unfolding keeps_def
proof (intro allI impI)
  fix d x e
  assume i: "uuid_ok i" and run: "insertLot i v d = Inr (x, e)"
  have small: "nl_granted v \<le> MAX_SAFE"
    using run by (cases "safe_int (nl_granted v)") (auto simp: insertLot_def result_simps, auto simp: safe_int_def)
  obtain out where out: "insert_lot i v d = Inr (out, e)"
    using run by (auto simp: insertLot_def rbind_eq_Inr split: option.splits if_splits)
  show "sound_step d e"
  proof (cases out)
    case None
    with out have "e = d" by (auto simp: insert_lot_def Let_def split: if_splits option.splits)
    then show ?thesis by simp
  next
    case (Some l)
    with out have v: "lot_row_checks v" "find_lot d i = None" "nl_grant_key v \<notin> grant_key ` set (credit_lots d)"
      and e: "e = d\<lparr>credit_lots := credit_lots d @ [new_lot_row i v d]\<rparr>"
      by (auto simp: insert_lot_def Let_def list_ex_iff split: if_splits option.splits)
    have "i \<notin> lot_id ` set (credit_lots d)" using v(2) by (simp add: find_lot_def lookup_by_None)
    then have "empty_lot i d (new_lot_row i v d)" by (rule new_row_empty(2) [OF i _ v(3,1) small])
    then show ?thesis unfolding e by (rule empty_lot_step)
  qed
qed

text \<open>An included lot, which the code reads back exactly once it is there.\<close>

lemma insert_window_lot_Inr:
  assumes "insert_window_lot i v s d = Inr e" "e \<noteq> d"
  shows "e = d\<lparr>credit_lots := credit_lots d @ [(new_lot_row i v d)\<lparr>lot_still_paid := s\<rparr>]\<rparr>" "lot_row_checks v"
    "i \<notin> lot_id ` set (credit_lots d)" "nl_grant_key v \<notin> grant_key ` set (credit_lots d)"
    "nl_kind v = Monthly \<Longrightarrow> l \<in> set (credit_lots d) \<Longrightarrow> lot_kind l = Monthly \<Longrightarrow> lot_window l \<noteq> nl_window v"
  using assms by (fastforce simp: insert_window_lot_def list_ex_iff split: if_splits)+

lemma find_last: "(\<And>y. y \<in> set xs \<Longrightarrow> \<not> P y) \<Longrightarrow> P x \<Longrightarrow> find P (xs @ [x]) = Some x"
  by (induction xs) auto

lemma window_lot_step:
  assumes "e = d \<or> insert_window_lot i v s d = Inr e" "uuid_ok i"
    and "\<And>l. find P (credit_lots e) = Some l \<Longrightarrow> granted l \<le> MAX_SAFE"
    and "P ((new_lot_row i v d)\<lparr>lot_still_paid := s\<rparr>)"
    and "\<And>l. l \<in> set (credit_lots d) \<Longrightarrow> P l \<Longrightarrow>
      grant_key l = nl_grant_key v \<or> nl_kind v = Monthly \<and> lot_kind l = Monthly \<and> lot_window l = nl_window v"
  shows "sound_step d e"
proof (cases "e = d")
  case False
  let ?l = "(new_lot_row i v d)\<lparr>lot_still_paid := s\<rparr>"
  have ins: "insert_window_lot i v s d = Inr e" using assms(1) False by simp
  note new = insert_window_lot_Inr [OF ins False]
  have "credit_lots e = credit_lots d @ [?l]" unfolding new(1) by simp
  moreover have "\<not> P l" if "l \<in> set (credit_lots d)" for l
    using assms(5) [OF that] new(4) new(5) [OF _ that] that by (auto simp: image_iff)
  ultimately have "find P (credit_lots e) = Some ?l" using assms(4) by (simp add: find_last)
  then have "granted ?l \<le> MAX_SAFE" by (rule assms(3))
  then have "nl_granted v \<le> MAX_SAFE" by (simp add: new_lot_row_def)
  then have "empty_lot i d ?l" by (rule new_row_empty(1) [OF assms(2) new(3,4,2)])
  then show ?thesis unfolding new(1) by (rule empty_lot_step)
qed simp

lemma find_window_Some: "find_window a i d = Some w \<Longrightarrow> win_id w = i \<and> win_account w = a"
  by (auto simp: find_window_def find_Some_iff)

lemma keeps_ensureMonthlyLot:
  assumes "\<And>d. uuid_ok (new_id d)"
  shows "keeps (ensureMonthlyLot bill new_id a windowId)"
  unfolding keeps_def
proof (intro allI impI)
  fix d x e
  let ?P = "\<lambda>l. lot_window l = Some windowId \<and> lot_account l = a \<and> lot_kind l = Monthly"
  assume run: "ensureMonthlyLot bill new_id a windowId d = Inr (x, e)"
  show "sound_step d e"
  proof (cases "find_window a windowId d")
    case None
    with run show ?thesis by (auto simp: ensureMonthlyLot_def result_simps split: option.splits)
  next
    case (Some w)
    with run obtain s where ins: "e = d \<or> insert_window_lot (new_id d) (monthly_lot_values w) s d = Inr e"
      by (auto simp: ensureMonthlyLot_def result_simps split: option.splits if_splits)
    show ?thesis
    proof (rule window_lot_step [OF ins assms, of ?P])
      show "granted l \<le> MAX_SAFE" if "find ?P (credit_lots e) = Some l" for l
        using run that by (auto simp: ensureMonthlyLot_def result_simps safe_int_def split: option.splits)
    qed (use find_window_Some [OF Some] in \<open>auto simp: new_lot_row_def monthly_lot_values_def\<close>)
  qed
qed

lemma keeps_ensureProrationLot:
  assumes "\<And>d. uuid_ok (new_id d)"
  shows "keeps (ensureProrationLot bill new_id a windowId sq micro)"
  unfolding keeps_def
proof (intro allI impI)
  fix d x e
  let ?P = "\<lambda>l. grant_key l = prorationGrantKey windowId sq"
  assume run: "ensureProrationLot bill new_id a windowId sq micro d = Inr (x, e)"
  show "sound_step d e"
  proof (cases "find_window a windowId d")
    case None
    with run show ?thesis by (auto simp: ensureProrationLot_def result_simps split: option.splits)
  next
    case (Some w)
    with run obtain s where ins: "e = d \<or>
        insert_window_lot (new_id d) (proration_lot_values w sq micro (db_now d)) s d = Inr e"
      by (auto simp: ensureProrationLot_def result_simps split: option.splits if_splits)
    show ?thesis
    proof (rule window_lot_step [OF ins assms, of ?P])
      show "granted l \<le> MAX_SAFE" if "find ?P (credit_lots e) = Some l" for l
        using run that by (auto simp: ensureProrationLot_def result_simps safe_int_def split: option.splits)
    qed (use find_window_Some [OF Some] in \<open>auto simp: new_lot_row_def proration_lot_values_def\<close>)
  qed
qed

lemma windows_step: "sound_step d (d\<lparr>credit_windows := ws\<rparr>)"
  by (rule untouched_step) (auto simp: find_account_def dest: sys_invD(1,2)
    intro: db_inv_cong [THEN iffD2] hygiene_cong [THEN iffD2])

lemma levels_step: "sound_step d (d\<lparr>credit_windows := ws, credit_window_level_changes := ss\<rparr>)"
  by (rule untouched_step) (auto simp: find_account_def dest: sys_invD(1,2)
    intro: db_inv_cong [THEN iffD2] hygiene_cong [THEN iffD2])

lemma keeps_writeWindow [keeps_rules]: "keeps (writeWindow new_id a c)"
  unfolding keeps_def by (auto simp: writeWindow_def Let_def windows_step split: if_splits)

lemma keeps_setWindowLevel [keeps_rules]: "keeps (setWindowLevel ch)"
  unfolding keeps_def by (auto simp: setWindowLevel_def Let_def levels_step split: if_splits)

subsection \<open>Claims\<close>

lemma claims_step:
  assumes "reversal_key ` set (credit_clawbacks d) \<subseteq> reversal_key ` set bs"
    and "sys_inv d \<Longrightarrow> claims_ok (d\<lparr>credit_clawbacks := bs\<rparr>)"
    and "sys_inv d \<Longrightarrow> claims_backed d \<Longrightarrow> claims_backed (d\<lparr>credit_clawbacks := bs\<rparr>)"
  shows "sound_step d (d\<lparr>credit_clawbacks := bs\<rparr>)"
  using assms claims_sys_inv [of d bs] by (simp add: sound_step_def find_account_def)

lemma update_claims_step:
  assumes "update_clawbacks P f d = Inr (rows, e)" "\<And>c. reversal_key (f c) = reversal_key c"
    and "\<And>c. P c \<Longrightarrow> 0 < cb_pending (f c) \<Longrightarrow> 0 < cb_pending c \<and> cb_state (f c) = cb_state c"
  shows "sound_step d e"
proof -
  have e: "e = d\<lparr>credit_clawbacks := update_where P f (credit_clawbacks d)\<rparr>" by (rule update_clawbacks_Inr [OF assms(1)])
  have checks: "clawback_checks (f c)" if "c \<in> set (credit_clawbacks d)" "P c" for c
    using assms(1) that by (auto simp: update_clawbacks_def Let_def list_all_iff split: if_splits)
  have key: "cb_id (f c) = cb_id c" "cb_account (f c) = cb_account c" for c using assms(2) [of c] by (simp_all add: reversal_key_def)
  have ids: "map cb_id (update_where P f cs) = map cb_id cs" for cs by (induction cs) (auto simp: key)
  have same: "reversal_key ` set (update_where P f cs) = reversal_key ` set cs" for cs by (induction cs) (auto simp: assms(2))
  show ?thesis
    unfolding e
  proof (rule claims_step)
    show "claims_ok (d\<lparr>credit_clawbacks := update_where P f (credit_clawbacks d)\<rparr>)" if "sys_inv d"
      using sys_invD(6) [OF that] checks by (auto simp: claims_ok_def ids set_update_where key)
    show "claims_backed (d\<lparr>credit_clawbacks := update_where P f (credit_clawbacks d)\<rparr>)" if "claims_backed d"
      using that key(2) assms(3) by (auto simp: claims_backed_def set_update_where)
  qed (simp add: same)
qed

lemma keeps_releasePendingClaim: "0 \<le> x \<Longrightarrow> keeps (releasePendingClaim cid x)"
  unfolding keeps_def
  by (auto simp: releasePendingClaim_def result_simps move_pending_def reversal_key_def split: if_splits intro!: update_claims_step)

lemma keeps_markClawbackReversed [keeps_rules]: "keeps (markClawbackReversed cid)"
  unfolding keeps_def
  by (auto simp: markClawbackReversed_def result_simps reverse_row_def reversal_key_def split: if_splits intro!: update_claims_step)

end
