(* ===== verification/Refresh_Sound.thy ===== *)
theory Refresh_Sound
  imports Refresh_Laws
begin

section \<open>Every operation of the refresh keeps the tables sound\<close>

text \<open>
  A reversal of one unit lays a claim only where the account holds credit, so an open task stands behind
  it; all else follows from the rules. At the end the refresh is what the services of the other theories take it to be, and
  so is a sweep over many accounts.
\<close>

subsection \<open>A reversal\<close>

lemma plan_pending_le: "planClawbackOfAmount lots x c = Inr plan \<Longrightarrow> ca_pending plan \<le> c"
  by (auto simp: planClawbackOfAmount_def Let_def split: prod.splits if_splits)

lemma clawback_key_credit: "credit_key (clawback_key input []) \<Longrightarrow> credit_key (clawback_key input s)"
  by (subst clawback_key_append) (rule credit_key_append)

lemma takes_step:
  assumes "run_takes a input d ts = Inr e" "credit_key (clawback_key input [])"
  shows "sound_step d e"
  using assms(1)
proof (rule foldr_result_invariant [where P = "sound_step d"])
  fix c t c'
  assume c: "sound_step d c" and "rbind (append_ledger (take_entry a input t) c) (\<lambda>(_, d'). Inr d') = Inr c'"
  then obtain y where y: "append_ledger (take_entry a input t) c = Inr (y, c')" by (auto simp: result_simps)
  have "keeps (append_ledger (take_entry a input t))"
    by (rule keeps_append) (simp_all add: take_entry_def task_free_def clawback_key_credit [OF assms(2)] split: clawback_kind.split)
  from sound_step_trans [OF c keepsD [OF this y]] show "sound_step d c'" .
qed simp

lemma debt_row_step:
  assumes "append_if b (debt_entry a input x) d = Inr e" "credit_key (clawback_key input [])"
  shows "sound_step d e"
proof -
  have "keeps (append_ledger (debt_entry a input x))"
    by (rule keeps_append) (simp_all add: debt_entry_def task_free_def clawback_key_credit [OF assms(2)])
  then show ?thesis using assms(1) by (auto simp: append_if_def result_simps split: if_splits intro: keepsD)
qed

lemma insertClawback_step:
  assumes "insertClawback new_id v d = Inr (r, e)" "uuid_ok (new_id d)"
    and "sys_inv d \<Longrightarrow> 0 < nc_pending v \<Longrightarrow> list_ex (open_enforce (nc_account v)) (credit_reservations d)"
  shows "sound_step d e"
proof -
  let ?row = "clawback_row (new_id d) (db_now d) v"
  have "e = d \<or> e = d\<lparr>credit_clawbacks := credit_clawbacks d @ [?row]\<rparr> \<and> clawback_checks ?row \<and>
      \<not> list_ex (same_clawback_key ?row) (credit_clawbacks d)"
    using assms(1) by (auto simp: insertClawback_def Let_def result_simps split: if_splits option.splits)
  then show ?thesis
  proof
    assume new: "e = d\<lparr>credit_clawbacks := credit_clawbacks d @ [?row]\<rparr> \<and> clawback_checks ?row \<and>
      \<not> list_ex (same_clawback_key ?row) (credit_clawbacks d)"
    then have e: "e = d\<lparr>credit_clawbacks := credit_clawbacks d @ [?row]\<rparr>" by blast
    have parts: "cb_id ?row = new_id d" "cb_pending ?row = nc_pending v" "cb_state ?row = Applied" "cb_account ?row = nc_account v"
      by (simp_all add: clawback_row_def)
    show ?thesis
      unfolding e
    proof (rule claims_step)
      assume inv: "sys_inv d"
      have "new_id d \<notin> cb_id ` set (credit_clawbacks d)" using new by (auto simp: list_ex_iff same_clawback_key_def parts)
      then show "claims_ok (d\<lparr>credit_clawbacks := credit_clawbacks d @ [?row]\<rparr>)"
        using sys_invD(6) [OF inv] new assms(2) by (auto simp: claims_ok_def parts)
      show "claims_backed d \<Longrightarrow> claims_backed (d\<lparr>credit_clawbacks := credit_clawbacks d @ [?row]\<rparr>)"
        using assms(3) [OF inv] by (auto simp: claims_backed_def parts)
    qed auto
  qed simp
qed

lemma claimable_held:
  assumes "sys_inv d" "heldMicro a d = Inr h" "pendingClaimTotalMicro a d = Inr s" "0 < claimable_credit c h s"
  shows "list_ex (open_enforce a) (credit_reservations d)"
proof (rule held_by_open_task [OF assms(1)])
  have "0 \<le> s" using assms(3) by (auto simp: pendingClaimTotalMicro_def result_simps)
  moreover have "claimable_credit c h s \<le> max 0 (h - s)" by (rule claimable_bounds)
  ultimately have "0 < h" using assms(4) by simp
  then show "0 < sum_by held (filter (\<lambda>l. lot_account l = a) (credit_lots d))"
    using assms(2) by (simp add: heldMicro_def result_simps)
qed

lemma keeps_clawBack:
  assumes ids: "\<And>d. uuid_ok (new_id d)" and key: "credit_key (clawback_key input [])"
  shows "keeps (clawBack new_id a input)"
  unfolding keeps_def
proof (intro allI impI, rule sound_step_under)
  fix d r e
  assume run: "clawBack new_id a input d = Inr (r, e)" and inv: "sys_inv d"
  show "sound_step d e"
  proof (cases "findClawback (ci_source input) (ci_sourceRef input) (ci_targetKey input) d = Inr None")
    case False
    with run have "e = d" by (auto simp: clawBack_def result_simps split: option.splits)
    then show ?thesis by simp
  next
    case True
    with run obtain lots :: "ClawbackTargetLot list" and h s plan d1 d2 d3 paid where
        reads: "heldMicro a d = Inr h" "pendingClaimTotalMicro a d = Inr s"
        "planClawbackOfAmount lots (ci_amountMicro input) (claimable_credit (ci_claimableMicro input) h s) = Inr plan"
      and rows: "run_takes a input d (ca_takes plan) = Inr d1"
        "append_if (ca_debt plan > 0) (debt_entry a input (ca_debt plan)) d1 = Inr d2"
      and rec: "insertClawback new_id (new_clawback a input plan) d2 = Inr (r, d3)"
      and paid: "(if ci_settle input then settleDebtFromFree a d3 else Inr ([], d3)) = Inr (paid, e)"
      by (simp add: clawBack_def result_simps) blast
    have s2: "sound_step d d2"
      by (rule sound_step_trans [OF takes_step [OF rows(1) key] debt_row_step [OF rows(2) key]])
    have "sound_step d2 d3"
    proof (rule insertClawback_step [OF rec ids])
      assume "0 < nc_pending (new_clawback a input plan)"
      then have "0 < claimable_credit (ci_claimableMicro input) h s"
        using plan_pending_le [OF reads(3)] by (simp add: new_clawback_def)
      from claimable_held [OF inv reads(1,2) this] s2 inv
      show "list_ex (open_enforce (nc_account (new_clawback a input plan))) (credit_reservations d2)"
        by (simp add: sound_step_def new_clawback_def)
    qed
    moreover have "sound_step d3 e"
      using paid keepsD [OF keeps_settleDebt] by (auto split: if_splits)
    ultimately show ?thesis using s2 by (blast intro: sound_step_trans)
  qed
qed

subsection \<open>Moving units\<close>

lemma credit_key_families:
  "credit_key (''clawback:'' @ s)" "credit_key (''reinstate:'' @ s)" "credit_key (''grant:'' @ s)"
  "credit_key (''proration_grant:'' @ s)"
  unfolding credit_key_def by simp_all

lemmas credit_key_simps [simp] = credit_key_families credit_key_families [unfolded append_Cons append_Nil]

lemma entries [simp]:
  "entry_key (adjust_entry a i x k why) = k" "task_free (entry_movement (adjust_entry a i x k why))"
  "entry_key (forgive_entry a x k why) = k" "task_free (entry_movement (forgive_entry a x k why))"
  "entry_key (grant_entry a i x k r) = k" "task_free (entry_movement (grant_entry a i x k r))"
  "entry_key (proration_entry a l) = ''proration_grant:'' @ ml_lotId l" "task_free (entry_movement (proration_entry a l))"
  by (simp_all add: adjust_entry_def forgive_entry_def grant_entry_def proration_entry_def task_free_def)

definition ids_ok :: "grants_env \<Rightarrow> bool" where
  "ids_ok env \<longleftrightarrow> (\<forall>d. uuid_ok (ge_new_id env d))"

lemma ids_okD: "ids_ok env \<Longrightarrow> uuid_ok (ge_new_id env d)"
  by (simp add: ids_ok_def)

lemma keeps_takeFromUnit [keeps_rules]:
  assumes "ids_ok env"
  shows "keeps (takeFromUnit env a state x ev suffix extras)"
  unfolding takeFromUnit_def
  by (rule keeps_clawBack [OF ids_okD [OF assms]]) (simp add: clawback_key_def unit_reversal_def Let_def)

text \<open>The keys of the rows a return writes are made from the keys of its parts.\<close>

definition walk_keys :: "return_walk \<Rightarrow> bool" where
  "walk_keys st \<longleftrightarrow> (\<forall>p\<in>set (rw_into st). credit_key (fst p)) \<and>
     (\<forall>p\<in>set (rw_fresh st). \<forall>q\<in>set (fg_rows (snd p)). credit_key (fst q))"

lemma update_member: "x \<in> set (AList.update k v al) \<Longrightarrow> x = (k, v) \<or> x \<in> set al"
  by (induction al) (auto split: if_splits)

lemma put_back_keys: "walk_keys st \<Longrightarrow> credit_key (pt_key p) \<Longrightarrow> walk_keys (put_back p x st)"
  by (auto simp: put_back_def walk_keys_def Let_def credit_key_append dest!: update_member)

lemma put_new_keys:
  assumes "walk_keys st" "credit_key (pt_key p)"
  shows "walk_keys (put_new p lot x st)"
proof -
  define g where "g = or_else (map_of (rw_fresh st) (or_else (rl_unit lot) []))
    \<lparr>fg_owner = rl_unit lot, fg_rows = [], fg_ends = []\<rparr>"
  have g: "credit_key (fst q)" if "q \<in> set (fg_rows g)" for q
  proof (cases "map_of (rw_fresh st) (or_else (rl_unit lot) [])")
    case None
    with that show ?thesis by (simp add: g_def)
  next
    case (Some h)
    from map_of_SomeD [OF this] that assms(1) Some show ?thesis by (fastforce simp: g_def walk_keys_def)
  qed
  show ?thesis
    using assms g
    by (auto simp: put_new_def walk_keys_def Let_def g_def [symmetric] add_at_def credit_key_append dest!: update_member)
qed

lemma walk_left [simp]: "walk_keys (st\<lparr>rw_left := y\<rparr>) = walk_keys st"
  by (simp add: walk_keys_def)

lemma walk_if: "walk_keys x \<Longrightarrow> walk_keys y \<Longrightarrow> walk_keys (if b then x else y)"
  by simp

lemma return_part_keys:
  assumes "walk_keys st" "credit_key (pt_key p)"
  shows "walk_keys (return_part win lots p st)"
proof (cases "map_of lots (pt_lotId p)")
  case None
  with assms(1) show ?thesis by (simp add: return_part_def)
next
  case (Some lot)
  show ?thesis
    unfolding return_part_def Some option.case Let_def
    by (intro walk_if put_new_keys put_back_keys walk_left [THEN iffD2] assms)
qed

lemma return_walk_keys: "walk_keys st \<Longrightarrow> (\<And>p. p \<in> set ps \<Longrightarrow> credit_key (pt_key p)) \<Longrightarrow> walk_keys (fold (return_part win lots) ps st)"
  by (induction ps arbitrary: st) (auto intro: return_part_keys)

lemma keeps_append_adjust: "credit_key k \<Longrightarrow> keeps (append_adjust a i x k given)"
  unfolding append_adjust_def by (intro keeps_rules keeps_append) simp_all

lemma keeps_new_lot:
  assumes "ids_ok env" "\<And>x. keeps (f x)"
  shows "keeps (\<lambda>db. run_then (insertLot (ge_new_id env db) v) f db)"
  unfolding keeps_def
proof (intro allI impI)
  fix d x e
  assume "run_then (insertLot (ge_new_id env d) v) f d = Inr (x, e)"
  moreover have "keeps (run_then (insertLot (ge_new_id env d) v) f)"
    by (intro keeps_rules keeps_insertLot ids_okD assms)
  ultimately show "sound_step d e" by (blast dest: keepsD)
qed

lemma keeps_new_return_lot:
  assumes "ids_ok env" "\<And>p. p \<in> set (fg_rows g) \<Longrightarrow> credit_key (fst p)"
  shows "keeps (new_return_lot env a c tag g given)"
  unfolding new_return_lot_def
  by (rule keeps_run_then [OF keeps_leaf(3)], rule keeps_new_lot [OF assms(1)], intro keeps_rules keeps_append_adjust)
    (auto dest: assms(2))

lemma keeps_returnCredit:
  assumes "ids_ok env" "\<And>p. p \<in> set parts \<Longrightarrow> credit_key (pt_key p)"
  shows "keeps (returnCredit env a parts budget win)"
proof -
  define st where "st lots = fold (return_part (map_option fst win) lots) (filter (\<lambda>p. pt_micro p > 0) parts)
    \<lparr>rw_into = [], rw_usedRoom = [], rw_fresh = [], rw_left = budget\<rparr>" for lots
  have "walk_keys \<lparr>rw_into = [], rw_usedRoom = [], rw_fresh = [], rw_left = budget\<rparr>" by (simp add: walk_keys_def)
  then have "walk_keys (st lots)" for lots unfolding st_def by (rule return_walk_keys) (use assms(2) in simp)
  then have keys: "\<And>lots p. p \<in> set (rw_into (st lots)) \<Longrightarrow> credit_key (fst p)"
    "\<And>lots p q. p \<in> set (rw_fresh (st lots)) \<Longrightarrow> q \<in> set (fg_rows (snd p)) \<Longrightarrow> credit_key (fst q)"
    by (auto simp: walk_keys_def)
  show ?thesis
    unfolding returnCredit_def Let_def st_def [symmetric]
    by (intro keeps_rules keeps_append_adjust keeps_new_return_lot assms(1))
      (auto dest: keys)
qed

lemma keeps_giveBackBeyond [keeps_rules]:
  assumes "ids_ok env"
  shows "keeps (giveBackBeyond env a state x ev win)"
  unfolding giveBackBeyond_def Let_def
  by (intro keeps_rules keeps_append keeps_returnCredit assms)
    (auto simp: reinstateGrantKey_def beyond_parts_def return_part_of_def)

lemma keeps_grantLot:
  assumes "ids_ok env" "credit_key k"
  shows "keeps (grantLot env a k x e why)"
  unfolding grantLot_def
  by (rule keeps_if, rule keeps_leaf, rule keeps_run_then [OF keeps_leaf(3)], rule keeps_new_lot [OF assms(1)])
    (intro keeps_rules keeps_append, simp_all add: credit_key_append assms)

lemma keeps_restoreTaken [keeps_rules]: "ids_ok env \<Longrightarrow> keeps (restoreTaken env a state x ref ev)"
  unfolding restoreTaken_def restore_lot_def Let_def
  by (intro keeps_rules keeps_append keeps_grantLot) (simp_all add: reinstateGrantKey_def)

lemma keeps_release_claim: "keeps (release_claim c left)"
  unfolding release_claim_def by (intro keeps_rules keeps_releasePendingClaim) simp

lemma keeps_giveBack [keeps_rules]: "ids_ok env \<Longrightarrow> keeps (giveBack env a state x ev win)"
  unfolding giveBack_def Let_def by (intro keeps_rules keeps_release_claim)

lemma keeps_reconcileUnit [keeps_rules]: "ids_ok env \<Longrightarrow> keeps (reconcileUnit env a w ref u target mode ev extras win)"
  unfolding reconcileUnit_def unit_after_win_def Let_def by (intro keeps_rules)

subsection \<open>The refresh\<close>

lemma keeps_reconcilePaymentUnits [keeps_rules]: "ids_ok env \<Longrightarrow> keeps (reconcilePaymentUnits env a source ref terms opts)"
  unfolding reconcilePaymentUnits_def move_unit_def Let_def by (intro keeps_rules)

lemma keeps_reconcileWindowUnits [keeps_rules]: "ids_ok env \<Longrightarrow> keeps (reconcileWindowUnits env a input)"
  unfolding reconcileWindowUnits_def reconcile_disputed_def hold_envelope_def Let_def by (intro keeps_rules)

lemma keeps_materializeWindows [keeps_rules]: "ids_ok env \<Longrightarrow> keeps (materializeWindows env a)"
  unfolding materializeWindows_def monthly_grant_def
  by (intro keeps_rules keeps_ensureMonthlyLot ids_okD keeps_append) simp_all

lemma keeps_proration_grant [keeps_rules]: "ids_ok env \<Longrightarrow> keeps (proration_grant env a w sq delta)"
  unfolding proration_grant_def by (intro keeps_rules keeps_ensureProrationLot ids_okD keeps_append) simp_all

lemma keeps_reconcileLevel [keeps_rules]: "ids_ok env \<Longrightarrow> keeps (reconcileLevel env a)"
  unfolding reconcileLevel_def follow_line_def follow_shown_def
  by (intro keeps_rules keeps_clawBack ids_okD)
    (simp_all add: clawback_key_def clawbackLedgerKey_def plan_change_clawback_def)

lemma keeps_alignLevels [keeps_rules]: "keeps (alignLevels env a reason ref)"
  unfolding alignLevels_def Let_def by (intro keeps_rules)

text \<open>What a statement returns, when it matters to the next one.\<close>

definition gives :: "('a \<Rightarrow> bool) \<Rightarrow> 'a statement \<Rightarrow> bool" where
  "gives Q f \<longleftrightarrow> (\<forall>d x e. f d = Inr (x, e) \<longrightarrow> Q x)"

lemma keeps_given: "keeps f \<Longrightarrow> gives Q f \<Longrightarrow> (\<And>x. Q x \<Longrightarrow> keeps (g x)) \<Longrightarrow> keeps (run_then f g)"
  unfolding keeps_def gives_def run_then_Inr by (metis sound_step_trans)

lemma gives_each_do: "(\<And>x s. x \<in> set xs \<Longrightarrow> Q s \<Longrightarrow> gives Q (f x s)) \<Longrightarrow> Q s \<Longrightarrow> gives Q (each_do f xs s)"
proof (induction xs arbitrary: s)
  case (Cons x xs)
  have "gives Q (each_do f xs t)" if "Q t" for t using Cons.IH [OF Cons.prems(1) that] by simp
  moreover have "gives Q (f x s)" by (rule Cons.prems) (simp_all add: Cons.prems(2))
  ultimately show ?case unfolding gives_def each_do.simps run_then_Inr by blast
qed (simp add: gives_def give_def)

definition parts_keyed :: "ReturnPart list \<times> int \<Rightarrow> bool" where
  "parts_keyed acc \<longleftrightarrow> (\<forall>p\<in>set (fst acc). credit_key (pt_key p))"

lemma undo_parts_keyed: "undo_parts a k own c r d = Inr ps \<Longrightarrow> credit_key k \<Longrightarrow> p \<in> set ps \<Longrightarrow> credit_key (pt_key p)"
  by (auto simp: undo_parts_def result_simps return_part_of_def)

lemma giveback_prefix_key: "credit_key (unitGivebackPrefix k @ s)"
  by (simp add: unitGivebackPrefix_def)

lemma undo_clawback_gives: "parts_keyed acc \<Longrightarrow> gives parts_keyed (undo_clawback a k state c acc)"
  by (cases acc; cases "find (\<lambda>x. uc_id (uh_clawback x) = cr_id c) (un_charges state)")
    (auto simp: undo_clawback_def gives_def result_simps Let_def parts_keyed_def dest: undo_parts_keyed [OF _ giveback_prefix_key])

lemma undo_unit_gives: "parts_keyed acc \<Longrightarrow> gives parts_keyed (undo_unit a ws u acc)"
proof -
  assume acc: "parts_keyed acc"
  have "gives parts_keyed (each_do (undo_clawback a k state) cs acc)" for k state cs
    by (rule gives_each_do) (simp_all add: undo_clawback_gives acc)
  then have "gives parts_keyed (run_then r (\<lambda>state. each_do (undo_clawback a k state) cs acc))" for r k cs
    unfolding gives_def run_then_Inr by blast
  moreover have "gives parts_keyed (give acc)" using acc by (simp add: gives_def give_def)
  ultimately show ?thesis by (simp add: undo_unit_def split: prod.split option.split)
qed

lemma keeps_undo_unit [keeps_rules]: "keeps (undo_unit a ws u acc)"
  unfolding undo_unit_def undo_clawback_def Let_def
  by (intro keeps_rules keeps_append) (simp_all add: giveback_prefix_key)

lemma keeps_returnWhatADisputeRemoved [keeps_rules]:
  assumes "ids_ok env"
  shows "keeps (returnWhatADisputeRemoved env a cs win)"
proof -
  have "gives parts_keyed (each_do (undo_unit a ws) us ([], 0))" for ws us
    by (rule gives_each_do) (simp_all add: undo_unit_gives, simp add: parts_keyed_def)
  then show ?thesis
    unfolding returnWhatADisputeRemoved_def Let_def
    by (intro keeps_if keeps_leaf keeps_run_then keeps_given [where Q = parts_keyed] keeps_each_do keeps_undo_unit keeps_pair
        keeps_returnCredit assms) (auto simp: parts_keyed_def)
qed

lemma keeps_refreshCreditsIn [keeps_rules]: "ids_ok env \<Longrightarrow> keeps (refreshCreditsIn env a)"
  unfolding refreshCreditsIn_def by (intro keeps_rules)

lemma keeps_transaction [keeps_rules]: "keeps f \<Longrightarrow> keeps (transaction f)"
  unfolding keeps_def by (auto simp: transaction_def result_simps)

lemma keeps_refreshCredits [keeps_rules]: "ids_ok env \<Longrightarrow> keeps (refreshCredits env a)"
  unfolding refreshCredits_def by (intro keeps_rules)

lemma sweep_account_step:
  assumes "ids_ok env" "sweep_account env a (r, d) = (r', e)"
  shows "sound_step d e"
  using assms(2) keepsD [OF keeps_refreshCredits [OF assms(1)]]
  by (auto simp: sweep_account_def split: sum.splits)

lemma sweep_fold_step: "ids_ok env \<Longrightarrow> fold (sweep_account env) ids (r, d) = (r', e) \<Longrightarrow> sound_step d e"
proof (induction ids arbitrary: r d)
  case (Cons a ids)
  obtain r1 d1 where s: "sweep_account env a (r, d) = (r1, d1)" by (cases "sweep_account env a (r, d)")
  then have "sound_step d1 e" using Cons by simp
  with sweep_account_step [OF Cons.prems(1) s] show ?case by (rule sound_step_trans)
qed simp

lemma keeps_sweep: "ids_ok env \<Longrightarrow> keeps (sweep env f n)"
  unfolding keeps_def by (auto simp: sweep_def result_simps dest: sweep_fold_step)

subsection \<open>What the services ask of a refresh\<close>

lemma account_refresher_sound:
  assumes "ids_ok env"
  shows "refresh_sound (account_refresher env)"
proof -
  have keeps: "keeps (run_then (refreshCreditsIn env a) (\<lambda>_. give ()))" for a
    by (intro keeps_rules keeps_refreshCreditsIn assms)
  show ?thesis
    using keepsD [OF keeps] unfolding refresh_sound_def account_refresher_def sound_step_def by auto
qed

lemma settled_debt_or_free:
  assumes "settleDebtFromFree a d = Inr (paid, e)" "sys_inv d" "ledger_seq d < 10 ^ 17"
  shows "credit_check_debt_vs_free e a"
proof -
  note ok = sys_invD [OF assms(2)]
  have "account_debt d a \<le> MAX_SAFE"
    using assms(1) by (auto simp: settleDebtFromFree_def result_simps safe_int_def)
  from settle_debt_effect [OF ok(1,2) assms(3) this] assms(1)
  have "account_debt e a = account_debt d a - sum_by snd paid" "free_credit e a = free_credit d a - sum_by snd paid"
    "sum_by snd paid = min (account_debt d a) (free_credit d a)" by auto
  then show ?thesis by (auto simp: credit_check_debt_vs_free_def min_def)
qed

lemma refresh_settles_last:
  assumes "ids_ok env" "refreshCredits env a d = Inr (result, e)"
  shows "\<exists>d1 paid. sound_step d d1 \<and> settleDebtFromFree a d1 = Inr (paid, e)"
proof -
  define before where "before = run_then (lockAccount a) (\<lambda>_. run_then (expireDueLots a) (\<lambda>_.
     run_then (materializeWindows env a) (\<lambda>window. run_then (reconcileLevel env a) (\<lambda>level.
     reconcileWindowUnits env a \<lparr>wi_event = None, wi_exclude = [], wi_changed = (is_created window \<or> level \<noteq> None),
       wi_win = None\<rparr>))))"
  have "keeps before" unfolding before_def by (intro keeps_rules assms(1))
  moreover obtain d1 paid where "before d = Inr ((), d1)" "settleDebtFromFree a d1 = Inr (paid, e)"
    using assms(2)
    by (fastforce simp: refreshCredits_def transaction_def refreshCreditsIn_def before_def run_then_Inr reading_Inr give_Inr
        result_simps split: if_splits)
  ultimately show ?thesis by (blast dest: keepsD)
qed

text \<open>A refresh that goes through keeps the books. Whatever the billing tables say and whichever account is refreshed, the
  invariant of all tables still holds, the ledger only got longer, no task, hold, call or rate card moved and no claim of a
  reversal is left without an open task; and the account does not both owe debt and have credit to pay it
  with, because the debt was repaid from what was free.\<close>
theorem refresh_keeps_the_books:
  assumes "ids_ok env" and "sys_inv d" and "refreshCredits env a d = Inr (result, e)" and "ledger_seq e < 10 ^ 17"
  shows "sys_inv e \<and> (\<exists>rows. credit_ledger e = credit_ledger d @ rows) \<and> credit_reservations e = credit_reservations d \<and>
    credit_reservation_holds e = credit_reservation_holds d \<and> credit_model_calls e = credit_model_calls d \<and>
    credit_rate_cards e = credit_rate_cards d \<and> (claims_backed d \<longrightarrow> claims_backed e) \<and> credit_check_debt_vs_free e a"
proof -
  have step: "sound_step d e" by (rule keepsD [OF keeps_refreshCredits [OF assms(1)] assms(3)])
  obtain d1 paid where d1: "sound_step d d1" "settleDebtFromFree a d1 = Inr (paid, e)"
    using refresh_settles_last [OF assms(1,3)] by blast
  have inv: "sys_inv d1" using d1(1) assms(2) by (simp add: sound_step_def)
  have "ledger_seq d1 < 10 ^ 17"
    using keepsD [OF keeps_settleDebt d1(2)] inv assms(4) by (simp add: sound_step_def)
  then have "credit_check_debt_vs_free e a" by (rule settled_debt_or_free [OF d1(2) inv])
  with step assms(2) show ?thesis by (simp add: sound_step_def)
qed

text \<open>
  The example: an account with a plan of 100 credits a month set by hand, refreshed while it has a task open. Its month is
  opened and granted.
\<close>

definition example_billing :: billing where
  "example_billing =
     \<lparr>bill_payments = [], bill_subscriptions = [], bill_entitlements = [],
      bill_overrides = [\<lparr>po_account = example_account, po_monthlyCredits = 100, po_anchor = 0, po_ends = None, po_effectiveSince = 0\<rparr>],
      bill_accounts = [(example_account, enterprise)]\<rparr>"

definition example_env :: grants_env where
  "example_env = \<lparr>ge_bill = example_billing, ge_new_id = example_new_id, ge_now = 100\<rparr>"

lemma example_ids: "ids_ok example_env"
  by (simp add: ids_ok_def example_env_def example_new_id_ok)

lemma example_refresh_runs:
  "map_sum id (\<lambda>(r, e). (crr_window r, map granted (credit_lots e), ledger_seq e))
       (refreshCredits example_env example_account (example_task_db Enforce 100)) =
     Inr (WindowGrant True (example_new_id (example_task_db Enforce 100)) PlanOverride ''override'' 100000000,
       [2000000, 100000000], 2)"
  by code_simp

lemma example_refresh:
  obtains r e where "refreshCredits example_env example_account (example_task_db Enforce 100) = Inr (r, e)"
    "map granted (credit_lots e) = [2000000, 100000000]" "ledger_seq e = 2"
  using example_refresh_runs
  by (cases "refreshCredits example_env example_account (example_task_db Enforce 100)") auto

theorem refresh_keeps_the_books_witness:
  "\<exists>r e. refreshCredits example_env example_account (example_task_db Enforce 100) = Inr (r, e) \<and> sys_inv e \<and>
     map granted (credit_lots e) = [2000000, 100000000] \<and> credit_reservations e = credit_reservations (example_task_db Enforce 100) \<and>
     credit_check_debt_vs_free e example_account"
proof -
  obtain r e where ran: "refreshCredits example_env example_account (example_task_db Enforce 100) = Inr (r, e)"
    "map granted (credit_lots e) = [2000000, 100000000]" "ledger_seq e = 2"
    by (rule example_refresh)
  have "ledger_seq e < 10 ^ 17" by (simp add: ran(3))
  from refresh_keeps_the_books [OF example_ids example_task_sys ran(1) this] ran(1,2) show ?thesis
    by (intro exI [of _ r] exI [of _ e]) simp
qed

end
