(* ===== verification/Payment_Reversals.thy ===== *)
theory Payment_Reversals
  imports Refresh_Sound
begin

section \<open>Refunds and disputes\<close>

text \<open>
  \<^verbatim>\<open>services/credit-clawbacks.ts\<close>: what a refund, a dispute, a won dispute and a refunded crypto order do to the credits a
  payment bought. Each runs in one transaction over the credit tables and the payment's row, so it returns the billing
  tables it leaves with its outcome. \<^verbatim>\<open>reversedFractionPpm\<close> rounds the exact quotient, where the code divides doubles.
\<close>

subsection \<open>Amounts and names\<close>

definition PPM :: int where
  "PPM = 1000000"

definition reversedFractionPpm :: "int \<Rightarrow> int \<Rightarrow> int result" where
  "reversedFractionPpm reversedMinor amountPaidMinor =
     (if \<not> safe_int reversedMinor \<or> \<not> safe_int amountPaidMinor then Inl RangeError
      else if amountPaidMinor \<le> 0 \<or> reversedMinor \<le> 0 then Inr 0
      else Inr (min PPM ((2 * (reversedMinor * PPM) + amountPaidMinor) div (2 * amountPaidMinor))))"

definition wholeMinor :: "int \<Rightarrow> int result" where
  "wholeMinor v = (if \<not> safe_int v \<or> v < 0 then Inl RangeError else Inr v)"

definition wholeMicro :: "int \<Rightarrow> int result" where
  "wholeMicro v = (if \<not> safe_int v \<or> v < 0 then Inl RangeError else Inr v)"

definition stillPaidForMicro :: "int \<Rightarrow> int \<Rightarrow> int \<Rightarrow> int result" where
  "stillPaidForMicro grantedMicro amountPaidMinor reversedMinor =
     rbind (wholeMicro grantedMicro) (\<lambda>_. rbind (wholeMinor amountPaidMinor) (\<lambda>_. rbind (wholeMinor reversedMinor) (\<lambda>_.
       Inr (if amountPaidMinor = 0 then grantedMicro
            else trunc_div (grantedMicro * (amountPaidMinor - min amountPaidMinor reversedMinor)) amountPaidMinor))))"

definition refundSourceRef :: "string \<Rightarrow> int \<Rightarrow> string" where
  "refundSourceRef chargeId cumulativeRefundedMinor = chargeId @ '':'' @ dec (nat cumulativeRefundedMinor)"

definition disputeRecordTarget :: "string \<Rightarrow> string" where
  "disputeRecordTarget stripeInvoiceId = ''invoice:'' @ stripeInvoiceId"

definition wonDisputeSettleRef :: "string \<Rightarrow> string" where
  "wonDisputeSettleRef disputeId = disputeId @ '':won''"

text \<open>\<^verbatim>\<open>/^window:(uuid)(?::(.+))?$/\<close> and \<^verbatim>\<open>/^invoice:(.+)$/\<close>: a dot matches no line break.\<close>

definition one_line :: "string \<Rightarrow> bool" where
  "one_line s \<longleftrightarrow> s \<noteq> [] \<and> (\<forall>c\<in>set s. c \<noteq> CHR 0x0A \<and> c \<noteq> CHR 0x0D)"

definition coverageRefOf :: "string \<Rightarrow> string option" where
  "coverageRefOf targetKey =
     (let w = drop 7 targetKey; ref = drop 37 w; invoice = drop 8 targetKey
      in if take 7 targetKey = ''window:'' \<and> uuid_shape (take 36 w) \<and> take 1 (drop 36 w) = '':'' \<and> one_line ref then Some ref
         else if take 8 targetKey = ''invoice:'' \<and> one_line invoice then Some invoice
         else None)"

datatype ReversalOutcome =
    ReversalApplied uuid int "CreditClawbackRecord list"
  | ReversalAlreadyApplied uuid
  | ReversalNoWindows uuid
  | ReversalUnmatched

datatype ReinstateOutcome = Reinstated uuid nat int int | NothingToReinstate

subsection \<open>The payment's row\<close>

record PaymentRow =
  pr_stripeInvoiceId :: string
  pr_accountId :: uuid
  pr_amountPaidMinor :: int
  pr_refundedMinor :: int
  pr_disputedMinor :: int
  pr_lineKind :: "string option"

definition minor :: "int \<Rightarrow> int result" where
  "minor v = (if \<not> safe_int v \<or> v < 0 then Inl RangeError else Inr v)"

definition paymentOf :: "stripe_payment list \<Rightarrow> PaymentRow option result" where
  "paymentOf rows =
     (case rows of
        [] \<Rightarrow> Inr None
      | p # _ \<Rightarrow>
          rbind (minor (pay_amount p)) (\<lambda>paid. rbind (minor (pay_refunded p)) (\<lambda>refunded.
          rbind (minor (pay_disputed p)) (\<lambda>disputed.
            Inr (Some \<lparr>pr_stripeInvoiceId = pay_invoice p, pr_accountId = pay_account p, pr_amountPaidMinor = paid,
                       pr_refundedMinor = refunded, pr_disputedMinor = disputed, pr_lineKind = pay_lineKind p\<rparr>)))))"

definition findPayment :: "billing \<Rightarrow> string option \<Rightarrow> string option \<Rightarrow> PaymentRow option result" where
  "findPayment bill chargeId stripeInvoiceId =
     paymentOf
       (sort_key (\<lambda>p. (if pay_charge p = chargeId then 0 else 1 :: int, - pay_paidAt p))
         (filter (\<lambda>p. chargeId \<noteq> None \<and> pay_charge p = chargeId \<or>
                      stripeInvoiceId \<noteq> None \<and> Some (pay_invoice p) = stripeInvoiceId) (bill_payments bill)))"

definition paymentOfInvoice :: "billing \<Rightarrow> string \<Rightarrow> PaymentRow option result" where
  "paymentOfInvoice bill stripeInvoiceId = findPayment bill None (Some stripeInvoiceId)"

text \<open>An \<^verbatim>\<open>UPDATE\<close> of payments, under the CHECKs of their table.\<close>

definition update_payments :: "(stripe_payment \<Rightarrow> bool) \<Rightarrow> (stripe_payment \<Rightarrow> stripe_payment) \<Rightarrow> billing \<Rightarrow> billing result" where
  "update_payments P f bill =
     (if \<not> list_all (\<lambda>p. payment_checks (f p)) (filter P (bill_payments bill)) then Inl (SqlError 23514)
      else Inr (bill\<lparr>bill_payments := update_where P f (bill_payments bill)\<rparr>))"

definition set_refunded :: "string \<Rightarrow> int \<Rightarrow> billing \<Rightarrow> billing result" where
  "set_refunded invoice x =
     update_payments (\<lambda>p. pay_invoice p = invoice \<and> pay_refunded p < x) (\<lambda>p. p\<lparr>pay_refunded := x\<rparr>)"

definition setDisputed :: "PaymentRow \<Rightarrow> int \<Rightarrow> billing \<Rightarrow> billing result" where
  "setDisputed payment sumMinor =
     update_payments (\<lambda>p. pay_invoice p = pr_stripeInvoiceId payment)
       (\<lambda>p. p\<lparr>pay_disputed := min (pay_amount p) (max 0 sumMinor)\<rparr>)"

definition standingDisputedMinor :: "PaymentRow \<Rightarrow> db \<Rightarrow> int result" where
  "standingDisputedMinor payment db =
     rbind (standingDisputes (pr_accountId payment) (pr_stripeInvoiceId payment) db) (\<lambda>standing.
       Inr (sum_by sd_amountMinor standing))"

definition notOnRecord :: "string option \<Rightarrow> ReversalOutcome result" where
  "notOnRecord stripeInvoiceId =
     (if stripeInvoiceId \<noteq> None then Inl CreditReversalAwaitsPaymentError else Inr ReversalUnmatched)"

subsection \<open>Taking back what a payment bought\<close>

datatype reversal_reason = by_refund | by_dispute

fun level_reason :: "reversal_reason \<Rightarrow> level_change_reason" where
  "level_reason by_refund = Refund" | "level_reason by_dispute = Dispute"

definition refundEvent :: "string \<Rightarrow> CreditUnitEvent" where
  "refundEvent ref =
     \<lparr>ev_source = ''stripe_refund'', ev_ref = ref, ev_ledgerKind = TakesForReversal, ev_debtReason = ''payment_reversed'',
      ev_label = ''refund'', ev_disputedMinor = None\<rparr>"

definition disputeEvent :: "string \<Rightarrow> int \<Rightarrow> CreditUnitEvent" where
  "disputeEvent ref x =
     \<lparr>ev_source = ''stripe_dispute'', ev_ref = ref, ev_ledgerKind = TakesForReversal, ev_debtReason = ''payment_reversed'',
      ev_label = ''dispute'', ev_disputedMinor = Some x\<rparr>"

definition wonEvent :: "string \<Rightarrow> CreditUnitEvent" where
  "wonEvent disputeId =
     \<lparr>ev_source = ''stripe_dispute'', ev_ref = wonDisputeSettleRef disputeId, ev_ledgerKind = TakesForReversal,
      ev_debtReason = ''payment_reversed'', ev_label = ''dispute_reinstated'', ev_disputedMinor = None\<rparr>"

definition cryptoEvent :: "string \<Rightarrow> CreditUnitEvent" where
  "cryptoEvent orderId =
     \<lparr>ev_source = ''crypto_refund'', ev_ref = orderId, ev_ledgerKind = TakesForReversal, ev_debtReason = ''payment_reversed'',
      ev_label = ''refund'', ev_disputedMinor = None\<rparr>"

definition event_input :: "CreditUnitEvent \<Rightarrow> WonDisputeReturn option \<Rightarrow> window_units_input" where
  "event_input ev win = \<lparr>wi_event = Some ev, wi_exclude = [], wi_changed = False, wi_win = win\<rparr>"

text \<open>A refund that took nothing back still records what the cap was measured on, while a dispute stands.\<close>

definition record_idle_refund :: "grants_env \<Rightarrow> InvoicePaymentFacts \<Rightarrow> CreditUnitEvent \<Rightarrow> reversal_reason \<Rightarrow> int
    \<Rightarrow> UnitReconcileSummary \<Rightarrow> unit statement" where
  "record_idle_refund env facts ev reason reversedAfterMinor result =
     (case ur_capSpentMicro result of
        None \<Rightarrow> give ()
      | Some capSpent \<Rightarrow>
          if reason = by_refund \<and> ur_clawbacks result = [] \<and> if_disputedMinor facts > 0
          then run_then (computing (reversedFractionPpm reversedAfterMinor (if_amountPaidMinor facts))) (\<lambda>ppm.
               run_then (reading (ledgerMark (if_accountId facts))) (\<lambda>mark.
                 recordRefund (ge_new_id env) (if_accountId facts) (ev_ref ev)
                   (disputeRecordTarget (if_stripeInvoiceId facts)) ppm capSpent mark))
          else give ())"

definition payment_opts :: "reconcile_mode \<Rightarrow> CreditUnitEvent \<Rightarrow> bool \<Rightarrow> cap_mode \<Rightarrow> WonDisputeReturn option \<Rightarrow> reconcile_opts" where
  "payment_opts mode ev standsAlone over win =
     \<lparr>ro_mode = mode, ro_event = ev, ro_onlyWindowIds = None, ro_standsAlone = standsAlone, ro_cap = over, ro_win = win\<rparr>"

definition stands_alone :: "InvoicePaymentFacts \<Rightarrow> bool" where
  "stands_alone facts \<longleftrightarrow> if_lineKind facts \<noteq> Some ''proration_up''"

definition reverse :: "grants_env \<Rightarrow> PaymentRow \<Rightarrow> CreditUnitEvent \<Rightarrow> reversal_reason \<Rightarrow> int
    \<Rightarrow> (ReversalOutcome \<times> int option) statement" where
  "reverse env payment ev reason reversedAfterMinor =
     (let a = pr_accountId payment
      in run_then (reading (invoicePayment (ge_bill env) a (pr_stripeInvoiceId payment))) (\<lambda>found.
         case found of
           None \<Rightarrow> throwing PlainError
         | Some facts \<Rightarrow>
             run_then (computing (invoiceTerms facts)) (\<lambda>terms.
             run_then (reconcilePaymentUnits env a StripeInvoice (if_stripeInvoiceId facts) terms
                 (payment_opts mode_take ev (stands_alone facts) cap_measure None)) (\<lambda>result.
             run_then (record_idle_refund env facts ev reason reversedAfterMinor result) (\<lambda>_.
             run_then (alignLevels env a (level_reason reason) (if_stripeInvoiceId facts)) (\<lambda>_.
             run_then (reconcileWindowUnits env a (event_input ev None)) (\<lambda>_.
             run_then (settleDebtFromFree a) (\<lambda>_.
             run_then (computing (reversedFractionPpm reversedAfterMinor (if_amountPaidMinor facts))) (\<lambda>ppm.
               give (if ur_windows result = 0 then ReversalNoWindows a
                     else ReversalApplied a ppm (ur_clawbacks result), ur_capSpentMicro result))))))))))"

text \<open>The start every reversal of a Stripe payment shares: the payment, locked and read again.\<close>

definition with_payment :: "grants_env \<Rightarrow> string \<Rightarrow> string option \<Rightarrow> (PaymentRow \<Rightarrow> (ReversalOutcome \<times> billing) statement)
    \<Rightarrow> (ReversalOutcome \<times> billing) statement" where
  "with_payment env chargeId stripeInvoiceId f =
     run_then (computing (findPayment (ge_bill env) (Some chargeId) stripeInvoiceId)) (\<lambda>found.
       case found of
         None \<Rightarrow> run_then (computing (notOnRecord stripeInvoiceId)) (\<lambda>out. give (out, ge_bill env))
       | Some first \<Rightarrow>
           run_then (lockAccount (pr_accountId first)) (\<lambda>_.
           run_then (computing (findPayment (ge_bill env) (Some chargeId) stripeInvoiceId)) (\<lambda>again.
             f (or_else again first))))"

definition refund_locked :: "grants_env \<Rightarrow> string \<Rightarrow> int \<Rightarrow> PaymentRow \<Rightarrow> (ReversalOutcome \<times> billing) statement" where
  "refund_locked env chargeId cumulative payment =
     (if cumulative \<le> pr_refundedMinor payment then give (ReversalAlreadyApplied (pr_accountId payment), ge_bill env)
      else run_then (reconcileLevel env (pr_accountId payment)) (\<lambda>_.
           run_then (computing (set_refunded (pr_stripeInvoiceId payment) cumulative (ge_bill env))) (\<lambda>bill.
           run_then (reverse (env\<lparr>ge_bill := bill\<rparr>) payment (refundEvent (refundSourceRef chargeId cumulative)) by_refund
               (cumulative + pr_disputedMinor payment)) (\<lambda>(out, _).
             give (out, bill)))))"

definition applyStripeRefund :: "grants_env \<Rightarrow> string \<Rightarrow> string option \<Rightarrow> int \<Rightarrow> (ReversalOutcome \<times> billing) statement" where
  "applyStripeRefund env chargeId stripeInvoiceId cumulative =
     run_then (computing (wholeMinor cumulative)) (\<lambda>_.
       transaction (with_payment env chargeId stripeInvoiceId (refund_locked env chargeId cumulative)))"

definition has_clawbacks :: "ReversalOutcome \<Rightarrow> bool" where
  "has_clawbacks out \<longleftrightarrow> (case out of ReversalApplied _ _ cs \<Rightarrow> cs \<noteq> [] | _ \<Rightarrow> False)"

definition dispute_locked :: "grants_env \<Rightarrow> string \<Rightarrow> int \<Rightarrow> PaymentRow \<Rightarrow> (ReversalOutcome \<times> billing) statement" where
  "dispute_locked env disputeId x payment =
     (let a = pr_accountId payment
      in run_then (reading (clawbacksForSource ''stripe_dispute'' disputeId)) (\<lambda>recorded.
         if recorded \<noteq> [] \<or> x = 0 then give (ReversalAlreadyApplied a, ge_bill env)
         else run_then (reconcileLevel env a) (\<lambda>_.
              run_then (reading (standingDisputedMinor payment)) (\<lambda>standing.
              run_then (computing (setDisputed payment (standing + x) (ge_bill env))) (\<lambda>bill.
              run_then (reverse (env\<lparr>ge_bill := bill\<rparr>) payment (disputeEvent disputeId x) by_dispute
                  (pr_refundedMinor payment + pr_disputedMinor payment + x)) (\<lambda>(out, capSpent).
              if has_clawbacks out then give (out, bill)
              else run_then (computing (reversedFractionPpm x (pr_amountPaidMinor payment))) (\<lambda>ppm.
                   run_then (reading (ledgerMark a)) (\<lambda>mark.
                   run_then (recordDispute (ge_new_id env) a disputeId (disputeRecordTarget (pr_stripeInvoiceId payment)) ppm Applied
                       (Some x) capSpent (Some mark)) (\<lambda>_.
                     give (out, bill))))))))))"

definition applyStripeDispute :: "grants_env \<Rightarrow> string \<Rightarrow> string \<Rightarrow> string option \<Rightarrow> int \<Rightarrow> (ReversalOutcome \<times> billing) statement" where
  "applyStripeDispute env disputeId chargeId stripeInvoiceId x =
     run_then (computing (wholeMinor x)) (\<lambda>_.
       transaction (with_payment env chargeId stripeInvoiceId (dispute_locked env disputeId x)))"

subsection \<open>A dispute that was won\<close>

text \<open>Who the dispute is about: the account and the invoice, from what was recorded or from the payment it names.\<close>

definition named_payment :: "billing \<Rightarrow> string option \<Rightarrow> string option \<Rightarrow> PaymentRow option result" where
  "named_payment bill chargeId stripeInvoiceId =
     (if chargeId \<noteq> None \<or> stripeInvoiceId \<noteq> None then findPayment bill chargeId stripeInvoiceId else Inr None)"

definition dispute_invoice :: "PaymentRow option \<Rightarrow> CreditClawbackRecord list \<Rightarrow> string option" where
  "dispute_invoice named recorded =
     (case named of Some p \<Rightarrow> Some (pr_stripeInvoiceId p)
      | None \<Rightarrow> first_of (List.map_filter (\<lambda>r. coverageRefOf (cr_targetKey r)) recorded))"

definition dispute_account :: "PaymentRow option \<Rightarrow> CreditClawbackRecord list \<Rightarrow> uuid option" where
  "dispute_account named recorded =
     (case recorded of r # _ \<Rightarrow> Some (cr_account r) | [] \<Rightarrow> map_option pr_accountId named)"

definition record_won_unseen :: "grants_env \<Rightarrow> uuid \<Rightarrow> string \<Rightarrow> int option \<Rightarrow> CreditClawbackRecord list \<Rightarrow> PaymentRow option
    \<Rightarrow> unit statement" where
  "record_won_unseen env a disputeId x recorded payment =
     (case payment of
        None \<Rightarrow> give ()
      | Some p \<Rightarrow>
          if recorded = [] \<and> pr_accountId p = a
          then run_then (computing (reversedFractionPpm (or_0 x) (pr_amountPaidMinor p))) (\<lambda>ppm.
                 recordDispute (ge_new_id env) a disputeId (disputeRecordTarget (pr_stripeInvoiceId p)) ppm Reversed x None None)
          else give ())"

text \<open>The payment counts as paid again, and the month it may now earn is opened.\<close>

definition undispute :: "grants_env \<Rightarrow> uuid \<Rightarrow> PaymentRow option \<Rightarrow> billing statement" where
  "undispute env a ours =
     (case ours of
        None \<Rightarrow> give (ge_bill env)
      | Some p \<Rightarrow>
          run_then (reading (standingDisputedMinor p)) (\<lambda>standing.
          run_then (computing (setDisputed p standing (ge_bill env))) (\<lambda>bill.
          run_then (materializeWindows (env\<lparr>ge_bill := bill\<rparr>) a) (\<lambda>_. give bill))))"

definition settle_won :: "grants_env \<Rightarrow> uuid \<Rightarrow> string \<Rightarrow> WonDisputeReturn \<Rightarrow> PaymentRow option \<Rightarrow> (int \<times> int) statement" where
  "settle_won env a disputeId win ours =
     (case ours of
        None \<Rightarrow> give (0, 0)
      | Some p \<Rightarrow>
          run_then (reading (invoicePayment (ge_bill env) a (pr_stripeInvoiceId p))) (\<lambda>found.
            case found of
              None \<Rightarrow> give (0, 0)
            | Some facts \<Rightarrow>
                run_then (computing (invoiceTerms facts)) (\<lambda>terms.
                run_then (reconcilePaymentUnits env a StripeInvoice (if_stripeInvoiceId facts) terms
                    (payment_opts mode_both (wonEvent disputeId) (stands_alone facts) cap_standing (Some win))) (\<lambda>result.
                run_then (alignLevels env a DisputeReinstated (if_stripeInvoiceId facts)) (\<lambda>_.
                run_then (reconcileWindowUnits env a (event_input (wonEvent disputeId) (Some win))) (\<lambda>_.
                  give (ur_regrantedMicro result, ur_forgivenMicro result)))))))"

definition reinstate_applied :: "grants_env \<Rightarrow> uuid \<Rightarrow> string \<Rightarrow> CreditClawbackRecord list \<Rightarrow> PaymentRow option
    \<Rightarrow> (ReinstateOutcome \<times> billing) statement" where
  "reinstate_applied env a disputeId applied payment =
     (let ours = (case payment of Some p \<Rightarrow> if pr_accountId p = a then Some p else None | None \<Rightarrow> None)
      in run_then (reconcileLevel env a) (\<lambda>_.
         run_then (each_do (\<lambda>c _. markClawbackReversed (cr_id c)) applied ()) (\<lambda>_.
         run_then (undispute env a ours) (\<lambda>bill.
         run_then (reading (wonDisputeReturn a disputeId)) (\<lambda>win.
         run_then (returnWhatADisputeRemoved (env\<lparr>ge_bill := bill\<rparr>) a applied win) (\<lambda>(regranted, forgiven).
         run_then (settle_won (env\<lparr>ge_bill := bill\<rparr>) a disputeId win ours) (\<lambda>(regranted1, forgiven1).
         run_then (settleDebtFromFree a) (\<lambda>_.
           give (Reinstated a (length applied) (regranted + regranted1) (forgiven + forgiven1), bill)))))))))"

definition reinstate_body :: "grants_env \<Rightarrow> string \<Rightarrow> string option \<Rightarrow> string option \<Rightarrow> int option
    \<Rightarrow> (ReinstateOutcome \<times> billing) statement" where
  "reinstate_body env disputeId chargeId stripeInvoiceId x =
     run_then (reading (clawbacksForSource ''stripe_dispute'' disputeId)) (\<lambda>recorded.
     run_then (computing (named_payment (ge_bill env) chargeId stripeInvoiceId)) (\<lambda>named.
       case dispute_account named recorded of
         None \<Rightarrow> give (NothingToReinstate, ge_bill env)
       | Some a \<Rightarrow>
           run_then (lockAccount a) (\<lambda>_.
           run_then (reading (appliedDisputeClawbacks disputeId)) (\<lambda>applied.
           run_then (computing (case dispute_invoice named recorded of
                       None \<Rightarrow> Inr None | Some invoice \<Rightarrow> paymentOfInvoice (ge_bill env) invoice)) (\<lambda>payment.
             if applied = []
             then run_then (record_won_unseen env a disputeId x recorded payment) (\<lambda>_. give (NothingToReinstate, ge_bill env))
             else reinstate_applied env a disputeId applied payment)))))"

definition reinstateDispute :: "grants_env \<Rightarrow> string \<Rightarrow> string option \<Rightarrow> string option \<Rightarrow> int option
    \<Rightarrow> (ReinstateOutcome \<times> billing) statement" where
  "reinstateDispute env disputeId chargeId stripeInvoiceId x =
     run_then (computing (case x of None \<Rightarrow> Inr 0 | Some v \<Rightarrow> wholeMinor v)) (\<lambda>_.
       transaction (reinstate_body env disputeId chargeId stripeInvoiceId x))"

subsection \<open>A refunded crypto order\<close>

definition applyCryptoRefund :: "grants_env \<Rightarrow> uuid \<Rightarrow> string \<Rightarrow> ReversalOutcome statement" where
  "applyCryptoRefund env a orderId =
     transaction
       (run_then (lockAccount a) (\<lambda>_.
        run_then (reconcileLevel env a) (\<lambda>_.
        run_then (reconcilePaymentUnits env a CryptoEntitlement orderId
            \<lparr>ut_amountPaidMinor = 1, ut_stillPaidMinor = 0, ut_paidForMicro = None\<rparr>
            (payment_opts mode_take (cryptoEvent orderId) True cap_measure None)) (\<lambda>result.
        run_then (alignLevels env a Refund orderId) (\<lambda>_.
        run_then (reconcileWindowUnits env a (event_input (cryptoEvent orderId) None)) (\<lambda>_.
        run_then (settleDebtFromFree a) (\<lambda>_.
          give (if ur_windows result = 0 then ReversalNoWindows a else ReversalApplied a PPM (ur_clawbacks result)))))))))"

subsection \<open>Reversals keep the tables sound\<close>

lemma keeps_reversal_record:
  assumes "\<And>d. uuid_ok (new_id d)"
  shows "keeps (insert_reversal_record new_id v)"
  unfolding keeps_def
proof (intro allI impI)
  fix d x e
  let ?row = "reversal_record_row (new_id d) (db_now d) v"
  have parts: "cb_id ?row = new_id d" "cb_pending ?row = 0" by (simp_all add: reversal_record_row_def)
  assume "insert_reversal_record new_id v d = Inr (x, e)"
  then have "e = d \<or> e = d\<lparr>credit_clawbacks := credit_clawbacks d @ [?row]\<rparr> \<and> clawback_checks ?row \<and>
      \<not> list_ex (same_clawback_key ?row) (credit_clawbacks d)"
    by (auto simp: insert_reversal_record_def Let_def result_simps split: if_splits)
  then show "sound_step d e"
  proof
    assume new: "e = d\<lparr>credit_clawbacks := credit_clawbacks d @ [?row]\<rparr> \<and> clawback_checks ?row \<and>
      \<not> list_ex (same_clawback_key ?row) (credit_clawbacks d)"
    then have e: "e = d\<lparr>credit_clawbacks := credit_clawbacks d @ [?row]\<rparr>" by blast
    show ?thesis
      unfolding e
    proof (rule claims_step)
      assume inv: "sys_inv d"
      have "new_id d \<notin> cb_id ` set (credit_clawbacks d)" using new by (auto simp: list_ex_iff same_clawback_key_def parts)
      then show "claims_ok (d\<lparr>credit_clawbacks := credit_clawbacks d @ [?row]\<rparr>)"
        using sys_invD(6) [OF inv] new assms by (auto simp: claims_ok_def parts)
      show "claims_backed d \<Longrightarrow> claims_backed (d\<lparr>credit_clawbacks := credit_clawbacks d @ [?row]\<rparr>)"
        by (auto simp: claims_backed_def parts)
    qed auto
  qed simp
qed

lemma ids_ok_bill [simp]: "ids_ok (env\<lparr>ge_bill := bill\<rparr>) = ids_ok env"
  by (simp add: ids_ok_def)

lemma keeps_record_idle_refund [keeps_rules]: "ids_ok env \<Longrightarrow> keeps (record_idle_refund env facts ev reason x result)"
  unfolding record_idle_refund_def recordRefund_def by (intro keeps_rules keeps_reversal_record ids_okD)

lemma keeps_reverse [keeps_rules]: "ids_ok env \<Longrightarrow> keeps (reverse env payment ev reason x)"
  unfolding reverse_def Let_def by (intro keeps_rules)

lemma keeps_with_payment [keeps_rules]: "(\<And>p. keeps (f p)) \<Longrightarrow> keeps (with_payment env charge invoice f)"
  unfolding with_payment_def by (intro keeps_rules)

lemma keeps_applyStripeRefund [keeps_rules]: "ids_ok env \<Longrightarrow> keeps (applyStripeRefund env charge invoice x)"
  unfolding applyStripeRefund_def refund_locked_def by (intro keeps_rules) simp_all

lemma keeps_applyStripeDispute [keeps_rules]: "ids_ok env \<Longrightarrow> keeps (applyStripeDispute env disputeId charge invoice x)"
  unfolding applyStripeDispute_def dispute_locked_def recordDispute_def Let_def
  by (intro keeps_rules keeps_reversal_record ids_okD) simp_all

lemma keeps_reinstateDispute [keeps_rules]: "ids_ok env \<Longrightarrow> keeps (reinstateDispute env disputeId charge invoice x)"
  unfolding reinstateDispute_def reinstate_body_def reinstate_applied_def record_won_unseen_def undispute_def settle_won_def
    recordDispute_def Let_def
  by (intro keeps_rules keeps_reversal_record ids_okD) simp_all

lemma keeps_applyCryptoRefund [keeps_rules]: "ids_ok env \<Longrightarrow> keeps (applyCryptoRefund env a orderId)"
  unfolding applyCryptoRefund_def by (intro keeps_rules)

end
