(* ===== verification/Reversals_Once.thy ===== *)
theory Reversals_Once
  imports Payment_Reversals
begin

section \<open>A reversal that is reported again\<close>

text \<open>
  Stripe reports a refund or a dispute at least once, and late reports may arrive after newer ones. A refund is measured by
  the total refunded so far, which only rises on the payment's row; a dispute is known by the records it
  wrote. So a report that brings nothing new leaves every table as it is.
\<close>

subsection \<open>Reading a payment after its row moved\<close>

lemma insort_key_map: "(\<And>y. k (g y) = k y) \<Longrightarrow> insort_key k (g x) (map g xs) = map g (insort_key k x xs)"
  by (induction xs) auto

lemma sort_key_map: "(\<And>y. k (g y) = k y) \<Longrightarrow> sort_key k (map g xs) = map g (sort_key k xs)"
  by (induction xs) (simp_all add: insort_key_map)

lemma filter_map_same: "(\<And>y. Q (g y) = Q y) \<Longrightarrow> filter Q (map g xs) = map g (filter Q xs)"
  by (induction xs) auto

text \<open>A payment's amounts may move; which payment is found may not.\<close>

definition same_payment :: "(stripe_payment \<Rightarrow> stripe_payment) \<Rightarrow> bool" where
  "same_payment g \<longleftrightarrow>
     (\<forall>p. pay_invoice (g p) = pay_invoice p \<and> pay_charge (g p) = pay_charge p \<and> pay_paidAt (g p) = pay_paidAt p)"

definition payment_rows :: "billing \<Rightarrow> string option \<Rightarrow> string option \<Rightarrow> stripe_payment list" where
  "payment_rows bill charge invoice =
     sort_key (\<lambda>p. (if pay_charge p = charge then 0 else 1 :: int, - pay_paidAt p))
       (filter (\<lambda>p. charge \<noteq> None \<and> pay_charge p = charge \<or> invoice \<noteq> None \<and> Some (pay_invoice p) = invoice) (bill_payments bill))"

lemma findPayment_rows: "findPayment bill charge invoice = paymentOf (payment_rows bill charge invoice)"
  by (simp add: findPayment_def payment_rows_def)

lemma payment_rows_moved:
  assumes "same_payment g" "bill_payments b = map g (bill_payments bill)"
  shows "payment_rows b charge invoice = map g (payment_rows bill charge invoice)"
  using assms unfolding payment_rows_def same_payment_def by (simp add: filter_map_same sort_key_map)

lemma paymentOf_Some:
  assumes "paymentOf rows = Inr (Some p)"
  obtains q qs where "rows = q # qs" "pr_stripeInvoiceId p = pay_invoice q" "pr_accountId p = pay_account q"
    "pr_refundedMinor p = pay_refunded q" "minor (pay_amount q) = Inr (pay_amount q)" "minor (pay_disputed q) = Inr (pay_disputed q)"
    "minor (pay_refunded q) = Inr (pay_refunded q)"
  using assms by (cases rows) (auto simp: paymentOf_def result_simps minor_def split: if_splits)

lemma set_refunded_Inr:
  assumes "set_refunded invoice x bill = Inr b"
  shows "b = bill\<lparr>bill_payments := map (\<lambda>p. if pay_invoice p = invoice \<and> pay_refunded p < x then p\<lparr>pay_refunded := x\<rparr> else p)
    (bill_payments bill)\<rparr>"
  using assms by (auto simp: set_refunded_def update_payments_def update_where_def split: if_splits)

text \<open>Once a total was refunded, the payment reads at least that total.\<close>

lemma refunded_reads:
  assumes found: "findPayment bill charge invoice = Inr (Some p)" and moved: "set_refunded (pr_stripeInvoiceId p) x bill = Inr b"
    and x: "minor x = Inr x" "pr_refundedMinor p < x"
  shows "\<exists>q. findPayment b charge invoice = Inr (Some q) \<and> pr_accountId q = pr_accountId p \<and> pr_refundedMinor q = x"
proof -
  let ?g = "\<lambda>q. if pay_invoice q = pr_stripeInvoiceId p \<and> pay_refunded q < x then q\<lparr>pay_refunded := x\<rparr> else q"
  obtain q qs where q: "payment_rows bill charge invoice = q # qs" "pr_stripeInvoiceId p = pay_invoice q"
    "pr_accountId p = pay_account q" "pr_refundedMinor p = pay_refunded q" "minor (pay_amount q) = Inr (pay_amount q)"
    "minor (pay_disputed q) = Inr (pay_disputed q)"
    using paymentOf_Some [OF found [unfolded findPayment_rows]] by blast
  have "same_payment ?g" by (simp add: same_payment_def)
  moreover have "bill_payments b = map ?g (bill_payments bill)" by (simp add: set_refunded_Inr [OF moved])
  ultimately have "payment_rows b charge invoice = ?g q # map ?g qs" by (simp add: payment_rows_moved q(1))
  moreover have "?g q = q\<lparr>pay_refunded := x\<rparr>" using q(2,4) x(2) by simp
  ultimately show ?thesis using q x(1) by (simp add: findPayment_rows paymentOf_def)
qed

text \<open>Setting what a payment has disputed leaves it readable, for the amount is capped at what was paid.\<close>

lemma disputed_reads:
  assumes found: "findPayment bill charge invoice = Inr (Some p)" and moved: "setDisputed p amount bill = Inr b"
  shows "\<exists>q. findPayment b charge invoice = Inr (Some q) \<and> pr_accountId q = pr_accountId p"
proof -
  let ?g = "\<lambda>q. if pay_invoice q = pr_stripeInvoiceId p then q\<lparr>pay_disputed := min (pay_amount q) (max 0 amount)\<rparr> else q"
  obtain q qs where q: "payment_rows bill charge invoice = q # qs" "pr_stripeInvoiceId p = pay_invoice q"
    "pr_accountId p = pay_account q" "minor (pay_amount q) = Inr (pay_amount q)" "minor (pay_refunded q) = Inr (pay_refunded q)"
    using paymentOf_Some [OF found [unfolded findPayment_rows]] by metis
  have "same_payment ?g" by (simp add: same_payment_def)
  moreover have "bill_payments b = map ?g (bill_payments bill)"
    using moved by (auto simp: setDisputed_def update_payments_def update_where_def split: if_splits)
  ultimately have rows: "payment_rows b charge invoice = ?g q # map ?g qs" by (simp add: payment_rows_moved q(1))
  have "minor (min (pay_amount q) (max 0 amount)) = Inr (min (pay_amount q) (max 0 amount))"
    using q(4) by (auto simp: minor_def safe_int_def split: if_splits)
  with rows q(2-5) show ?thesis by (simp add: findPayment_rows paymentOf_def)
qed

subsection \<open>A step that finds nothing to do\<close>

lemma lockAccount_idle:
  assumes "sys_inv e" "find_account e a \<noteq> None" "account_debt e a \<le> MAX_SAFE"
  shows "\<exists>row. lockAccount a e = Inr (row, e)"
proof -
  obtain row where row: "find_account e a = Some row" using assms(2) by blast
  moreover have "0 \<le> account_debt e a" by (rule debt_nonneg [OF sys_invD(1) [OF assms(1)]])
  ultimately have "safe_int (debt_micro row)" using assms(3) by (simp add: account_debt_def safe_int_def)
  with row show ?thesis by (simp add: lockAccount_def insert_account_def toAccountRecord_def exact_def)
qed

text \<open>Under the lock the payment is the one that was found before it, so a body that gives at once leaves the state.\<close>

lemma with_payment_idle:
  assumes "findPayment (ge_bill env) (Some charge) invoice = Inr (Some p)" and "f p d = Inr (y, d)"
    and "sys_inv d" "find_account d (pr_accountId p) \<noteq> None" "account_debt d (pr_accountId p) \<le> MAX_SAFE"
  shows "transaction (with_payment env charge invoice f) d = Inr (y, d)"
proof (rule transaction_read)
  obtain row where "lockAccount (pr_accountId p) d = Inr (row, d)" using lockAccount_idle [OF assms(3-5)] by blast
  then show "with_payment env charge invoice f d = Inr (y, d)"
    by (simp add: with_payment_def run_then_def computing_def assms(1,2) or_else_def)
qed

lemma with_payment_Inr:
  assumes "transaction (with_payment env charge invoice f) d = Inr (y, e)"
    and "findPayment (ge_bill env) (Some charge) invoice = Inr (Some p)"
  obtains row d1 where "lockAccount (pr_accountId p) d = Inr (row, d1)" "f p d1 = Inr (y, e)"
  using assms by (auto simp: transaction_def with_payment_def result_simps or_else_def split: if_splits)

lemma locked_account: "lockAccount a d = Inr (row, d1) \<Longrightarrow> find_account d1 a \<noteq> None"
  by (auto simp: lockAccount_def Let_def result_simps split: option.splits)

lemma lock_keeps: "sys_inv d \<Longrightarrow> lockAccount a d = Inr (row, d1) \<Longrightarrow> sys_inv d1"
  using keepsD [OF keeps_lockAccount] by (auto simp: sound_step_def)

subsection \<open>Refunds\<close>

lemma keeps_refund_locked: "ids_ok env \<Longrightarrow> keeps (refund_locked env charge x p)"
  unfolding refund_locked_def by (intro keeps_rules) simp_all

text \<open>A refund is taken once. After a refund of a payment on record went through, a report of the same charge whose
  total is no higher, the same one again or an older one that arrives late, finds its total already
  refunded: it says so and leaves every credit table and every payment as it is.\<close>
theorem refund_applies_once:
  assumes "ids_ok env" and "sys_inv d" and "findPayment (ge_bill env) (Some charge) invoice = Inr (Some p)"
    and "applyStripeRefund env charge invoice x d = Inr ((outcome, bill), e)"
    and "account_debt e (pr_accountId p) \<le> MAX_SAFE" and "0 \<le> y" and "y \<le> x"
  shows "applyStripeRefund (env\<lparr>ge_bill := bill\<rparr>) charge invoice y e = Inr ((ReversalAlreadyApplied (pr_accountId p), bill), e)"
proof -
  have x: "wholeMinor x = Inr x" "transaction (with_payment env charge invoice (refund_locked env charge x)) d = Inr ((outcome, bill), e)"
    using assms(4) by (auto simp: applyStripeRefund_def wholeMinor_def result_simps split: if_splits)
  then have y: "wholeMinor y = Inr y" "minor x = Inr x" using assms(6,7) by (auto simp: wholeMinor_def minor_def safe_int_def split: if_splits)
  obtain row d1 where run: "lockAccount (pr_accountId p) d = Inr (row, d1)" "refund_locked env charge x p d1 = Inr ((outcome, bill), e)"
    by (rule with_payment_Inr [OF x(2) assms(3)])
  have inv: "sys_inv e" "find_account e (pr_accountId p) \<noteq> None"
    using keepsD [OF keeps_refund_locked [OF assms(1)] run(2)] lock_keeps [OF assms(2) run(1)] locked_account [OF run(1)]
    by (auto simp: sound_step_def)
  have "\<exists>q. findPayment bill (Some charge) invoice = Inr (Some q) \<and> pr_accountId q = pr_accountId p \<and> x \<le> pr_refundedMinor q"
  proof (cases "x \<le> pr_refundedMinor p")
    case True
    with run(2) assms(3) show ?thesis by (auto simp: refund_locked_def result_simps)
  next
    case False
    with run(2) have "set_refunded (pr_stripeInvoiceId p) x (ge_bill env) = Inr bill"
      by (auto simp: refund_locked_def result_simps split: prod.splits)
    from refunded_reads [OF assms(3) this y(2)] False show ?thesis by force
  qed
  then obtain q where q: "findPayment bill (Some charge) invoice = Inr (Some q)" "pr_accountId q = pr_accountId p"
    "x \<le> pr_refundedMinor q" by blast
  have "transaction (with_payment (env\<lparr>ge_bill := bill\<rparr>) charge invoice (refund_locked (env\<lparr>ge_bill := bill\<rparr>) charge y)) e =
      Inr ((ReversalAlreadyApplied (pr_accountId p), bill), e)"
    by (rule with_payment_idle [where p = q])
      (use q inv assms(5,7) in \<open>simp_all add: refund_locked_def give_def\<close>)
  with y(1) show ?thesis by (simp add: applyStripeRefund_def run_then_def computing_def)
qed

subsection \<open>The example\<close>

text \<open>A month of 1500 credits paid with 2000 minor units, opened by a refresh while the account has a task open.\<close>

definition paid_billing :: billing where
  "paid_billing =
     \<lparr>bill_payments = [\<lparr>pay_invoice = ''in_1'', pay_account = example_account, pay_subscription = Some ''sub_1'',
        pay_charge = Some ''ch_1'', pay_amount = 2000, pay_refunded = 0, pay_disputed = 0, pay_lineKind = Some ''period'',
        pay_lineTier = Some solo_manual, pay_lineInterval = Some ''month'', pay_lineStart = Some 0, pay_lineEnd = Some 2678400000,
        pay_paidAt = 0\<rparr>],
      bill_subscriptions = [\<lparr>ssub_account = example_account, ssub_stripe = ''sub_1'', ssub_tier = solo_manual,
        ssub_status = ''active'', ssub_tierSince = Some 0\<rparr>],
      bill_entitlements = [], bill_overrides = [], bill_accounts = [(example_account, solo_manual)]\<rparr>"

definition paid_env :: grants_env where
  "paid_env = \<lparr>ge_bill = paid_billing, ge_new_id = example_new_id, ge_now = 100\<rparr>"

definition paid_db :: db where
  "paid_db = (case refreshCredits paid_env example_account (example_task_db Enforce 100) of
     Inr (r, e) \<Rightarrow> e | Inl x \<Rightarrow> example_task_db Enforce 100)"

lemma paid_ids: "ids_ok paid_env"
  by (simp add: ids_ok_def paid_env_def example_new_id_ok)

lemma paid_db_sys: "sys_inv paid_db"
proof (cases "refreshCredits paid_env example_account (example_task_db Enforce 100)")
  case (Inr p)
  then obtain r e where e: "refreshCredits paid_env example_account (example_task_db Enforce 100) = Inr (r, e)" by (cases p) auto
  have "sys_inv e"
    using keepsD [OF keeps_refreshCredits [OF paid_ids] e] example_task_sys by (simp add: sound_step_def)
  with e show ?thesis by (simp add: paid_db_def)
qed (simp add: paid_db_def example_task_sys)

lemma paid_payment:
  "findPayment (ge_bill paid_env) (Some ''ch_1'') None = Inr (Some
     \<lparr>pr_stripeInvoiceId = ''in_1'', pr_accountId = example_account, pr_amountPaidMinor = 2000, pr_refundedMinor = 0,
      pr_disputedMinor = 0, pr_lineKind = Some ''period''\<rparr>)"
  by code_simp

lemma refund_example_runs:
  "map_sum id (\<lambda>((outcome, bill), e). (map remaining (credit_lots e), account_debt e example_account))
     (applyStripeRefund paid_env ''ch_1'' None 500 paid_db) = Inr ([2000000, 1125000000], 0)"
  by code_simp

theorem refund_applies_once_witness:
  "\<exists>outcome bill e. applyStripeRefund paid_env ''ch_1'' None 500 paid_db = Inr ((outcome, bill), e) \<and>
     map remaining (credit_lots e) = [2000000, 1125000000] \<and>
     applyStripeRefund (paid_env\<lparr>ge_bill := bill\<rparr>) ''ch_1'' None 400 e = Inr ((ReversalAlreadyApplied example_account, bill), e)"
proof -
  obtain outcome bill e where ran: "applyStripeRefund paid_env ''ch_1'' None 500 paid_db = Inr ((outcome, bill), e)"
    "map remaining (credit_lots e) = [2000000, 1125000000]" "account_debt e example_account = 0"
    using refund_example_runs by (cases "applyStripeRefund paid_env ''ch_1'' None 500 paid_db") auto
  have "applyStripeRefund (paid_env\<lparr>ge_bill := bill\<rparr>) ''ch_1'' None 400 e =
      Inr ((ReversalAlreadyApplied example_account, bill), e)"
    using refund_applies_once [OF paid_ids paid_db_sys paid_payment ran(1), of 400] ran(3) by (simp add: MAX_SAFE_def)
  with ran show ?thesis by (intro exI conjI)
qed

subsection \<open>Disputes\<close>

text \<open>A reversal of this source and reference is on record.\<close>

definition noted :: "string \<Rightarrow> string \<Rightarrow> db \<Rightarrow> bool" where
  "noted source ref d \<longleftrightarrow> (\<exists>c\<in>set (credit_clawbacks d). cb_source c = source \<and> cb_source_ref c = ref)"

lemma noted_stays: "noted source ref d \<Longrightarrow> sound_step d e \<Longrightarrow> sys_inv d \<Longrightarrow> noted source ref e"
  unfolding noted_def sound_step_def reversal_key_def by (fastforce simp: image_subset_iff)

lemma findClawback_noted: "findClawback source ref target d = Inr (Some c) \<Longrightarrow> noted source ref d"
  by (fastforce simp: findClawback_def noted_def keyed_clawback_def find_Some_iff result_simps split: option.splits)

lemma insertClawback_noted: "insertClawback new_id v d = Inr (r, e) \<Longrightarrow> noted (nc_source v) (nc_sourceRef v) e"
  unfolding insertClawback_def Let_def
  by (auto simp: result_simps intro: findClawback_noted split: if_splits option.splits) (auto simp: noted_def clawback_row_def)

lemma takeFromUnit_noted:
  assumes "takeFromUnit env a state x ev [] extras d = Inr (c, e)"
  shows "noted (ev_source ev) (ev_ref ev) e"
proof -
  let ?input = "unit_reversal state x ev [] extras"
  have input: "ci_source ?input = ev_source ev" "ci_sourceRef ?input = ev_ref ev" "\<not> ci_settle ?input"
    by (simp_all add: unit_reversal_def Let_def)
  have "findClawback (ci_source ?input) (ci_sourceRef ?input) (ci_targetKey ?input) d = Inr (Some c) \<and> e = d \<or>
      (\<exists>plan d2. insertClawback (ge_new_id env) (new_clawback a ?input plan) d2 = Inr (c, e))"
    using assms input(3) unfolding takeFromUnit_def clawBack_def by (fastforce simp: result_simps split: option.splits)
  then show ?thesis
  proof
    assume "findClawback (ci_source ?input) (ci_sourceRef ?input) (ci_targetKey ?input) d = Inr (Some c) \<and> e = d"
    then show ?thesis
      using input findClawback_noted by auto
  next
    assume "\<exists>plan d2. insertClawback (ge_new_id env) (new_clawback a ?input plan) d2 = Inr (c, e)"
    then show ?thesis using input by (auto dest: insertClawback_noted simp: new_clawback_def)
  qed
qed

lemma reconcileUnit_noted:
  assumes "reconcileUnit env a w ref state target mode_take ev extras win d = Inr (out, e)" "uo_clawback out \<noteq> None"
  shows "noted (ev_source ev) (ev_ref ev) e"
  using assms by (auto simp: reconcileUnit_def Let_def result_simps split: prod.splits if_splits intro: takeFromUnit_noted)

text \<open>The units of a payment are moved one after the other; what one of them recorded stays on record.\<close>

lemma keeps_move_unit: "ids_ok env \<Longrightarrow> keeps (move_unit env a ref opts extras u acc)"
  unfolding move_unit_def by (intro keeps_rules)

lemma moved_units_noted:
  assumes "ids_ok env" "ro_mode opts = mode_take" "sys_inv d"
    and "each_do (move_unit env a ref opts extras) us (is_first, sm) d = Inr ((is_first1, sm1), e)"
    and "ur_clawbacks sm \<noteq> [] \<Longrightarrow> noted (ev_source (ro_event opts)) (ev_ref (ro_event opts)) d"
    and "ur_clawbacks sm1 \<noteq> []"
  shows "noted (ev_source (ro_event opts)) (ev_ref (ro_event opts)) e"
  using assms(3-6)
proof (induction us arbitrary: is_first sm d)
  case (Cons u us)
  let ?noted = "noted (ev_source (ro_event opts)) (ev_ref (ro_event opts))"
  obtain is_first2 sm2 d2 where step: "move_unit env a ref opts extras u (is_first, sm) d = Inr ((is_first2, sm2), d2)"
    and rest: "each_do (move_unit env a ref opts extras) us (is_first2, sm2) d2 = Inr ((is_first1, sm1), e)"
    using Cons.prems(2) by (auto simp: result_simps)
  have s: "sound_step d d2" by (rule keepsD [OF keeps_move_unit [OF assms(1)] step])
  show ?case
  proof (rule Cons.IH [OF _ rest _ Cons.prems(4)])
    show "sys_inv d2" using s Cons.prems(1) by (simp add: sound_step_def)
    assume some: "ur_clawbacks sm2 \<noteq> []"
    show "?noted d2"
    proof (cases "ur_clawbacks sm = []")
      case False
      then show ?thesis using Cons.prems(1,3) noted_stays [OF _ s] by blast
    next
      case True
      with step some assms(2) show ?thesis
        by (auto simp: move_unit_def result_simps split: option.splits intro: reconcileUnit_noted)
    qed
  qed
qed (auto simp: result_simps)

lemma reconcilePaymentUnits_noted:
  assumes "ids_ok env" "ro_mode opts = mode_take" "sys_inv d"
    and "reconcilePaymentUnits env a source ref terms opts d = Inr (sm, e)" "ur_clawbacks sm \<noteq> []"
  shows "noted (ev_source (ro_event opts)) (ev_ref (ro_event opts)) e"
  using assms(4,5)
  by (auto simp: reconcilePaymentUnits_def NOTHING_def Let_def result_simps split: if_splits
      intro: moved_units_noted [OF assms(1-3)])

lemma reverse_noted:
  assumes "ids_ok env" "sys_inv d" "reverse env p ev reason x d = Inr ((out, spent), e)" "has_clawbacks out"
  shows "noted (ev_source ev) (ev_ref ev) e"
proof -
  let ?a = "pr_accountId p"
  obtain facts terms sm d1 d2 d3 d4 l r s where
      units: "reconcilePaymentUnits env ?a StripeInvoice (if_stripeInvoiceId facts) terms
        (payment_opts mode_take ev (stands_alone facts) cap_measure None) d = Inr (sm, d1)"
    and rest: "record_idle_refund env facts ev reason x sm d1 = Inr (l, d2)"
      "alignLevels env ?a (level_reason reason) (if_stripeInvoiceId facts) d2 = Inr (r, d3)"
      "reconcileWindowUnits env ?a (event_input ev None) d3 = Inr (s, d4)"
      "\<exists>paid. settleDebtFromFree ?a d4 = Inr (paid, e)"
    and some: "ur_clawbacks sm \<noteq> []"
    using assms(3,4) by (auto simp: reverse_def Let_def result_simps has_clawbacks_def split: option.splits if_splits)
  have noted: "noted (ev_source ev) (ev_ref ev) d1"
    using reconcilePaymentUnits_noted [OF assms(1) _ assms(2) units some] by (simp add: payment_opts_def)
  have "sound_step d d1" by (rule keepsD [OF keeps_reconcilePaymentUnits [OF assms(1)] units])
  then have inv: "sys_inv d1" using assms(2) by (simp add: sound_step_def)
  have "sound_step d1 e"
    using keepsD [OF keeps_record_idle_refund [OF assms(1)] rest(1)] keepsD [OF keeps_alignLevels rest(2)]
      keepsD [OF keeps_reconcileWindowUnits [OF assms(1)] rest(3)] keepsD [OF keeps_settleDebt] rest(4)
    by (blast intro: sound_step_trans)
  with noted inv show ?thesis by (blast intro: noted_stays)
qed

text \<open>A dispute that took credits is on record under its own id.\<close>

lemma keeps_dispute_locked: "ids_ok env \<Longrightarrow> keeps (dispute_locked env disputeId x p)"
  unfolding dispute_locked_def recordDispute_def Let_def
  by (intro keeps_rules keeps_reversal_record ids_okD) simp_all

lemma dispute_noted:
  assumes "ids_ok env" "sys_inv d" "dispute_locked env disputeId x p d = Inr ((outcome, bill), e)" "has_clawbacks outcome"
  shows "noted ''stripe_dispute'' disputeId e"
proof -
  have not: "\<not> has_clawbacks (ReversalAlreadyApplied a)" for a by (simp add: has_clawbacks_def)
  obtain l d1 b capSpent where level: "reconcileLevel env (pr_accountId p) d = Inr (l, d1)"
    and rev: "reverse (env\<lparr>ge_bill := b\<rparr>) p (disputeEvent disputeId x) by_dispute
        (pr_refundedMinor p + pr_disputedMinor p + x) d1 = Inr ((outcome, capSpent), e)"
    using assms(3,4) not
    by (auto simp: dispute_locked_def Let_def result_simps split: if_splits prod.splits)
  have "sys_inv d1" using keepsD [OF keeps_reconcileLevel [OF assms(1)] level] assms(2) by (simp add: sound_step_def)
  from reverse_noted [OF _ this rev assms(4)] assms(1) show ?thesis by (simp add: disputeEvent_def)
qed

lemma all_results_length: "all_results rs = Inr xs \<Longrightarrow> length xs = length rs"
  by (induction rs arbitrary: xs) (auto simp: result_simps)

lemma noted_reads: "noted source ref d \<Longrightarrow> clawbacksForSource source ref d = Inr recorded \<Longrightarrow> recorded \<noteq> []"
  by (auto simp: noted_def clawbacksForSource_def clawbacks_in_order_def filter_empty_conv dest!: all_results_length)

text \<open>A dispute takes credits once. After a dispute took credits back, the same dispute reported again, for whatever
  amount, finds its own records: it says so and leaves every credit table and every payment as it is.\<close>
theorem dispute_applies_once:
  assumes "ids_ok env" and "sys_inv d" and "findPayment (ge_bill env) (Some charge) invoice = Inr (Some p)"
    and "applyStripeDispute env disputeId charge invoice x d = Inr ((outcome, bill), e)" and "has_clawbacks outcome"
    and "clawbacksForSource ''stripe_dispute'' disputeId e = Inr recorded"
    and "account_debt e (pr_accountId p) \<le> MAX_SAFE" and "wholeMinor y = Inr y"
  shows "applyStripeDispute (env\<lparr>ge_bill := bill\<rparr>) disputeId charge invoice y e =
    Inr ((ReversalAlreadyApplied (pr_accountId p), bill), e)"
proof -
  have body: "transaction (with_payment env charge invoice (dispute_locked env disputeId x)) d = Inr ((outcome, bill), e)"
    using assms(4) by (auto simp: applyStripeDispute_def result_simps)
  obtain row d1 where run: "lockAccount (pr_accountId p) d = Inr (row, d1)" "dispute_locked env disputeId x p d1 = Inr ((outcome, bill), e)"
    by (rule with_payment_Inr [OF body assms(3)])
  have d1: "sys_inv d1" by (rule lock_keeps [OF assms(2) run(1)])
  have inv: "sys_inv e" "find_account e (pr_accountId p) \<noteq> None"
    using keepsD [OF keeps_dispute_locked [OF assms(1)] run(2)] d1 locked_account [OF run(1)] by (auto simp: sound_step_def)
  have recorded: "recorded \<noteq> []" by (rule noted_reads [OF dispute_noted [OF assms(1) d1 run(2) assms(5)] assms(6)])
  have "bill = ge_bill env \<or> (\<exists>amount. setDisputed p amount (ge_bill env) = Inr bill)"
    using run(2) by (auto simp: dispute_locked_def Let_def result_simps split: if_splits prod.splits)
  then obtain q where q: "findPayment bill (Some charge) invoice = Inr (Some q)" "pr_accountId q = pr_accountId p"
    using disputed_reads [OF assms(3)] assms(3) by blast
  have "transaction (with_payment (env\<lparr>ge_bill := bill\<rparr>) charge invoice (dispute_locked (env\<lparr>ge_bill := bill\<rparr>) disputeId y)) e =
      Inr ((ReversalAlreadyApplied (pr_accountId p), bill), e)"
    by (rule with_payment_idle [where p = q])
      (use q inv assms(6,7) recorded in \<open>simp_all add: dispute_locked_def run_then_def reading_def give_def Let_def\<close>)
  with assms(8) show ?thesis by (simp add: applyStripeDispute_def run_then_def computing_def)
qed

lemma dispute_example_runs:
  "map_sum id (\<lambda>((outcome, bill), e). (has_clawbacks outcome, map remaining (credit_lots e), account_debt e example_account,
       map_sum id length (clawbacksForSource ''stripe_dispute'' ''dp_1'' e)))
     (applyStripeDispute paid_env ''dp_1'' ''ch_1'' None 2000 paid_db) = Inr (True, [2000000, 0], 0, Inr 1)"
  by code_simp

theorem dispute_applies_once_witness:
  "\<exists>outcome bill e. applyStripeDispute paid_env ''dp_1'' ''ch_1'' None 2000 paid_db = Inr ((outcome, bill), e) \<and>
     map remaining (credit_lots e) = [2000000, 0] \<and>
     applyStripeDispute (paid_env\<lparr>ge_bill := bill\<rparr>) ''dp_1'' ''ch_1'' None 2000 e =
       Inr ((ReversalAlreadyApplied example_account, bill), e)"
proof -
  obtain outcome bill e where ran: "applyStripeDispute paid_env ''dp_1'' ''ch_1'' None 2000 paid_db = Inr ((outcome, bill), e)"
    "map remaining (credit_lots e) = [2000000, 0]" "has_clawbacks outcome" "account_debt e example_account = 0"
    "map_sum id length (clawbacksForSource ''stripe_dispute'' ''dp_1'' e) = Inr 1"
    using dispute_example_runs by (cases "applyStripeDispute paid_env ''dp_1'' ''ch_1'' None 2000 paid_db") auto
  obtain recorded where recorded: "clawbacksForSource ''stripe_dispute'' ''dp_1'' e = Inr recorded"
    using ran(5) by (cases "clawbacksForSource ''stripe_dispute'' ''dp_1'' e") auto
  have "applyStripeDispute (paid_env\<lparr>ge_bill := bill\<rparr>) ''dp_1'' ''ch_1'' None 2000 e =
      Inr ((ReversalAlreadyApplied example_account, bill), e)"
    using dispute_applies_once [OF paid_ids paid_db_sys paid_payment ran(1,3) recorded, of 2000] ran(4)
    by (simp add: MAX_SAFE_def wholeMinor_def safe_int_def)
  with ran show ?thesis by (intro exI conjI)
qed

end
