(* ===== verification/Whole_Runs.thy ===== *)
theory Whole_Runs
  imports Audit_Runs Reversals_Once
begin

section \<open>Runs of the whole credits system\<close>

text \<open>
  The steps of the task service together with the refresh of an account, the two sweeps, the reversals of payments and
  whatever billing writes in its own tables, in any order. The state is the billing tables and the credit tables. Every
  run keeps the credit tables sound, is a run of the task book and passes the daily audit.
\<close>

inductive whole_step :: "billing \<times> db \<Rightarrow> billing \<times> db \<Rightarrow> bool" where
  serves: "credit_step d e \<Longrightarrow> whole_step (b, d) (b, e)"
| bills: "whole_step (b, d) (b1, d)"
| refreshes: "ids_ok env \<Longrightarrow> ge_bill env = b \<Longrightarrow> refreshCredits env a d = Inr (result, e) \<Longrightarrow> whole_step (b, d) (b, e)"
| grants_owed: "ids_ok env \<Longrightarrow> ge_bill env = b \<Longrightarrow> sweepCoverage env after n d = Inr (result, e) \<Longrightarrow> whole_step (b, d) (b, e)"
| expires_due: "ids_ok env \<Longrightarrow> ge_bill env = b \<Longrightarrow> sweepExpiry env after n d = Inr (result, e) \<Longrightarrow> whole_step (b, d) (b, e)"
| refunds: "ids_ok env \<Longrightarrow> ge_bill env = b \<Longrightarrow> applyStripeRefund env charge invoice x d = Inr ((outcome, b1), e) \<Longrightarrow>
    whole_step (b, d) (b1, e)"
| disputes: "ids_ok env \<Longrightarrow> ge_bill env = b \<Longrightarrow> applyStripeDispute env disputeId charge invoice x d = Inr ((outcome, b1), e) \<Longrightarrow>
    whole_step (b, d) (b1, e)"
| reinstates: "ids_ok env \<Longrightarrow> ge_bill env = b \<Longrightarrow> reinstateDispute env disputeId charge' invoice y d = Inr ((back_outcome, b1), e) \<Longrightarrow>
    whole_step (b, d) (b1, e)"
| refunds_crypto: "ids_ok env \<Longrightarrow> ge_bill env = b \<Longrightarrow> applyCryptoRefund env a orderId d = Inr (outcome, e) \<Longrightarrow>
    whole_step (b, d) (b, e)"

inductive_cases whole_stepE: "whole_step s t"

text \<open>A step is one of the task service or leaves tasks, calls and cards alone.\<close>

lemma whole_step_sound: "whole_step s t \<Longrightarrow> credit_step (snd s) (snd t) \<or> sound_step (snd s) (snd t)"
  by (cases rule: whole_step.cases)
    (auto simp: sweepCoverage_def sweepExpiry_def intro: keepsD [OF keeps_refreshCredits] keepsD [OF keeps_sweep]
      keepsD [OF keeps_applyStripeRefund] keepsD [OF keeps_applyStripeDispute] keepsD [OF keeps_reinstateDispute]
      keepsD [OF keeps_applyCryptoRefund])

lemma book_of_cong:
  assumes "credit_reservations e = credit_reservations d" "credit_model_calls e = credit_model_calls d"
  shows "book_of e = book_of d"
proof -
  have "task_view_of e = task_view_of d" by (simp add: fun_eq_iff task_view_of_def calls_of_def assms)
  then show ?thesis by (intro ext) (simp add: book_of_def find_reservation_def assms)
qed

lemma sound_step_same: "sys_inv d \<Longrightarrow> sound_step d e \<Longrightarrow> stepped d e"
  by (auto simp: sound_step_def stepped_def intro!: book_of_cong)

lemma whole_step_stepped: "sys_inv (snd s) \<Longrightarrow> whole_step s t \<Longrightarrow> stepped (snd s) (snd t)"
  using whole_step_sound credit_step_stepped sound_step_same by blast

lemma sound_step_audited:
  assumes "audit_inv d" "sound_step d e"
  shows "audit_inv e"
  using assms audit_invD(1,2) [OF assms(1)] by (intro audit_same [OF assms(1)]) (simp_all add: sound_step_def)

lemma whole_run_audited: "whole_step\<^sup>*\<^sup>* s t \<Longrightarrow> audit_inv (snd s) \<Longrightarrow> audit_inv (snd t)"
  by (induction rule: rtranclp_induct) (auto dest: whole_step_sound intro: credit_step_audited sound_step_audited)

interpretation whole: refines whole_step book_step "\<lambda>s. sys_inv (snd s)" "\<lambda>s. book_of (snd s)"
  by unfold_locales (auto dest: whole_step_stepped simp: stepped_def)

lemma lift_run: "credit_step\<^sup>*\<^sup>* d e \<Longrightarrow> whole_step\<^sup>*\<^sup>* (b, d) (b, e)"
  by (induction rule: rtranclp_induct) (auto intro: serves rtranclp.rtrancl_into_rtrancl)

text \<open>C12: the whole credits system keeps its tables sound, implements the task book and passes the audit. Started from a sound state, any number of
  reservations, calls, settlements, heartbeats, sweeps and rate cards, of refreshes, refunds, disputes, won disputes and crypto
  refunds, and of changes by billing in its own tables, in any order and at any times, leave balances equal to the sums of
  the ledger, debts equal to their movements, held credit equal to the holds of open tasks, every row within its
  CHECKs, open enforced tasks in different slots, and what each task has committed equal to what its calls may cost. And every
  run is, seen through tasks and calls alone, a run of the abstract account: a task opens with what it reserved, a call is
  admitted only within it, is marked sent, is paid for once with at most its bound and nothing if it never left, and the
  task ends by paying for every call. So in every reachable state an enforced task owes at most what
  it reserved and a task that ended was charged the sum of its calls; and a task that has ended
  never changes again, whatever runs afterwards: no refresh, refund or dispute can touch it. If the rules of the daily audit held at
  the start, its report after any such run names at most the two rules no write can enforce.\<close>
theorem whole_runs_stay_sound:
  assumes "whole_step\<^sup>*\<^sup>* (b, d) (b1, e)" and "sys_inv d"
  shows "sys_inv e \<and> book_step\<^sup>*\<^sup>* (book_of d) (book_of e) \<and> book_ok (book_of e) \<and>
    (\<forall>i v x. book_of d i = Some v \<longrightarrow> tv_charged v = Some x \<longrightarrow> book_of e i = Some v) \<and>
    (audit_inv d \<and> countable_rows bill e \<longrightarrow> (\<exists>report. auditCreditInvariants bill e = Inr report \<and>
      fst ` set (report_breaches report) \<subseteq> {ReservationOpenPastMaxUntil, ActiveSubscriptionWithoutPaidInvoice}))"
proof -
  have inv: "sys_inv (snd (b, d))" by (simp add: assms(2))
  have "sys_inv e" using whole.run_inv [OF assms(1) inv] by simp
  moreover have "book_step\<^sup>*\<^sup>* (book_of d) (book_of e)" using whole.run_view [OF assms(1) inv] by simp
  moreover have "book_ok (book_of e)"
    using whole.run_stable [where P = book_ok, OF book_step_ok assms(1) inv] sound_book [OF assms(2)] by simp
  moreover have "book_of e i = Some v" if "book_of d i = Some v" "tv_charged v = Some x" for i v x
    using whole.run_stable [where P = "\<lambda>B. B i = Some v", OF _ assms(1) inv] book_step_final that by simp
  moreover have "\<exists>report. auditCreditInvariants bill e = Inr report \<and>
      fst ` set (report_breaches report) \<subseteq> {ReservationOpenPastMaxUntil, ActiveSubscriptionWithoutPaidInvoice}"
    if a: "audit_inv d" "countable_rows bill e"
  proof -
    have "audit_inv e" using whole_run_audited [OF assms(1)] a(1) by simp
    then obtain report m n where "auditCreditInvariants bill e = Inr report"
      "report_breaches report = filter (\<lambda>(_, k). k \<noteq> 0)
         [(ReservationOpenPastMaxUntil, m), (ActiveSubscriptionWithoutPaidInvoice, n)]"
      by (rule audit_report [OF _ a(2)])
    then show ?thesis by auto
  qed
  ultimately show ?thesis by blast
qed

text \<open>
  The examples: a task whose call was sent ends and pays for it; and while a task is open a month is opened, its credits
  are granted, and time passes.
\<close>

theorem whole_runs_stay_sound_witness:
  "(\<exists>e v. book_step\<^sup>*\<^sup>* (book_of (example_task_db Enforce 100)) (book_of e) \<and> book_ok (book_of e) \<and>
     book_of e example_task = Some v \<and> tv_charged v = Some 500000) \<and>
   (\<exists>e. whole_step\<^sup>*\<^sup>* (example_billing, example_task_db Enforce 100) (example_billing, e) \<and>
     map granted (credit_lots e) = [2000000, 100000000] \<and> sys_inv e)"
proof
  let ?db = "example_task_db Enforce 100"
  obtain e where e: "credit_step\<^sup>*\<^sup>* ?db e"
    "find_reservation e example_task = Some (final_row ?db example_task Completed (example_reservation Enforce))"
    by (rule example_run)
  have "task_charge ?db example_task = 500000"
    by (simp add: task_charge_def calls_of_def task_example_simps owed_by_call_def crash_charge_def charged_or_0_def)
  then have "\<exists>v. book_of e example_task = Some v \<and> tv_charged v = Some 500000"
    using e(2) by (simp add: book_of_def task_view_of_def final_row_def settled_row_def)
  with whole_runs_stay_sound [OF lift_run [OF e(1)] example_task_sys]
  show "\<exists>e v. book_step\<^sup>*\<^sup>* (book_of ?db) (book_of e) \<and> book_ok (book_of e) \<and> book_of e example_task = Some v \<and> tv_charged v = Some 500000"
    by blast
next
  obtain r e where ran: "refreshCredits example_env example_account (example_task_db Enforce 100) = Inr (r, e)"
    "map granted (credit_lots e) = [2000000, 100000000]"
    by (rule example_refresh)
  have "whole_step (example_billing, example_task_db Enforce 100) (example_billing, e)"
    by (rule refreshes [OF example_ids _ ran(1)]) (simp add: example_env_def)
  moreover have "whole_step (example_billing, e) (example_billing, e\<lparr>db_now := db_now e + 1\<rparr>)"
    by (rule serves) (simp add: credit_step.waits)
  ultimately have run: "whole_step\<^sup>*\<^sup>* (example_billing, example_task_db Enforce 100) (example_billing, e\<lparr>db_now := db_now e + 1\<rparr>)"
    by (meson converse_rtranclp_into_rtranclp rtranclp.rtrancl_refl)
  with whole_runs_stay_sound [OF run example_task_sys] ran(2)
  show "\<exists>e. whole_step\<^sup>*\<^sup>* (example_billing, example_task_db Enforce 100) (example_billing, e) \<and>
     map granted (credit_lots e) = [2000000, 100000000] \<and> sys_inv e"
    by (intro exI [of _ "e\<lparr>db_now := db_now e + 1\<rparr>"]) simp
qed

end
