(* ===== verification/Spec2Isabelle.thy ===== *)
theory Spec2Isabelle
  imports Ledger_Pages Whole_Runs
begin

text \<open>
  Verification development of the Driftstack API server: the AI credits system, the part of the server
  that meters what a customer's agent tasks spend on language models. All file names are under
  \<^verbatim>\<open>src/\<close>; \<^verbatim>\<open>server\<close> abbreviates \<^verbatim>\<open>apps/server/src\<close>.

  \<^bold>\<open>The program.\<close> Amounts are integers of microcredits (a millionth of a credit) that must stay within
  JavaScript's safe integers. An account has lots of credit, an append-only ledger of movements and
  perhaps a debt. A task reserves credit from the lots (a reservation and its holds), each of its
  model calls commits an upper bound of its price before it is sent and is settled at its actual
  price afterwards, and the end of the task charges the sum of its calls to the held lots, pays what
  reversals still claim, and releases the rest. A task whose process died is settled by a sweep when
  its lease runs out. Shadow tasks measure the same without moving money. The database enforces rows
  by CHECK constraints, moves balances by triggers and checks the balance of every touched task and
  account at COMMIT; the services run each operation in one transaction.

  \<^bold>\<open>The theories\<close>, in the order of the imports.
  \<^item> \<open>Prelude\<close>: faults as the left side of a sum, the result monad, sums over rows, the greedy walk
    \<open>draw\<close> over purses, tables as lists (\<open>lookup_by\<close>, \<open>update_where\<close>) and the locale \<open>row_update\<close> of an
    \<^verbatim>\<open>UPDATE\<close> that keeps its key.
  \<^item> \<open>Credit_Arith\<close>, \<open>Credit_Calendar\<close>, \<open>Credit_Calls\<close>: the pure parts, from
    \<^verbatim>\<open>packages/api-types/src/ai-credits.ts\<close>, \<^verbatim>\<open>server/services/credit-call-fit.ts\<close> and \<^verbatim>\<open>credit-call-charge.ts\<close>:
    units, prices, bounds, UTF-8 lengths, natural months and prorated shares, the ladder that fits a
    call into the room that is left, and the charge of one call.
  \<^item> \<open>Credit_Tables\<close>: the record \<open>db\<close> of the tables of \<^verbatim>\<open>server/db/schema.ts\<close>, the CHECKs, and the
    triggers and deferred checks of the migrations 0128 to 0139; \<open>transaction\<close> is a body and its COMMIT.
  \<^item> \<open>Credit_Ledger\<close>: \<^verbatim>\<open>server/db/credit-ledger-repo.ts\<close>. \<open>Credit_Invariant\<close>, \<open>Ledger_Laws\<close>, \<open>Ledger_Debt\<close>,
    \<open>Ledger_Pages\<close>: balances are the sums of the ledger, movements apply once, expiry and repayment
    take exactly what they may, pages visit every row once.
  \<^item> \<open>Rate_Cards\<close>: the registry of \<^verbatim>\<open>agent-models.ts\<close> and \<^verbatim>\<open>server/db/credit-rate-card-repo.ts\<close>.
    \<open>Rate_Publisher\<close>: \<^verbatim>\<open>server/services/credit-rate-card-publisher.ts\<close> and the owner's rate card routes of
    \<^verbatim>\<open>server/routes/admin-ai-credits.ts\<close>: a card is list price times markup, or refused with every reason.
  \<^item> \<open>Reservation_Repo\<close>: \<^verbatim>\<open>server/db/credit-reservations-repo.ts\<close>. \<open>Reservation_Service\<close> and \<open>Task_Settlement\<close>:
    \<^verbatim>\<open>server/services/credit-reservations.ts\<close>, with the unit lots of \<^verbatim>\<open>credit-windows-repo.ts\<close>. \<open>Lease_Keeper\<close>:
    \<^verbatim>\<open>server/services/ai-credit-lease-keeper.ts\<close>. \<open>Target_Keys\<close>: the keys that name a credit unit.
  \<^item> \<open>Task_Invariant\<close>: \<open>sys_inv\<close>, what is true of all tables between transactions: balances, keys, rows,
    slots, the COMMIT balance of every task, no open task charged.
  \<^item> \<open>Settlement_Steps\<close>, \<open>Settlement_Walk\<close>, \<open>Settlement_Rows\<close>, \<open>Settlement_Reads\<close>, \<open>Settlement_Debt\<close>, \<open>Settlement\<close>:
    what each step of a settlement does (one claim paid, one hold released, the started calls after a
    crash, the claims that become debt), composed into \<open>settle_effect\<close>; \<open>Settlement_Laws\<close> states the
    properties. \<open>Hold_Laws\<close> and \<open>Task_Start\<close> do the same for \<open>reserve\<close>, \<open>Task_Calls\<close> for the life of one
    call, \<open>Task_Shadow\<close> for shadow tasks.
  \<^item> \<open>Task_Book\<close>: the abstract specification, a book of tasks and calls with five kinds of step, and the
    locale \<open>refines\<close> between a step relation and its specification. \<open>Task_Views\<close> reads a database as a
    book, \<open>Task_Steps\<close> shows each operation to be sound and at most one step of the book, \<open>Task_Runs\<close>
    defines the step relation of the service, with the owner's card routes among its steps, and interprets
    \<open>refines\<close> on it.
  \<^item> \<open>Reversal_Plans\<close>, \<open>Debt_Fates\<close>, \<open>Window_Plans\<close>: the plans of \<^verbatim>\<open>server/services/credit-grants.ts\<close>: how an
    amount taken back lands on lots, claims and debt, what a unit keeps and may owe, what became of every
    debt, which coverage and which levels a window follows, what a payment bought. \<open>Clawbacks\<close> and
    \<open>Clawback_Laws\<close>: \<open>clawBack\<close>, the transaction of a refund, dispute or plan change: it charges exactly once
    and keeps \<open>sys_inv\<close>.
  \<^item> \<open>Statements\<close>: awaited steps, reads and loops in the order the code has them. \<open>Window_Repo\<close>,
    \<open>Billing_Coverage\<close>, \<open>Window_Writes\<close>: \<^verbatim>\<open>server/db/credit-windows-repo.ts\<close>: what it reads of windows, units, lots
    and reversals; its queries over payments, subscriptions, crypto entitlements and plan overrides; what it writes.
  \<^item> \<open>Unit_States\<close>, \<open>Give_Backs\<close>, \<open>Credit_Refresh\<close>, \<open>Account_Refresh\<close>: the rest of \<^verbatim>\<open>credit-grants.ts\<close>: what a unit
    of credit holds, spent and is charged; returning credit and forgiving debt; bringing the units of a payment to
    what it still pays for; \<open>refreshCredits\<close>, which expires lots, opens the window owed, follows the levels and
    repays debt; and the two sweeps over accounts.
  \<^item> \<open>Refresh_Laws\<close> and \<open>Refresh_Sound\<close>: \<open>keeps\<close>, a statement all of whose runs keep \<open>sys_inv\<close>, tasks, calls and
    cards, with a rule per operation, up to \<open>refresh_keeps_the_books\<close>. \<open>Payment_Reversals\<close>:
    \<^verbatim>\<open>server/services/credit-clawbacks.ts\<close>, refunds, disputes, won disputes and crypto refunds, which keep the same. \<open>Reversals_Once\<close>: a refund
    or dispute reported again changes nothing.
  \<^item> \<open>Credit_Audit\<close>: \<^verbatim>\<open>server/db/credit-invariant-audit-repo.ts\<close> and \<^verbatim>\<open>server/services/credit-invariant-audit.ts\<close>,
    the daily comparison of the tables. \<open>Claim_Laws\<close> (claims only shrink, and the last open task settles
    them all) and \<open>Audit_Runs\<close> show that no run of the service gives it anything to report.
  \<^item> \<open>Whole_Runs\<close>: the steps of the task service with the refreshes, the sweeps over accounts, the reversals and any
    change of the billing tables, in any order: every run is sound, a run of the task book, and passes the audit.

  \<^bold>\<open>How the model reads the code.\<close> Each method of a repository is a function on \<open>db\<close> that returns a fault or
  a result and the next \<open>db\<close>; a SQL statement is its WHERE as a predicate and its SET as a row function.
  A fault (\<^verbatim>\<open>throw\<close>, a constraint, a check at COMMIT) leaves the state to the caller, which rolls back. Row
  locks make the operations on one account run one after the other, so an interleaving of processes
  is a sequence of whole transactions: the steps of \<open>Task_Runs\<close> and \<open>Whole_Runs\<close>. Ids drawn by the database or the
  caller are arguments, fresh by hypothesis. Instants are milliseconds, as a JavaScript Date; Postgres keeps
  microseconds, so two rows written within one millisecond are ordered by their ids in the model. Money columns are
  \<^verbatim>\<open>bigint\<close> and every read of one is checked to be a safe integer; the \<^verbatim>\<open>integer\<close> columns of a model call refuse
  what does not fit four bytes (\<open>call_row_fits\<close>, \<open>tokens_fit\<close>), the counters of windows and cards are not bounded.
  The foreign keys of a ledger row to its task and its card are not checked: its writers pass a task they have read.

  \<^bold>\<open>Bounds.\<close> \<open>settle_headroom\<close> asks that debt and standing claims together are a safe integer and that the
  ledger, grown by at most (holds + 1) * (claims + 3) rows, stays under 10 ^ 17 rows; a settlement
  writes no more rows than that. \<open>call_input_ok\<close> and \<open>start_input_ok\<close> name the fresh ids and the amounts
  JavaScript can hold. No definition uses fuel: every recursion is over a list or has a measure.

  \<^bold>\<open>Parameters.\<close> The refresh that \<open>reserve\<close> runs under a savepoint is an argument of it, because the service
  takes a refresher as a dependency or runs without one; \<open>refresh_sound\<close> states what it relies on, and
  \<open>account_refresher_sound\<close> shows that the refresh of \<open>Account_Refresh\<close> has it. \<open>new_id\<close> stands for
  \<^verbatim>\<open>gen_random_uuid()\<close>; \<open>ids_ok\<close> says that what it draws has the shape of a uuid. The billing tables belong
  to another service: they are an argument of the audit and of the refresh (\<open>billing\<close>), and the reversals
  thread them, because they write the refunded and disputed amounts of a payment. The publisher multiplies list prices as binary floats
  and takes a product within \<open>1 / 10 ^ 9\<close> of a whole number as that number; the model multiplies rationals
  under the same test.

  \<^bold>\<open>Not modelled.\<close> Arming the job that runs at the end of a window, the operator's grants and the
  cutover. Log lines, counters, alerts, timers and the guards in front of a route. The agent
  runtime, routes, identity, billing, profiles, the desktop client and the SDKs: input and output, or
  state the credits system does not share.
\<close>

end
